(* ===== verification/Prelude.thy ===== *)
theory Prelude
  imports Main "HOL-Library.Word"
begin

text \<open>
  Shared vocabulary of the development: the machine integers of the Rust code, its
  saturating and checked arithmetic, results with an error side, big-endian byte strings
  and slices, and the \<^theory_text>\<open>named_theorems\<close> collections the component
  theories add to.

  \<^item> \<open>u8\<close>, \<open>u16\<close>, \<open>u32\<close>, \<open>u64\<close> are words of that width; \<open>[u8; 4]\<close> and \<open>[u8; 16]\<close>
    are \<open>arr4\<close> and \<open>arr16\<close>, the words whose big-endian bytes they are, so that a value
    has exactly the declared number of bytes.
  \<^item> \<open>usize\<close> is \<open>nat\<close>; where the code saturates a \<open>usize\<close> the bound \<open>usize_max\<close> of a
    64-bit target is written out.
  \<^item> \<open>Result<T, E>\<close> is \<open>'e + 'a\<close> with \<open>Inl\<close> for \<open>Err\<close>; the \<open>?\<close> operator is \<open>rbind\<close>.
\<close>

named_theorems wire_simps "unfolding rules for encoders and decoders"
named_theorems inv_simps "unfolding rules for state invariants"

section \<open>Machine integers\<close>

type_synonym byte = "8 word"
type_synonym u16 = "16 word"
type_synonym u32 = "32 word"
type_synonym u64 = "64 word"
type_synonym arr4 = "32 word"
type_synonym arr16 = "128 word"

abbreviation u64_max :: u64 where
  "u64_max \<equiv> - 1"

definition usize_max :: nat where
  "usize_max = 18446744073709551615"

definition usize_add :: "nat \<Rightarrow> nat \<Rightarrow> nat" where
  "usize_add a b = min (a + b) usize_max"

definition usize_mul :: "nat \<Rightarrow> nat \<Rightarrow> nat" where
  "usize_mul a b = min (a * b) usize_max"

lemma usize_small:
  "a + b < 1000000 \<Longrightarrow> usize_add a b = a + b" "a * b < 1000000 \<Longrightarrow> usize_mul a b = a * b"
  by (simp_all add: usize_add_def usize_mul_def usize_max_def)

text \<open>\<open>saturating_add\<close> and \<open>saturating_sub\<close> on unsigned words.\<close>

definition sat_add :: "'a::len word \<Rightarrow> 'a word \<Rightarrow> 'a word" where
  "sat_add a b = (if unat a + unat b < 2 ^ LENGTH('a) then a + b else - 1)"

definition sat_sub :: "'a::len word \<Rightarrow> 'a word \<Rightarrow> 'a word" where
  "sat_sub a b = (if b \<le> a then a - b else 0)"

abbreviation sat_inc :: "'a::len word \<Rightarrow> 'a word" where
  "sat_inc a \<equiv> sat_add a 1"

lemma unat_bound: "unat (w :: 'a::len word) < 2 ^ LENGTH('a)"
  by (rule unsigned_less)

lemma unat_minus_1_word: "unat (- 1 :: 'a::len word) = 2 ^ LENGTH('a) - 1"
  by (simp add: unsigned_minus_1_eq_mask mask_eq_exp_minus_1)

lemma unat_sat_add:
  fixes a b :: "'a::len word"
  shows "unat (sat_add a b) = min (unat a + unat b) (2 ^ LENGTH('a) - 1)"
  by (auto simp: sat_add_def unat_plus_if' unat_minus_1_word min_def)

lemma unat_sat_sub:
  fixes a b :: "'a::len word"
  shows "unat (sat_sub a b) = unat a - unat b"
  by (auto simp: sat_sub_def unat_sub word_le_nat_alt)

text \<open>A saturating counter counts up to its largest value.\<close>

lemma sat_count:
  "unat w = min n (2 ^ 64 - 1) \<Longrightarrow> unat (sat_add w (of_bool b) :: u64) = min (n + of_bool b) (2 ^ 64 - 1)"
  by (cases b) (auto simp: unat_sat_add min_def)

lemma sat_add_mono_left: "(a::'a::len word) \<le> sat_add a b"
proof -
  have "unat a \<le> 2 ^ LENGTH('a) - 1"
    using unat_bound [of a] by linarith
  then show ?thesis by (simp add: word_le_nat_alt unat_sat_add)
qed

lemma sat_add_less: "(c::'a::len word) < a \<Longrightarrow> c < sat_add a b"
  using sat_add_mono_left [of a b] by auto

lemma sat_sub_le: "sat_sub a b \<le> (a::'a::len word)"
  by (simp add: word_le_nat_alt unat_sat_sub)

lemma word_not_max_less: "(a::'a::len word) \<noteq> - 1 \<longleftrightarrow> a < - 1"
  using word_n1_ge [of a] by (metis order_le_imp_less_or_eq less_irrefl)

lemma word_less_not_max: "(a::'a::len word) < b \<Longrightarrow> a \<noteq> - 1"
  using word_n1_ge [of b] by auto

lemma unat_not_max: "(a::'a::len word) \<noteq> - 1 \<Longrightarrow> unat a + 1 < 2 ^ LENGTH('a)"
proof -
  assume "a \<noteq> - 1"
  then have "unat a < unat (- 1 :: 'a word)"
    by (simp add: word_not_max_less word_less_nat_alt)
  then show ?thesis by (simp add: unat_minus_1_word)
qed

lemma unat_inc: "(a::'a::len word) \<noteq> - 1 \<Longrightarrow> unat (a + 1) = unat a + 1"
  using unat_not_max [of a] by (simp add: unat_plus_if')

lemma sat_inc_eq: "(a::'a::len word) \<noteq> - 1 \<Longrightarrow> sat_inc a = a + 1"
  using unat_not_max [of a] by (simp add: sat_add_def)

lemma word_inc_less: "(a::'a::len word) \<noteq> - 1 \<Longrightarrow> b < a + 1 \<longleftrightarrow> b \<le> a"
  by (simp add: word_less_nat_alt word_le_nat_alt unat_inc less_Suc_eq_le)

lemma word_inc_nonzero: "(a::'a::len word) \<noteq> - 1 \<Longrightarrow> a + 1 \<noteq> 0"
  using unat_inc [of a] by auto

section \<open>Results\<close>

fun rbind :: "'e + 'a \<Rightarrow> ('a \<Rightarrow> 'e + 'b) \<Rightarrow> 'e + 'b" where
  "rbind (Inl e) f = Inl e"
| "rbind (Inr x) f = f x"

definition ensure :: "bool \<Rightarrow> 'e \<Rightarrow> 'e + unit" where
  "ensure c e = (if c then Inr () else Inl e)"

lemma rbind_Inr: "rbind x f = Inr y \<longleftrightarrow> (\<exists>a. x = Inr a \<and> f a = Inr y)"
  by (cases x) auto

lemma rbind_Inl: "rbind x f = Inl e \<longleftrightarrow> x = Inl e \<or> (\<exists>a. x = Inr a \<and> f a = Inl e)"
  by (cases x) auto

lemma ensure_Inr [simp]: "ensure c e = Inr u \<longleftrightarrow> c"
  by (simp add: ensure_def)

lemma ensure_Inl [simp]: "ensure c e = Inl e' \<longleftrightarrow> \<not> c \<and> e' = e"
  by (auto simp: ensure_def)

lemma rbind_ensure [simp]: "rbind (ensure c e) f = (if c then f () else Inl e)"
  by (simp add: ensure_def)

section \<open>Big-endian byte strings\<close>

fun be_nat :: "nat \<Rightarrow> nat \<Rightarrow> byte list" where
  "be_nat 0 x = []"
| "be_nat (Suc n) x = be_nat n (x div 256) @ [word_of_nat (x mod 256)]"

definition nat_be :: "byte list \<Rightarrow> nat" where
  "nat_be bs = foldl (\<lambda>a b. a * 256 + unat b) 0 bs"

lemma length_be_nat [simp]: "length (be_nat n x) = n"
  by (induction n arbitrary: x) auto

text \<open>For evaluation at a numeral width.\<close>

lemma be_nat_numeral:
  "be_nat (numeral n) x = be_nat (pred_numeral n) (x div 256) @ [word_of_nat (x mod 256)]"
  by (subst numeral_eq_Suc) (simp only: be_nat.simps)

lemma nat_be_Nil [simp]: "nat_be [] = 0"
  by (simp add: nat_be_def)

lemma nat_be_snoc [simp]: "nat_be (bs @ [b]) = nat_be bs * 256 + unat b"
  by (simp add: nat_be_def)

lemma unat_byte_of_nat: "unat (word_of_nat (x mod 256) :: byte) = x mod 256"
  by (simp add: unat_of_nat)

lemma nat_be_be_nat: "nat_be (be_nat n x) = x mod 256 ^ n"
proof (induction n arbitrary: x)
  case 0
  then show ?case by simp
next
  case (Suc n)
  have "nat_be (be_nat (Suc n) x) = ((x div 256) mod 256 ^ n) * 256 + x mod 256"
    by (simp add: Suc unat_of_nat)
  also have "\<dots> = x mod (256 * 256 ^ n)"
    by (simp add: mod_mult2_eq mult.commute)
  finally show ?case by simp
qed

lemma be_nat_nat_be: "be_nat (length bs) (nat_be bs) = bs"
proof (induction bs rule: rev_induct)
  case Nil
  then show ?case by simp
next
  case (snoc b bs)
  have b: "unat b < 256"
    using unat_bound [of b] by simp
  then have "(nat_be bs * 256 + unat b) div 256 = nat_be bs"
    and "(nat_be bs * 256 + unat b) mod 256 = unat b"
    by simp_all
  with snoc show ?case by simp
qed

lemma nat_be_less: "nat_be bs < 256 ^ length bs"
proof (induction bs rule: rev_induct)
  case Nil
  then show ?case by simp
next
  case (snoc b bs)
  have "unat b < 256"
    using unat_bound [of b] by simp
  moreover have "nat_be bs + 1 \<le> 256 ^ length bs"
    using snoc by simp
  ultimately have "nat_be bs * 256 + unat b < (nat_be bs + 1) * 256"
    by simp
  also have "\<dots> \<le> 256 ^ length bs * 256"
    using \<open>nat_be bs + 1 \<le> 256 ^ length bs\<close> by (rule mult_le_mono1)
  finally show ?case by simp
qed

text \<open>\<open>uN::to_be_bytes\<close> and \<open>uN::from_be_bytes\<close> for the widths the code uses.\<close>

definition to_be :: "'a::len word \<Rightarrow> byte list" where
  "to_be w = be_nat (LENGTH('a) div 8) (unat w)"

definition from_be :: "byte list \<Rightarrow> 'a::len word" where
  "from_be bs = word_of_nat (nat_be bs)"

lemma length_to_be [simp]: "length (to_be (w :: 'a::len word)) = LENGTH('a) div 8"
  by (simp add: to_be_def)

lemma from_be_to_be:
  fixes w :: "'a::len word"
  assumes "8 dvd LENGTH('a)"
  shows "from_be (to_be w) = w"
proof -
  have "(256::nat) ^ (LENGTH('a) div 8) = 2 ^ (8 * (LENGTH('a) div 8))"
    by (simp add: power_mult)
  also have "\<dots> = 2 ^ LENGTH('a)"
    using assms by simp
  finally have p: "(256::nat) ^ (LENGTH('a) div 8) = 2 ^ LENGTH('a)" .
  then have "unat w mod 256 ^ (LENGTH('a) div 8) = unat w"
    using unat_bound [of w] by simp
  then show ?thesis by (simp add: from_be_def to_be_def nat_be_be_nat)
qed

lemma to_be_from_be:
  assumes len: "length bs = LENGTH('a) div 8" and "8 dvd LENGTH('a::len)"
  shows "to_be (from_be bs :: 'a word) = bs"
proof -
  have "(256::nat) ^ (LENGTH('a) div 8) = 2 ^ (8 * (LENGTH('a) div 8))"
    by (simp add: power_mult)
  also have "\<dots> = 2 ^ LENGTH('a)"
    using assms(2) by simp
  finally have "nat_be bs < 2 ^ LENGTH('a)"
    using nat_be_less [of bs] len by simp
  then have "unat (word_of_nat (nat_be bs) :: 'a word) = nat_be bs"
    by (simp add: unat_of_nat)
  then show ?thesis
    using be_nat_nat_be [of bs] len by (simp add: to_be_def from_be_def)
qed

lemma from_be_to_be_widths [simp]:
  "from_be (to_be (a::u16)) = a" "from_be (to_be (b::u32)) = b"
  "from_be (to_be (c::u64)) = c" "from_be (to_be (d::arr16)) = d"
  by (simp_all add: from_be_to_be)

lemma to_be_from_be_widths [simp]:
  "length bs = 2 \<Longrightarrow> to_be (from_be bs :: u16) = bs"
  "length bs = 4 \<Longrightarrow> to_be (from_be bs :: u32) = bs"
  "length bs = 8 \<Longrightarrow> to_be (from_be bs :: u64) = bs"
  "length bs = 16 \<Longrightarrow> to_be (from_be bs :: arr16) = bs"
  by (simp_all add: to_be_from_be)

lemma unat_from_be_u16: "length bs = 2 \<Longrightarrow> unat (from_be bs :: u16) = nat_be bs"
  using nat_be_less [of bs] by (simp add: from_be_def unat_of_nat)

text \<open>\<open>bytes.iter().all(|b| *b == 0)\<close>: exactly the zero word, for an array held as a word.\<close>

definition all_zero :: "byte list \<Rightarrow> bool" where
  "all_zero bs = list_all (\<lambda>b. b = 0) bs"

lemma all_zero_replicate: "all_zero bs \<longleftrightarrow> bs = replicate (length bs) 0"
  unfolding all_zero_def by (induction bs) auto

lemma be_nat_0: "be_nat n 0 = replicate n 0"
  by (induction n) (simp_all add: replicate_append_same)

lemma all_zero_to_be:
  fixes w :: "'a::len word"
  assumes "8 dvd LENGTH('a)"
  shows "all_zero (to_be w) \<longleftrightarrow> w = 0"
proof
  assume "all_zero (to_be w)"
  then have "to_be w = to_be (0 :: 'a word)"
    by (simp add: all_zero_replicate) (simp add: to_be_def be_nat_0)
  then have "from_be (to_be w) = (from_be (to_be (0 :: 'a word)) :: 'a word)"
    by simp
  with assms show "w = 0" by (simp add: from_be_to_be)
next
  assume "w = 0"
  then show "all_zero (to_be w)" by (simp add: to_be_def be_nat_0 all_zero_replicate)
qed

lemma all_zero_to_be_widths [simp]:
  "all_zero (to_be (a::arr4)) \<longleftrightarrow> a = 0" "all_zero (to_be (b::arr16)) \<longleftrightarrow> b = 0"
  by (simp_all add: all_zero_to_be)

section \<open>Slices\<close>

text \<open>\<open>xs[i..j]\<close>; every use in the code is guarded so that \<open>i \<le> j \<le> xs.len()\<close>.\<close>

definition slice :: "nat \<Rightarrow> nat \<Rightarrow> 'a list \<Rightarrow> 'a list" where
  "slice i j xs = take (j - i) (drop i xs)"

lemma length_slice: "j \<le> length xs \<Longrightarrow> length (slice i j xs) = j - i"
  by (simp add: slice_def)

lemma slice_append_left: "j \<le> length xs \<Longrightarrow> slice i j (xs @ ys) = slice i j xs"
  by (cases "i \<le> j") (auto simp: slice_def)

lemma slice_join:
  assumes "i \<le> j" and "j \<le> k"
  shows "slice i j xs @ slice j k xs = slice i k xs"
proof -
  from assms have "k - i = (j - i) + (k - j)" and "drop j xs = drop (j - i) (drop i xs)"
    by simp_all
  then show ?thesis by (simp add: slice_def take_add)
qed

end
