(* ===== verification/CoreTypes.thy ===== *)
theory CoreTypes
  imports Prelude
begin

text \<open>
  The V2 identifiers of \<open>crates/sg-core/src/v2.rs\<close>. The opaque identities are newtypes
  around fixed-size integers or byte arrays with no behaviour of their own, so they are
  the words themselves; the traffic class is an enumeration with its wire values.
\<close>

type_synonym session_id = arr16
type_synonym device_id = arr16
type_synonym path_id = u16
type_synonym flow_id = u64
type_synonym packet_id = u64

datatype traffic_class = Realtime | Interactive | Bulk | Control

fun tc_from_wire :: "byte \<Rightarrow> traffic_class option" where
  "tc_from_wire value =
     (if value = 0 then Some Realtime
      else if value = 1 then Some Interactive
      else if value = 2 then Some Bulk
      else if value = 3 then Some Control
      else None)"

fun tc_to_wire :: "traffic_class \<Rightarrow> byte" where
  "tc_to_wire Realtime = 0"
| "tc_to_wire Interactive = 1"
| "tc_to_wire Bulk = 2"
| "tc_to_wire Control = 3"

lemma tc_from_to_wire [simp]: "tc_from_wire (tc_to_wire c) = Some c"
  by (cases c) simp_all

lemma tc_from_wire_Some: "tc_from_wire b = Some c \<Longrightarrow> tc_to_wire c = b"
  by (auto split: if_splits)

declare tc_from_wire.simps [simp del]

end
