(* ===== verification/PoolAddr.thy ===== *)
theory PoolAddr
  imports CoreTypes
begin

text \<open>
  The address arithmetic of the gateway's lease pool,
  \<open>apps/streamguard-gateway/src/v2/address_pool.rs\<close>: the validated configuration
  (\<open>AddressPoolConfig::new\<close>), the IPv4 network mask and host count, and the \<open>/64\<close> subnets of
  the IPv6 parent prefix. An address \<open>[u8; 4]\<close> is the word \<open>u32::from_be_bytes\<close> makes of it,
  and so is a prefix \<open>[u8; 16]\<close>, whose upper and lower eight bytes are \<open>hi64\<close> and \<open>lo64\<close>.

  The lemmas relate the mask tests to intervals: the usable IPv4 addresses are those strictly
  between network and broadcast that are neither gateway nor reserved, and the usable prefixes
  are exactly the subnets one to \<open>usable_ipv6_subnets\<close>, each with its own prefix.
\<close>

unbundle bit_operations_syntax

section \<open>Configuration\<close>

definition max_reserved_ipv4 :: nat where
  "max_reserved_ipv4 = 32"

definition max_leases_hard_cap :: nat where
  "max_leases_hard_cap = 65536"

record address_pool_config =
  apc_ipv4_network :: arr4
  apc_ipv4_prefix_len :: byte
  apc_ipv4_gateway :: arr4
  apc_reserved_ipv4 :: "arr4 list"
  apc_ipv6_base :: arr16
  apc_ipv6_parent_prefix_len :: byte
  apc_maximum_leases :: nat
  apc_pending_ttl_ms :: u64
  apc_lease_ttl_ms :: u64
  apc_maximum_pending_releases :: nat

datatype address_pool_error =
    PInvalidConfiguration
  | PUnavailable
  | PExhausted
  | POwnerMismatch
  | PUnknownLease
  | PExpired
  | PStore

definition prefix_mask_v4 :: "byte \<Rightarrow> u32" where
  "prefix_mask_v4 prefix_len =
     (if prefix_len = 0 then 0
      else if 32 \<le> prefix_len then - 1
      else push_bit (32 - unat prefix_len) (- 1))"

definition usable_ipv4_hosts :: "u32 \<Rightarrow> u32 \<Rightarrow> nat \<Rightarrow> u64" where
  "usable_ipv4_hosts network broadcast reserved_count =
     (if broadcast \<le> sat_inc network then 0
      else sat_sub (ucast (sat_sub (broadcast - network) 1)) (1 + of_nat reserved_count))"

definition ipv6_base_masked :: "arr16 \<Rightarrow> byte \<Rightarrow> bool" where
  "ipv6_base_masked base parent_len =
     (let msk = (if 128 \<le> parent_len then - 1 else push_bit (128 - unat parent_len) (- 1))
      in base AND NOT msk = 0)"

definition usable_ipv6_subnets :: "byte \<Rightarrow> u64" where
  "usable_ipv6_subnets parent_len =
     (if 63 < parent_len then 0
      else let bits = 64 - unat parent_len in
        if 64 \<le> bits then 0 else sat_sub (push_bit bits 1) 1)"

text \<open>The loop over the reserved addresses with the set of those seen.\<close>

fun reserved_valid :: "u32 \<Rightarrow> u32 \<Rightarrow> u32 \<Rightarrow> u32 \<Rightarrow> u32 list \<Rightarrow> arr4 list \<Rightarrow> bool" where
  "reserved_valid msk network broadcast gateway seen [] = True"
| "reserved_valid msk network broadcast gateway seen (value # rest) =
     (if value AND msk \<noteq> network \<or> value = network \<or> value = broadcast \<or> value = gateway then False
      else if value \<in> set seen then False
      else reserved_valid msk network broadcast gateway (value # seen) rest)"

definition pool_config_new ::
  "arr4 \<Rightarrow> byte \<Rightarrow> arr4 \<Rightarrow> arr4 list \<Rightarrow> arr16 \<Rightarrow> byte \<Rightarrow> nat \<Rightarrow> u64 \<Rightarrow> u64 \<Rightarrow> nat
    \<Rightarrow> address_pool_error + address_pool_config" where
  "pool_config_new network len gateway reserved base parent leases pending_ttl lease_ttl releases =
     (let msk = prefix_mask_v4 len;
          masked = network AND msk;
          broadcast = masked OR NOT msk;
          usable_v6 = usable_ipv6_subnets parent;
          usable_v4 = usable_ipv4_hosts masked broadcast (length reserved)
      in if \<not> (8 \<le> len \<and> len \<le> 30) then Inl PInvalidConfiguration
      else if leases = 0 \<or> max_leases_hard_cap < leases then Inl PInvalidConfiguration
      else if \<not> (1 \<le> pending_ttl \<and> pending_ttl \<le> 3600000) then Inl PInvalidConfiguration
      else if \<not> (1000 \<le> lease_ttl \<and> lease_ttl \<le> 86400000) then Inl PInvalidConfiguration
      else if releases = 0 \<or> max_leases_hard_cap < releases then Inl PInvalidConfiguration
      else if max_reserved_ipv4 < length reserved then Inl PInvalidConfiguration
      else if \<not> (16 \<le> parent \<and> parent \<le> 63) then Inl PInvalidConfiguration
      else if network \<noteq> masked then Inl PInvalidConfiguration
      else if gateway AND msk \<noteq> masked \<or> gateway = masked \<or> gateway = broadcast then Inl PInvalidConfiguration
      else if \<not> reserved_valid msk masked broadcast gateway [] reserved then Inl PInvalidConfiguration
      else if \<not> ipv6_base_masked base parent then Inl PInvalidConfiguration
      else if usable_v6 = 0 \<or> unat usable_v6 < leases then Inl PInvalidConfiguration
      else if usable_v4 = 0 \<or> unat usable_v4 < leases then Inl PInvalidConfiguration
      else Inr \<lparr>
        apc_ipv4_network = network,
        apc_ipv4_prefix_len = len,
        apc_ipv4_gateway = gateway,
        apc_reserved_ipv4 = reserved,
        apc_ipv6_base = base,
        apc_ipv6_parent_prefix_len = parent,
        apc_maximum_leases = leases,
        apc_pending_ttl_ms = pending_ttl,
        apc_lease_ttl_ms = lease_ttl,
        apc_maximum_pending_releases = releases\<rparr>)"

text \<open>The fields are private, so every configuration is one that \<open>new\<close> returned.\<close>

definition pool_config_ok :: "address_pool_config \<Rightarrow> bool" where
  "pool_config_ok c \<longleftrightarrow>
     pool_config_new (apc_ipv4_network c) (apc_ipv4_prefix_len c) (apc_ipv4_gateway c)
       (apc_reserved_ipv4 c) (apc_ipv6_base c) (apc_ipv6_parent_prefix_len c) (apc_maximum_leases c)
       (apc_pending_ttl_ms c) (apc_lease_ttl_ms c) (apc_maximum_pending_releases c) = Inr c"

section \<open>Usable addresses\<close>

definition apc_network :: "address_pool_config \<Rightarrow> u32" where
  "apc_network c = apc_ipv4_network c AND prefix_mask_v4 (apc_ipv4_prefix_len c)"

definition apc_broadcast :: "address_pool_config \<Rightarrow> u32" where
  "apc_broadcast c = apc_network c OR NOT (prefix_mask_v4 (apc_ipv4_prefix_len c))"

definition ipv4_usable :: "address_pool_config \<Rightarrow> arr4 \<Rightarrow> bool" where
  "ipv4_usable c value \<longleftrightarrow>
     (if value AND prefix_mask_v4 (apc_ipv4_prefix_len c) \<noteq> apc_network c
         \<or> value = apc_network c \<or> value = apc_broadcast c then False
      else if value = apc_ipv4_gateway c then False
      else if value \<in> set (apc_reserved_ipv4 c) then False
      else True)"

definition hi64 :: "arr16 \<Rightarrow> u64" where
  "hi64 p = ucast (drop_bit 64 p)"

definition lo64 :: "arr16 \<Rightarrow> u64" where
  "lo64 p = ucast p"

definition parent_mask_v6 :: "byte \<Rightarrow> u64" where
  "parent_mask_v6 parent_len =
     (let parent_bits = min (unat parent_len) 64 in
      if parent_bits = 0 then 0
      else if 64 \<le> parent_bits then - 1
      else push_bit (64 - parent_bits) (- 1))"

definition ipv6_subnet_prefix :: "arr16 \<Rightarrow> byte \<Rightarrow> u64 \<Rightarrow> arr16" where
  "ipv6_subnet_prefix base parent_len subnet =
     (let subnet_bits = 64 - min (unat parent_len) 64;
          subnet_masked = (if 64 \<le> subnet_bits then subnet else subnet AND (push_bit subnet_bits 1 - 1));
          top = (hi64 base AND parent_mask_v6 parent_len) OR subnet_masked
      in push_bit 64 (ucast top))"

definition ipv6_prefix_matches_parent :: "arr16 \<Rightarrow> arr16 \<Rightarrow> byte \<Rightarrow> bool" where
  "ipv6_prefix_matches_parent prefix base parent_len \<longleftrightarrow>
     hi64 prefix AND parent_mask_v6 parent_len = hi64 base AND parent_mask_v6 parent_len"

definition ipv6_is_64_aligned :: "arr16 \<Rightarrow> bool" where
  "ipv6_is_64_aligned prefix \<longleftrightarrow> all_zero (to_be (lo64 prefix))"

definition ipv6_subnet_index :: "arr16 \<Rightarrow> byte \<Rightarrow> arr16 \<Rightarrow> u64 option" where
  "ipv6_subnet_index base parent_len prefix =
     (if \<not> ipv6_prefix_matches_parent prefix base parent_len then None
      else
        let parent_bits = min (unat parent_len) 64 in
        if 64 \<le> parent_bits then Some 0
        else
          let subnet_bits = 64 - parent_bits;
              msk = (if 64 \<le> subnet_bits then - 1 else push_bit subnet_bits 1 - 1)
          in Some (hi64 prefix AND msk))"

definition ipv6_usable :: "address_pool_config \<Rightarrow> arr16 \<Rightarrow> bool" where
  "ipv6_usable c prefix \<longleftrightarrow>
     (if \<not> ipv6_prefix_matches_parent prefix (apc_ipv6_base c) (apc_ipv6_parent_prefix_len c) then False
      else if \<not> ipv6_is_64_aligned prefix then False
      else if ipv6_subnet_index (apc_ipv6_base c) (apc_ipv6_parent_prefix_len c) prefix = Some 0 then False
      else True)"

section \<open>Prefixes as intervals\<close>

lemma and_not_mask: "w AND NOT (mask k) = w - (take_bit k w :: 'a::len word)"
proof -
  have "(w AND NOT (mask k)) + take_bit k w = (w AND NOT (mask k)) OR take_bit k w"
    by (rule disjunctive_add_eq_or, rule bit_word_eqI) (auto simp: bit_simps)
  also have "\<dots> = w" by (rule bit_word_eqI) (auto simp: bit_simps)
  finally show ?thesis by (simp add: eq_diff_eq)
qed

lemma unat_take_bit: "unat (take_bit k w :: 'a::len word) = unat w mod 2 ^ k"
  unfolding unsigned_take_bit_eq by (rule take_bit_eq_mod)

lemma unat_and_not_mask: "unat (w AND NOT (mask k) :: 'a::len word) = unat w div 2 ^ k * 2 ^ k"
proof -
  have "take_bit k w \<le> w" by (simp add: word_le_nat_alt unat_take_bit)
  then have "unat (w AND NOT (mask k)) = unat w - unat w mod 2 ^ k"
    by (simp add: and_not_mask unat_sub unat_take_bit)
  then show ?thesis by (simp add: minus_mod_eq_div_mult)
qed

lemma unat_mask_word: "k < LENGTH('a) \<Longrightarrow> unat (mask k :: 'a::len word) = 2 ^ k - 1"
proof -
  assume "k < LENGTH('a)"
  then have "unat (take_bit k (- 1 :: 'a word)) = mask k"
    unfolding unsigned_take_bit_eq unsigned_minus_1_eq_mask by (simp add: take_bit_of_mask)
  then show ?thesis by (simp add: mask_eq_exp_minus_1)
qed

lemma unat_exp: "k < LENGTH('a) \<Longrightarrow> unat (2 ^ k :: 'a::len word) = 2 ^ k"
proof -
  assume k: "k < LENGTH('a)"
  then have "(2::nat) ^ k < 2 ^ LENGTH('a)" by simp
  then have "unat (word_of_nat (2 ^ k) :: 'a word) = 2 ^ k" unfolding unat_of_nat by simp
  then show ?thesis by simp
qed

lemma unat_or_mask:
  assumes "k < LENGTH('a)"
  shows "unat ((w AND NOT (mask k)) OR mask k :: 'a::len word) = unat w div 2 ^ k * 2 ^ k + (2 ^ k - 1)"
proof -
  let ?n = "w AND NOT (mask k)"
  have m: "unat (mask k :: 'a word) = 2 ^ k - 1"
    using assms by (rule unat_mask_word)
  have "?n + mask k = ?n OR mask k"
    by (rule disjunctive_add_eq_or, rule bit_word_eqI) (auto simp: bit_simps)
  moreover have "unat ?n + unat (mask k :: 'a word) < 2 ^ LENGTH('a)"
  proof -
    obtain j where j: "LENGTH('a) = k + j" and "0 < j" using assms less_iff_Suc_add by (metis less_imp_add_positive)
    have "unat w div 2 ^ k < 2 ^ j"
      using unat_bound [of w] by (simp add: j power_add less_mult_imp_div_less mult.commute)
    then have "(unat w div 2 ^ k + 1) * 2 ^ k \<le> 2 ^ j * 2 ^ k" by (intro mult_le_mono1) simp
    moreover have "(0::nat) < 2 ^ k" by simp
    ultimately have "unat w div 2 ^ k * 2 ^ k + (2 ^ k - 1) < 2 ^ j * 2 ^ k" unfolding add_mult_distrib by linarith
    then show ?thesis by (simp only: m unat_and_not_mask j power_add mult.commute)
  qed
  ultimately show ?thesis using m by (metis unat_and_not_mask unat_plus_if')
qed

text \<open>Belonging to a network is lying between its first and its last address.\<close>

lemma in_network_iff:
  assumes "k < LENGTH('a)"
  shows "v AND NOT (mask k) = n AND NOT (mask k) \<longleftrightarrow>
    n AND NOT (mask k) \<le> v \<and> v \<le> ((n AND NOT (mask k)) OR mask k :: 'a::len word)"
proof -
  define N V where "N = unat n" and "V = unat v"
  have "V div 2 ^ k * 2 ^ k = N div 2 ^ k * 2 ^ k \<longleftrightarrow>
      N div 2 ^ k * 2 ^ k \<le> V \<and> V \<le> N div 2 ^ k * 2 ^ k + (2 ^ k - 1)"
  proof
    assume "V div 2 ^ k * 2 ^ k = N div 2 ^ k * 2 ^ k"
    moreover have "V = V div 2 ^ k * 2 ^ k + V mod 2 ^ k" by (simp only: div_mult_mod_eq)
    moreover have "V mod 2 ^ k \<le> 2 ^ k - 1" by (simp add: less_Suc_eq_le [symmetric])
    ultimately show "N div 2 ^ k * 2 ^ k \<le> V \<and> V \<le> N div 2 ^ k * 2 ^ k + (2 ^ k - 1)" by linarith
  next
    assume *: "N div 2 ^ k * 2 ^ k \<le> V \<and> V \<le> N div 2 ^ k * 2 ^ k + (2 ^ k - 1)"
    then have "V div 2 ^ k = N div 2 ^ k"
      by (intro div_nat_eqI) (auto simp: mult.commute algebra_simps le_eq_less_or_eq intro: le_less_trans)
    then show "V div 2 ^ k * 2 ^ k = N div 2 ^ k * 2 ^ k" by simp
  qed
  then show ?thesis
    by (simp add: N_def V_def word_le_nat_alt unat_or_mask [OF assms] unat_and_not_mask
        word_unat_eq_iff del: div_mult_self_is_m)
qed

section \<open>What a validated configuration guarantees\<close>

lemma prefix_mask_v4_eq:
  "8 \<le> len \<Longrightarrow> len \<le> 30 \<Longrightarrow> prefix_mask_v4 len = NOT (mask (32 - unat len))"
  by (auto simp: prefix_mask_v4_def push_bit_minus_one_eq_not_mask word_le_nat_alt)

lemma reserved_valid_sound:
  "reserved_valid msk network broadcast gateway seen rs \<Longrightarrow> distinct rs \<and> set rs \<inter> set seen = {} \<and>
    (\<forall>r\<in>set rs. r AND msk = network \<and> r \<noteq> network \<and> r \<noteq> broadcast \<and> r \<noteq> gateway)"
proof (induction rs arbitrary: seen)
  case (Cons r rs)
  then have head: "r AND msk = network" "r \<noteq> network" "r \<noteq> broadcast" "r \<noteq> gateway" "r \<notin> set seen"
    and tail: "reserved_valid msk network broadcast gateway (r # seen) rs"
    by (simp_all split: if_split_asm)
  from Cons.IH [OF tail] head show ?case by simp
qed simp

lemma pool_config_okD:
  assumes "pool_config_ok c"
  shows "8 \<le> apc_ipv4_prefix_len c" and "apc_ipv4_prefix_len c \<le> 30"
    and "0 < apc_maximum_leases c" and "apc_maximum_leases c \<le> 65536"
    and "0 < apc_maximum_pending_releases c" and "apc_maximum_pending_releases c \<le> 65536"
    and "length (apc_reserved_ipv4 c) \<le> 32"
    and "16 \<le> apc_ipv6_parent_prefix_len c" and "apc_ipv6_parent_prefix_len c \<le> 63"
    and "apc_ipv4_network c = apc_network c"
    and "apc_ipv4_gateway c AND prefix_mask_v4 (apc_ipv4_prefix_len c) = apc_network c"
    and "apc_ipv4_gateway c \<noteq> apc_network c" and "apc_ipv4_gateway c \<noteq> apc_broadcast c"
    and "reserved_valid (prefix_mask_v4 (apc_ipv4_prefix_len c)) (apc_network c) (apc_broadcast c)
      (apc_ipv4_gateway c) [] (apc_reserved_ipv4 c)"
    and "ipv6_base_masked (apc_ipv6_base c) (apc_ipv6_parent_prefix_len c)"
    and "apc_maximum_leases c \<le> unat (usable_ipv6_subnets (apc_ipv6_parent_prefix_len c))"
    and "apc_maximum_leases c \<le> unat (usable_ipv4_hosts (apc_network c) (apc_broadcast c)
      (length (apc_reserved_ipv4 c)))"
    and "1 \<le> apc_pending_ttl_ms c" and "apc_pending_ttl_ms c \<le> 3600000"
    and "1000 \<le> apc_lease_ttl_ms c" and "apc_lease_ttl_ms c \<le> 86400000"
  using assms
  unfolding pool_config_ok_def pool_config_new_def Let_def max_leases_hard_cap_def max_reserved_ipv4_def
    apc_network_def apc_broadcast_def
  by (simp_all split: if_split_asm)

definition host_bits :: "address_pool_config \<Rightarrow> nat" where
  "host_bits c = 32 - unat (apc_ipv4_prefix_len c)"

lemma host_bits:
  assumes "pool_config_ok c"
  shows "2 \<le> host_bits c" and "host_bits c \<le> 24"
    and "prefix_mask_v4 (apc_ipv4_prefix_len c) = NOT (mask (host_bits c))"
  using pool_config_okD(1,2) [OF assms] prefix_mask_v4_eq [of "apc_ipv4_prefix_len c"]
  by (auto simp: host_bits_def word_le_nat_alt)

lemma unat_broadcast:
  assumes "pool_config_ok c"
  shows "unat (apc_broadcast c) = unat (apc_network c) + (2 ^ host_bits c - 1)"
proof -
  have "host_bits c < LENGTH(32)" using host_bits(2) [OF assms] by simp
  from unat_or_mask [OF this, of "apc_ipv4_network c"] show ?thesis
    by (simp add: apc_broadcast_def apc_network_def host_bits(3) [OF assms] unat_and_not_mask)
qed

lemma ipv4_usable_iff:
  assumes "pool_config_ok c"
  shows "ipv4_usable c a \<longleftrightarrow> apc_network c < a \<and> a < apc_broadcast c \<and>
    a \<noteq> apc_ipv4_gateway c \<and> a \<notin> set (apc_reserved_ipv4 c)"
proof -
  have "host_bits c < LENGTH(32)" using host_bits(2) [OF assms] by simp
  from in_network_iff [OF this, of a "apc_ipv4_network c"]
  have "a AND prefix_mask_v4 (apc_ipv4_prefix_len c) = apc_network c \<longleftrightarrow>
      apc_network c \<le> a \<and> a \<le> apc_broadcast c"
    by (simp add: apc_broadcast_def apc_network_def host_bits(3) [OF assms])
  then show ?thesis
    unfolding ipv4_usable_def by (auto simp: order_le_less)
qed

text \<open>The numbers of hosts and of subnets are those the validation counts.\<close>

lemma usable_hosts_le:
  assumes "pool_config_ok c"
  shows "apc_maximum_leases c + length (apc_reserved_ipv4 c) + 3 \<le> 2 ^ host_bits c"
proof -
  let ?n = "apc_network c" and ?b = "apc_broadcast c"
  have nb: "unat ?b = unat ?n + (2 ^ host_bits c - 1)" by (rule unat_broadcast [OF assms])
  have four: "(4::nat) \<le> 2 ^ host_bits c"
    using power_increasing [OF host_bits(1) [OF assms], of "2::nat"] by simp
  then have "?n \<le> ?b" using nb by (simp add: word_le_nat_alt)
  then have d: "unat (?b - ?n) = 2 ^ host_bits c - 1" using nb by (simp add: unat_sub word_le_nat_alt)
  have "unat (ucast (sat_sub (?b - ?n) 1) :: u64) = 2 ^ host_bits c - 2"
    using d unat_bound [of "sat_sub (?b - ?n) 1"] by (simp add: unsigned_ucast_eq take_bit_nat_eq_self unat_sat_sub)
  moreover have "unat (1 + of_nat (length (apc_reserved_ipv4 c)) :: u64) = 1 + length (apc_reserved_ipv4 c)"
    using pool_config_okD(7) [OF assms] by (simp add: unat_word_ariths unat_of_nat)
  ultimately show ?thesis
    using pool_config_okD(3,17) [OF assms] four
    by (simp add: usable_ipv4_hosts_def unat_sat_sub split: if_split_asm)
qed

definition subnet_bits :: "address_pool_config \<Rightarrow> nat" where
  "subnet_bits c = 64 - unat (apc_ipv6_parent_prefix_len c)"

lemma subnet_bits:
  assumes "pool_config_ok c"
  shows "1 \<le> subnet_bits c" and "subnet_bits c \<le> 48"
    and "min (unat (apc_ipv6_parent_prefix_len c)) 64 = 64 - subnet_bits c"
  using pool_config_okD(8,9) [OF assms] by (auto simp: subnet_bits_def word_le_nat_alt)

lemma usable_subnets:
  assumes "pool_config_ok c"
  shows "unat (usable_ipv6_subnets (apc_ipv6_parent_prefix_len c)) = 2 ^ subnet_bits c - 1"
proof -
  have "push_bit (subnet_bits c) (1::u64) = 2 ^ subnet_bits c" by (simp add: push_bit_eq_mult)
  moreover have "unat (2 ^ subnet_bits c :: u64) = 2 ^ subnet_bits c"
    using subnet_bits(2) [OF assms] by (simp add: unat_exp)
  ultimately show ?thesis
    using pool_config_okD(9) [OF assms] subnet_bits [OF assms]
    by (simp add: usable_ipv6_subnets_def subnet_bits_def [symmetric] unat_sat_sub linorder_not_less)
qed

text \<open>A prefix with eight zero bytes is determined by the upper ones.\<close>

lemma hi64_join [simp]: "hi64 (push_bit 64 (ucast (t::u64))) = t"
  unfolding hi64_def by (rule bit_word_eqI) (simp add: bit_simps)

lemma lo64_join [simp]: "lo64 (push_bit 64 w) = 0"
  unfolding lo64_def by (rule bit_word_eqI) (simp add: bit_simps)

lemma join_hi64:
  assumes "lo64 p = 0"
  shows "push_bit 64 (ucast (hi64 p)) = p"
proof (rule bit_word_eqI)
  fix i assume i: "i < LENGTH(128)"
  have "i < 64 \<Longrightarrow> \<not> bit p i"
    using arg_cong [OF assms, of "\<lambda>w. bit w i"] unfolding lo64_def by (simp add: bit_simps)
  with i show "bit (push_bit 64 (ucast (hi64 p)) :: arr16) i \<longleftrightarrow> bit p i"
    unfolding hi64_def by (cases "i < 64") (auto simp: bit_simps)
qed

lemma all_zero_u64 [simp]: "all_zero (to_be (w::u64)) \<longleftrightarrow> w = 0"
  by (rule all_zero_to_be) simp

lemma mask_word_eq: "push_bit k 1 - 1 = (mask k :: 'a::len word)" "2 ^ k - 1 = (mask k :: 'a word)"
  by (simp_all add: push_bit_eq_mult mask_eq_exp_minus_1)

lemma parent_mask:
  assumes "pool_config_ok c"
  shows "parent_mask_v6 (apc_ipv6_parent_prefix_len c) = NOT (mask (subnet_bits c))"
  using subnet_bits [OF assms]
  by (auto simp: parent_mask_v6_def Let_def push_bit_minus_one_eq_not_mask)

lemma subnet_prefix_eq:
  assumes "pool_config_ok c"
  shows "ipv6_subnet_prefix (apc_ipv6_base c) (apc_ipv6_parent_prefix_len c) s =
    push_bit 64 (ucast ((hi64 (apc_ipv6_base c) AND NOT (mask (subnet_bits c))) OR (s AND mask (subnet_bits c))))"
  using subnet_bits [OF assms]
  by (simp add: ipv6_subnet_prefix_def Let_def parent_mask [OF assms] mask_word_eq)

lemma subnet_masked:
  assumes "pool_config_ok c" and "s \<le> usable_ipv6_subnets (apc_ipv6_parent_prefix_len c)"
  shows "s AND mask (subnet_bits c) = s"
proof -
  have "unat s < 2 ^ subnet_bits c"
    using assms(2) usable_subnets [OF assms(1)] by (simp add: word_le_nat_alt) (metis less_Suc_eq_le Suc_pred zero_less_numeral zero_less_power)
  then have "unat (take_bit (subnet_bits c) s) = unat s" by (simp only: unat_take_bit mod_less)
  then show ?thesis by (simp add: take_bit_eq_mask word_unat_eq_iff)
qed

lemma subnet_part:
  "((h AND NOT (mask n)) OR (s AND mask n)) AND mask n = (s AND mask n :: 'a::len word)"
  "((h AND NOT (mask n)) OR (s AND mask n)) AND NOT (mask n) = (h AND NOT (mask n) :: 'a::len word)"
  by (rule bit_word_eqI; auto simp: bit_simps)+

lemma subnet_prefix_inj:
  assumes c: "pool_config_ok c"
    and "s \<le> usable_ipv6_subnets (apc_ipv6_parent_prefix_len c)"
    and "t \<le> usable_ipv6_subnets (apc_ipv6_parent_prefix_len c)"
    and eq: "ipv6_subnet_prefix (apc_ipv6_base c) (apc_ipv6_parent_prefix_len c) s =
      ipv6_subnet_prefix (apc_ipv6_base c) (apc_ipv6_parent_prefix_len c) t"
  shows "s = t"
proof -
  have "s AND mask (subnet_bits c) = t AND mask (subnet_bits c)"
    using arg_cong [OF eq, of "\<lambda>p. hi64 p AND mask (subnet_bits c)"]
    by (simp add: subnet_prefix_eq [OF c] subnet_part)
  then show ?thesis using subnet_masked [OF c] assms(2,3) by metis
qed

text \<open>The usable prefixes are the subnets from one to the last.\<close>

lemma ipv6_usable_iff:
  assumes c: "pool_config_ok c"
  shows "ipv6_usable c p \<longleftrightarrow>
    (\<exists>s. 1 \<le> s \<and> s \<le> usable_ipv6_subnets (apc_ipv6_parent_prefix_len c) \<and>
      p = ipv6_subnet_prefix (apc_ipv6_base c) (apc_ipv6_parent_prefix_len c) s)" (is "_ \<longleftrightarrow> (\<exists>s. ?sub s)")
proof -
  let ?n = "subnet_bits c" and ?b = "hi64 (apc_ipv6_base c)"
  note n = subnet_bits [OF c]
  have index: "ipv6_usable c p \<longleftrightarrow> hi64 p AND NOT (mask ?n) = ?b AND NOT (mask ?n) \<and> lo64 p = 0 \<and>
      hi64 p AND mask ?n \<noteq> 0"
    using n by (auto simp: ipv6_usable_def ipv6_prefix_matches_parent_def ipv6_is_64_aligned_def
        ipv6_subnet_index_def Let_def parent_mask [OF c] mask_word_eq)
  show ?thesis
  proof
    assume "ipv6_usable c p"
    then have net: "hi64 p AND NOT (mask ?n) = ?b AND NOT (mask ?n)" and lo: "lo64 p = 0"
      and nz: "hi64 p AND mask ?n \<noteq> 0" by (simp_all add: index)
    define s where "s = hi64 p AND mask ?n"
    have "unat s < 2 ^ ?n" unfolding s_def take_bit_eq_mask [symmetric] unat_take_bit by simp
    then have "s \<le> usable_ipv6_subnets (apc_ipv6_parent_prefix_len c)"
      using usable_subnets [OF c] by (simp add: word_le_nat_alt)
    moreover have "1 \<le> s" using nz unfolding s_def by (simp add: word_le_nat_alt Suc_le_eq unat_gt_0)
    moreover have "(?b AND NOT (mask ?n)) OR (s AND mask ?n) = hi64 p"
      unfolding net [symmetric] s_def by (rule bit_word_eqI) (auto simp: bit_simps)
    then have "p = ipv6_subnet_prefix (apc_ipv6_base c) (apc_ipv6_parent_prefix_len c) s"
      using join_hi64 [OF lo] by (simp add: subnet_prefix_eq [OF c])
    ultimately show "\<exists>s. ?sub s" by blast
  next
    assume "\<exists>s. ?sub s"
    then obtain s where s: "?sub s" by blast
    then have "s AND mask ?n \<noteq> 0" using subnet_masked [OF c, of s] by auto
    then show "ipv6_usable c p"
      unfolding index using s by (simp add: subnet_prefix_eq [OF c] subnet_part)
  qed
qed

end
