(* ===== verification/Containers.thy ===== *)
theory Containers
  imports Prelude "HOL-Library.AList"
begin

text \<open>
  The two map types of the Rust code, as association lists.

  \<^item> A \<open>HashMap\<close> is a list of pairs with distinct keys. The position of an entry stands
    for its place in the map's iteration order, which the standard library leaves
    unspecified; facts about a component are therefore proved for every order, and where
    an outcome depends on the order that is a theorem.
  \<^item> A \<open>BTreeMap\<close> is a list of pairs with strictly increasing keys, which is its
    iteration order.

  Both provide the interface \<open>keyed_table\<close>: what a lookup returns after an insertion,
  and that insertion and filtering keep the representation invariant. The facts the
  components use (sizes, removal, sums over the entries) are proved once in the locale
  and reached through its two interpretations.
\<close>

section \<open>The interface\<close>

abbreviation keys :: "('k \<times> 'v) list \<Rightarrow> 'k set" where
  "keys m \<equiv> fst ` set m"

text \<open>\<open>remove\<close> and \<open>retain\<close> are the same for both maps.\<close>

definition kt_remove :: "'k \<Rightarrow> ('k \<times> 'v) list \<Rightarrow> ('k \<times> 'v) list" where
  "kt_remove k m = filter (\<lambda>e. fst e \<noteq> k) m"

definition kt_retain :: "('v \<Rightarrow> bool) \<Rightarrow> ('k \<times> 'v) list \<Rightarrow> ('k \<times> 'v) list" where
  "kt_retain P m = filter (\<lambda>e. P (snd e)) m"

lemma map_of_remove: "map_of (kt_remove k m) = (map_of m)(k := None)"
  unfolding kt_remove_def by (induction m) auto

lemma set_kt_remove: "set (kt_remove k m) = {e \<in> set m. fst e \<noteq> k}"
  by (auto simp: kt_remove_def)

lemma set_kt_retain: "set (kt_retain P m) = {e \<in> set m. P (snd e)}"
  by (auto simp: kt_retain_def)

lemma map_of_filter_key: "map_of (filter (\<lambda>e. P (fst e)) m) k = (if P k then map_of m k else None)"
  by (induction m) auto

lemma map_of_filter_outside: "map_of (filter (\<lambda>e. fst e \<notin> A) m) k = (if k \<in> A then None else map_of m k)"
  by (induction m) auto

lemma length_kt_remove_le: "length (kt_remove k m) \<le> length m"
  by (simp add: kt_remove_def)

lemma length_kt_retain_le: "length (kt_retain P m) \<le> length m"
  by (simp add: kt_retain_def)

lemma length_kt_remove_less: "k \<in> keys m \<Longrightarrow> length (kt_remove k m) < length m"
  unfolding kt_remove_def by (auto intro: length_filter_less)

lemma length_kt_remove_Some: "map_of m k = Some v \<Longrightarrow> length (kt_remove k m) < length m"
  by (rule length_kt_remove_less) (force dest: map_of_SomeD)

lemma map_of_in_set: "distinct (map fst m) \<Longrightarrow> map_of m k = Some v \<longleftrightarrow> (k, v) \<in> set m"
  by (meson map_of_SomeD map_of_is_SomeI)

lemma map_of_retain:
  "distinct (map fst m) \<Longrightarrow>
    map_of (kt_retain P m) k =
      (case map_of m k of None \<Rightarrow> None | Some v \<Rightarrow> if P v then Some v else None)"
  unfolding kt_retain_def by (induction m) (auto simp: image_iff split: option.splits)

lemma sum_list_remove:
  "distinct (map fst m) \<Longrightarrow> map_of m k = Some v \<Longrightarrow>
    sum_list (map f m) = f (k, v) + (sum_list (map f (kt_remove k m)) :: nat)"
proof (induction m)
  case Nil
  then show ?case by simp
next
  case (Cons e m)
  obtain k' v' where e: "e = (k', v')" by (cases e)
  show ?case
  proof (cases "k' = k")
    case True
    with Cons.prems e have "kt_remove k m = m"
      unfolding kt_remove_def by (force simp: filter_id_conv)
    with True Cons.prems e show ?thesis by (simp add: kt_remove_def)
  next
    case False
    with Cons e show ?thesis by (simp add: kt_remove_def)
  qed
qed

lemma sum_list_remove_absent:
  "k \<notin> keys m \<Longrightarrow> kt_remove k m = m"
  unfolding kt_remove_def by (force simp: filter_id_conv)

locale keyed_table =
  fixes ins :: "'k \<Rightarrow> 'v \<Rightarrow> ('k \<times> 'v) list \<Rightarrow> ('k \<times> 'v) list"
    and ok :: "('k \<times> 'v) list \<Rightarrow> bool"
  assumes ok_Nil: "ok []"
    and ok_ins: "ok m \<Longrightarrow> ok (ins k v m)"
    and get_ins: "ok m \<Longrightarrow> map_of (ins k v m) = (map_of m)(k \<mapsto> v)"
    and ok_filter: "ok m \<Longrightarrow> ok (filter P m)"
    and ok_distinct: "ok m \<Longrightarrow> distinct (map fst m)"
begin

lemma ok_remove: "ok m \<Longrightarrow> ok (kt_remove k m)"
  by (simp add: kt_remove_def ok_filter)

lemma ok_retain: "ok m \<Longrightarrow> ok (kt_retain P m)"
  by (simp add: kt_retain_def ok_filter)

lemma set_ins: "ok m \<Longrightarrow> set (ins k v m) = insert (k, v) {e \<in> set m. fst e \<noteq> k}"
proof -
  assume m: "ok m"
  have "(a, b) \<in> set (ins k v m) \<longleftrightarrow> (a, b) \<in> insert (k, v) {e \<in> set m. fst e \<noteq> k}" for a b
  proof -
    have "(a, b) \<in> set (ins k v m) \<longleftrightarrow> map_of (ins k v m) a = Some b"
      using map_of_in_set [OF ok_distinct [OF ok_ins [OF m]]] by metis
    also have "\<dots> \<longleftrightarrow> (if a = k then v = b else map_of m a = Some b)"
      by (simp add: get_ins [OF m])
    also have "\<dots> \<longleftrightarrow> (a, b) \<in> insert (k, v) {e \<in> set m. fst e \<noteq> k}"
      using map_of_in_set [OF ok_distinct [OF m], of a b] by auto
    finally show ?thesis .
  qed
  then show ?thesis by auto
qed

lemma keys_ins: "ok m \<Longrightarrow> keys (ins k v m) = insert k (keys m)"
  by (auto simp: set_ins image_iff)

lemma length_eq_card: "ok m \<Longrightarrow> length m = card (keys m)"
  using ok_distinct [of m] by (metis distinct_card length_map set_map)

lemma length_ins:
  "ok m \<Longrightarrow> length (ins k v m) = (if k \<in> keys m then length m else Suc (length m))"
  by (simp add: length_eq_card ok_ins keys_ins insert_absorb)

lemma length_ins_le: "ok m \<Longrightarrow> length (ins k v m) \<le> Suc (length m)"
  by (simp add: length_ins)

lemma sum_ins_new:
  assumes "ok m" and "k \<notin> keys m"
  shows "sum_list (map f (ins k v m)) = f (k, v) + (sum_list (map f m) :: nat)"
proof -
  have "distinct (ins k v m)" and "distinct m"
    using ok_distinct [OF ok_ins [OF assms(1)]] ok_distinct [OF assms(1)]
    by (auto simp: distinct_map)
  moreover have "set (ins k v m) = insert (k, v) (set m)" and "(k, v) \<notin> set m"
    using assms by (auto simp: set_ins image_iff)
  ultimately show ?thesis
    by (simp add: sum_list_distinct_conv_sum_set)
qed

lemma length_remove:
  assumes "ok m" and "k \<in> keys m"
  shows "Suc (length (kt_remove k m)) = length m"
proof -
  obtain v where "map_of m k = Some v"
    using assms(2) by (metis map_of_eq_None_iff not_None_eq)
  from sum_list_remove [OF ok_distinct [OF assms(1)] this, of "\<lambda>_. 1"]
  show ?thesis by (simp add: sum_list_triv)
qed

end

section \<open>HashMap\<close>

definition hm_insert :: "'k \<Rightarrow> 'v \<Rightarrow> ('k \<times> 'v) list \<Rightarrow> ('k \<times> 'v) list" where
  "hm_insert k v m = AList.update k v m"

definition hm_ok :: "('k \<times> 'v) list \<Rightarrow> bool" where
  "hm_ok m = distinct (map fst m)"

interpretation hm: keyed_table hm_insert hm_ok
proof
  fix m :: "('k \<times> 'v) list" and k v P
  show "hm_ok ([] :: ('k \<times> 'v) list)" by (simp add: hm_ok_def)
  show "hm_ok m \<Longrightarrow> hm_ok (hm_insert k v m)"
    by (simp add: hm_ok_def hm_insert_def distinct_update)
  show "hm_ok m \<Longrightarrow> map_of (hm_insert k v m) = (map_of m)(k \<mapsto> v)"
    by (simp add: hm_insert_def update_conv')
  show "hm_ok m \<Longrightarrow> hm_ok (filter P m)"
    by (simp add: hm_ok_def distinct_map_filter)
  show "hm_ok m \<Longrightarrow> distinct (map fst m)" by (simp add: hm_ok_def)
qed

lemma map_of_hm_insert: "map_of (hm_insert k v m) = (map_of m)(k \<mapsto> v)"
  by (simp add: hm_insert_def update_conv')

lemma kt_remove_hm_insert: "kt_remove k (hm_insert k v m) = kt_remove k m"
  unfolding hm_insert_def kt_remove_def by (induction m) auto

text \<open>Replacing an entry moves a sum over the entries by the difference.\<close>

lemma sum_hm_insert:
  assumes "hm_ok m" and "map_of m k = Some v"
  shows "sum_list (map f (hm_insert k w m)) + f (k, v) = (sum_list (map f m) + f (k, w) :: nat)"
proof -
  have d: "distinct (map fst m)" "distinct (map fst (hm_insert k w m))"
    using hm.ok_distinct [OF assms(1)] hm.ok_distinct [OF hm.ok_ins [OF assms(1)]] by auto
  have "map_of (hm_insert k w m) k = Some w" by (simp add: map_of_hm_insert)
  from sum_list_remove [OF d(2) this, of f] sum_list_remove [OF d(1) assms(2), of f]
  show ?thesis by (simp add: kt_remove_hm_insert)
qed

text \<open>A write through \<open>get_mut\<close> leaves the entry in its place.\<close>

lemma hm_insert_present: "k \<in> keys m \<Longrightarrow> map fst (hm_insert k v m) = map fst m"
  unfolding hm_insert_def by (induction m) auto

lemma hm_insert_same: "map_of m k = Some v \<Longrightarrow> hm_insert k v m = m"
  unfolding hm_insert_def by (induction m) (auto split: if_splits)

section \<open>BTreeMap\<close>

fun bt_insert :: "'k::linorder \<Rightarrow> 'v \<Rightarrow> ('k \<times> 'v) list \<Rightarrow> ('k \<times> 'v) list" where
  "bt_insert k v [] = [(k, v)]"
| "bt_insert k v ((k', v') # m) =
     (if k < k' then (k, v) # (k', v') # m
      else if k = k' then (k, v) # m
      else (k', v') # bt_insert k v m)"

definition bt_ok :: "('k::linorder \<times> 'v) list \<Rightarrow> bool" where
  "bt_ok m = sorted_wrt (<) (map fst m)"

lemma bt_ok_Cons: "bt_ok ((k, v) # m) \<longleftrightarrow> (\<forall>k' \<in> keys m. k < k') \<and> bt_ok m"
  by (simp add: bt_ok_def)

lemma keys_bt_insert: "keys (bt_insert k v m) = insert k (keys m)"
  by (induction k v m rule: bt_insert.induct) auto

lemma bt_ok_insert: "bt_ok m \<Longrightarrow> bt_ok (bt_insert k v m)"
  by (induction k v m rule: bt_insert.induct)
    (auto simp: bt_ok_Cons keys_bt_insert ball_Un bt_ok_def [of "[]"] dest: less_trans)

lemma bt_ok_distinct: "bt_ok m \<Longrightarrow> distinct (map fst m)"
  unfolding bt_ok_def by (simp add: strict_sorted_iff)

lemma map_of_bt_insert: "bt_ok m \<Longrightarrow> map_of (bt_insert k v m) = (map_of m)(k \<mapsto> v)"
proof (induction k v m rule: bt_insert.induct)
  case (1 k v)
  then show ?case by simp
next
  case (2 k v k' v' m)
  then show ?case by (auto simp: bt_ok_Cons fun_upd_twist)
qed

interpretation bt: keyed_table bt_insert bt_ok
proof
  fix m :: "('k::linorder \<times> 'v) list" and k v P
  show "bt_ok ([] :: ('k \<times> 'v) list)" by (simp add: bt_ok_def)
  show "bt_ok m \<Longrightarrow> bt_ok (bt_insert k v m)" by (rule bt_ok_insert)
  show "bt_ok m \<Longrightarrow> map_of (bt_insert k v m) = (map_of m)(k \<mapsto> v)"
    by (rule map_of_bt_insert)
  show "bt_ok m \<Longrightarrow> bt_ok (filter P m)"
    unfolding bt_ok_def sorted_wrt_map by (rule sorted_wrt_filter)
  show "bt_ok m \<Longrightarrow> distinct (map fst m)" by (rule bt_ok_distinct)
qed

text \<open>\<open>iter().next()\<close> is the entry with the least key, \<open>next_back()\<close> the one with the greatest.\<close>

lemma bt_first_least: "bt_ok (e # m) \<Longrightarrow> x \<in> set (e # m) \<Longrightarrow> fst e \<le> fst x"
  by (cases e) (auto simp: bt_ok_Cons intro: less_imp_le)

lemma bt_last_greatest: "bt_ok m \<Longrightarrow> x \<in> set m \<Longrightarrow> fst x \<le> fst (last m)"
proof (induction m)
  case Nil
  then show ?case by simp
next
  case (Cons e m)
  then show ?case
    by (cases e) (auto simp: bt_ok_Cons intro: less_imp_le)
qed

text \<open>Removing the least entry leaves the rest.\<close>

lemma bt_remove_first: "bt_ok ((k, v) # m) \<Longrightarrow> kt_remove k ((k, v) # m) = m"
  by (auto simp: kt_remove_def bt_ok_Cons filter_id_conv)

lemmas map_facts = map_of_remove set_kt_remove set_kt_retain length_kt_remove_le
  length_kt_retain_le hm.set_ins bt.set_ins hm.get_ins bt.get_ins

end
