(* ===== verification/Pool.thy ===== *)
theory Pool
  imports PoolAddr Containers
begin

text \<open>
  The gateway's lease pool, \<open>apps/streamguard-gateway/src/v2/address_pool.rs\<close>: reservation,
  commit, release, renewal, expiry sweep, bounded retry of quarantined deletes and recovery at
  start-up.

  The pool mutex is never held across store calls. An operation that changes state has three
  phases: under the lock it checks the session and parks it in the inflight set; without the lock
  it makes its store calls; under the lock again it commits or rolls back. So each operation is a
  pair of transitions here, \<open>..._begin\<close> and \<open>..._finish\<close>: the first returns either the
  answer of an early return or the plan the second phase carries, and the second takes the
  plan and the store's answers. Other calls may run in between; the operation as a whole, when
  nothing else runs, is the composition \<open>pool_...\<close>.

  The store is known by its answers alone: \<open>True\<close> for \<open>Ok\<close>, one for every call of
  \<open>plan_calls\<close> in order. A pool without a store (\<open>ap_has_store\<close> false) makes no calls and takes
  every answer as good. Metrics wrap, as \<open>fetch_add\<close> does. A poisoned mutex needs a panic and
  does not occur. A hash set is a list without repetitions.
\<close>

section \<open>Data\<close>

datatype lease_state = LReserved | LActive | LReleasePending

record persisted_lease =
  pl_session_id :: session_id
  pl_device_id :: device_id
  pl_ipv4 :: arr4
  pl_ipv4_prefix_len :: byte
  pl_ipv6_prefix :: arr16
  pl_ipv6_prefix_len :: byte
  pl_state :: lease_state
  pl_expires_at_ms :: u64

record assigned_addresses =
  aa_ipv4 :: arr4
  aa_ipv4_prefix_len :: byte
  aa_ipv6_prefix :: arr16
  aa_ipv6_prefix_len :: byte

text \<open>\<open>ReservedLease\<close> and \<open>ActiveLease\<close> have the same fields.\<close>

record lease =
  le_device_id :: device_id
  le_addresses :: assigned_addresses
  le_expires_at_ms :: u64

record release_pending_lease =
  ql_device_id :: device_id
  ql_addresses :: assigned_addresses
  ql_expires_at_ms :: u64
  ql_attempts :: u64
  ql_next_retry_ms :: u64

record pool_metrics =
  pm_allocations :: u64
  pm_commits :: u64
  pm_releases :: u64
  pm_renewals :: u64
  pm_exhausted :: u64
  pm_owner_mismatch :: u64
  pm_pending_expired :: u64
  pm_active_expired :: u64
  pm_store_failures :: u64
  pm_recovered :: u64
  pm_recovered_dropped :: u64
  pm_release_retries :: u64
  pm_quarantine_full :: u64
  pm_release_retry_deferred :: u64
  pm_inflight_conflicts :: u64

record address_pool =
  ap_config :: address_pool_config
  ap_active :: "(session_id \<times> lease) list"
  ap_pending :: "(session_id \<times> lease) list"
  ap_release_pending :: "(session_id \<times> release_pending_lease) list"
  ap_release_order :: "session_id list"
  ap_inflight :: "session_id list"
  ap_inflight_v4 :: "arr4 list"
  ap_inflight_v6 :: "arr16 list"
  ap_has_store :: bool
  ap_metrics :: pool_metrics

record pool_time =
  tm_monotonic_ms :: u64
  tm_wall_ms :: u64

definition wall_expiry_from_ttl :: "u64 \<Rightarrow> u64 \<Rightarrow> u64" where
  "wall_expiry_from_ttl wall_now ttl = sat_add wall_now ttl"

definition monotonic_expiry_from_wall :: "u64 \<Rightarrow> u64 \<Rightarrow> u64 \<Rightarrow> u64" where
  "monotonic_expiry_from_wall wall_expiry wall_now mono_now =
     sat_add mono_now (sat_sub wall_expiry wall_now)"

definition pool_time_from_seconds :: "u64 \<Rightarrow> u64 \<Rightarrow> pool_time" where
  "pool_time_from_seconds monotonic wall_seconds =
     \<lparr>tm_monotonic_ms = monotonic,
      tm_wall_ms = (if unat wall_seconds * 1000 < 2 ^ 64 then wall_seconds * 1000 else - 1)\<rparr>"

text \<open>Backoff: the base doubled for every attempt, up to the cap, and never past the last instant.\<close>

definition sat_mul :: "u64 \<Rightarrow> u64 \<Rightarrow> u64" where
  "sat_mul a b = (if unat a * unat b < 2 ^ 64 then a * b else - 1)"

definition next_retry_deadline :: "u64 \<Rightarrow> u64 \<Rightarrow> u64" where
  "next_retry_deadline now attempts =
     (let shift = min attempts 16;
          backoff = min (sat_mul 1000 (push_bit (unat shift) 1)) 60000
      in sat_add now backoff)"

definition pool_metrics_default :: pool_metrics where
  "pool_metrics_default = \<lparr>pm_allocations = 0, pm_commits = 0, pm_releases = 0, pm_renewals = 0,
     pm_exhausted = 0, pm_owner_mismatch = 0, pm_pending_expired = 0, pm_active_expired = 0,
     pm_store_failures = 0, pm_recovered = 0, pm_recovered_dropped = 0, pm_release_retries = 0,
     pm_quarantine_full = 0, pm_release_retry_deferred = 0, pm_inflight_conflicts = 0\<rparr>"

definition pool_new :: "address_pool_config \<Rightarrow> address_pool" where
  "pool_new c = \<lparr>ap_config = c, ap_active = [], ap_pending = [], ap_release_pending = [],
     ap_release_order = [], ap_inflight = [], ap_inflight_v4 = [], ap_inflight_v6 = [],
     ap_has_store = False, ap_metrics = pool_metrics_default\<rparr>"

text \<open>\<open>self.metrics.<counter>.fetch_add(1)\<close>.\<close>

definition pool_count :: "((u64 \<Rightarrow> u64) \<Rightarrow> pool_metrics \<Rightarrow> pool_metrics) \<Rightarrow> address_pool \<Rightarrow> address_pool" where
  "pool_count counter p = p\<lparr>ap_metrics := counter (\<lambda>n. n + 1) (ap_metrics p)\<rparr>"

definition pool_add :: "((u64 \<Rightarrow> u64) \<Rightarrow> pool_metrics \<Rightarrow> pool_metrics) \<Rightarrow> u64 \<Rightarrow> address_pool \<Rightarrow> address_pool" where
  "pool_add counter k p = p\<lparr>ap_metrics := counter (\<lambda>n. n + k) (ap_metrics p)\<rparr>"

text \<open>Parking a session with its addresses before the lock is dropped, and unparking it.\<close>

definition park :: "session_id \<Rightarrow> assigned_addresses \<Rightarrow> address_pool \<Rightarrow> address_pool" where
  "park sid a p = p\<lparr>ap_inflight := List.insert sid (ap_inflight p),
     ap_inflight_v4 := List.insert (aa_ipv4 a) (ap_inflight_v4 p),
     ap_inflight_v6 := List.insert (aa_ipv6_prefix a) (ap_inflight_v6 p)\<rparr>"

definition unpark :: "session_id \<Rightarrow> assigned_addresses \<Rightarrow> address_pool \<Rightarrow> address_pool" where
  "unpark sid a p = p\<lparr>ap_inflight := removeAll sid (ap_inflight p),
     ap_inflight_v4 := removeAll (aa_ipv4 a) (ap_inflight_v4 p),
     ap_inflight_v6 := removeAll (aa_ipv6_prefix a) (ap_inflight_v6 p)\<rparr>"

section \<open>Allocation\<close>

text \<open>Quarantined and inflight addresses block allocation exactly like live leases.\<close>

definition used_ipv4 :: "address_pool \<Rightarrow> arr4 list" where
  "used_ipv4 p = map (\<lambda>e. aa_ipv4 (le_addresses (snd e))) (ap_active p)
     @ map (\<lambda>e. aa_ipv4 (le_addresses (snd e))) (ap_pending p)
     @ map (\<lambda>e. aa_ipv4 (ql_addresses (snd e))) (ap_release_pending p)
     @ ap_inflight_v4 p"

definition used_ipv6 :: "address_pool \<Rightarrow> arr16 list" where
  "used_ipv6 p = map (\<lambda>e. aa_ipv6_prefix (le_addresses (snd e))) (ap_active p)
     @ map (\<lambda>e. aa_ipv6_prefix (le_addresses (snd e))) (ap_pending p)
     @ map (\<lambda>e. aa_ipv6_prefix (ql_addresses (snd e))) (ap_release_pending p)
     @ ap_inflight_v6 p"

definition ipv4_blocked :: "address_pool \<Rightarrow> arr4 \<Rightarrow> bool" where
  "ipv4_blocked p candidate \<longleftrightarrow> candidate = apc_ipv4_gateway (ap_config p)
     \<or> candidate \<in> set (apc_reserved_ipv4 (ap_config p)) \<or> candidate \<in> set (used_ipv4 p)"

text \<open>The first loop, over at most \<open>search_bound\<close> candidates.\<close>

function scan_ipv4 :: "(arr4 \<Rightarrow> bool) \<Rightarrow> u32 \<Rightarrow> nat \<Rightarrow> nat \<Rightarrow> u32 \<Rightarrow> arr4 option" where
  "scan_ipv4 blocked broadcast search_bound scanned candidate =
     (if candidate < broadcast \<and> scanned < search_bound then
        if blocked candidate
        then scan_ipv4 blocked broadcast search_bound (Suc scanned) (sat_inc candidate)
        else Some candidate
      else None)"
  by auto
termination by (relation "measure (\<lambda>(blocked, broadcast, search_bound, scanned, candidate). search_bound - scanned)") auto

text \<open>The second one, over the first 1048576 hosts of the network.\<close>

function scan_fallback_ipv4 :: "(arr4 \<Rightarrow> bool) \<Rightarrow> u32 \<Rightarrow> u32 \<Rightarrow> u32 \<Rightarrow> arr4 option" where
  "scan_fallback_ipv4 blocked network broadcast fallback =
     (if fallback < broadcast then
        if \<not> blocked fallback then Some fallback
        else if 1048576 < sat_inc fallback - network then None
        else scan_fallback_ipv4 blocked network broadcast (sat_inc fallback)
      else None)"
  by auto
termination
proof (relation "measure (\<lambda>(blocked, network, broadcast, fallback). unat broadcast - unat fallback)", goal_cases)
  case (2 blocked network broadcast fallback)
  then have "unat fallback < unat broadcast" by (simp add: word_less_nat_alt)
  moreover have "fallback \<noteq> - 1" using 2(1) by (rule word_less_not_max)
  ultimately show ?case by (simp add: sat_inc_eq unat_inc)
qed simp

declare scan_ipv4.simps [simp del] scan_fallback_ipv4.simps [simp del]

definition find_free_ipv4 :: "address_pool \<Rightarrow> arr4 option" where
  "find_free_ipv4 p =
     (let c = ap_config p;
          network = apc_network c;
          broadcast = apc_broadcast c;
          search_bound = min (apc_maximum_leases c + length (remdups (apc_reserved_ipv4 c)) + 8) 65536
      in case scan_ipv4 (ipv4_blocked p) broadcast search_bound 0 (sat_inc network) of
           Some candidate \<Rightarrow> Some candidate
         | None \<Rightarrow>
             if apc_maximum_leases c \<le> usize_add (length (ap_active p)) (length (ap_pending p)) then None
             else scan_fallback_ipv4 (ipv4_blocked p) network broadcast (sat_inc network))"

text \<open>Both loops of the IPv6 search, \<open>for subnet in subnet..=bound\<close>.\<close>

function scan_ipv6 :: "(u64 \<Rightarrow> arr16) \<Rightarrow> arr16 list \<Rightarrow> nat \<Rightarrow> nat \<Rightarrow> arr16 option" where
  "scan_ipv6 prefix used bound subnet =
     (if subnet \<le> bound then
        if prefix (of_nat subnet) \<notin> set used then Some (prefix (of_nat subnet))
        else scan_ipv6 prefix used bound (Suc subnet)
      else None)"
  by auto
termination by (relation "measure (\<lambda>(prefix, used, bound, subnet). Suc bound - subnet)") auto

declare scan_ipv6.simps [simp del]

definition find_free_ipv6 :: "address_pool \<Rightarrow> arr16 option" where
  "find_free_ipv6 p =
     (let c = ap_config p;
          usable = unat (usable_ipv6_subnets (apc_ipv6_parent_prefix_len c));
          search_bound = min (apc_maximum_leases c + 8) usable;
          prefix = ipv6_subnet_prefix (apc_ipv6_base c) (apc_ipv6_parent_prefix_len c)
      in case scan_ipv6 prefix (used_ipv6 p) search_bound 1 of
           Some candidate \<Rightarrow> Some candidate
         | None \<Rightarrow>
             if apc_maximum_leases c \<le> usize_add (length (ap_active p)) (length (ap_pending p)) then None
             else scan_ipv6 prefix (used_ipv6 p) usable 1)"

definition allocate_locked :: "address_pool \<Rightarrow> address_pool \<times> (address_pool_error + assigned_addresses)" where
  "allocate_locked p =
     (case find_free_ipv4 p of
        None \<Rightarrow> (pool_count pm_exhausted_update p, Inl PExhausted)
      | Some ipv4 \<Rightarrow>
          (case find_free_ipv6 p of
             None \<Rightarrow> (pool_count pm_exhausted_update p, Inl PExhausted)
           | Some ipv6_prefix \<Rightarrow>
               (p, Inr \<lparr>aa_ipv4 = ipv4, aa_ipv4_prefix_len = apc_ipv4_prefix_len (ap_config p),
                  aa_ipv6_prefix = ipv6_prefix, aa_ipv6_prefix_len = 64\<rparr>)))"

section \<open>Quarantine\<close>

definition leased :: "lease_state \<Rightarrow> session_id \<Rightarrow> device_id \<Rightarrow> assigned_addresses \<Rightarrow> u64 \<Rightarrow> persisted_lease" where
  "leased state sid did a expires = \<lparr>pl_session_id = sid, pl_device_id = did,
     pl_ipv4 = aa_ipv4 a, pl_ipv4_prefix_len = aa_ipv4_prefix_len a,
     pl_ipv6_prefix = aa_ipv6_prefix a, pl_ipv6_prefix_len = aa_ipv6_prefix_len a,
     pl_state = state, pl_expires_at_ms = expires\<rparr>"

definition lease_addresses :: "persisted_lease \<Rightarrow> assigned_addresses" where
  "lease_addresses l = \<lparr>aa_ipv4 = pl_ipv4 l, aa_ipv4_prefix_len = pl_ipv4_prefix_len l,
     aa_ipv6_prefix = pl_ipv6_prefix l, aa_ipv6_prefix_len = pl_ipv6_prefix_len l\<rparr>"

definition enqueue_release_locked :: "address_pool \<Rightarrow> persisted_lease \<Rightarrow> u64
    \<Rightarrow> address_pool \<times> (address_pool_error + unit)" where
  "enqueue_release_locked p l now =
     (if pl_session_id l \<in> keys (ap_release_pending p) then (p, Inr ())
      else if apc_maximum_pending_releases (ap_config p) \<le> length (ap_release_pending p)
      then (pool_count pm_store_failures_update (pool_count pm_quarantine_full_update p), Inl PStore)
      else (p\<lparr>ap_release_order := ap_release_order p @ [pl_session_id l],
        ap_release_pending := hm_insert (pl_session_id l)
          \<lparr>ql_device_id = pl_device_id l, ql_addresses = lease_addresses l,
           ql_expires_at_ms = pl_expires_at_ms l, ql_attempts = 0,
           ql_next_retry_ms = next_retry_deadline now 0\<rparr> (ap_release_pending p)\<rparr>, Inr ()))"

section \<open>Plans\<close>

record expired_lease =
  ex_id :: session_id
  ex_device_id :: device_id
  ex_addresses :: assigned_addresses
  ex_expires_at_ms :: u64
  ex_was_pending :: bool

text \<open>What an operation carries from its first phase to the last.\<close>

datatype pool_plan =
    PlanReserve session_id device_id assigned_addresses u64 u64
  | PlanPromote session_id device_id assigned_addresses u64 u64 u64
  | PlanExpire session_id device_id assigned_addresses u64 u64
  | PlanRelease session_id device_id assigned_addresses u64 u64
  | PlanRenew session_id device_id assigned_addresses u64 u64
  | PlanSweep "expired_lease list" u64
  | PlanRetry "session_id list" u64

datatype store_call = Persist persisted_lease | Delete session_id

text \<open>The store calls of the second phase, in order.\<close>

fun plan_calls :: "pool_plan \<Rightarrow> store_call list" where
  "plan_calls (PlanReserve sid did a expires wall) = [Persist (leased LReserved sid did a wall)]"
| "plan_calls (PlanPromote sid did a expires active_expires wall) = [Persist (leased LActive sid did a wall)]"
| "plan_calls (PlanExpire sid did a expires now) = [Delete sid]"
| "plan_calls (PlanRelease sid did a expires now) = [Delete sid]"
| "plan_calls (PlanRenew sid did a renewed wall) = [Persist (leased LActive sid did a wall)]"
| "plan_calls (PlanSweep batch now) = map (\<lambda>e. Delete (ex_id e)) batch"
| "plan_calls (PlanRetry batch now) = map Delete batch"

datatype pool_answer =
    Addresses "address_pool_error + assigned_addresses"
  | Released "address_pool_error + bool"
  | Renewed "address_pool_error + unit"
  | Swept "session_id list"
  | Retried nat

text \<open>An early return, or a plan to carry on with.\<close>

type_synonym begun = "address_pool \<times> (pool_answer + pool_plan)"

definition store_ok :: "address_pool \<Rightarrow> bool \<Rightarrow> bool" where
  "store_ok p answer \<longleftrightarrow> (if ap_has_store p then answer else True)"

section \<open>Reserve\<close>

text \<open>The tail of the first phase, once the session is known to hold nothing live.\<close>

definition reserve_new :: "address_pool \<Rightarrow> session_id \<Rightarrow> device_id \<Rightarrow> pool_time \<Rightarrow> begun" where
  "reserve_new p sid did now =
     (if apc_maximum_leases (ap_config p)
         \<le> usize_add (usize_add (length (ap_active p)) (length (ap_pending p))) (length (ap_inflight p))
      then (pool_count pm_exhausted_update p, Inl (Addresses (Inl PExhausted)))
      else case allocate_locked p of
        (p, Inl e) \<Rightarrow> (p, Inl (Addresses (Inl e)))
      | (p, Inr a) \<Rightarrow>
          (park sid a p,
           Inr (PlanReserve sid did a
             (sat_add (tm_monotonic_ms now) (apc_pending_ttl_ms (ap_config p)))
             (wall_expiry_from_ttl (tm_wall_ms now) (apc_pending_ttl_ms (ap_config p))))))"

definition reserve_begin :: "address_pool \<Rightarrow> session_id \<Rightarrow> device_id \<Rightarrow> pool_time \<Rightarrow> begun" where
  "reserve_begin p sid did now =
     (if all_zero (to_be sid) \<or> all_zero (to_be did) then (p, Inl (Addresses (Inl POwnerMismatch)))
      else if sid \<in> set (ap_inflight p)
      then (pool_count pm_inflight_conflicts_update p, Inl (Addresses (Inl PStore)))
      else case map_of (ap_release_pending p) sid of
        Some q \<Rightarrow>
          if ql_device_id q \<noteq> did
          then (pool_count pm_owner_mismatch_update p, Inl (Addresses (Inl POwnerMismatch)))
          else (p, Inl (Addresses (Inr (ql_addresses q))))
      | None \<Rightarrow> (case map_of (ap_active p) sid of
          Some active \<Rightarrow>
            if le_device_id active \<noteq> did
            then (pool_count pm_owner_mismatch_update p, Inl (Addresses (Inl POwnerMismatch)))
            else (p, Inl (Addresses (Inr (le_addresses active))))
        | None \<Rightarrow> (case map_of (ap_pending p) sid of
            Some pending \<Rightarrow>
              if le_device_id pending \<noteq> did
              then (pool_count pm_owner_mismatch_update p, Inl (Addresses (Inl POwnerMismatch)))
              else if tm_monotonic_ms now < le_expires_at_ms pending
              then (p, Inl (Addresses (Inr (le_addresses pending))))
              else reserve_new
                (pool_count pm_pending_expired_update (p\<lparr>ap_pending := kt_remove sid (ap_pending p)\<rparr>))
                sid did now
          | None \<Rightarrow> reserve_new p sid did now)))"

definition reserve_finish :: "address_pool \<Rightarrow> session_id \<Rightarrow> device_id \<Rightarrow> assigned_addresses \<Rightarrow> u64 \<Rightarrow> bool
    \<Rightarrow> address_pool \<times> (address_pool_error + assigned_addresses)" where
  "reserve_finish p sid did a expires answer =
     (let persist_ok = store_ok p answer; p = unpark sid a p in
      if \<not> persist_ok then (pool_count pm_store_failures_update p, Inl PStore)
      else if sid \<in> keys (ap_release_pending p) \<or> sid \<in> keys (ap_active p)
      then (pool_count pm_inflight_conflicts_update p, Inl PStore)
      else (pool_count pm_allocations_update
              (p\<lparr>ap_pending := hm_insert sid
                 \<lparr>le_device_id = did, le_addresses = a, le_expires_at_ms = expires\<rparr> (ap_pending p)\<rparr>),
            Inr a))"

section \<open>Commit\<close>

definition commit_begin :: "address_pool \<Rightarrow> session_id \<Rightarrow> pool_time \<Rightarrow> begun" where
  "commit_begin p sid now =
     (if sid \<in> set (ap_inflight p)
      then (pool_count pm_inflight_conflicts_update p, Inl (Addresses (Inl PStore)))
      else case map_of (ap_active p) sid of
        Some active \<Rightarrow> (p, Inl (Addresses (Inr (le_addresses active))))
      | None \<Rightarrow> (case map_of (ap_release_pending p) sid of
          Some q \<Rightarrow> (p, Inl (Addresses (Inr (ql_addresses q))))
        | None \<Rightarrow> (case map_of (ap_pending p) sid of
            None \<Rightarrow> (p, Inl (Addresses (Inl PUnknownLease)))
          | Some pending \<Rightarrow>
              let p = park sid (le_addresses pending) (p\<lparr>ap_pending := kt_remove sid (ap_pending p)\<rparr>) in
              if le_expires_at_ms pending \<le> tm_monotonic_ms now
              then (p, Inr (PlanExpire sid (le_device_id pending) (le_addresses pending)
                (le_expires_at_ms pending) (tm_monotonic_ms now)))
              else (p, Inr (PlanPromote sid (le_device_id pending) (le_addresses pending)
                (le_expires_at_ms pending)
                (sat_add (tm_monotonic_ms now) (apc_lease_ttl_ms (ap_config p)))
                (wall_expiry_from_ttl (tm_wall_ms now) (apc_lease_ttl_ms (ap_config p))))))))"

definition expire_finish :: "address_pool \<Rightarrow> session_id \<Rightarrow> device_id \<Rightarrow> assigned_addresses \<Rightarrow> u64 \<Rightarrow> u64 \<Rightarrow> bool
    \<Rightarrow> address_pool \<times> (address_pool_error + assigned_addresses)" where
  "expire_finish p sid did a expires now answer =
     (let delete_ok = store_ok p answer;
          p = pool_count pm_pending_expired_update (unpark sid a p)
      in if delete_ok then (p, Inl PExpired)
      else case enqueue_release_locked p (leased LReleasePending sid did a expires) now of
        (p, Inl _) \<Rightarrow>
          (p\<lparr>ap_pending := hm_insert sid
             \<lparr>le_device_id = did, le_addresses = a, le_expires_at_ms = expires\<rparr> (ap_pending p)\<rparr>,
           Inl PStore)
      | (p, Inr _) \<Rightarrow> (pool_count pm_store_failures_update p, Inl PExpired))"

definition promote_finish ::
  "address_pool \<Rightarrow> session_id \<Rightarrow> device_id \<Rightarrow> assigned_addresses \<Rightarrow> u64 \<Rightarrow> u64 \<Rightarrow> bool
    \<Rightarrow> address_pool \<times> (address_pool_error + assigned_addresses)" where
  "promote_finish p sid did a pending_expires active_expires answer =
     (let persist_ok = store_ok p answer; p = unpark sid a p in
      if \<not> persist_ok
      then (pool_count pm_store_failures_update
              (p\<lparr>ap_pending := hm_insert sid
                 \<lparr>le_device_id = did, le_addresses = a, le_expires_at_ms = pending_expires\<rparr> (ap_pending p)\<rparr>),
            Inl PStore)
      else if sid \<in> keys (ap_release_pending p) \<or> sid \<in> keys (ap_active p)
      then (pool_count pm_inflight_conflicts_update p, Inl PStore)
      else (pool_count pm_commits_update
              (p\<lparr>ap_active := hm_insert sid
                 \<lparr>le_device_id = did, le_addresses = a, le_expires_at_ms = active_expires\<rparr> (ap_active p)\<rparr>),
            Inr a))"

section \<open>Release\<close>

text \<open>Taking a Reserved or else an Active lease out of its map.\<close>

definition take_lease :: "address_pool \<Rightarrow> session_id \<Rightarrow> address_pool \<times> lease option" where
  "take_lease p sid =
     (case map_of (ap_pending p) sid of
        Some pending \<Rightarrow> (p\<lparr>ap_pending := kt_remove sid (ap_pending p)\<rparr>, Some pending)
      | None \<Rightarrow> (case map_of (ap_active p) sid of
          Some active \<Rightarrow> (p\<lparr>ap_active := kt_remove sid (ap_active p)\<rparr>, Some active)
        | None \<Rightarrow> (p, None)))"

definition release_begin :: "address_pool \<Rightarrow> session_id \<Rightarrow> u64 \<Rightarrow> begun" where
  "release_begin p sid now =
     (if sid \<in> set (ap_inflight p)
      then (pool_count pm_inflight_conflicts_update p, Inl (Released (Inl PStore)))
      else if sid \<in> keys (ap_release_pending p) then (p, Inl (Released (Inr False)))
      else case take_lease p sid of
        (p, None) \<Rightarrow> (p, Inl (Released (Inr False)))
      | (p, Some taken) \<Rightarrow>
          (park sid (le_addresses taken) p,
           Inr (PlanRelease sid (le_device_id taken) (le_addresses taken) (le_expires_at_ms taken) now)))"

definition release_finish :: "address_pool \<Rightarrow> session_id \<Rightarrow> device_id \<Rightarrow> assigned_addresses \<Rightarrow> u64 \<Rightarrow> u64 \<Rightarrow> bool
    \<Rightarrow> address_pool \<times> (address_pool_error + bool)" where
  "release_finish p sid did a expires now answer =
     (let delete_ok = store_ok p answer; p = unpark sid a p in
      if delete_ok then (pool_count pm_releases_update p, Inr True)
      else case enqueue_release_locked p (leased LReleasePending sid did a expires) now of
        (p, Inl _) \<Rightarrow>
          (p\<lparr>ap_active := hm_insert sid
             \<lparr>le_device_id = did, le_addresses = a, le_expires_at_ms = expires\<rparr> (ap_active p)\<rparr>,
           Inl PStore)
      | (p, Inr _) \<Rightarrow>
          (pool_count pm_releases_update (pool_count pm_store_failures_update p), Inr True))"

text \<open>The session cleanup quarantines without a store call; the retry does the delete.\<close>

definition release_deferred :: "address_pool \<Rightarrow> session_id \<Rightarrow> address_pool \<times> bool" where
  "release_deferred p sid =
     (if sid \<in> set (ap_inflight p) \<or> sid \<in> keys (ap_release_pending p) then (p, False)
      else case take_lease p sid of
        (p, None) \<Rightarrow> (p, False)
      | (p, Some taken) \<Rightarrow>
          (case enqueue_release_locked p (leased LReleasePending sid (le_device_id taken)
              (le_addresses taken) (le_expires_at_ms taken)) 0 of
             (p, Inl _) \<Rightarrow> (p\<lparr>ap_active := hm_insert sid taken (ap_active p)\<rparr>, False)
           | (p, Inr _) \<Rightarrow> (pool_count pm_releases_update p, True)))"

section \<open>Lookups\<close>

definition pool_lookup :: "address_pool \<Rightarrow> session_id \<Rightarrow> assigned_addresses option" where
  "pool_lookup p sid =
     (case map_of (ap_active p) sid of
        Some l \<Rightarrow> Some (le_addresses l)
      | None \<Rightarrow> map_option le_addresses (map_of (ap_pending p) sid))"

definition pool_lookup_active :: "address_pool \<Rightarrow> session_id \<Rightarrow> assigned_addresses option" where
  "pool_lookup_active p sid = map_option le_addresses (map_of (ap_active p) sid)"

definition quarantined :: "address_pool \<Rightarrow> (session_id \<times> u64 \<times> u64) list" where
  "quarantined p = sort_key fst
     (map (\<lambda>(sid, q). (sid, ql_expires_at_ms q, ql_attempts q)) (ap_release_pending p))"

section \<open>Renew\<close>

definition renew_begin :: "address_pool \<Rightarrow> session_id \<Rightarrow> pool_time \<Rightarrow> begun" where
  "renew_begin p sid now =
     (if sid \<in> set (ap_inflight p)
      then (pool_count pm_inflight_conflicts_update p, Inl (Renewed (Inl PStore)))
      else case map_of (ap_active p) sid of
        None \<Rightarrow> (p, Inl (Renewed (Inl PUnknownLease)))
      | Some active \<Rightarrow>
          if le_expires_at_ms active \<le> tm_monotonic_ms now then (p, Inl (Renewed (Inl PExpired)))
          else (p\<lparr>ap_inflight := List.insert sid (ap_inflight p)\<rparr>,
            Inr (PlanRenew sid (le_device_id active) (le_addresses active)
              (sat_add (tm_monotonic_ms now) (apc_lease_ttl_ms (ap_config p)))
              (wall_expiry_from_ttl (tm_wall_ms now) (apc_lease_ttl_ms (ap_config p))))))"

definition renew_finish :: "address_pool \<Rightarrow> session_id \<Rightarrow> device_id \<Rightarrow> assigned_addresses \<Rightarrow> u64 \<Rightarrow> bool
    \<Rightarrow> address_pool \<times> (address_pool_error + unit)" where
  "renew_finish p sid did a renewed answer =
     (let persist_ok = store_ok p answer;
          p = p\<lparr>ap_inflight := removeAll sid (ap_inflight p)\<rparr> in
      if \<not> persist_ok then (pool_count pm_store_failures_update p, Inl PStore)
      else case map_of (ap_active p) sid of
        None \<Rightarrow> (pool_count pm_inflight_conflicts_update p, Inl PUnknownLease)
      | Some active \<Rightarrow>
          if le_device_id active = did \<and> le_addresses active = a
          then (pool_count pm_renewals_update
                  (p\<lparr>ap_active := hm_insert sid (active\<lparr>le_expires_at_ms := renewed\<rparr>) (ap_active p)\<rparr>),
                Inr ())
          else (pool_count pm_inflight_conflicts_update p, Inl PUnknownLease))"

section \<open>Sweep\<close>

text \<open>The two loops of the first phase, over the identifiers collected before them.\<close>

fun sweep_pending :: "session_id list \<Rightarrow> address_pool \<Rightarrow> address_pool \<times> expired_lease list" where
  "sweep_pending [] p = (p, [])"
| "sweep_pending (sid # ids) p =
     (case map_of (ap_pending p) sid of
        None \<Rightarrow> sweep_pending ids p
      | Some l \<Rightarrow>
          let (p, batch) = sweep_pending ids (park sid (le_addresses l)
                (pool_count pm_pending_expired_update (p\<lparr>ap_pending := kt_remove sid (ap_pending p)\<rparr>)))
          in (p, \<lparr>ex_id = sid, ex_device_id = le_device_id l, ex_addresses = le_addresses l,
                ex_expires_at_ms = le_expires_at_ms l, ex_was_pending = True\<rparr> # batch))"

fun sweep_active :: "session_id list \<Rightarrow> address_pool \<Rightarrow> address_pool \<times> expired_lease list" where
  "sweep_active [] p = (p, [])"
| "sweep_active (sid # ids) p =
     (case map_of (ap_active p) sid of
        None \<Rightarrow> sweep_active ids p
      | Some l \<Rightarrow>
          let (p, batch) = sweep_active ids (park sid (le_addresses l)
                (pool_count pm_active_expired_update (p\<lparr>ap_active := kt_remove sid (ap_active p)\<rparr>)))
          in (p, \<lparr>ex_id = sid, ex_device_id = le_device_id l, ex_addresses = le_addresses l,
                ex_expires_at_ms = le_expires_at_ms l, ex_was_pending = False\<rparr> # batch))"

definition expired_ids :: "session_id list \<Rightarrow> u64 \<Rightarrow> (session_id \<times> lease) list \<Rightarrow> session_id list" where
  "expired_ids inflight now m =
     map fst (filter (\<lambda>(sid, l). sid \<notin> set inflight \<and> le_expires_at_ms l \<le> now) m)"

definition sweep_begin :: "address_pool \<Rightarrow> u64 \<Rightarrow> begun" where
  "sweep_begin p now =
     (let pending_ids = expired_ids (ap_inflight p) now (ap_pending p);
          active_ids = expired_ids (ap_inflight p) now (ap_active p);
          (p, pending_batch) = sweep_pending pending_ids p;
          (p, active_batch) = sweep_active active_ids p
      in (p, Inr (PlanSweep (sort_key ex_id (pending_batch @ active_batch)) now)))"

text \<open>One round of the loop of the third phase; \<open>ok\<close> is the outcome recorded for the session.\<close>

definition sweep_settle :: "u64 \<Rightarrow> expired_lease \<Rightarrow> bool \<Rightarrow> address_pool \<Rightarrow> address_pool" where
  "sweep_settle now e ok p =
     (let p = unpark (ex_id e) (ex_addresses e) p in
      if ap_has_store p \<and> \<not> ok
      then (case enqueue_release_locked p
              (leased LReleasePending (ex_id e) (ex_device_id e) (ex_addresses e) (ex_expires_at_ms e)) now of
          (p, Inl _) \<Rightarrow>
            let l = \<lparr>le_device_id = ex_device_id e, le_addresses = ex_addresses e,
                     le_expires_at_ms = ex_expires_at_ms e\<rparr> in
            if ex_was_pending e then p\<lparr>ap_pending := hm_insert (ex_id e) l (ap_pending p)\<rparr>
            else p\<lparr>ap_active := hm_insert (ex_id e) l (ap_active p)\<rparr>
        | (p, Inr _) \<Rightarrow> pool_count pm_store_failures_update p)
      else p)"

fun sweep_settle_all :: "u64 \<Rightarrow> (session_id \<times> bool) list \<Rightarrow> expired_lease list \<Rightarrow> address_pool \<Rightarrow> address_pool" where
  "sweep_settle_all now outcomes [] p = p"
| "sweep_settle_all now outcomes (e # batch) p =
     sweep_settle_all now outcomes batch
       (sweep_settle now e (case map_of outcomes (ex_id e) of Some ok \<Rightarrow> ok | None \<Rightarrow> True) p)"

definition sweep_finish :: "address_pool \<Rightarrow> expired_lease list \<Rightarrow> u64 \<Rightarrow> bool list
    \<Rightarrow> address_pool \<times> session_id list" where
  "sweep_finish p batch now answers =
     (sweep_settle_all now (zip (map ex_id batch) answers) batch p, sort (map ex_id batch))"

section \<open>Bounded retry\<close>

text \<open>
  The selection loop over the retry order: \<open>inflight\<close>, \<open>batch\<close>, \<open>remaining\<close> and \<open>deferred\<close> are
  its variables.
\<close>

fun retry_select :: "(session_id \<times> release_pending_lease) list \<Rightarrow> u64 \<Rightarrow> nat \<Rightarrow> session_id list
    \<Rightarrow> session_id list \<Rightarrow> session_id list \<Rightarrow> session_id list \<Rightarrow> u64
    \<Rightarrow> session_id list \<times> session_id list \<times> session_id list \<times> u64" where
  "retry_select rp now max_batch [] inflight batch remaining deferred = (inflight, batch, remaining, deferred)"
| "retry_select rp now max_batch (sid # order) inflight batch remaining deferred =
     (case map_of rp sid of
        None \<Rightarrow> retry_select rp now max_batch order inflight batch remaining deferred
      | Some q \<Rightarrow>
          if sid \<in> set inflight
          then retry_select rp now max_batch order inflight batch (remaining @ [sid]) deferred
          else if now < ql_next_retry_ms q
          then retry_select rp now max_batch order inflight batch (remaining @ [sid]) (sat_inc deferred)
          else if max_batch \<le> length batch
          then
            let rest = filter (\<lambda>sid. sid \<in> keys rp) order in
            (inflight, batch, remaining @ sid # rest, foldl (\<lambda>d _. sat_inc d) (sat_inc deferred) rest)
          else retry_select rp now max_batch order (List.insert sid inflight) (batch @ [sid]) remaining deferred)"

definition retry_begin :: "address_pool \<Rightarrow> u64 \<Rightarrow> nat \<Rightarrow> begun" where
  "retry_begin p now max_batch =
     (if \<not> ap_has_store p then (p, Inl (Retried 0))
      else
        let (inflight, batch, remaining, deferred) =
              retry_select (ap_release_pending p) now max_batch (ap_release_order p) (ap_inflight p) [] [] 0;
            p = p\<lparr>ap_inflight := inflight, ap_release_order := remaining\<rparr>;
            p = (if deferred \<noteq> 0 then pool_add pm_release_retry_deferred_update deferred p else p)
        in if batch = [] then (p, Inl (Retried (length (ap_release_pending p))))
           else (p, Inr (PlanRetry batch now)))"

text \<open>One round of the loop over the outcomes, with the number retried so far.\<close>

definition retry_settle :: "u64 \<Rightarrow> session_id \<Rightarrow> bool \<Rightarrow> address_pool \<Rightarrow> u64 \<Rightarrow> address_pool \<times> u64" where
  "retry_settle now sid ok p retried =
     (let p = p\<lparr>ap_inflight := removeAll sid (ap_inflight p)\<rparr> in
      if ok then
        (if sid \<in> keys (ap_release_pending p)
         then (p\<lparr>ap_release_pending := kt_remove sid (ap_release_pending p)\<rparr>, sat_inc retried)
         else (p, retried))
      else case map_of (ap_release_pending p) sid of
        Some q \<Rightarrow>
          let attempts = sat_inc (ql_attempts q) in
          (p\<lparr>ap_release_pending := hm_insert sid
               (q\<lparr>ql_attempts := attempts, ql_next_retry_ms := next_retry_deadline now attempts\<rparr>)
               (ap_release_pending p),
             ap_release_order := ap_release_order p @ [sid]\<rparr>, retried)
      | None \<Rightarrow> (p\<lparr>ap_release_order := ap_release_order p @ [sid]\<rparr>, retried))"

fun retry_settle_all :: "u64 \<Rightarrow> (session_id \<times> bool) list \<Rightarrow> address_pool \<Rightarrow> u64 \<Rightarrow> address_pool \<times> u64" where
  "retry_settle_all now [] p retried = (p, retried)"
| "retry_settle_all now ((sid, ok) # outcomes) p retried =
     (let (p, retried) = retry_settle now sid ok p retried in retry_settle_all now outcomes p retried)"

definition retry_finish :: "address_pool \<Rightarrow> session_id list \<Rightarrow> u64 \<Rightarrow> bool list \<Rightarrow> address_pool \<times> nat" where
  "retry_finish p batch now answers =
     (let (p, retried) = retry_settle_all now (zip batch answers) p 0;
          p = (if retried \<noteq> 0 then pool_add pm_release_retries_update retried p else p)
      in (p, length (ap_release_pending p)))"

section \<open>The third phase of a plan\<close>

fun first_answer :: "bool list \<Rightarrow> bool" where
  "first_answer [] = False"
| "first_answer (a # _) = a"

fun plan_finish :: "address_pool \<Rightarrow> pool_plan \<Rightarrow> bool list \<Rightarrow> address_pool \<times> pool_answer" where
  "plan_finish p (PlanReserve sid did a expires wall) answers =
     map_prod id Addresses (reserve_finish p sid did a expires (first_answer answers))"
| "plan_finish p (PlanPromote sid did a pending_expires active_expires wall) answers =
     map_prod id Addresses (promote_finish p sid did a pending_expires active_expires (first_answer answers))"
| "plan_finish p (PlanExpire sid did a expires now) answers =
     map_prod id Addresses (expire_finish p sid did a expires now (first_answer answers))"
| "plan_finish p (PlanRelease sid did a expires now) answers =
     map_prod id Released (release_finish p sid did a expires now (first_answer answers))"
| "plan_finish p (PlanRenew sid did a renewed wall) answers =
     map_prod id Renewed (renew_finish p sid did a renewed (first_answer answers))"
| "plan_finish p (PlanSweep batch now) answers = map_prod id Swept (sweep_finish p batch now answers)"
| "plan_finish p (PlanRetry batch now) answers = map_prod id Retried (retry_finish p batch now answers)"

text \<open>An operation with nothing else running.\<close>

definition complete :: "begun \<Rightarrow> bool list \<Rightarrow> address_pool \<times> pool_answer" where
  "complete b answers = (case b of (p, Inl answer) \<Rightarrow> (p, answer) | (p, Inr plan) \<Rightarrow> plan_finish p plan answers)"

definition pool_sweep :: "address_pool \<Rightarrow> u64 \<Rightarrow> bool list \<Rightarrow> bool list \<Rightarrow> address_pool \<times> pool_answer" where
  "pool_sweep p now answers retry_answers =
     (let (p, answer) = complete (sweep_begin p now) answers
      in (fst (complete (retry_begin p now 32) retry_answers), answer))"

section \<open>Recovery\<close>

definition valid_persisted :: "address_pool \<Rightarrow> persisted_lease \<Rightarrow> session_id list \<Rightarrow> arr4 list \<Rightarrow> arr16 list \<Rightarrow> bool" where
  "valid_persisted p l seen_sessions seen_v4 seen_v6 \<longleftrightarrow>
     (if all_zero (to_be (pl_session_id l)) \<or> all_zero (to_be (pl_device_id l)) then False
      else if pl_ipv4_prefix_len l \<noteq> apc_ipv4_prefix_len (ap_config p) \<or> pl_ipv6_prefix_len l \<noteq> 64 then False
      else if \<not> ipv4_usable (ap_config p) (pl_ipv4 l) \<or> \<not> ipv6_usable (ap_config p) (pl_ipv6_prefix l) then False
      else if pl_session_id l \<in> set seen_sessions \<or> pl_ipv4 l \<in> set seen_v4 \<or> pl_ipv6_prefix l \<in> set seen_v6
        \<or> pl_session_id l \<in> keys (ap_active p) \<or> pl_session_id l \<in> keys (ap_pending p)
        \<or> pl_session_id l \<in> keys (ap_release_pending p) then False
      else if list_ex (\<lambda>e. aa_ipv4 (le_addresses (snd e)) = pl_ipv4 l) (ap_active p)
        \<or> list_ex (\<lambda>e. aa_ipv4 (le_addresses (snd e)) = pl_ipv4 l) (ap_pending p)
        \<or> list_ex (\<lambda>e. aa_ipv4 (ql_addresses (snd e)) = pl_ipv4 l) (ap_release_pending p)
        \<or> list_ex (\<lambda>e. aa_ipv6_prefix (le_addresses (snd e)) = pl_ipv6_prefix l) (ap_active p)
        \<or> list_ex (\<lambda>e. aa_ipv6_prefix (le_addresses (snd e)) = pl_ipv6_prefix l) (ap_pending p)
        \<or> list_ex (\<lambda>e. aa_ipv6_prefix (ql_addresses (snd e)) = pl_ipv6_prefix l) (ap_release_pending p) then False
      else True)"

definition recover_full :: "address_pool \<Rightarrow> lease_state \<Rightarrow> bool" where
  "recover_full p state \<longleftrightarrow>
     (case state of
        LReleasePending \<Rightarrow> apc_maximum_pending_releases (ap_config p) \<le> length (ap_release_pending p)
      | _ \<Rightarrow> apc_maximum_leases (ap_config p) \<le> usize_add (length (ap_active p)) (length (ap_pending p)))"

definition recover_insert :: "address_pool \<Rightarrow> persisted_lease \<Rightarrow> pool_time \<Rightarrow> address_pool" where
  "recover_insert p l now =
     (let expires = monotonic_expiry_from_wall (pl_expires_at_ms l) (tm_wall_ms now) (tm_monotonic_ms now);
          lease = \<lparr>le_device_id = pl_device_id l, le_addresses = lease_addresses l, le_expires_at_ms = expires\<rparr>
      in case pl_state l of
        LReserved \<Rightarrow> p\<lparr>ap_pending := hm_insert (pl_session_id l) lease (ap_pending p)\<rparr>
      | LActive \<Rightarrow> p\<lparr>ap_active := hm_insert (pl_session_id l) lease (ap_active p)\<rparr>
      | LReleasePending \<Rightarrow>
          p\<lparr>ap_release_order := ap_release_order p @ [pl_session_id l],
            ap_release_pending := hm_insert (pl_session_id l)
              \<lparr>ql_device_id = pl_device_id l, ql_addresses = lease_addresses l, ql_expires_at_ms = expires,
               ql_attempts = 0, ql_next_retry_ms = next_retry_deadline (tm_monotonic_ms now) 0\<rparr>
              (ap_release_pending p)\<rparr>)"

text \<open>The loop over the sorted records, with the sets of values seen; it returns the discarded ones.\<close>

fun recover_loop :: "pool_time \<Rightarrow> persisted_lease list \<Rightarrow> session_id list \<Rightarrow> arr4 list \<Rightarrow> arr16 list
    \<Rightarrow> address_pool \<Rightarrow> address_pool \<times> persisted_lease list" where
  "recover_loop now [] ss v4 v6 p = (p, [])"
| "recover_loop now (l # ls) ss v4 v6 p =
     (if pl_expires_at_ms l \<le> tm_wall_ms now \<or> \<not> valid_persisted p l ss v4 v6
      then (let (p, stale) = recover_loop now ls ss v4 v6 (pool_count pm_recovered_dropped_update p)
            in (p, l # stale))
      else if recover_full p (pl_state l)
      then (let (p, stale) = recover_loop now ls (pl_session_id l # ss) (pl_ipv4 l # v4) (pl_ipv6_prefix l # v6)
                  (pool_count pm_recovered_dropped_update p)
            in (p, l # stale))
      else recover_loop now ls (pl_session_id l # ss) (pl_ipv4 l # v4) (pl_ipv6_prefix l # v6)
             (pool_count pm_recovered_update (recover_insert p l now)))"

fun recover_quarantine :: "u64 \<Rightarrow> persisted_lease list \<Rightarrow> address_pool \<Rightarrow> address_pool_error + address_pool" where
  "recover_quarantine now [] p = Inr p"
| "recover_quarantine now (l # ls) p =
     (case enqueue_release_locked p (l\<lparr>pl_state := LReleasePending\<rparr>) now of
        (p, Inl _) \<Rightarrow> Inl PStore
      | (p, Inr _) \<Rightarrow> recover_quarantine now ls (pool_count pm_store_failures_update p))"

text \<open>
  \<open>recover_locked_at_time\<close>. The stable sort by session and then by device is two stable sorts;
  \<open>answers\<close> are the store's, for the deletes of the discarded records in order.
\<close>

definition pool_recover :: "address_pool \<Rightarrow> persisted_lease list \<Rightarrow> pool_time \<Rightarrow> bool list
    \<Rightarrow> address_pool_error + address_pool" where
  "pool_recover p persisted now answers =
     (let ordered = sort_key pl_session_id (sort_key pl_device_id persisted);
          bound = min (usize_add (apc_maximum_leases (ap_config p)) (apc_maximum_pending_releases (ap_config p)))
            max_leases_hard_cap;
          beyond = drop bound ordered;
          p = pool_add pm_recovered_dropped_update (of_nat (length beyond)) p;
          (p, discarded) = recover_loop now (take bound ordered) [] [] [] p;
          stale = beyond @ discarded;
          failed = (if ap_has_store p then map fst (filter (\<lambda>x. \<not> snd x) (zip stale answers)) else [])
      in recover_quarantine (tm_monotonic_ms now) failed p)"

text \<open>\<open>with_store_at_time\<close>, given what \<open>load\<close> returned.\<close>

definition pool_with_store :: "address_pool_config \<Rightarrow> persisted_lease list option \<Rightarrow> pool_time \<Rightarrow> bool list
    \<Rightarrow> address_pool_error + address_pool" where
  "pool_with_store c loaded now answers =
     (case loaded of
        None \<Rightarrow> Inl PStore
      | Some persisted \<Rightarrow>
          if max_leases_hard_cap < length persisted then Inl PStore
          else pool_recover ((pool_new c)\<lparr>ap_has_store := True\<rparr>) persisted now answers)"

section \<open>The pool and the operations under way\<close>

record pool_system =
  py_pool :: address_pool
  py_running :: "pool_plan list"

datatype pool_event =
    PoReserve session_id device_id pool_time
  | PoCommit session_id pool_time
  | PoRelease session_id u64
  | PoRenew session_id pool_time
  | PoSweep u64
  | PoRetry u64 nat
  | PoDeferred session_id
  | PoFinish nat "bool list"

datatype pool_outcome = Answered pool_answer | Parked | Deferred bool | NoPlan

definition begun_step :: "pool_system \<Rightarrow> begun \<Rightarrow> pool_system \<times> pool_outcome" where
  "begun_step s b =
     (case b of
        (p, Inl answer) \<Rightarrow> (s\<lparr>py_pool := p\<rparr>, Answered answer)
      | (p, Inr plan) \<Rightarrow> (\<lparr>py_pool = p, py_running = py_running s @ [plan]\<rparr>, Parked))"

text \<open>
  Any operation may begin and any one under way may finish next; the retry that ends a sweep is an
  event of its own. \<open>PoFinish i\<close> is the third phase of the \<open>i\<close>th operation under way.
\<close>

fun pool_exec :: "pool_system \<Rightarrow> pool_event \<Rightarrow> pool_system \<times> pool_outcome" where
  "pool_exec s (PoReserve sid did now) = begun_step s (reserve_begin (py_pool s) sid did now)"
| "pool_exec s (PoCommit sid now) = begun_step s (commit_begin (py_pool s) sid now)"
| "pool_exec s (PoRelease sid now) = begun_step s (release_begin (py_pool s) sid now)"
| "pool_exec s (PoRenew sid now) = begun_step s (renew_begin (py_pool s) sid now)"
| "pool_exec s (PoSweep now) = begun_step s (sweep_begin (py_pool s) now)"
| "pool_exec s (PoRetry now max_batch) = begun_step s (retry_begin (py_pool s) now max_batch)"
| "pool_exec s (PoDeferred sid) =
     (let (p, b) = release_deferred (py_pool s) sid in (s\<lparr>py_pool := p\<rparr>, Deferred b))"
| "pool_exec s (PoFinish i answers) =
     (if i < length (py_running s) \<and> length answers = length (plan_calls (py_running s ! i))
      then
        let (p, answer) = plan_finish (py_pool s) (py_running s ! i) answers;
            running = take i (py_running s) @ drop (Suc i) (py_running s)
        in (\<lparr>py_pool = p, py_running = running\<rparr>, Answered answer)
      else (s, NoPlan))"

end
