(* ===== verification/PoolAlloc.thy ===== *)
theory PoolAlloc
  imports Pool
begin

text \<open>
  The address searches of the lease pool: what the scanning loops return, and that a found
  address is usable, blocked by nothing, and the least such one.
\<close>

lemma scan_ipv4_Some:
  "scan_ipv4 blocked broadcast bound scanned candidate = Some a \<Longrightarrow>
    candidate \<le> a \<and> a < broadcast \<and> \<not> blocked a \<and> (\<forall>x. candidate \<le> x \<and> x < a \<longrightarrow> blocked x)"
proof (induction blocked broadcast bound scanned candidate rule: scan_ipv4.induct)
  case (1 blocked broadcast bound scanned candidate)
  show ?case
  proof (cases "candidate < broadcast \<and> scanned < bound")
    case True
    show ?thesis
    proof (cases "blocked candidate")
      case b: True
      have next_eq: "scan_ipv4 blocked broadcast bound (Suc scanned) (sat_inc candidate) = Some a"
        using "1.prems" True b by (simp add: scan_ipv4.simps [of blocked broadcast bound scanned])
      have nm: "candidate \<noteq> - 1" using True word_less_not_max by blast
      from "1.IH" [OF True b next_eq]
      have *: "candidate + 1 \<le> a" "a < broadcast" "\<not> blocked a" "\<forall>x. candidate + 1 \<le> x \<and> x < a \<longrightarrow> blocked x"
        by (simp_all add: sat_inc_eq [OF nm])
      have "candidate + 1 \<le> x \<longleftrightarrow> candidate < x" for x
        using word_inc_less [OF nm, of x] by (simp add: linorder_not_less [symmetric])
      with * b show ?thesis by (auto simp: order_le_less)
    qed (use "1.prems" True in \<open>auto simp add: scan_ipv4.simps [of blocked broadcast bound scanned]\<close>)
  qed (use "1.prems" in \<open>auto simp add: scan_ipv4.simps [of blocked broadcast bound scanned]\<close>)
qed

lemma scan_ipv4_None:
  "scan_ipv4 blocked broadcast bound scanned candidate = None \<Longrightarrow>
    candidate \<le> x \<Longrightarrow> x < broadcast \<Longrightarrow> unat x < unat candidate + (bound - scanned) \<Longrightarrow> blocked x"
proof (induction blocked broadcast bound scanned candidate rule: scan_ipv4.induct)
  case (1 blocked broadcast bound scanned candidate)
  have lt: "candidate < broadcast \<and> scanned < bound"
    using "1.prems" by (auto simp: word_le_nat_alt word_less_nat_alt)
  then have nm: "candidate \<noteq> - 1" using word_less_not_max by blast
  have b: "blocked candidate"
    using "1.prems"(1) lt by (simp add: scan_ipv4.simps [of blocked broadcast bound scanned] split: if_split_asm)
  have next_eq: "scan_ipv4 blocked broadcast bound (Suc scanned) (sat_inc candidate) = None"
    using "1.prems"(1) lt b by (simp add: scan_ipv4.simps [of blocked broadcast bound scanned])
  show ?case
  proof (cases "x = candidate")
    case False
    then have "candidate + 1 \<le> x" using "1.prems"(2) word_inc_less [OF nm, of x]
      by (simp add: linorder_not_less [symmetric])
    moreover have "unat x < unat (candidate + 1) + (bound - Suc scanned)"
      using "1.prems"(4) lt by (simp add: unat_inc [OF nm])
    ultimately show ?thesis
      using "1.IH" [OF lt b next_eq] "1.prems"(3) by (simp add: sat_inc_eq [OF nm])
  qed (use b in simp)
qed

lemma scan_fallback_Some:
  "scan_fallback_ipv4 blocked network broadcast candidate = Some a \<Longrightarrow>
    candidate \<le> a \<and> a < broadcast \<and> \<not> blocked a \<and> (\<forall>x. candidate \<le> x \<and> x < a \<longrightarrow> blocked x)"
proof (induction blocked network broadcast candidate rule: scan_fallback_ipv4.induct)
  case (1 blocked network broadcast candidate)
  note unfold = scan_fallback_ipv4.simps [of blocked network broadcast candidate]
  show ?case
  proof (cases "candidate < broadcast \<and> blocked candidate")
    case True
    then have far: "\<not> 1048576 < sat_inc candidate - network"
      and next_eq: "scan_fallback_ipv4 blocked network broadcast (sat_inc candidate) = Some a"
      using "1.prems" by (simp_all add: unfold split: if_split_asm)
    have nm: "candidate \<noteq> - 1" using True word_less_not_max by blast
    have *: "candidate + 1 \<le> a" "a < broadcast" "\<not> blocked a" "\<forall>x. candidate + 1 \<le> x \<and> x < a \<longrightarrow> blocked x"
      using "1.IH" [OF _ _ far next_eq] True by (simp_all add: sat_inc_eq [OF nm])
    have "candidate + 1 \<le> x \<longleftrightarrow> candidate < x" for x
      using word_inc_less [OF nm, of x] by (simp add: linorder_not_less [symmetric])
    with * True show ?thesis by (auto simp: order_le_less)
  qed (use "1.prems" in \<open>auto simp: unfold split: if_split_asm\<close>)
qed

lemma scan_fallback_None:
  "scan_fallback_ipv4 blocked network broadcast candidate = None \<Longrightarrow> network < candidate \<Longrightarrow>
    candidate \<le> x \<Longrightarrow> x < broadcast \<Longrightarrow> unat x \<le> unat network + 1048576 \<Longrightarrow> blocked x"
proof (induction blocked network broadcast candidate rule: scan_fallback_ipv4.induct)
  case (1 blocked network broadcast candidate)
  note unfold = scan_fallback_ipv4.simps [of blocked network broadcast candidate]
  have lt: "candidate < broadcast" using "1.prems"(3,4) by simp
  then have nm: "candidate \<noteq> - 1" using word_less_not_max by blast
  have b: "\<not> \<not> blocked candidate" using "1.prems"(1) lt by (simp add: unfold split: if_split_asm)
  show ?case
  proof (cases "x = candidate")
    case False
    then have step: "candidate + 1 \<le> x" using "1.prems"(3) word_inc_less [OF nm, of x]
      by (simp add: linorder_not_less [symmetric])
    have "network \<le> candidate + 1"
      using "1.prems"(2) by (simp add: word_le_nat_alt word_less_nat_alt unat_inc [OF nm])
    then have "unat (candidate + 1 - network) \<le> 1048576"
      using step "1.prems"(5) by (simp add: unat_sub word_le_nat_alt)
    then have far: "\<not> 1048576 < sat_inc candidate - network"
      by (simp add: sat_inc_eq [OF nm] word_less_nat_alt)
    have next_eq: "scan_fallback_ipv4 blocked network broadcast (sat_inc candidate) = None"
      using "1.prems"(1) lt b far by (simp add: unfold)
    have "network < candidate + 1"
      using "1.prems"(2) by (simp add: word_less_nat_alt unat_inc [OF nm])
    then show ?thesis
      using "1.IH" [OF lt b far next_eq] "1.prems"(4,5) step by (simp add: sat_inc_eq [OF nm])
  qed (use b in simp)
qed

lemma scan_ipv6_Some:
  "scan_ipv6 prefix used bound subnet = Some a \<Longrightarrow>
    \<exists>n. subnet \<le> n \<and> n \<le> bound \<and> a = prefix (of_nat n) \<and> a \<notin> set used \<and>
      (\<forall>i. subnet \<le> i \<and> i < n \<longrightarrow> prefix (of_nat i) \<in> set used)"
proof (induction prefix used bound subnet rule: scan_ipv6.induct)
  case (1 prefix used bound subnet)
  note unfold = scan_ipv6.simps [of prefix used bound subnet]
  show ?case
  proof (cases "subnet \<le> bound \<and> prefix (of_nat subnet) \<in> set used")
    case True
    then have "scan_ipv6 prefix used bound (Suc subnet) = Some a" using "1.prems" by (simp add: unfold)
    with "1.IH" True obtain n where "Suc subnet \<le> n" "n \<le> bound" "a = prefix (of_nat n)" "a \<notin> set used"
      and "\<forall>i. Suc subnet \<le> i \<and> i < n \<longrightarrow> prefix (of_nat i) \<in> set used" by auto
    moreover have "subnet \<le> i \<and> i < n \<longleftrightarrow> i = subnet \<and> i < n \<or> Suc subnet \<le> i \<and> i < n" for i by auto
    ultimately show ?thesis using True by (intro exI [of _ n]) auto
  qed (use "1.prems" in \<open>auto simp: unfold split: if_split_asm\<close>)
qed

lemma scan_ipv6_None:
  "scan_ipv6 prefix used bound subnet = None \<Longrightarrow> subnet \<le> i \<Longrightarrow> i \<le> bound \<Longrightarrow>
    prefix (of_nat i) \<in> set used"
proof (induction prefix used bound subnet rule: scan_ipv6.induct)
  case (1 prefix used bound subnet)
  note unfold = scan_ipv6.simps [of prefix used bound subnet]
  have "prefix (of_nat subnet) \<in> set used" and "scan_ipv6 prefix used bound (Suc subnet) = None"
    using "1.prems" by (simp_all add: unfold split: if_split_asm)
  with 1 show ?case by (cases "i = subnet") auto
qed

section \<open>Free addresses\<close>

lemma network_inc:
  assumes "pool_config_ok c"
  shows "sat_inc (apc_network c) = apc_network c + 1" and "apc_network c \<noteq> - 1"
proof -
  have "unat (apc_network c) < unat (apc_broadcast c)"
    using unat_broadcast [OF assms] power_increasing [OF host_bits(1) [OF assms], of "2::nat"] by simp
  then show "apc_network c \<noteq> - 1" using word_less_not_max word_less_nat_alt by blast
  then show "sat_inc (apc_network c) = apc_network c + 1" by (rule sat_inc_eq)
qed

lemma usable_not_blocked:
  assumes "pool_config_ok (ap_config p)"
  shows "ipv4_usable (ap_config p) x \<and> x \<notin> set (used_ipv4 p) \<longleftrightarrow>
    apc_network (ap_config p) + 1 \<le> x \<and> x < apc_broadcast (ap_config p) \<and> \<not> ipv4_blocked p x"
proof -
  have "apc_network (ap_config p) + 1 \<le> x \<longleftrightarrow> apc_network (ap_config p) < x"
    using word_inc_less [OF network_inc(2) [OF assms], of x] by (simp add: linorder_not_less [symmetric])
  then show ?thesis by (auto simp: ipv4_usable_iff [OF assms] ipv4_blocked_def)
qed

lemma find_free_ipv4_cases:
  assumes "find_free_ipv4 p = Some a"
  obtains bound where "scan_ipv4 (ipv4_blocked p) (apc_broadcast (ap_config p)) bound 0 (sat_inc (apc_network (ap_config p))) = Some a"
  | "scan_fallback_ipv4 (ipv4_blocked p) (apc_network (ap_config p)) (apc_broadcast (ap_config p)) (sat_inc (apc_network (ap_config p))) = Some a"
  using assms by (auto simp: find_free_ipv4_def Let_def split: option.splits if_split_asm)

lemma find_free_ipv4_least:
  assumes c: "pool_config_ok (ap_config p)" and a: "find_free_ipv4 p = Some a"
  shows "ipv4_usable (ap_config p) a" and "a \<notin> set (used_ipv4 p)"
    and "ipv4_usable (ap_config p) x \<Longrightarrow> x < a \<Longrightarrow> x \<in> set (used_ipv4 p)"
proof -
  let ?n = "apc_network (ap_config p)"
  have *: "?n + 1 \<le> a \<and> a < apc_broadcast (ap_config p) \<and> \<not> ipv4_blocked p a \<and>
      (\<forall>x. ?n + 1 \<le> x \<and> x < a \<longrightarrow> ipv4_blocked p x)"
    using a by (cases rule: find_free_ipv4_cases)
      (use scan_ipv4_Some scan_fallback_Some network_inc(1) [OF c] in metis)+
  then show "ipv4_usable (ap_config p) a" and "a \<notin> set (used_ipv4 p)"
    using usable_not_blocked [OF c, of a] by auto
  show "x \<in> set (used_ipv4 p)" if "ipv4_usable (ap_config p) x" and "x < a"
    using * that usable_not_blocked [OF c, of x] by (meson order_less_trans)
qed

lemma find_free_ipv6_subnet:
  assumes c: "pool_config_ok (ap_config p)" and a: "find_free_ipv6 p = Some a"
  defines "prefix \<equiv> ipv6_subnet_prefix (apc_ipv6_base (ap_config p)) (apc_ipv6_parent_prefix_len (ap_config p))"
  shows "ipv6_usable (ap_config p) a" and "a \<notin> set (used_ipv6 p)"
    and "\<exists>s. 1 \<le> s \<and> s \<le> usable_ipv6_subnets (apc_ipv6_parent_prefix_len (ap_config p)) \<and> a = prefix s \<and>
      (\<forall>t. 1 \<le> t \<and> t < s \<longrightarrow> prefix t \<in> set (used_ipv6 p))"
proof -
  let ?u = "usable_ipv6_subnets (apc_ipv6_parent_prefix_len (ap_config p))"
  obtain bound where "bound \<le> unat ?u" and "scan_ipv6 prefix (used_ipv6 p) bound 1 = Some a"
  proof (cases "scan_ipv6 prefix (used_ipv6 p) (min (apc_maximum_leases (ap_config p) + 8) (unat ?u)) 1")
    case None
    with a have "scan_ipv6 prefix (used_ipv6 p) (unat ?u) 1 = Some a"
      unfolding find_free_ipv6_def Let_def prefix_def by (simp split: if_split_asm)
    then show ?thesis by (rule that [OF order_refl])
  next
    case (Some b)
    with a have "b = a" unfolding find_free_ipv6_def Let_def prefix_def by simp
    with Some show ?thesis by (intro that [of "min (apc_maximum_leases (ap_config p) + 8) (unat ?u)"]) simp_all
  qed
  then obtain n where n: "1 \<le> n" "n \<le> unat ?u" "a = prefix (of_nat n)" "a \<notin> set (used_ipv6 p)"
    and least: "\<forall>i. 1 \<le> i \<and> i < n \<longrightarrow> prefix (of_nat i) \<in> set (used_ipv6 p)"
    using scan_ipv6_Some [of prefix "used_ipv6 p" bound 1 a] by (meson le_trans)
  have un: "unat (of_nat n :: u64) = n"
    using n(2) unat_bound [of ?u] by (simp add: unat_of_nat)
  have t: "prefix t \<in> set (used_ipv6 p)" if "1 \<le> t" "t < of_nat n" for t
    using least [rule_format, of "unat t"] that un by (simp add: word_le_nat_alt word_less_nat_alt)
  show "a \<notin> set (used_ipv6 p)" by (rule n(4))
  have s: "1 \<le> (of_nat n :: u64)" "of_nat n \<le> ?u" using n(1,2) un by (simp_all add: word_le_nat_alt)
  with t n(3) show "\<exists>s. 1 \<le> s \<and> s \<le> ?u \<and> a = prefix s \<and> (\<forall>t. 1 \<le> t \<and> t < s \<longrightarrow> prefix t \<in> set (used_ipv6 p))"
    by blast
  show "ipv6_usable (ap_config p) a"
    unfolding ipv6_usable_iff [OF c] using s n(3) unfolding prefix_def by blast
qed

lemma allocate_locked_cases:
  assumes "allocate_locked p = (p', r)"
  obtains "p' = pool_count pm_exhausted_update p" and "r = Inl PExhausted"
    and "find_free_ipv4 p = None \<or> find_free_ipv6 p = None"
  | a where "p' = p" and "r = Inr a" and "find_free_ipv4 p = Some (aa_ipv4 a)"
    and "find_free_ipv6 p = Some (aa_ipv6_prefix a)" and "aa_ipv4_prefix_len a = apc_ipv4_prefix_len (ap_config p)"
    and "aa_ipv6_prefix_len a = 64"
proof (cases "find_free_ipv4 p")
  case None
  with assms that(1) show ?thesis by (simp add: allocate_locked_def)
next
  case v4: (Some v4)
  show ?thesis
  proof (cases "find_free_ipv6 p")
    case None
    with assms v4 that(1) show ?thesis by (simp add: allocate_locked_def)
  next
    case (Some v6)
    with assms v4 show ?thesis by (intro that(2)) (auto simp: allocate_locked_def)
  qed
qed

end
