(* ===== verification/Machine.thy ===== *)
theory Machine
  imports Prelude
begin

text \<open>
  Components as machines: an operation takes the state and an event to the next state and an
  outcome, and a trace is a sequence of events with their outcomes. The locales state what an
  operation has to keep for an invariant, or a preorder between states, to hold along every
  trace; each component interprets them on its own operations.
\<close>

type_synonym ('s, 'e, 'o) machine = "'s \<Rightarrow> 'e \<Rightarrow> 's \<times> 'o"

inductive trace :: "('s, 'e, 'o) machine \<Rightarrow> 's \<Rightarrow> ('e \<times> 'o) list \<Rightarrow> 's \<Rightarrow> bool" for exec where
  stop: "trace exec s [] s"
| go: "exec s e = (t, out) \<Longrightarrow> trace exec t tr u \<Longrightarrow> trace exec s ((e, out) # tr) u"

inductive_simps trace_Nil [simp]: "trace exec s [] u"
inductive_simps trace_Cons: "trace exec s (x # tr) u"

lemma trace_append:
  "trace exec s (tr @ tr') u \<longleftrightarrow> (\<exists>t. trace exec s tr t \<and> trace exec t tr' u)"
  by (induction tr arbitrary: s) (auto simp: trace_Cons)

text \<open>The trace of a list of events, for evaluation.\<close>

fun outcomes :: "('s, 'e, 'o) machine \<Rightarrow> 's \<Rightarrow> 'e list \<Rightarrow> ('e \<times> 'o) list \<times> 's" where
  "outcomes exec s [] = ([], s)"
| "outcomes exec s (e # es) =
     (let (t, out) = exec s e; (tr, u) = outcomes exec t es in ((e, out) # tr, u))"

lemma outcomes_trace: "outcomes exec s es = (tr, u) \<Longrightarrow> trace exec s tr u"
  by (induction es arbitrary: s tr u) (auto simp: trace_Cons Let_def split: prod.splits)

locale keeps_invariant =
  fixes exec :: "('s, 'e, 'o) machine" and inv :: "'s \<Rightarrow> bool"
  assumes inv_exec: "inv s \<Longrightarrow> exec s e = (t, out) \<Longrightarrow> inv t"
begin

lemma inv_trace: "trace exec s tr u \<Longrightarrow> inv s \<Longrightarrow> inv u"
  by (induction rule: trace.induct) (auto dest: inv_exec)

end

text \<open>An invariant that only one kind of event may end: along a trace it holds, or such an event happened.\<close>

locale keeps_unless =
  fixes exec :: "('s, 'e, 'o) machine" and inv :: "'s \<Rightarrow> bool" and stop :: "'s \<Rightarrow> 'e \<Rightarrow> bool"
  assumes unless_exec: "inv s \<Longrightarrow> exec s e = (t, out) \<Longrightarrow> \<not> stop s e \<Longrightarrow> inv t"
begin

lemma unless_trace:
  "trace exec s tr t \<Longrightarrow> inv s \<Longrightarrow>
    inv t \<or> (\<exists>before e out after u. tr = before @ (e, out) # after \<and> trace exec s before u \<and> stop u e)"
proof (induction rule: trace.induct)
  case (go s e s' out tr t)
  show ?case
  proof (cases "stop s e")
    case True
    then show ?thesis using trace.stop by (metis append_Nil)
  next
    case False
    from go.IH [OF unless_exec [OF go.prems go.hyps(1) False]] show ?thesis
    proof
      assume "\<exists>before e out after u. tr = before @ (e, out) # after \<and> trace exec s' before u \<and> stop u e"
      then obtain before e' out' after u where "tr = before @ (e', out') # after" "trace exec s' before u" "stop u e'"
        by blast
      moreover from this(2) go.hyps(1) have "trace exec s ((e, out) # before) u" by (auto intro: trace.go)
      ultimately show ?thesis by (metis append_Cons)
    qed simp
  qed
qed simp

end

locale keeps_relation = keeps_invariant +
  fixes rel :: "'s \<Rightarrow> 's \<Rightarrow> bool"
  assumes rel_refl: "rel s s"
    and rel_trans: "rel s t \<Longrightarrow> rel t u \<Longrightarrow> rel s u"
    and rel_exec: "inv s \<Longrightarrow> exec s e = (t, out) \<Longrightarrow> rel s t"

text \<open>Being reached along the relation is an invariant of its own.\<close>

sublocale keeps_relation \<subseteq> along: keeps_invariant exec "\<lambda>t. inv t \<and> rel s t" for s
proof
  fix t e u out
  assume "inv t \<and> rel s t" and "exec t e = (u, out)"
  then show "inv u \<and> rel s u" using inv_exec rel_exec rel_trans by blast
qed

context keeps_relation
begin

lemma rel_trace: "trace exec s tr u \<Longrightarrow> inv s \<Longrightarrow> rel s u"
  using along.inv_trace [of s tr u s] rel_refl by blast

end

text \<open>A saturating counter that every operation advances by one or not at all.\<close>

locale counts =
  fixes exec :: "('s, 'e, 'o) machine" and counter :: "'s \<Rightarrow> u64" and hit :: "'e \<times> 'o \<Rightarrow> bool"
  assumes counter_exec: "exec s e = (t, out) \<Longrightarrow> counter t = sat_add (counter s) (of_bool (hit (e, out)))"
begin

lemma counter_from:
  "trace exec s tr u \<Longrightarrow> unat (counter s) = min n (2 ^ 64 - 1) \<Longrightarrow>
    unat (counter u) = min (n + length (filter hit tr)) (2 ^ 64 - 1)"
proof (induction arbitrary: n rule: trace.induct)
  case (go s e t out tr u)
  have "unat (counter t) = min (n + of_bool (hit (e, out))) (2 ^ 64 - 1)"
    unfolding counter_exec [OF go.hyps(1)] by (rule sat_count [OF go.prems])
  from go.IH [OF this] show ?case by (cases "hit (e, out)") simp_all
qed simp

lemma counter_trace:
  "trace exec s tr u \<Longrightarrow> counter s = 0 \<Longrightarrow> unat (counter u) = min (length (filter hit tr)) (2 ^ 64 - 1)"
  using counter_from [of s tr u 0] by simp

end

text \<open>
  An invariant that holds as long as a resource lasts which every operation uses up by at most
  one, such as the identifiers a counter has left before it wraps.
\<close>

locale keeps_until =
  fixes exec :: "('s, 'e, 'o) machine" and inv :: "'s \<Rightarrow> bool" and left :: "'s \<Rightarrow> nat"
  assumes until_exec: "inv s \<Longrightarrow> 0 < left s \<Longrightarrow> exec s e = (t, out) \<Longrightarrow> inv t"
    and left_exec: "inv s \<Longrightarrow> 0 < left s \<Longrightarrow> exec s e = (t, out) \<Longrightarrow> left s \<le> Suc (left t)"
begin

lemma until_trace:
  "trace exec s tr u \<Longrightarrow> inv s \<Longrightarrow> length tr \<le> left s \<Longrightarrow> inv u \<and> left s \<le> length tr + left u"
proof (induction rule: trace.induct)
  case (go s e t out tr u)
  from go.prems have "0 < left s" by simp
  with go have "inv t" and "left s \<le> Suc (left t)" using until_exec left_exec by blast+
  with go show ?case by fastforce
qed simp

text \<open>Every step of a trace is taken from a state in which the invariant still holds.\<close>

lemma until_member:
  assumes tr: "trace exec s tr u" and inv: "inv s" and len: "length tr \<le> left s" and e: "(e, out) \<in> set tr"
  obtains t t' where "inv t" and "0 < left t" and "exec t e = (t', out)"
proof -
  obtain a b where ab: "tr = a @ (e, out) # b" using split_list [OF e] by blast
  obtain t where a: "trace exec s a t" and b: "trace exec t ((e, out) # b) u"
    using tr unfolding ab trace_append by blast
  have "inv t" and "left s \<le> length a + left t" using until_trace [OF a inv] len by (simp_all add: ab)
  moreover have "0 < left t" using calculation(2) len by (simp add: ab)
  moreover obtain t' where "exec t e = (t', out)" using b by (auto simp: trace_Cons)
  ultimately show ?thesis using that by blast
qed

end

text \<open>A quantity that every operation moves by what its outcome reports.\<close>

locale balances = keeps_until +
  fixes level :: "'s \<Rightarrow> nat" and gain loss :: "'e \<times> 'o \<Rightarrow> nat"
  assumes balance_exec: "inv s \<Longrightarrow> 0 < left s \<Longrightarrow> exec s e = (t, out) \<Longrightarrow>
    level s + gain (e, out) = level t + loss (e, out)"
begin

lemma balance_trace:
  "trace exec s tr u \<Longrightarrow> inv s \<Longrightarrow> length tr \<le> left s \<Longrightarrow>
    level s + sum_list (map gain tr) = level u + sum_list (map loss tr)"
proof (induction rule: trace.induct)
  case (go s e t out tr u)
  from go.prems have pos: "0 < left s" by simp
  from go.hyps(1) go.prems pos have "inv t" and "left s \<le> Suc (left t)"
    and step: "level s + gain (e, out) = level t + loss (e, out)"
    using until_exec left_exec balance_exec by blast+
  with go have "level t + sum_list (map gain tr) = level u + sum_list (map loss tr)" by fastforce
  with step show ?case by simp
qed simp

end

end
