(* ===== verification/PoolInv.thy ===== *)
theory PoolInv
  imports PoolAlloc Machine "HOL-Library.Multiset"
begin

text \<open>
  The invariant of the lease pool. A lease is in one of the two maps, or held by an operation
  under way whose addresses are parked, or in the hands of a phase that has taken it out and not
  put it back. \<open>pool_ok G p busy held extra\<close> says that the leases in all these places together have
  distinct sessions, distinct IPv4 addresses and distinct prefixes, are usable, and number at most
  \<open>maximum_leases\<close>, and that the inflight sets are exactly the sessions \<open>busy\<close> and the addresses of
  \<open>held\<close>. Each elementary step of an operation moves a lease from one place to another; the
  lemmas below are these moves, and the preservation of the invariant by an operation is their
  composition.
\<close>

section \<open>Good sets of leases\<close>

type_synonym grant = "session_id \<times> assigned_addresses"

definition leases_good :: "address_pool_config \<Rightarrow> grant set \<Rightarrow> grant list \<Rightarrow> bool" where
  "leases_good c G xs \<longleftrightarrow> distinct (map fst xs) \<and> distinct (map (\<lambda>x. aa_ipv4 (snd x)) xs)
     \<and> distinct (map (\<lambda>x. aa_ipv6_prefix (snd x)) xs)
     \<and> (\<forall>x \<in> set xs. ipv4_usable c (aa_ipv4 (snd x)) \<and> ipv6_usable c (aa_ipv6_prefix (snd x)))
     \<and> (\<forall>x \<in> set xs. \<forall>g \<in> G. aa_ipv4 (snd x) \<noteq> aa_ipv4 (snd g) \<and> aa_ipv6_prefix (snd x) \<noteq> aa_ipv6_prefix (snd g))
     \<and> length xs \<le> apc_maximum_leases c"

lemma distinct_map_sub:
  assumes "distinct (map f xs)" and "mset ys \<subseteq># mset xs"
  shows "distinct (map f ys)"
proof -
  obtain zs where zs: "mset xs = mset (ys @ zs)"
    using assms(2) by (metis ex_mset mset_append mset_subset_eq_exists_conv)
  have "distinct (map f xs) \<longleftrightarrow> distinct (map f (ys @ zs))"
    by (rule mset_eq_imp_distinct_iff) (simp only: mset_map zs)
  with assms(1) show ?thesis by simp
qed

lemma leases_good_sub:
  assumes good: "leases_good c G xs" and sub: "mset ys \<subseteq># mset xs"
  shows "leases_good c G ys"
proof -
  have "set ys \<subseteq> set xs" using set_mset_mono [OF sub] by simp
  moreover have "length ys \<le> length xs" using size_mset_mono [OF sub] by simp
  ultimately show ?thesis
    using good unfolding leases_good_def by (auto intro: distinct_map_sub [OF _ sub])
qed

definition leases :: "address_pool \<Rightarrow> grant list" where
  "leases p = map (\<lambda>(sid, l). (sid, le_addresses l)) (ap_active p @ ap_pending p)"

definition quarantines :: "(session_id \<times> release_pending_lease) list \<Rightarrow> session_id \<Rightarrow> assigned_addresses \<Rightarrow> bool" where
  "quarantines rp q a \<longleftrightarrow> map_option ql_addresses (map_of rp q) = Some a"

definition pool_ok :: "grant set \<Rightarrow> address_pool \<Rightarrow> session_id list \<Rightarrow> grant list \<Rightarrow> grant list \<Rightarrow> bool" where
  "pool_ok G p busy held extra \<longleftrightarrow>
     pool_config_ok (ap_config p)
     \<and> hm_ok (ap_active p) \<and> hm_ok (ap_pending p) \<and> hm_ok (ap_release_pending p)
     \<and> leases_good (ap_config p) G (leases p @ held @ extra)
     \<and> distinct busy \<and> distinct (ap_inflight p) \<and> set (ap_inflight p) = set busy
     \<and> set (ap_inflight_v4 p) = (\<lambda>x. aa_ipv4 (snd x)) ` set held
     \<and> set (ap_inflight_v6 p) = (\<lambda>x. aa_ipv6_prefix (snd x)) ` set held
     \<and> length (ap_release_pending p) \<le> apc_maximum_pending_releases (ap_config p)
     \<and> (\<forall>g \<in> G. quarantines (ap_release_pending p) (fst g) (snd g))"

lemma pool_ok_perm:
  assumes "pool_ok G p b h x" and "mset b = mset b'" and "mset h = mset h'" and "mset x' \<subseteq># mset x"
  shows "pool_ok G p b' h' x'"
proof -
  have "set b' = set b" "set h' = set h" using assms(2,3) by (metis set_mset_mset)+
  moreover have "distinct b \<longleftrightarrow> distinct b'" using assms(2) by (rule mset_eq_imp_distinct_iff)
  moreover have "mset (leases p @ h' @ x') \<subseteq># mset (leases p @ h @ x)" using assms(3,4) by simp
  ultimately show ?thesis using assms(1) leases_good_sub unfolding pool_ok_def by metis
qed

lemma pool_ok_drop: "pool_ok G p b h (x # xs) \<Longrightarrow> pool_ok G p b h xs"
  by (rule pool_ok_perm) auto

lemma pool_ok_counts [simp]:
  "pool_ok G (pool_count k p) b h x = pool_ok G p b h x" "pool_ok G (pool_add k n p) b h x = pool_ok G p b h x"
  "pool_ok G (p\<lparr>ap_release_order := order\<rparr>) b h x = pool_ok G p b h x"
  by (simp_all add: pool_ok_def pool_count_def pool_add_def leases_def)

lemma pool_count_sel [simp]:
  "ap_config (pool_count k p) = ap_config p" "ap_active (pool_count k p) = ap_active p"
  "ap_pending (pool_count k p) = ap_pending p" "ap_release_pending (pool_count k p) = ap_release_pending p"
  "ap_release_order (pool_count k p) = ap_release_order p" "ap_inflight (pool_count k p) = ap_inflight p"
  "ap_inflight_v4 (pool_count k p) = ap_inflight_v4 p" "ap_inflight_v6 (pool_count k p) = ap_inflight_v6 p"
  "ap_has_store (pool_count k p) = ap_has_store p"
  by (simp_all add: pool_count_def)

lemma pool_add_sel [simp]:
  "ap_config (pool_add k n p) = ap_config p" "ap_active (pool_add k n p) = ap_active p"
  "ap_pending (pool_add k n p) = ap_pending p" "ap_release_pending (pool_add k n p) = ap_release_pending p"
  "ap_release_order (pool_add k n p) = ap_release_order p" "ap_inflight (pool_add k n p) = ap_inflight p"
  "ap_inflight_v4 (pool_add k n p) = ap_inflight_v4 p" "ap_inflight_v6 (pool_add k n p) = ap_inflight_v6 p"
  "ap_has_store (pool_add k n p) = ap_has_store p"
  by (simp_all add: pool_add_def)

lemma park_sel [simp]:
  "ap_config (park s a p) = ap_config p" "ap_active (park s a p) = ap_active p"
  "ap_pending (park s a p) = ap_pending p" "ap_release_pending (park s a p) = ap_release_pending p"
  "ap_release_order (park s a p) = ap_release_order p" "ap_has_store (park s a p) = ap_has_store p"
  "ap_inflight (park s a p) = List.insert s (ap_inflight p)"
  by (simp_all add: park_def)

lemma unpark_sel [simp]:
  "ap_config (unpark s a p) = ap_config p" "ap_active (unpark s a p) = ap_active p"
  "ap_pending (unpark s a p) = ap_pending p" "ap_release_pending (unpark s a p) = ap_release_pending p"
  "ap_release_order (unpark s a p) = ap_release_order p" "ap_has_store (unpark s a p) = ap_has_store p"
  "ap_inflight (unpark s a p) = removeAll s (ap_inflight p)"
  by (simp_all add: unpark_def)

section \<open>Moves\<close>

lemma mset_kt_remove:
  assumes "hm_ok m" and "map_of m k = Some v"
  shows "mset m = add_mset (k, v) (mset (kt_remove k m))"
proof -
  have "distinct (map fst m)" using assms(1) by (simp add: hm_ok_def)
  then show ?thesis using assms(2)
  proof (induction m)
    case (Cons e m)
    obtain k' v' where e: "e = (k', v')" by (cases e)
    show ?case
    proof (cases "k' = k")
      case True
      with Cons.prems e have "k \<notin> keys m" by auto
      from sum_list_remove_absent [OF this] True Cons.prems e show ?thesis by (simp add: kt_remove_def)
    next
      case False
      with Cons e show ?thesis by (simp add: kt_remove_def)
    qed
  qed simp
qed

lemma mset_hm_insert_new: "k \<notin> keys m \<Longrightarrow> mset (hm_insert k v m) = add_mset (k, v) (mset m)"
  unfolding hm_insert_def by (induction m) auto

text \<open>What the maps and parked addresses have to satisfy after a move.\<close>

lemma pool_ok_moved:
  assumes "pool_ok G p b h x" and "ap_config p' = ap_config p"
    and "hm_ok (ap_active p')" and "hm_ok (ap_pending p')" and "ap_release_pending p' = ap_release_pending p"
    and "mset (leases p') + mset h' + mset x' \<subseteq># mset (leases p) + mset h + mset x"
    and "distinct b'" and "distinct (ap_inflight p')" and "set (ap_inflight p') = set b'"
    and "set (ap_inflight_v4 p') = (\<lambda>x. aa_ipv4 (snd x)) ` set h'"
    and "set (ap_inflight_v6 p') = (\<lambda>x. aa_ipv6_prefix (snd x)) ` set h'"
  shows "pool_ok G p' b' h' x'"
proof -
  have "leases_good (ap_config p) G (leases p' @ h' @ x')"
    using assms(1,6) unfolding pool_ok_def by (elim conjE, elim leases_good_sub) (simp add: add.assoc)
  with assms show ?thesis unfolding pool_ok_def by simp
qed

lemma pool_okD:
  assumes "pool_ok G p b h x"
  shows "pool_config_ok (ap_config p)" and "hm_ok (ap_active p)" and "hm_ok (ap_pending p)"
    and "hm_ok (ap_release_pending p)" and "leases_good (ap_config p) G (leases p @ h @ x)"
    and "distinct b" and "distinct (ap_inflight p)" and "set (ap_inflight p) = set b"
    and "set (ap_inflight_v4 p) = (\<lambda>x. aa_ipv4 (snd x)) ` set h"
    and "set (ap_inflight_v6 p) = (\<lambda>x. aa_ipv6_prefix (snd x)) ` set h"
    and "length (ap_release_pending p) \<le> apc_maximum_pending_releases (ap_config p)"
    and "\<forall>g \<in> G. quarantines (ap_release_pending p) (fst g) (snd g)"
  using assms unfolding pool_ok_def by simp_all

lemma pool_ok_take_pending:
  assumes ok: "pool_ok G p b h x" and l: "map_of (ap_pending p) sid = Some l"
  shows "pool_ok G (p\<lparr>ap_pending := kt_remove sid (ap_pending p)\<rparr>) b h ((sid, le_addresses l) # x)"
  by (rule pool_ok_moved [OF ok]) (simp_all add: pool_okD [OF ok] hm.ok_remove leases_def
    mset_kt_remove [OF pool_okD(3) [OF ok] l])

lemma pool_ok_take_active:
  assumes ok: "pool_ok G p b h x" and l: "map_of (ap_active p) sid = Some l"
  shows "pool_ok G (p\<lparr>ap_active := kt_remove sid (ap_active p)\<rparr>) b h ((sid, le_addresses l) # x)"
  by (rule pool_ok_moved [OF ok]) (simp_all add: pool_okD [OF ok] hm.ok_remove leases_def
    mset_kt_remove [OF pool_okD(2) [OF ok] l])

lemma extra_not_leased:
  assumes "pool_ok G p b h ((sid, a) # x)"
  shows "sid \<notin> keys (ap_active p)" and "sid \<notin> keys (ap_pending p)"
proof -
  have "sid \<notin> fst ` set (leases p)"
    using pool_okD(5) [OF assms] by (simp add: leases_good_def)
  moreover have "fst ` set (leases p) = keys (ap_active p) \<union> keys (ap_pending p)"
    by (force simp: leases_def)
  ultimately show "sid \<notin> keys (ap_active p)" and "sid \<notin> keys (ap_pending p)" by auto
qed

lemma pool_ok_put_pending:
  assumes ok: "pool_ok G p b h ((sid, le_addresses l) # x)"
  shows "pool_ok G (p\<lparr>ap_pending := hm_insert sid l (ap_pending p)\<rparr>) b h x"
  by (rule pool_ok_moved [OF ok]) (simp_all add: pool_okD [OF ok] hm.ok_ins leases_def
    mset_hm_insert_new extra_not_leased [OF ok])

lemma pool_ok_put_active:
  assumes ok: "pool_ok G p b h ((sid, le_addresses l) # x)"
  shows "pool_ok G (p\<lparr>ap_active := hm_insert sid l (ap_active p)\<rparr>) b h x"
  by (rule pool_ok_moved [OF ok]) (simp_all add: pool_okD [OF ok] hm.ok_ins leases_def
    mset_hm_insert_new extra_not_leased [OF ok])

lemma pool_ok_park:
  assumes ok: "pool_ok G p b h ((sid, a) # x)" and new: "sid \<notin> set (ap_inflight p)"
  shows "pool_ok G (park sid a p) (sid # b) ((sid, a) # h) x"
  by (rule pool_ok_moved [OF ok]) (use new in \<open>simp_all add: pool_okD [OF ok] leases_def park_def\<close>)

lemma pool_ok_unpark:
  assumes ok: "pool_ok G p (sid # b) ((sid, a) # h) x"
  shows "pool_ok G (unpark sid a p) b h ((sid, a) # x)"
proof -
  have "aa_ipv4 a \<notin> (\<lambda>x. aa_ipv4 (snd x)) ` set h" and "aa_ipv6_prefix a \<notin> (\<lambda>x. aa_ipv6_prefix (snd x)) ` set h"
    and "sid \<notin> set b" and "distinct b"
    using pool_okD(5,6) [OF ok] by (auto simp: leases_good_def)
  then show ?thesis
    by (intro pool_ok_moved [OF ok])
      (simp_all add: pool_okD [OF ok] leases_def unpark_def distinct_removeAll)
qed

lemma pool_ok_begin_only:
  assumes "pool_ok G p b h x" and "sid \<notin> set (ap_inflight p)"
  shows "pool_ok G (p\<lparr>ap_inflight := List.insert sid (ap_inflight p)\<rparr>) (sid # b) h x"
  using assms unfolding pool_ok_def by (auto simp: leases_def)

lemma pool_ok_end_only:
  assumes "pool_ok G p (sid # b) h x"
  shows "pool_ok G (p\<lparr>ap_inflight := removeAll sid (ap_inflight p)\<rparr>) b h x"
  using assms unfolding pool_ok_def by (auto simp: leases_def distinct_removeAll)

lemma pool_ok_quarantine:
  assumes "pool_ok G p b h x" and "hm_ok q" and "\<forall>g \<in> G. quarantines q (fst g) (snd g)" and "length q \<le> apc_maximum_pending_releases (ap_config p)"
  shows "pool_ok G (p\<lparr>ap_release_pending := q\<rparr>) b h x"
  using assms unfolding pool_ok_def by (auto simp: leases_def)

section \<open>The operations under way\<close>

text \<open>The leases an operation holds, and the sessions it has parked.\<close>

fun plan_held :: "pool_plan \<Rightarrow> grant list" where
  "plan_held (PlanReserve sid did a expires wall) = [(sid, a)]"
| "plan_held (PlanPromote sid did a pending_expires active_expires wall) = [(sid, a)]"
| "plan_held (PlanExpire sid did a expires now) = [(sid, a)]"
| "plan_held (PlanRelease sid did a expires now) = [(sid, a)]"
| "plan_held (PlanRenew sid did a renewed wall) = []"
| "plan_held (PlanSweep batch now) = map (\<lambda>e. (ex_id e, ex_addresses e)) batch"
| "plan_held (PlanRetry batch now) = []"

fun plan_sessions :: "pool_plan \<Rightarrow> session_id list" where
  "plan_sessions (PlanReserve sid did a expires wall) = [sid]"
| "plan_sessions (PlanPromote sid did a pending_expires active_expires wall) = [sid]"
| "plan_sessions (PlanExpire sid did a expires now) = [sid]"
| "plan_sessions (PlanRelease sid did a expires now) = [sid]"
| "plan_sessions (PlanRenew sid did a renewed wall) = [sid]"
| "plan_sessions (PlanSweep batch now) = map ex_id batch"
| "plan_sessions (PlanRetry batch now) = batch"

definition held :: "pool_plan list \<Rightarrow> grant list" where
  "held running = concat (map plan_held running)"

definition busy :: "pool_plan list \<Rightarrow> session_id list" where
  "busy running = concat (map plan_sessions running)"

definition pool_inv_on :: "grant set \<Rightarrow> pool_system \<Rightarrow> bool" where
  "pool_inv_on G s \<longleftrightarrow> pool_ok G (py_pool s) (busy (py_running s)) (held (py_running s)) []"

abbreviation pool_inv :: "pool_system \<Rightarrow> bool" where
  "pool_inv \<equiv> pool_inv_on {}"

text \<open>The event is the third phase of a retry whose delete for \<open>q\<close> succeeded.\<close>

definition deletes :: "pool_system \<Rightarrow> pool_event \<Rightarrow> session_id \<Rightarrow> bool" where
  "deletes s e q \<longleftrightarrow> (case e of
     PoFinish i answers \<Rightarrow> i < length (py_running s) \<and> length answers = length (plan_calls (py_running s ! i))
       \<and> (case py_running s ! i of PlanRetry batch now \<Rightarrow> (q, True) \<in> set (zip batch answers) | _ \<Rightarrow> False)
   | _ \<Rightarrow> False)"

lemma length_held_le: "length (held running) \<le> length (busy running)"
proof (induction running)
  case (Cons plan running)
  have "length (plan_held plan) \<le> length (plan_sessions plan)" by (cases plan) simp_all
  with Cons show ?case by (simp add: held_def busy_def)
qed (simp add: held_def busy_def)

lemma held_sessions: "fst ` set (held running) \<subseteq> set (busy running)"
proof (induction running)
  case (Cons plan running)
  have "fst ` set (plan_held plan) \<subseteq> set (plan_sessions plan)" by (cases plan) auto
  with Cons show ?case by (auto simp: held_def busy_def)
qed (simp add: held_def busy_def)

text \<open>A phase that begins hands its parked leases to the plan.\<close>

definition begun_ok :: "grant set \<Rightarrow> begun \<Rightarrow> session_id list \<Rightarrow> grant list \<Rightarrow> bool" where
  "begun_ok G r b h \<longleftrightarrow> (case r of
     (p, Inl answer) \<Rightarrow> pool_ok G p b h []
   | (p, Inr plan) \<Rightarrow> pool_ok G p (plan_sessions plan @ b) (plan_held plan @ h) [])"

lemma begun_step_inv:
  assumes "begun_ok G r (busy (py_running s)) (held (py_running s))" and "begun_step s r = (t, out)"
  shows "pool_inv_on G t"
proof (cases "snd r")
  case (Inl answer)
  with assms show ?thesis by (cases r) (auto simp: begun_ok_def begun_step_def pool_inv_on_def)
next
  case (Inr plan)
  obtain p where r: "r = (p, Inr plan)" using Inr by (cases r) simp
  from assms(1) have "pool_ok G p (plan_sessions plan @ busy (py_running s)) (plan_held plan @ held (py_running s)) []"
    by (simp add: begun_ok_def r)
  then have "pool_ok G p (busy (py_running s @ [plan])) (held (py_running s @ [plan])) []"
    by (rule pool_ok_perm) (simp_all add: busy_def held_def)
  moreover have "t = \<lparr>py_pool = p, py_running = py_running s @ [plan]\<rparr>"
    using assms(2) by (simp add: begun_step_def r)
  ultimately show ?thesis by (simp add: pool_inv_on_def)
qed

section \<open>Preservation\<close>

lemma quarantines_new:
  assumes "pool_ok G p b h x" and "sid \<notin> keys (ap_release_pending p)"
  shows "\<forall>g \<in> G. quarantines (hm_insert sid v (ap_release_pending p)) (fst g) (snd g)"
proof -
  have "map_of (ap_release_pending p) sid = None" using assms(2) by (simp add: map_of_eq_None_iff)
  with pool_okD(12) [OF assms(1)] show ?thesis by (auto simp: quarantines_def map_of_hm_insert)
qed

lemma enqueue_ok:
  assumes ok: "pool_ok G p b h x"
  shows "pool_ok G (fst (enqueue_release_locked p l now)) b h x"
proof (cases "pl_session_id l \<in> keys (ap_release_pending p)
    \<or> apc_maximum_pending_releases (ap_config p) \<le> length (ap_release_pending p)")
  case True
  with ok show ?thesis by (auto simp: enqueue_release_locked_def)
next
  case False
  let ?p = "p\<lparr>ap_release_order := ap_release_order p @ [pl_session_id l]\<rparr>"
  have "pool_ok G ?p b h x" using ok by (subst pool_ok_counts(3))
  then have "pool_ok G (?p\<lparr>ap_release_pending := hm_insert (pl_session_id l) v (ap_release_pending p)\<rparr>) b h x" for v
    by (rule pool_ok_quarantine)
      (use False quarantines_new [OF ok] pool_okD(4) [OF ok] in \<open>simp_all add: hm.ok_ins hm.length_ins\<close>)
  with False show ?thesis by (simp add: enqueue_release_locked_def)
qed

lemma take_lease_ok:
  assumes "pool_ok G p b h x" and "take_lease p sid = (p', r)"
  shows "case r of None \<Rightarrow> p' = p | Some l \<Rightarrow> pool_ok G p' b h ((sid, le_addresses l) # x)"
  using assms pool_ok_take_pending [OF assms(1)] pool_ok_take_active [OF assms(1)]
  unfolding take_lease_def by (auto split: option.splits)

lemma take_lease_inflight: "take_lease p sid = (p', r) \<Longrightarrow> ap_inflight p' = ap_inflight p"
  unfolding take_lease_def by (auto split: option.splits)

text \<open>A fresh address goes to a session that has none.\<close>

lemma pool_ok_allocated:
  assumes ok: "pool_ok G p b h []" and le: "length h \<le> length b"
    and room: "\<not> apc_maximum_leases (ap_config p)
      \<le> usize_add (usize_add (length (ap_active p)) (length (ap_pending p))) (length (ap_inflight p))"
    and new: "sid \<notin> keys (ap_active p)" "sid \<notin> keys (ap_pending p)" "sid \<notin> fst ` set h"
    and v4: "find_free_ipv4 p = Some (aa_ipv4 a)" and v6: "find_free_ipv6 p = Some (aa_ipv6_prefix a)"
  shows "pool_ok G p b h [(sid, a)]"
proof -
  note c = pool_okD(1) [OF ok]
  have "length (ap_inflight p) = length b"
    using pool_okD(6-8) [OF ok] by (metis distinct_card)
  then have "Suc (length (leases p @ h)) \<le> apc_maximum_leases (ap_config p)"
    using room le pool_config_okD(4) [OF c] by (simp add: leases_def usize_add_def usize_max_def min_def split: if_split_asm)
  moreover have "sid \<notin> fst ` set (leases p @ h)"
    using new by (force simp: leases_def)
  moreover have "aa_ipv4 a \<notin> (\<lambda>x. aa_ipv4 (snd x)) ` set (leases p @ h)"
    using find_free_ipv4_least(2) [OF c v4] pool_okD(9) [OF ok]
    by (auto simp: used_ipv4_def leases_def image_iff)
  moreover have "aa_ipv6_prefix a \<notin> (\<lambda>x. aa_ipv6_prefix (snd x)) ` set (leases p @ h)"
    using find_free_ipv6_subnet(2) [OF c v6] pool_okD(10) [OF ok]
    by (auto simp: used_ipv6_def leases_def image_iff)
  moreover have "aa_ipv4 a \<noteq> aa_ipv4 (snd g) \<and> aa_ipv6_prefix a \<noteq> aa_ipv6_prefix (snd g)" if g: "g \<in> G" for g
  proof -
    obtain q where q: "map_of (ap_release_pending p) (fst g) = Some q" "ql_addresses q = snd g"
      using pool_okD(12) [OF ok] g by (force simp: quarantines_def)
    from map_of_SomeD [OF q(1)] have "aa_ipv4 (snd g) \<in> set (used_ipv4 p)" and "aa_ipv6_prefix (snd g) \<in> set (used_ipv6 p)"
      unfolding used_ipv4_def used_ipv6_def q(2) [symmetric] by force+
    then show ?thesis using find_free_ipv4_least(2) [OF c v4] find_free_ipv6_subnet(2) [OF c v6] by metis
  qed
  ultimately have "leases_good (ap_config p) G ((sid, a) # leases p @ h)"
    using pool_okD(5) [OF ok] find_free_ipv4_least(1) [OF c v4] find_free_ipv6_subnet(1) [OF c v6]
    unfolding leases_good_def by auto
  then have "leases_good (ap_config p) G (leases p @ h @ [(sid, a)])"
    by (rule leases_good_sub) simp
  with ok show ?thesis unfolding pool_ok_def by simp
qed

subsection \<open>First phases\<close>

lemma reserve_new_ok:
  assumes ok: "pool_ok G p b h []" and le: "length h \<le> length b" and sub: "fst ` set h \<subseteq> set b"
    and new: "sid \<notin> keys (ap_active p)" "sid \<notin> keys (ap_pending p)" "sid \<notin> set (ap_inflight p)"
  shows "begun_ok G (reserve_new p sid did now) b h"
proof (cases "apc_maximum_leases (ap_config p)
    \<le> usize_add (usize_add (length (ap_active p)) (length (ap_pending p))) (length (ap_inflight p))")
  case True
  with ok show ?thesis by (simp add: reserve_new_def begun_ok_def)
next
  case room: False
  obtain p' r where alloc: "allocate_locked p = (p', r)" by (cases "allocate_locked p")
  from alloc show ?thesis
  proof (cases rule: allocate_locked_cases)
    case 1
    with ok room alloc show ?thesis by (simp add: reserve_new_def begun_ok_def)
  next
    case (2 a)
    have "sid \<notin> fst ` set h" using sub new(3) pool_okD(8) [OF ok] by auto
    from pool_ok_park [OF pool_ok_allocated [OF ok le room new(1,2) this 2(3,4)] new(3)]
    show ?thesis using room alloc 2(1,2) by (simp add: reserve_new_def begun_ok_def)
  qed
qed

lemma reserve_begin_ok:
  assumes ok: "pool_ok G p b h []" and le: "length h \<le> length b" and sub: "fst ` set h \<subseteq> set b"
  shows "begun_ok G (reserve_begin p sid did now) b h"
proof (cases "sid \<in> set (ap_inflight p) \<or> map_of (ap_release_pending p) sid \<noteq> None \<or> map_of (ap_active p) sid \<noteq> None")
  case True
  with ok show ?thesis by (auto simp: reserve_begin_def begun_ok_def split: option.splits)
next
  case False
  then have new: "sid \<notin> set (ap_inflight p)" "sid \<notin> keys (ap_active p)"
    and none: "map_of (ap_release_pending p) sid = None" "map_of (ap_active p) sid = None"
    by (auto simp: map_of_eq_None_iff)
  show ?thesis
  proof (cases "map_of (ap_pending p) sid")
    case None
    then have "begun_ok G (reserve_new p sid did now) b h"
      using reserve_new_ok [OF ok le sub new(2) _ new(1)] by (simp add: map_of_eq_None_iff)
    with ok new none None show ?thesis by (simp add: reserve_begin_def begun_ok_def)
  next
    case (Some l)
    let ?p = "pool_count pm_pending_expired_update (p\<lparr>ap_pending := kt_remove sid (ap_pending p)\<rparr>)"
    have "pool_ok G ?p b h []" using pool_ok_drop [OF pool_ok_take_pending [OF ok Some]] by simp
    then have "begun_ok G (reserve_new ?p sid did now) b h"
      by (rule reserve_new_ok [OF _ le sub]) (use new in \<open>auto simp: kt_remove_def\<close>)
    with ok new none Some show ?thesis by (simp add: reserve_begin_def begun_ok_def)
  qed
qed

lemma commit_begin_ok:
  assumes ok: "pool_ok G p b h []"
  shows "begun_ok G (commit_begin p sid now) b h"
proof (cases "sid \<notin> set (ap_inflight p) \<and> map_of (ap_release_pending p) sid = None \<and> map_of (ap_active p) sid = None")
  case False
  with ok show ?thesis by (auto simp: commit_begin_def begun_ok_def split: option.splits)
next
  case True
  show ?thesis
  proof (cases "map_of (ap_pending p) sid")
    case None
    with ok True show ?thesis by (simp add: commit_begin_def begun_ok_def)
  next
    case (Some l)
    from pool_ok_park [OF pool_ok_take_pending [OF ok Some]] True Some
    show ?thesis by (simp add: commit_begin_def begun_ok_def Let_def)
  qed
qed

lemma release_begin_ok:
  assumes ok: "pool_ok G p b h []"
  shows "begun_ok G (release_begin p sid now) b h"
proof -
  obtain p' r where t: "take_lease p sid = (p', r)" by (cases "take_lease p sid")
  have "ap_inflight p' = ap_inflight p" by (rule take_lease_inflight [OF t])
  with take_lease_ok [OF ok t] ok t show ?thesis
    by (auto simp: release_begin_def begun_ok_def pool_ok_park split: option.splits)
qed

lemma renew_begin_ok:
  assumes ok: "pool_ok G p b h []"
  shows "begun_ok G (renew_begin p sid now) b h"
proof (cases "map_of (ap_active p) sid")
  case None
  with ok show ?thesis by (simp add: renew_begin_def begun_ok_def)
next
  case (Some l)
  with ok pool_ok_begin_only [OF ok, of sid] show ?thesis by (simp add: renew_begin_def begun_ok_def)
qed

lemma release_deferred_ok:
  assumes ok: "pool_ok G p b h []"
  shows "pool_ok G (fst (release_deferred p sid)) b h []"
proof (cases "sid \<in> set (ap_inflight p) \<or> sid \<in> keys (ap_release_pending p)")
  case True
  with ok show ?thesis by (auto simp: release_deferred_def)
next
  case False
  obtain p' r where t: "take_lease p sid = (p', r)" by (cases "take_lease p sid")
  show ?thesis
  proof (cases r)
    case None
    with take_lease_ok [OF ok t] ok t False show ?thesis by (simp add: release_deferred_def)
  next
    case (Some l)
    obtain q res where e: "enqueue_release_locked p' (leased LReleasePending sid (le_device_id l)
        (le_addresses l) (le_expires_at_ms l)) 0 = (q, res)" by (cases "enqueue_release_locked p'
          (leased LReleasePending sid (le_device_id l) (le_addresses l) (le_expires_at_ms l)) 0")
    have "pool_ok G p' b h [(sid, le_addresses l)]" using take_lease_ok [OF ok t] Some by simp
    from enqueue_ok [OF this] e have q: "pool_ok G q b h [(sid, le_addresses l)]" by (metis fst_conv)
    show ?thesis
    proof (cases res)
      case (Inl err)
      with pool_ok_put_active [OF q] t Some e False show ?thesis by (simp add: release_deferred_def)
    next
      case (Inr u)
      with pool_ok_drop [OF q] t Some e False show ?thesis by (simp add: release_deferred_def)
    qed
  qed
qed

subsection \<open>Third phases\<close>

lemma enqueue_keeps:
  "pool_ok G p b h x \<Longrightarrow> enqueue_release_locked p l now = (q, r) \<Longrightarrow> pool_ok G q b h x"
  using enqueue_ok [of G p b h x l now] by simp

lemma reserve_finish_ok:
  assumes "pool_ok G p (sid # b) ((sid, a) # h) []"
  shows "pool_ok G (fst (reserve_finish p sid did a expires answer)) b h []"
  using pool_ok_unpark [OF assms] pool_ok_drop [OF pool_ok_unpark [OF assms]]
    pool_ok_put_pending [of G "unpark sid a p" b h sid "\<lparr>le_device_id = did, le_addresses = a, le_expires_at_ms = expires\<rparr>" "[]"]
  by (auto simp: reserve_finish_def Let_def)

lemma promote_finish_ok:
  assumes "pool_ok G p (sid # b) ((sid, a) # h) []"
  shows "pool_ok G (fst (promote_finish p sid did a pending_expires active_expires answer)) b h []"
  using pool_ok_unpark [OF assms] pool_ok_drop [OF pool_ok_unpark [OF assms]]
    pool_ok_put_pending [of G "unpark sid a p" b h sid "\<lparr>le_device_id = did, le_addresses = a, le_expires_at_ms = pending_expires\<rparr>" "[]"]
    pool_ok_put_active [of G "unpark sid a p" b h sid "\<lparr>le_device_id = did, le_addresses = a, le_expires_at_ms = active_expires\<rparr>" "[]"]
  by (auto simp: promote_finish_def Let_def)

lemma expire_finish_ok:
  assumes "pool_ok G p (sid # b) ((sid, a) # h) []"
  shows "pool_ok G (fst (expire_finish p sid did a expires now answer)) b h []"
proof -
  let ?p = "pool_count pm_pending_expired_update (unpark sid a p)"
  have u: "pool_ok G ?p b h [(sid, a)]" using pool_ok_unpark [OF assms] by simp
  obtain q r where e: "enqueue_release_locked ?p (leased LReleasePending sid did a expires) now = (q, r)"
    by fastforce
  note q = enqueue_keeps [OF u e]
  from pool_ok_drop [OF u] pool_ok_drop [OF q] e
    pool_ok_put_pending [of G q b h sid "\<lparr>le_device_id = did, le_addresses = a, le_expires_at_ms = expires\<rparr>" "[]"] q
  show ?thesis by (cases r) (simp_all add: expire_finish_def Let_def)
qed

lemma release_finish_ok:
  assumes "pool_ok G p (sid # b) ((sid, a) # h) []"
  shows "pool_ok G (fst (release_finish p sid did a expires now answer)) b h []"
proof -
  note u = pool_ok_unpark [OF assms]
  obtain q r where e: "enqueue_release_locked (unpark sid a p) (leased LReleasePending sid did a expires) now = (q, r)"
    by fastforce
  note q = enqueue_keeps [OF u e]
  from pool_ok_drop [OF u] pool_ok_drop [OF q] e
    pool_ok_put_active [of G q b h sid "\<lparr>le_device_id = did, le_addresses = a, le_expires_at_ms = expires\<rparr>" "[]"] q
  show ?thesis by (cases r) (simp_all add: release_finish_def Let_def)
qed

lemma map_of_mset_replace:
  assumes ok: "hm_ok m" and old: "map_of m k = Some v"
  shows "add_mset (k, v) (mset (hm_insert k w m)) = add_mset (k, w) (mset m)"
proof -
  have "map_of (hm_insert k w m) k = Some w" by (simp add: map_of_hm_insert)
  from mset_kt_remove [OF hm.ok_ins [OF ok] this] mset_kt_remove [OF ok old]
  show ?thesis by (simp add: kt_remove_hm_insert)
qed

lemma renew_finish_ok:
  assumes "pool_ok G p (sid # b) h []"
  shows "pool_ok G (fst (renew_finish p sid did a renewed answer)) b h []"
proof -
  let ?p = "p\<lparr>ap_inflight := removeAll sid (ap_inflight p)\<rparr>"
  have ok: "pool_ok G ?p b h []" by (rule pool_ok_end_only [OF assms])
  have "pool_ok G (?p\<lparr>ap_active := hm_insert sid (l\<lparr>le_expires_at_ms := renewed\<rparr>) (ap_active ?p)\<rparr>) b h []"
    if l: "map_of (ap_active ?p) sid = Some l" for l
  proof -
    let ?f = "\<lambda>(sid, l). (sid, le_addresses l)"
    from arg_cong [OF map_of_mset_replace [OF pool_okD(2) [OF ok] l, of "l\<lparr>le_expires_at_ms := renewed\<rparr>"], of "image_mset ?f"]
    have "image_mset ?f (mset (hm_insert sid (l\<lparr>le_expires_at_ms := renewed\<rparr>) (ap_active ?p))) = image_mset ?f (mset (ap_active ?p))"
      by simp
    then show ?thesis
      by (intro pool_ok_moved [OF ok]) (use pool_okD [OF ok] in \<open>simp_all add: hm.ok_ins leases_def\<close>)
  qed
  with ok show ?thesis by (auto simp: renew_finish_def Let_def split: option.splits)
qed

subsection \<open>Sweep\<close>

abbreviation batch_held :: "expired_lease list \<Rightarrow> grant list" where
  "batch_held \<equiv> map (\<lambda>e. (ex_id e, ex_addresses e))"

lemma sweep_pending_ok:
  "pool_ok G p b h [] \<Longrightarrow> distinct ids \<Longrightarrow> set ids \<inter> set (ap_inflight p) = {} \<Longrightarrow> sweep_pending ids p = (q, batch) \<Longrightarrow>
    pool_ok G q (map ex_id batch @ b) (batch_held batch @ h) [] \<and> ap_active q = ap_active p
    \<and> set (ap_inflight q) \<subseteq> set (ap_inflight p) \<union> set ids"
proof (induction ids arbitrary: p b h batch)
  case (Cons sid ids)
  show ?case
  proof (cases "map_of (ap_pending p) sid")
    case None
    with Cons show ?thesis by fastforce
  next
    case (Some l)
    let ?p = "park sid (le_addresses l)
      (pool_count pm_pending_expired_update (p\<lparr>ap_pending := kt_remove sid (ap_pending p)\<rparr>))"
    obtain batch' where s: "sweep_pending ids ?p = (q, batch')"
      and batch: "batch = \<lparr>ex_id = sid, ex_device_id = le_device_id l, ex_addresses = le_addresses l,
          ex_expires_at_ms = le_expires_at_ms l, ex_was_pending = True\<rparr> # batch'"
      using Cons.prems(4) Some by (auto split: prod.splits)
    have "pool_ok G ?p (sid # b) ((sid, le_addresses l) # h) []"
      by (rule pool_ok_park) (use pool_ok_take_pending [OF Cons.prems(1) Some] Cons.prems(3) in auto)
    from Cons.IH [OF this _ _ s] Cons.prems
    have "pool_ok G q (map ex_id batch' @ sid # b) (batch_held batch' @ (sid, le_addresses l) # h) []"
      and "ap_active q = ap_active p" and "set (ap_inflight q) \<subseteq> set (ap_inflight p) \<union> set (sid # ids)" by auto
    then show ?thesis by (auto simp: batch elim: pool_ok_perm)
  qed
qed simp

lemma sweep_active_ok:
  "pool_ok G p b h [] \<Longrightarrow> distinct ids \<Longrightarrow> set ids \<inter> set (ap_inflight p) = {} \<Longrightarrow> sweep_active ids p = (q, batch) \<Longrightarrow>
    pool_ok G q (map ex_id batch @ b) (batch_held batch @ h) []"
proof (induction ids arbitrary: p b h batch)
  case (Cons sid ids)
  show ?case
  proof (cases "map_of (ap_active p) sid")
    case None
    with Cons show ?thesis by fastforce
  next
    case (Some l)
    let ?p = "park sid (le_addresses l)
      (pool_count pm_active_expired_update (p\<lparr>ap_active := kt_remove sid (ap_active p)\<rparr>))"
    obtain batch' where s: "sweep_active ids ?p = (q, batch')"
      and batch: "batch = \<lparr>ex_id = sid, ex_device_id = le_device_id l, ex_addresses = le_addresses l,
          ex_expires_at_ms = le_expires_at_ms l, ex_was_pending = False\<rparr> # batch'"
      using Cons.prems(4) Some by (auto split: prod.splits)
    have "pool_ok G ?p (sid # b) ((sid, le_addresses l) # h) []"
      by (rule pool_ok_park) (use pool_ok_take_active [OF Cons.prems(1) Some] Cons.prems(3) in auto)
    from Cons.IH [OF this _ _ s] Cons.prems
    have "pool_ok G q (map ex_id batch' @ sid # b) (batch_held batch' @ (sid, le_addresses l) # h) []" by auto
    then show ?thesis by (auto simp: batch elim: pool_ok_perm)
  qed
qed simp

lemma expired_ids_sub:
  "set (expired_ids inflight now m) \<subseteq> keys m" "set (expired_ids inflight now m) \<inter> set inflight = {}"
  "hm_ok m \<Longrightarrow> distinct (expired_ids inflight now m)"
  by (auto simp: expired_ids_def hm_ok_def distinct_map_filter)

lemma leases_apart: "pool_ok G p b h x \<Longrightarrow> keys (ap_active p) \<inter> keys (ap_pending p) = {}"
proof -
  assume ok: "pool_ok G p b h x"
  have "map fst (leases p) = map fst (ap_active p) @ map fst (ap_pending p)"
    by (simp add: leases_def split_def)
  moreover have "distinct (map fst (leases p))" using pool_okD(5) [OF ok] by (simp add: leases_good_def)
  ultimately show ?thesis by auto
qed

lemma sweep_begin_ok:
  assumes ok: "pool_ok G p b h []"
  shows "begun_ok G (sweep_begin p now) b h"
proof -
  let ?P = "expired_ids (ap_inflight p) now (ap_pending p)" and ?A = "expired_ids (ap_inflight p) now (ap_active p)"
  obtain q pb where 1: "sweep_pending ?P p = (q, pb)" by fastforce
  obtain r ab where 2: "sweep_active ?A q = (r, ab)" by fastforce
  from sweep_pending_ok [OF ok expired_ids_sub(3) [OF pool_okD(3) [OF ok]] expired_ids_sub(2) 1]
  have q: "pool_ok G q (map ex_id pb @ b) (batch_held pb @ h) []"
    and inflight: "set (ap_inflight q) \<subseteq> set (ap_inflight p) \<union> set ?P" by simp_all
  have apart: "A \<inter> Q = {}" if "A \<inter> X = {}" "Q \<subseteq> X \<union> P" "A \<subseteq> K" "P \<subseteq> L" "K \<inter> L = {}" for A X P Q K L :: "session_id set"
    using that by blast
  have "set ?A \<inter> set (ap_inflight q) = {}"
    by (rule apart [OF expired_ids_sub(2) inflight expired_ids_sub(1) expired_ids_sub(1) leases_apart [OF ok]])
  from sweep_active_ok [OF q expired_ids_sub(3) [OF pool_okD(2) [OF ok]] this 2]
  have "pool_ok G r (map ex_id ab @ map ex_id pb @ b) (batch_held ab @ batch_held pb @ h) []" .
  then have "pool_ok G r (map ex_id (sort_key ex_id (pb @ ab)) @ b) (batch_held (sort_key ex_id (pb @ ab)) @ h) []"
    by (rule pool_ok_perm) simp_all
  then show ?thesis by (simp add: sweep_begin_def begun_ok_def 1 2)
qed

lemma sweep_settle_ok:
  assumes "pool_ok G p (ex_id e # b) ((ex_id e, ex_addresses e) # h) []"
  shows "pool_ok G (sweep_settle now e ok p) b h []"
proof -
  note u = pool_ok_unpark [OF assms]
  let ?l = "leased LReleasePending (ex_id e) (ex_device_id e) (ex_addresses e) (ex_expires_at_ms e)"
  let ?m = "\<lparr>le_device_id = ex_device_id e, le_addresses = ex_addresses e, le_expires_at_ms = ex_expires_at_ms e\<rparr>"
  obtain q r where e: "enqueue_release_locked (unpark (ex_id e) (ex_addresses e) p) ?l now = (q, r)" by fastforce
  note q = enqueue_keeps [OF u e]
  from pool_ok_drop [OF u] pool_ok_drop [OF q] e pool_ok_put_active [of G q b h "ex_id e" ?m "[]"]
    pool_ok_put_pending [of G q b h "ex_id e" ?m "[]"] q
  show ?thesis by (cases r) (simp_all add: sweep_settle_def Let_def)
qed

lemma sweep_settle_all_ok:
  "pool_ok G p (map ex_id batch @ b) (batch_held batch @ h) [] \<Longrightarrow> pool_ok G (sweep_settle_all now results batch p) b h []"
  by (induction batch arbitrary: p) (simp_all add: sweep_settle_ok)

subsection \<open>Retry\<close>

lemma retry_select_batch:
  "retry_select rp now max_batch order inflight batch remaining deferred = (inflight', batch', remaining', deferred') \<Longrightarrow>
    distinct inflight \<Longrightarrow>
    \<exists>new. batch' = batch @ new \<and> distinct new \<and> set new \<inter> set inflight = {} \<and> set new \<subseteq> keys rp
      \<and> set inflight' = set inflight \<union> set new \<and> distinct inflight'"
proof (induction rp now max_batch order inflight batch remaining deferred rule: retry_select.induct)
  case (2 rp now max_batch sid order inflight batch remaining deferred)
  show ?case
  proof (cases "map_of rp sid")
    case None
    with 2 show ?thesis by simp
  next
    case (Some q)
    consider (wait) "sid \<in> set inflight" | (later) "sid \<notin> set inflight" "now < ql_next_retry_ms q"
      | (full) "sid \<notin> set inflight" "\<not> now < ql_next_retry_ms q" "max_batch \<le> length batch"
      | (take) "sid \<notin> set inflight" "\<not> now < ql_next_retry_ms q" "\<not> max_batch \<le> length batch" by blast
    then show ?thesis
    proof cases
      case wait
      with "2.IH"(2) [OF Some] "2.prems" Some show ?thesis by simp
    next
      case later
      with "2.IH"(3) [OF Some] "2.prems" Some show ?thesis by simp
    next
      case full
      with "2.prems" Some show ?thesis by (simp add: Let_def)
    next
      case take
      have k: "sid \<in> keys rp" using Some by (force dest: map_of_SomeD)
      from take "2.prems" Some have "retry_select rp now max_batch order (List.insert sid inflight) (batch @ [sid]) remaining deferred
          = (inflight', batch', remaining', deferred')" by simp
      from "2.IH"(4) [OF Some take this] "2.prems"(2)
      obtain new where "batch' = (batch @ [sid]) @ new" "distinct new" "set new \<inter> set (List.insert sid inflight) = {}"
        "set new \<subseteq> keys rp" "set inflight' = set (List.insert sid inflight) \<union> set new" "distinct inflight'" by auto
      then show ?thesis using take(1) k by (intro exI [of _ "sid # new"]) auto
    qed
  qed
qed simp

lemma retry_begin_ok:
  assumes ok: "pool_ok G p b h []"
  shows "begun_ok G (retry_begin p now max_batch) b h"
proof (cases "ap_has_store p")
  case False
  with ok show ?thesis by (simp add: retry_begin_def begun_ok_def)
next
  case store: True
  obtain inflight batch remaining deferred where sel: "retry_select (ap_release_pending p) now max_batch
      (ap_release_order p) (ap_inflight p) [] [] 0 = (inflight, batch, remaining, deferred)"
    by (metis prod_cases4)
  let ?p = "p\<lparr>ap_inflight := inflight, ap_release_order := remaining\<rparr>"
  from retry_select_batch [OF sel pool_okD(7) [OF ok]]
  have new: "distinct batch" "set batch \<inter> set (ap_inflight p) = {}"
    "set inflight = set (ap_inflight p) \<union> set batch" "distinct inflight" by auto
  have ok': "pool_ok G ?p (batch @ b) h []"
    by (rule pool_ok_moved [OF ok]) (use new pool_okD [OF ok] in \<open>auto simp: leases_def\<close>)
  show ?thesis
  proof (cases "batch = []")
    case True
    with ok' sel store show ?thesis by (simp add: retry_begin_def begun_ok_def Let_def)
  next
    case False
    with ok' sel store show ?thesis by (simp add: retry_begin_def begun_ok_def Let_def)
  qed
qed

lemma retry_settle_ok:
  assumes "pool_ok G p (sid # b) h []" and keep: "ok \<Longrightarrow> sid \<notin> fst ` G"
  shows "pool_ok G (fst (retry_settle now sid ok p retried)) b h []"
proof -
  let ?p = "p\<lparr>ap_inflight := removeAll sid (ap_inflight p)\<rparr>"
  have u: "pool_ok G ?p b h []" by (rule pool_ok_end_only [OF assms(1)])
  have rm: "pool_ok G (?p\<lparr>ap_release_pending := kt_remove sid (ap_release_pending ?p)\<rparr>) b h []" if "ok"
    by (rule pool_ok_quarantine [OF u])
      (use pool_okD(4,11) [OF u] length_kt_remove_le [of sid "ap_release_pending p"] in
        \<open>simp_all add: hm.ok_remove\<close>, use pool_okD(12) [OF u] keep [OF that] in
        \<open>force simp: quarantines_def map_of_remove\<close>)
  have up: "pool_ok G (?p\<lparr>ap_release_pending := hm_insert sid q' (ap_release_pending ?p), ap_release_order := order\<rparr>) b h []"
    if "map_of (ap_release_pending p) sid = Some q" and "ql_addresses q' = ql_addresses q" for q q' order
  proof -
    have "sid \<in> keys (ap_release_pending p)" using that(1) by (force dest: map_of_SomeD)
    moreover have "\<forall>g \<in> G. quarantines (hm_insert sid q' (ap_release_pending ?p)) (fst g) (snd g)"
      using pool_okD(12) [OF u] that by (auto simp: quarantines_def map_of_hm_insert)
    moreover note pool_okD(4,11) [OF u]
    ultimately
    have "pool_ok G (?p\<lparr>ap_release_pending := hm_insert sid q' (ap_release_pending ?p)\<rparr>) b h []"
      by (intro pool_ok_quarantine [OF u]) (simp_all add: hm.ok_ins hm.length_ins)
    from pool_ok_counts(3) [THEN iffD2, OF this, of order] show ?thesis by simp
  qed
  have or: "pool_ok G (?p\<lparr>ap_release_order := order\<rparr>) b h []" for order using u by (subst pool_ok_counts(3))
  from u rm up or show ?thesis
    by (cases "map_of (ap_release_pending p) sid") (simp_all add: retry_settle_def Let_def)
qed

lemma retry_settle_all_ok:
  "pool_ok G p (map fst results @ b) h [] \<Longrightarrow> \<forall>q \<in> fst ` G. (q, True) \<notin> set results \<Longrightarrow> pool_ok G (fst (retry_settle_all now results p retried)) b h []"
proof (induction results arbitrary: p retried)
  case (Cons r results)
  obtain sid ok where r: "r = (sid, ok)" by (cases r)
  from Cons.prems have "pool_ok G p (sid # map fst results @ b) h []" and "ok \<Longrightarrow> sid \<notin> fst ` G" by (auto simp: r)
  from retry_settle_ok [OF this] Cons.prems(2) show ?case by (simp add: r case_prod_beta Cons.IH)
qed simp

lemma retry_finish_ok:
  assumes "pool_ok G p (batch @ b) h []" and "length answers = length batch"
    and "\<forall>q \<in> fst ` G. (q, True) \<notin> set (zip batch answers)"
  shows "pool_ok G (fst (retry_finish p batch now answers)) b h []"
proof -
  have "map fst (zip batch answers) = batch" using assms(2) by simp
  then have "pool_ok G (fst (retry_settle_all now (zip batch answers) p 0)) b h []"
    using assms(1,3) by (intro retry_settle_all_ok) simp_all
  then show ?thesis by (simp add: retry_finish_def Let_def case_prod_beta)
qed

section \<open>The invariant\<close>

lemma plan_finish_ok:
  assumes "pool_ok G p (plan_sessions plan @ b) (plan_held plan @ h) []" and "length answers = length (plan_calls plan)"
    and "\<And>batch now q. plan = PlanRetry batch now \<Longrightarrow> q \<in> fst ` G \<Longrightarrow> (q, True) \<notin> set (zip batch answers)"
  shows "pool_ok G (fst (plan_finish p plan answers)) b h []"
  using assms
  by (cases plan)
    (simp_all add: reserve_finish_ok promote_finish_ok expire_finish_ok release_finish_ok renew_finish_ok
      sweep_finish_def sweep_settle_all_ok retry_finish_ok)

lemma pool_inv_exec:
  assumes inv: "pool_inv_on G s" and step: "pool_exec s e = (t, out)"
    and keep: "\<forall>q \<in> fst ` G. \<not> deletes s e q"
  shows "pool_inv_on G t"
proof -
  have ok: "pool_ok G (py_pool s) (busy (py_running s)) (held (py_running s)) []"
    using inv by (simp add: pool_inv_on_def)
  note facts = length_held_le held_sessions
  show ?thesis
  proof (cases e)
    case (PoReserve sid did now)
    then show ?thesis using begun_step_inv [OF reserve_begin_ok [OF ok facts]] step by simp
  next
    case (PoCommit sid now)
    then show ?thesis using begun_step_inv [OF commit_begin_ok [OF ok]] step by simp
  next
    case (PoRelease sid now)
    then show ?thesis using begun_step_inv [OF release_begin_ok [OF ok]] step by simp
  next
    case (PoRenew sid now)
    then show ?thesis using begun_step_inv [OF renew_begin_ok [OF ok]] step by simp
  next
    case (PoSweep now)
    then show ?thesis using begun_step_inv [OF sweep_begin_ok [OF ok]] step by simp
  next
    case (PoRetry now max_batch)
    then show ?thesis using begun_step_inv [OF retry_begin_ok [OF ok]] step by simp
  next
    case (PoDeferred sid)
    with step release_deferred_ok [OF ok, of sid] show ?thesis by (auto simp: pool_inv_on_def split: prod.splits)
  next
    case (PoFinish i answers)
    show ?thesis
    proof (cases "i < length (py_running s) \<and> length answers = length (plan_calls (py_running s ! i))")
      case True
      let ?a = "take i (py_running s)" and ?b = "drop (Suc i) (py_running s)" and ?plan = "py_running s ! i"
      have run: "py_running s = ?a @ ?plan # ?b" using True by (simp add: id_take_nth_drop)
      have "mset (busy (py_running s)) = mset (plan_sessions ?plan @ busy (?a @ ?b))"
        and "mset (held (py_running s)) = mset (plan_held ?plan @ held (?a @ ?b))"
        by (subst run, simp add: busy_def held_def)+
      from pool_ok_perm [OF ok this, of "[]"]
      have "pool_ok G (py_pool s) (plan_sessions ?plan @ busy (?a @ ?b)) (plan_held ?plan @ held (?a @ ?b)) []" by simp
      from plan_finish_ok [OF this, of answers] True keep PoFinish
      have "pool_ok G (fst (plan_finish (py_pool s) ?plan answers)) (busy (?a @ ?b)) (held (?a @ ?b)) []"
        unfolding deletes_def by fastforce
      moreover have "t = \<lparr>py_pool = fst (plan_finish (py_pool s) ?plan answers), py_running = ?a @ ?b\<rparr>"
        using True step PoFinish by (simp add: case_prod_beta)
      ultimately show ?thesis by (simp add: pool_inv_on_def)
    qed (use step PoFinish inv in \<open>auto split: if_split_asm\<close>)
  qed
qed

interpretation pool: keeps_invariant pool_exec pool_inv
  by unfold_locales (rule pool_inv_exec, simp_all)

end
