(* ===== verification/PoolRecover.thy ===== *)
theory PoolRecover
  imports PoolInv
begin

text \<open>
  Recovery and the states the pool reaches. Whatever the store returns, the restored leases
  satisfy the invariant; so it holds in every state reached from an ephemeral pool or from a
  recovered one, however the operations interleave.
\<close>

lemma leases_image:
  "(\<lambda>x. f (snd x)) ` set (leases p) = (\<lambda>e. f (le_addresses (snd e))) ` set (ap_active p @ ap_pending p)"
  by (simp add: leases_def image_Un image_image split_def)

lemma valid_persisted_new:
  assumes ok: "pool_ok {} p [] [] []" and valid: "valid_persisted p l ss v4 v6" and room: "\<not> recover_full p (pl_state l)"
    and state: "pl_state l \<noteq> LReleasePending"
  shows "pool_ok {} p [] [] [(pl_session_id l, lease_addresses l)]"
proof -
  note c = pool_okD(1) [OF ok]
  have v: "pl_session_id l \<notin> keys (ap_active p)" "pl_session_id l \<notin> keys (ap_pending p)"
    "\<not> list_ex (\<lambda>e. aa_ipv4 (le_addresses (snd e)) = pl_ipv4 l) (ap_active p @ ap_pending p)"
    "\<not> list_ex (\<lambda>e. aa_ipv6_prefix (le_addresses (snd e)) = pl_ipv6_prefix l) (ap_active p @ ap_pending p)"
    "ipv4_usable (ap_config p) (pl_ipv4 l)" "ipv6_usable (ap_config p) (pl_ipv6_prefix l)"
    using valid unfolding valid_persisted_def by (simp_all split: if_split_asm)
  have "Suc (length (leases p)) \<le> apc_maximum_leases (ap_config p)"
    using room state pool_config_okD(4) [OF c]
    by (cases "pl_state l") (simp_all add: recover_full_def leases_def usize_add_def usize_max_def min_def split: if_split_asm)
  moreover have "pl_session_id l \<notin> fst ` set (leases p)" using v(1,2) by (force simp: leases_def)
  moreover have "pl_ipv4 l \<notin> (\<lambda>x. aa_ipv4 (snd x)) ` set (leases p)"
    and "pl_ipv6_prefix l \<notin> (\<lambda>x. aa_ipv6_prefix (snd x)) ` set (leases p)"
    unfolding leases_image using v(3,4) by (simp_all add: list_ex_iff image_iff) (metis Un_iff)+
  ultimately have "leases_good (ap_config p) {} ((pl_session_id l, lease_addresses l) # leases p)"
    using pool_okD(5) [OF ok] v(5,6) unfolding leases_good_def by (auto simp: lease_addresses_def)
  then have "leases_good (ap_config p) {} (leases p @ [] @ [(pl_session_id l, lease_addresses l)])"
    by (rule leases_good_sub) simp
  with ok show ?thesis unfolding pool_ok_def by simp
qed

lemma recover_insert_ok:
  assumes ok: "pool_ok {} p [] [] []" and valid: "valid_persisted p l ss v4 v6" and room: "\<not> recover_full p (pl_state l)"
  shows "pool_ok {} (recover_insert p l now) [] [] []"
proof (cases "pl_state l")
  case LReserved
  with valid_persisted_new [OF ok valid room] show ?thesis
    by (simp add: recover_insert_def Let_def pool_ok_put_pending)
next
  case LActive
  with valid_persisted_new [OF ok valid room] show ?thesis
    by (simp add: recover_insert_def Let_def pool_ok_put_active)
next
  case LReleasePending
  let ?p = "p\<lparr>ap_release_order := ap_release_order p @ [pl_session_id l]\<rparr>"
  have "pool_ok {} ?p [] [] []" using ok by (subst pool_ok_counts(3))
  then have "pool_ok {} (?p\<lparr>ap_release_pending := hm_insert (pl_session_id l) v (ap_release_pending p)\<rparr>) [] [] []" for v
    by (rule pool_ok_quarantine)
      (use room LReleasePending pool_okD(4) [OF ok] in \<open>simp_all add: recover_full_def hm.ok_ins hm.length_ins\<close>)
  with LReleasePending show ?thesis by (simp add: recover_insert_def Let_def)
qed

lemma recover_loop_ok:
  "pool_ok {} p [] [] [] \<Longrightarrow> pool_ok {} (fst (recover_loop now ls ss v4 v6 p)) [] [] []"
  by (induction now ls ss v4 v6 p rule: recover_loop.induct)
    (auto simp: case_prod_beta Let_def recover_insert_ok)

lemma recover_quarantine_ok:
  "pool_ok {} p [] [] [] \<Longrightarrow> recover_quarantine now ls p = Inr q \<Longrightarrow> pool_ok {} q [] [] []"
proof (induction now ls p rule: recover_quarantine.induct)
  case (2 now l ls p)
  obtain r res where e: "enqueue_release_locked p (l\<lparr>pl_state := LReleasePending\<rparr>) now = (r, res)" by fastforce
  from enqueue_keeps [OF "2.prems"(1) e] have "pool_ok {} (pool_count pm_store_failures_update r) [] [] []" by simp
  with 2 e show ?case by (cases res) simp_all
qed simp

lemma pool_new_ok: "pool_config_ok c \<Longrightarrow> pool_ok {} ((pool_new c)\<lparr>ap_has_store := b\<rparr>) [] [] []"
  by (simp add: pool_ok_def pool_new_def leases_def leases_good_def hm.ok_Nil)

lemma pool_with_store_ok:
  assumes c: "pool_config_ok c" and p: "pool_with_store c loaded now answers = Inr p"
  shows "pool_ok {} p [] [] []"
proof -
  obtain persisted where "pool_recover ((pool_new c)\<lparr>ap_has_store := True\<rparr>) persisted now answers = Inr p"
    using p by (auto simp: pool_with_store_def split: option.splits if_split_asm)
  then obtain ls k n failed where "recover_quarantine (tm_monotonic_ms now) failed
      (fst (recover_loop now ls [] [] [] (pool_add k n ((pool_new c)\<lparr>ap_has_store := True\<rparr>)))) = Inr p"
    unfolding pool_recover_def Let_def case_prod_beta by blast
  then show ?thesis
    by (rule recover_quarantine_ok [rotated]) (simp add: recover_loop_ok pool_new_ok [OF c])
qed

text \<open>Where the pool can start, and what it reaches from there.\<close>

inductive pool_reachable :: "pool_system \<Rightarrow> bool" where
  ephemeral: "pool_config_ok c \<Longrightarrow> trace pool_exec \<lparr>py_pool = pool_new c, py_running = []\<rparr> tr s \<Longrightarrow> pool_reachable s"
| recovered: "pool_config_ok c \<Longrightarrow> pool_with_store c loaded now answers = Inr p \<Longrightarrow>
    trace pool_exec \<lparr>py_pool = p, py_running = []\<rparr> tr s \<Longrightarrow> pool_reachable s"

lemma pool_reachable_inv: "pool_reachable s \<Longrightarrow> pool_inv s"
proof (induction rule: pool_reachable.induct)
  case (ephemeral c tr s)
  have "pool_ok {} (pool_new c) [] [] []" using pool_new_ok [OF ephemeral(1), of False] by (simp add: pool_new_def)
  with ephemeral show ?case by (intro pool.inv_trace [OF ephemeral(2)]) (simp add: pool_inv_on_def busy_def held_def)
next
  case (recovered c loaded now answers p tr s)
  from pool_with_store_ok [OF recovered(1,2)] show ?case
    by (intro pool.inv_trace [OF recovered(3)]) (simp add: pool_inv_on_def busy_def held_def)
qed

lemma pool_reachable_step:
  assumes "pool_reachable s" and "trace pool_exec s tr t"
  shows "pool_reachable t"
  using assms(1)
proof cases
  case (ephemeral c tr')
  with assms(2) have "trace pool_exec \<lparr>py_pool = pool_new c, py_running = []\<rparr> (tr' @ tr) t" by (auto simp: trace_append)
  with ephemeral(1) show ?thesis by (rule pool_reachable.ephemeral)
next
  case (recovered c loaded now answers p tr')
  with assms(2) have "trace pool_exec \<lparr>py_pool = p, py_running = []\<rparr> (tr' @ tr) t" by (auto simp: trace_append)
  with recovered(1,2) show ?thesis by (rule pool_reachable.recovered)
qed

section \<open>Completeness of the search\<close>

lemma card_used_ipv4:
  assumes ok: "pool_ok {} p b h []"
  shows "card (set (used_ipv4 p)) \<le> length (leases p @ h) + length (ap_release_pending p)"
proof -
  have "set (used_ipv4 p) = set (map (\<lambda>x. aa_ipv4 (snd x)) (leases p @ h)
      @ map (\<lambda>e. aa_ipv4 (ql_addresses (snd e))) (ap_release_pending p))" (is "_ = set ?xs")
    unfolding map_append set_append set_map leases_image [unfolded set_map]
    by (simp add: used_ipv4_def pool_okD(9) [OF ok] leases_image image_Un Un_assoc Un_left_commute Un_commute)
  then show ?thesis using card_length [of ?xs] by simp
qed

lemma card_used_ipv6:
  assumes ok: "pool_ok {} p b h []"
  shows "card (set (used_ipv6 p)) \<le> length (leases p @ h) + length (ap_release_pending p)"
proof -
  have "set (used_ipv6 p) = set (map (\<lambda>x. aa_ipv6_prefix (snd x)) (leases p @ h)
      @ map (\<lambda>e. aa_ipv6_prefix (ql_addresses (snd e))) (ap_release_pending p))" (is "_ = set ?xs")
    unfolding map_append set_append set_map leases_image [unfolded set_map]
    by (simp add: used_ipv6_def pool_okD(10) [OF ok] leases_image image_Un Un_assoc Un_left_commute Un_commute)
  then show ?thesis using card_length [of ?xs] by simp
qed

text \<open>The addresses of an initial range of hosts are as many as their number.\<close>

lemma card_hosts:
  assumes c: "pool_config_ok c" and n: "n + 1 \<le> 2 ^ host_bits c"
  shows "card {a. apc_network c < a \<and> unat a \<le> unat (apc_network c) + n} = n"
proof -
  let ?N = "unat (apc_network c)"
  have "unat (apc_network c) + (2 ^ host_bits c - 1) < 2 ^ 32"
    using unat_broadcast [OF c] unat_bound [of "apc_broadcast c"] by simp
  with n have big: "?N + n < 2 ^ 32" by linarith
  have "{a. apc_network c < a \<and> unat a \<le> ?N + n} = word_of_nat ` {?N <.. ?N + n}" (is "?L = ?R")
  proof
    show "?L \<subseteq> ?R"
    proof
      fix a assume "a \<in> ?L"
      then have "unat a \<in> {?N <.. ?N + n}" by (simp add: word_less_nat_alt)
      then show "a \<in> ?R" by (intro image_eqI [of _ _ "unat a"]) simp_all
    qed
    show "?R \<subseteq> ?L" using big by (auto simp: word_less_nat_alt unat_of_nat)
  qed
  moreover have "inj_on (word_of_nat :: nat \<Rightarrow> u32) {?N <.. ?N + n}"
  proof (rule inj_onI)
    fix i j assume ij: "i \<in> {?N <.. ?N + n}" "j \<in> {?N <.. ?N + n}" and eq: "(word_of_nat i :: u32) = word_of_nat j"
    from arg_cong [OF eq, of unat] ij big show "i = j" by (simp add: unat_of_nat)
  qed
  ultimately show ?thesis by (simp add: card_image)
qed

text \<open>When either search gives up below the lease bound, every usable address is taken.\<close>

lemma find_free_ipv4_None:
  assumes ok: "pool_ok {} p b h []" and room: "length (ap_active p) + length (ap_pending p) < apc_maximum_leases (ap_config p)"
    and none: "find_free_ipv4 p = None" and x: "ipv4_usable (ap_config p) x"
  shows "x \<in> set (used_ipv4 p)"
proof -
  let ?c = "ap_config p" and ?n = "apc_network (ap_config p)" and ?b = "apc_broadcast (ap_config p)"
  note c = pool_okD(1) [OF ok]
  have "scan_fallback_ipv4 (ipv4_blocked p) ?n ?b (?n + 1) = None"
    using none room by (simp add: find_free_ipv4_def Let_def usize_add_def min_def network_inc [OF c] split: option.splits if_split_asm)
  moreover have "?n < ?n + 1" using word_inc_less [OF network_inc(2) [OF c], of ?n] by simp
  ultimately have blocked: "ipv4_blocked p a" if "?n + 1 \<le> a" "a < ?b" "unat a \<le> unat ?n + 1048576" for a
    using scan_fallback_None that by blast
  have after: "?n + 1 \<le> a \<longleftrightarrow> ?n < a" for a
    using word_inc_less [OF network_inc(2) [OF c], of a] by (simp add: linorder_not_less [symmetric])
  have small: "host_bits ?c \<le> 20"
  proof (rule ccontr)
    assume "\<not> host_bits ?c \<le> 20"
    then have big: "(2::nat) ^ 21 \<le> 2 ^ host_bits ?c" by (intro power_increasing) simp_all
    let ?H = "{a. ?n < a \<and> unat a \<le> unat ?n + 1048576}"
    have "?H \<subseteq> insert (apc_ipv4_gateway ?c) (set (apc_reserved_ipv4 ?c) \<union> set (used_ipv4 p))"
    proof
      fix a assume a: "a \<in> ?H"
      then have "unat a \<le> unat ?n + 1048576" by simp
      also have "\<dots> < unat ?b" using unat_broadcast [OF c] big by simp
      finally have "a < ?b" by (simp add: word_less_nat_alt)
      with blocked [of a] a after show "a \<in> insert (apc_ipv4_gateway ?c) (set (apc_reserved_ipv4 ?c) \<union> set (used_ipv4 p))"
        by (auto simp: ipv4_blocked_def)
    qed
    then have "card ?H \<le> card (insert (apc_ipv4_gateway ?c) (set (apc_reserved_ipv4 ?c) \<union> set (used_ipv4 p)))"
      by (rule card_mono [rotated]) simp
    also have "\<dots> \<le> Suc (card (set (apc_reserved_ipv4 ?c)) + card (set (used_ipv4 p)))"
      using card_Un_le [of "set (apc_reserved_ipv4 ?c)" "set (used_ipv4 p)"] by (simp add: card_insert_if)
    also have "\<dots> \<le> Suc (32 + (65536 + 65536))"
    proof -
      have "card (set (apc_reserved_ipv4 ?c)) \<le> 32" using card_length pool_config_okD(7) [OF c] le_trans by blast
      moreover have "length (leases p @ h) \<le> 65536"
        using pool_okD(5) [OF ok] pool_config_okD(4) [OF c] by (simp add: leases_good_def)
      moreover have "length (ap_release_pending p) \<le> 65536"
        using pool_okD(11) [OF ok] pool_config_okD(6) [OF c] by simp
      ultimately show ?thesis using card_used_ipv4 [OF ok] by linarith
    qed
    finally show False using card_hosts [OF c, of 1048576] big by simp
  qed
  then have "(2::nat) ^ host_bits ?c \<le> 2 ^ 20" by (intro power_increasing) simp_all
  moreover have "?n < x" "x < ?b" using x by (simp_all add: ipv4_usable_iff [OF c])
  ultimately have "unat x \<le> unat ?n + 1048576" using unat_broadcast [OF c] by (simp add: word_less_nat_alt)
  with blocked [of x] x after show ?thesis by (auto simp: ipv4_usable_iff [OF c] ipv4_blocked_def)
qed

lemma find_free_ipv6_None:
  assumes c: "pool_config_ok (ap_config p)"
    and room: "length (ap_active p) + length (ap_pending p) < apc_maximum_leases (ap_config p)"
    and none: "find_free_ipv6 p = None" and x: "ipv6_usable (ap_config p) x"
  shows "x \<in> set (used_ipv6 p)"
proof -
  let ?u = "usable_ipv6_subnets (apc_ipv6_parent_prefix_len (ap_config p))"
  let ?prefix = "ipv6_subnet_prefix (apc_ipv6_base (ap_config p)) (apc_ipv6_parent_prefix_len (ap_config p))"
  have scan: "scan_ipv6 ?prefix (used_ipv6 p) (unat ?u) 1 = None"
    using none room by (simp add: find_free_ipv6_def Let_def usize_add_def min_def split: option.splits if_split_asm)
  obtain s where s: "1 \<le> s" "s \<le> ?u" "x = ?prefix s" using x unfolding ipv6_usable_iff [OF c] by blast
  have "?prefix (of_nat (unat s)) \<in> set (used_ipv6 p)"
    by (rule scan_ipv6_None [OF scan]) (use s in \<open>simp_all add: word_le_nat_alt\<close>)
  with s show ?thesis by simp
qed

text \<open>There are at least as many usable addresses of either family as leases.\<close>

lemma many_ipv4:
  assumes c: "pool_config_ok c"
  shows "apc_maximum_leases c \<le> card {a. ipv4_usable c a}"
proof -
  let ?H = "{a. apc_network c < a \<and> unat a \<le> unat (apc_network c) + (2 ^ host_bits c - 2)}"
  have four: "(4::nat) \<le> 2 ^ host_bits c" using power_increasing [OF host_bits(1) [OF c], of "2::nat"] by simp
  have "?H \<subseteq> {a. ipv4_usable c a} \<union> insert (apc_ipv4_gateway c) (set (apc_reserved_ipv4 c))"
    using unat_broadcast [OF c] four by (auto simp: ipv4_usable_iff [OF c] word_less_nat_alt)
  then have "card ?H \<le> card ({a. ipv4_usable c a} \<union> insert (apc_ipv4_gateway c) (set (apc_reserved_ipv4 c)))"
    by (rule card_mono [rotated]) simp
  also have "\<dots> \<le> card {a. ipv4_usable c a} + Suc (length (apc_reserved_ipv4 c))"
    by (rule order_trans [OF card_Un_le]) (simp add: card_insert_if card_length le_SucI)
  finally show ?thesis using card_hosts [OF c, of "2 ^ host_bits c - 2"] usable_hosts_le [OF c] four by simp
qed

lemma many_ipv6:
  assumes c: "pool_config_ok c"
  shows "apc_maximum_leases c \<le> card {p. ipv6_usable c p}"
proof -
  let ?u = "usable_ipv6_subnets (apc_ipv6_parent_prefix_len c)"
  let ?prefix = "ipv6_subnet_prefix (apc_ipv6_base c) (apc_ipv6_parent_prefix_len c)"
  have small: "unat (of_nat n :: u64) = n" if "n \<le> unat ?u" for n
    using that unat_bound [of ?u] by (simp add: unat_of_nat)
  have "inj_on (\<lambda>n. ?prefix (of_nat n)) {1..unat ?u}"
  proof (rule inj_onI)
    fix i j assume ij: "i \<in> {1..unat ?u}" "j \<in> {1..unat ?u}" and eq: "?prefix (of_nat i) = ?prefix (of_nat j)"
    from ij have "(of_nat i :: u64) \<le> ?u" "(of_nat j :: u64) \<le> ?u" by (simp_all add: word_le_nat_alt small)
    from subnet_prefix_inj [OF c this eq] show "i = j" using ij small by (metis atLeastAtMost_iff)
  qed
  then have "card ((\<lambda>n. ?prefix (of_nat n)) ` {1..unat ?u}) = unat ?u" by (simp add: card_image)
  moreover have "(\<lambda>n. ?prefix (of_nat n)) ` {1..unat ?u} \<subseteq> {p. ipv6_usable c p}"
  proof (rule image_subsetI)
    fix n assume n: "n \<in> {1..unat ?u}"
    then have "1 \<le> (of_nat n :: u64)" and "(of_nat n :: u64) \<le> ?u" by (simp_all add: word_le_nat_alt small)
    then show "?prefix (of_nat n) \<in> {p. ipv6_usable c p}" unfolding mem_Collect_eq ipv6_usable_iff [OF c] by blast
  qed
  ultimately have "unat ?u \<le> card {p. ipv6_usable c p}" using card_mono [of "{p. ipv6_usable c p}"] by (metis finite)
  with pool_config_okD(16) [OF c] show ?thesis by simp
qed

text \<open>So an allocation below the bound succeeds while nothing is quarantined.\<close>

lemma allocate_succeeds:
  assumes ok: "pool_ok {} p b h []" and le: "length h \<le> length b" and rp: "ap_release_pending p = []"
    and room: "length (ap_active p) + length (ap_pending p) + length (ap_inflight p) < apc_maximum_leases (ap_config p)"
  shows "\<exists>a. allocate_locked p = (p, Inr a)"
proof -
  note c = pool_okD(1) [OF ok]
  have "length (ap_inflight p) = length b" using pool_okD(6-8) [OF ok] by (metis distinct_card)
  then have few: "length (leases p @ h) < apc_maximum_leases (ap_config p)" using room le by (simp add: leases_def)
  have "find_free_ipv4 p \<noteq> None"
  proof
    assume "find_free_ipv4 p = None"
    then have "{a. ipv4_usable (ap_config p) a} \<subseteq> set (used_ipv4 p)" using find_free_ipv4_None [OF ok] room by auto
    then have "card {a. ipv4_usable (ap_config p) a} \<le> card (set (used_ipv4 p))" by (rule card_mono [rotated]) simp
    then show False using many_ipv4 [OF c] card_used_ipv4 [OF ok] few rp by simp
  qed
  moreover have "find_free_ipv6 p \<noteq> None"
  proof
    assume "find_free_ipv6 p = None"
    then have "{a. ipv6_usable (ap_config p) a} \<subseteq> set (used_ipv6 p)" using find_free_ipv6_None [OF c] room by auto
    then have "card {a. ipv6_usable (ap_config p) a} \<le> card (set (used_ipv6 p))" by (rule card_mono [rotated]) simp
    then show False using many_ipv6 [OF c] card_used_ipv6 [OF ok] few rp by simp
  qed
  ultimately show ?thesis by (auto simp: allocate_locked_def)
qed

end
