(* ===== verification/PoolProps.thy ===== *)
theory PoolProps
  imports PoolRecover
begin

text \<open>
  What the lease pool guarantees in every state it reaches, whatever the store answers and
  however the operations interleave: leases never collide, a quarantined address is blocked until
  its durable delete has succeeded, allocation is exact and does not starve, a sweep is exact; and
  two defects, of reservations answered from the quarantine and of a failed release.
\<close>

section \<open>Leases\<close>

definition live_grants :: "pool_system \<Rightarrow> grant list" where
  "live_grants s = leases (py_pool s) @ held (py_running s)"

lemma live_good: "pool_inv_on G s \<Longrightarrow> leases_good (ap_config (py_pool s)) G (live_grants s)"
  by (simp add: pool_inv_on_def live_grants_def pool_ok_def)

lemma lookup_live: "pool_lookup (py_pool s) sid = Some a \<Longrightarrow> (sid, a) \<in> set (live_grants s)"
  by (force simp: pool_lookup_def live_grants_def leases_def dest: map_of_SomeD split: option.splits)

lemma distinct_map_eq: "distinct (map f xs) \<Longrightarrow> x \<in> set xs \<Longrightarrow> y \<in> set xs \<Longrightarrow> f x = f y \<Longrightarrow> x = y"
  by (auto simp: distinct_map dest: inj_onD)

text \<open>C2. In every reachable state two sessions that are looked up, reserved or active, have
  different IPv4 addresses and different prefixes; each address is a host of the configured network
  that is neither network, broadcast, gateway nor reserved, each prefix a subnet of the parent other
  than the gateway's, and no more leases exist than the configured maximum, counting those an
  operation has taken out while its store call is under way.\<close>

theorem leases_unique:
  assumes "pool_reachable s" and "pool_lookup (py_pool s) sid = Some a" and "ap_config (py_pool s) = c"
  shows "apc_network c < aa_ipv4 a \<and> aa_ipv4 a < apc_broadcast c \<and> aa_ipv4 a \<noteq> apc_ipv4_gateway c
    \<and> aa_ipv4 a \<notin> set (apc_reserved_ipv4 c)
    \<and> (\<exists>n. 1 \<le> n \<and> n \<le> usable_ipv6_subnets (apc_ipv6_parent_prefix_len c)
        \<and> aa_ipv6_prefix a = ipv6_subnet_prefix (apc_ipv6_base c) (apc_ipv6_parent_prefix_len c) n)
    \<and> length (live_grants s) \<le> apc_maximum_leases c
    \<and> (\<forall>other b. pool_lookup (py_pool s) other = Some b \<and> other \<noteq> sid \<longrightarrow>
        aa_ipv4 b \<noteq> aa_ipv4 a \<and> aa_ipv6_prefix b \<noteq> aa_ipv6_prefix a)"
proof -
  have inv: "pool_inv s" by (rule pool_reachable_inv [OF assms(1)])
  then have c: "pool_config_ok c" using assms(3) by (auto simp: pool_inv_on_def pool_ok_def)
  have good: "leases_good c {} (live_grants s)" using live_good [OF inv] assms(3) by simp
  note a = lookup_live [OF assms(2)]
  then have "ipv4_usable c (aa_ipv4 a)" and "ipv6_usable c (aa_ipv6_prefix a)"
    using good by (auto simp: leases_good_def)
  moreover have "aa_ipv4 b \<noteq> aa_ipv4 a \<and> aa_ipv6_prefix b \<noteq> aa_ipv6_prefix a"
    if b: "pool_lookup (py_pool s) other = Some b" and ne: "other \<noteq> sid" for other b
  proof -
    from good show ?thesis
      unfolding leases_good_def using distinct_map_eq [OF _ lookup_live [OF b] a] ne by (metis Pair_inject snd_conv)
  qed
  moreover have "length (live_grants s) \<le> apc_maximum_leases c" using good by (simp add: leases_good_def)
  ultimately show ?thesis by (simp add: ipv4_usable_iff [OF c] ipv6_usable_iff [OF c]) blast
qed

section \<open>Quarantine\<close>

interpretation blocked: keeps_unless pool_exec "pool_inv_on {(q, a)}" "\<lambda>s e. deletes s e q" for q a
  by unfold_locales (simp add: pool_inv_exec)

text \<open>C9. An address in the quarantine that no lease has when the quarantine is looked at is not
  leased again, nor is the prefix, unless a retry has since deleted that very session's record
  from the store.\<close>

theorem quarantine_blocks:
  assumes "pool_reachable s"
    and "map_of (ap_release_pending (py_pool s)) q = Some entry"
    and "\<forall>(sid, a) \<in> set (live_grants s).
      aa_ipv4 a \<noteq> aa_ipv4 (ql_addresses entry) \<and> aa_ipv6_prefix a \<noteq> aa_ipv6_prefix (ql_addresses entry)"
    and "trace pool_exec s tr t"
    and "pool_lookup (py_pool t) sid = Some a"
    and "aa_ipv4 a = aa_ipv4 (ql_addresses entry) \<or> aa_ipv6_prefix a = aa_ipv6_prefix (ql_addresses entry)"
  shows "\<exists>before e out after u. tr = before @ (e, out) # after \<and> trace pool_exec s before u \<and> deletes u e q"
proof -
  have "pool_inv_on {(q, ql_addresses entry)} s"
    using pool_reachable_inv [OF assms(1)] assms(2,3)
    by (auto simp: pool_inv_on_def pool_ok_def leases_good_def quarantines_def live_grants_def)
  from blocked.unless_trace [OF assms(4) this] show ?thesis
  proof
    assume "pool_inv_on {(q, ql_addresses entry)} t"
    from live_good [OF this] lookup_live [OF assms(5)] assms(6) show ?thesis by (auto simp: leases_good_def)
  qed
qed

section \<open>Allocation\<close>

text \<open>C32. Below the lease bound an allocation returns the least usable IPv4 address and the lowest
  subnet that no lease, no operation under way and no quarantined entry has, and it fails only
  when every usable IPv4 address or every usable prefix is so taken.\<close>

theorem allocation_exact:
  assumes "pool_reachable s" and "py_pool s = p"
    and "length (ap_active p) + length (ap_pending p) < apc_maximum_leases (ap_config p)"
  shows "case snd (allocate_locked p) of
      Inr a \<Rightarrow> ipv4_usable (ap_config p) (aa_ipv4 a) \<and> aa_ipv4 a \<notin> set (used_ipv4 p)
        \<and> (\<forall>x. ipv4_usable (ap_config p) x \<and> x < aa_ipv4 a \<longrightarrow> x \<in> set (used_ipv4 p))
        \<and> aa_ipv4_prefix_len a = apc_ipv4_prefix_len (ap_config p) \<and> aa_ipv6_prefix_len a = 64
        \<and> aa_ipv6_prefix a \<notin> set (used_ipv6 p)
        \<and> (\<exists>n. 1 \<le> n \<and> n \<le> usable_ipv6_subnets (apc_ipv6_parent_prefix_len (ap_config p))
            \<and> aa_ipv6_prefix a = ipv6_subnet_prefix (apc_ipv6_base (ap_config p)) (apc_ipv6_parent_prefix_len (ap_config p)) n
            \<and> (\<forall>m. 1 \<le> m \<and> m < n \<longrightarrow>
                ipv6_subnet_prefix (apc_ipv6_base (ap_config p)) (apc_ipv6_parent_prefix_len (ap_config p)) m \<in> set (used_ipv6 p)))
    | Inl e \<Rightarrow> e = PExhausted \<and>
        ((\<forall>x. ipv4_usable (ap_config p) x \<longrightarrow> x \<in> set (used_ipv4 p))
         \<or> (\<forall>x. ipv6_usable (ap_config p) x \<longrightarrow> x \<in> set (used_ipv6 p)))"
proof -
  have ok: "pool_ok {} p (busy (py_running s)) (held (py_running s)) []"
    using pool_reachable_inv [OF assms(1)] assms(2) by (simp add: pool_inv_on_def)
  note c = pool_okD(1) [OF ok]
  obtain p' r where r: "allocate_locked p = (p', r)" by fastforce
  from r show ?thesis
  proof (cases rule: allocate_locked_cases)
    case 1
    then show ?thesis
      using find_free_ipv4_None [OF ok assms(3)] find_free_ipv6_None [OF c assms(3)] r by auto
  next
    case (2 a)
    from find_free_ipv4_least [OF c 2(3)] find_free_ipv6_subnet(2,3) [OF c 2(4)] 2(2,5,6) r
    show ?thesis by simp
  qed
qed

text \<open>C33. While nothing is quarantined, a session without a lease is granted one whenever the
  leases and the operations under way number fewer than the configured maximum: the pool is
  never exhausted early.\<close>

theorem reserve_granted:
  assumes "pool_reachable s" and "py_pool s = p"
    and "sid \<noteq> 0" and "did \<noteq> 0" and "ap_release_pending p = []"
    and "sid \<notin> set (ap_inflight p)" and "pool_lookup p sid = None"
    and "length (ap_active p) + length (ap_pending p) + length (ap_inflight p) < apc_maximum_leases (ap_config p)"
  shows "\<exists>t a expires wall. pool_exec s (PoReserve sid did now) = (t, Parked)
    \<and> last (py_running t) = PlanReserve sid did a expires wall
    \<and> pool_exec t (PoFinish (length (py_running s)) [True]) =
        (\<lparr>py_pool = fst (reserve_finish (py_pool t) sid did a expires True), py_running = py_running s\<rparr>,
         Answered (Addresses (Inr a)))"
proof -
  have ok: "pool_ok {} p (busy (py_running s)) (held (py_running s)) []"
    using pool_reachable_inv [OF assms(1)] assms(2) by (simp add: pool_inv_on_def)
  obtain a where a: "allocate_locked p = (p, Inr a)"
    using allocate_succeeds [OF ok length_held_le assms(5,8)] by blast
  have none: "map_of (ap_active p) sid = None" "map_of (ap_pending p) sid = None"
    using assms(7) by (simp_all add: pool_lookup_def split: option.splits)
  have "pool_config_ok (ap_config p)" by (rule pool_okD(1) [OF ok])
  from pool_config_okD(4) [OF this] assms(8)
  have room: "\<not> apc_maximum_leases (ap_config p)
      \<le> usize_add (usize_add (length (ap_active p)) (length (ap_pending p))) (length (ap_inflight p))"
    by (simp add: usize_add_def usize_max_def min_def)
  let ?e = "sat_add (tm_monotonic_ms now) (apc_pending_ttl_ms (ap_config p))"
  let ?w = "wall_expiry_from_ttl (tm_wall_ms now) (apc_pending_ttl_ms (ap_config p))"
  let ?t = "\<lparr>py_pool = park sid a p, py_running = py_running s @ [PlanReserve sid did a ?e ?w]\<rparr>"
  have "pool_exec s (PoReserve sid did now) = (?t, Parked)"
    using assms(2-6) none room a by (simp add: reserve_begin_def reserve_new_def begun_step_def)
  moreover have "snd (reserve_finish (park sid a p) sid did a ?e True) = Inr a"
    using assms(5) none by (simp add: reserve_finish_def Let_def store_ok_def map_of_eq_None_iff)
  ultimately show ?thesis
    by (intro exI [of _ ?t] exI [of _ a] exI [of _ ?e] exI [of _ ?w])
      (simp add: case_prod_beta nth_append)
qed

section \<open>A pool to evaluate\<close>

text \<open>The network 10.64.0.0/24 with gateway 10.64.0.1, four leases, and a store that starts empty.\<close>

definition lan_config :: address_pool_config where
  "lan_config = \<lparr>apc_ipv4_network = 0x0a400000, apc_ipv4_prefix_len = 24, apc_ipv4_gateway = 0x0a400001,
     apc_reserved_ipv4 = [0x0a400002], apc_ipv6_base = 0xfd000000000000000000000000000000,
     apc_ipv6_parent_prefix_len = 48, apc_maximum_leases = 2, apc_pending_ttl_ms = 30000,
     apc_lease_ttl_ms = 3600000, apc_maximum_pending_releases = 1\<rparr>"

definition lan_pool :: address_pool where
  "lan_pool = (pool_new lan_config)\<lparr>ap_has_store := True\<rparr>"

definition lan_time :: "u64 \<Rightarrow> pool_time" where
  "lan_time ms = \<lparr>tm_monotonic_ms = ms, tm_wall_ms = ms + 1000000\<rparr>"

definition lan_start :: pool_system where
  "lan_start = \<lparr>py_pool = lan_pool, py_running = []\<rparr>"

definition lan_address :: "u32 \<Rightarrow> u64 \<Rightarrow> assigned_addresses" where
  "lan_address host subnet = \<lparr>aa_ipv4 = 0x0a400000 + host, aa_ipv4_prefix_len = 24,
     aa_ipv6_prefix = 0xfd000000000000000000000000000000 + push_bit 64 (ucast subnet), aa_ipv6_prefix_len = 64\<rparr>"

lemma lan_config_ok: "pool_config_ok lan_config"
  by (simp add: pool_config_ok_def pool_config_new_def lan_config_def prefix_mask_v4_def usable_ipv4_hosts_def
    usable_ipv6_subnets_def ipv6_base_masked_def max_leases_hard_cap_def max_reserved_ipv4_def sat_add_def sat_sub_def
    Let_def mask_eq_exp_minus_1)

lemma lan_network: "apc_network lan_config = 0x0a400000" "apc_broadcast lan_config = 0x0a4000ff"
  by (simp_all add: apc_network_def apc_broadcast_def lan_config_def prefix_mask_v4_def mask_eq_exp_minus_1)

lemma lan_subnet:
  "ipv6_subnet_prefix (apc_ipv6_base lan_config) (apc_ipv6_parent_prefix_len lan_config) 1 = aa_ipv6_prefix (lan_address 3 1)"
  "ipv6_subnet_prefix (apc_ipv6_base lan_config) (apc_ipv6_parent_prefix_len lan_config) 2 = aa_ipv6_prefix (lan_address 4 2)"
  by (simp_all add: ipv6_subnet_prefix_def lan_config_def lan_address_def hi64_def parent_mask_v6_def mask_eq_exp_minus_1)

lemma lan_recovered: "pool_with_store lan_config (Some []) (lan_time 0) [] = Inr lan_pool"
  by (simp add: pool_with_store_def pool_recover_def lan_pool_def pool_new_def pool_add_def pool_metrics_default_def)

lemma lan_reachable: "trace pool_exec lan_start tr s \<Longrightarrow> pool_reachable s"
  unfolding lan_start_def by (rule pool_reachable.recovered [OF lan_config_ok lan_recovered])

definition lan_lease :: "device_id \<Rightarrow> u64 \<Rightarrow> lease" where
  "lan_lease did expires = \<lparr>le_device_id = did, le_addresses = lan_address 3 1, le_expires_at_ms = expires\<rparr>"

definition lan_entry :: "device_id \<Rightarrow> u64 \<Rightarrow> release_pending_lease" where
  "lan_entry did expires = \<lparr>ql_device_id = did, ql_addresses = lan_address 3 1, ql_expires_at_ms = expires,
     ql_attempts = 0, ql_next_retry_ms = 1000\<rparr>"

definition lan_state :: "(session_id \<times> lease) list \<Rightarrow> (session_id \<times> lease) list
    \<Rightarrow> (session_id \<times> release_pending_lease) list \<Rightarrow> pool_metrics \<Rightarrow> pool_system" where
  "lan_state active pending quarantine m = \<lparr>py_pool = \<lparr>ap_config = lan_config, ap_active = active, ap_pending = pending,
     ap_release_pending = quarantine, ap_release_order = map fst quarantine, ap_inflight = [], ap_inflight_v4 = [],
     ap_inflight_v6 = [], ap_has_store = True, ap_metrics = m\<rparr>, py_running = []\<rparr>"

lemma lan_fields [simp]:
  "apc_maximum_leases lan_config = 2" "apc_maximum_pending_releases lan_config = 1"
  "apc_reserved_ipv4 lan_config = [0x0a400002]" "apc_ipv4_gateway lan_config = 0x0a400001"
  "apc_ipv4_prefix_len lan_config = 24" "apc_pending_ttl_ms lan_config = 30000" "apc_lease_ttl_ms lan_config = 3600000"
  by (simp_all add: lan_config_def)

lemma lan_usable: "1 \<le> unat (usable_ipv6_subnets (apc_ipv6_parent_prefix_len lan_config))"
  using usable_subnets [OF lan_config_ok] by (simp add: subnet_bits_def lan_config_def)

lemma lan_allocate:
  assumes "p = py_pool (lan_state [] [] [] m)"
  shows "allocate_locked p = (p, Inr (lan_address 3 1))"
proof -
  have "find_free_ipv4 p = Some 0x0a400003"
    by (simp add: assms lan_state_def find_free_ipv4_def lan_network scan_ipv4.simps ipv4_blocked_def used_ipv4_def sat_add_def Let_def)
  moreover have "find_free_ipv6 p = Some (aa_ipv6_prefix (lan_address 3 1))"
    using lan_subnet(1) lan_usable
    by (simp add: assms lan_state_def find_free_ipv6_def scan_ipv6.simps used_ipv6_def Let_def)
  ultimately show ?thesis by (simp add: allocate_locked_def assms lan_state_def lan_address_def)
qed

lemma lan_reserved:
  assumes "sid \<noteq> 0" and "did \<noteq> 0"
  shows "trace pool_exec (lan_state [] [] [] m)
    [(PoReserve sid did (lan_time now), Parked), (PoFinish 0 [True], Answered (Addresses (Inr (lan_address 3 1))))]
    (lan_state [] [(sid, lan_lease did (sat_add now 30000))] [] (m\<lparr>pm_allocations := pm_allocations m + 1\<rparr>))"
proof -
  let ?p = "py_pool (lan_state [] [] [] m)"
  have "reserve_begin ?p sid did (lan_time now) = (park sid (lan_address 3 1) ?p,
      Inr (PlanReserve sid did (lan_address 3 1) (sat_add now 30000) (sat_add (now + 1000000) 30000)))"
    using lan_allocate [of ?p m] assms
    by (simp add: reserve_begin_def reserve_new_def lan_state_def lan_time_def wall_expiry_from_ttl_def usize_add_def usize_max_def)
  then show ?thesis
    by (simp add: trace_Cons begun_step_def reserve_finish_def Let_def store_ok_def lan_state_def park_def unpark_def
        pool_count_def hm_insert_def lan_lease_def)
qed

lemma lan_committed:
  assumes "now < expires"
  shows "trace pool_exec (lan_state [] [(sid, lan_lease did expires)] [] m)
    [(PoCommit sid (lan_time now), Parked), (PoFinish 0 [True], Answered (Addresses (Inr (lan_address 3 1))))]
    (lan_state [(sid, lan_lease did (sat_add now 3600000))] [] [] (m\<lparr>pm_commits := pm_commits m + 1\<rparr>))"
  using assms [unfolded linorder_not_le [symmetric]]
  by (simp add: trace_Cons begun_step_def commit_begin_def promote_finish_def Let_def store_ok_def lan_state_def lan_time_def
      lan_lease_def park_def unpark_def pool_count_def hm_insert_def kt_remove_def wall_expiry_from_ttl_def)

lemma lan_closed:
  "trace pool_exec (lan_state [(sid, lan_lease did expires)] [] [] m) [(PoDeferred sid, Deferred True)]
    (lan_state [] [] [(sid, lan_entry did expires)] (m\<lparr>pm_releases := pm_releases m + 1\<rparr>))"
  by (simp add: trace_Cons release_deferred_def take_lease_def enqueue_release_locked_def leased_def lease_addresses_def lan_state_def
      lan_lease_def lan_entry_def kt_remove_def hm_insert_def pool_count_def next_retry_deadline_def sat_mul_def sat_add_def)

lemma lan_resumed:
  assumes "sid \<noteq> 0" and "did \<noteq> 0"
  shows "pool_exec (lan_state [] [] [(sid, lan_entry did expires)] m) (PoReserve sid did now) =
      (lan_state [] [] [(sid, lan_entry did expires)] m, Answered (Addresses (Inr (lan_address 3 1))))"
    and "pool_exec (lan_state [] [] [(sid, lan_entry did expires)] m) (PoCommit sid now) =
      (lan_state [] [] [(sid, lan_entry did expires)] m, Answered (Addresses (Inr (lan_address 3 1))))"
  using assms by (simp_all add: begun_step_def reserve_begin_def commit_begin_def lan_state_def lan_entry_def)

lemma lan_retried:
  assumes "1000 \<le> now"
  shows "trace pool_exec (lan_state [] [] [(sid, lan_entry did expires)] m)
    [(PoRetry now 32, Parked), (PoFinish 0 [True], Answered (Retried 0))]
    (lan_state [] [] [] (m\<lparr>pm_release_retries := pm_release_retries m + 1\<rparr>))"
  using assms
  by (simp add: trace_Cons begun_step_def retry_begin_def retry_finish_def retry_settle_def Let_def lan_state_def
      lan_entry_def kt_remove_def pool_add_def sat_add_def linorder_not_less)

lemma lan_before: "(10::u64) < sat_add 0 30000" "(3010::u64) < sat_add 3000 30000"
  by (simp_all add: sat_add_def)

lemma lan_start_state: "lan_start = lan_state [] [] [] pool_metrics_default"
  by (simp add: lan_start_def lan_state_def lan_pool_def pool_new_def)

text \<open>C35. Two sessions can be told the same addresses. A session that was closed reserves and
  commits again while its release waits in the quarantine: both are answered with its old
  addresses, though it has no lease. The retry then deletes the record and frees the
  addresses, and the next session is granted them, while the first was admitted with them; its
  own payload is no longer authorised, for it has no active lease.\<close>

theorem quarantined_grant_shared:
  "\<exists>u. trace pool_exec lan_start
     [(PoReserve 5 7 (lan_time 0), Parked), (PoFinish 0 [True], Answered (Addresses (Inr (lan_address 3 1)))),
      (PoCommit 5 (lan_time 10), Parked), (PoFinish 0 [True], Answered (Addresses (Inr (lan_address 3 1)))),
      (PoDeferred 5, Deferred True),
      (PoReserve 5 7 (lan_time 500), Answered (Addresses (Inr (lan_address 3 1)))),
      (PoCommit 5 (lan_time 510), Answered (Addresses (Inr (lan_address 3 1)))),
      (PoRetry 2000 32, Parked), (PoFinish 0 [True], Answered (Retried 0)),
      (PoReserve 6 8 (lan_time 3000), Parked), (PoFinish 0 [True], Answered (Addresses (Inr (lan_address 3 1)))),
      (PoCommit 6 (lan_time 3010), Parked), (PoFinish 0 [True], Answered (Addresses (Inr (lan_address 3 1))))] u
   \<and> pool_reachable u \<and> pool_lookup_active (py_pool u) 6 = Some (lan_address 3 1)
   \<and> pool_lookup_active (py_pool u) 5 = None"
proof -
  let ?m1 = "pool_metrics_default\<lparr>pm_allocations := pm_allocations pool_metrics_default + 1\<rparr>"
  let ?m2 = "?m1\<lparr>pm_commits := pm_commits ?m1 + 1\<rparr>"
  let ?m3 = "?m2\<lparr>pm_releases := pm_releases ?m2 + 1\<rparr>"
  let ?m4 = "?m3\<lparr>pm_release_retries := pm_release_retries ?m3 + 1\<rparr>"
  let ?m5 = "?m4\<lparr>pm_allocations := pm_allocations ?m4 + 1\<rparr>"
  let ?u = "lan_state [(6, lan_lease 8 (sat_add 3010 3600000))] [] [] (?m5\<lparr>pm_commits := pm_commits ?m5 + 1\<rparr>)"
  let ?q = "lan_state [] [] [(5, lan_entry 7 (sat_add 10 3600000))] ?m3"
  have tail: "trace pool_exec ?q
     [(PoReserve 5 7 (lan_time 500), Answered (Addresses (Inr (lan_address 3 1)))),
      (PoCommit 5 (lan_time 510), Answered (Addresses (Inr (lan_address 3 1))))] ?q"
    by (simp add: trace_Cons lan_resumed del: pool_exec.simps)
  have "trace pool_exec lan_start (
     [(PoReserve 5 7 (lan_time 0), Parked), (PoFinish 0 [True], Answered (Addresses (Inr (lan_address 3 1))))] @
     [(PoCommit 5 (lan_time 10), Parked), (PoFinish 0 [True], Answered (Addresses (Inr (lan_address 3 1))))] @
     [(PoDeferred 5, Deferred True)] @
     [(PoReserve 5 7 (lan_time 500), Answered (Addresses (Inr (lan_address 3 1)))),
      (PoCommit 5 (lan_time 510), Answered (Addresses (Inr (lan_address 3 1))))] @
     [(PoRetry 2000 32, Parked), (PoFinish 0 [True], Answered (Retried 0))] @
     [(PoReserve 6 8 (lan_time 3000), Parked), (PoFinish 0 [True], Answered (Addresses (Inr (lan_address 3 1))))] @
     [(PoCommit 6 (lan_time 3010), Parked), (PoFinish 0 [True], Answered (Addresses (Inr (lan_address 3 1))))]) ?u"
    unfolding trace_append lan_start_state
    by (intro exI conjI, rule lan_reserved, simp, simp, rule lan_committed, rule lan_before(1), rule lan_closed,
      rule tail, rule lan_retried, simp, rule lan_reserved, simp, simp, rule lan_committed, rule lan_before(2))
  then have "trace pool_exec lan_start
     [(PoReserve 5 7 (lan_time 0), Parked), (PoFinish 0 [True], Answered (Addresses (Inr (lan_address 3 1)))),
      (PoCommit 5 (lan_time 10), Parked), (PoFinish 0 [True], Answered (Addresses (Inr (lan_address 3 1)))),
      (PoDeferred 5, Deferred True),
      (PoReserve 5 7 (lan_time 500), Answered (Addresses (Inr (lan_address 3 1)))),
      (PoCommit 5 (lan_time 510), Answered (Addresses (Inr (lan_address 3 1)))),
      (PoRetry 2000 32, Parked), (PoFinish 0 [True], Answered (Retried 0)),
      (PoReserve 6 8 (lan_time 3000), Parked), (PoFinish 0 [True], Answered (Addresses (Inr (lan_address 3 1)))),
      (PoCommit 6 (lan_time 3010), Parked), (PoFinish 0 [True], Answered (Addresses (Inr (lan_address 3 1))))] ?u"
    by (simp only: append.simps)
  moreover from lan_reachable [OF this] have "pool_reachable ?u" .
  moreover have "pool_lookup_active (py_pool ?u) 6 = Some (lan_address 3 1)" and "pool_lookup_active (py_pool ?u) 5 = None"
    by (simp_all add: pool_lookup_active_def lan_state_def lan_lease_def)
  ultimately show ?thesis by blast
qed

text \<open>With the first addresses quarantined, and the quarantine thereby full, the next ones are granted.\<close>

lemma lan_addresses_differ:
  "lan_address 3 1 = lan_address 4 2 \<longleftrightarrow> False" "aa_ipv6_prefix (lan_address 4 2) \<noteq> aa_ipv6_prefix (lan_address 3 1)"
  by (simp_all add: lan_address_def)

lemma lan_usable_2: "2 \<le> unat (usable_ipv6_subnets (apc_ipv6_parent_prefix_len lan_config))"
proof -
  have "(2::nat) ^ 2 \<le> 2 ^ subnet_bits lan_config"
    by (rule power_increasing) (simp_all add: subnet_bits_def lan_config_def)
  then show ?thesis using usable_subnets [OF lan_config_ok] by simp
qed

lemma lan_allocate_next:
  assumes "p = py_pool (lan_state [] [] [(5, lan_entry 7 expires)] m)"
  shows "allocate_locked p = (p, Inr (lan_address 4 2))"
proof -
  have "find_free_ipv4 p = Some 0x0a400004"
    by (simp add: assms lan_state_def find_free_ipv4_def lan_network scan_ipv4.simps ipv4_blocked_def used_ipv4_def sat_add_def
        Let_def lan_entry_def lan_address_def)
  moreover have "find_free_ipv6 p = Some (aa_ipv6_prefix (lan_address 4 2))"
    using lan_subnet lan_usable_2 lan_addresses_differ
    by (simp add: assms lan_state_def find_free_ipv6_def scan_ipv6.simps used_ipv6_def Let_def lan_entry_def)
  ultimately show ?thesis by (simp add: allocate_locked_def assms lan_state_def lan_address_def)
qed

definition lan_second :: "device_id \<Rightarrow> u64 \<Rightarrow> lease" where
  "lan_second did expires = \<lparr>le_device_id = did, le_addresses = lan_address 4 2, le_expires_at_ms = expires\<rparr>"

lemma lan_reserved_next:
  "trace pool_exec (lan_state [] [] [(5, lan_entry 7 expires)] m)
    [(PoReserve 6 8 (lan_time now), Parked), (PoFinish 0 [True], Answered (Addresses (Inr (lan_address 4 2))))]
    (lan_state [] [(6, lan_second 8 (sat_add now 30000))] [(5, lan_entry 7 expires)]
      (m\<lparr>pm_allocations := pm_allocations m + 1\<rparr>))"
proof -
  let ?p = "py_pool (lan_state [] [] [(5, lan_entry 7 expires)] m)"
  have "reserve_begin ?p 6 8 (lan_time now) = (park 6 (lan_address 4 2) ?p,
      Inr (PlanReserve 6 8 (lan_address 4 2) (sat_add now 30000) (sat_add (now + 1000000) 30000)))"
    using lan_allocate_next [of ?p expires m]
    by (simp add: reserve_begin_def reserve_new_def lan_state_def lan_time_def wall_expiry_from_ttl_def usize_add_def usize_max_def)
  then show ?thesis
    by (simp add: trace_Cons begun_step_def reserve_finish_def Let_def store_ok_def lan_state_def park_def unpark_def
        pool_count_def hm_insert_def lan_second_def)
qed

lemma lan_release_failed:
  "\<exists>m'. trace pool_exec (lan_state [] [(6, lan_second 8 expires)] [(5, lan_entry 7 other)] m)
    [(PoRelease 6 now, Parked), (PoFinish 0 [False], Answered (Released (Inl PStore)))]
    (lan_state [(6, lan_second 8 expires)] [] [(5, lan_entry 7 other)] m')"
  by (simp add: trace_Cons begun_step_def release_begin_def take_lease_def release_finish_def Let_def store_ok_def lan_state_def
      park_def unpark_def pool_count_def hm_insert_def kt_remove_def lan_second_def lan_entry_def enqueue_release_locked_def
      leased_def)

text \<open>A failed release makes an uncommitted reservation active. When the store cannot delete the
  record of a Reserved lease and the quarantine is full, the lease is put back among the active
  ones: from then on the lookup that authorises payload answers for a session that never
  committed.\<close>

theorem failed_release_activates:
  "\<exists>u. trace pool_exec lan_start
     [(PoReserve 5 7 (lan_time 0), Parked), (PoFinish 0 [True], Answered (Addresses (Inr (lan_address 3 1)))),
      (PoCommit 5 (lan_time 10), Parked), (PoFinish 0 [True], Answered (Addresses (Inr (lan_address 3 1)))),
      (PoDeferred 5, Deferred True),
      (PoReserve 6 8 (lan_time 500), Parked), (PoFinish 0 [True], Answered (Addresses (Inr (lan_address 4 2)))),
      (PoRelease 6 600, Parked), (PoFinish 0 [False], Answered (Released (Inl PStore)))] u
   \<and> pool_reachable u \<and> pool_lookup_active (py_pool u) 6 = Some (lan_address 4 2)"
proof -
  let ?m1 = "pool_metrics_default\<lparr>pm_allocations := pm_allocations pool_metrics_default + 1\<rparr>"
  let ?m2 = "?m1\<lparr>pm_commits := pm_commits ?m1 + 1\<rparr>"
  let ?m3 = "?m2\<lparr>pm_releases := pm_releases ?m2 + 1\<rparr>"
  let ?m4 = "?m3\<lparr>pm_allocations := pm_allocations ?m3 + 1\<rparr>"
  obtain m' where failed: "trace pool_exec
      (lan_state [] [(6, lan_second 8 (sat_add 500 30000))] [(5, lan_entry 7 (sat_add 10 3600000))] ?m4)
      [(PoRelease 6 600, Parked), (PoFinish 0 [False], Answered (Released (Inl PStore)))]
      (lan_state [(6, lan_second 8 (sat_add 500 30000))] [] [(5, lan_entry 7 (sat_add 10 3600000))] m')"
    using lan_release_failed by blast
  let ?u = "lan_state [(6, lan_second 8 (sat_add 500 30000))] [] [(5, lan_entry 7 (sat_add 10 3600000))] m'"
  have "trace pool_exec lan_start (
     [(PoReserve 5 7 (lan_time 0), Parked), (PoFinish 0 [True], Answered (Addresses (Inr (lan_address 3 1))))] @
     [(PoCommit 5 (lan_time 10), Parked), (PoFinish 0 [True], Answered (Addresses (Inr (lan_address 3 1))))] @
     [(PoDeferred 5, Deferred True)] @
     [(PoReserve 6 8 (lan_time 500), Parked), (PoFinish 0 [True], Answered (Addresses (Inr (lan_address 4 2))))] @
     [(PoRelease 6 600, Parked), (PoFinish 0 [False], Answered (Released (Inl PStore)))]) ?u"
    unfolding trace_append lan_start_state
    by (intro exI conjI, rule lan_reserved, simp, simp, rule lan_committed, rule lan_before(1), rule lan_closed,
      rule lan_reserved_next, rule failed)
  then have tr: "trace pool_exec lan_start
     [(PoReserve 5 7 (lan_time 0), Parked), (PoFinish 0 [True], Answered (Addresses (Inr (lan_address 3 1)))),
      (PoCommit 5 (lan_time 10), Parked), (PoFinish 0 [True], Answered (Addresses (Inr (lan_address 3 1)))),
      (PoDeferred 5, Deferred True),
      (PoReserve 6 8 (lan_time 500), Parked), (PoFinish 0 [True], Answered (Addresses (Inr (lan_address 4 2)))),
      (PoRelease 6 600, Parked), (PoFinish 0 [False], Answered (Released (Inl PStore)))] ?u"
    by (simp only: append.simps)
  moreover have "pool_lookup_active (py_pool ?u) 6 = Some (lan_address 4 2)"
    by (simp add: pool_lookup_active_def lan_state_def lan_second_def)
  ultimately show ?thesis using lan_reachable [OF tr] by blast
qed

section \<open>Witnesses\<close>

lemma lan_start_reachable: "pool_reachable lan_start"
  by (rule lan_reachable, rule trace.stop)

lemma lan_quarantined_reachable: "\<exists>m. pool_reachable (lan_state [] [] [(5, lan_entry 7 (sat_add 10 3600000))] m)"
proof -
  have "\<exists>m. trace pool_exec lan_start (
     [(PoReserve 5 7 (lan_time 0), Parked), (PoFinish 0 [True], Answered (Addresses (Inr (lan_address 3 1))))] @
     [(PoCommit 5 (lan_time 10), Parked), (PoFinish 0 [True], Answered (Addresses (Inr (lan_address 3 1))))] @
     [(PoDeferred 5, Deferred True)]) (lan_state [] [] [(5, lan_entry 7 (sat_add 10 3600000))] m)"
    unfolding trace_append lan_start_state
    by (intro exI conjI, rule lan_reserved, simp, simp, rule lan_committed, rule lan_before(1), rule lan_closed)
  then show ?thesis using lan_reachable by blast
qed

theorem leases_unique_witness:
  "\<exists>s. pool_reachable s \<and> pool_lookup (py_pool s) 5 = Some (lan_address 3 1) \<and>
    apc_network lan_config < aa_ipv4 (lan_address 3 1) \<and> length (live_grants s) \<le> 2"
proof -
  obtain m where tr: "trace pool_exec lan_start
     [(PoReserve 5 7 (lan_time 0), Parked), (PoFinish 0 [True], Answered (Addresses (Inr (lan_address 3 1))))]
     (lan_state [] [(5, lan_lease 7 (sat_add 0 30000))] [] m)"
    using lan_reserved [of 5 7 pool_metrics_default 0] unfolding lan_start_state by auto
  let ?s = "lan_state [] [(5, lan_lease 7 (sat_add 0 30000))] [] m"
  have "pool_lookup (py_pool ?s) 5 = Some (lan_address 3 1)" and "ap_config (py_pool ?s) = lan_config"
    by (simp_all add: pool_lookup_def lan_state_def lan_lease_def)
  with leases_unique [OF lan_reachable [OF tr] this] lan_reachable [OF tr] show ?thesis by auto
qed

theorem quarantine_blocks_witness:
  "\<exists>s tr before e out after u. trace pool_exec s tr u \<and> tr = before @ (e, out) # after \<and>
    (\<exists>v. trace pool_exec s before v \<and> deletes v e 5)"
proof -
  let ?e = "sat_add 10 3600000"
  obtain m where r: "pool_reachable (lan_state [] [] [(5, lan_entry 7 ?e)] m)" using lan_quarantined_reachable by blast
  obtain t where tr: "trace pool_exec (lan_state [] [] [(5, lan_entry 7 ?e)] m)
      ([(PoRetry 2000 32, Parked), (PoFinish 0 [True], Answered (Retried 0))] @
       [(PoReserve 6 8 (lan_time 3000), Parked), (PoFinish 0 [True], Answered (Addresses (Inr (lan_address 3 1))))]) t"
    and t: "pool_lookup (py_pool t) 6 = Some (lan_address 3 1)"
  proof -
    have "\<exists>m'. trace pool_exec (lan_state [] [] [(5, lan_entry 7 ?e)] m)
      ([(PoRetry 2000 32, Parked), (PoFinish 0 [True], Answered (Retried 0))] @
       [(PoReserve 6 8 (lan_time 3000), Parked), (PoFinish 0 [True], Answered (Addresses (Inr (lan_address 3 1))))])
      (lan_state [] [(6, lan_lease 8 (sat_add 3000 30000))] [] m')"
      unfolding trace_append by (intro exI conjI, rule lan_retried, simp, rule lan_reserved, simp, simp)
    then show ?thesis using that by (fastforce simp: pool_lookup_def lan_state_def lan_lease_def)
  qed
  have "\<exists>before e out after u. [(PoRetry 2000 32, Parked), (PoFinish 0 [True], Answered (Retried 0))] @
       [(PoReserve 6 8 (lan_time 3000), Parked), (PoFinish 0 [True], Answered (Addresses (Inr (lan_address 3 1))))]
      = before @ (e, out) # after \<and> trace pool_exec (lan_state [] [] [(5, lan_entry 7 ?e)] m) before u \<and> deletes u e 5"
    by (rule quarantine_blocks [OF r _ _ tr t, of 5 "lan_entry 7 ?e"])
      (simp_all add: lan_state_def live_grants_def leases_def held_def lan_entry_def)
  with tr show ?thesis by blast
qed

theorem allocation_exact_witness:
  "snd (allocate_locked (py_pool lan_start)) = Inr (lan_address 3 1) \<and>
    ipv4_usable lan_config (aa_ipv4 (lan_address 3 1)) \<and> aa_ipv6_prefix (lan_address 3 1) \<notin> set (used_ipv6 (py_pool lan_start))"
proof -
  have "allocate_locked (py_pool lan_start) = (py_pool lan_start, Inr (lan_address 3 1))"
    by (rule lan_allocate) (simp add: lan_start_state)
  with allocation_exact [OF lan_start_reachable refl] show ?thesis by (simp add: lan_start_state lan_state_def)
qed

theorem reserve_granted_witness: "\<exists>t. pool_exec lan_start (PoReserve 5 7 (lan_time 0)) = (t, Parked)"
proof -
  have "\<exists>t a expires wall. pool_exec lan_start (PoReserve 5 7 (lan_time 0)) = (t, Parked)
    \<and> last (py_running t) = PlanReserve 5 7 a expires wall
    \<and> pool_exec t (PoFinish (length (py_running lan_start)) [True]) =
        (\<lparr>py_pool = fst (reserve_finish (py_pool t) 5 7 a expires True), py_running = py_running lan_start\<rparr>,
         Answered (Addresses (Inr a)))"
    by (rule reserve_granted [OF lan_start_reachable refl])
      (simp_all add: lan_start_state lan_state_def pool_lookup_def)
  then show ?thesis by blast
qed

end
