(* ===== verification/PoolRetry.thy ===== *)
theory PoolRetry
  imports PoolProps
begin

text \<open>
  The retry of quarantined deletes loses no entry: every quarantined session is in the retry order
  or in the batch of a retry under way. So a store that works again empties the quarantine.
\<close>

section \<open>No entry is forgotten\<close>

fun retry_batch :: "pool_plan \<Rightarrow> session_id list" where
  "retry_batch (PlanRetry batch now) = batch"
| "retry_batch _ = []"

definition queued :: "address_pool \<Rightarrow> session_id list \<Rightarrow> bool" where
  "queued p retried \<longleftrightarrow> keys (ap_release_pending p) \<subseteq> set (ap_release_order p) \<union> set retried"

definition retried :: "pool_plan list \<Rightarrow> session_id list" where
  "retried running = concat (map retry_batch running)"

definition order_inv :: "pool_system \<Rightarrow> bool" where
  "order_inv s \<longleftrightarrow> pool_inv s \<and> queued (py_pool s) (retried (py_running s))"

lemma queued_same:
  "queued p bs \<Longrightarrow> ap_release_pending q = ap_release_pending p \<Longrightarrow> ap_release_order q = ap_release_order p \<Longrightarrow> queued q bs"
  by (simp add: queued_def)

lemma queued_counts [simp]: "queued (pool_count k p) bs = queued p bs" "queued (pool_add k n p) bs = queued p bs"
  "queued (park s a p) bs = queued p bs" "queued (unpark s a p) bs = queued p bs"
  by (simp_all add: queued_def)

lemma queued_maps [simp]:
  "queued (p\<lparr>ap_active := m\<rparr>) bs = queued p bs" "queued (p\<lparr>ap_pending := m\<rparr>) bs = queued p bs"
  "queued (p\<lparr>ap_inflight := i\<rparr>) bs = queued p bs"
  by (simp_all add: queued_def)

lemma queued_enqueue:
  "queued p bs \<Longrightarrow> hm_ok (ap_release_pending p) \<Longrightarrow> queued (fst (enqueue_release_locked p l now)) bs"
  by (auto simp: queued_def enqueue_release_locked_def hm.keys_ins)

lemma queued_enqueue': "queued p bs \<Longrightarrow> hm_ok (ap_release_pending p) \<Longrightarrow> enqueue_release_locked p l now = (q, r) \<Longrightarrow> queued q bs"
  using queued_enqueue [of p bs l now] by simp

lemma take_lease_queued: "queued p bs \<Longrightarrow> queued (fst (take_lease p sid)) bs"
  by (simp add: take_lease_def split: option.splits)

lemma take_lease_rp: "ap_release_pending (fst (take_lease p sid)) = ap_release_pending p"
  by (simp add: take_lease_def split: option.splits)

lemma reserve_new_queued: "queued p bs \<Longrightarrow> queued (fst (reserve_new p sid did now)) bs"
proof -
  assume q: "queued p bs"
  obtain p' r where a: "allocate_locked p = (p', r)" by fastforce
  from a show ?thesis by (cases rule: allocate_locked_cases) (use q a in \<open>simp_all add: reserve_new_def\<close>)
qed

lemma begins_queued:
  assumes q: "queued p bs"
  shows "queued (fst (reserve_begin p sid did now)) bs" and "queued (fst (commit_begin p sid now)) bs"
    and "queued (fst (release_begin p sid ms)) bs" and "queued (fst (renew_begin p sid now)) bs"
proof -
  show "queued (fst (reserve_begin p sid did now)) bs"
    using q by (auto simp: reserve_begin_def reserve_new_queued split: option.splits)
  show "queued (fst (commit_begin p sid now)) bs"
    using q by (auto simp: commit_begin_def Let_def split: option.splits)
  obtain p' r where t: "take_lease p sid = (p', r)" by fastforce
  then have "queued p' bs" using take_lease_queued [OF q, of sid] by simp
  with q t show "queued (fst (release_begin p sid ms)) bs"
    by (auto simp: release_begin_def split: option.splits)
  show "queued (fst (renew_begin p sid now)) bs"
    using q by (auto simp: renew_begin_def split: option.splits)
qed

lemma sweeps_queued:
  "queued p bs \<Longrightarrow> queued (fst (sweep_pending ids p)) bs"
  "queued p bs \<Longrightarrow> queued (fst (sweep_active ids p)) bs"
  by (induction ids arbitrary: p) (auto simp: Let_def case_prod_beta split: option.splits)

lemma sweep_begin_queued: "queued p bs \<Longrightarrow> queued (fst (sweep_begin p now)) bs"
  by (simp add: sweep_begin_def Let_def case_prod_beta sweeps_queued)

lemma deferred_queued:
  assumes q: "queued p bs" and ok: "hm_ok (ap_release_pending p)"
  shows "queued (fst (release_deferred p sid)) bs"
proof -
  obtain p' r where t: "take_lease p sid = (p', r)" by fastforce
  then have p': "queued p' bs" "hm_ok (ap_release_pending p')"
    using take_lease_queued [OF q, of sid] take_lease_rp [of p sid] ok by simp_all
  show ?thesis
  proof (cases r)
    case (Some l)
    obtain q' res where e: "enqueue_release_locked p' (leased LReleasePending sid (le_device_id l)
        (le_addresses l) (le_expires_at_ms l)) 0 = (q', res)" by fastforce
    from queued_enqueue' [OF p' e] q t Some e show ?thesis
      by (cases res) (auto simp: release_deferred_def)
  qed (use q t p' in \<open>auto simp: release_deferred_def\<close>)
qed

lemma finishes_queued:
  assumes q: "queued p bs" and ok: "hm_ok (ap_release_pending p)"
  shows "queued (fst (reserve_finish p sid did a e answer)) bs"
    and "queued (fst (promote_finish p sid did a e e' answer)) bs"
    and "queued (fst (expire_finish p sid did a e ms answer)) bs"
    and "queued (fst (release_finish p sid did a e ms answer)) bs"
    and "queued (fst (renew_finish p sid did a e answer)) bs"
    and "queued (sweep_settle ms x b p) bs"
proof -
  show "queued (fst (reserve_finish p sid did a e answer)) bs" using q by (simp add: reserve_finish_def Let_def)
  show "queued (fst (promote_finish p sid did a e e' answer)) bs" using q by (simp add: promote_finish_def Let_def)
  show "queued (fst (renew_finish p sid did a e answer)) bs"
    using q by (auto simp: renew_finish_def Let_def split: option.splits)
  have quar: "queued q' bs" if "enqueue_release_locked p' l now = (q', res)" "queued p' bs"
    "ap_release_pending p' = ap_release_pending p" for p' l now q' res
    using queued_enqueue' [OF that(2) _ that(1)] ok that(3) by simp
  show "queued (fst (expire_finish p sid did a e ms answer)) bs"
    using q by (auto simp: expire_finish_def Let_def split: prod.splits sum.splits dest: quar)
  show "queued (fst (release_finish p sid did a e ms answer)) bs"
    using q by (auto simp: release_finish_def Let_def split: prod.splits sum.splits dest: quar)
  show "queued (sweep_settle ms x b p) bs"
    using q by (auto simp: sweep_settle_def Let_def split: prod.splits sum.splits dest: quar)
qed

lemma sweep_settle_all_queued:
  "queued p bs \<Longrightarrow> pool_ok {} p (map ex_id batch @ b) (batch_held batch @ h) [] \<Longrightarrow>
    queued (sweep_settle_all now results batch p) bs"
proof (induction batch arbitrary: p)
  case (Cons e batch)
  let ?ok = "case map_of results (ex_id e) of Some ok \<Rightarrow> ok | None \<Rightarrow> True"
  have "queued (sweep_settle now e ?ok p) bs" by (rule finishes_queued(6) [OF Cons.prems(1) pool_okD(4) [OF Cons.prems(2)]])
  moreover have "pool_ok {} (sweep_settle now e ?ok p) (map ex_id batch @ b) (batch_held batch @ h) []"
    by (rule sweep_settle_ok) (use Cons.prems(2) in simp)
  ultimately show ?case using Cons.IH by simp
qed simp

lemma retry_select_covers:
  "retry_select rp now max_batch order inflight batch remaining deferred = (inflight', batch', remaining', deferred') \<Longrightarrow>
    keys rp \<inter> set order \<union> set batch \<union> set remaining \<subseteq> set batch' \<union> set remaining'"
proof (induction rp now max_batch order inflight batch remaining deferred rule: retry_select.induct)
  case (2 rp now max_batch sid order inflight batch remaining deferred)
  show ?case
  proof (cases "map_of rp sid")
    case None
    then have "sid \<notin> keys rp" by (simp add: map_of_eq_None_iff)
    with 2(1) [OF None] "2.prems" None show ?thesis by auto
  next
    case (Some q)
    consider (wait) "sid \<in> set inflight" | (later) "sid \<notin> set inflight" "now < ql_next_retry_ms q"
      | (full) "sid \<notin> set inflight" "\<not> now < ql_next_retry_ms q" "max_batch \<le> length batch"
      | (take) "sid \<notin> set inflight" "\<not> now < ql_next_retry_ms q" "\<not> max_batch \<le> length batch" by blast
    then show ?thesis
    proof cases
      case wait
      with "2.IH"(2) [OF Some] "2.prems" Some show ?thesis by auto
    next
      case later
      with "2.IH"(3) [OF Some] "2.prems" Some show ?thesis by auto
    next
      case full
      with "2.prems" Some have "batch' = batch"
        and "remaining' = remaining @ sid # filter (\<lambda>sid. sid \<in> keys rp) order" by (simp_all add: Let_def)
      then show ?thesis by (simp only: set_append list.set set_filter) blast
    next
      case take
      with "2.IH"(4) [OF Some] "2.prems" Some show ?thesis by auto
    qed
  qed
qed simp

lemma retry_begin_queued:
  assumes q: "queued p bs" and r: "retry_begin p now max_batch = (p', r)"
  shows "case r of Inl _ \<Rightarrow> queued p' bs | Inr plan \<Rightarrow> queued p' (retry_batch plan @ bs)"
proof (cases "ap_has_store p")
  case True
  obtain inflight batch remaining deferred where sel: "retry_select (ap_release_pending p) now max_batch
      (ap_release_order p) (ap_inflight p) [] [] 0 = (inflight, batch, remaining, deferred)"
    by (metis prod_cases4)
  have cover: "keys (ap_release_pending p) \<subseteq> set remaining \<union> set (batch @ bs)"
    using retry_select_covers [OF sel] q unfolding queued_def by auto
  let ?p = "p\<lparr>ap_inflight := inflight, ap_release_order := remaining\<rparr>"
  have "queued ?p (batch @ bs)" using cover by (simp add: queued_def)
  moreover have "(p', r) = (let p = if deferred \<noteq> 0 then pool_add pm_release_retry_deferred_update deferred ?p else ?p
      in if batch = [] then (p, Inl (Retried (length (ap_release_pending p)))) else (p, Inr (PlanRetry batch now)))"
    using r sel True by (simp add: retry_begin_def Let_def)
  ultimately show ?thesis by (auto simp: Let_def split: if_split_asm)
qed (use q r in \<open>auto simp: retry_begin_def\<close>)

lemma retry_settle_queued:
  assumes q: "queued p (sid # bs)" and ok: "hm_ok (ap_release_pending p)"
  shows "queued (fst (retry_settle now sid b p n)) bs" and "hm_ok (ap_release_pending (fst (retry_settle now sid b p n)))"
proof -
  show "queued (fst (retry_settle now sid b p n)) bs"
  proof (cases "map_of (ap_release_pending p) sid")
    case None
    then have "sid \<notin> keys (ap_release_pending p)" by (simp add: map_of_eq_None_iff)
    with q None show ?thesis by (cases b) (auto simp: queued_def retry_settle_def Let_def)
  next
    case (Some e)
    then have "sid \<in> keys (ap_release_pending p)" by (force dest: map_of_SomeD)
    with q ok Some show ?thesis
      by (cases b) (auto simp: queued_def retry_settle_def Let_def hm.keys_ins set_kt_remove)
  qed
  show "hm_ok (ap_release_pending (fst (retry_settle now sid b p n)))"
    using ok by (auto simp: retry_settle_def Let_def hm.ok_remove hm.ok_ins split: option.splits)
qed

lemma retry_settle_all_queued:
  "queued p (map fst results @ bs) \<Longrightarrow> hm_ok (ap_release_pending p) \<Longrightarrow> queued (fst (retry_settle_all now results p n)) bs"
proof (induction results arbitrary: p n)
  case (Cons x results)
  obtain sid ok where x: "x = (sid, ok)" by (cases x)
  from Cons.prems(1) have "queued p (sid # map fst results @ bs)" by (simp add: x)
  from retry_settle_queued [OF this Cons.prems(2)] show ?case by (simp add: x case_prod_beta Cons.IH)
qed simp

lemma plan_finish_queued:
  assumes "queued p (retry_batch plan @ bs)" and "pool_ok {} p (plan_sessions plan @ b) (plan_held plan @ h) []"
    and "length answers = length (plan_calls plan)"
  shows "queued (fst (plan_finish p plan answers)) bs"
proof (cases plan)
  case (PlanRetry batch now)
  with assms have "queued p (map fst (zip batch answers) @ bs)" by simp
  from retry_settle_all_queued [OF this pool_okD(4) [OF assms(2)]]
  show ?thesis by (simp add: PlanRetry retry_finish_def case_prod_beta Let_def)
next
  case (PlanSweep batch now)
  with assms show ?thesis by (simp add: sweep_finish_def sweep_settle_all_queued)
qed (use assms in \<open>simp_all add: finishes_queued pool_okD(4) [OF assms(2)]\<close>)

text \<open>The first phases, with the batch that a retry takes over.\<close>

definition begun_queued :: "begun \<Rightarrow> session_id list \<Rightarrow> bool" where
  "begun_queued b bs \<longleftrightarrow>
     (case b of (p, Inl answer) \<Rightarrow> queued p bs | (p, Inr plan) \<Rightarrow> queued p (retry_batch plan @ bs))"

lemma begun_queued_simple:
  "queued (fst b) bs \<Longrightarrow> (\<And>plan. snd b = Inr plan \<Longrightarrow> retry_batch plan = []) \<Longrightarrow> begun_queued b bs"
  by (cases b) (auto simp: begun_queued_def split: sum.splits)

lemma begins_begun_queued:
  assumes "queued p bs"
  shows "begun_queued (reserve_begin p sid did tm) bs" and "begun_queued (commit_begin p sid tm) bs"
    and "begun_queued (release_begin p sid now) bs" and "begun_queued (renew_begin p sid tm) bs"
    and "begun_queued (sweep_begin p now) bs" and "begun_queued (retry_begin p now max_batch) bs"
proof -
  show "begun_queued (reserve_begin p sid did tm) bs"
    by (rule begun_queued_simple [OF begins_queued(1) [OF assms]])
      (auto simp: reserve_begin_def reserve_new_def split: option.splits sum.splits prod.splits if_split_asm)
  show "begun_queued (commit_begin p sid tm) bs"
    by (rule begun_queued_simple [OF begins_queued(2) [OF assms]])
      (auto simp: commit_begin_def Let_def split: option.splits if_split_asm)
  show "begun_queued (release_begin p sid now) bs"
    by (rule begun_queued_simple [OF begins_queued(3) [OF assms]])
      (auto simp: release_begin_def split: option.splits prod.splits if_split_asm)
  show "begun_queued (renew_begin p sid tm) bs"
    by (rule begun_queued_simple [OF begins_queued(4) [OF assms]])
      (auto simp: renew_begin_def split: option.splits if_split_asm)
  show "begun_queued (sweep_begin p now) bs"
    by (rule begun_queued_simple [OF sweep_begin_queued [OF assms]])
      (auto simp: sweep_begin_def Let_def case_prod_beta)
  show "begun_queued (retry_begin p now max_batch) bs"
    using retry_begin_queued [OF assms] by (auto simp: begun_queued_def split: prod.splits)
qed

lemma queued_retried: "queued p (retried (running @ [plan])) \<longleftrightarrow> queued p (retry_batch plan @ retried running)"
  by (simp add: queued_def retried_def Un_ac)

lemma begun_step_queued:
  "begun_queued b (retried (py_running s)) \<Longrightarrow> begun_step s b = (t, out) \<Longrightarrow>
    queued (py_pool t) (retried (py_running t))"
  by (auto simp: begun_queued_def begun_step_def queued_retried split: prod.splits sum.splits)

lemma order_inv_exec:
  assumes inv: "order_inv s" and step: "pool_exec s e = (t, out)"
  shows "order_inv t"
proof -
  have pool: "pool_inv s" and q: "queued (py_pool s) (retried (py_running s))"
    using inv by (simp_all add: order_inv_def)
  have ok: "pool_ok {} (py_pool s) (busy (py_running s)) (held (py_running s)) []"
    using pool by (simp add: pool_inv_on_def)
  note begun = begins_begun_queued [OF q, THEN begun_step_queued]
  have "queued (py_pool t) (retried (py_running t))"
  proof (cases e)
    case (PoDeferred sid)
    with step deferred_queued [OF q pool_okD(4) [OF ok], of sid] show ?thesis by (auto split: prod.splits)
  next
    case (PoFinish i answers)
    show ?thesis
    proof (cases "i < length (py_running s) \<and> length answers = length (plan_calls (py_running s ! i))")
      case True
      let ?a = "take i (py_running s)" and ?b = "drop (Suc i) (py_running s)" and ?plan = "py_running s ! i"
      have run: "py_running s = ?a @ ?plan # ?b" using True by (simp add: id_take_nth_drop)
      have "set (retried (py_running s)) = set (retry_batch ?plan @ retried (?a @ ?b))"
        by (subst run) (auto simp: retried_def)
      with q have "queued (py_pool s) (retry_batch ?plan @ retried (?a @ ?b))" by (simp add: queued_def)
      moreover have "mset (busy (py_running s)) = mset (plan_sessions ?plan @ busy (?a @ ?b))"
        and "mset (held (py_running s)) = mset (plan_held ?plan @ held (?a @ ?b))"
        by (subst run, simp add: busy_def held_def)+
      from pool_ok_perm [OF ok this, of "[]"]
      have "pool_ok {} (py_pool s) (plan_sessions ?plan @ busy (?a @ ?b)) (plan_held ?plan @ held (?a @ ?b)) []" by simp
      ultimately have "queued (fst (plan_finish (py_pool s) ?plan answers)) (retried (?a @ ?b))"
        using plan_finish_queued True by blast
      with True step PoFinish show ?thesis by (auto simp: case_prod_beta)
    qed (use step PoFinish q in \<open>auto split: if_split_asm\<close>)
  qed (use step begun in simp_all)
  then show ?thesis using pool.inv_exec [OF pool step] by (simp add: order_inv_def)
qed

interpretation order: keeps_invariant pool_exec order_inv
  by unfold_locales (rule order_inv_exec)

lemma recover_insert_queued:
  "queued p bs \<Longrightarrow> hm_ok (ap_release_pending p) \<Longrightarrow> queued (recover_insert p l now) bs"
  by (auto simp: recover_insert_def Let_def queued_def hm.keys_ins split: lease_state.splits)

lemma recover_insert_hm: "hm_ok (ap_release_pending p) \<Longrightarrow> hm_ok (ap_release_pending (recover_insert p l now))"
  by (auto simp: recover_insert_def Let_def hm.ok_ins split: lease_state.splits)

lemma recover_loop_queued:
  "queued p bs \<Longrightarrow> hm_ok (ap_release_pending p) \<Longrightarrow> queued (fst (recover_loop now ls ss v4 v6 p)) bs"
  by (induction now ls ss v4 v6 p rule: recover_loop.induct)
    (auto simp: case_prod_beta Let_def recover_insert_queued recover_insert_hm)

lemma recover_quarantine_queued:
  "queued p bs \<Longrightarrow> pool_ok {} p [] [] [] \<Longrightarrow> recover_quarantine now ls p = Inr q \<Longrightarrow> queued q bs"
proof (induction now ls p rule: recover_quarantine.induct)
  case (2 now l ls p)
  obtain r res where e: "enqueue_release_locked p (l\<lparr>pl_state := LReleasePending\<rparr>) now = (r, res)" by fastforce
  from queued_enqueue' [OF "2.prems"(1) pool_okD(4) [OF "2.prems"(2)] e] enqueue_keeps [OF "2.prems"(2) e] 2 e
  show ?case by (cases res) simp_all
qed simp

lemma pool_with_store_queued:
  assumes c: "pool_config_ok c" and p: "pool_with_store c loaded now answers = Inr p"
  shows "queued p bs"
proof -
  let ?n = "(pool_new c)\<lparr>ap_has_store := True\<rparr>"
  have new: "queued (pool_add k n ?n) bs" "hm_ok (ap_release_pending (pool_add k n ?n))" for k n
    by (simp_all add: queued_def pool_new_def hm.ok_Nil)
  obtain persisted where "pool_recover ?n persisted now answers = Inr p"
    using p by (auto simp: pool_with_store_def split: option.splits if_split_asm)
  then obtain ls k n failed where "recover_quarantine (tm_monotonic_ms now) failed
      (fst (recover_loop now ls [] [] [] (pool_add k n ?n))) = Inr p"
    unfolding pool_recover_def Let_def case_prod_beta by blast
  then show ?thesis
    by (rule recover_quarantine_queued [OF recover_loop_queued [OF new], rotated])
      (simp add: recover_loop_ok pool_new_ok [OF c])
qed

lemma pool_reachable_order: "pool_reachable s \<Longrightarrow> order_inv s"
proof (induction rule: pool_reachable.induct)
  case (ephemeral c tr s)
  have "pool_inv \<lparr>py_pool = pool_new c, py_running = []\<rparr>"
    using pool_reachable_inv [OF pool_reachable.ephemeral [OF ephemeral(1), of "[]"]] by simp
  then show ?case by (intro order.inv_trace [OF ephemeral(2)]) (simp add: order_inv_def queued_def pool_new_def)
next
  case (recovered c loaded now answers p tr s)
  have "pool_inv \<lparr>py_pool = p, py_running = []\<rparr>"
    using pool_reachable_inv [OF pool_reachable.recovered [OF recovered(1,2), of "[]"]] by simp
  with pool_with_store_queued [OF recovered(1,2)] show ?case
    by (intro order.inv_trace [OF recovered(3)]) (simp add: order_inv_def)
qed

section \<open>A retry empties the quarantine\<close>

lemma retry_select_fills:
  "retry_select rp now max_batch order inflight batch remaining deferred = (inflight', batch', remaining', deferred') \<Longrightarrow>
    \<forall>(sid, q) \<in> set rp. ql_next_retry_ms q \<le> now \<Longrightarrow> set inflight \<subseteq> set batch \<Longrightarrow>
    max_batch \<le> length batch' \<or> keys rp \<inter> set order \<union> set batch \<subseteq> set batch'"
proof (induction rp now max_batch order inflight batch remaining deferred rule: retry_select.induct)
  case (2 rp now max_batch sid order inflight batch remaining deferred)
  show ?case
  proof (cases "map_of rp sid")
    case None
    then have "sid \<notin> keys rp" by (simp add: map_of_eq_None_iff)
    with 2(1) [OF None] "2.prems" None show ?thesis by auto
  next
    case (Some q)
    then have due: "\<not> now < ql_next_retry_ms q" using "2.prems"(2) by (force dest: map_of_SomeD)
    consider (wait) "sid \<in> set inflight" | (full) "sid \<notin> set inflight" "max_batch \<le> length batch"
      | (take) "sid \<notin> set inflight" "\<not> max_batch \<le> length batch" by blast
    then show ?thesis
    proof cases
      case wait
      with "2.IH"(2) [OF Some] "2.prems" Some show ?thesis by auto
    next
      case full
      with "2.prems" Some due show ?thesis by (simp add: Let_def)
    next
      case take
      from take "2.prems"(1) Some due have "retry_select rp now max_batch order (List.insert sid inflight) (batch @ [sid]) remaining deferred
          = (inflight', batch', remaining', deferred')" by simp
      from "2.IH"(4) [OF Some take(1) due take(2) this "2.prems"(2)] "2.prems"(3) show ?thesis by auto
    qed
  qed
qed simp

lemma retry_settle_all_acknowledged:
  "ap_release_pending (fst (retry_settle_all now (map (\<lambda>sid. (sid, True)) batch) p n))
    = filter (\<lambda>e. fst e \<notin> set batch) (ap_release_pending p)"
proof (induction batch arbitrary: p n)
  case (Cons sid batch)
  have "kt_remove sid (ap_release_pending p) = ap_release_pending p" if "sid \<notin> keys (ap_release_pending p)"
    using that by (force simp: kt_remove_def intro: filter_True)
  then have "ap_release_pending (fst (retry_settle now sid True p n)) = kt_remove sid (ap_release_pending p)"
    by (simp add: retry_settle_def Let_def)
  then show ?case by (simp add: case_prod_beta Cons.IH kt_remove_def conj_commute)
qed simp

text \<open>A retry with nothing else running, whose deletes the store acknowledges.\<close>

definition retry_round :: "u64 \<Rightarrow> nat \<Rightarrow> address_pool \<Rightarrow> address_pool" where
  "retry_round now max_batch p =
     (case retry_begin p now max_batch of
        (p, Inl answer) \<Rightarrow> p
      | (p, Inr plan) \<Rightarrow> fst (plan_finish p plan (map (\<lambda>call. True) (plan_calls plan))))"

definition all_due :: "u64 \<Rightarrow> address_pool \<Rightarrow> bool" where
  "all_due now p \<longleftrightarrow> (\<forall>(sid, q) \<in> set (ap_release_pending p). ql_next_retry_ms q \<le> now)"

lemma zip_trues: "zip xs (map (\<lambda>x. True) xs) = map (\<lambda>x. (x, True)) xs"
  by (induction xs) simp_all

lemma retry_settle_all_rest:
  "ap_inflight (fst (retry_settle_all now (map (\<lambda>sid. (sid, True)) batch) p n))
    = filter (\<lambda>sid. sid \<notin> set batch) (ap_inflight p)"
  "ap_has_store (fst (retry_settle_all now (map (\<lambda>sid. (sid, True)) batch) p n)) = ap_has_store p"
proof (induction batch arbitrary: p n)
  case (Cons sid batch)
  case 1
  show ?case by (simp add: retry_settle_def Let_def case_prod_beta Cons.IH removeAll_filter_not_eq conj_commute eq_commute)
  case 2
  show ?case by (simp add: retry_settle_def Let_def case_prod_beta Cons.IH)
qed simp_all

lemma length_without:
  assumes "hm_ok m" and "distinct ks" and "set ks \<subseteq> keys m"
  shows "length (filter (\<lambda>e. fst e \<notin> set ks) m) = length m - length ks"
proof -
  have d: "distinct (map fst m)" using assms(1) by (simp add: hm_ok_def)
  have "set (map fst (filter (\<lambda>e. fst e \<in> set ks) m)) = set ks" using assms(3) by auto
  moreover have "distinct (map fst (filter (\<lambda>e. fst e \<in> set ks) m))" using d by (rule distinct_map_filter)
  ultimately have "length (filter (\<lambda>e. fst e \<in> set ks) m) = length ks"
    using assms(2) by (metis distinct_card length_map)
  then show ?thesis using sum_length_filter_compl [of "\<lambda>e. fst e \<in> set ks" m] by linarith
qed

lemma retry_round_shrinks:
  assumes store: "ap_has_store p" and idle: "ap_inflight p = []" and q: "queued p []" and hm: "hm_ok (ap_release_pending p)"
    and due: "all_due now p" and r: "r = retry_round now max_batch p"
  shows "ap_has_store r \<and> ap_inflight r = [] \<and> queued r [] \<and> hm_ok (ap_release_pending r) \<and> all_due now r
    \<and> length (ap_release_pending r) \<le> length (ap_release_pending p) - max_batch"
proof -
  let ?rp = "ap_release_pending p"
  obtain inflight batch remaining deferred where sel: "retry_select ?rp now max_batch
      (ap_release_order p) (ap_inflight p) [] [] 0 = (inflight, batch, remaining, deferred)"
    by (metis prod_cases4)
  from retry_select_batch [OF sel] idle
  have batch: "distinct batch" "set batch \<subseteq> keys ?rp" "set inflight = set batch" by auto
  have fills: "max_batch \<le> length batch \<or> keys ?rp \<subseteq> set batch"
    using retry_select_fills [OF sel] due q by (auto simp: idle all_due_def queued_def)
  let ?p = "p\<lparr>ap_inflight := inflight, ap_release_order := remaining\<rparr>"
  define p' where "p' = (if deferred \<noteq> 0 then pool_add pm_release_retry_deferred_update deferred ?p else ?p)"
  have p': "ap_release_pending p' = ?rp" "ap_inflight p' = inflight" "ap_has_store p'" "queued p' batch"
    using retry_select_covers [OF sel] q store by (auto simp: p'_def queued_def)
  show ?thesis
  proof (cases "batch = []")
    case True
    then have "r = p'" using r sel store by (simp add: retry_round_def retry_begin_def Let_def p'_def)
    moreover have "inflight = []" using batch(3) True by simp
    moreover have "length ?rp \<le> length ?rp - max_batch" using fills True by auto
    ultimately show ?thesis using p' hm due True by (simp add: all_due_def)
  next
    case False
    let ?s = "retry_settle_all now (map (\<lambda>sid. (sid, True)) batch) p' 0"
    have r': "r = (if snd ?s \<noteq> 0 then pool_add pm_release_retries_update (snd ?s) (fst ?s) else fst ?s)"
      using r sel store False
      by (simp add: retry_round_def retry_begin_def retry_finish_def Let_def p'_def case_prod_beta comp_def zip_trues)
    have rest: "ap_release_pending r = filter (\<lambda>e. fst e \<notin> set batch) ?rp"
      by (simp add: r' retry_settle_all_acknowledged p')
    have "length (ap_release_pending r) \<le> length ?rp - max_batch"
    proof (cases "max_batch \<le> length batch")
      case True
      with length_without [OF hm batch(1,2)] show ?thesis by (simp add: rest)
    next
      case False
      then have "filter (\<lambda>e. fst e \<notin> set batch) ?rp = []" using fills by (auto simp: filter_empty_conv)
      then show ?thesis by (simp add: rest)
    qed
    moreover have "ap_inflight r = []" by (simp add: r' retry_settle_all_rest p' batch(3) filter_empty_conv)
    moreover have "queued r []"
      using retry_settle_all_queued [of p' "map (\<lambda>sid. (sid, True)) batch" "[]"] p' hm by (simp add: r' comp_def)
    moreover have "hm_ok (ap_release_pending r)" unfolding rest using hm by (simp add: hm_ok_def distinct_map_filter)
    moreover have "all_due now r" using due by (auto simp: all_due_def rest)
    ultimately show ?thesis by (simp add: r' retry_settle_all_rest p')
  qed
qed

lemma retry_rounds_drain:
  "ap_has_store p \<Longrightarrow> ap_inflight p = [] \<Longrightarrow> queued p [] \<Longrightarrow> hm_ok (ap_release_pending p) \<Longrightarrow> all_due now p \<Longrightarrow>
    length (ap_release_pending p) \<le> n * max_batch \<Longrightarrow> ap_release_pending ((retry_round now max_batch ^^ n) p) = []"
proof (induction n arbitrary: p)
  case (Suc n)
  note step = retry_round_shrinks [OF Suc.prems(1-5) refl, of max_batch]
  have "x \<le> b" if "x \<le> a - c" "a \<le> c + b" for x a b c :: nat using that by linarith
  then have "length (ap_release_pending (retry_round now max_batch p)) \<le> n * max_batch"
    using step Suc.prems(6) by (metis mult_Suc)
  with Suc.IH step show ?case by (simp add: funpow_Suc_right del: funpow.simps)
qed simp

section \<open>An entry stays until its delete\<close>

definition same_grant :: "release_pending_lease \<Rightarrow> release_pending_lease \<Rightarrow> bool" where
  "same_grant entry k \<longleftrightarrow> ql_device_id k = ql_device_id entry \<and> ql_addresses k = ql_addresses entry
     \<and> ql_expires_at_ms k = ql_expires_at_ms entry"

definition keeps_entry :: "address_pool \<Rightarrow> session_id \<Rightarrow> release_pending_lease \<Rightarrow> bool" where
  "keeps_entry p q entry \<longleftrightarrow> (\<exists>k. map_of (ap_release_pending p) q = Some k \<and> same_grant entry k)"

lemma keeps_entry_cong:
  "ap_release_pending p' = ap_release_pending p \<Longrightarrow> keeps_entry p' q entry = keeps_entry p q entry"
  by (simp add: keeps_entry_def)

lemma enqueue_keeps_entry: "keeps_entry p q entry \<Longrightarrow> keeps_entry (fst (enqueue_release_locked p l now)) q entry"
  by (auto simp: keeps_entry_def enqueue_release_locked_def map_of_hm_insert map_of_eq_None_iff [symmetric])

lemma enqueue_keeps_entry':
  "enqueue_release_locked p l now = (p', r) \<Longrightarrow> keeps_entry p q entry \<Longrightarrow> keeps_entry p' q entry"
  using enqueue_keeps_entry [of p q entry l now] by simp

lemma reserve_new_rp: "ap_release_pending (fst (reserve_new p sid did tm)) = ap_release_pending p"
proof -
  obtain p' r where a: "allocate_locked p = (p', r)" by fastforce
  from a show ?thesis by (cases rule: allocate_locked_cases) (use a in \<open>simp_all add: reserve_new_def\<close>)
qed

lemma sweeps_rp:
  "ap_release_pending (fst (sweep_pending ids p)) = ap_release_pending p"
  "ap_release_pending (fst (sweep_active ids p)) = ap_release_pending p"
  by (induction ids arbitrary: p) (simp_all add: Let_def case_prod_beta split: option.splits)

lemma begins_rp:
  "ap_release_pending (fst (reserve_begin p sid did tm)) = ap_release_pending p"
  "ap_release_pending (fst (commit_begin p sid tm)) = ap_release_pending p"
  "ap_release_pending (fst (release_begin p sid now)) = ap_release_pending p"
  "ap_release_pending (fst (renew_begin p sid tm)) = ap_release_pending p"
  "ap_release_pending (fst (sweep_begin p now)) = ap_release_pending p"
  "ap_release_pending (fst (retry_begin p now max_batch)) = ap_release_pending p"
proof -
  show "ap_release_pending (fst (reserve_begin p sid did tm)) = ap_release_pending p"
    by (simp add: reserve_begin_def reserve_new_rp split: option.split)
  show "ap_release_pending (fst (commit_begin p sid tm)) = ap_release_pending p"
    by (simp add: commit_begin_def Let_def split: option.split)
  show "ap_release_pending (fst (release_begin p sid now)) = ap_release_pending p"
    using take_lease_rp [of p sid] by (auto simp: release_begin_def split: option.split prod.split)
  show "ap_release_pending (fst (renew_begin p sid tm)) = ap_release_pending p"
    by (simp add: renew_begin_def split: option.split)
  show "ap_release_pending (fst (sweep_begin p now)) = ap_release_pending p"
    by (simp add: sweep_begin_def Let_def case_prod_beta sweeps_rp)
  show "ap_release_pending (fst (retry_begin p now max_batch)) = ap_release_pending p"
    by (simp add: retry_begin_def Let_def case_prod_beta)
qed

lemma deferred_keeps_entry:
  assumes "keeps_entry p q entry"
  shows "keeps_entry (fst (release_deferred p sid)) q entry"
proof -
  obtain p' r where t: "take_lease p sid = (p', r)" by fastforce
  have "keeps_entry p' q entry" using take_lease_rp [of p sid] t assms by (simp add: keeps_entry_def)
  with assms t show ?thesis
    by (auto simp: release_deferred_def keeps_entry_cong [of "_\<lparr>ap_active := _\<rparr>"] keeps_entry_cong [of "pool_count _ _"]
      split: option.split prod.split sum.split dest: enqueue_keeps_entry')
qed

lemma sweep_settle_keeps_entry:
  assumes "keeps_entry p q entry"
  shows "keeps_entry (sweep_settle now e ok p) q entry"
proof -
  have "keeps_entry (unpark (ex_id e) (ex_addresses e) p) q entry" using assms by (simp add: keeps_entry_def)
  then show ?thesis
    by (auto simp: sweep_settle_def Let_def keeps_entry_cong [of "_\<lparr>ap_active := _\<rparr>"] keeps_entry_cong [of "_\<lparr>ap_pending := _\<rparr>"]
      keeps_entry_cong [of "pool_count _ _"] split: prod.split sum.split dest: enqueue_keeps_entry')
qed

lemma sweep_settle_all_keeps_entry:
  "keeps_entry p q entry \<Longrightarrow> keeps_entry (sweep_settle_all now results batch p) q entry"
  by (induction batch arbitrary: p) (simp_all add: sweep_settle_keeps_entry)

text \<open>A retry changes the number of attempts of an entry, or drops it when the delete was acknowledged.\<close>

lemma retry_settle_keeps_entry:
  "keeps_entry p q entry \<Longrightarrow> sid \<noteq> q \<or> \<not> ok \<Longrightarrow> keeps_entry (fst (retry_settle now sid ok p n)) q entry"
  by (auto simp: keeps_entry_def retry_settle_def Let_def map_of_hm_insert map_of_remove same_grant_def split: option.split)

lemma retry_settle_all_keeps_entry:
  "keeps_entry p q entry \<Longrightarrow> (q, True) \<notin> set results \<Longrightarrow> keeps_entry (fst (retry_settle_all now results p n)) q entry"
proof (induction results arbitrary: p n)
  case (Cons x results)
  obtain sid ok where x: "x = (sid, ok)" by (cases x)
  have "keeps_entry (fst (retry_settle now sid ok p n)) q entry"
    by (rule retry_settle_keeps_entry [OF Cons.prems(1)]) (use Cons.prems(2) x in auto)
  from Cons.IH [OF this] Cons.prems(2) show ?case by (simp add: x case_prod_beta)
qed simp

lemma plan_finish_keeps_entry:
  assumes k: "keeps_entry p q entry" and no: "\<And>batch now. plan = PlanRetry batch now \<Longrightarrow> (q, True) \<notin> set (zip batch answers)"
  shows "keeps_entry (fst (plan_finish p plan answers)) q entry"
proof -
  note same = keeps_entry_cong [of "_\<lparr>ap_active := _\<rparr>"] keeps_entry_cong [of "_\<lparr>ap_pending := _\<rparr>"]
    keeps_entry_cong [of "_\<lparr>ap_inflight := _\<rparr>"] keeps_entry_cong [of "pool_count _ _"] keeps_entry_cong [of "unpark _ _ _"]
  show ?thesis
  proof (cases plan)
    case (PlanReserve sid did a e wall)
    then show ?thesis using k by (simp add: reserve_finish_def Let_def same)
  next
    case (PlanPromote sid did a e e' wall)
    then show ?thesis using k by (simp add: promote_finish_def Let_def same)
  next
    case (PlanExpire sid did a e now)
    have "keeps_entry (pool_count pm_pending_expired_update (unpark sid a p)) q entry" using k by (simp add: same)
    with PlanExpire show ?thesis
      by (auto simp: expire_finish_def Let_def same split: prod.split sum.split dest: enqueue_keeps_entry')
  next
    case (PlanRelease sid did a e now)
    have "keeps_entry (unpark sid a p) q entry" using k by (simp add: same)
    with PlanRelease show ?thesis
      by (auto simp: release_finish_def Let_def same split: prod.split sum.split dest: enqueue_keeps_entry')
  next
    case (PlanRenew sid did a e wall)
    then show ?thesis using k by (simp add: renew_finish_def Let_def same split: option.split)
  next
    case (PlanSweep batch now)
    then show ?thesis using k by (simp add: sweep_finish_def sweep_settle_all_keeps_entry)
  next
    case (PlanRetry batch now)
    from retry_settle_all_keeps_entry [OF k no [OF PlanRetry]] PlanRetry show ?thesis
      by (auto simp: retry_finish_def Let_def case_prod_beta keeps_entry_cong [of "pool_add _ _ _"])
  qed
qed

lemma begun_keeps_entry:
  "ap_release_pending (fst b) = ap_release_pending (py_pool s) \<Longrightarrow> begun_step s b = (t, out) \<Longrightarrow>
    keeps_entry (py_pool t) q entry = keeps_entry (py_pool s) q entry"
  by (auto simp: begun_step_def keeps_entry_def split: prod.splits sum.splits)

lemma exec_keeps_entry:
  assumes k: "keeps_entry (py_pool s) q entry" and step: "pool_exec s e = (t, out)" and no: "\<not> deletes s e q"
  shows "keeps_entry (py_pool t) q entry"
proof (cases e)
  case (PoDeferred sid)
  with deferred_keeps_entry [OF k, of sid] step show ?thesis by (auto split: prod.splits)
next
  case (PoFinish i answers)
  show ?thesis
  proof (cases "i < length (py_running s) \<and> length answers = length (plan_calls (py_running s ! i))")
    case True
    have "keeps_entry (fst (plan_finish (py_pool s) (py_running s ! i) answers)) q entry"
      by (rule plan_finish_keeps_entry [OF k]) (use no True PoFinish in \<open>simp add: deletes_def\<close>)
    with True step PoFinish show ?thesis by (auto simp: case_prod_beta)
  qed (use step PoFinish k in \<open>auto split: if_split_asm\<close>)
qed (use step k begun_keeps_entry begins_rp in \<open>simp_all, metis+\<close>)

interpretation entry: keeps_unless pool_exec "\<lambda>s. keeps_entry (py_pool s) q entry" "\<lambda>s e. deletes s e q" for q entry
  by unfold_locales (rule exec_keeps_entry)

text \<open>Whatever the store answers, the operations under way can be finished one after the other.\<close>

lemma finish_all:
  "\<exists>finishes u. trace pool_exec t finishes u \<and> py_running u = []
    \<and> (\<forall>x \<in> set finishes. \<exists>plan answer. x = (PoFinish 0 (map store (plan_calls plan)), Answered answer))"
proof (induction "py_running t" arbitrary: t)
  case Nil
  then show ?case by (metis trace.stop empty_iff list.set(1))
next
  case (Cons plan running)
  let ?x = "PoFinish 0 (map store (plan_calls plan))"
  have plan: "py_running t = plan # running" using Cons.hyps(2) by simp
  obtain p answer where "plan_finish (py_pool t) plan (map store (plan_calls plan)) = (p, answer)" by fastforce
  then have step: "pool_exec t ?x = (\<lparr>py_pool = p, py_running = running\<rparr>, Answered answer)" by (simp add: plan)
  from Cons.hyps(1) [of "\<lparr>py_pool = p, py_running = running\<rparr>"] obtain finishes u where
    tr: "trace pool_exec \<lparr>py_pool = p, py_running = running\<rparr> finishes u" "py_running u = []"
    and only: "\<forall>x \<in> set finishes. \<exists>plan answer. x = (PoFinish 0 (map store (plan_calls plan)), Answered answer)" by auto
  have "trace pool_exec t ((?x, Answered answer) # finishes) u" using step tr(1) by (rule trace.go)
  moreover have "\<forall>x \<in> set ((?x, Answered answer) # finishes).
      \<exists>plan answer. x = (PoFinish 0 (map store (plan_calls plan)), Answered answer)" using only by auto
  ultimately show ?case using tr(2) by blast
qed

text \<open>C14. The quarantine forgets nothing and drains. Along any run, whatever the store answers, an entry
  of the quarantine stays with its device, its addresses and its expiry until a retry deletes that
  very session's record from the store. From any state on the way the operations under way can be
  finished, again whatever the store answers; and then, once the retry deadlines have passed and the
  store acknowledges deletes, as many retries as it takes to cover the quarantine by batches leave
  it empty.\<close>

theorem quarantine_drains:
  assumes "pool_reachable s" and "trace pool_exec s tr t"
  shows "(\<forall>q entry. map_of (ap_release_pending (py_pool s)) q = Some entry \<longrightarrow>
      (\<exists>k. map_of (ap_release_pending (py_pool t)) q = Some k \<and> ql_device_id k = ql_device_id entry
        \<and> ql_addresses k = ql_addresses entry \<and> ql_expires_at_ms k = ql_expires_at_ms entry)
      \<or> (\<exists>before e out after u. tr = before @ (e, out) # after \<and> trace pool_exec s before u \<and> deletes u e q))
    \<and> (\<forall>store. \<exists>finishes u. trace pool_exec t finishes u \<and> py_running u = []
      \<and> (\<forall>x \<in> set finishes. \<exists>plan answer. x = (PoFinish 0 (map store (plan_calls plan)), Answered answer))
      \<and> (\<forall>now max_batch rounds. ap_has_store (py_pool u) \<and> all_due now (py_pool u)
          \<and> length (ap_release_pending (py_pool u)) \<le> rounds * max_batch
          \<longrightarrow> ap_release_pending ((retry_round now max_batch ^^ rounds) (py_pool u)) = []))"
proof (intro conjI allI impI)
  fix q entry
  assume "map_of (ap_release_pending (py_pool s)) q = Some entry"
  then have "keeps_entry (py_pool s) q entry" by (simp add: keeps_entry_def same_grant_def)
  from entry.unless_trace [OF assms(2) this]
  show "(\<exists>k. map_of (ap_release_pending (py_pool t)) q = Some k \<and> ql_device_id k = ql_device_id entry
        \<and> ql_addresses k = ql_addresses entry \<and> ql_expires_at_ms k = ql_expires_at_ms entry)
      \<or> (\<exists>before e out after u. tr = before @ (e, out) # after \<and> trace pool_exec s before u \<and> deletes u e q)"
    by (auto simp: keeps_entry_def same_grant_def)
next
  fix store
  obtain finishes u where tr: "trace pool_exec t finishes u" "py_running u = []"
    and only: "\<forall>x \<in> set finishes. \<exists>plan answer. x = (PoFinish 0 (map store (plan_calls plan)), Answered answer)"
    using finish_all [of t store] by blast
  have inv: "order_inv u"
    using order.inv_trace [OF tr(1) order.inv_trace [OF assms(2) pool_reachable_order [OF assms(1)]]] .
  then have ok: "pool_ok {} (py_pool u) [] [] []" and q: "queued (py_pool u) []"
    using tr(2) by (simp_all add: order_inv_def pool_inv_on_def busy_def held_def retried_def)
  from pool_okD(8) [OF ok] have "ap_inflight (py_pool u) = []" by simp
  note drain = retry_rounds_drain [OF _ this q pool_okD(4) [OF ok]]
  show "\<exists>finishes u. trace pool_exec t finishes u \<and> py_running u = []
      \<and> (\<forall>x \<in> set finishes. \<exists>plan answer. x = (PoFinish 0 (map store (plan_calls plan)), Answered answer))
      \<and> (\<forall>now max_batch rounds. ap_has_store (py_pool u) \<and> all_due now (py_pool u)
          \<and> length (ap_release_pending (py_pool u)) \<le> rounds * max_batch
          \<longrightarrow> ap_release_pending ((retry_round now max_batch ^^ rounds) (py_pool u)) = [])"
    using tr only drain by blast
qed

lemma quarantine_drains_witness:
  "\<exists>s. pool_reachable s \<and> length (ap_release_pending (py_pool s)) = 1
     \<and> ap_release_pending ((retry_round 1000 32 ^^ 1) (py_pool s)) = []"
proof -
  let ?e = "sat_add 10 3600000"
  let ?tr = "[(PoReserve 5 7 (lan_time 0), Parked), (PoFinish 0 [True], Answered (Addresses (Inr (lan_address 3 1))))] @
     [(PoCommit 5 (lan_time 10), Parked), (PoFinish 0 [True], Answered (Addresses (Inr (lan_address 3 1))))] @
     [(PoDeferred 5, Deferred True)]"
  have "\<exists>m. trace pool_exec lan_start ?tr (lan_state [] [] [(5, lan_entry 7 ?e)] m)"
    unfolding trace_append lan_start_state
    by (intro exI conjI, rule lan_reserved, simp, simp, rule lan_committed, rule lan_before(1), rule lan_closed)
  then obtain m where tr: "trace pool_exec lan_start ?tr (lan_state [] [] [(5, lan_entry 7 ?e)] m)" ..
  let ?s = "lan_state [] [] [(5, lan_entry 7 ?e)] m"
  have reach: "pool_reachable ?s" by (rule lan_reachable [OF tr])
  have one: "length (ap_release_pending (py_pool ?s)) = 1" by (simp add: lan_state_def)
  have idle: "py_running ?s = []" by (simp add: lan_state_def)
  have drained: "ap_release_pending ((retry_round 1000 32 ^^ 1) (py_pool u)) = []"
    if "\<forall>now max_batch rounds. ap_has_store (py_pool u) \<and> all_due now (py_pool u)
          \<and> length (ap_release_pending (py_pool u)) \<le> rounds * max_batch
          \<longrightarrow> ap_release_pending ((retry_round now max_batch ^^ rounds) (py_pool u)) = []" and "u = ?s" for u
    by (rule that(1) [rule_format]) (simp add: that(2) lan_state_def all_due_def lan_entry_def)
  obtain finishes u where f: "trace pool_exec ?s finishes u"
    "\<forall>x \<in> set finishes. \<exists>plan answer. x = (PoFinish 0 (map (\<lambda>_. True) (plan_calls plan)), Answered answer)"
    and "ap_release_pending ((retry_round 1000 32 ^^ 1) (py_pool u)) = [] \<or> u \<noteq> ?s"
    using conjunct2 [OF quarantine_drains [OF reach trace.stop], rule_format, of "\<lambda>_. True"] drained by blast
  moreover have "u = ?s"
  proof (cases finishes)
    case (Cons x rest)
    with f obtain plan answer t where "pool_exec ?s (PoFinish 0 (map (\<lambda>_. True) (plan_calls plan))) = (t, Answered answer)"
      by (auto simp: trace_Cons)
    then show ?thesis using idle by simp
  qed (use f(1) in \<open>auto simp: trace_Nil\<close>)
  ultimately have "ap_release_pending ((retry_round 1000 32 ^^ 1) (py_pool ?s)) = []" by simp
  with reach one show ?thesis by blast
qed

end
