(* ===== verification/PoolSweep.thy ===== *)
theory PoolSweep
  imports PoolProps
begin

text \<open>
  A sweep of the lease pool, whatever the store answers to its deletes: every expired lease that no
  other operation has under way is taken out and reported, in order, and a lease whose delete
  failed is quarantined while there is room and back in its own map after that.
\<close>

section \<open>The first phase\<close>

definition ex_lease :: "expired_lease \<Rightarrow> lease" where
  "ex_lease e = \<lparr>le_device_id = ex_device_id e, le_addresses = ex_addresses e, le_expires_at_ms = ex_expires_at_ms e\<rparr>"

lemma filter_outside_Cons:
  "filter (\<lambda>e. fst e \<notin> set ids) (kt_remove sid m) = filter (\<lambda>e. fst e \<noteq> sid \<and> fst e \<notin> set ids) m"
  by (auto simp: kt_remove_def intro: filter_cong)

lemma sweep_pending_result:
  "set ids \<subseteq> keys (ap_pending p) \<Longrightarrow> distinct ids \<Longrightarrow> sweep_pending ids p = (q, batch) \<Longrightarrow>
    map ex_id batch = ids \<and> (\<forall>e \<in> set batch. map_of (ap_pending p) (ex_id e) = Some (ex_lease e) \<and> ex_was_pending e)
    \<and> ap_pending q = filter (\<lambda>e. fst e \<notin> set ids) (ap_pending p)
    \<and> ap_active q = ap_active p \<and> ap_release_pending q = ap_release_pending p \<and> ap_has_store q = ap_has_store p
    \<and> ap_config q = ap_config p"
proof (induction ids arbitrary: p batch)
  case (Cons sid ids)
  then obtain l where l: "map_of (ap_pending p) sid = Some l"
    by (metis list.set_intros(1) map_of_eq_None_iff not_None_eq subsetD)
  let ?p = "park sid (le_addresses l)
    (pool_count pm_pending_expired_update (p\<lparr>ap_pending := kt_remove sid (ap_pending p)\<rparr>))"
  obtain batch' where s: "sweep_pending ids ?p = (q, batch')"
    and batch: "batch = \<lparr>ex_id = sid, ex_device_id = le_device_id l, ex_addresses = le_addresses l,
        ex_expires_at_ms = le_expires_at_ms l, ex_was_pending = True\<rparr> # batch'"
    using Cons.prems(3) l by (auto split: prod.splits)
  have "keys (ap_pending ?p) = keys (ap_pending p) - {sid}" by (auto simp: set_kt_remove)
  then have "set ids \<subseteq> keys (ap_pending ?p)" using Cons.prems(1,2) by auto
  note it = Cons.IH [OF this _ s]
  have "map_of (ap_pending p) (ex_id e) = Some (ex_lease e)" if "map_of (ap_pending ?p) (ex_id e) = Some (ex_lease e)" for e
    using that by (simp add: map_of_remove split: if_split_asm)
  with it l Cons.prems(2) show ?case
    by (simp add: batch filter_outside_Cons ex_lease_def)
qed simp

lemma sweep_active_result:
  "set ids \<subseteq> keys (ap_active p) \<Longrightarrow> distinct ids \<Longrightarrow> sweep_active ids p = (q, batch) \<Longrightarrow>
    map ex_id batch = ids \<and> (\<forall>e \<in> set batch. map_of (ap_active p) (ex_id e) = Some (ex_lease e) \<and> \<not> ex_was_pending e)
    \<and> ap_active q = filter (\<lambda>e. fst e \<notin> set ids) (ap_active p)
    \<and> ap_pending q = ap_pending p \<and> ap_release_pending q = ap_release_pending p \<and> ap_has_store q = ap_has_store p
    \<and> ap_config q = ap_config p"
proof (induction ids arbitrary: p batch)
  case (Cons sid ids)
  then obtain l where l: "map_of (ap_active p) sid = Some l"
    by (metis list.set_intros(1) map_of_eq_None_iff not_None_eq subsetD)
  let ?p = "park sid (le_addresses l)
    (pool_count pm_active_expired_update (p\<lparr>ap_active := kt_remove sid (ap_active p)\<rparr>))"
  obtain batch' where s: "sweep_active ids ?p = (q, batch')"
    and batch: "batch = \<lparr>ex_id = sid, ex_device_id = le_device_id l, ex_addresses = le_addresses l,
        ex_expires_at_ms = le_expires_at_ms l, ex_was_pending = False\<rparr> # batch'"
    using Cons.prems(3) l by (auto split: prod.splits)
  have "keys (ap_active ?p) = keys (ap_active p) - {sid}" by (auto simp: set_kt_remove)
  then have "set ids \<subseteq> keys (ap_active ?p)" using Cons.prems(1,2) by auto
  note it = Cons.IH [OF this _ s]
  have "map_of (ap_active p) (ex_id e) = Some (ex_lease e)" if "map_of (ap_active ?p) (ex_id e) = Some (ex_lease e)" for e
    using that by (simp add: map_of_remove split: if_split_asm)
  with it l Cons.prems(2) show ?case
    by (simp add: batch filter_outside_Cons ex_lease_def)
qed simp

section \<open>The third phase\<close>

text \<open>What a failed delete makes of an expired lease.\<close>

definition ex_entry :: "u64 \<Rightarrow> expired_lease \<Rightarrow> release_pending_lease" where
  "ex_entry now e = \<lparr>ql_device_id = ex_device_id e, ql_addresses = ex_addresses e, ql_expires_at_ms = ex_expires_at_ms e,
     ql_attempts = 0, ql_next_retry_ms = next_retry_deadline now 0\<rparr>"

lemma sweep_settle_frame [simp]:
  "ap_config (sweep_settle now e ok p) = ap_config p" "ap_has_store (sweep_settle now e ok p) = ap_has_store p"
  by (auto simp: sweep_settle_def Let_def enqueue_release_locked_def)

lemma leased_simps [simp]:
  "lease_addresses (leased state sid did a expires) = a" "pl_session_id (leased state sid did a expires) = sid"
  "pl_device_id (leased state sid did a expires) = did" "pl_expires_at_ms (leased state sid did a expires) = expires"
  by (simp_all add: lease_addresses_def leased_def)

lemma sweep_settle_deleted:
  assumes "\<not> ap_has_store p \<or> ok \<or> ex_id e \<in> keys (ap_release_pending p)"
  shows "ap_pending (sweep_settle now e ok p) = ap_pending p" and "ap_active (sweep_settle now e ok p) = ap_active p"
    and "ap_release_pending (sweep_settle now e ok p) = ap_release_pending p"
  using assms by (auto simp: sweep_settle_def Let_def enqueue_release_locked_def)

lemma sweep_settle_failed:
  assumes "ap_has_store p" and "\<not> ok" and "ex_id e \<notin> keys (ap_release_pending p)"
    and room: "room = apc_maximum_pending_releases (ap_config p) - length (ap_release_pending p)"
  shows "ap_pending (sweep_settle now e ok p) = (if room = 0 \<and> ex_was_pending e then hm_insert (ex_id e) (ex_lease e) (ap_pending p)
      else ap_pending p)"
    and "ap_active (sweep_settle now e ok p) = (if room = 0 \<and> \<not> ex_was_pending e then hm_insert (ex_id e) (ex_lease e) (ap_active p)
      else ap_active p)"
    and "ap_release_pending (sweep_settle now e ok p) = (if room = 0 then ap_release_pending p
      else hm_insert (ex_id e) (ex_entry now e) (ap_release_pending p))"
  using assms
  by (auto simp: sweep_settle_def Let_def enqueue_release_locked_def ex_lease_def ex_entry_def not_le)

definition sweep_failed :: "address_pool \<Rightarrow> (session_id \<times> bool) list \<Rightarrow> expired_lease list \<Rightarrow> expired_lease list" where
  "sweep_failed p results batch =
     filter (\<lambda>e. ap_has_store p \<and> map_of results (ex_id e) = Some False \<and> ex_id e \<notin> keys (ap_release_pending p)) batch"

lemma sweep_settle_all_maps:
  assumes "distinct (map ex_id batch)" and "hm_ok (ap_release_pending p)"
    and "room = apc_maximum_pending_releases (ap_config p) - length (ap_release_pending p)"
    and "failed = sweep_failed p results batch"
  shows "map_of (ap_release_pending (sweep_settle_all now results batch p)) =
      map_of (ap_release_pending p) ++ map_of (map (\<lambda>e. (ex_id e, ex_entry now e)) (take room failed))
    \<and> map_of (ap_pending (sweep_settle_all now results batch p)) =
      map_of (ap_pending p) ++ map_of (map (\<lambda>e. (ex_id e, ex_lease e)) (filter ex_was_pending (drop room failed)))
    \<and> map_of (ap_active (sweep_settle_all now results batch p)) =
      map_of (ap_active p) ++ map_of (map (\<lambda>e. (ex_id e, ex_lease e)) (filter (\<lambda>e. \<not> ex_was_pending e) (drop room failed)))"
  using assms
proof (induction batch arbitrary: p room failed)
  case (Cons e batch)
  define ok where "ok = (case map_of results (ex_id e) of Some ok \<Rightarrow> ok | None \<Rightarrow> True)"
  let ?p = "sweep_settle now e ok p" and ?max = "apc_maximum_pending_releases (ap_config p)"
  have notok: "\<not> ok \<longleftrightarrow> map_of results (ex_id e) = Some False" by (simp add: ok_def split: option.split)
  have new: "ex_id e \<notin> ex_id ` set batch" "distinct (map ex_id batch)" using Cons.prems(1) by simp_all
  show ?case
  proof (cases "ap_has_store p \<and> \<not> ok \<and> ex_id e \<notin> keys (ap_release_pending p)")
    case False
    then have same: "ap_pending ?p = ap_pending p" "ap_active ?p = ap_active p" "ap_release_pending ?p = ap_release_pending p"
      using sweep_settle_deleted [of p ok e now] by blast+
    have "failed = sweep_failed ?p results batch" using Cons.prems(4) False notok by (auto simp: sweep_failed_def same)
    with Cons.IH [OF new(2), of ?p room failed] Cons.prems(2,3) show ?thesis by (simp add: same ok_def [symmetric])
  next
    case True
    define rest where "rest = sweep_failed ?p results batch"
    have ids: "ex_id e \<notin> ex_id ` set rest" using new(1) by (auto simp: rest_def sweep_failed_def)
    note settled = sweep_settle_failed [OF conjunct1 [OF True] _ _ Cons.prems(3), of ok e now]
    show ?thesis
    proof (cases "room = 0")
      case full: True
      have f: "failed = e # rest"
        using Cons.prems(4) True full notok settled(3) by (simp add: sweep_failed_def rest_def)
      have out: "m(ex_id e \<mapsto> v) ++ map_of (map (\<lambda>e. (ex_id e, ex_lease e)) (filter Q rest))
          = (m ++ map_of (map (\<lambda>e. (ex_id e, ex_lease e)) (filter Q rest)))(ex_id e \<mapsto> v)" for m v Q
        by (rule map_add_upd_left) (use ids in \<open>auto simp: dom_map_of_conv_image_fst\<close>)
      show ?thesis
        using Cons.IH [OF new(2) _ _ rest_def, of 0] Cons.prems(2,3) True full settled
        by (simp add: f ok_def [symmetric] map_of_hm_insert out)
    next
      case free: False
      have rp: "ap_release_pending ?p = hm_insert (ex_id e) (ex_entry now e) (ap_release_pending p)"
        using settled(3) True free by simp
      have other: "ex_id x \<noteq> ex_id e" if "x \<in> set batch" for x using new(1) that by (metis imageI)
      have "rest = sweep_failed p results batch"
        unfolding rest_def sweep_failed_def sweep_settle_frame rp
        by (rule filter_cong) (simp_all add: hm.keys_ins Cons.prems(2) other)
      then have f: "failed = e # rest" using Cons.prems(4) True notok by (simp add: sweep_failed_def rest_def)
      have len: "?max - length (ap_release_pending ?p) = room - 1"
        unfolding rp hm.length_ins [OF Cons.prems(2)] using True by (simp add: Cons.prems(3))
      have ok: "hm_ok (ap_release_pending ?p)" by (simp add: rp hm.ok_ins Cons.prems(2))
      obtain k where k: "room = Suc k" using free by (cases room) simp_all
      have out: "m(ex_id e \<mapsto> v) ++ map_of (map (\<lambda>e. (ex_id e, ex_entry now e)) (take k rest))
          = (m ++ map_of (map (\<lambda>e. (ex_id e, ex_entry now e)) (take k rest)))(ex_id e \<mapsto> v)" for m v
        by (rule map_add_upd_left)
          (use ids in \<open>auto simp: dom_map_of_conv_image_fst dest: in_set_takeD\<close>)
      have rp': "map_of (ap_release_pending ?p) = (map_of (ap_release_pending p))(ex_id e \<mapsto> ex_entry now e)"
        unfolding rp map_of_hm_insert ..
      have maps: "ap_pending ?p = ap_pending p" "ap_active ?p = ap_active p" using settled(1,2) True free by simp_all
      have len': "apc_maximum_pending_releases (ap_config ?p) - length (ap_release_pending ?p) = k" using len k by simp
      show ?thesis
        using Cons.IH [OF new(2) ok refl rest_def] unfolding len' maps rp' out
        by (simp add: f ok_def [symmetric] k map_add_upd del: fun_upd_apply)
    qed
  qed
qed (simp add: sweep_failed_def)

section \<open>The sweep\<close>

definition lease_due :: "address_pool \<Rightarrow> u64 \<Rightarrow> session_id \<Rightarrow> lease \<Rightarrow> bool" where
  "lease_due p now sid l \<longleftrightarrow> sid \<notin> set (ap_inflight p) \<and> le_expires_at_ms l \<le> now"

lemma expired_ids_due:
  "hm_ok m \<Longrightarrow> sid \<in> set (expired_ids (ap_inflight p) now m) \<longleftrightarrow> (\<exists>l. map_of m sid = Some l \<and> lease_due p now sid l)"
  by (force simp: expired_ids_def lease_due_def hm_ok_def dest: map_of_SomeD)

text \<open>The lease of a session, reserved or active, as an entry of the quarantine.\<close>

definition quarantine_entry :: "address_pool \<Rightarrow> u64 \<Rightarrow> session_id \<Rightarrow> release_pending_lease option" where
  "quarantine_entry p now sid = map_option
     (\<lambda>l. \<lparr>ql_device_id = le_device_id l, ql_addresses = le_addresses l, ql_expires_at_ms = le_expires_at_ms l,
        ql_attempts = 0, ql_next_retry_ms = next_retry_deadline now 0\<rparr>)
     (case map_of (ap_pending p) sid of Some l \<Rightarrow> Some l | None \<Rightarrow> map_of (ap_active p) sid)"

text \<open>The batch of a sweep: the expired leases, in the order of their sessions.\<close>

lemma sweep_batch:
  assumes ok: "pool_ok {} p b h []" and s: "sweep_begin p now = (r, Inr (PlanSweep batch now))"
  shows "sorted (map ex_id batch) \<and> distinct (map ex_id batch)
    \<and> ap_release_pending r = ap_release_pending p \<and> ap_has_store r = ap_has_store p \<and> ap_config r = ap_config p
    \<and> (\<forall>sid. sid \<in> ex_id ` set batch \<longleftrightarrow> (\<exists>l. (map_of (ap_pending p) sid = Some l \<or> map_of (ap_active p) sid = Some l)
        \<and> lease_due p now sid l))
    \<and> (\<forall>e \<in> set batch. map_of (if ex_was_pending e then ap_pending p else ap_active p) (ex_id e) = Some (ex_lease e))
    \<and> (\<forall>sid. map_of (ap_pending r) sid = (if sid \<in> ex_id ` set batch then None else map_of (ap_pending p) sid))
    \<and> (\<forall>sid. map_of (ap_active r) sid = (if sid \<in> ex_id ` set batch then None else map_of (ap_active p) sid))"
proof -
  let ?P = "expired_ids (ap_inflight p) now (ap_pending p)" and ?A = "expired_ids (ap_inflight p) now (ap_active p)"
  obtain q pb where 1: "sweep_pending ?P p = (q, pb)" by fastforce
  obtain r' ab where 2: "sweep_active ?A q = (r', ab)" by fastforce
  have r: "r' = r" "batch = sort_key ex_id (pb @ ab)" using s by (simp_all add: sweep_begin_def 1 2)
  note P = sweep_pending_result [OF expired_ids_sub(1) expired_ids_sub(3) [OF pool_okD(3) [OF ok]] 1]
  have "set ?A \<subseteq> keys (ap_active q)" using P expired_ids_sub(1) by metis
  note A = sweep_active_result [OF this expired_ids_sub(3) [OF pool_okD(2) [OF ok]] 2 [unfolded r(1)]]
  have apart: "keys (ap_active p) \<inter> keys (ap_pending p) = {}" by (rule leases_apart [OF ok])
  have sub: "set ?P \<subseteq> keys (ap_pending p)" "set ?A \<subseteq> keys (ap_active p)" by (rule expired_ids_sub)+
  have maps: "map ex_id pb = ?P" "map ex_id ab = ?A" using P A by simp_all
  have ids: "ex_id ` set batch = set ?P \<union> set ?A" by (simp add: r(2) image_Un maps [symmetric])
  have "distinct (?P @ ?A)" using expired_ids_sub(3) pool_okD(2,3) [OF ok] sub apart by auto
  moreover have "mset (map ex_id batch) = mset (?P @ ?A)" by (simp add: r(2) maps [symmetric])
  ultimately have d: "distinct (map ex_id batch)" using mset_eq_imp_distinct_iff by blast
  have pending: "map_of (ap_pending r) sid = (if sid \<in> ex_id ` set batch then None else map_of (ap_pending p) sid)" for sid
  proof -
    have "map_of (ap_pending p) sid = None" if "sid \<in> set ?A"
      using that sub(2) apart by (auto simp: map_of_eq_None_iff)
    then show ?thesis using P A by (simp add: ids map_of_filter_outside)
  qed
  have active: "map_of (ap_active r) sid = (if sid \<in> ex_id ` set batch then None else map_of (ap_active p) sid)" for sid
  proof -
    have "map_of (ap_active p) sid = None" if "sid \<in> set ?P"
      using that sub(1) apart by (auto simp: map_of_eq_None_iff)
    then show ?thesis using P A by (simp add: ids map_of_filter_outside)
  qed
  have "map_of (if ex_was_pending e then ap_pending p else ap_active p) (ex_id e) = Some (ex_lease e)" if "e \<in> set batch" for e
    using that P A by (auto simp: r(2))
  moreover have "sid \<in> ex_id ` set batch \<longleftrightarrow> (\<exists>l. (map_of (ap_pending p) sid = Some l \<or> map_of (ap_active p) sid = Some l)
        \<and> lease_due p now sid l)" for sid
    using expired_ids_due pool_okD(2,3) [OF ok] unfolding ids by blast
  ultimately show ?thesis using d pending active P A by (simp add: r(2))
qed

lemma failed_ids:
  "length answers = length batch \<Longrightarrow> distinct (map ex_id batch) \<Longrightarrow>
    map ex_id (filter (\<lambda>e. s \<and> map_of (zip (map ex_id batch) answers) (ex_id e) = Some False \<and> ex_id e \<notin> K) batch)
      = map fst (filter (\<lambda>(sid, deleted). s \<and> \<not> deleted \<and> sid \<notin> K) (zip (map ex_id batch) answers))"
proof (induction answers batch rule: list_induct2)
  case (Cons a answers e batch)
  let ?Q = "\<lambda>answers batch x. s \<and> map_of (zip (map ex_id batch) answers) (ex_id x) = Some False \<and> ex_id x \<notin> K"
  define rest where "rest = filter (?Q answers batch) batch"
  have other: "ex_id x \<noteq> ex_id e" if "x \<in> set batch" for x using Cons.prems that by (simp, metis imageI)
  have "filter (?Q (a # answers) (e # batch)) batch = rest"
    unfolding rest_def by (rule filter_cong) (simp_all add: other)
  moreover have "?Q (a # answers) (e # batch) e \<longleftrightarrow> s \<and> \<not> a \<and> ex_id e \<notin> K" by simp
  ultimately have "filter (?Q (a # answers) (e # batch)) (e # batch) = (if s \<and> \<not> a \<and> ex_id e \<notin> K then e # rest else rest)"
    by (simp only: filter.simps)
  moreover have "map ex_id rest = map fst (filter (\<lambda>(sid, deleted). s \<and> \<not> deleted \<and> sid \<notin> K) (zip (map ex_id batch) answers))"
    using Cons.IH Cons.prems unfolding rest_def by simp
  ultimately show ?case by simp
qed simp

lemma map_add_entries:
  "(\<And>e. e \<in> set xs \<Longrightarrow> g (ex_id e) = Some (f e)) \<Longrightarrow>
    (m ++ map_of (map (\<lambda>e. (ex_id e, f e)) xs)) sid = (if sid \<in> ex_id ` set xs then g sid else m sid)"
  by (induction xs) (auto simp: map_add_def split: option.splits)

lemma merged_lookup:
  assumes "x = (if sid \<in> K then y else z)" and "z = (if sid \<in> I then None else y)"
    and "sid \<in> D \<Longrightarrow> sid \<notin> K \<Longrightarrow> y = None" and "K \<subseteq> D" and "D \<subseteq> I"
  shows "x = (if sid \<in> I - D then None else y)"
  using assms by (cases "sid \<in> D"; cases "sid \<in> I") auto

text \<open>C34. A sweep takes exactly the reserved and active leases whose time has come and which no other
  operation has under way, and its answer lists their sessions in ascending order. Whatever the
  store then answers to their deletes: the leases whose delete failed, in that order, are quarantined
  with their device, addresses and expiry, due for a first retry, as far as the quarantine has room,
  and the ones beyond that are back in their own map as they were; a lease whose delete succeeded
  is gone. Every other lease and every other entry of the quarantine is as it was.\<close>

theorem sweep_exact:
  assumes "pool_reachable s" and "py_pool s = p" and "pool_exec s (PoSweep now) = (t, out)"
  shows "out = Parked \<and> (\<exists>ids. sorted ids \<and> distinct ids
    \<and> set ids = {sid. \<exists>l. (map_of (ap_pending p) sid = Some l \<or> map_of (ap_active p) sid = Some l)
        \<and> sid \<notin> set (ap_inflight p) \<and> le_expires_at_ms l \<le> now}
    \<and> (\<forall>answers failed room. length answers = length ids
        \<and> failed = map fst (filter (\<lambda>(sid, deleted). ap_has_store p \<and> \<not> deleted \<and> sid \<notin> keys (ap_release_pending p)) (zip ids answers))
        \<and> room = apc_maximum_pending_releases (ap_config p) - length (ap_release_pending p) \<longrightarrow>
      (\<exists>u. pool_exec t (PoFinish (length (py_running s)) answers) = (u, Answered (Swept ids)) \<and> py_running u = py_running s
        \<and> (\<forall>sid. map_of (ap_release_pending (py_pool u)) sid = (if sid \<in> set (take room failed) then quarantine_entry p now sid
              else map_of (ap_release_pending p) sid))
        \<and> (\<forall>sid. map_of (ap_pending (py_pool u)) sid = (if sid \<in> set ids - set (drop room failed) then None else map_of (ap_pending p) sid))
        \<and> (\<forall>sid. map_of (ap_active (py_pool u)) sid = (if sid \<in> set ids - set (drop room failed) then None else map_of (ap_active p) sid)))))"
proof -
  obtain r batch where begins: "sweep_begin p now = (r, Inr (PlanSweep batch now))"
    by (simp add: sweep_begin_def Let_def case_prod_beta)
  have ok: "pool_ok {} p (busy (py_running s)) (held (py_running s)) []"
    using pool_reachable_inv [OF assms(1)] assms(2) by (simp add: pool_inv_on_def)
  note b = sweep_batch [OF ok begins]
  have t: "t = \<lparr>py_pool = r, py_running = py_running s @ [PlanSweep batch now]\<rparr>" "out = Parked"
    using assms(2,3) by (simp_all add: begins begun_step_def)
  let ?ids = "map ex_id batch"
  have apart: "\<not> (map_of (ap_pending p) sid = Some l \<and> map_of (ap_active p) sid = Some l')" for sid l l'
    using leases_apart [OF ok] by (force dest: map_of_SomeD)
  have settled: "\<exists>u. pool_exec t (PoFinish (length (py_running s)) answers) = (u, Answered (Swept ?ids)) \<and> py_running u = py_running s
        \<and> (\<forall>sid. map_of (ap_release_pending (py_pool u)) sid = (if sid \<in> set (take room failed) then quarantine_entry p now sid
              else map_of (ap_release_pending p) sid))
        \<and> (\<forall>sid. map_of (ap_pending (py_pool u)) sid = (if sid \<in> set ?ids - set (drop room failed) then None else map_of (ap_pending p) sid))
        \<and> (\<forall>sid. map_of (ap_active (py_pool u)) sid = (if sid \<in> set ?ids - set (drop room failed) then None else map_of (ap_active p) sid))"
    if len: "length answers = length ?ids"
      and failed: "failed = map fst (filter (\<lambda>(sid, deleted). ap_has_store p \<and> \<not> deleted \<and> sid \<notin> keys (ap_release_pending p)) (zip ?ids answers))"
      and room: "room = apc_maximum_pending_releases (ap_config p) - length (ap_release_pending p)"
    for answers failed room
  proof -
    let ?u = "sweep_settle_all now (zip ?ids answers) batch r"
    define lost where "lost = sweep_failed r (zip ?ids answers) batch"
    have ids: "map ex_id lost = failed"
      using failed_ids [of answers batch "ap_has_store p" "keys (ap_release_pending p)"] len b by (simp add: lost_def sweep_failed_def failed)
    have sub: "set (take n lost) \<subseteq> set batch" "set (drop n lost) \<subseteq> set batch" for n
      using set_take_subset [of n lost] set_drop_subset [of n lost] by (auto simp: lost_def sweep_failed_def)
    have at: "ex_id ` set (take n lost) = set (take n failed)" "ex_id ` set (drop n lost) = set (drop n failed)" for n
      by (simp_all add: ids [symmetric] take_map drop_map)
    have entry: "quarantine_entry p now (ex_id e) = Some (ex_entry now e)" if "e \<in> set batch" for e
    proof (cases "ex_was_pending e")
      case True
      with b that have "map_of (ap_pending p) (ex_id e) = Some (ex_lease e)" by auto
      then show ?thesis by (simp add: quarantine_entry_def ex_entry_def ex_lease_def)
    next
      case False
      with b that have "map_of (ap_active p) (ex_id e) = Some (ex_lease e)" by auto
      moreover from this apart have "map_of (ap_pending p) (ex_id e) = None" by (meson not_Some_eq)
      ultimately show ?thesis by (simp add: quarantine_entry_def ex_entry_def ex_lease_def)
    qed
    have "distinct ?ids" "hm_ok (ap_release_pending r)" "room = apc_maximum_pending_releases (ap_config r) - length (ap_release_pending r)"
      using b pool_okD(4) [OF ok] room by simp_all
    note u = sweep_settle_all_maps [OF this lost_def, of now]
    have own: "map_of (if ex_was_pending e then ap_pending p else ap_active p) (ex_id e) = Some (ex_lease e)"
      if "e \<in> set (drop room lost)" for e
      using b that sub(2) by blast
    have mine: "e \<in> set (drop room lost) \<Longrightarrow> ex_was_pending e \<Longrightarrow> map_of (ap_pending p) (ex_id e) = Some (ex_lease e)"
      "e \<in> set (drop room lost) \<Longrightarrow> \<not> ex_was_pending e \<Longrightarrow> map_of (ap_active p) (ex_id e) = Some (ex_lease e)" for e
      using own [of e] by simp_all
    then have other: "e \<in> set (drop room lost) \<Longrightarrow> ex_was_pending e \<Longrightarrow> map_of (ap_active p) (ex_id e) = None"
      "e \<in> set (drop room lost) \<Longrightarrow> \<not> ex_was_pending e \<Longrightarrow> map_of (ap_pending p) (ex_id e) = None" for e
      using apart by (metis not_Some_eq)+
    have gone: "map_of (ap_pending r) sid = (if sid \<in> set ?ids then None else map_of (ap_pending p) sid)"
      "map_of (ap_active r) sid = (if sid \<in> set ?ids then None else map_of (ap_active p) sid)" for sid
      using b by simp_all
    have returned: "set (drop room failed) \<subseteq> set ?ids"
      unfolding at(2) [symmetric] set_map by (rule image_mono, rule sub(2))
    have kept: "ex_id ` set (filter Q (drop room lost)) \<subseteq> set (drop room failed)" for Q
      unfolding at(2) [symmetric] by auto
    have rp: "map_of (ap_release_pending ?u) sid = (if sid \<in> set (take room failed) then quarantine_entry p now sid
              else map_of (ap_release_pending p) sid)" for sid
    proof -
      have same: "ap_release_pending r = ap_release_pending p" using b by simp
      show ?thesis unfolding u [THEN conjunct1] at(1) [symmetric] same
        by (rule map_add_entries) (use entry sub(1) in blast)
    qed
    have pending: "map_of (ap_pending ?u) sid =
        (if sid \<in> set ?ids - set (drop room failed) then None else map_of (ap_pending p) sid)" for sid
    proof -
      have looked: "map_of (ap_pending ?u) sid = (if sid \<in> ex_id ` set (filter ex_was_pending (drop room lost))
          then map_of (ap_pending p) sid else map_of (ap_pending r) sid)"
        unfolding u [THEN conjunct2, THEN conjunct1] by (rule map_add_entries) (use mine in auto)
      have none: "map_of (ap_pending p) sid = None"
        if "sid \<in> set (drop room failed)" "sid \<notin> ex_id ` set (filter ex_was_pending (drop room lost))"
        using other that unfolding at(2) [symmetric] by auto
      show ?thesis by (rule merged_lookup [OF looked gone(1) none kept returned])
    qed
    have active: "map_of (ap_active ?u) sid =
        (if sid \<in> set ?ids - set (drop room failed) then None else map_of (ap_active p) sid)" for sid
    proof -
      have looked: "map_of (ap_active ?u) sid = (if sid \<in> ex_id ` set (filter (\<lambda>e. \<not> ex_was_pending e) (drop room lost))
          then map_of (ap_active p) sid else map_of (ap_active r) sid)"
        unfolding u [THEN conjunct2, THEN conjunct2] by (rule map_add_entries) (use mine in auto)
      have none: "map_of (ap_active p) sid = None"
        if "sid \<in> set (drop room failed)" "sid \<notin> ex_id ` set (filter (\<lambda>e. \<not> ex_was_pending e) (drop room lost))"
        using other that unfolding at(2) [symmetric] by auto
      show ?thesis by (rule merged_lookup [OF looked gone(2) none kept returned])
    qed
    have "sort ?ids = ?ids" using b by (simp add: sorted_sort_id)
    then have "pool_exec t (PoFinish (length (py_running s)) answers) = (\<lparr>py_pool = ?u, py_running = py_running s\<rparr>, Answered (Swept ?ids))"
      using len by (simp add: t(1) sweep_finish_def nth_append)
    then show ?thesis using rp pending active by auto
  qed
  have "set ?ids = {sid. \<exists>l. (map_of (ap_pending p) sid = Some l \<or> map_of (ap_active p) sid = Some l)
        \<and> sid \<notin> set (ap_inflight p) \<and> le_expires_at_ms l \<le> now}"
    unfolding set_eq_iff set_map mem_Collect_eq using b unfolding lease_due_def by blast
  moreover have "sorted ?ids" "distinct ?ids" using b by simp_all
  ultimately show ?thesis using t(2) settled by blast
qed

text \<open>A sweep whose delete fails, of a reservation that has run out: its addresses are quarantined.\<close>

theorem sweep_exact_witness:
  "\<exists>s t u entry. pool_reachable s \<and> pool_exec s (PoSweep 40000) = (t, Parked)
    \<and> pool_exec t (PoFinish 0 [False]) = (u, Answered (Swept [5]))
    \<and> map_of (ap_pending (py_pool u)) 5 = None
    \<and> map_of (ap_release_pending (py_pool u)) 5 = Some entry \<and> ql_addresses entry = lan_address 3 1"
proof -
  obtain m where tr: "trace pool_exec lan_start
     [(PoReserve 5 7 (lan_time 0), Parked), (PoFinish 0 [True], Answered (Addresses (Inr (lan_address 3 1))))]
     (lan_state [] [(5, lan_lease 7 (sat_add 0 30000))] [] m)"
    using lan_reserved [of 5 7 pool_metrics_default 0] unfolding lan_start_state by auto
  let ?s = "lan_state [] [(5, lan_lease 7 (sat_add 0 30000))] [] m"
  obtain t out where t: "pool_exec ?s (PoSweep 40000) = (t, out)" by fastforce
  have pool: "ap_inflight (py_pool ?s) = []" "ap_pending (py_pool ?s) = [(5, lan_lease 7 30000)]" "ap_active (py_pool ?s) = []"
    "ap_release_pending (py_pool ?s) = []" "ap_has_store (py_pool ?s)" "py_running ?s = []"
    "0 < apc_maximum_pending_releases (ap_config (py_pool ?s))"
    by (simp_all add: lan_state_def sat_add_def lan_pool_def pool_new_def lan_config_def)
  have lease: "le_expires_at_ms (lan_lease 7 30000) = 30000" "le_addresses (lan_lease 7 30000) = lan_address 3 1"
    by (simp_all add: lan_lease_def)
  let ?none = "[] :: (session_id \<times> release_pending_lease) list"
  note swept = sweep_exact [OF lan_reachable [OF tr] refl t, unfolded pool]
  from swept have out: "out = Parked" by blast
  from swept obtain ids where ids: "sorted ids" "distinct ids"
    and set: "set ids = {sid. \<exists>l. (map_of [(5, lan_lease 7 30000)] sid = Some l \<or> map_of [] sid = Some l)
        \<and> sid \<notin> set [] \<and> le_expires_at_ms l \<le> 40000}"
    and run: "\<forall>answers failed room. length answers = length ids
        \<and> failed = map fst (filter (\<lambda>(sid, deleted). ap_has_store (py_pool ?s) \<and> \<not> deleted \<and> sid \<notin> keys ?none) (zip ids answers))
        \<and> room = apc_maximum_pending_releases (ap_config (py_pool ?s)) - length ?none \<longrightarrow>
      (\<exists>u. pool_exec t (PoFinish (length ([] :: pool_plan list)) answers) = (u, Answered (Swept ids)) \<and> py_running u = []
        \<and> (\<forall>sid. map_of (ap_release_pending (py_pool u)) sid = (if sid \<in> set (take room failed)
              then quarantine_entry (py_pool ?s) 40000 sid else map_of [] sid))
        \<and> (\<forall>sid. map_of (ap_pending (py_pool u)) sid = (if sid \<in> set ids - set (drop room failed) then None
              else map_of [(5, lan_lease 7 30000)] sid))
        \<and> (\<forall>sid. map_of (ap_active (py_pool u)) sid = (if sid \<in> set ids - set (drop room failed) then None else map_of [] sid)))"
    by - (elim conjE exE, rule that)
  have "set ids = {5}" unfolding set using lease by auto
  then have "ids = [5]" using ids(2) by (cases ids; cases "tl ids") auto
  have "[5] = map fst (filter (\<lambda>(sid, deleted). ap_has_store (py_pool ?s) \<and> \<not> deleted \<and> sid \<notin> keys ?none) (zip ids [False]))"
    using pool(5) by (simp add: \<open>ids = [5]\<close>)
  from run [rule_format, OF conjI [OF _ conjI [OF this refl]]] pool(7) obtain u where
    "pool_exec t (PoFinish 0 [False]) = (u, Answered (Swept [5]))"
    "map_of (ap_release_pending (py_pool u)) 5 = quarantine_entry (py_pool ?s) 40000 5" "map_of (ap_pending (py_pool u)) 5 = None"
    by (auto simp: \<open>ids = [5]\<close> simp del: pool_exec.simps)
  moreover have "\<exists>entry. quarantine_entry (py_pool ?s) 40000 5 = Some entry \<and> ql_addresses entry = lan_address 3 1"
    by (simp add: quarantine_entry_def pool lease)
  ultimately show ?thesis using lan_reachable [OF tr] t out by metis
qed

end
