(* ===== verification/Journal.thy ===== *)
theory Journal
  imports Pool
begin

text \<open>
  The durable stores of the lease pool, \<open>apps/streamguard-gateway/src/v2/address_pool.rs\<close>: the
  68-byte journal record, the journal file and \<open>JournalLeaseStore\<close> with its in-memory mirror, and
  the \<open>ManagedLeaseStore\<close> adapter.

  The file system is a parameter: what the metadata check and the read of the file answer, and how
  \<open>secure_atomic_write\<close> ends. It writes a temporary file, renames it over the journal and then
  syncs and checks the directory entry, so it fails either before the rename, with the old
  journal in place, or after it, with the new one.
\<close>

section \<open>Records\<close>

datatype store_error = SUnavailable | SIo | SCorrupt

definition journal_magic :: "byte list" where
  "journal_magic = [83, 71, 65, 76]"

definition journal_version :: byte where
  "journal_version = 2"

definition journal_record_len :: nat where
  "journal_record_len = 68"

definition max_journal_bytes :: nat where
  "max_journal_bytes = 65536 * 68"

fun lease_state_to_wire :: "lease_state \<Rightarrow> byte" where
  "lease_state_to_wire LReserved = 0"
| "lease_state_to_wire LActive = 1"
| "lease_state_to_wire LReleasePending = 2"

definition lease_state_from_wire :: "byte \<Rightarrow> lease_state option" where
  "lease_state_from_wire value =
     (if value = 0 then Some LReserved else if value = 1 then Some LActive
      else if value = 2 then Some LReleasePending else None)"

definition encode_lease_record :: "persisted_lease \<Rightarrow> byte list" where
  "encode_lease_record l = journal_magic @ [journal_version] @ [lease_state_to_wire (pl_state l)]
     @ to_be (pl_session_id l) @ to_be (pl_device_id l) @ to_be (pl_ipv4 l) @ [pl_ipv4_prefix_len l]
     @ to_be (pl_ipv6_prefix l) @ [pl_ipv6_prefix_len l] @ to_be (pl_expires_at_ms l)"

definition decode_lease_record :: "byte list \<Rightarrow> persisted_lease option" where
  "decode_lease_record record =
     (if slice 0 4 record \<noteq> journal_magic \<or> record ! 4 \<noteq> journal_version then None
      else case lease_state_from_wire (record ! 5) of
        None \<Rightarrow> None
      | Some state \<Rightarrow> Some \<lparr>
          pl_session_id = from_be (slice 6 22 record),
          pl_device_id = from_be (slice 22 38 record),
          pl_ipv4 = from_be (slice 38 42 record),
          pl_ipv4_prefix_len = record ! 42,
          pl_ipv6_prefix = from_be (slice 43 59 record),
          pl_ipv6_prefix_len = record ! 59,
          pl_state = state,
          pl_expires_at_ms = from_be (slice 60 68 record)\<rparr>)"

section \<open>The file\<close>

datatype file_meta = MetaValid | MetaInvalid | MetaMissing | MetaError

datatype file_content = Missing | Unreadable | Bytes "byte list"

text \<open>\<open>chunks_exact\<close>: the remainder is left out, but the length is checked before.\<close>

function chunks_exact :: "nat \<Rightarrow> 'a list \<Rightarrow> 'a list list" where
  "chunks_exact n xs = (if n = 0 \<or> length xs < n then [] else take n xs # chunks_exact n (drop n xs))"
  by auto
termination by (relation "measure (\<lambda>(n, xs). length xs)") auto

declare chunks_exact.simps [simp del]

fun decode_records :: "byte list list \<Rightarrow> store_error + persisted_lease list" where
  "decode_records [] = Inr []"
| "decode_records (chunk # chunks) =
     (case decode_lease_record chunk of
        None \<Rightarrow> Inl SCorrupt
      | Some l \<Rightarrow> rbind (decode_records chunks) (\<lambda>ls. Inr (l # ls)))"

definition read_journal_file :: "file_content \<Rightarrow> store_error + persisted_lease list" where
  "read_journal_file file =
     (case file of
        Missing \<Rightarrow> Inr []
      | Unreadable \<Rightarrow> Inl SIo
      | Bytes bytes \<Rightarrow>
          if max_journal_bytes < length bytes then Inl SCorrupt
          else if length bytes mod journal_record_len \<noteq> 0 then Inl SCorrupt
          else if max_leases_hard_cap < length bytes div journal_record_len then Inl SCorrupt
          else decode_records (chunks_exact journal_record_len bytes))"

section \<open>The store\<close>

record journal_store =
  js_entries :: "(session_id \<times> persisted_lease) list"
  js_file :: file_content

text \<open>The loop that fills the map; a repeated session is corrupt.\<close>

fun journal_index :: "persisted_lease list \<Rightarrow> (session_id \<times> persisted_lease) list
    \<Rightarrow> store_error + (session_id \<times> persisted_lease) list" where
  "journal_index [] m = Inr m"
| "journal_index (l # ls) m =
     (if pl_session_id l \<in> keys m then Inl SCorrupt else journal_index ls (hm_insert (pl_session_id l) l m))"

definition journal_open :: "file_meta \<Rightarrow> file_content \<Rightarrow> store_error + journal_store" where
  "journal_open meta file =
     (case meta of
        MetaInvalid \<Rightarrow> Inl SCorrupt
      | MetaError \<Rightarrow> Inl SIo
      | _ \<Rightarrow> rbind (read_journal_file file) (\<lambda>entries.
          if max_leases_hard_cap < length entries then Inl SCorrupt
          else rbind (journal_index entries []) (\<lambda>m. Inr \<lparr>js_entries = m, js_file = file\<rparr>)))"

text \<open>The records in the order of session and device, as two stable sorts.\<close>

definition journal_bytes :: "(session_id \<times> persisted_lease) list \<Rightarrow> store_error + byte list" where
  "journal_bytes entries =
     (if max_leases_hard_cap < length entries then Inl SIo
      else Inr (concat (map encode_lease_record
        (sort_key pl_session_id (sort_key pl_device_id (map snd entries))))))"

text \<open>How \<open>secure_atomic_write\<close> ends: with success, failing before the rename, or failing after it.\<close>

datatype write_end = Written | NotWritten | WrittenUnsynced

definition rewrite_journal :: "journal_store \<Rightarrow> (session_id \<times> persisted_lease) list \<Rightarrow> write_end
    \<Rightarrow> journal_store \<times> (store_error + unit)" where
  "rewrite_journal j entries outcome =
     (case journal_bytes entries of
        Inl e \<Rightarrow> (j, Inl e)
      | Inr bytes \<Rightarrow>
          (case outcome of
             Written \<Rightarrow> (j\<lparr>js_file := Bytes bytes\<rparr>, Inr ())
           | NotWritten \<Rightarrow> (j, Inl SIo)
           | WrittenUnsynced \<Rightarrow> (j\<lparr>js_file := Bytes bytes\<rparr>, Inl SIo)))"

definition journal_commit :: "journal_store \<Rightarrow> (session_id \<times> persisted_lease) list \<Rightarrow> write_end
    \<Rightarrow> journal_store \<times> (store_error + unit)" where
  "journal_commit j snapshot outcome =
     (case rewrite_journal j snapshot outcome of
        (j, Inl e) \<Rightarrow> (j, Inl e)
      | (j, Inr _) \<Rightarrow> (j\<lparr>js_entries := snapshot\<rparr>, Inr ()))"

definition journal_load :: "journal_store \<Rightarrow> persisted_lease list" where
  "journal_load j = map snd (js_entries j)"

definition journal_persist :: "journal_store \<Rightarrow> persisted_lease \<Rightarrow> write_end \<Rightarrow> journal_store \<times> (store_error + unit)" where
  "journal_persist j l outcome = journal_commit j (hm_insert (pl_session_id l) l (js_entries j)) outcome"

definition journal_release :: "journal_store \<Rightarrow> session_id \<Rightarrow> write_end \<Rightarrow> journal_store \<times> (store_error + unit)" where
  "journal_release j sid outcome = journal_commit j (kt_remove sid (js_entries j)) outcome"

text \<open>The managed adapter checks the cap and passes everything else through.\<close>

definition managed_load :: "store_error + persisted_lease list \<Rightarrow> store_error + persisted_lease list" where
  "managed_load loaded =
     rbind loaded (\<lambda>leases. if max_leases_hard_cap < length leases then Inl SCorrupt else Inr leases)"

text \<open>\<open>AddressPool::open_at_time\<close>, given how the mode's store opens and loads.\<close>

datatype pool_mode =
    Ephemeral
  | SelfHosted file_meta file_content
  | Managed "store_error + persisted_lease list"

definition pool_open :: "address_pool_config \<Rightarrow> pool_mode \<Rightarrow> pool_time \<Rightarrow> bool list
    \<Rightarrow> address_pool_error + address_pool" where
  "pool_open c mode now answers =
     (case mode of
        Ephemeral \<Rightarrow> Inr (pool_new c)
      | SelfHosted meta file \<Rightarrow>
          (case journal_open meta file of
             Inl _ \<Rightarrow> Inl PStore
           | Inr j \<Rightarrow> pool_with_store c (Some (journal_load j)) now answers)
      | Managed loaded \<Rightarrow>
          (case managed_load loaded of
             Inl _ \<Rightarrow> pool_with_store c None now answers
           | Inr leases \<Rightarrow> pool_with_store c (Some leases) now answers))"

section \<open>Codec\<close>

lemma length_encode [simp]: "length (encode_lease_record l) = 68"
  by (simp add: encode_lease_record_def journal_magic_def)

lemma lease_state_wire [simp]: "lease_state_from_wire (lease_state_to_wire s) = Some s"
  by (cases s) (simp_all add: lease_state_from_wire_def)

lemma lease_state_from_wire_Some: "lease_state_from_wire b = Some s \<Longrightarrow> lease_state_to_wire s = b"
  by (auto simp: lease_state_from_wire_def split: if_split_asm)

lemma decode_encode: "decode_lease_record (encode_lease_record l) = Some l"
proof -
  let ?r = "encode_lease_record l"
  have "slice 0 4 ?r = journal_magic" "?r ! 4 = journal_version" "?r ! 5 = lease_state_to_wire (pl_state l)"
    "slice 6 22 ?r = to_be (pl_session_id l)" "slice 22 38 ?r = to_be (pl_device_id l)"
    "slice 38 42 ?r = to_be (pl_ipv4 l)" "?r ! 42 = pl_ipv4_prefix_len l"
    "slice 43 59 ?r = to_be (pl_ipv6_prefix l)" "?r ! 59 = pl_ipv6_prefix_len l"
    "slice 60 68 ?r = to_be (pl_expires_at_ms l)"
    by (simp_all add: encode_lease_record_def journal_magic_def slice_def nth_append nth_Cons')
  then show ?thesis by (simp add: decode_lease_record_def)
qed

lemma slice_nth: "i < length xs \<Longrightarrow> [xs ! i] = slice i (Suc i) xs"
  by (simp add: slice_def Cons_nth_drop_Suc [symmetric])

lemma encode_decode:
  assumes len: "length r = 68" and l: "decode_lease_record r = Some l"
  shows "encode_lease_record l = r"
proof -
  have s: "length (slice i j r) = j - i" if "j \<le> 68" for i j using that len by (simp add: length_slice)
  have n: "[r ! 4] = slice 4 5 r" "[r ! 5] = slice 5 6 r" "[r ! 42] = slice 42 43 r" "[r ! 59] = slice 59 60 r"
    using len slice_nth [of 4 r] slice_nth [of 5 r] slice_nth [of 42 r] slice_nth [of 59 r] by simp_all
  have j: "slice i j r @ slice j k r @ rest = slice i k r @ rest" if "i \<le> j" "j \<le> k" for i j k rest
    using slice_join [OF that, of r] by (simp flip: append_assoc)
  from l have "encode_lease_record l = slice 0 4 r @ [r ! 4] @ [r ! 5] @ slice 6 22 r @ slice 22 38 r @ slice 38 42 r
      @ [r ! 42] @ slice 43 59 r @ [r ! 59] @ slice 60 68 r"
    by (auto simp: decode_lease_record_def encode_lease_record_def s dest: lease_state_from_wire_Some
        split: if_split_asm option.splits)
  also have "\<dots> = slice 0 68 r"
    unfolding n by (simp add: j slice_join)
  also have "\<dots> = r" using len by (simp add: slice_def)
  finally show ?thesis .
qed

end
