(* ===== verification/JournalProps.thy ===== *)
theory JournalProps
  imports Journal Machine "HOL-Library.Multiset"
begin

text \<open>
  What the journal guarantees: a record decodes exactly when it is the encoding of the lease, and
  the store refines a pair of maps, its mirror and what a restart finds on disk. An acknowledged
  operation is on disk; a failed one leaves the disk as it was or, when only the sync after the
  rename failed, one operation ahead of the mirror.
\<close>

section \<open>Reopening what was written\<close>

lemma chunks_encoded: "chunks_exact 68 (concat (map encode_lease_record ls)) = map encode_lease_record ls"
proof (induction ls)
  case Nil
  show ?case by (simp add: chunks_exact.simps)
next
  case (Cons l ls)
  then show ?case by (simp add: chunks_exact.simps [of 68 "encode_lease_record l @ _"])
qed

lemma decode_encoded: "decode_records (map encode_lease_record ls) = Inr ls"
  by (induction ls) (simp_all add: decode_encode)

lemma length_encoded: "length (concat (map encode_lease_record ls)) = 68 * length ls"
  by (induction ls) simp_all

lemma journal_index_ok:
  "distinct (map pl_session_id ls) \<Longrightarrow> hm_ok m \<Longrightarrow> keys m \<inter> pl_session_id ` set ls = {} \<Longrightarrow>
    \<exists>m'. journal_index ls m = Inr m' \<and> hm_ok m'
      \<and> map_of m' = map_of m ++ map_of (map (\<lambda>l. (pl_session_id l, l)) ls)"
proof (induction ls arbitrary: m)
  case (Cons l ls)
  let ?m = "hm_insert (pl_session_id l) l m"
  have ok: "hm_ok ?m" using Cons.prems(2) by (rule hm.ok_ins)
  have apart: "keys ?m \<inter> pl_session_id ` set ls = {}"
    using Cons.prems by (auto simp: hm.keys_ins)
  obtain m' where m': "journal_index ls ?m = Inr m'" "hm_ok m'"
    "map_of m' = map_of ?m ++ map_of (map (\<lambda>l. (pl_session_id l, l)) ls)"
    using Cons.IH [OF _ ok apart] Cons.prems(1) by auto
  have "pl_session_id l \<notin> dom (map_of (map (\<lambda>l. (pl_session_id l, l)) ls))"
    using Cons.prems(1) by (auto simp: dom_map_of_conv_image_fst image_image)
  then have "map_of ?m ++ map_of (map (\<lambda>l. (pl_session_id l, l)) ls)
      = map_of m ++ map_of (map (\<lambda>l. (pl_session_id l, l)) (l # ls))"
    by (auto simp: map_of_hm_insert fun_eq_iff map_add_def split: option.splits)
  then have "map_of m' = map_of m ++ map_of (map (\<lambda>l. (pl_session_id l, l)) (l # ls))" by (simp only: m'(3))
  moreover have "journal_index (l # ls) m = Inr m'" using m'(1) Cons.prems(3) by auto
  ultimately show ?case using m'(2) by blast
qed simp

text \<open>The mirror is a map whose records stand under their own sessions, within the cap.\<close>

definition entries_ok :: "(session_id \<times> persisted_lease) list \<Rightarrow> bool" where
  "entries_ok m \<longleftrightarrow> hm_ok m \<and> (\<forall>(sid, l) \<in> set m. pl_session_id l = sid)"

lemma entries_by_session:
  assumes "entries_ok m"
  shows "map (\<lambda>l. (pl_session_id l, l)) (map snd m) = m" and "map pl_session_id (map snd m) = map fst m"
  using assms unfolding entries_ok_def by (auto simp: map_idI case_prod_beta)

lemma map_of_perm: "mset xs = mset ys \<Longrightarrow> distinct (map fst xs) \<Longrightarrow> map_of xs = map_of ys"
proof -
  assume eq: "mset xs = mset ys" and d: "distinct (map fst xs)"
  have "distinct (map fst ys)" using d mset_eq_imp_distinct_iff [of "map fst xs" "map fst ys"] eq by simp
  moreover have "set xs = set ys" using eq by (rule mset_eq_setD)
  ultimately show ?thesis using d by (metis map_of_in_set map_of_eqI map_of_inject_set)
qed

definition file_map :: "file_content \<Rightarrow> (session_id \<rightharpoonup> persisted_lease) option" where
  "file_map file = (case journal_open MetaValid file of Inr j \<Rightarrow> Some (map_of (js_entries j)) | Inl _ \<Rightarrow> None)"

lemma reopen_written:
  assumes ok: "entries_ok m" and bytes: "journal_bytes m = Inr bytes"
  shows "file_map (Bytes bytes) = Some (map_of m)"
proof -
  let ?ls = "sort_key pl_session_id (sort_key pl_device_id (map snd m))"
  have len: "length m \<le> 65536" and b: "bytes = concat (map encode_lease_record ?ls)"
    using bytes by (auto simp: journal_bytes_def max_leases_hard_cap_def split: if_split_asm)
  have d: "distinct (map fst m)" using ok by (simp add: entries_ok_def hm_ok_def)
  have perm: "mset (map (\<lambda>l. (pl_session_id l, l)) ?ls) = mset m"
    unfolding mset_map mset_sort unfolding mset_map [symmetric] entries_by_session(1) [OF ok] ..
  have ds: "distinct (map pl_session_id ?ls)"
  proof -
    have "distinct (map pl_session_id ?ls) \<longleftrightarrow> distinct (map pl_session_id (map snd m))"
      by (rule mset_eq_imp_distinct_iff) (simp only: mset_map mset_sort)
    then show ?thesis using d by (simp only: entries_by_session(2) [OF ok])
  qed
  from journal_index_ok [OF ds hm.ok_Nil]
  obtain m' where m': "journal_index ?ls [] = Inr m'" "map_of m' = map_of (map (\<lambda>l. (pl_session_id l, l)) ?ls)" by auto
  have "map_of (map (\<lambda>l. (pl_session_id l, l)) ?ls) = map_of m"
    by (rule map_of_perm [OF perm]) (use ds in \<open>simp add: comp_def\<close>)
  moreover have "read_journal_file (Bytes bytes) = Inr ?ls"
    using len unfolding b read_journal_file_def
    by (simp add: length_encoded journal_record_len_def max_journal_bytes_def max_leases_hard_cap_def chunks_encoded decode_encoded)
  ultimately show ?thesis
    using len m' by (simp add: file_map_def journal_open_def max_leases_hard_cap_def)
qed

section \<open>The store as a machine\<close>

datatype journal_event = JPersist persisted_lease write_end | JRelease session_id write_end

fun journal_exec :: "journal_store \<Rightarrow> journal_event \<Rightarrow> journal_store \<times> (store_error + unit)" where
  "journal_exec j (JPersist l outcome) = journal_persist j l outcome"
| "journal_exec j (JRelease sid outcome) = journal_release j sid outcome"

definition store_inv :: "journal_store \<Rightarrow> bool" where
  "store_inv j \<longleftrightarrow> entries_ok (js_entries j) \<and> file_map (js_file j) \<noteq> None"

lemma entries_ok_insert: "entries_ok m \<Longrightarrow> entries_ok (hm_insert (pl_session_id l) l m)"
  unfolding entries_ok_def by (auto simp: hm.ok_ins hm.set_ins)

lemma entries_ok_remove: "entries_ok m \<Longrightarrow> entries_ok (kt_remove sid m)"
  unfolding entries_ok_def using hm.ok_remove by (auto simp: set_kt_remove)

lemma commit_cases:
  assumes ok: "entries_ok snapshot" and step: "journal_commit j snapshot outcome = (j', r)"
  obtains "65536 < length snapshot" and "j' = j" and "r = Inl SIo"
  | "length snapshot \<le> 65536" and "outcome = Written" and "js_entries j' = snapshot"
    and "file_map (js_file j') = Some (map_of snapshot)" and "r = Inr ()"
  | "length snapshot \<le> 65536" and "outcome = NotWritten" and "j' = j" and "r = Inl SIo"
  | "length snapshot \<le> 65536" and "outcome = WrittenUnsynced" and "js_entries j' = js_entries j"
    and "file_map (js_file j') = Some (map_of snapshot)" and "r = Inl SIo"
proof (cases "65536 < length snapshot")
  case True
  with step that(1) show ?thesis
    by (simp add: journal_commit_def rewrite_journal_def journal_bytes_def max_leases_hard_cap_def)
next
  case False
  then obtain bytes where b: "journal_bytes snapshot = Inr bytes"
    by (simp add: journal_bytes_def max_leases_hard_cap_def)
  from reopen_written [OF ok b] step b False that(2-4) show ?thesis
    by (cases outcome) (auto simp: journal_commit_def rewrite_journal_def)
qed

interpretation journal: keeps_invariant journal_exec store_inv
proof
  fix j e j' r
  assume inv: "store_inv j" and step: "journal_exec j e = (j', r)"
  obtain snapshot outcome where ok: "entries_ok snapshot" and c: "journal_commit j snapshot outcome = (j', r)"
  proof (cases e)
    case (JPersist l w)
    with step inv show ?thesis
      by (intro that [of "hm_insert (pl_session_id l) l (js_entries j)" w])
        (simp_all add: journal_persist_def store_inv_def entries_ok_insert)
  next
    case (JRelease sid w)
    with step inv show ?thesis
      by (intro that [of "kt_remove sid (js_entries j)" w]) (simp_all add: journal_release_def store_inv_def entries_ok_remove)
  qed
  from c ok show "store_inv j'"
    by (cases rule: commit_cases [OF ok c]) (use inv in \<open>simp_all add: store_inv_def\<close>)
qed

lemma journal_open_inv:
  assumes "journal_open meta file = Inr j"
  shows "store_inv j \<and> file_map (js_file j) = Some (map_of (js_entries j))"
proof -
  obtain ls where ls: "read_journal_file file = Inr ls" "\<not> max_leases_hard_cap < length ls"
    and m: "journal_index ls [] = Inr (js_entries j)" and f: "js_file j = file"
    using assms unfolding journal_open_def
    by (auto simp: rbind_Inr split: file_meta.splits if_split_asm)
  have step: "journal_index ls m = Inr m' \<Longrightarrow> entries_ok m \<Longrightarrow> entries_ok m'" for ls m m'
    by (induction ls arbitrary: m) (auto simp: entries_ok_insert split: if_split_asm)
  have "entries_ok []" by (simp add: entries_ok_def hm.ok_Nil)
  from step [OF m this] have "entries_ok (js_entries j)" .
  moreover have "file_map file = Some (map_of (js_entries j))"
    unfolding file_map_def journal_open_def using ls m by simp
  ultimately show ?thesis by (simp add: store_inv_def f)
qed

text \<open>The specification: the mirror and what is on disk, as two maps.\<close>

type_synonym ledger = "session_id \<rightharpoonup> persisted_lease"

fun ledger_step :: "ledger \<times> ledger \<Rightarrow> journal_event \<Rightarrow> (ledger \<times> ledger) \<times> (store_error + unit)" where
  "ledger_step (mirror, disk) e =
     (let (target, outcome) = (case e of
            JPersist l w \<Rightarrow> (mirror(pl_session_id l \<mapsto> l), w)
          | JRelease sid w \<Rightarrow> (mirror(sid := None), w))
      in if 65536 < card (dom target) then ((mirror, disk), Inl SIo)
      else case outcome of
        Written \<Rightarrow> ((target, target), Inr ())
      | NotWritten \<Rightarrow> ((mirror, disk), Inl SIo)
      | WrittenUnsynced \<Rightarrow> ((mirror, target), Inl SIo))"

definition ledger_of :: "journal_store \<Rightarrow> ledger \<times> ledger" where
  "ledger_of j = (map_of (js_entries j), the (file_map (js_file j)))"

lemma card_dom_entries: "hm_ok m \<Longrightarrow> card (dom (map_of m)) = length m"
  by (simp add: hm.length_eq_card dom_map_of_conv_image_fst)

lemma ledger_commit:
  assumes inv: "store_inv j" and ok: "entries_ok snapshot" and c: "journal_commit j snapshot outcome = (j', r)"
  shows "(ledger_of j', r) =
    (if 65536 < card (dom (map_of snapshot)) then (ledger_of j, Inl SIo)
     else case outcome of
        Written \<Rightarrow> ((map_of snapshot, map_of snapshot), Inr ())
      | NotWritten \<Rightarrow> (ledger_of j, Inl SIo)
      | WrittenUnsynced \<Rightarrow> ((map_of (js_entries j), map_of snapshot), Inl SIo))"
proof -
  have "card (dom (map_of snapshot)) = length snapshot" using ok by (simp add: entries_ok_def card_dom_entries)
  with c show ?thesis by (cases rule: commit_cases [OF ok c]) (simp_all add: ledger_of_def)
qed

text \<open>C13. The journal store behaves as a ledger of two maps, the mirror and what a restart finds on
  disk, whatever the file system answers: an acknowledged persist or release is on disk, a write
  that fails before the rename changes nothing, and one that fails after it changes the disk only,
  so a restart always reads a journal that is the mirror or one operation ahead of it, and the file
  can always be opened.\<close>

theorem journal_refines_ledger:
  assumes "journal_open meta file = Inr j" and "trace journal_exec j tr u" and "journal_exec u e = (v, r)"
  shows "ledger_step (ledger_of u) e = (ledger_of v, r) \<and> file_map (js_file v) \<noteq> None"
proof -
  have u: "store_inv u" using journal.inv_trace [OF assms(2)] journal_open_inv [OF assms(1)] by blast
  then have ok: "entries_ok (js_entries u)" by (simp add: store_inv_def)
  have "ledger_step (ledger_of u) e = (ledger_of v, r)"
  proof (cases e)
    case (JPersist l w)
    with assms(3) have c: "journal_commit u (hm_insert (pl_session_id l) l (js_entries u)) w = (v, r)"
      by (simp add: journal_persist_def)
    from ledger_commit [OF u entries_ok_insert [OF ok] c] JPersist show ?thesis
      by (cases w) (simp_all add: ledger_of_def map_of_hm_insert)
  next
    case (JRelease sid w)
    with assms(3) have c: "journal_commit u (kt_remove sid (js_entries u)) w = (v, r)"
      by (simp add: journal_release_def)
    from ledger_commit [OF u entries_ok_remove [OF ok] c] JRelease show ?thesis
      by (cases w) (simp_all add: ledger_of_def map_of_remove)
  qed
  moreover have "store_inv v" using journal.inv_exec [OF u assms(3)] .
  ultimately show ?thesis by (simp add: store_inv_def)
qed

text \<open>A journal record of 68 bytes decodes to a lease exactly when it is that lease's encoding;
  every other magic, version or state is refused.\<close>

theorem journal_record_exact:
  "length r = 68 \<and> decode_lease_record r = Some l \<longleftrightarrow> r = encode_lease_record l"
  using encode_decode decode_encode by auto

section \<open>Witness\<close>

definition sample_lease :: persisted_lease where
  "sample_lease = \<lparr>pl_session_id = 5, pl_device_id = 7, pl_ipv4 = 9, pl_ipv4_prefix_len = 24, pl_ipv6_prefix = 11,
     pl_ipv6_prefix_len = 64, pl_state = LActive, pl_expires_at_ms = 100\<rparr>"

theorem journal_refines_ledger_witness:
  "\<exists>u v r. journal_open MetaMissing Missing = Inr u \<and> journal_exec u (JPersist sample_lease WrittenUnsynced) = (v, r)
    \<and> ledger_step (ledger_of u) (JPersist sample_lease WrittenUnsynced) = (ledger_of v, r)"
proof -
  let ?u = "\<lparr>js_entries = [], js_file = Missing\<rparr>"
  have u: "journal_open MetaMissing Missing = Inr ?u"
    by (simp add: journal_open_def read_journal_file_def)
  obtain v r where v: "journal_exec ?u (JPersist sample_lease WrittenUnsynced) = (v, r)" by fastforce
  from journal_refines_ledger [OF u trace.stop v] u v show ?thesis by blast
qed

end
