(* ===== verification/Lifecycle.thy ===== *)
theory Lifecycle
  imports CoreTypes Containers Machine
begin

text \<open>
  The session and path lifecycle of \<open>crates/sg-session/src/v2.rs\<close>: the session's own states,
  path reservations with their commit, abort and detach, the path state graph, the epoch
  history that every reused identifier must advance beyond, and the quarantine of detached
  identifiers.

  The record \<open>v2_session\<close> has the fields of \<open>V2Session\<close>; its \<open>HashMap\<close>s are association
  lists with distinct keys and the \<open>VecDeque\<close> is a list with its front first. No operation
  reads the order of a map. The \<open>while\<close> loops that pop the front of the queue recurse on it.
\<close>

section \<open>Data\<close>

datatype session_state = SPending | SActive | SDraining | SClosed

datatype path_state = PConnecting | PAttached | PHealthy | PSuspect | PFailed | PReconnecting

type_synonym connection_id = u64

record v2_session_config =
  sc_maximum_paths :: nat
  sc_maximum_path_epoch_history :: nat
  sc_maximum_path_tombstones :: nat
  sc_path_tombstone_ttl_ms :: u64

record path_tombstone_snapshot =
  ts_entries :: nat
  ts_capacity :: nat
  ts_ttl_ms :: u64
  ts_expired :: u64
  ts_capacity_evicted :: u64
  ts_epoch_history_entries :: nat
  ts_epoch_history_capacity :: nat

record admission =
  ad_session_id :: session_id
  ad_device_id :: device_id
  ad_expires_at_ms :: u64

record path_binding =
  pb_path_id :: path_id
  pb_path_epoch :: u64
  pb_key_epoch :: u32
  pb_connection_id :: connection_id
  pb_state :: path_state

record attach_reservation =
  ar_path_id :: path_id
  ar_path_epoch :: u64
  ar_key_epoch :: u32
  ar_connection_id :: connection_id

datatype lifecycle_error =
    InvalidConfiguration
  | SessionExpired
  | InvalidSessionState
  | InvalidPathEpoch
  | InvalidKeyEpoch
  | ConnectionAlreadyBound
  | PathCapacity
  | PathIdentifierExhausted
  | UnknownReservation
  | InvalidPathState

record path_entry =
  pe_binding :: path_binding
  pe_reserved :: bool

record path_epochs =
  ep_path_epoch :: u64
  ep_key_epoch :: u32

record path_tombstone =
  pt_expires_at_ms :: u64

record v2_session =
  vs_admission :: admission
  vs_state :: session_state
  vs_maximum_paths :: nat
  vs_paths :: "(path_id \<times> path_entry) list"
  vs_next_path_id :: u16
  vs_path_epoch_history :: "(path_id \<times> path_epochs) list"
  vs_path_tombstones :: "(path_id \<times> path_tombstone) list"
  vs_tombstone_order :: "path_id list"
  vs_maximum_path_epoch_history :: nat
  vs_maximum_path_tombstones :: nat
  vs_path_tombstone_ttl_ms :: u64
  vs_tombstones_expired :: u64
  vs_tombstones_capacity_evicted :: u64

section \<open>Operations\<close>

definition v2_session_new ::
  "v2_session_config \<Rightarrow> admission \<Rightarrow> u64 \<Rightarrow> lifecycle_error + v2_session" where
  "v2_session_new config admission now =
     (if sc_maximum_paths config = 0
         \<or> 65535 < sc_maximum_paths config
         \<or> sc_maximum_path_epoch_history config < sc_maximum_paths config
         \<or> 65535 < sc_maximum_path_epoch_history config
         \<or> sc_maximum_path_tombstones config = 0
         \<or> sc_path_tombstone_ttl_ms config = 0
         \<or> ad_expires_at_ms admission = 0
      then Inl InvalidConfiguration
      else if ad_expires_at_ms admission \<le> now then Inl SessionExpired
      else Inr \<lparr>
        vs_admission = admission,
        vs_state = SPending,
        vs_maximum_paths = sc_maximum_paths config,
        vs_paths = [],
        vs_next_path_id = 1,
        vs_path_epoch_history = [],
        vs_path_tombstones = [],
        vs_tombstone_order = [],
        vs_maximum_path_epoch_history = sc_maximum_path_epoch_history config,
        vs_maximum_path_tombstones = sc_maximum_path_tombstones config,
        vs_path_tombstone_ttl_ms = sc_path_tombstone_ttl_ms config,
        vs_tombstones_expired = 0,
        vs_tombstones_capacity_evicted = 0\<rparr>)"

definition vs_path :: "v2_session \<Rightarrow> path_id \<Rightarrow> path_binding option" where
  "vs_path s p = map_option pe_binding (map_of (vs_paths s) p)"

definition vs_path_count :: "v2_session \<Rightarrow> nat" where
  "vs_path_count s = length (vs_paths s)"

definition vs_tombstone_snapshot :: "v2_session \<Rightarrow> path_tombstone_snapshot" where
  "vs_tombstone_snapshot s = \<lparr>
     ts_entries = length (vs_path_tombstones s),
     ts_capacity = vs_maximum_path_tombstones s,
     ts_ttl_ms = vs_path_tombstone_ttl_ms s,
     ts_expired = vs_tombstones_expired s,
     ts_capacity_evicted = vs_tombstones_capacity_evicted s,
     ts_epoch_history_entries = length (vs_path_epoch_history s),
     ts_epoch_history_capacity = vs_maximum_path_epoch_history s\<rparr>"

text \<open>The loop of \<open>prune_path_tombstones\<close> on the queue, the table and the counter.\<close>

fun prune_front :: "u64 \<Rightarrow> path_id list \<Rightarrow> (path_id \<times> path_tombstone) list \<Rightarrow> u64
    \<Rightarrow> path_id list \<times> (path_id \<times> path_tombstone) list \<times> u64" where
  "prune_front now [] tombs expired = ([], tombs, expired)"
| "prune_front now (p # order) tombs expired =
     (case map_of tombs p of
        None \<Rightarrow> prune_front now order tombs expired
      | Some t \<Rightarrow>
          if now < pt_expires_at_ms t then (p # order, tombs, expired)
          else prune_front now order (kt_remove p tombs) (sat_inc expired))"

definition prune_path_tombstones :: "u64 \<Rightarrow> v2_session \<Rightarrow> v2_session" where
  "prune_path_tombstones now s =
     (let (order, tombs, expired) =
        prune_front now (vs_tombstone_order s) (vs_path_tombstones s) (vs_tombstones_expired s)
      in s\<lparr>vs_path_tombstones := tombs, vs_tombstone_order := order,
           vs_tombstones_expired := expired\<rparr>)"

definition vs_is_expired :: "v2_session \<Rightarrow> u64 \<Rightarrow> bool" where
  "vs_is_expired s now \<longleftrightarrow> ad_expires_at_ms (vs_admission s) \<le> now"

definition vs_activate :: "v2_session \<Rightarrow> u64 \<Rightarrow> v2_session \<times> (lifecycle_error + unit)" where
  "vs_activate s now =
     (if vs_is_expired s now then (s, Inl SessionExpired)
      else if vs_state s \<noteq> SPending then (s, Inl InvalidSessionState)
      else (s\<lparr>vs_state := SActive\<rparr>, Inr ()))"

definition vs_begin_draining :: "v2_session \<Rightarrow> v2_session \<times> (lifecycle_error + unit)" where
  "vs_begin_draining s =
     (if vs_state s \<noteq> SActive then (s, Inl InvalidSessionState)
      else (s\<lparr>vs_state := SDraining\<rparr>, Inr ()))"

definition vs_close :: "v2_session \<Rightarrow> v2_session \<times> bool" where
  "vs_close s =
     (if vs_state s = SClosed then (s, False)
      else (s\<lparr>vs_state := SClosed, vs_paths := []\<rparr>, True))"

definition next_id :: "u16 \<Rightarrow> u16" where
  "next_id n = (if n = - 1 then 1 else n + 1)"

text \<open>The loop of \<open>allocate_path_id\<close> with the turns it has left.\<close>

fun allocate_turns :: "nat \<Rightarrow> v2_session \<Rightarrow> u64 \<Rightarrow> u32 \<Rightarrow> v2_session \<times> path_id option" where
  "allocate_turns 0 s path_epoch key_epoch = (s, None)"
| "allocate_turns (Suc n) s path_epoch key_epoch =
     (let path_id = vs_next_path_id s;
          s = s\<lparr>vs_next_path_id := next_id (vs_next_path_id s)\<rparr>
      in if path_id \<in> keys (vs_paths s) \<or> path_id \<in> keys (vs_path_tombstones s)
         then allocate_turns n s path_epoch key_epoch
         else case map_of (vs_path_epoch_history s) path_id of
           Some previous \<Rightarrow>
             if path_epoch \<le> ep_path_epoch previous \<or> key_epoch \<le> ep_key_epoch previous
             then allocate_turns n s path_epoch key_epoch
             else (s, Some path_id)
         | None \<Rightarrow>
             if length (vs_path_epoch_history s) < vs_maximum_path_epoch_history s
             then (s, Some path_id)
             else allocate_turns n s path_epoch key_epoch)"

definition allocate_path_id :: "v2_session \<Rightarrow> u64 \<Rightarrow> u32 \<Rightarrow> v2_session \<times> path_id option" where
  "allocate_path_id s path_epoch key_epoch = allocate_turns 65535 s path_epoch key_epoch"

definition reserve_attach ::
  "v2_session \<Rightarrow> connection_id \<Rightarrow> u64 \<Rightarrow> u32 \<Rightarrow> u64
    \<Rightarrow> v2_session \<times> (lifecycle_error + attach_reservation)" where
  "reserve_attach s conn path_epoch key_epoch now =
     (let s = prune_path_tombstones now s in
      if vs_is_expired s now then (s, Inl SessionExpired)
      else if vs_state s \<noteq> SActive then (s, Inl InvalidSessionState)
      else if path_epoch = 0 then (s, Inl InvalidPathEpoch)
      else if key_epoch = 0 then (s, Inl InvalidKeyEpoch)
      else if list_ex (\<lambda>(_, path). pb_connection_id (pe_binding path) = conn) (vs_paths s)
      then (s, Inl ConnectionAlreadyBound)
      else if vs_maximum_paths s \<le> length (vs_paths s) then (s, Inl PathCapacity)
      else case allocate_path_id s path_epoch key_epoch of
        (s, None) \<Rightarrow> (s, Inl PathIdentifierExhausted)
      | (s, Some path_id) \<Rightarrow>
          let s = s\<lparr>vs_path_epoch_history := hm_insert path_id
                \<lparr>ep_path_epoch = path_epoch, ep_key_epoch = key_epoch\<rparr> (vs_path_epoch_history s)\<rparr>;
              reservation = \<lparr>ar_path_id = path_id, ar_path_epoch = path_epoch,
                ar_key_epoch = key_epoch, ar_connection_id = conn\<rparr>
          in (s\<lparr>vs_paths := hm_insert path_id
                \<lparr>pe_binding = \<lparr>pb_path_id = path_id, pb_path_epoch = path_epoch,
                    pb_key_epoch = key_epoch, pb_connection_id = conn, pb_state = PConnecting\<rparr>,
                 pe_reserved = True\<rparr> (vs_paths s)\<rparr>, Inr reservation))"

text \<open>The reservation still names an uncommitted path.\<close>

definition reservation_matches :: "path_entry \<Rightarrow> attach_reservation \<Rightarrow> bool" where
  "reservation_matches path r \<longleftrightarrow> pe_reserved path
     \<and> pb_connection_id (pe_binding path) = ar_connection_id r
     \<and> pb_path_epoch (pe_binding path) = ar_path_epoch r
     \<and> pb_key_epoch (pe_binding path) = ar_key_epoch r"

definition commit_attach ::
  "v2_session \<Rightarrow> attach_reservation \<Rightarrow> v2_session \<times> (lifecycle_error + path_binding)" where
  "commit_attach s r =
     (case map_of (vs_paths s) (ar_path_id r) of
        None \<Rightarrow> (s, Inl UnknownReservation)
      | Some path \<Rightarrow>
          if \<not> reservation_matches path r then (s, Inl UnknownReservation)
          else let binding = (pe_binding path)\<lparr>pb_state := PAttached\<rparr>
               in (s\<lparr>vs_paths := hm_insert (ar_path_id r)
                     \<lparr>pe_binding = binding, pe_reserved = False\<rparr> (vs_paths s)\<rparr>, Inr binding))"

definition abort_attach :: "v2_session \<Rightarrow> attach_reservation \<Rightarrow> v2_session \<times> bool" where
  "abort_attach s r =
     (case map_of (vs_paths s) (ar_path_id r) of
        None \<Rightarrow> (s, False)
      | Some path \<Rightarrow>
          if reservation_matches path r
          then (s\<lparr>vs_paths := kt_remove (ar_path_id r) (vs_paths s)\<rparr>, True)
          else (s, False))"

text \<open>The loop of \<open>insert_tombstone\<close> that makes room for one more.\<close>

fun evict_front :: "nat \<Rightarrow> path_id list \<Rightarrow> (path_id \<times> path_tombstone) list \<Rightarrow> u64
    \<Rightarrow> path_id list \<times> (path_id \<times> path_tombstone) list \<times> u64" where
  "evict_front cap [] tombs evicted = ([], tombs, evicted)"
| "evict_front cap (p # order) tombs evicted =
     (if cap \<le> length tombs
      then (if p \<in> keys tombs
            then evict_front cap order (kt_remove p tombs) (sat_inc evicted)
            else evict_front cap order tombs evicted)
      else (p # order, tombs, evicted))"

definition path_insert_tombstone ::
  "path_id \<Rightarrow> u64 \<Rightarrow> u32 \<Rightarrow> u64 \<Rightarrow> v2_session \<Rightarrow> v2_session" where
  "path_insert_tombstone path_id path_epoch key_epoch now s =
     (let (order, tombs, evicted) = evict_front (vs_maximum_path_tombstones s)
            (vs_tombstone_order s) (vs_path_tombstones s) (vs_tombstones_capacity_evicted s);
          epochs = (case map_of (vs_path_epoch_history s) path_id of
              Some e \<Rightarrow> \<lparr>ep_path_epoch = max (ep_path_epoch e) path_epoch,
                         ep_key_epoch = max (ep_key_epoch e) key_epoch\<rparr>
            | None \<Rightarrow> \<lparr>ep_path_epoch = path_epoch, ep_key_epoch = key_epoch\<rparr>)
      in s\<lparr>vs_path_epoch_history := hm_insert path_id epochs (vs_path_epoch_history s),
           vs_path_tombstones := hm_insert path_id
             \<lparr>pt_expires_at_ms = sat_add now (vs_path_tombstone_ttl_ms s)\<rparr> tombs,
           vs_tombstone_order := order @ [path_id],
           vs_tombstones_capacity_evicted := evicted\<rparr>)"

definition detach :: "v2_session \<Rightarrow> path_id \<Rightarrow> connection_id \<Rightarrow> u64 \<Rightarrow> u64 \<Rightarrow> v2_session \<times> bool" where
  "detach s path_id conn path_epoch now =
     (case map_of (vs_paths s) path_id of
        None \<Rightarrow> (s, False)
      | Some path \<Rightarrow>
          if pe_reserved path \<or> pb_connection_id (pe_binding path) \<noteq> conn
             \<or> pb_path_epoch (pe_binding path) \<noteq> path_epoch
          then (s, False)
          else let s = path_insert_tombstone path_id (pb_path_epoch (pe_binding path))
                 (pb_key_epoch (pe_binding path)) now s
               in (s\<lparr>vs_paths := kt_remove path_id (vs_paths s)\<rparr>, path_id \<in> keys (vs_paths s)))"

fun valid_path_transition :: "path_state \<Rightarrow> path_state \<Rightarrow> bool" where
  "valid_path_transition PConnecting next \<longleftrightarrow> next = PAttached \<or> next = PFailed"
| "valid_path_transition PAttached next \<longleftrightarrow> next = PHealthy \<or> next = PFailed"
| "valid_path_transition PHealthy next \<longleftrightarrow> next = PSuspect \<or> next = PFailed"
| "valid_path_transition PSuspect next \<longleftrightarrow> next = PHealthy \<or> next = PFailed"
| "valid_path_transition PFailed next \<longleftrightarrow> next = PReconnecting"
| "valid_path_transition PReconnecting next \<longleftrightarrow> next = PConnecting \<or> next = PFailed"

definition set_path_state ::
  "v2_session \<Rightarrow> path_id \<Rightarrow> path_state \<Rightarrow> v2_session \<times> (lifecycle_error + path_binding)" where
  "set_path_state s path_id next =
     (case map_of (vs_paths s) path_id of
        None \<Rightarrow> (s, Inl UnknownReservation)
      | Some path \<Rightarrow>
          if pe_reserved path \<or> \<not> valid_path_transition (pb_state (pe_binding path)) next
          then (s, Inl InvalidPathState)
          else let binding = (pe_binding path)\<lparr>pb_state := next\<rparr>
               in (s\<lparr>vs_paths := hm_insert path_id (path\<lparr>pe_binding := binding\<rparr>) (vs_paths s)\<rparr>,
                   Inr binding))"

section \<open>The session as a machine\<close>

datatype lifecycle_event =
    Prune u64
  | Activate u64
  | BeginDraining
  | Close
  | Reserve connection_id u64 u32 u64
  | Commit attach_reservation
  | Abort attach_reservation
  | Detach path_id connection_id u64 u64
  | SetPathState path_id path_state

datatype lifecycle_outcome =
    Done
  | Failed lifecycle_error
  | Answer bool
  | Reserved attach_reservation
  | Bound path_binding

definition of_result :: "('a \<Rightarrow> lifecycle_outcome) \<Rightarrow> lifecycle_error + 'a \<Rightarrow> lifecycle_outcome" where
  "of_result f r = (case r of Inl e \<Rightarrow> Failed e | Inr x \<Rightarrow> f x)"

fun lc_exec :: "(v2_session, lifecycle_event, lifecycle_outcome) machine" where
  "lc_exec s (Prune now) = (prune_path_tombstones now s, Done)"
| "lc_exec s (Activate now) = map_prod id (of_result (\<lambda>_. Done)) (vs_activate s now)"
| "lc_exec s BeginDraining = map_prod id (of_result (\<lambda>_. Done)) (vs_begin_draining s)"
| "lc_exec s Close = map_prod id Answer (vs_close s)"
| "lc_exec s (Reserve conn e k now) =
     map_prod id (of_result Reserved) (reserve_attach s conn e k now)"
| "lc_exec s (Commit r) = map_prod id (of_result Bound) (commit_attach s r)"
| "lc_exec s (Abort r) = map_prod id Answer (abort_attach s r)"
| "lc_exec s (Detach p conn e now) = map_prod id Answer (detach s p conn e now)"
| "lc_exec s (SetPathState p st) = map_prod id (of_result Bound) (set_path_state s p st)"

definition lc_reachable :: "v2_session \<Rightarrow> bool" where
  "lc_reachable s \<longleftrightarrow> (\<exists>config ad now s0 tr. v2_session_new config ad now = Inr s0 \<and>
     trace lc_exec s0 tr s)"

end
