(* ===== verification/Envelope.thy ===== *)
theory Envelope
  imports CoreTypes
begin

text \<open>
  The V2 datagram codec of \<open>crates/sg-protocol/src/v2.rs\<close>: a fixed 52-byte header and a
  payload bounded by the path limit. The properties are that the two directions are
  inverse to each other: what is encoded decodes to itself, and the decoder accepts
  nothing but the bytes the encoder would produce.
\<close>

section \<open>Data\<close>

definition VERSION :: byte where
  "VERSION = 2"

definition FIXED_HEADER_LEN :: nat where
  "FIXED_HEADER_LEN = 52"

datatype direction = ClientToGateway | GatewayToClient

type_synonym payload_limit = nat

record v2_header =
  vh_traffic_class :: traffic_class
  vh_direction :: direction
  vh_session_id :: session_id
  vh_path_id :: path_id
  vh_path_epoch :: u64
  vh_key_epoch :: u32
  vh_flow_id :: flow_id
  vh_packet_id :: packet_id

record v2_envelope =
  ve_header :: v2_header
  ve_payload :: "byte list"

datatype v2_envelope_error =
    TruncatedHeader
  | UnsupportedVersion byte
  | ReservedFlags byte
  | UnknownTrafficClass byte
  | ControlDatagram
  | UnknownDirection byte
  | ZeroPathEpoch
  | ZeroKeyEpoch
  | EmptyPayload
  | PayloadExceedsLimit nat nat
  | PayloadLengthOverflow
  | TruncatedPayload nat nat
  | TrailingData nat nat

fun dir_from_wire :: "byte \<Rightarrow> direction option" where
  "dir_from_wire value =
     (if value = 1 then Some ClientToGateway
      else if value = 2 then Some GatewayToClient
      else None)"

fun dir_to_wire :: "direction \<Rightarrow> byte" where
  "dir_to_wire ClientToGateway = 1"
| "dir_to_wire GatewayToClient = 2"

lemma dir_from_to_wire [simp]: "dir_from_wire (dir_to_wire d) = Some d"
  by (cases d) simp_all

lemma dir_from_wire_Some: "dir_from_wire b = Some d \<Longrightarrow> dir_to_wire d = b"
  by (auto split: if_splits)

declare dir_from_wire.simps [simp del]

section \<open>Operations\<close>

definition validate_header :: "v2_header \<Rightarrow> v2_envelope_error + unit" where
  "validate_header header =
     (if vh_traffic_class header = Control then Inl ControlDatagram
      else if vh_path_epoch header = 0 then Inl ZeroPathEpoch
      else if vh_key_epoch header = 0 then Inl ZeroKeyEpoch
      else Inr ())"

definition validate_payload_len :: "nat \<Rightarrow> payload_limit \<Rightarrow> v2_envelope_error + unit" where
  "validate_payload_len len limit =
     (if len = 0 then Inl EmptyPayload
      else if limit < len then Inl (PayloadExceedsLimit len limit)
      else if 65535 < len then Inl PayloadLengthOverflow
      else Inr ())"

definition envelope_encode :: "v2_envelope \<Rightarrow> payload_limit \<Rightarrow> v2_envelope_error + byte list" where
  "envelope_encode e limit =
     (let h = ve_header e in
      rbind (validate_header h) (\<lambda>_.
      rbind (validate_payload_len (length (ve_payload e)) limit) (\<lambda>_.
      Inr ([VERSION]
         @ [tc_to_wire (vh_traffic_class h)]
         @ [0]
         @ [dir_to_wire (vh_direction h)]
         @ to_be (vh_session_id h)
         @ to_be (vh_path_id h)
         @ to_be (vh_path_epoch h)
         @ to_be (vh_key_epoch h)
         @ to_be (vh_flow_id h)
         @ to_be (vh_packet_id h)
         @ to_be (word_of_nat (length (ve_payload e)) :: u16)
         @ ve_payload e))))"

definition envelope_decode :: "byte list \<Rightarrow> payload_limit \<Rightarrow> v2_envelope_error + v2_envelope" where
  "envelope_decode datagram limit =
     (if length datagram < FIXED_HEADER_LEN then Inl TruncatedHeader
      else if datagram ! 0 \<noteq> VERSION then Inl (UnsupportedVersion (datagram ! 0))
      else case tc_from_wire (datagram ! 1) of
        None \<Rightarrow> Inl (UnknownTrafficClass (datagram ! 1))
      | Some tc \<Rightarrow>
          if datagram ! 2 \<noteq> 0 then Inl (ReservedFlags (datagram ! 2))
          else if tc = Control then Inl ControlDatagram
          else case dir_from_wire (datagram ! 3) of
            None \<Rightarrow> Inl (UnknownDirection (datagram ! 3))
          | Some dir \<Rightarrow>
              let header = \<lparr>
                    vh_traffic_class = tc,
                    vh_direction = dir,
                    vh_session_id = from_be (slice 4 20 datagram),
                    vh_path_id = from_be [datagram ! 20, datagram ! 21],
                    vh_path_epoch = from_be (slice 22 30 datagram),
                    vh_key_epoch = from_be (slice 30 34 datagram),
                    vh_flow_id = from_be (slice 34 42 datagram),
                    vh_packet_id = from_be (slice 42 50 datagram)\<rparr>;
                  payload_len = unat (from_be [datagram ! 50, datagram ! 51] :: u16);
                  actual = length datagram - FIXED_HEADER_LEN
              in rbind (validate_header header) (\<lambda>_.
                 rbind (validate_payload_len payload_len limit) (\<lambda>_.
                 if actual < payload_len then Inl (TruncatedPayload payload_len actual)
                 else if payload_len < actual then Inl (TrailingData payload_len actual)
                 else Inr \<lparr>ve_header = header,
                           ve_payload = drop FIXED_HEADER_LEN datagram\<rparr>)))"

section \<open>Lemmas\<close>

lemma validate_header_Inr:
  "validate_header h = Inr u \<longleftrightarrow>
     vh_traffic_class h \<noteq> Control \<and> vh_path_epoch h \<noteq> 0 \<and> vh_key_epoch h \<noteq> 0"
  by (auto simp: validate_header_def)

lemma validate_payload_len_Inr:
  "validate_payload_len n l = Inr u \<longleftrightarrow> 0 < n \<and> n \<le> l \<and> n \<le> 65535"
  by (auto simp: validate_payload_len_def)

lemma two_bytes: "i + 1 < length xs \<Longrightarrow> [xs ! i, xs ! (i + 1)] = slice i (i + 2) xs"
  by (simp add: slice_def take_Suc_conv_app_nth numeral_2_eq_2 nth_drop)

text \<open>The datagram as the concatenation of its fields.\<close>

definition header_bytes :: "v2_header \<Rightarrow> nat \<Rightarrow> byte list" where
  "header_bytes h n =
     VERSION # tc_to_wire (vh_traffic_class h) # 0 # dir_to_wire (vh_direction h)
     # to_be (vh_session_id h) @ to_be (vh_path_id h) @ to_be (vh_path_epoch h)
     @ to_be (vh_key_epoch h) @ to_be (vh_flow_id h) @ to_be (vh_packet_id h)
     @ to_be (word_of_nat n :: u16)"

lemma length_header_bytes [simp]: "length (header_bytes h n) = 52"
  by (simp add: header_bytes_def)

lemma envelope_encode_Inr:
  "envelope_encode e l = Inr bs \<longleftrightarrow>
     validate_header (ve_header e) = Inr () \<and>
     validate_payload_len (length (ve_payload e)) l = Inr () \<and>
     bs = header_bytes (ve_header e) (length (ve_payload e)) @ ve_payload e"
  by (auto simp: envelope_encode_def rbind_Inr Let_def header_bytes_def)

lemma header_fields:
  assumes d: "d = header_bytes h n @ p"
  shows "d ! 0 = VERSION" "d ! Suc 0 = tc_to_wire (vh_traffic_class h)" "d ! 2 = 0"
    "d ! 3 = dir_to_wire (vh_direction h)"
    "slice 4 20 d = to_be (vh_session_id h)"
    "slice 20 22 d = to_be (vh_path_id h)"
    "slice 22 30 d = to_be (vh_path_epoch h)"
    "slice 30 34 d = to_be (vh_key_epoch h)"
    "slice 34 42 d = to_be (vh_flow_id h)"
    "slice 42 50 d = to_be (vh_packet_id h)"
    "slice 50 52 d = to_be (word_of_nat n :: u16)"
  by (simp_all add: d header_bytes_def slice_def nth_Cons' drop_Cons')

lemma header_pairs:
  assumes "52 \<le> length d"
  shows "[d ! 20, d ! 21] = slice 20 22 d" "[d ! 50, d ! 51] = slice 50 52 d"
  using assms two_bytes [of 20 d] two_bytes [of 50 d] by simp_all

lemma slice_first: "slice 0 n xs = take n xs"
  by (simp add: slice_def)

lemma four_bytes: "4 \<le> length d \<Longrightarrow> slice 0 4 d = [d ! 0, d ! 1, d ! 2, d ! 3]"
  by (cases d; cases "tl d"; cases "tl (tl d)"; cases "tl (tl (tl d))")
    (auto simp: slice_def numeral_eq_Suc)

text \<open>A datagram of at least the header's length is the join of its fields.\<close>

lemma datagram_split:
  assumes "52 \<le> length d"
  shows "d = [d ! 0, d ! 1, d ! 2, d ! 3] @ slice 4 20 d @ slice 20 22 d @ slice 22 30 d
    @ slice 30 34 d @ slice 34 42 d @ slice 42 50 d @ slice 50 52 d @ drop 52 d"
proof -
  have "slice 0 4 d @ slice 4 20 d @ slice 20 22 d @ slice 22 30 d @ slice 30 34 d
      @ slice 34 42 d @ slice 42 50 d @ slice 50 52 d = take 52 d"
    by (simp add: slice_join del: slice_first) (simp add: slice_first)
  then have "d = (slice 0 4 d @ slice 4 20 d @ slice 20 22 d @ slice 22 30 d @ slice 30 34 d
      @ slice 34 42 d @ slice 42 50 d @ slice 50 52 d) @ drop 52 d"
    by (simp only: append_take_drop_id)
  also have "\<dots> = [d ! 0, d ! 1, d ! 2, d ! 3] @ slice 4 20 d @ slice 20 22 d @ slice 22 30 d
      @ slice 30 34 d @ slice 34 42 d @ slice 42 50 d @ slice 50 52 d @ drop 52 d"
    using assms by (simp only: four_bytes append_assoc)
  finally show ?thesis .
qed

lemma envelope_decode_Inr:
  "envelope_decode d l = Inr e \<longleftrightarrow>
     52 \<le> length d \<and> d ! 0 = VERSION \<and> d ! 2 = 0 \<and>
     tc_from_wire (d ! 1) = Some (vh_traffic_class (ve_header e)) \<and>
     dir_from_wire (d ! 3) = Some (vh_direction (ve_header e)) \<and>
     vh_session_id (ve_header e) = from_be (slice 4 20 d) \<and>
     vh_path_id (ve_header e) = from_be (slice 20 22 d) \<and>
     vh_path_epoch (ve_header e) = from_be (slice 22 30 d) \<and>
     vh_key_epoch (ve_header e) = from_be (slice 30 34 d) \<and>
     vh_flow_id (ve_header e) = from_be (slice 34 42 d) \<and>
     vh_packet_id (ve_header e) = from_be (slice 42 50 d) \<and>
     ve_payload e = drop 52 d \<and>
     validate_header (ve_header e) = Inr () \<and>
     validate_payload_len (length d - 52) l = Inr () \<and>
     unat (from_be (slice 50 52 d) :: u16) = length d - 52"
  (is "_ \<longleftrightarrow> ?R")
proof
  assume L: "envelope_decode d l = Inr e"
  then have len: "52 \<le> length d"
    by (auto simp: envelope_decode_def FIXED_HEADER_LEN_def split: if_splits)
  from L show ?R
    unfolding envelope_decode_def header_pairs [OF len]
    by (auto simp: FIXED_HEADER_LEN_def Let_def rbind_Inr split: if_splits option.splits)
next
  assume R: ?R
  then have len: "52 \<le> length d" by blast
  from R show "envelope_decode d l = Inr e"
    unfolding envelope_decode_def header_pairs [OF len]
    by (cases e, cases "ve_header e")
      (auto simp: FIXED_HEADER_LEN_def Let_def rbind_Inr validate_header_Inr)
qed

section \<open>The codec is exact\<close>

text \<open>Every datagram the encoder produces decodes, under the same path limit, to the
  envelope it was made from.\<close>

lemma envelope_roundtrip:
  assumes "envelope_encode e limit = Inr datagram"
  shows "envelope_decode datagram limit = Inr e"
proof -
  let ?n = "length (ve_payload e)"
  from assms have v: "validate_header (ve_header e) = Inr ()"
    and p: "validate_payload_len ?n limit = Inr ()"
    and d: "datagram = header_bytes (ve_header e) ?n @ ve_payload e"
    by (simp_all add: envelope_encode_Inr)
  from p have "unat (word_of_nat ?n :: u16) = ?n"
    by (simp add: validate_payload_len_Inr unat_of_nat)
  with v p show ?thesis
    by (simp add: envelope_decode_Inr header_fields [OF d]) (simp add: d)
qed

definition sample_header :: v2_header where
  "sample_header = \<lparr>vh_traffic_class = Realtime, vh_direction = ClientToGateway,
     vh_session_id = 7, vh_path_id = 1, vh_path_epoch = 3, vh_key_epoch = 4,
     vh_flow_id = 5, vh_packet_id = 9\<rparr>"

definition sample_envelope :: v2_envelope where
  "sample_envelope = \<lparr>ve_header = sample_header, ve_payload = [69, 0, 1]\<rparr>"

lemma sample_encodes:
  "envelope_encode sample_envelope 1300 = Inr (header_bytes sample_header 3 @ [69, 0, 1])"
  by (simp add: envelope_encode_Inr sample_envelope_def sample_header_def
      validate_header_Inr validate_payload_len_Inr numeral_3_eq_3)

text \<open>The decoder accepts only canonical datagrams: what it accepts re-encodes to the
  same bytes, so no two datagrams carry the same envelope and no accepted bit is ignored.\<close>

lemma envelope_canonical:
  assumes "envelope_decode datagram limit = Inr e"
  shows "envelope_encode e limit = Inr datagram"
proof -
  from assms have len: "52 \<le> length datagram"
    and tc: "tc_to_wire (vh_traffic_class (ve_header e)) = datagram ! 1"
    and dir: "dir_to_wire (vh_direction (ve_header e)) = datagram ! 3"
    and n: "unat (from_be (slice 50 52 datagram) :: u16) = length datagram - 52"
    by (auto simp: envelope_decode_Inr intro: tc_from_wire_Some dir_from_wire_Some)
  have "word_of_nat (length datagram - 52) = (from_be (slice 50 52 datagram) :: u16)"
    by (simp flip: n)
  then have "to_be (word_of_nat (length datagram - 52) :: u16) = slice 50 52 datagram"
    using len by (simp add: length_slice)
  with assms len tc dir
  have "header_bytes (ve_header e) (length datagram - 52) @ drop 52 datagram
    = [datagram ! 0, datagram ! 1, datagram ! 2, datagram ! 3] @ slice 4 20 datagram
      @ slice 20 22 datagram @ slice 22 30 datagram @ slice 30 34 datagram
      @ slice 34 42 datagram @ slice 42 50 datagram @ slice 50 52 datagram @ drop 52 datagram"
    by (simp add: header_bytes_def envelope_decode_Inr length_slice)
  also have "\<dots> = datagram"
    by (rule datagram_split [OF len, symmetric])
  finally have "header_bytes (ve_header e) (length datagram - 52) @ drop 52 datagram = datagram" .
  with assms show ?thesis by (simp add: envelope_encode_Inr envelope_decode_Inr)
qed

text \<open>C24. The datagram codec is exact: a byte string decodes to an envelope under a path limit
  if and only if it is what the encoder makes of that envelope under the limit. So encoding
  round-trips, no two datagrams carry the same envelope, and no accepted bit is ignored.\<close>

theorem envelope_codec_exact:
  "envelope_decode datagram limit = Inr e \<longleftrightarrow> envelope_encode e limit = Inr datagram"
  using envelope_roundtrip envelope_canonical by blast

lemma sample_decodes:
  "envelope_decode (header_bytes sample_header 3 @ [69, 0, 1]) 1300 = Inr sample_envelope"
  by (rule envelope_roundtrip [OF sample_encodes])

end
