(* ===== verification/Sessions.thy ===== *)
theory Sessions
  imports Lifecycle Envelope
begin

text \<open>
  The gateway's session manager, \<open>apps/streamguard-gateway/src/v2/session_manager.rs\<close>:
  admission reservations, the sessions they create, the capabilities of authenticated
  connections, pending and committed path attaches, the check of every incoming datagram's
  routing fields, and the removal of sessions by close, expiry, idleness and sweep.

  The record \<open>manager\<close> is \<open>V2SessionManager\<close> with the maps of \<open>State\<close> and the counters in
  place. Every method holds the one mutex from its first access to its last, so a method is one
  transition; a poisoned mutex (\<open>Unavailable\<close>) needs a panic and does not occur. The cleanup
  hooks run after the lock is released: each method returns the removals it hands to them, in
  order, and \<open>run_cleanup\<close> lists the calls for one removal. Counters wrap, as \<open>fetch_add\<close> does.
  The clock is an argument, as in the code.
\<close>

section \<open>Data\<close>

type_synonym organization_id = arr16

record manager_config =
  mc_maximum_sessions :: nat
  mc_idle_ttl_ms :: u64
  mc_maximum_paths_per_session :: nat
  mc_maximum_pending_attaches :: nat
  mc_pending_attach_ttl_ms :: u64
  mc_maximum_path_epoch_history :: nat
  mc_maximum_path_tombstones :: nat
  mc_path_tombstone_ttl_ms :: u64

datatype removal_reason = RExpired | RIdle | RClosed

record session_removal =
  rm_session_id :: session_id
  rm_device_id :: device_id
  rm_organization_id :: organization_id
  rm_reason :: removal_reason

record admission_reservation =
  ads_session_id :: session_id
  ads_device_id :: device_id
  ads_organization_id :: organization_id
  ads_expires_at_ms :: u64
  ads_creates_session :: bool

record gateway_reservation =
  gr_session_id :: session_id
  gr_reservation :: attach_reservation

record authenticated_connection =
  ac_session_id :: session_id
  ac_connection_id :: connection_id

record validated_ingress =
  vi_session_id :: session_id
  vi_path_id :: path_id
  vi_path_epoch :: u64
  vi_key_epoch :: u32

datatype manager_error =
    MInvalidConfiguration
  | MCapacity
  | MInvalidIdentity
  | MOwnerMismatch
  | MUnknownAdmission
  | MUnknownSession
  | MConnectionAlreadyBound
  | MConnectionCapacity
  | MUnknownAttach
  | MUnknownConnection
  | MBindingMismatch
  | MStaleKeyEpoch
  | MInvalidDirection
  | MExpired
  | MIdle
  | MLifecycle

record managed_session =
  ms_session :: v2_session
  ms_organization_id :: organization_id
  ms_last_activity_ms :: u64

record pending_connection =
  pc_reservation :: gateway_reservation
  pc_expires_at_ms :: u64

type_synonym path_owner = "session_id \<times> path_id \<times> u64 \<times> u32"

record manager_metrics =
  mm_admission_capacity_rejected :: u64
  mm_connection_capacity_rejected :: u64
  mm_pending_attach_capacity_rejected :: u64
  mm_admissions_expired :: u64
  mm_pending_attaches_expired :: u64
  mm_sessions_expired :: u64
  mm_sessions_idle :: u64
  mm_sessions_closed :: u64

record manager =
  sm_config :: manager_config
  sm_sessions :: "(session_id \<times> managed_session) list"
  sm_admissions :: "(session_id \<times> admission_reservation) list"
  sm_connections :: "(connection_id \<times> path_owner) list"
  sm_pending :: "(connection_id \<times> pending_connection) list"
  sm_authenticated :: "(connection_id \<times> session_id) list"
  sm_next_connection_id :: u64
  sm_metrics :: manager_metrics

type_synonym 'a managed = "manager \<times> (manager_error + 'a) \<times> session_removal list"

section \<open>Shared steps\<close>

definition manager_new :: "manager_config \<Rightarrow> manager_error + manager" where
  "manager_new config =
     (if mc_maximum_sessions config = 0
         \<or> mc_idle_ttl_ms config = 0
         \<or> mc_maximum_paths_per_session config = 0
         \<or> mc_maximum_pending_attaches config = 0
         \<or> mc_pending_attach_ttl_ms config = 0
         \<or> mc_maximum_path_epoch_history config < mc_maximum_paths_per_session config
         \<or> 65535 < mc_maximum_path_epoch_history config
         \<or> mc_maximum_path_tombstones config = 0
         \<or> mc_path_tombstone_ttl_ms config = 0
      then Inl MInvalidConfiguration
      else Inr \<lparr>
        sm_config = config,
        sm_sessions = [],
        sm_admissions = [],
        sm_connections = [],
        sm_pending = [],
        sm_authenticated = [],
        sm_next_connection_id = 1,
        sm_metrics = \<lparr>mm_admission_capacity_rejected = 0, mm_connection_capacity_rejected = 0,
          mm_pending_attach_capacity_rejected = 0, mm_admissions_expired = 0,
          mm_pending_attaches_expired = 0, mm_sessions_expired = 0, mm_sessions_idle = 0,
          mm_sessions_closed = 0\<rparr>\<rparr>)"

fun map_lifecycle :: "lifecycle_error \<Rightarrow> manager_error" where
  "map_lifecycle SessionExpired = MExpired"
| "map_lifecycle ConnectionAlreadyBound = MConnectionAlreadyBound"
| "map_lifecycle _ = MLifecycle"

definition maximum_authenticated_connections :: "manager \<Rightarrow> nat" where
  "maximum_authenticated_connections m =
     usize_mul (mc_maximum_sessions (sm_config m)) (mc_maximum_paths_per_session (sm_config m))"

text \<open>The loop runs at most twice: only the value zero is skipped.\<close>

definition next_connection_identity :: "manager \<Rightarrow> manager \<times> connection_id" where
  "next_connection_identity m =
     (let value = sm_next_connection_id m in
      if value \<noteq> 0 then (m\<lparr>sm_next_connection_id := value + 1\<rparr>, value)
      else (m\<lparr>sm_next_connection_id := value + 2\<rparr>, value + 1))"

definition idle_since :: "manager \<Rightarrow> managed_session \<Rightarrow> u64 \<Rightarrow> bool" where
  "idle_since m ms now \<longleftrightarrow> mc_idle_ttl_ms (sm_config m) \<le> sat_sub now (ms_last_activity_ms ms)"

definition remove_session ::
  "session_id \<Rightarrow> removal_reason \<Rightarrow> manager \<Rightarrow> manager \<times> session_removal option" where
  "remove_session sid reason m =
     (case map_of (sm_sessions m) sid of
        None \<Rightarrow> (m, None)
      | Some ms \<Rightarrow>
          let session = fst (vs_close (fst (vs_begin_draining (ms_session ms))));
              admission = vs_admission session
          in (m\<lparr>sm_sessions := kt_remove sid (sm_sessions m),
                sm_connections := kt_retain (\<lambda>owner. fst owner \<noteq> sid) (sm_connections m),
                sm_pending := kt_retain (\<lambda>p. gr_session_id (pc_reservation p) \<noteq> sid) (sm_pending m),
                sm_authenticated := kt_retain (\<lambda>s. s \<noteq> sid) (sm_authenticated m)\<rparr>,
              Some \<lparr>rm_session_id = sid, rm_device_id = ad_device_id admission,
                rm_organization_id = ms_organization_id ms, rm_reason = reason\<rparr>))"

fun count_removal :: "removal_reason \<Rightarrow> manager_metrics \<Rightarrow> manager_metrics" where
  "count_removal RExpired mm = mm\<lparr>mm_sessions_expired := mm_sessions_expired mm + 1\<rparr>"
| "count_removal RIdle mm = mm\<lparr>mm_sessions_idle := mm_sessions_idle mm + 1\<rparr>"
| "count_removal RClosed mm = mm\<lparr>mm_sessions_closed := mm_sessions_closed mm + 1\<rparr>"

definition record_removal :: "removal_reason \<Rightarrow> manager \<Rightarrow> manager" where
  "record_removal reason m = m\<lparr>sm_metrics := count_removal reason (sm_metrics m)\<rparr>"

datatype cleanup_hook = RemoveFlows | RemoveDedup | RemoveScheduler | ReleaseAddress

definition run_cleanup :: "'owner list \<Rightarrow> session_removal
    \<Rightarrow> ('owner \<times> cleanup_hook \<times> session_removal) list" where
  "run_cleanup owners removal = concat (map (\<lambda>owner. map (\<lambda>hook. (owner, hook, removal))
     [RemoveFlows, RemoveDedup, RemoveScheduler, ReleaseAddress]) owners)"

text \<open>Removing a session and recording it, as the tail of most methods does.\<close>

definition drop_session ::
  "session_id \<Rightarrow> removal_reason \<Rightarrow> manager \<Rightarrow> manager \<times> session_removal list" where
  "drop_session sid reason m =
     (case remove_session sid reason m of
        (m, None) \<Rightarrow> (m, [])
      | (m, Some removal) \<Rightarrow> (record_removal (rm_reason removal) m, [removal]))"

section \<open>Admission\<close>

definition admit_counted :: "manager \<Rightarrow> manager" where
  "admit_counted m = m\<lparr>sm_metrics := (sm_metrics m)\<lparr>mm_admission_capacity_rejected :=
     mm_admission_capacity_rejected (sm_metrics m) + 1\<rparr>\<rparr>"

definition connection_counted :: "manager \<Rightarrow> manager" where
  "connection_counted m = m\<lparr>sm_metrics := (sm_metrics m)\<lparr>mm_connection_capacity_rejected :=
     mm_connection_capacity_rejected (sm_metrics m) + 1\<rparr>\<rparr>"

definition pending_counted :: "manager \<Rightarrow> manager" where
  "pending_counted m = m\<lparr>sm_metrics := (sm_metrics m)\<lparr>mm_pending_attach_capacity_rejected :=
     mm_pending_attach_capacity_rejected (sm_metrics m) + 1\<rparr>\<rparr>"

definition reserve_admission :: "manager \<Rightarrow> session_id \<Rightarrow> device_id \<Rightarrow> organization_id \<Rightarrow> u64 \<Rightarrow> u64
    \<Rightarrow> admission_reservation managed" where
  "reserve_admission m sid did oid expires now =
     (if all_zero (to_be sid) \<or> all_zero (to_be did) then (m, Inl MInvalidIdentity, [])
      else if expires = 0 \<or> expires \<le> now then (m, Inl MExpired, [])
      else
        let (m, removals) = (case map_of (sm_sessions m) sid of
              Some ms \<Rightarrow> if vs_is_expired (ms_session ms) now then drop_session sid RExpired m else (m, [])
            | None \<Rightarrow> (m, []))
        in case map_of (sm_sessions m) sid of
          Some existing \<Rightarrow>
            let admission = vs_admission (ms_session existing) in
            if ad_device_id admission \<noteq> did \<or> ms_organization_id existing \<noteq> oid
            then (m, Inl MOwnerMismatch, removals)
            else (m, Inr \<lparr>ads_session_id = sid, ads_device_id = did, ads_organization_id = oid,
                ads_expires_at_ms = ad_expires_at_ms admission, ads_creates_session = False\<rparr>, removals)
        | None \<Rightarrow>
            case map_of (sm_admissions m) sid of
              Some existing \<Rightarrow>
                if ads_device_id existing \<noteq> did \<or> ads_organization_id existing \<noteq> oid
                then (m, Inl MOwnerMismatch, removals)
                else (m, Inr existing, removals)
            | None \<Rightarrow>
                if mc_maximum_sessions (sm_config m)
                    \<le> usize_add (length (sm_sessions m)) (length (sm_admissions m))
                then (admit_counted m, Inl MCapacity, removals)
                else
                  let reservation = \<lparr>ads_session_id = sid, ads_device_id = did, ads_organization_id = oid,
                        ads_expires_at_ms = expires, ads_creates_session = True\<rparr>
                  in (m\<lparr>sm_admissions := hm_insert sid reservation (sm_admissions m)\<rparr>,
                      Inr reservation, removals))"

text \<open>The session a reservation turns into, already active.\<close>

definition admitted_session :: "manager \<Rightarrow> admission_reservation \<Rightarrow> u64 \<Rightarrow> manager_error + v2_session" where
  "admitted_session m r now =
     (case v2_session_new
         \<lparr>sc_maximum_paths = mc_maximum_paths_per_session (sm_config m),
          sc_maximum_path_epoch_history = mc_maximum_path_epoch_history (sm_config m),
          sc_maximum_path_tombstones = mc_maximum_path_tombstones (sm_config m),
          sc_path_tombstone_ttl_ms = mc_path_tombstone_ttl_ms (sm_config m)\<rparr>
         \<lparr>ad_session_id = ads_session_id r, ad_device_id = ads_device_id r,
          ad_expires_at_ms = ads_expires_at_ms r\<rparr> now of
        Inl e \<Rightarrow> Inl (map_lifecycle e)
      | Inr session \<Rightarrow>
          case vs_activate session now of
            (session, Inl e) \<Rightarrow> Inl (map_lifecycle e)
          | (session, Inr _) \<Rightarrow> Inr session)"

definition commit_admission :: "manager \<Rightarrow> admission_reservation \<Rightarrow> u64 \<Rightarrow> unit managed" where
  "commit_admission m r now =
     (if \<not> ads_creates_session r then (m, Inr (), [])
      else
        let found = map_of (sm_admissions m) (ads_session_id r);
            m = m\<lparr>sm_admissions := kt_remove (ads_session_id r) (sm_admissions m)\<rparr>
        in if found \<noteq> Some r then (m, Inl MUnknownAdmission, [])
           else case admitted_session m r now of
             Inl e \<Rightarrow> (m, Inl e, [])
           | Inr session \<Rightarrow>
               (m\<lparr>sm_sessions := hm_insert (ads_session_id r)
                   \<lparr>ms_session = session, ms_organization_id = ads_organization_id r,
                    ms_last_activity_ms = now\<rparr> (sm_sessions m)\<rparr>, Inr (), []))"

definition abort_admission :: "manager \<Rightarrow> admission_reservation \<Rightarrow> bool managed" where
  "abort_admission m r =
     (if \<not> ads_creates_session r then (m, Inr False, [])
      else (m\<lparr>sm_admissions := kt_remove (ads_session_id r) (sm_admissions m)\<rparr>,
            Inr (map_of (sm_admissions m) (ads_session_id r) = Some r), []))"

section \<open>Capabilities\<close>

text \<open>The insertion of a fresh capability.\<close>

definition grant_connection :: "manager \<Rightarrow> session_id \<Rightarrow> manager \<times> authenticated_connection" where
  "grant_connection m sid =
     (let (m, conn) = next_connection_identity m
      in (m\<lparr>sm_authenticated := hm_insert conn sid (sm_authenticated m)\<rparr>,
          \<lparr>ac_session_id = sid, ac_connection_id = conn\<rparr>))"

definition bind_authenticated_connection ::
  "manager \<Rightarrow> session_id \<Rightarrow> u64 \<Rightarrow> authenticated_connection managed" where
  "bind_authenticated_connection m sid now =
     (case map_of (sm_sessions m) sid of
        None \<Rightarrow> (m, Inl MUnknownSession, [])
      | Some ms \<Rightarrow>
          if vs_is_expired (ms_session ms) now
          then let (m, removals) = drop_session sid RExpired m in (m, Inl MExpired, removals)
          else if vs_state (ms_session ms) \<noteq> SActive then (m, Inl MLifecycle, [])
          else if maximum_authenticated_connections m \<le> length (sm_authenticated m)
          then (connection_counted m, Inl MConnectionCapacity, [])
          else let (m, conn) = grant_connection m sid in (m, Inr conn, []))"

definition commit_admission_and_bind ::
  "manager \<Rightarrow> admission_reservation \<Rightarrow> u64 \<Rightarrow> authenticated_connection managed" where
  "commit_admission_and_bind m r now =
     (if \<not> ads_creates_session r then bind_authenticated_connection m (ads_session_id r) now
      else
        let found = map_of (sm_admissions m) (ads_session_id r);
            m = m\<lparr>sm_admissions := kt_remove (ads_session_id r) (sm_admissions m)\<rparr>
        in if found \<noteq> Some r then (m, Inl MUnknownAdmission, [])
           else case admitted_session m r now of
             Inl e \<Rightarrow> (m, Inl e, [])
           | Inr session \<Rightarrow>
               let m = m\<lparr>sm_sessions := hm_insert (ads_session_id r)
                     \<lparr>ms_session = session, ms_organization_id = ads_organization_id r,
                      ms_last_activity_ms = now\<rparr> (sm_sessions m)\<rparr>
               in if maximum_authenticated_connections m \<le> length (sm_authenticated m)
                  then let (m, removals) = drop_session (ads_session_id r) RClosed (connection_counted m)
                       in (m, Inl MConnectionCapacity, removals)
                  else let (m, conn) = grant_connection m (ads_session_id r) in (m, Inr conn, []))"

definition authenticated :: "manager \<Rightarrow> authenticated_connection \<Rightarrow> bool" where
  "authenticated m conn \<longleftrightarrow>
     map_of (sm_authenticated m) (ac_connection_id conn) = Some (ac_session_id conn)"

text \<open>A write through \<open>sessions.get_mut\<close>.\<close>

definition put_session :: "session_id \<Rightarrow> managed_session \<Rightarrow> manager \<Rightarrow> manager" where
  "put_session sid ms m = m\<lparr>sm_sessions := hm_insert sid ms (sm_sessions m)\<rparr>"

section \<open>Paths\<close>

text \<open>The loop of \<open>prune_overdue_attaches\<close> over the expired entries.\<close>

fun prune_each :: "(connection_id \<times> gateway_reservation) list \<Rightarrow> manager \<Rightarrow> manager" where
  "prune_each [] m = m"
| "prune_each ((conn, r) # expired) m =
     (let m = m\<lparr>sm_pending := kt_remove conn (sm_pending m)\<rparr>;
          m = (case map_of (sm_sessions m) (gr_session_id r) of
                 None \<Rightarrow> m
               | Some ms \<Rightarrow> put_session (gr_session_id r)
                   (ms\<lparr>ms_session := fst (abort_attach (ms_session ms) (gr_reservation r))\<rparr>) m)
      in prune_each expired (m\<lparr>sm_metrics := (sm_metrics m)\<lparr>mm_pending_attaches_expired :=
           mm_pending_attaches_expired (sm_metrics m) + 1\<rparr>\<rparr>))"

definition prune_overdue_attaches :: "u64 \<Rightarrow> manager \<Rightarrow> manager" where
  "prune_overdue_attaches now m =
     prune_each (map (map_prod id pc_reservation)
       (filter (\<lambda>(_, p). pc_expires_at_ms p \<le> now) (sm_pending m))) m"

definition sm_reserve_attach :: "manager \<Rightarrow> authenticated_connection \<Rightarrow> u64 \<Rightarrow> u32 \<Rightarrow> u64
    \<Rightarrow> gateway_reservation managed" where
  "sm_reserve_attach m conn path_epoch key_epoch now =
     (let m = prune_overdue_attaches now m in
      if \<not> authenticated m conn then (m, Inl MUnknownConnection, [])
      else if ac_connection_id conn \<in> keys (sm_connections m)
              \<or> ac_connection_id conn \<in> keys (sm_pending m)
      then (m, Inl MConnectionAlreadyBound, [])
      else if mc_maximum_pending_attaches (sm_config m) \<le> length (sm_pending m)
      then (pending_counted m, Inl MCapacity, [])
      else case map_of (sm_sessions m) (ac_session_id conn) of
        None \<Rightarrow> (m, Inl MUnknownSession, [])
      | Some ms \<Rightarrow>
          case reserve_attach (ms_session ms) (ac_connection_id conn) path_epoch key_epoch now of
            (session, Inl e) \<Rightarrow>
              (put_session (ac_session_id conn) (ms\<lparr>ms_session := session\<rparr>) m, Inl (map_lifecycle e), [])
          | (session, Inr reservation) \<Rightarrow>
              let m = put_session (ac_session_id conn) (ms\<lparr>ms_session := session\<rparr>) m;
                  result = \<lparr>gr_session_id = ac_session_id conn, gr_reservation = reservation\<rparr>
              in (m\<lparr>sm_pending := hm_insert (ac_connection_id conn)
                    \<lparr>pc_reservation = result,
                     pc_expires_at_ms = sat_add now (mc_pending_attach_ttl_ms (sm_config m))\<rparr>
                    (sm_pending m)\<rparr>, Inr result, []))"

definition sm_commit_attach :: "manager \<Rightarrow> gateway_reservation \<Rightarrow> path_binding managed" where
  "sm_commit_attach m r =
     (let conn = ar_connection_id (gr_reservation r);
          found = map_option pc_reservation (map_of (sm_pending m) conn);
          m = m\<lparr>sm_pending := kt_remove conn (sm_pending m)\<rparr>
      in if found \<noteq> Some r then (m, Inl MUnknownAttach, [])
         else case map_of (sm_sessions m) (gr_session_id r) of
           None \<Rightarrow> (m, Inl MUnknownSession, [])
         | Some ms \<Rightarrow>
             case commit_attach (ms_session ms) (gr_reservation r) of
               (session, Inl e) \<Rightarrow>
                 (put_session (gr_session_id r) (ms\<lparr>ms_session := session\<rparr>) m, Inl (map_lifecycle e), [])
             | (session, Inr path) \<Rightarrow>
                 case set_path_state session (pb_path_id path) PHealthy of
                   (session, Inl e) \<Rightarrow>
                     (put_session (gr_session_id r) (ms\<lparr>ms_session := session\<rparr>) m,
                      Inl (map_lifecycle e), [])
                 | (session, Inr path) \<Rightarrow>
                     let m = put_session (gr_session_id r) (ms\<lparr>ms_session := session\<rparr>) m
                     in (m\<lparr>sm_connections := hm_insert (pb_connection_id path)
                           (gr_session_id r, pb_path_id path, pb_path_epoch path, pb_key_epoch path)
                           (sm_connections m)\<rparr>, Inr path, []))"

definition detach_connection :: "manager \<Rightarrow> authenticated_connection \<Rightarrow> path_id \<Rightarrow> u64 \<Rightarrow> u64
    \<Rightarrow> bool managed" where
  "detach_connection m conn path_id path_epoch now =
     (if \<not> authenticated m conn then (m, Inl MUnknownConnection, [])
      else case map_of (sm_connections m) (ac_connection_id conn) of
        None \<Rightarrow> (m, Inr False, [])
      | Some (sid, bound_path_id, bound_path_epoch, _) \<Rightarrow>
          if sid \<noteq> ac_session_id conn \<or> bound_path_id \<noteq> path_id \<or> bound_path_epoch \<noteq> path_epoch
          then (m, Inl MBindingMismatch, [])
          else
            let m = m\<lparr>sm_connections := kt_remove (ac_connection_id conn) (sm_connections m)\<rparr>
            in case map_of (sm_sessions m) sid of
              None \<Rightarrow> (m, Inl MUnknownSession, [])
            | Some ms \<Rightarrow>
                case detach (ms_session ms) path_id (ac_connection_id conn) path_epoch now of
                  (session, detached) \<Rightarrow>
                    (put_session sid (ms\<lparr>ms_session := session\<rparr>) m, Inr detached, []))"

definition close_connection :: "manager \<Rightarrow> authenticated_connection \<Rightarrow> bool managed" where
  "close_connection m conn =
     (let c = ac_connection_id conn;
          found = map_of (sm_authenticated m) c;
          m = m\<lparr>sm_authenticated := kt_remove c (sm_authenticated m)\<rparr>
      in if found \<noteq> Some (ac_session_id conn) then (m, Inr False, [])
         else case map_of (sm_pending m) c of
           Some pending \<Rightarrow>
             let m = m\<lparr>sm_pending := kt_remove c (sm_pending m)\<rparr>;
                 r = pc_reservation pending
             in (case map_of (sm_sessions m) (gr_session_id r) of
                   None \<Rightarrow> (m, Inr False, [])
                 | Some ms \<Rightarrow>
                     case abort_attach (ms_session ms) (gr_reservation r) of
                       (session, aborted) \<Rightarrow>
                         (put_session (gr_session_id r) (ms\<lparr>ms_session := session\<rparr>) m, Inr aborted, []))
         | None \<Rightarrow>
             case map_of (sm_connections m) c of
               None \<Rightarrow> (m, Inr True, [])
             | Some (sid, path_id, path_epoch, _) \<Rightarrow>
                 let m = m\<lparr>sm_connections := kt_remove c (sm_connections m)\<rparr>
                 in case map_of (sm_sessions m) sid of
                   None \<Rightarrow> (m, Inr False, [])
                 | Some ms \<Rightarrow>
                     case detach (ms_session ms) path_id c path_epoch (ms_last_activity_ms ms) of
                       (session, detached) \<Rightarrow>
                         (put_session sid (ms\<lparr>ms_session := session\<rparr>) m, Inr detached, []))"

section \<open>Ingress and liveness\<close>

text \<open>The path is missing or not healthy.\<close>

definition path_not_healthy :: "v2_session \<Rightarrow> path_id \<Rightarrow> bool" where
  "path_not_healthy session path_id \<longleftrightarrow>
     (case vs_path session path_id of None \<Rightarrow> True | Some path \<Rightarrow> pb_state path \<noteq> PHealthy)"

definition validate_attached_path :: "manager \<Rightarrow> authenticated_connection \<Rightarrow> path_id \<Rightarrow> u64 \<Rightarrow> u32
    \<Rightarrow> u64 \<Rightarrow> unit managed" where
  "validate_attached_path m conn path_id path_epoch key_epoch now =
     (if \<not> authenticated m conn then (m, Inl MUnknownConnection, [])
      else if map_of (sm_connections m) (ac_connection_id conn)
              \<noteq> Some (ac_session_id conn, path_id, path_epoch, key_epoch)
      then (m, Inl MBindingMismatch, [])
      else case map_of (sm_sessions m) (ac_session_id conn) of
        None \<Rightarrow> (m, Inl MUnknownSession, [])
      | Some ms \<Rightarrow>
          if vs_is_expired (ms_session ms) now
          then let (m, removals) = drop_session (ac_session_id conn) RExpired m in (m, Inl MExpired, removals)
          else if idle_since m ms now
          then let (m, removals) = drop_session (ac_session_id conn) RIdle m in (m, Inl MIdle, removals)
          else if vs_state (ms_session ms) \<noteq> SActive \<or> path_not_healthy (ms_session ms) path_id
          then (m, Inl MBindingMismatch, [])
          else (put_session (ac_session_id conn) (ms\<lparr>ms_last_activity_ms := now\<rparr>) m, Inr (), []))"

definition validate_ingress :: "manager \<Rightarrow> authenticated_connection \<Rightarrow> v2_envelope \<Rightarrow> u64
    \<Rightarrow> validated_ingress managed" where
  "validate_ingress m conn envelope now =
     (let header = ve_header envelope in
      if vh_direction header \<noteq> ClientToGateway then (m, Inl MInvalidDirection, [])
      else if \<not> authenticated m conn then (m, Inl MUnknownConnection, [])
      else case map_of (sm_connections m) (ac_connection_id conn) of
        None \<Rightarrow> (m, Inl MUnknownConnection, [])
      | Some (sid, path_id, path_epoch, key_epoch) \<Rightarrow>
          if vh_session_id header \<noteq> sid \<or> vh_path_id header \<noteq> path_id
             \<or> vh_path_epoch header \<noteq> path_epoch
          then (m, Inl MBindingMismatch, [])
          else if vh_key_epoch header \<noteq> key_epoch then (m, Inl MStaleKeyEpoch, [])
          else case map_of (sm_sessions m) sid of
            None \<Rightarrow> (m, Inl MUnknownSession, [])
          | Some ms \<Rightarrow>
              if vs_is_expired (ms_session ms) now
              then let (m, removals) = drop_session sid RExpired m in (m, Inl MExpired, removals)
              else if idle_since m ms now
              then let (m, removals) = drop_session sid RIdle m in (m, Inl MIdle, removals)
              else if vs_state (ms_session ms) \<noteq> SActive \<or> path_not_healthy (ms_session ms) path_id
              then (m, Inl MBindingMismatch, [])
              else (put_session sid (ms\<lparr>ms_last_activity_ms := now\<rparr>) m,
                Inr \<lparr>vi_session_id = sid, vi_path_id = path_id, vi_path_epoch = path_epoch,
                     vi_key_epoch = key_epoch\<rparr>, []))"

definition record_authenticated_activity ::
  "manager \<Rightarrow> authenticated_connection \<Rightarrow> u64 \<Rightarrow> unit managed" where
  "record_authenticated_activity m conn now =
     (if \<not> authenticated m conn then (m, Inl MUnknownConnection, [])
      else case map_of (sm_sessions m) (ac_session_id conn) of
        None \<Rightarrow> (m, Inl MUnknownSession, [])
      | Some ms \<Rightarrow>
          if vs_is_expired (ms_session ms) now
          then let (m, removals) = drop_session (ac_session_id conn) RExpired m in (m, Inl MExpired, removals)
          else if idle_since m ms now
          then let (m, removals) = drop_session (ac_session_id conn) RIdle m in (m, Inl MIdle, removals)
          else if vs_state (ms_session ms) \<noteq> SActive then (m, Inl MLifecycle, [])
          else (put_session (ac_session_id conn) (ms\<lparr>ms_last_activity_ms := now\<rparr>) m, Inr (), []))"

section \<open>Removal\<close>

definition sm_begin_draining :: "manager \<Rightarrow> session_id \<Rightarrow> unit managed" where
  "sm_begin_draining m sid =
     (case map_of (sm_sessions m) sid of
        None \<Rightarrow> (m, Inl MUnknownSession, [])
      | Some ms \<Rightarrow>
          case vs_begin_draining (ms_session ms) of
            (session, Inl e) \<Rightarrow> (put_session sid (ms\<lparr>ms_session := session\<rparr>) m, Inl (map_lifecycle e), [])
          | (session, Inr _) \<Rightarrow> (put_session sid (ms\<lparr>ms_session := session\<rparr>) m, Inr (), []))"

definition sm_close :: "manager \<Rightarrow> session_id \<Rightarrow> bool managed" where
  "sm_close m sid =
     (let (m, removals) = drop_session sid RClosed m in (m, Inr (removals \<noteq> []), removals))"

definition close_session :: "manager \<Rightarrow> authenticated_connection \<Rightarrow> bool managed" where
  "close_session m conn =
     (if \<not> authenticated m conn then (m, Inr False, [])
      else let (m, removals) = drop_session (ac_session_id conn) RClosed m
           in (m, Inr (removals \<noteq> []), removals))"

text \<open>\<open>filter_map\<close> of \<open>remove_session\<close> over the chosen sessions, each with its reason.\<close>

fun remove_each :: "(session_id \<times> removal_reason) list \<Rightarrow> manager \<Rightarrow> manager \<times> session_removal list" where
  "remove_each [] m = (m, [])"
| "remove_each ((sid, reason) # chosen) m =
     (let (m, removal) = remove_session sid reason m;
          (m, removals) = remove_each chosen m
      in (m, (case removal of None \<Rightarrow> [] | Some r \<Rightarrow> [r]) @ removals))"

definition record_each :: "session_removal list \<Rightarrow> manager \<Rightarrow> manager" where
  "record_each removals m = fold (\<lambda>removal. record_removal (rm_reason removal)) removals m"

definition close_all :: "manager \<Rightarrow> nat managed" where
  "close_all m =
     (let (m, removals) = remove_each (map (\<lambda>(sid, _). (sid, RClosed)) (sm_sessions m)) m
      in (record_each removals m, Inr (length removals), removals))"

definition removal_due :: "manager \<Rightarrow> u64 \<Rightarrow> managed_session \<Rightarrow> removal_reason option" where
  "removal_due m now ms =
     (if vs_is_expired (ms_session ms) now then Some RExpired
      else if idle_since m ms now then Some RIdle
      else None)"

definition sweep :: "manager \<Rightarrow> u64 \<Rightarrow> nat managed" where
  "sweep m now =
     (let admissions = kt_retain (\<lambda>r. now < ads_expires_at_ms r) (sm_admissions m);
          m = m\<lparr>sm_metrics := (sm_metrics m)\<lparr>mm_admissions_expired := mm_admissions_expired (sm_metrics m)
                  + word_of_nat (length (sm_admissions m) - length admissions)\<rparr>,
                sm_admissions := admissions\<rparr>;
          m = prune_overdue_attaches now m;
          m = m\<lparr>sm_sessions := map (map_prod id (\<lambda>ms.
                  ms\<lparr>ms_session := prune_path_tombstones now (ms_session ms)\<rparr>)) (sm_sessions m)\<rparr>;
          chosen = List.map_filter (\<lambda>(sid, ms). map_option (Pair sid) (removal_due m now ms)) (sm_sessions m);
          (m, removals) = remove_each chosen m
      in (record_each removals m, Inr (length removals), removals))"

section \<open>Snapshot\<close>

record manager_snapshot =
  sn_sessions :: nat
  sn_admissions_pending :: nat
  sn_paths :: nat
  sn_pending_attaches :: nat
  sn_authenticated_connections :: nat
  sn_config :: manager_config
  sn_maximum_authenticated_connections :: nat
  sn_path_tombstones :: nat
  sn_path_tombstones_expired :: u64
  sn_path_tombstones_capacity_evicted :: u64
  sn_path_epoch_history_entries :: nat
  sn_metrics :: manager_metrics

text \<open>
  The configured limits and the counters are the records they are read from. The two sums of
  \<open>u64\<close> counters wrap, as in a release build; a debug build would panic on overflow.
\<close>

definition sm_snapshot :: "manager \<Rightarrow> manager_snapshot" where
  "sm_snapshot m =
     (let tombstones = map (\<lambda>(_, ms). vs_tombstone_snapshot (ms_session ms)) (sm_sessions m) in \<lparr>
        sn_sessions = length (sm_sessions m),
        sn_admissions_pending = length (sm_admissions m),
        sn_paths = length (sm_connections m),
        sn_pending_attaches = length (sm_pending m),
        sn_authenticated_connections = length (sm_authenticated m),
        sn_config = sm_config m,
        sn_maximum_authenticated_connections = maximum_authenticated_connections m,
        sn_path_tombstones = sum_list (map ts_entries tombstones),
        sn_path_tombstones_expired = sum_list (map ts_expired tombstones),
        sn_path_tombstones_capacity_evicted = sum_list (map ts_capacity_evicted tombstones),
        sn_path_epoch_history_entries = sum_list (map ts_epoch_history_entries tombstones),
        sn_metrics = sm_metrics m\<rparr>)"

text \<open>The configuration of the periodic sweep.\<close>

record sweep_config =
  sw_min_interval_ms :: u64
  sw_max_interval_ms :: u64

definition sweep_config_new :: "u64 \<Rightarrow> u64 \<Rightarrow> sweep_config option" where
  "sweep_config_new lo hi =
     (if lo = 0 \<or> hi < lo \<or> 3600000 < hi then None
      else Some \<lparr>sw_min_interval_ms = lo, sw_max_interval_ms = hi\<rparr>)"

section \<open>The manager as a machine\<close>

datatype manager_event =
    ReserveAdmission session_id device_id organization_id u64 u64
  | CommitAdmission admission_reservation u64
  | CommitAndBind admission_reservation u64
  | AbortAdmission admission_reservation
  | BindConnection session_id u64
  | ReserveAttach authenticated_connection u64 u32 u64
  | CommitAttach gateway_reservation
  | DetachConnection authenticated_connection path_id u64 u64
  | CloseConnection authenticated_connection
  | ValidatePath authenticated_connection path_id u64 u32 u64
  | ValidateIngress authenticated_connection v2_envelope u64
  | RecordActivity authenticated_connection u64
  | DrainSession session_id
  | CloseById session_id
  | CloseBySelf authenticated_connection
  | CloseAll
  | Sweep u64

datatype manager_outcome =
    MDone
  | MFailed manager_error
  | MAdmission admission_reservation
  | MConnection authenticated_connection
  | MReservation gateway_reservation
  | MBound path_binding
  | MIngress validated_ingress
  | MAnswer bool
  | MCount nat

definition of_managed :: "('a \<Rightarrow> manager_outcome) \<Rightarrow> 'a managed
    \<Rightarrow> manager \<times> manager_outcome \<times> session_removal list" where
  "of_managed f r = (case r of
      (m, Inl e, removals) \<Rightarrow> (m, MFailed e, removals)
    | (m, Inr x, removals) \<Rightarrow> (m, f x, removals))"

fun sm_exec :: "(manager, manager_event, manager_outcome \<times> session_removal list) machine" where
  "sm_exec m (ReserveAdmission sid did oid ex now) = of_managed MAdmission (reserve_admission m sid did oid ex now)"
| "sm_exec m (CommitAdmission r now) = of_managed (\<lambda>_. MDone) (commit_admission m r now)"
| "sm_exec m (CommitAndBind r now) = of_managed MConnection (commit_admission_and_bind m r now)"
| "sm_exec m (AbortAdmission r) = of_managed MAnswer (abort_admission m r)"
| "sm_exec m (BindConnection sid now) = of_managed MConnection (bind_authenticated_connection m sid now)"
| "sm_exec m (ReserveAttach c e k now) = of_managed MReservation (sm_reserve_attach m c e k now)"
| "sm_exec m (CommitAttach r) = of_managed MBound (sm_commit_attach m r)"
| "sm_exec m (DetachConnection c p e now) = of_managed MAnswer (detach_connection m c p e now)"
| "sm_exec m (CloseConnection c) = of_managed MAnswer (close_connection m c)"
| "sm_exec m (ValidatePath c p e k now) = of_managed (\<lambda>_. MDone) (validate_attached_path m c p e k now)"
| "sm_exec m (ValidateIngress c env now) = of_managed MIngress (validate_ingress m c env now)"
| "sm_exec m (RecordActivity c now) = of_managed (\<lambda>_. MDone) (record_authenticated_activity m c now)"
| "sm_exec m (DrainSession sid) = of_managed (\<lambda>_. MDone) (sm_begin_draining m sid)"
| "sm_exec m (CloseById sid) = of_managed MAnswer (sm_close m sid)"
| "sm_exec m (CloseBySelf c) = of_managed MAnswer (close_session m c)"
| "sm_exec m CloseAll = of_managed MCount (close_all m)"
| "sm_exec m (Sweep now) = of_managed MCount (sweep m now)"

end
