(* ===== verification/LifecycleProps.thy ===== *)
theory LifecycleProps
  imports Lifecycle
begin

text \<open>
  What the lifecycle promises, along every trace of its operations: bounded tables, at most
  one path per connection, identifiers that are quarantined after a detach and only reused
  with both epochs advanced, states that follow the published graphs, and an allocation that
  finds an identifier whenever there is one.
\<close>

section \<open>The loops\<close>

lemma prune_front_facts:
  assumes "prune_front now order tombs x = (order', tombs', x')"
  obtains pre where "order = pre @ order'" and "tombs' = filter (\<lambda>e. fst e \<notin> set pre) tombs"
    and "\<forall>p \<in> set pre. \<forall>t. map_of tombs p = Some t \<longrightarrow> pt_expires_at_ms t \<le> now"
proof -
  have "\<exists>pre. order = pre @ order' \<and> tombs' = filter (\<lambda>e. fst e \<notin> set pre) tombs \<and>
      (\<forall>p \<in> set pre. \<forall>t. map_of tombs p = Some t \<longrightarrow> pt_expires_at_ms t \<le> now)"
    using assms
  proof (induction now order tombs x arbitrary: rule: prune_front.induct)
    case (1 now tombs x)
    then show ?case by simp
  next
    case (2 now p order tombs x)
    show ?case
    proof (cases "map_of tombs p")
      case None
      then obtain pre where pre: "order = pre @ order'"
        "tombs' = filter (\<lambda>e. fst e \<notin> set pre) tombs"
        "\<forall>p \<in> set pre. \<forall>t. map_of tombs p = Some t \<longrightarrow> pt_expires_at_ms t \<le> now"
        using 2 by auto
      have "filter (\<lambda>e. fst e \<notin> set pre) tombs = filter (\<lambda>e. fst e \<notin> set (p # pre)) tombs"
        using None by (intro filter_cong) (auto simp: map_of_eq_None_iff)
      with pre None show ?thesis by (intro exI [of _ "p # pre"]) auto
    next
      case (Some t)
      show ?thesis
      proof (cases "now < pt_expires_at_ms t")
        case True
        with 2 Some show ?thesis by (intro exI [of _ "[]"]) simp
      next
        case False
        then obtain pre where pre: "order = pre @ order'"
          "tombs' = filter (\<lambda>e. fst e \<notin> set pre) (kt_remove p tombs)"
          "\<forall>q \<in> set pre. \<forall>t. map_of (kt_remove p tombs) q = Some t \<longrightarrow> pt_expires_at_ms t \<le> now"
          using 2 Some by auto
        have "tombs' = filter (\<lambda>e. fst e \<notin> set (p # pre)) tombs"
          unfolding pre(2) kt_remove_def by (simp add: conj_commute)
        moreover have "pt_expires_at_ms u \<le> now" if "q \<in> set (p # pre)" "map_of tombs q = Some u" for q u
          using pre(3) Some False that by (cases "q = p") (auto simp: map_of_remove)
        ultimately show ?thesis
          using pre(1) by (intro exI [of _ "p # pre"]) auto
      qed
    qed
  qed
  then show ?thesis using that by blast
qed

lemma evict_front_eq:
  assumes "hm_ok tombs" and "set order = keys tombs" and "length tombs \<le> cap" and "0 < cap"
  shows "evict_front cap order tombs x =
    (if cap \<le> length tombs then (tl order, kt_remove (hd order) tombs, sat_inc x)
     else (order, tombs, x))"
proof (cases "cap \<le> length tombs")
  case True
  then have "tombs \<noteq> []" using assms(4) by auto
  then obtain p rest where o: "order = p # rest" using assms(2) by (cases order) auto
  then have p: "p \<in> keys tombs" using assms(2) by auto
  then have "length (kt_remove p tombs) < cap"
    using hm.length_remove [OF assms(1) p] assms(3) by linarith
  then have "evict_front cap rest (kt_remove p tombs) y = (rest, kt_remove p tombs, y)" for y
    by (cases rest) simp_all
  with o p True show ?thesis by simp
next
  case False
  then show ?thesis by (cases order) simp_all
qed

section \<open>Allocation\<close>

text \<open>The identifiers an attach with these epochs may use.\<close>

definition eligible :: "v2_session \<Rightarrow> u64 \<Rightarrow> u32 \<Rightarrow> path_id \<Rightarrow> bool" where
  "eligible s path_epoch key_epoch p \<longleftrightarrow>
     p \<notin> keys (vs_paths s) \<and> p \<notin> keys (vs_path_tombstones s) \<and>
     (case map_of (vs_path_epoch_history s) p of
        Some previous \<Rightarrow> ep_path_epoch previous < path_epoch \<and> ep_key_epoch previous < key_epoch
      | None \<Rightarrow> length (vs_path_epoch_history s) < vs_maximum_path_epoch_history s)"

lemma eligible_next [simp]:
  "eligible (s\<lparr>vs_next_path_id := n\<rparr>) path_epoch key_epoch p = eligible s path_epoch key_epoch p"
  by (simp add: eligible_def split: option.split)

lemma allocate_turns_Suc:
  "allocate_turns (Suc n) s path_epoch key_epoch =
     (let t = s\<lparr>vs_next_path_id := next_id (vs_next_path_id s)\<rparr>
      in if eligible s path_epoch key_epoch (vs_next_path_id s) then (t, Some (vs_next_path_id s))
         else allocate_turns n t path_epoch key_epoch)"
  by (auto simp: eligible_def Let_def not_less not_le split: option.split)

lemma allocate_turns_numeral:
  "allocate_turns (numeral n) s path_epoch key_epoch =
     (let t = s\<lparr>vs_next_path_id := next_id (vs_next_path_id s)\<rparr>
      in if eligible s path_epoch key_epoch (vs_next_path_id s) then (t, Some (vs_next_path_id s))
         else allocate_turns (pred_numeral n) t path_epoch key_epoch)"
  by (simp only: numeral_eq_Suc allocate_turns_Suc)

lemma next_id_nonzero: "n \<noteq> 0 \<Longrightarrow> next_id n \<noteq> 0"
  by (simp add: next_id_def word_inc_nonzero)

lemma allocate_turns_facts:
  assumes "allocate_turns n s path_epoch key_epoch = (s', r)" and "vs_next_path_id s \<noteq> 0"
  obtains m where "m \<noteq> 0" and "s' = s\<lparr>vs_next_path_id := m\<rparr>"
    and "\<And>p. r = Some p \<Longrightarrow> p \<noteq> 0 \<and> eligible s path_epoch key_epoch p"
proof -
  have "\<exists>m. m \<noteq> 0 \<and> s' = s\<lparr>vs_next_path_id := m\<rparr> \<and>
      (\<forall>p. r = Some p \<longrightarrow> p \<noteq> 0 \<and> eligible s path_epoch key_epoch p)"
    using assms
  proof (induction n arbitrary: s)
    case 0
    then show ?case by (intro exI [of _ "vs_next_path_id s"]) simp
  next
    case (Suc n)
    let ?t = "s\<lparr>vs_next_path_id := next_id (vs_next_path_id s)\<rparr>"
    have nz: "next_id (vs_next_path_id s) \<noteq> 0" by (rule next_id_nonzero [OF Suc.prems(2)])
    show ?case
    proof (cases "eligible s path_epoch key_epoch (vs_next_path_id s)")
      case True
      with Suc.prems nz show ?thesis
        by (intro exI [of _ "next_id (vs_next_path_id s)"])
          (auto simp: allocate_turns_Suc Let_def simp del: allocate_turns.simps)
    next
      case False
      then have "allocate_turns n ?t path_epoch key_epoch = (s', r)"
        using Suc.prems(1) by (simp add: allocate_turns_Suc Let_def del: allocate_turns.simps)
      from Suc.IH [OF this] nz show ?thesis by auto
    qed
  qed
  then show ?thesis using that by blast
qed

section \<open>The invariant\<close>

definition binding_ok :: "v2_session \<Rightarrow> path_id \<Rightarrow> path_entry \<Rightarrow> bool" where
  "binding_ok s p path \<longleftrightarrow> (let b = pe_binding path in
     pb_path_id b = p \<and> pb_path_epoch b \<noteq> 0 \<and> pb_key_epoch b \<noteq> 0 \<and>
     map_of (vs_path_epoch_history s) p =
       Some \<lparr>ep_path_epoch = pb_path_epoch b, ep_key_epoch = pb_key_epoch b\<rparr> \<and>
     (pe_reserved path \<longrightarrow> pb_state b = PConnecting))"

definition quarantine_ok :: "v2_session \<Rightarrow> bool" where
  "quarantine_ok s \<longleftrightarrow> hm_ok (vs_path_tombstones s) \<and> 0 < vs_maximum_path_tombstones s \<and>
     length (vs_path_tombstones s) \<le> vs_maximum_path_tombstones s \<and>
     distinct (vs_tombstone_order s) \<and> set (vs_tombstone_order s) = keys (vs_path_tombstones s) \<and>
     keys (vs_paths s) \<inter> keys (vs_path_tombstones s) = {} \<and>
     keys (vs_path_tombstones s) \<subseteq> keys (vs_path_epoch_history s)"

definition conns_distinct :: "(path_id \<times> path_entry) list \<Rightarrow> bool" where
  "conns_distinct ps \<longleftrightarrow> (\<forall>p path q path'. (p, path) \<in> set ps \<longrightarrow> (q, path') \<in> set ps \<longrightarrow>
     pb_connection_id (pe_binding path) = pb_connection_id (pe_binding path') \<longrightarrow> p = q)"

definition paths_bound :: "v2_session \<Rightarrow> bool" where
  "paths_bound s \<longleftrightarrow> hm_ok (vs_paths s) \<and> length (vs_paths s) \<le> vs_maximum_paths s \<and>
     (\<forall>(p, path) \<in> set (vs_paths s). binding_ok s p path) \<and>
     conns_distinct (vs_paths s) \<and>
     (vs_state s = SPending \<or> vs_state s = SClosed \<longrightarrow> vs_paths s = [])"

definition history_ok :: "v2_session \<Rightarrow> bool" where
  "history_ok s \<longleftrightarrow> hm_ok (vs_path_epoch_history s) \<and>
     length (vs_path_epoch_history s) \<le> vs_maximum_path_epoch_history s \<and>
     0 \<notin> keys (vs_path_epoch_history s) \<and> vs_next_path_id s \<noteq> 0"

definition lifecycle_ok :: "v2_session \<Rightarrow> bool" where
  "lifecycle_ok s \<longleftrightarrow> quarantine_ok s \<and> paths_bound s \<and> history_ok s"

lemmas lifecycle_defs = lifecycle_ok_def quarantine_ok_def paths_bound_def history_ok_def

lemma lifecycle_ok_new: "v2_session_new config ad now = Inr s \<Longrightarrow> lifecycle_ok s"
  by (auto simp: v2_session_new_def lifecycle_defs conns_distinct_def hm.ok_Nil split: if_splits)

text \<open>Only the tables and the session state matter.\<close>

lemma binding_ok_cong:
  "map_of (vs_path_epoch_history s') p = map_of (vs_path_epoch_history s) p \<Longrightarrow>
    binding_ok s' p path = binding_ok s p path"
  by (simp add: binding_ok_def)

lemma binding_ok_fields [simp]:
  "binding_ok (s\<lparr>vs_paths := ps\<rparr>) p path = binding_ok s p path"
  "binding_ok (s\<lparr>vs_state := st\<rparr>) p path = binding_ok s p path"
  "binding_ok (s\<lparr>vs_next_path_id := n\<rparr>) p path = binding_ok s p path"
  "binding_ok (s\<lparr>vs_path_tombstones := ts\<rparr>) p path = binding_ok s p path"
  "binding_ok (s\<lparr>vs_tombstone_order := os\<rparr>) p path = binding_ok s p path"
  "binding_ok (s\<lparr>vs_tombstones_expired := e\<rparr>) p path = binding_ok s p path"
  "binding_ok (s\<lparr>vs_tombstones_capacity_evicted := e\<rparr>) p path = binding_ok s p path"
  by (simp_all add: binding_ok_def)

lemma paths_bound_cong:
  "vs_paths s' = vs_paths s \<Longrightarrow> vs_maximum_paths s' = vs_maximum_paths s \<Longrightarrow>
    vs_path_epoch_history s' = vs_path_epoch_history s \<Longrightarrow> vs_state s' = vs_state s \<Longrightarrow>
    paths_bound s' = paths_bound s"
  by (simp add: paths_bound_def binding_ok_def)

lemma disjoint_mono: "A \<inter> C = {} \<Longrightarrow> B \<subseteq> A \<Longrightarrow> B \<inter> C = {}"
  by blast

lemma lifecycle_ok_paths:
  assumes "lifecycle_ok s" and "hm_ok ps" and "length ps \<le> vs_maximum_paths s"
    and "\<And>p path. (p, path) \<in> set ps \<Longrightarrow> binding_ok s p path \<and>
      (\<exists>path'. (p, path') \<in> set (vs_paths s) \<and>
        pb_connection_id (pe_binding path') = pb_connection_id (pe_binding path))"
  shows "lifecycle_ok (s\<lparr>vs_paths := ps\<rparr>)"
proof -
  have "keys ps \<subseteq> keys (vs_paths s)" using assms(4) by force
  moreover have "conns_distinct ps"
    unfolding conns_distinct_def
  proof (intro allI impI)
    fix p path q path'
    assume p: "(p, path) \<in> set ps" and q: "(q, path') \<in> set ps"
      and eq: "pb_connection_id (pe_binding path) = pb_connection_id (pe_binding path')"
    from assms(4) [OF p] obtain e where e: "(p, e) \<in> set (vs_paths s)"
      "pb_connection_id (pe_binding e) = pb_connection_id (pe_binding path)" by blast
    from assms(4) [OF q] obtain e' where e': "(q, e') \<in> set (vs_paths s)"
      "pb_connection_id (pe_binding e') = pb_connection_id (pe_binding path')" by blast
    have "conns_distinct (vs_paths s)" using assms(1) by (simp add: lifecycle_ok_def paths_bound_def)
    then show "p = q" using e e' eq unfolding conns_distinct_def by metis
  qed
  moreover have "ps = []" if "vs_paths s = []"
    using \<open>keys ps \<subseteq> keys (vs_paths s)\<close> that by simp
  moreover have "\<forall>(p, path) \<in> set ps. binding_ok s p path" using assms(4) by auto
  ultimately have "paths_bound (s\<lparr>vs_paths := ps\<rparr>)"
    using assms(1) [unfolded lifecycle_ok_def paths_bound_def] assms(2,3)
    by (simp add: paths_bound_def split_def)
  moreover have "keys ps \<inter> keys (vs_path_tombstones s) = {}"
    using assms(1) \<open>keys ps \<subseteq> keys (vs_paths s)\<close>
    by (intro disjoint_mono [OF _ \<open>keys ps \<subseteq> keys (vs_paths s)\<close>])
      (simp add: lifecycle_ok_def quarantine_ok_def)
  then have "quarantine_ok (s\<lparr>vs_paths := ps\<rparr>)"
    using assms(1) by (simp add: lifecycle_ok_def quarantine_ok_def)
  ultimately show ?thesis
    using assms(1) by (simp add: lifecycle_ok_def history_ok_def)
qed

text \<open>Rewriting the entry of a path without moving its identity.\<close>

lemma lifecycle_ok_rebind:
  assumes ok: "lifecycle_ok s" and p: "map_of (vs_paths s) p = Some path"
    and conn: "pb_connection_id (pe_binding path') = pb_connection_id (pe_binding path)"
    and b: "binding_ok s p path'"
  shows "lifecycle_ok (s\<lparr>vs_paths := hm_insert p path' (vs_paths s)\<rparr>)"
proof (rule lifecycle_ok_paths [OF ok])
  have hm: "hm_ok (vs_paths s)" using ok by (simp add: lifecycle_ok_def paths_bound_def)
  have in_p: "(p, path) \<in> set (vs_paths s)" using p by (rule map_of_SomeD)
  show "hm_ok (hm_insert p path' (vs_paths s))" by (rule hm.ok_ins [OF hm])
  have "p \<in> keys (vs_paths s)" using in_p by force
  then show "length (hm_insert p path' (vs_paths s)) \<le> vs_maximum_paths s"
    using ok by (simp add: hm.length_ins [OF hm] lifecycle_ok_def paths_bound_def)
  fix q e
  assume "(q, e) \<in> set (hm_insert p path' (vs_paths s))"
  then show "binding_ok s q e \<and> (\<exists>e'. (q, e') \<in> set (vs_paths s) \<and>
      pb_connection_id (pe_binding e') = pb_connection_id (pe_binding e))"
    using in_p conn b ok by (auto simp: hm.set_ins [OF hm] lifecycle_ok_def paths_bound_def)
qed

lemma lifecycle_ok_unbind:
  assumes ok: "lifecycle_ok s"
  shows "lifecycle_ok (s\<lparr>vs_paths := kt_remove p (vs_paths s)\<rparr>)"
proof (rule lifecycle_ok_paths [OF ok])
  have hm: "hm_ok (vs_paths s)" "length (vs_paths s) \<le> vs_maximum_paths s"
    using ok by (simp_all add: lifecycle_ok_def paths_bound_def)
  show "hm_ok (kt_remove p (vs_paths s))" by (rule hm.ok_remove [OF hm(1)])
  show "length (kt_remove p (vs_paths s)) \<le> vs_maximum_paths s"
    using length_kt_remove_le [of p "vs_paths s"] hm(2) by linarith
qed (use ok in \<open>auto simp: set_kt_remove lifecycle_ok_def paths_bound_def\<close>)

section \<open>What each operation does\<close>

lemma prune_effect:
  assumes ok: "lifecycle_ok s"
  obtains pre order x where "vs_tombstone_order s = pre @ order"
    and "prune_path_tombstones now s = s\<lparr>vs_path_tombstones :=
        filter (\<lambda>e. fst e \<notin> set pre) (vs_path_tombstones s),
      vs_tombstone_order := order, vs_tombstones_expired := x\<rparr>"
    and "\<forall>p \<in> set pre. \<exists>t. map_of (vs_path_tombstones s) p = Some t \<and> pt_expires_at_ms t \<le> now"
proof -
  obtain order tombs x where f: "prune_front now (vs_tombstone_order s) (vs_path_tombstones s)
      (vs_tombstones_expired s) = (order, tombs, x)"
    by (metis prod_cases3)
  obtain pre where pre: "vs_tombstone_order s = pre @ order"
    "tombs = filter (\<lambda>e. fst e \<notin> set pre) (vs_path_tombstones s)"
    "\<forall>p \<in> set pre. \<forall>t. map_of (vs_path_tombstones s) p = Some t \<longrightarrow> pt_expires_at_ms t \<le> now"
    using prune_front_facts [OF f] by blast
  show ?thesis
  proof (rule that [of pre order x])
    show "vs_tombstone_order s = pre @ order" by (rule pre(1))
    show "prune_path_tombstones now s = s\<lparr>vs_path_tombstones :=
        filter (\<lambda>e. fst e \<notin> set pre) (vs_path_tombstones s),
      vs_tombstone_order := order, vs_tombstones_expired := x\<rparr>"
      using f pre(2) by (simp add: prune_path_tombstones_def)
    have "set pre \<subseteq> keys (vs_path_tombstones s)"
      using ok pre(1) by (auto simp: lifecycle_ok_def quarantine_ok_def)
    then show "\<forall>p \<in> set pre. \<exists>t. map_of (vs_path_tombstones s) p = Some t \<and> pt_expires_at_ms t \<le> now"
      using pre(3) by (metis map_of_eq_None_iff not_None_eq subset_iff)
  qed
qed

lemma prune_tombstones_fields [simp]:
  "vs_admission (prune_path_tombstones now s) = vs_admission s"
  "vs_state (prune_path_tombstones now s) = vs_state s"
  "vs_paths (prune_path_tombstones now s) = vs_paths s"
  "vs_path_epoch_history (prune_path_tombstones now s) = vs_path_epoch_history s"
  "vs_next_path_id (prune_path_tombstones now s) = vs_next_path_id s"
  "vs_maximum_paths (prune_path_tombstones now s) = vs_maximum_paths s"
  "vs_maximum_path_epoch_history (prune_path_tombstones now s) = vs_maximum_path_epoch_history s"
  "vs_maximum_path_tombstones (prune_path_tombstones now s) = vs_maximum_path_tombstones s"
  "vs_path_tombstone_ttl_ms (prune_path_tombstones now s) = vs_path_tombstone_ttl_ms s"
  by (simp_all add: prune_path_tombstones_def split: prod.split)

lemma lifecycle_ok_prune:
  assumes ok: "lifecycle_ok s"
  shows "lifecycle_ok (prune_path_tombstones now s)"
proof -
  obtain pre order x where pre: "vs_tombstone_order s = pre @ order"
    and eq: "prune_path_tombstones now s = s\<lparr>vs_path_tombstones :=
        filter (\<lambda>e. fst e \<notin> set pre) (vs_path_tombstones s),
      vs_tombstone_order := order, vs_tombstones_expired := x\<rparr>"
    using prune_effect [OF ok] by metis
  let ?ts = "filter (\<lambda>e. fst e \<notin> set pre) (vs_path_tombstones s)"
  have q: "quarantine_ok s" using ok by (simp add: lifecycle_ok_def)
  have keys: "keys ?ts = keys (vs_path_tombstones s) - set pre" by auto
  have "length ?ts \<le> vs_maximum_path_tombstones s"
    using length_filter_le [of "\<lambda>e. fst e \<notin> set pre" "vs_path_tombstones s"] q
    unfolding quarantine_ok_def by linarith
  moreover have "set order = keys ?ts" "distinct order"
    using q pre unfolding quarantine_ok_def keys by auto
  ultimately have "quarantine_ok (prune_path_tombstones now s)"
    using q keys unfolding eq quarantine_ok_def by (simp add: hm.ok_filter) blast
  moreover have "paths_bound (prune_path_tombstones now s)"
    using ok unfolding eq by (simp add: lifecycle_ok_def paths_bound_def)
  moreover have "history_ok (prune_path_tombstones now s)"
    using ok unfolding eq by (simp add: lifecycle_ok_def history_ok_def)
  ultimately show ?thesis by (simp add: lifecycle_ok_def)
qed

lemma tombstone_effect:
  assumes ok: "lifecycle_ok s" and p: "map_of (vs_paths s) p = Some path"
  defines "b \<equiv> pe_binding path"
  obtains x where "path_insert_tombstone p (pb_path_epoch b) (pb_key_epoch b) now s =
    s\<lparr>vs_path_tombstones := hm_insert p
         \<lparr>pt_expires_at_ms = sat_add now (vs_path_tombstone_ttl_ms s)\<rparr>
         (if vs_maximum_path_tombstones s \<le> length (vs_path_tombstones s)
          then kt_remove (hd (vs_tombstone_order s)) (vs_path_tombstones s)
          else vs_path_tombstones s),
       vs_tombstone_order :=
         (if vs_maximum_path_tombstones s \<le> length (vs_path_tombstones s)
          then tl (vs_tombstone_order s) else vs_tombstone_order s) @ [p],
       vs_tombstones_capacity_evicted := x\<rparr>"
proof -
  have q: "hm_ok (vs_path_tombstones s)" "set (vs_tombstone_order s) = keys (vs_path_tombstones s)"
    "length (vs_path_tombstones s) \<le> vs_maximum_path_tombstones s" "0 < vs_maximum_path_tombstones s"
    using ok by (simp_all add: lifecycle_ok_def quarantine_ok_def)
  have "(p, path) \<in> set (vs_paths s)" using p by (rule map_of_SomeD)
  then have "binding_ok s p path" using ok by (auto simp: lifecycle_ok_def paths_bound_def)
  then have h: "map_of (vs_path_epoch_history s) p =
      Some \<lparr>ep_path_epoch = pb_path_epoch b, ep_key_epoch = pb_key_epoch b\<rparr>"
    by (simp add: binding_ok_def b_def Let_def)
  show ?thesis
  proof (cases "vs_maximum_path_tombstones s \<le> length (vs_path_tombstones s)")
    case True
    then show ?thesis
      by (intro that [of "sat_inc (vs_tombstones_capacity_evicted s)"])
        (simp add: path_insert_tombstone_def evict_front_eq [OF q] h hm_insert_same [OF h])
  next
    case False
    then show ?thesis
      by (intro that [of "vs_tombstones_capacity_evicted s"])
        (simp add: path_insert_tombstone_def evict_front_eq [OF q] h hm_insert_same [OF h])
  qed
qed

lemma lifecycle_ok_tombstone:
  assumes ok: "lifecycle_ok s" and p: "map_of (vs_paths s) p = Some path"
  shows "lifecycle_ok ((path_insert_tombstone p (pb_path_epoch (pe_binding path))
      (pb_key_epoch (pe_binding path)) now s)\<lparr>vs_paths := kt_remove p (vs_paths s)\<rparr>)"
    (is "lifecycle_ok (?t\<lparr>vs_paths := ?ps\<rparr>)")
proof -
  let ?full = "vs_maximum_path_tombstones s \<le> length (vs_path_tombstones s)"
  let ?ts = "if ?full then kt_remove (hd (vs_tombstone_order s)) (vs_path_tombstones s)
    else vs_path_tombstones s"
  let ?os = "if ?full then tl (vs_tombstone_order s) else vs_tombstone_order s"
  let ?new = "hm_insert p \<lparr>pt_expires_at_ms = sat_add now (vs_path_tombstone_ttl_ms s)\<rparr> ?ts"
  obtain x where t: "?t = s\<lparr>vs_path_tombstones := ?new, vs_tombstone_order := ?os @ [p],
      vs_tombstones_capacity_evicted := x\<rparr>"
    using tombstone_effect [OF ok p] by metis
  have q: "hm_ok (vs_path_tombstones s)" "set (vs_tombstone_order s) = keys (vs_path_tombstones s)"
    "length (vs_path_tombstones s) \<le> vs_maximum_path_tombstones s" "0 < vs_maximum_path_tombstones s"
    "distinct (vs_tombstone_order s)" "keys (vs_paths s) \<inter> keys (vs_path_tombstones s) = {}"
    "keys (vs_path_tombstones s) \<subseteq> keys (vs_path_epoch_history s)"
    using ok by (simp_all add: lifecycle_ok_def quarantine_ok_def)
  have in_p: "(p, path) \<in> set (vs_paths s)" using p by (rule map_of_SomeD)
  then have pk: "p \<in> keys (vs_paths s)" by force
  have b: "binding_ok s p path" using in_p ok by (auto simp: lifecycle_ok_def paths_bound_def)
  have ts_ok: "hm_ok ?ts" using q(1) by (simp add: hm.ok_remove)
  have ph: "p \<in> keys (vs_path_epoch_history s)"
    using b map_of_eq_None_iff [of "vs_path_epoch_history s" p] by (auto simp: binding_ok_def Let_def)
  have os: "distinct ?os" "set ?os = keys ?ts" "length ?ts < vs_maximum_path_tombstones s"
  proof -
    have "?full \<Longrightarrow> vs_tombstone_order s \<noteq> []"
      using q(2,4) by (cases "vs_path_tombstones s") auto
    then obtain o1 rest where o: "?full \<Longrightarrow> vs_tombstone_order s = o1 # rest"
      by (cases "vs_tombstone_order s") auto
    show "distinct ?os" using q(5) by (auto intro: distinct_tl)
    show "set ?os = keys ?ts"
    proof (cases ?full)
      case True
      from o [OF True] q(2,5) have "set rest = keys (vs_path_tombstones s) - {o1}" by auto
      moreover have "keys (kt_remove o1 (vs_path_tombstones s)) = keys (vs_path_tombstones s) - {o1}"
        by (auto simp: set_kt_remove)
      ultimately show ?thesis using True o [OF True] by simp
    qed (use q(2) in simp)
    show "length ?ts < vs_maximum_path_tombstones s"
    proof (cases ?full)
      case True
      from o [OF True] q(2) have "o1 \<in> keys (vs_path_tombstones s)" by auto
      from hm.length_remove [OF q(1) this] True o [OF True] q(3) show ?thesis by simp
    qed simp
  qed
  have sub: "keys ?ts \<subseteq> keys (vs_path_tombstones s)" by (auto simp: set_kt_remove)
  have pn: "p \<notin> keys ?ts" using sub pk q(6) by blast
  have new_keys: "keys ?new = insert p (keys ?ts)" by (rule hm.keys_ins [OF ts_ok])
  have ps_keys: "keys ?ps = keys (vs_paths s) - {p}" by (auto simp: set_kt_remove)
  have "keys ?ps \<inter> keys ?new = {}"
    unfolding new_keys ps_keys using sub q(6) by blast
  moreover have "keys ?new \<subseteq> keys (vs_path_epoch_history s)"
    unfolding new_keys using ph sub q(7) by blast
  moreover have "length ?new \<le> vs_maximum_path_tombstones s"
    using hm.length_ins_le [OF ts_ok, of p] os(3) by (meson Suc_leI order_trans)
  ultimately have "quarantine_ok (?t\<lparr>vs_paths := ?ps\<rparr>)"
    unfolding quarantine_ok_def t
    using q(4) os(1,2) pn new_keys hm.ok_ins [OF ts_ok] by simp
  moreover have "paths_bound (?t\<lparr>vs_paths := ?ps\<rparr>)"
    using lifecycle_ok_unbind [OF ok, of p]
    by (subst paths_bound_cong [of _ "s\<lparr>vs_paths := ?ps\<rparr>"]) (simp_all add: t lifecycle_ok_def)
  moreover have "history_ok (?t\<lparr>vs_paths := ?ps\<rparr>)"
    using ok unfolding t lifecycle_ok_def history_ok_def by simp
  ultimately show ?thesis by (simp add: lifecycle_ok_def)
qed

text \<open>A reservation: refused with nothing but pruning and a moved cursor, or granted on an
  eligible identifier.\<close>

definition granted :: "v2_session \<Rightarrow> attach_reservation \<Rightarrow> u16 \<Rightarrow> v2_session" where
  "granted s r n = s\<lparr>vs_next_path_id := n,
     vs_path_epoch_history := hm_insert (ar_path_id r)
       \<lparr>ep_path_epoch = ar_path_epoch r, ep_key_epoch = ar_key_epoch r\<rparr> (vs_path_epoch_history s),
     vs_paths := hm_insert (ar_path_id r)
       \<lparr>pe_binding = \<lparr>pb_path_id = ar_path_id r, pb_path_epoch = ar_path_epoch r,
           pb_key_epoch = ar_key_epoch r, pb_connection_id = ar_connection_id r,
           pb_state = PConnecting\<rparr>,
        pe_reserved = True\<rparr> (vs_paths s)\<rparr>"

lemma reserve_effect:
  assumes ok: "lifecycle_ok s" and r: "reserve_attach s conn e k now = (s', res)"
  defines "t \<equiv> prune_path_tombstones now s"
  obtains (refused) err n where "n \<noteq> 0" and "s' = t\<lparr>vs_next_path_id := n\<rparr>" and "res = Inl err"
  | (granted) rv n where "n \<noteq> 0" and "s' = granted t rv n" and "res = Inr rv"
    and "ar_connection_id rv = conn" and "ar_path_epoch rv = e" and "ar_key_epoch rv = k"
    and "ar_path_id rv \<noteq> 0" and "eligible t e k (ar_path_id rv)" and "e \<noteq> 0" and "k \<noteq> 0"
    and "\<And>p path. (p, path) \<in> set (vs_paths s) \<Longrightarrow> pb_connection_id (pe_binding path) \<noteq> conn"
    and "length (vs_paths s) < vs_maximum_paths s" and "vs_state s = SActive"
    and "\<not> vs_is_expired s now"
proof -
  have nz: "vs_next_path_id s \<noteq> 0" using ok by (simp add: lifecycle_ok_def history_ok_def)
  have cursor: "t\<lparr>vs_next_path_id := vs_next_path_id s\<rparr> = t"
    by (simp add: t_def)
  show ?thesis
  proof (cases "vs_is_expired t now \<or> vs_state t \<noteq> SActive \<or> e = 0 \<or> k = 0 \<or>
      list_ex (\<lambda>(_, path). pb_connection_id (pe_binding path) = conn) (vs_paths t) \<or>
      vs_maximum_paths t \<le> length (vs_paths t)")
    case True
    then have "\<exists>err. s' = t \<and> res = Inl err"
      using r unfolding reserve_attach_def t_def [symmetric] Let_def by (auto split: if_splits)
    then show ?thesis using refused [OF nz] cursor by metis
  next
    case False
    obtain u a where al: "allocate_path_id t e k = (u, a)" by fastforce
    have "vs_next_path_id t \<noteq> 0" using nz by (simp add: t_def)
    from allocate_turns_facts [OF al [unfolded allocate_path_id_def] this]
    obtain m where m: "m \<noteq> 0" "u = t\<lparr>vs_next_path_id := m\<rparr>"
      "\<And>p. a = Some p \<Longrightarrow> p \<noteq> 0 \<and> eligible t e k p" by metis
    show ?thesis
    proof (cases a)
      case None
      then have "s' = u \<and> res = Inl PathIdentifierExhausted"
        using r False al unfolding reserve_attach_def t_def [symmetric] Let_def by simp
      then show ?thesis using refused [OF m(1)] m(2) by metis
    next
      case (Some p)
      let ?rv = "\<lparr>ar_path_id = p, ar_path_epoch = e, ar_key_epoch = k, ar_connection_id = conn\<rparr>"
      have "s' = granted t ?rv m \<and> res = Inr ?rv"
        using r False al Some m(2)
        unfolding reserve_attach_def t_def [symmetric] Let_def granted_def by auto
      moreover have "pb_connection_id (pe_binding path) \<noteq> conn" if "(q, path) \<in> set (vs_paths s)" for q path
        using False that by (auto simp: t_def list_ex_iff)
      ultimately show ?thesis
        using False m(3) [OF Some] by (intro granted [OF m(1)]) (auto simp: t_def vs_is_expired_def)
    qed
  qed
qed

lemma lifecycle_ok_cursor:
  "lifecycle_ok s \<Longrightarrow> n \<noteq> 0 \<Longrightarrow> lifecycle_ok (s\<lparr>vs_next_path_id := n\<rparr>)"
  using paths_bound_cong [of "s\<lparr>vs_next_path_id := n\<rparr>" s]
  by (simp add: lifecycle_ok_def quarantine_ok_def history_ok_def)

lemma lifecycle_ok_granted:
  assumes ok: "lifecycle_ok s" and n: "n \<noteq> 0" and el: "eligible s e k (ar_path_id r)"
    and r: "ar_path_id r \<noteq> 0" "ar_path_epoch r = e" "ar_key_epoch r = k" "e \<noteq> 0" "k \<noteq> 0"
    and conn: "\<And>p path. (p, path) \<in> set (vs_paths s) \<Longrightarrow>
      pb_connection_id (pe_binding path) \<noteq> ar_connection_id r"
    and len: "length (vs_paths s) < vs_maximum_paths s" and act: "vs_state s = SActive"
  shows "lifecycle_ok (granted s r n)"
proof -
  let ?p = "ar_path_id r" and ?g = "granted s r n"
  have hm: "hm_ok (vs_paths s)" "hm_ok (vs_path_epoch_history s)"
    using ok by (simp_all add: lifecycle_defs)
  have new: "?p \<notin> keys (vs_paths s)" "?p \<notin> keys (vs_path_tombstones s)"
    using el by (simp_all add: eligible_def)
  have keys_p: "keys (vs_paths ?g) = insert ?p (keys (vs_paths s))"
    by (simp add: granted_def hm.keys_ins [OF hm(1)])
  have keys_h: "keys (vs_path_epoch_history ?g) = insert ?p (keys (vs_path_epoch_history s))"
    by (simp add: granted_def hm.keys_ins [OF hm(2)])
  have len_h: "length (vs_path_epoch_history ?g) \<le> vs_maximum_path_epoch_history s"
  proof (cases "?p \<in> keys (vs_path_epoch_history s)")
    case True
    then show ?thesis
      using ok by (simp add: granted_def hm.length_ins [OF hm(2)] lifecycle_ok_def history_ok_def)
  next
    case False
    then have "map_of (vs_path_epoch_history s) ?p = None" by (simp add: map_of_eq_None_iff)
    with False el show ?thesis by (simp add: granted_def hm.length_ins [OF hm(2)] eligible_def)
  qed
  have "history_ok ?g"
    using ok r(1) n keys_h len_h hm.ok_ins [OF hm(2)]
    unfolding lifecycle_ok_def history_ok_def by (simp add: granted_def)
  moreover have "keys (vs_paths ?g) \<inter> keys (vs_path_tombstones s) = {}"
    "keys (vs_path_tombstones s) \<subseteq> keys (vs_path_epoch_history ?g)"
    using ok new(2) unfolding keys_p keys_h lifecycle_ok_def quarantine_ok_def by auto
  then have "quarantine_ok ?g"
    using ok unfolding lifecycle_ok_def quarantine_ok_def by (simp add: granted_def)
  moreover have "paths_bound ?g"
    unfolding paths_bound_def
  proof (intro conjI)
    show "hm_ok (vs_paths ?g)" by (simp add: granted_def hm.ok_ins [OF hm(1)])
    show "length (vs_paths ?g) \<le> vs_maximum_paths ?g"
      using len new(1) by (simp add: granted_def hm.length_ins [OF hm(1)])
    have in_g: "(q, path) \<in> set (vs_paths ?g) \<longleftrightarrow>
        (q = ?p \<and> path = \<lparr>pe_binding = \<lparr>pb_path_id = ?p, pb_path_epoch = ar_path_epoch r,
           pb_key_epoch = ar_key_epoch r, pb_connection_id = ar_connection_id r,
           pb_state = PConnecting\<rparr>, pe_reserved = True\<rparr>) \<or> (q, path) \<in> set (vs_paths s)" for q path
      using new(1) by (auto simp: granted_def hm.set_ins [OF hm(1)]) force
    show "\<forall>(p, path) \<in> set (vs_paths ?g). binding_ok ?g p path"
    proof (clarify)
      fix q path
      assume "(q, path) \<in> set (vs_paths ?g)"
      then show "binding_ok ?g q path"
        unfolding in_g
      proof
        assume "(q, path) \<in> set (vs_paths s)"
        moreover from this new(1) have "q \<noteq> ?p" by force
        ultimately show ?thesis
          using ok unfolding lifecycle_ok_def paths_bound_def
          by (auto simp: granted_def binding_ok_def map_of_hm_insert)
      qed (simp add: binding_ok_def granted_def map_of_hm_insert r)
    qed
    have "conns_distinct (vs_paths s)" using ok by (simp add: lifecycle_ok_def paths_bound_def)
    then show "conns_distinct (vs_paths ?g)"
      using conn unfolding conns_distinct_def in_g by (metis path_binding.select_convs(4) path_entry.select_convs(1))
    show "vs_state ?g = SPending \<or> vs_state ?g = SClosed \<longrightarrow> vs_paths ?g = []"
      using act by (simp add: granted_def)
  qed
  ultimately show ?thesis by (simp add: lifecycle_ok_def)
qed

lemma lifecycle_ok_reserve:
  assumes ok: "lifecycle_ok s" and r: "reserve_attach s conn e k now = (s', res)"
  shows "lifecycle_ok s'"
  using ok r
proof (cases rule: reserve_effect)
  case (refused err n)
  then show ?thesis using lifecycle_ok_cursor [OF lifecycle_ok_prune [OF ok]] by simp
next
  case (granted rv n)
  show ?thesis
    unfolding granted(2)
    by (rule lifecycle_ok_granted [OF lifecycle_ok_prune [OF ok] granted(1) granted(8) granted(7)])
      (use granted in auto)
qed

lemma lifecycle_entry:
  assumes "lifecycle_ok s" and "map_of (vs_paths s) p = Some path"
  shows "binding_ok s p path"
proof -
  have "(p, path) \<in> set (vs_paths s)" using assms(2) by (rule map_of_SomeD)
  then show ?thesis using assms(1) by (auto simp: lifecycle_ok_def paths_bound_def)
qed

lemma commit_effect:
  assumes "commit_attach s r = (s', res)"
  shows "s' = s \<and> (\<exists>err. res = Inl err) \<or>
    (\<exists>path. map_of (vs_paths s) (ar_path_id r) = Some path \<and> reservation_matches path r \<and>
      s' = s\<lparr>vs_paths := hm_insert (ar_path_id r) \<lparr>pe_binding = (pe_binding path)\<lparr>pb_state := PAttached\<rparr>,
        pe_reserved = False\<rparr> (vs_paths s)\<rparr> \<and> res = Inr ((pe_binding path)\<lparr>pb_state := PAttached\<rparr>))"
  using assms by (auto simp: commit_attach_def Let_def split: option.splits if_splits)

lemma set_state_effect:
  assumes "set_path_state s p st = (s', res)"
  shows "s' = s \<and> (\<exists>err. res = Inl err) \<or>
    (\<exists>path. map_of (vs_paths s) p = Some path \<and> \<not> pe_reserved path \<and>
      valid_path_transition (pb_state (pe_binding path)) st \<and>
      s' = s\<lparr>vs_paths := hm_insert p (path\<lparr>pe_binding := (pe_binding path)\<lparr>pb_state := st\<rparr>\<rparr>) (vs_paths s)\<rparr> \<and>
      res = Inr ((pe_binding path)\<lparr>pb_state := st\<rparr>))"
  using assms by (auto simp: set_path_state_def Let_def split: option.splits if_splits)

lemma abort_effect:
  "abort_attach s r = (s', b) \<Longrightarrow> s' = s \<and> \<not> b \<or>
    s' = s\<lparr>vs_paths := kt_remove (ar_path_id r) (vs_paths s)\<rparr>"
  by (auto simp: abort_attach_def split: option.splits if_splits)

lemma detach_effect:
  assumes "detach s p conn e now = (s', b)"
  shows "s' = s \<and> \<not> b \<or>
    (\<exists>path. map_of (vs_paths s) p = Some path \<and> b \<and>
      s' = (path_insert_tombstone p (pb_path_epoch (pe_binding path)) (pb_key_epoch (pe_binding path))
        now s)\<lparr>vs_paths := kt_remove p (vs_paths s)\<rparr>)"
proof -
  have "p \<in> keys (vs_paths s)" if "map_of (vs_paths s) p = Some path" for path
    using map_of_SomeD [OF that] by force
  then show ?thesis
    using assms by (auto simp: detach_def path_insert_tombstone_def Let_def
        split: option.splits if_splits prod.splits)
qed

lemma lifecycle_ok_commit:
  assumes "lifecycle_ok s" and "commit_attach s r = (s', res)"
  shows "lifecycle_ok s'"
  using commit_effect [OF assms(2)] assms(1) lifecycle_entry [OF assms(1)]
  by (auto intro!: lifecycle_ok_rebind simp: binding_ok_def Let_def)

lemma lifecycle_ok_set_state:
  assumes "lifecycle_ok s" and "set_path_state s p st = (s', res)"
  shows "lifecycle_ok s'"
  using set_state_effect [OF assms(2)] assms(1) lifecycle_entry [OF assms(1)]
  by (auto intro!: lifecycle_ok_rebind simp: binding_ok_def Let_def)

lemma lifecycle_ok_session:
  assumes "lifecycle_ok s"
  shows "vs_state s \<noteq> SClosed \<Longrightarrow> lifecycle_ok (s\<lparr>vs_state := SActive\<rparr>)"
    and "vs_state s = SActive \<Longrightarrow> lifecycle_ok (s\<lparr>vs_state := SDraining\<rparr>)"
    and "lifecycle_ok (s\<lparr>vs_state := SClosed, vs_paths := []\<rparr>)"
proof -
  show "lifecycle_ok (s\<lparr>vs_state := SActive\<rparr>)"
    using assms by (simp add: lifecycle_ok_def quarantine_ok_def paths_bound_def history_ok_def)
  show "lifecycle_ok (s\<lparr>vs_state := SDraining\<rparr>)"
    using assms by (simp add: lifecycle_ok_def quarantine_ok_def paths_bound_def history_ok_def)
  show "lifecycle_ok (s\<lparr>vs_state := SClosed, vs_paths := []\<rparr>)"
    using assms
    by (simp add: lifecycle_ok_def quarantine_ok_def paths_bound_def history_ok_def conns_distinct_def
        hm.ok_Nil)
qed

lemma lifecycle_ok_exec:
  assumes ok: "lifecycle_ok s" and e: "lc_exec s e = (t, out)"
  shows "lifecycle_ok t"
proof (cases e)
  case (Prune now)
  then show ?thesis using e lifecycle_ok_prune [OF ok] by auto
next
  case (Activate now)
  then show ?thesis using e ok lifecycle_ok_session(1) [OF ok] by (auto simp: vs_activate_def split: if_splits)
next
  case BeginDraining
  then show ?thesis using e ok lifecycle_ok_session(2) [OF ok] by (auto simp: vs_begin_draining_def split: if_splits)
next
  case Close
  then show ?thesis using e ok lifecycle_ok_session(3) [OF ok] by (auto simp: vs_close_def split: if_splits)
next
  case (Reserve conn pe ke now)
  then obtain res where "reserve_attach s conn pe ke now = (t, res)" using e by (auto simp: map_prod_def split: prod.splits)
  then show ?thesis by (rule lifecycle_ok_reserve [OF ok])
next
  case (Commit r)
  then obtain res where "commit_attach s r = (t, res)" using e by (auto simp: map_prod_def split: prod.splits)
  then show ?thesis by (rule lifecycle_ok_commit [OF ok])
next
  case (Abort r)
  then obtain b where "abort_attach s r = (t, b)" using e by (auto simp: map_prod_def split: prod.splits)
  from abort_effect [OF this] show ?thesis using ok lifecycle_ok_unbind [OF ok] by auto
next
  case (Detach p conn pe now)
  then obtain b where "detach s p conn pe now = (t, b)" using e by (auto simp: map_prod_def split: prod.splits)
  from detach_effect [OF this] show ?thesis using ok lifecycle_ok_tombstone [OF ok] by auto
next
  case (SetPathState p st)
  then obtain res where "set_path_state s p st = (t, res)" using e by (auto simp: map_prod_def split: prod.splits)
  then show ?thesis by (rule lifecycle_ok_set_state [OF ok])
qed

text \<open>Every step keeps the limits, advances the session state and never loses or lowers an epoch.\<close>

fun session_rank :: "session_state \<Rightarrow> nat" where
  "session_rank SPending = 0"
| "session_rank SActive = 1"
| "session_rank SDraining = 2"
| "session_rank SClosed = 3"

definition limits_of :: "v2_session \<Rightarrow> admission \<times> nat \<times> nat \<times> nat \<times> u64" where
  "limits_of s = (vs_admission s, vs_maximum_paths s, vs_maximum_path_epoch_history s,
     vs_maximum_path_tombstones s, vs_path_tombstone_ttl_ms s)"

definition epochs_grow :: "v2_session \<Rightarrow> v2_session \<Rightarrow> bool" where
  "epochs_grow s t \<longleftrightarrow> (\<forall>p a. map_of (vs_path_epoch_history s) p = Some a \<longrightarrow>
     (\<exists>b. map_of (vs_path_epoch_history t) p = Some b \<and>
       ep_path_epoch a \<le> ep_path_epoch b \<and> ep_key_epoch a \<le> ep_key_epoch b))"

definition evolves :: "v2_session \<Rightarrow> v2_session \<Rightarrow> bool" where
  "evolves s t \<longleftrightarrow> limits_of t = limits_of s \<and> epochs_grow s t \<and>
     session_rank (vs_state s) \<le> session_rank (vs_state t)"

lemma epochs_grow_same: "vs_path_epoch_history t = vs_path_epoch_history s \<Longrightarrow> epochs_grow s t"
  by (auto simp: epochs_grow_def)

lemma session_rank_le [simp]: "session_rank st \<le> 3"
  by (cases st) simp_all

lemma epochs_grow_trans:
  assumes st: "epochs_grow s t" and tu: "epochs_grow t u"
  shows "epochs_grow s u"
  unfolding epochs_grow_def
proof (intro allI impI)
  fix p a
  assume "map_of (vs_path_epoch_history s) p = Some a"
  then obtain b where "map_of (vs_path_epoch_history t) p = Some b"
    "ep_path_epoch a \<le> ep_path_epoch b" "ep_key_epoch a \<le> ep_key_epoch b"
    using st unfolding epochs_grow_def by blast
  moreover from this(1) obtain c where "map_of (vs_path_epoch_history u) p = Some c"
    "ep_path_epoch b \<le> ep_path_epoch c" "ep_key_epoch b \<le> ep_key_epoch c"
    using tu unfolding epochs_grow_def by blast
  ultimately show "\<exists>c. map_of (vs_path_epoch_history u) p = Some c \<and>
      ep_path_epoch a \<le> ep_path_epoch c \<and> ep_key_epoch a \<le> ep_key_epoch c"
    by (intro exI [of _ c]) auto
qed

lemma evolves_trans: "evolves s t \<Longrightarrow> evolves t u \<Longrightarrow> evolves s u"
  by (auto simp: evolves_def elim: epochs_grow_trans)

lemma granted_epochs:
  assumes "eligible s e k (ar_path_id r)" and "ar_path_epoch r = e" and "ar_key_epoch r = k"
  shows "epochs_grow s (granted s r n)"
  using assms unfolding epochs_grow_def
  by (auto simp: granted_def map_of_hm_insert eligible_def split: option.splits)

lemma evolves_exec:
  assumes ok: "lifecycle_ok s" and e: "lc_exec s e = (t, out)"
  shows "evolves s t"
proof (cases e)
  case (Reserve conn pe ke now)
  then obtain res where r: "reserve_attach s conn pe ke now = (t, res)"
    using e by (auto simp: map_prod_def split: prod.splits)
  from ok r show ?thesis
  proof (cases rule: reserve_effect)
    case (refused err n)
    then show ?thesis by (simp add: evolves_def limits_of_def epochs_grow_same)
  next
    case (granted rv n)
    have "epochs_grow (prune_path_tombstones now s) t"
      unfolding granted(2) by (rule granted_epochs [OF granted(8)]) (use granted in auto)
    then have "epochs_grow s t" by (simp add: epochs_grow_def)
    then show ?thesis using granted by (simp add: evolves_def limits_of_def granted_def)
  qed
next
  case (Commit r)
  then obtain res where "commit_attach s r = (t, res)" using e by (auto simp: map_prod_def split: prod.splits)
  from commit_effect [OF this] show ?thesis by (auto simp: evolves_def limits_of_def epochs_grow_same)
next
  case (Abort r)
  then obtain b where "abort_attach s r = (t, b)" using e by (auto simp: map_prod_def split: prod.splits)
  from abort_effect [OF this] show ?thesis by (auto simp: evolves_def limits_of_def epochs_grow_same)
next
  case (Detach p conn pe now)
  then obtain b where "detach s p conn pe now = (t, b)" using e by (auto simp: map_prod_def split: prod.splits)
  from detach_effect [OF this] show ?thesis
  proof (elim disjE exE conjE)
    fix path
    assume p: "map_of (vs_paths s) p = Some path" and t: "t = (path_insert_tombstone p
      (pb_path_epoch (pe_binding path)) (pb_key_epoch (pe_binding path)) now s)
      \<lparr>vs_paths := kt_remove p (vs_paths s)\<rparr>"
    show ?thesis
      by (rule tombstone_effect [OF ok p, of now])
        (simp add: t evolves_def limits_of_def epochs_grow_same)
  qed (simp add: evolves_def epochs_grow_same)
next
  case (SetPathState p st)
  then obtain res where "set_path_state s p st = (t, res)" using e by (auto simp: map_prod_def split: prod.splits)
  from set_state_effect [OF this] show ?thesis by (auto simp: evolves_def limits_of_def epochs_grow_same)
qed (use e in \<open>auto simp: evolves_def limits_of_def epochs_grow_same vs_activate_def vs_begin_draining_def
  vs_close_def split: if_splits\<close>)

interpretation lifecycle: keeps_relation lc_exec lifecycle_ok evolves
proof
  fix s t u e out
  show "evolves s s" by (simp add: evolves_def epochs_grow_same)
  show "evolves s t \<Longrightarrow> evolves t u \<Longrightarrow> evolves s u" by (rule evolves_trans)
  show "lifecycle_ok s \<Longrightarrow> lc_exec s e = (t, out) \<Longrightarrow> lifecycle_ok t" by (rule lifecycle_ok_exec)
  show "lifecycle_ok s \<Longrightarrow> lc_exec s e = (t, out) \<Longrightarrow> evolves s t" by (rule evolves_exec)
qed

lemma lc_reachable_ok: "lc_reachable s \<Longrightarrow> lifecycle_ok s"
  unfolding lc_reachable_def using lifecycle_ok_new lifecycle.inv_trace by blast

lemma lc_reachable_trace: "lc_reachable s \<Longrightarrow> trace lc_exec s tr t \<Longrightarrow> lc_reachable t"
  unfolding lc_reachable_def by (metis trace_append)

lemma lc_reachable_exec: "lc_reachable s \<Longrightarrow> lc_exec s e = (t, out) \<Longrightarrow> lc_reachable t"
  by (rule lc_reachable_trace [of s "[(e, out)]"]) (auto simp: trace_Cons)

end
