(* ===== verification/SessionsInv.thy ===== *)
theory SessionsInv
  imports Sessions LifecycleProps
begin

text \<open>
  The invariant of the session manager: every session is a reachable session of the path
  lifecycle, the connection table is exactly the committed paths of the sessions, every pending
  attach names a reserved path, and the tables stay within the configured limits. It holds for
  the first \<open>2\<^sup>6\<^sup>4 - 2\<close> operations, after which connection identifiers could repeat.
\<close>

section \<open>Paths and the tables that name them\<close>

type_synonym path_view = "session_id \<Rightarrow> path_id \<Rightarrow> path_entry option"

definition path_at :: "(session_id \<times> managed_session) list \<Rightarrow> path_view" where
  "path_at ss sid p = (case map_of ss sid of None \<Rightarrow> None
     | Some ms \<Rightarrow> map_of (vs_paths (ms_session ms)) p)"

definition committed_as :: "path_entry \<Rightarrow> connection_id \<Rightarrow> u64 \<Rightarrow> u32 \<Rightarrow> bool" where
  "committed_as path c e k \<longleftrightarrow> \<not> pe_reserved path \<and> pb_connection_id (pe_binding path) = c \<and>
     pb_path_epoch (pe_binding path) = e \<and> pb_key_epoch (pe_binding path) = k"

text \<open>The connection table is exactly the committed paths; a pending attach has its path reserved.\<close>

definition links :: "path_view \<Rightarrow> (connection_id \<rightharpoonup> path_owner) \<Rightarrow> (connection_id \<rightharpoonup> pending_connection) \<Rightarrow> bool" where
  "links at conns pends \<longleftrightarrow>
     (\<forall>c sid p e k. conns c = Some (sid, p, e, k) \<longleftrightarrow> (\<exists>path. at sid p = Some path \<and> committed_as path c e k)) \<and>
     (\<forall>sid p path. at sid p = Some path \<longrightarrow> \<not> pe_reserved path \<longrightarrow> pb_state (pe_binding path) = PHealthy) \<and>
     (\<forall>c q. pends c = Some q \<longrightarrow> ar_connection_id (gr_reservation (pc_reservation q)) = c \<and> conns c = None \<and>
       (\<exists>path. at (gr_session_id (pc_reservation q)) (ar_path_id (gr_reservation (pc_reservation q))) = Some path \<and>
         reservation_matches path (gr_reservation (pc_reservation q))))"

definition at_upd :: "path_view \<Rightarrow> session_id \<Rightarrow> path_id \<Rightarrow> path_entry option \<Rightarrow> path_view" where
  "at_upd at sid p x = at(sid := (at sid)(p := x))"

lemma at_upd_apply: "at_upd at sid p x s q = (if s = sid \<and> q = p then x else at s q)"
  by (simp add: at_upd_def)

lemma links_empty: "links (\<lambda>_ _. None) Map.empty Map.empty"
  by (simp add: links_def)

lemma linksD:
  assumes "links at conns pends"
  shows "conns c = Some (sid, p, e, k) \<longleftrightarrow> (\<exists>path. at sid p = Some path \<and> committed_as path c e k)"
    and "at sid p = Some path \<Longrightarrow> \<not> pe_reserved path \<Longrightarrow> pb_state (pe_binding path) = PHealthy"
    and "pends c = Some q \<Longrightarrow> conns c = None"
    and "pends c = Some q \<Longrightarrow> ar_connection_id (gr_reservation (pc_reservation q)) = c"
    and "pends c = Some q \<Longrightarrow>
      \<exists>path. at (gr_session_id (pc_reservation q)) (ar_path_id (gr_reservation (pc_reservation q))) = Some path \<and>
         reservation_matches path (gr_reservation (pc_reservation q))"
  using assms unfolding links_def by blast+

text \<open>Dropping a pending entry; reserving, releasing and committing a path; losing a session.\<close>

lemma links_drop_pending:
  "links at conns pends \<Longrightarrow> links at conns (pends(c := None))"
  by (auto simp: links_def)

lemma links_reserve:
  assumes l: "links at conns pends" and free: "at sid p = None"
    and path: "pe_reserved path" "reservation_matches path (gr_reservation r)"
    and r: "gr_session_id r = sid" "ar_path_id (gr_reservation r) = p" "ar_connection_id (gr_reservation r) = c"
    and c: "conns c = None"
  shows "links (at_upd at sid p (Some path)) conns (pends(c \<mapsto> \<lparr>pc_reservation = r, pc_expires_at_ms = x\<rparr>))"
  unfolding links_def
proof (intro conjI allI impI)
  fix d s q e k
  have "conns d = Some (s, q, e, k) \<longleftrightarrow> (\<exists>path. at s q = Some path \<and> committed_as path d e k)"
    by (rule linksD(1) [OF l])
  then show "(conns d = Some (s, q, e, k)) =
      (\<exists>pa. at_upd at sid p (Some path) s q = Some pa \<and> committed_as pa d e k)"
    using free path(1) by (auto simp: at_upd_apply committed_as_def)
next
  fix s q pa
  assume "at_upd at sid p (Some path) s q = Some pa" and "\<not> pe_reserved pa"
  then show "pb_state (pe_binding pa) = PHealthy"
    using linksD(2) [OF l, of s q pa] path(1) by (auto simp: at_upd_apply split: if_splits)
next
  fix d q
  assume q: "(pends(c \<mapsto> \<lparr>pc_reservation = r, pc_expires_at_ms = x\<rparr>)) d = Some q"
  show "ar_connection_id (gr_reservation (pc_reservation q)) = d"
    using q r linksD(4) [OF l, of d q] by (auto split: if_splits)
  show "conns d = None"
    using q c linksD(3) [OF l, of d q] by (auto split: if_splits)
  show "\<exists>pa. at_upd at sid p (Some path) (gr_session_id (pc_reservation q))
      (ar_path_id (gr_reservation (pc_reservation q))) = Some pa \<and>
      reservation_matches pa (gr_reservation (pc_reservation q))"
  proof (cases "d = c")
    case True
    with q r path(2) show ?thesis by (auto simp: at_upd_apply)
  next
    case False
    with q have "pends d = Some q" by simp
    from linksD(5) [OF l this] show ?thesis using free by (auto simp: at_upd_apply)
  qed
qed

lemma links_abort:
  assumes l: "links at conns pends" and q: "pends c = Some q"
    and r: "gr_session_id (pc_reservation q) = sid" "ar_path_id (gr_reservation (pc_reservation q)) = p"
  shows "links (at_upd at sid p None) conns (pends(c := None))"
  unfolding links_def
proof (intro conjI allI impI)
  obtain path where path: "at sid p = Some path" "reservation_matches path (gr_reservation (pc_reservation q))"
    using linksD(5) [OF l q] r by blast
  note conn = linksD(4) [OF l q]
  fix d s x e k
  have "conns d = Some (s, x, e, k) \<longleftrightarrow> (\<exists>path. at s x = Some path \<and> committed_as path d e k)"
    by (rule linksD(1) [OF l])
  then show "(conns d = Some (s, x, e, k)) =
      (\<exists>pa. at_upd at sid p None s x = Some pa \<and> committed_as pa d e k)"
    using path by (auto simp: at_upd_apply committed_as_def reservation_matches_def)
next
  fix s x pa
  assume "at_upd at sid p None s x = Some pa" and "\<not> pe_reserved pa"
  then show "pb_state (pe_binding pa) = PHealthy"
    using linksD(2) [OF l, of s x pa] by (auto simp: at_upd_apply split: if_splits)
next
  obtain path where path: "at sid p = Some path" "reservation_matches path (gr_reservation (pc_reservation q))"
    using linksD(5) [OF l q] r by blast
  fix d q'
  assume "(pends(c := None)) d = Some q'"
  then have d: "d \<noteq> c" "pends d = Some q'" by (auto split: if_splits)
  show "ar_connection_id (gr_reservation (pc_reservation q')) = d" by (rule linksD(4) [OF l d(2)])
  show "conns d = None" by (rule linksD(3) [OF l d(2)])
  show "\<exists>pa. at_upd at sid p None (gr_session_id (pc_reservation q'))
      (ar_path_id (gr_reservation (pc_reservation q'))) = Some pa \<and>
      reservation_matches pa (gr_reservation (pc_reservation q'))"
    using linksD(5) [OF l d(2)] linksD(4) [OF l d(2)] linksD(4) [OF l q] d(1) path
    by (auto simp: at_upd_apply reservation_matches_def)
qed

lemma links_detach:
  assumes l: "links at conns pends" and c: "conns c = Some (sid, p, e, k)"
  shows "links (at_upd at sid p None) (conns(c := None)) pends"
  unfolding links_def
proof (intro conjI allI impI)
  obtain path where path: "at sid p = Some path" "committed_as path c e k"
    using linksD(1) [OF l] c by blast
  fix d s x e' k'
  have "conns d = Some (s, x, e', k') \<longleftrightarrow> (\<exists>path. at s x = Some path \<and> committed_as path d e' k')" for d s x e' k'
    by (rule linksD(1) [OF l])
  from this [of d s x e' k'] this [of c s x e' k']
  show "((conns(c := None)) d = Some (s, x, e', k')) =
      (\<exists>pa. at_upd at sid p None s x = Some pa \<and> committed_as pa d e' k')"
    using path c by (auto simp: at_upd_apply committed_as_def)
next
  fix s x pa
  assume "at_upd at sid p None s x = Some pa" and "\<not> pe_reserved pa"
  then show "pb_state (pe_binding pa) = PHealthy"
    using linksD(2) [OF l, of s x pa] by (auto simp: at_upd_apply split: if_splits)
next
  obtain path where path: "at sid p = Some path" "committed_as path c e k"
    using linksD(1) [OF l] c by blast
  fix d q
  assume q: "pends d = Some q"
  show "ar_connection_id (gr_reservation (pc_reservation q)) = d" by (rule linksD(4) [OF l q])
  show "(conns(c := None)) d = None" using linksD(3) [OF l q] by simp
  show "\<exists>pa. at_upd at sid p None (gr_session_id (pc_reservation q))
      (ar_path_id (gr_reservation (pc_reservation q))) = Some pa \<and>
      reservation_matches pa (gr_reservation (pc_reservation q))"
    using linksD(5) [OF l q] path by (auto simp: at_upd_apply reservation_matches_def committed_as_def)
qed

lemma links_commit:
  assumes l: "links at conns pends" and q: "pends c = Some q"
    and r: "gr_session_id (pc_reservation q) = sid" "ar_path_id (gr_reservation (pc_reservation q)) = p"
    and path: "committed_as path c e k" "pb_state (pe_binding path) = PHealthy"
  shows "links (at_upd at sid p (Some path)) (conns(c \<mapsto> (sid, p, e, k))) (pends(c := None))"
  unfolding links_def
proof (intro conjI allI impI)
  obtain old where old: "at sid p = Some old" "reservation_matches old (gr_reservation (pc_reservation q))"
    using linksD(5) [OF l q] r by blast
  have iff: "conns d = Some (s, x, e', k') \<longleftrightarrow> (\<exists>path. at s x = Some path \<and> committed_as path d e' k')"
    for d s x e' k' by (rule linksD(1) [OF l])
  fix d s x e' k'
  show "((conns(c \<mapsto> (sid, p, e, k))) d = Some (s, x, e', k')) =
      (\<exists>pa. at_upd at sid p (Some path) s x = Some pa \<and> committed_as pa d e' k')"
  proof (cases "d = c")
    case True
    with iff [of c s x e' k'] linksD(3) [OF l q] show ?thesis
      using path(1) by (auto simp: at_upd_apply committed_as_def)
  next
    case False
    with iff [of d s x e' k'] show ?thesis
      using path(1) old by (auto simp: at_upd_apply committed_as_def reservation_matches_def)
  qed
next
  fix s x pa
  assume "at_upd at sid p (Some path) s x = Some pa" and "\<not> pe_reserved pa"
  then show "pb_state (pe_binding pa) = PHealthy"
    using linksD(2) [OF l, of s x pa] path(2) by (auto simp: at_upd_apply split: if_splits)
next
  obtain old where old: "at sid p = Some old" "reservation_matches old (gr_reservation (pc_reservation q))"
    using linksD(5) [OF l q] r by blast
  fix d q'
  assume "(pends(c := None)) d = Some q'"
  then have d: "d \<noteq> c" "pends d = Some q'" by (auto split: if_splits)
  show "ar_connection_id (gr_reservation (pc_reservation q')) = d" by (rule linksD(4) [OF l d(2)])
  show "(conns(c \<mapsto> (sid, p, e, k))) d = None" using linksD(3) [OF l d(2)] d(1) by simp
  show "\<exists>pa. at_upd at sid p (Some path) (gr_session_id (pc_reservation q'))
      (ar_path_id (gr_reservation (pc_reservation q'))) = Some pa \<and>
      reservation_matches pa (gr_reservation (pc_reservation q'))"
    using linksD(5) [OF l d(2)] linksD(4) [OF l d(2)] linksD(4) [OF l q] d(1) old
    by (auto simp: at_upd_apply reservation_matches_def)
qed

lemma links_lose:
  assumes l: "links at conns pends"
  shows "links (at(sid := \<lambda>_. None))
    (\<lambda>c. case conns c of None \<Rightarrow> None | Some owner \<Rightarrow> if fst owner \<noteq> sid then Some owner else None)
    (\<lambda>c. case pends c of None \<Rightarrow> None | Some q \<Rightarrow> if gr_session_id (pc_reservation q) \<noteq> sid then Some q else None)"
  unfolding links_def
proof (intro conjI allI impI)
  fix c s p e k
  show "((case conns c of None \<Rightarrow> None | Some owner \<Rightarrow> if fst owner \<noteq> sid then Some owner else None) = Some (s, p, e, k)) =
      (\<exists>path. (at(sid := \<lambda>_. None)) s p = Some path \<and> committed_as path c e k)"
    using linksD(1) [OF l, of c s p e k] by (auto split: option.splits)
next
  fix s p path
  assume "(at(sid := \<lambda>_. None)) s p = Some path" and "\<not> pe_reserved path"
  then show "pb_state (pe_binding path) = PHealthy"
    using linksD(2) [OF l, of s p path] by (auto split: if_splits)
next
  fix c q
  assume "(case pends c of None \<Rightarrow> None | Some q \<Rightarrow> if gr_session_id (pc_reservation q) \<noteq> sid then Some q else None) = Some q"
  then have q: "pends c = Some q" "gr_session_id (pc_reservation q) \<noteq> sid" by (auto split: option.splits if_splits)
  show "ar_connection_id (gr_reservation (pc_reservation q)) = c" by (rule linksD(4) [OF l q(1)])
  show "(case conns c of None \<Rightarrow> None | Some owner \<Rightarrow> if fst owner \<noteq> sid then Some owner else None) = None"
    using linksD(3) [OF l q(1)] by simp
  show "\<exists>path. (at(sid := \<lambda>_. None)) (gr_session_id (pc_reservation q))
      (ar_path_id (gr_reservation (pc_reservation q))) = Some path \<and>
      reservation_matches path (gr_reservation (pc_reservation q))"
    using linksD(5) [OF l q(1)] q(2) by simp
qed

section \<open>Capabilities\<close>

definition caps :: "(connection_id \<rightharpoonup> session_id) \<Rightarrow> (connection_id \<rightharpoonup> path_owner)
    \<Rightarrow> (connection_id \<rightharpoonup> pending_connection) \<Rightarrow> u64 \<Rightarrow> bool" where
  "caps auth conns pends next \<longleftrightarrow> next \<noteq> 0 \<and>
     (\<forall>c. auth c \<noteq> None \<or> conns c \<noteq> None \<or> pends c \<noteq> None \<longrightarrow> c < next) \<and>
     (\<forall>c s owner. auth c = Some s \<longrightarrow> conns c = Some owner \<longrightarrow> fst owner = s) \<and>
     (\<forall>c s q. auth c = Some s \<longrightarrow> pends c = Some q \<longrightarrow> gr_session_id (pc_reservation q) = s)"

lemma capsD:
  assumes "caps auth conns pends next"
  shows "next \<noteq> 0"
    and "auth c \<noteq> None \<or> conns c \<noteq> None \<or> pends c \<noteq> None \<Longrightarrow> c < next"
    and "auth c = Some s \<Longrightarrow> conns c = Some owner \<Longrightarrow> fst owner = s"
    and "auth c = Some s \<Longrightarrow> pends c = Some q \<Longrightarrow> gr_session_id (pc_reservation q) = s"
  using assms unfolding caps_def by blast+

lemma capsI:
  assumes "next \<noteq> 0"
    and "\<And>c. auth c \<noteq> None \<or> conns c \<noteq> None \<or> pends c \<noteq> None \<Longrightarrow> c < next"
    and "\<And>c s owner. auth c = Some s \<Longrightarrow> conns c = Some owner \<Longrightarrow> fst owner = s"
    and "\<And>c s q. auth c = Some s \<Longrightarrow> pends c = Some q \<Longrightarrow> gr_session_id (pc_reservation q) = s"
  shows "caps auth conns pends next"
  using assms unfolding caps_def by blast

lemma caps_shrink:
  assumes c: "caps auth conns pends next"
    and sub: "\<And>c. auth' c = None \<or> auth' c = auth c" "\<And>c. conns' c = None \<or> conns' c = conns c"
      "\<And>c. pends' c = None \<or> pends' c = pends c"
  shows "caps auth' conns' pends' next"
proof (rule capsI)
  show "next \<noteq> 0" by (rule capsD(1) [OF c])
  show "d < next" if "auth' d \<noteq> None \<or> conns' d \<noteq> None \<or> pends' d \<noteq> None" for d
    using that sub [of d] capsD(2) [OF c, of d] by argo
  show "fst owner = s" if "auth' d = Some s" and "conns' d = Some owner" for d s owner
    using that sub [of d] capsD(3) [OF c, of d s owner] by auto
  show "gr_session_id (pc_reservation q) = s" if "auth' d = Some s" and "pends' d = Some q" for d s q
    using that sub [of d] capsD(4) [OF c, of d s q] by auto
qed

lemma caps_pend:
  assumes c: "caps auth conns pends next" and s: "auth x = Some (gr_session_id (pc_reservation q))"
  shows "caps auth conns (pends(x \<mapsto> q)) next"
proof (rule capsI)
  show "next \<noteq> 0" by (rule capsD(1) [OF c])
  show "d < next" if "auth d \<noteq> None \<or> conns d \<noteq> None \<or> (pends(x \<mapsto> q)) d \<noteq> None" for d
    using that s capsD(2) [OF c, of d] by (cases "d = x") auto
  show "fst owner = s" if "auth d = Some s" and "conns d = Some owner" for d s owner
    using that by (rule capsD(3) [OF c])
  show "gr_session_id (pc_reservation q') = s" if "auth d = Some s" and "(pends(x \<mapsto> q)) d = Some q'" for d s q'
    using that s capsD(4) [OF c, of d s q'] by (cases "d = x") auto
qed

lemma caps_commit:
  assumes c: "caps auth conns pends next" and q: "pends x = Some q"
  shows "caps auth (conns(x \<mapsto> (gr_session_id (pc_reservation q), y))) (pends(x := None)) next"
    (is "caps auth ?conns ?pends next")
proof (rule capsI)
  show "next \<noteq> 0" by (rule capsD(1) [OF c])
  show "d < next" if "auth d \<noteq> None \<or> ?conns d \<noteq> None \<or> ?pends d \<noteq> None" for d
    using that q capsD(2) [OF c, of d] by (cases "d = x") auto
  show "fst owner = s" if "auth d = Some s" and "?conns d = Some owner" for d s owner
    using that q capsD(3) [OF c, of d s owner] capsD(4) [OF c, of d s q] by (cases "d = x") auto
  show "gr_session_id (pc_reservation q') = s" if "auth d = Some s" and "?pends d = Some q'" for d s q'
    using that capsD(4) [OF c, of d s q'] by (cases "d = x") auto
qed

lemma caps_grant:
  assumes c: "caps auth conns pends next" and room: "next \<noteq> - 1"
  shows "caps (auth(next \<mapsto> sid)) conns pends (next + 1)"
proof (rule capsI)
  have new: "conns next = None" "pends next = None"
    using capsD(2) [OF c, of "next"] less_irrefl [of "next"] by argo+
  show "next + 1 \<noteq> 0" by (rule word_inc_nonzero [OF room])
  show "d < next + 1" if "(auth(next \<mapsto> sid)) d \<noteq> None \<or> conns d \<noteq> None \<or> pends d \<noteq> None" for d
    unfolding word_inc_less [OF room] using capsD(2) [OF c, of d] that by (cases "d = next") auto
  show "fst owner = s" if "(auth(next \<mapsto> sid)) d = Some s" and "conns d = Some owner" for d s owner
    using that new capsD(3) [OF c, of d s owner] by (cases "d = next") auto
  show "gr_session_id (pc_reservation q) = s" if "(auth(next \<mapsto> sid)) d = Some s" and "pends d = Some q" for d s q
    using that new capsD(4) [OF c, of d s q] by (cases "d = next") auto
qed

section \<open>The invariant\<close>

definition session_ok :: "session_id \<Rightarrow> managed_session \<Rightarrow> bool" where
  "session_ok sid ms \<longleftrightarrow> lc_reachable (ms_session ms) \<and>
     ad_session_id (vs_admission (ms_session ms)) = sid"

definition sm_tables :: "manager \<Rightarrow> bool" where
  "sm_tables m \<longleftrightarrow> hm_ok (sm_sessions m) \<and> hm_ok (sm_admissions m) \<and> hm_ok (sm_connections m) \<and>
     hm_ok (sm_pending m) \<and> hm_ok (sm_authenticated m) \<and>
     keys (sm_sessions m) \<inter> keys (sm_admissions m) = {} \<and>
     (\<forall>sid r. map_of (sm_admissions m) sid = Some r \<longrightarrow> ads_session_id r = sid \<and> ads_creates_session r) \<and>
     (\<forall>c sid. map_of (sm_authenticated m) c = Some sid \<longrightarrow> sid \<in> keys (sm_sessions m)) \<and>
     mc_maximum_sessions (sm_config m) \<le> usize_max \<and>
     length (sm_sessions m) + length (sm_admissions m) \<le> mc_maximum_sessions (sm_config m) \<and>
     length (sm_pending m) \<le> mc_maximum_pending_attaches (sm_config m) \<and>
     length (sm_authenticated m) \<le> maximum_authenticated_connections m"

definition sm_ok :: "manager \<Rightarrow> bool" where
  "sm_ok m \<longleftrightarrow> sm_tables m \<and>
     (\<forall>sid ms. map_of (sm_sessions m) sid = Some ms \<longrightarrow> session_ok sid ms) \<and>
     links (path_at (sm_sessions m)) (map_of (sm_connections m)) (map_of (sm_pending m)) \<and>
     caps (map_of (sm_authenticated m)) (map_of (sm_connections m)) (map_of (sm_pending m))
       (sm_next_connection_id m)"

lemma sm_okD:
  assumes "sm_ok m"
  shows "sm_tables m"
    and "map_of (sm_sessions m) sid = Some ms \<Longrightarrow> session_ok sid ms"
    and "links (path_at (sm_sessions m)) (map_of (sm_connections m)) (map_of (sm_pending m))"
    and "caps (map_of (sm_authenticated m)) (map_of (sm_connections m)) (map_of (sm_pending m))
       (sm_next_connection_id m)"
  using assms unfolding sm_ok_def by blast+

lemma sm_ok_metrics [simp]: "sm_ok (m\<lparr>sm_metrics := x\<rparr>) = sm_ok m"
  by (simp add: sm_ok_def sm_tables_def maximum_authenticated_connections_def)

lemma sm_ok_new:
  assumes "manager_new config = Inr m" and "mc_maximum_sessions config \<le> usize_max"
  shows "sm_ok m"
proof -
  have at: "path_at [] = (\<lambda>_ _. None)" by (simp add: path_at_def fun_eq_iff)
  from assms show ?thesis
    by (auto simp: manager_new_def sm_ok_def sm_tables_def hm.ok_Nil caps_def at links_empty split: if_splits)
qed

lemma path_at_put:
  "path_at (hm_insert sid ms ss) = (path_at ss)(sid := map_of (vs_paths (ms_session ms)))"
  by (simp add: path_at_def map_of_hm_insert fun_eq_iff)

lemma path_at_remove: "path_at (kt_remove sid ss) = (path_at ss)(sid := \<lambda>_. None)"
  by (simp add: path_at_def map_of_remove fun_eq_iff)

lemma path_at_map_session:
  "path_at (map (map_prod id f) ss) sid p = (case map_of ss sid of None \<Rightarrow> None
     | Some ms \<Rightarrow> map_of (vs_paths (ms_session (f ms))) p)"
  by (induction ss) (auto simp: path_at_def split: if_splits)

lemma keys_Some: "map_of m k = Some v \<Longrightarrow> k \<in> keys m"
  by (metis map_of_eq_None_iff option.distinct(1))

lemma keys_hm_insert: "hm_ok m \<Longrightarrow> k \<in> keys m \<Longrightarrow> keys (hm_insert k v m) = keys m"
  by (simp add: hm.keys_ins insert_absorb)

text \<open>Writing one session back, with the tables that follow its paths.\<close>

lemma sm_ok_update:
  assumes ok: "sm_ok m" and ms: "map_of (sm_sessions m) sid = Some ms" and ms': "session_ok sid ms'"
    and hm: "hm_ok conns" "hm_ok pends" and room: "length pends \<le> mc_maximum_pending_attaches (sm_config m)"
    and l: "links (path_at (hm_insert sid ms' (sm_sessions m))) (map_of conns) (map_of pends)"
    and c: "caps (map_of (sm_authenticated m)) (map_of conns) (map_of pends) (sm_next_connection_id m)"
  shows "sm_ok (m\<lparr>sm_sessions := hm_insert sid ms' (sm_sessions m), sm_connections := conns,
    sm_pending := pends\<rparr>)"
proof -
  note t = sm_okD(1) [OF ok, unfolded sm_tables_def]
  have key: "keys (hm_insert sid ms' (sm_sessions m)) = keys (sm_sessions m)"
    by (rule keys_hm_insert) (use t ms in \<open>auto intro: keys_Some\<close>)
  have len: "length (hm_insert sid ms' (sm_sessions m)) = length (sm_sessions m)"
    using hm_insert_present [OF keys_Some [OF ms], of ms'] by (metis length_map)
  have "sm_tables (m\<lparr>sm_sessions := hm_insert sid ms' (sm_sessions m), sm_connections := conns,
      sm_pending := pends\<rparr>)"
    unfolding sm_tables_def using t hm room
    by (simp add: key len hm.ok_ins maximum_authenticated_connections_def)
  moreover have "map_of (hm_insert sid ms' (sm_sessions m)) s = Some x \<Longrightarrow> session_ok s x" for s x
    using sm_okD(2) [OF ok] ms' by (auto simp: map_of_hm_insert split: if_splits)
  ultimately show ?thesis using l c by (simp add: sm_ok_def)
qed

text \<open>The update leaves the paths alone.\<close>

lemma sm_ok_touch:
  assumes ok: "sm_ok m" and ms: "map_of (sm_sessions m) sid = Some ms" and ms': "session_ok sid ms'"
    and paths: "vs_paths (ms_session ms') = vs_paths (ms_session ms)"
  shows "sm_ok (put_session sid ms' m)"
proof -
  have at: "path_at (hm_insert sid ms' (sm_sessions m)) = path_at (sm_sessions m)"
    using ms paths by (auto simp: path_at_put path_at_def fun_eq_iff)
  have "sm_ok (m\<lparr>sm_sessions := hm_insert sid ms' (sm_sessions m), sm_connections := sm_connections m,
      sm_pending := sm_pending m\<rparr>)"
    using sm_okD [OF ok] by (intro sm_ok_update [OF ok ms ms']) (auto simp: at sm_tables_def)
  then show ?thesis by (simp add: put_session_def)
qed

section \<open>The steps of the operations\<close>

lemma session_ok_exec:
  assumes "session_ok sid ms"
  shows "session_ok sid (ms\<lparr>ms_session := fst (lc_exec (ms_session ms) e)\<rparr>)"
proof -
  obtain t out where e: "lc_exec (ms_session ms) e = (t, out)" by fastforce
  have r: "lc_reachable (ms_session ms)" using assms by (simp add: session_ok_def)
  have "evolves (ms_session ms) t" by (rule evolves_exec [OF lc_reachable_ok [OF r] e])
  then show ?thesis using assms e lc_reachable_exec [OF r e]
    by (auto simp: session_ok_def evolves_def limits_of_def)
qed

lemmas session_ok_steps =
  session_ok_exec [where e = "Abort r" for r, simplified]
  session_ok_exec [where e = "Commit r" for r, simplified]
  session_ok_exec [where e = "Detach p conn e now" for p conn e now, simplified]
  session_ok_exec [where e = "Reserve conn e k now" for conn e k now, simplified]
  session_ok_exec [where e = "SetPathState p st" for p st, simplified]
  session_ok_exec [where e = "Prune now" for "now", simplified]
  session_ok_exec [where e = BeginDraining, simplified]

lemma session_ok_fields [simp]:
  "session_ok sid (ms\<lparr>ms_last_activity_ms := x\<rparr>) = session_ok sid ms"
  by (simp add: session_ok_def)

lemma map_of_kt_remove_eq: "map_of (kt_remove c m) = (map_of m)(c := None)"
  by (rule map_of_remove)

lemma sm_ok_drop_pending:
  assumes "sm_ok m"
  shows "sm_ok (m\<lparr>sm_pending := kt_remove c (sm_pending m)\<rparr>)"
proof -
  note t = sm_okD(1) [OF assms, unfolded sm_tables_def]
  have "length (kt_remove c (sm_pending m)) \<le> mc_maximum_pending_attaches (sm_config m)"
    using t length_kt_remove_le [of c "sm_pending m"] by linarith
  moreover have "caps (map_of (sm_authenticated m)) (map_of (sm_connections m))
      (map_of (kt_remove c (sm_pending m))) (sm_next_connection_id m)"
    by (rule caps_shrink [OF sm_okD(4) [OF assms]]) (auto simp: map_of_remove)
  ultimately show ?thesis
    using assms links_drop_pending [OF sm_okD(3) [OF assms], of c]
    by (simp add: sm_ok_def sm_tables_def hm.ok_remove map_of_remove maximum_authenticated_connections_def)
qed

lemma pending_held:
  assumes "sm_ok m" and "map_of (sm_pending m) c = Some q"
  obtains ms path where "map_of (sm_sessions m) (gr_session_id (pc_reservation q)) = Some ms"
    and "map_of (vs_paths (ms_session ms)) (ar_path_id (gr_reservation (pc_reservation q))) = Some path"
    and "reservation_matches path (gr_reservation (pc_reservation q))"
    and "ar_connection_id (gr_reservation (pc_reservation q)) = c" and "map_of (sm_connections m) c = None"
  using linksD(3-5) [OF sm_okD(3) [OF assms(1)] assms(2)]
  by (auto simp: path_at_def split: option.splits)

lemma connection_held:
  assumes "sm_ok m" and "map_of (sm_connections m) c = Some (sid, p, e, k)"
  obtains ms path where "map_of (sm_sessions m) sid = Some ms"
    and "map_of (vs_paths (ms_session ms)) p = Some path" and "committed_as path c e k"
    and "pb_state (pe_binding path) = PHealthy"
  using linksD(1) [OF sm_okD(3) [OF assms(1)], of c sid p e k] linksD(2) [OF sm_okD(3) [OF assms(1)], of sid p]
    assms(2) by (auto simp: path_at_def committed_as_def split: option.splits)

text \<open>Releasing a pending attach.\<close>

lemma abort_held:
  assumes "map_of (vs_paths s) (ar_path_id r) = Some path" and "reservation_matches path r"
  shows "abort_attach s r = (s\<lparr>vs_paths := kt_remove (ar_path_id r) (vs_paths s)\<rparr>, True)"
  using assms by (simp add: abort_attach_def)

lemma at_upd_put:
  assumes "map_of ss sid = Some ms"
    and "map_of (vs_paths (ms_session ms')) = (map_of (vs_paths (ms_session ms)))(p := x)"
  shows "path_at (hm_insert sid ms' ss) = at_upd (path_at ss) sid p x"
  using assms by (auto simp: path_at_put at_upd_def path_at_def fun_eq_iff)

lemma sm_ok_abort:
  assumes ok: "sm_ok m" and q: "map_of (sm_pending m) c = Some q"
    and ms: "map_of (sm_sessions m) (gr_session_id (pc_reservation q)) = Some ms"
  shows "sm_ok (put_session (gr_session_id (pc_reservation q))
      (ms\<lparr>ms_session := fst (abort_attach (ms_session ms) (gr_reservation (pc_reservation q)))\<rparr>)
      (m\<lparr>sm_pending := kt_remove c (sm_pending m)\<rparr>))"
proof -
  let ?r = "gr_reservation (pc_reservation q)" and ?sid = "gr_session_id (pc_reservation q)"
  note t = sm_okD(1) [OF ok, unfolded sm_tables_def]
  obtain path where path: "map_of (vs_paths (ms_session ms)) (ar_path_id ?r) = Some path"
    "reservation_matches path ?r"
    using pending_held [OF ok q] ms by force
  let ?ms = "ms\<lparr>ms_session := fst (abort_attach (ms_session ms) ?r)\<rparr>"
  have at: "path_at (hm_insert ?sid ?ms (sm_sessions m)) = at_upd (path_at (sm_sessions m)) ?sid (ar_path_id ?r) None"
    by (rule at_upd_put [OF ms]) (simp add: abort_held [OF path] map_of_remove)
  have "sm_ok (m\<lparr>sm_sessions := hm_insert ?sid ?ms (sm_sessions m), sm_connections := sm_connections m,
      sm_pending := kt_remove c (sm_pending m)\<rparr>)"
  proof (rule sm_ok_update [OF ok ms])
    show "session_ok ?sid ?ms" by (rule session_ok_steps(1) [OF sm_okD(2) [OF ok ms]])
    show "hm_ok (sm_connections m)" "hm_ok (kt_remove c (sm_pending m))" using t by (simp_all add: hm.ok_remove)
    show "length (kt_remove c (sm_pending m)) \<le> mc_maximum_pending_attaches (sm_config m)"
      using t length_kt_remove_le [of c "sm_pending m"] by linarith
    show "links (path_at (hm_insert ?sid ?ms (sm_sessions m))) (map_of (sm_connections m))
        (map_of (kt_remove c (sm_pending m)))"
      unfolding at map_of_remove by (rule links_abort [OF sm_okD(3) [OF ok] q]) simp_all
    show "caps (map_of (sm_authenticated m)) (map_of (sm_connections m))
        (map_of (kt_remove c (sm_pending m))) (sm_next_connection_id m)"
      by (rule caps_shrink [OF sm_okD(4) [OF ok]]) (auto simp: map_of_remove)
  qed
  then show ?thesis by (cases m) (simp add: put_session_def)
qed

text \<open>Pruning pending attaches touches the pending table and the paths of sessions, nothing else.\<close>

definition ident :: "managed_session \<Rightarrow> organization_id \<times> u64 \<times> admission" where
  "ident ms = (ms_organization_id ms, ms_last_activity_ms ms, vs_admission (ms_session ms))"

lemma abort_admission_same [simp]: "vs_admission (fst (abort_attach s r)) = vs_admission s"
  by (simp add: abort_attach_def split: option.split)

lemma abort_state_same [simp]: "vs_state (fst (abort_attach s r)) = vs_state s"
  by (simp add: abort_attach_def split: option.split)

lemma prune_each_frame:
  "sm_connections (prune_each xs m) = sm_connections m"
  "sm_authenticated (prune_each xs m) = sm_authenticated m"
  "sm_next_connection_id (prune_each xs m) = sm_next_connection_id m"
  "sm_config (prune_each xs m) = sm_config m"
  "sm_admissions (prune_each xs m) = sm_admissions m"
  "map fst (sm_sessions (prune_each xs m)) = map fst (sm_sessions m)"
  "sm_pending (prune_each xs m) = filter (\<lambda>e. fst e \<notin> set (map fst xs)) (sm_pending m)"
proof (induction xs m rule: prune_each.induct)
  case (2 conn r xs m)
  {
    case 6
    show ?case using 2(6) by (auto simp: Let_def put_session_def hm_insert_present keys_Some split: option.splits)
  next
    case 7
    show ?case using 2(7)
      by (simp add: Let_def put_session_def kt_remove_def split: option.splits)
  }
qed (simp_all add: Let_def put_session_def split: option.split)

lemma prune_each_ident:
  "map_option ident (map_of (sm_sessions (prune_each xs m)) sid) = map_option ident (map_of (sm_sessions m) sid)"
  "map_option (\<lambda>ms. vs_state (ms_session ms)) (map_of (sm_sessions (prune_each xs m)) sid) =
   map_option (\<lambda>ms. vs_state (ms_session ms)) (map_of (sm_sessions m) sid)"
  by (induction xs m rule: prune_each.induct)
    (auto simp: Let_def put_session_def map_of_hm_insert ident_def split: option.split)

lemma sm_ok_prune_each:
  "sm_ok m \<Longrightarrow> distinct (map fst xs) \<Longrightarrow>
    (\<And>c r. (c, r) \<in> set xs \<Longrightarrow> \<exists>q. map_of (sm_pending m) c = Some q \<and> pc_reservation q = r) \<Longrightarrow>
    sm_ok (prune_each xs m)"
proof (induction xs m rule: prune_each.induct)
  case (2 conn r xs m)
  obtain q where q: "map_of (sm_pending m) conn = Some q" "pc_reservation q = r" using "2.prems"(3) by force
  obtain ms where ms: "map_of (sm_sessions m) (gr_session_id r) = Some ms"
    using pending_held [OF "2.prems"(1) q(1)] q(2) by metis
  let ?m = "put_session (gr_session_id r) (ms\<lparr>ms_session := fst (abort_attach (ms_session ms) (gr_reservation r))\<rparr>)
    (m\<lparr>sm_pending := kt_remove conn (sm_pending m)\<rparr>)"
  have ok: "sm_ok ?m" using sm_ok_abort [OF "2.prems"(1) q(1)] ms q(2) by simp
  have "sm_ok (prune_each xs (?m\<lparr>sm_metrics := (sm_metrics ?m)\<lparr>mm_pending_attaches_expired :=
      mm_pending_attaches_expired (sm_metrics ?m) + 1\<rparr>\<rparr>))"
  proof (rule "2.IH" [OF refl])
    show "?m = (case map_of (sm_sessions (m\<lparr>sm_pending := kt_remove conn (sm_pending m)\<rparr>)) (gr_session_id r) of
        None \<Rightarrow> m\<lparr>sm_pending := kt_remove conn (sm_pending m)\<rparr>
      | Some ms \<Rightarrow> put_session (gr_session_id r)
          (ms\<lparr>ms_session := fst (abort_attach (ms_session ms) (gr_reservation r))\<rparr>)
          (m\<lparr>sm_pending := kt_remove conn (sm_pending m)\<rparr>))" using ms by simp
    show "sm_ok (?m\<lparr>sm_metrics := (sm_metrics ?m)\<lparr>mm_pending_attaches_expired :=
      mm_pending_attaches_expired (sm_metrics ?m) + 1\<rparr>\<rparr>)" using ok by simp
    show "distinct (map fst xs)" using "2.prems"(2) by simp
    fix c r'
    assume c: "(c, r') \<in> set xs"
    then have "c \<noteq> conn" using "2.prems"(2) by force
    moreover obtain q' where "map_of (sm_pending m) c = Some q'" "pc_reservation q' = r'"
      using "2.prems"(3) c by force
    ultimately show "\<exists>q. map_of (sm_pending (?m\<lparr>sm_metrics := (sm_metrics ?m)\<lparr>mm_pending_attaches_expired :=
      mm_pending_attaches_expired (sm_metrics ?m) + 1\<rparr>\<rparr>)) c = Some q \<and> pc_reservation q = r'"
      by (simp add: put_session_def map_of_remove)
  qed
  then show ?case using ms by (simp add: Let_def)
qed simp

lemma sm_ok_prune:
  assumes ok: "sm_ok m"
  shows "sm_ok (prune_overdue_attaches now m)"
  unfolding prune_overdue_attaches_def
proof (rule sm_ok_prune_each [OF ok])
  have d: "distinct (map fst (sm_pending m))"
    using sm_okD(1) [OF ok] by (simp add: sm_tables_def hm_ok_def)
  have fst: "map fst (map (map_prod id f) xs) = map fst xs" for f :: "'b \<Rightarrow> 'c" and xs :: "('a \<times> 'b) list"
    by (induction xs) auto
  show "distinct (map fst (map (map_prod id pc_reservation) (filter (\<lambda>(_, p). pc_expires_at_ms p \<le> now) (sm_pending m))))"
    unfolding fst using d by (simp add: distinct_map_filter)
  fix c r
  assume "(c, r) \<in> set (map (map_prod id pc_reservation) (filter (\<lambda>(_, p). pc_expires_at_ms p \<le> now) (sm_pending m)))"
  then obtain q where "(c, q) \<in> set (sm_pending m)" "pc_reservation q = r" by auto
  then show "\<exists>q. map_of (sm_pending m) c = Some q \<and> pc_reservation q = r"
    using map_of_in_set [OF d] by blast
qed

text \<open>Losing a session.\<close>

lemma kt_retain_map: "hm_ok m \<Longrightarrow> map_of (kt_retain P m) =
    (\<lambda>k. case map_of m k of None \<Rightarrow> None | Some v \<Rightarrow> if P v then Some v else None)"
  by (simp add: fun_eq_iff map_of_retain hm.ok_distinct)

lemma keys_retain_sub: "keys (kt_retain P m) \<subseteq> keys m"
  by (auto simp: set_kt_retain)

definition lose :: "session_id \<Rightarrow> manager \<Rightarrow> manager" where
  "lose sid m = m\<lparr>sm_sessions := kt_remove sid (sm_sessions m),
     sm_connections := kt_retain (\<lambda>owner. fst owner \<noteq> sid) (sm_connections m),
     sm_pending := kt_retain (\<lambda>p. gr_session_id (pc_reservation p) \<noteq> sid) (sm_pending m),
     sm_authenticated := kt_retain (\<lambda>s. s \<noteq> sid) (sm_authenticated m)\<rparr>"

definition removal_of :: "session_id \<Rightarrow> removal_reason \<Rightarrow> managed_session \<Rightarrow> session_removal" where
  "removal_of sid reason ms = \<lparr>rm_session_id = sid,
     rm_device_id = ad_device_id (vs_admission (ms_session ms)),
     rm_organization_id = ms_organization_id ms, rm_reason = reason\<rparr>"

lemma close_admission [simp]: "vs_admission (fst (vs_close s)) = vs_admission s"
  "vs_admission (fst (vs_begin_draining s)) = vs_admission s"
  by (simp_all add: vs_close_def vs_begin_draining_def)

lemma remove_session_eq: "remove_session sid reason m = (case map_of (sm_sessions m) sid of
    None \<Rightarrow> (m, None) | Some ms \<Rightarrow> (lose sid m, Some (removal_of sid reason ms)))"
  by (simp add: remove_session_def lose_def removal_of_def Let_def split: option.split)

lemma drop_session_eq: "drop_session sid reason m = (case map_of (sm_sessions m) sid of
    None \<Rightarrow> (m, []) | Some ms \<Rightarrow> (record_removal reason (lose sid m), [removal_of sid reason ms]))"
  by (simp add: drop_session_def remove_session_eq removal_of_def split: option.split)

lemma sm_ok_lose:
  assumes ok: "sm_ok m"
  shows "sm_ok (lose sid m)"
proof -
  note t = sm_okD(1) [OF ok, unfolded sm_tables_def]
  let ?u = "lose sid m"
  have len: "length (sm_sessions ?u) \<le> length (sm_sessions m)" "length (sm_pending ?u) \<le> length (sm_pending m)"
    "length (sm_authenticated ?u) \<le> length (sm_authenticated m)"
    by (simp_all add: lose_def length_kt_remove_le length_kt_retain_le)
  have maps: "map_of (sm_sessions ?u) = (map_of (sm_sessions m))(sid := None)"
    "map_of (sm_connections ?u) = (\<lambda>c. case map_of (sm_connections m) c of None \<Rightarrow> None
      | Some owner \<Rightarrow> if fst owner \<noteq> sid then Some owner else None)"
    "map_of (sm_pending ?u) = (\<lambda>c. case map_of (sm_pending m) c of None \<Rightarrow> None
      | Some q \<Rightarrow> if gr_session_id (pc_reservation q) \<noteq> sid then Some q else None)"
    "map_of (sm_authenticated ?u) = (\<lambda>c. case map_of (sm_authenticated m) c of None \<Rightarrow> None
      | Some s \<Rightarrow> if s \<noteq> sid then Some s else None)"
    using t by (simp_all add: lose_def map_of_remove kt_retain_map)
  have auth: "s \<in> keys (sm_sessions ?u)" if "map_of (sm_authenticated ?u) c = Some s" for c s
  proof -
    have "map_of (sm_authenticated m) c = Some s" "s \<noteq> sid"
      using that unfolding maps by (auto split: option.splits if_splits)
    with t have "s \<in> keys (sm_sessions m)" "s \<noteq> sid" by blast+
    then show ?thesis by (auto simp: lose_def set_kt_remove)
  qed
  have "sm_tables ?u"
    unfolding sm_tables_def
  proof (intro conjI)
    have "keys (sm_sessions m) \<inter> keys (sm_admissions m) = {}" using t by argo
    from disjoint_mono [OF this, of "keys (sm_sessions ?u)"]
    show "keys (sm_sessions ?u) \<inter> keys (sm_admissions ?u) = {}" by (auto simp: lose_def set_kt_remove)
    show "\<forall>c s. map_of (sm_authenticated ?u) c = Some s \<longrightarrow> s \<in> keys (sm_sessions ?u)" using auth by blast
    have "sm_admissions ?u = sm_admissions m" "sm_config ?u = sm_config m" by (simp_all add: lose_def)
    note same = this
    show "length (sm_sessions ?u) + length (sm_admissions ?u) \<le> mc_maximum_sessions (sm_config ?u)"
      unfolding same using t len by linarith
    show "length (sm_pending ?u) \<le> mc_maximum_pending_attaches (sm_config ?u)"
      unfolding same using t len by linarith
    show "length (sm_authenticated ?u) \<le> maximum_authenticated_connections ?u"
      using t len by (simp add: maximum_authenticated_connections_def same)
    show "\<forall>sid r. map_of (sm_admissions ?u) sid = Some r \<longrightarrow> ads_session_id r = sid \<and> ads_creates_session r"
      unfolding same using t by argo
  qed (use t in \<open>simp_all add: lose_def hm.ok_remove hm.ok_retain\<close>)
  moreover have "map_of (sm_sessions ?u) s = Some ms \<Longrightarrow> session_ok s ms" for s ms
    using sm_okD(2) [OF ok] unfolding maps by (auto split: if_splits)
  moreover have "links (path_at (sm_sessions ?u)) (map_of (sm_connections ?u)) (map_of (sm_pending ?u))"
    unfolding maps using links_lose [OF sm_okD(3) [OF ok], of sid] by (simp add: lose_def path_at_remove)
  moreover have "caps (map_of (sm_authenticated ?u)) (map_of (sm_connections ?u)) (map_of (sm_pending ?u))
      (sm_next_connection_id m)"
    unfolding maps by (rule caps_shrink [OF sm_okD(4) [OF ok]]) (auto split: option.splits)
  ultimately show ?thesis unfolding sm_ok_def by (simp add: lose_def)
qed

lemma sm_ok_drop: "sm_ok m \<Longrightarrow> sm_ok (fst (drop_session sid reason m))"
  by (simp add: drop_session_eq record_removal_def sm_ok_lose split: option.split)

text \<open>Admissions come and go, and open a session.\<close>

lemma sm_ok_admissions:
  assumes ok: "sm_ok m" and a: "hm_ok as" "keys (sm_sessions m) \<inter> keys as = {}"
    and entries: "\<And>sid r. map_of as sid = Some r \<Longrightarrow> ads_session_id r = sid \<and> ads_creates_session r"
    and len: "length (sm_sessions m) + length as \<le> mc_maximum_sessions (sm_config m)"
  shows "sm_ok (m\<lparr>sm_admissions := as\<rparr>)"
  using ok a entries len by (simp add: sm_ok_def sm_tables_def maximum_authenticated_connections_def)

lemma sm_ok_filter_admissions:
  assumes ok: "sm_ok m"
  shows "sm_ok (m\<lparr>sm_admissions := filter P (sm_admissions m)\<rparr>)"
proof (rule sm_ok_admissions [OF ok])
  note t = sm_okD(1) [OF ok, unfolded sm_tables_def]
  show "hm_ok (filter P (sm_admissions m))" using t by (simp add: hm.ok_filter)
  have "keys (filter P (sm_admissions m)) \<subseteq> keys (sm_admissions m)" by auto
  moreover have "keys (sm_sessions m) \<inter> keys (sm_admissions m) = {}" using t by argo
  ultimately show "keys (sm_sessions m) \<inter> keys (filter P (sm_admissions m)) = {}" by blast
  have "length (filter P (sm_admissions m)) \<le> length (sm_admissions m)" by simp
  then show "length (sm_sessions m) + length (filter P (sm_admissions m)) \<le> mc_maximum_sessions (sm_config m)"
    using t by linarith
  fix sid r
  assume "map_of (filter P (sm_admissions m)) sid = Some r"
  then have "map_of (sm_admissions m) sid = Some r"
    using t map_of_SomeD [of "filter P (sm_admissions m)" sid r] hm.ok_distinct [of "sm_admissions m"]
    by (auto simp: map_of_in_set)
  then show "ads_session_id r = sid \<and> ads_creates_session r" using t by blast
qed

lemma sm_ok_remove_admission:
  "sm_ok m \<Longrightarrow> sm_ok (m\<lparr>sm_admissions := kt_remove sid (sm_admissions m)\<rparr>)"
  unfolding kt_remove_def by (rule sm_ok_filter_admissions)

lemma sm_ok_reserve_admission:
  assumes ok: "sm_ok m"
  shows "sm_ok (fst (reserve_admission m sid did oid ex now))"
proof -
  let ?n = "fst (case map_of (sm_sessions m) sid of
      Some ms \<Rightarrow> if vs_is_expired (ms_session ms) now then drop_session sid RExpired m else (m, [])
    | None \<Rightarrow> (m, []))"
  have n: "sm_ok ?n" using ok sm_ok_drop [OF ok] by (auto split: option.split)
  have new: "sm_ok (k\<lparr>sm_admissions := hm_insert sid r (sm_admissions k)\<rparr>)"
    if k: "sm_ok k" "map_of (sm_sessions k) sid = None" "map_of (sm_admissions k) sid = None"
      and room: "\<not> mc_maximum_sessions (sm_config k) \<le> usize_add (length (sm_sessions k)) (length (sm_admissions k))"
      and r: "ads_session_id r = sid" "ads_creates_session r" for k r
  proof (rule sm_ok_admissions [OF k(1)])
    note t = sm_okD(1) [OF k(1), unfolded sm_tables_def]
    have abs: "sid \<notin> keys (sm_sessions k)" "sid \<notin> keys (sm_admissions k)"
      using k(2,3) by (simp_all add: map_of_eq_None_iff)
    show "hm_ok (hm_insert sid r (sm_admissions k))" using t by (simp add: hm.ok_ins)
    have "keys (hm_insert sid r (sm_admissions k)) = insert sid (keys (sm_admissions k))"
      using t by (simp add: hm.keys_ins)
    moreover have "keys (sm_sessions k) \<inter> keys (sm_admissions k) = {}" using t by argo
    ultimately show "keys (sm_sessions k) \<inter> keys (hm_insert sid r (sm_admissions k)) = {}"
      using abs(1) by simp
    have "length (hm_insert sid r (sm_admissions k)) = Suc (length (sm_admissions k))"
      using t abs(2) by (simp add: hm.length_ins)
    then show "length (sm_sessions k) + length (hm_insert sid r (sm_admissions k)) \<le> mc_maximum_sessions (sm_config k)"
      using t room by (simp add: usize_add_def)
    show "ads_session_id r' = s \<and> ads_creates_session r'" if "map_of (hm_insert sid r (sm_admissions k)) s = Some r'" for s r'
      using that t r by (auto simp: map_of_hm_insert split: if_splits)
  qed
  have counted: "sm_ok (admit_counted k) = sm_ok k" for k by (simp add: admit_counted_def)
  from n show ?thesis
    unfolding reserve_admission_def Let_def case_prod_beta
    by (auto simp: counted ok intro!: new split: option.split)
qed

lemma lc_reachable_new: "v2_session_new config ad now = Inr s \<Longrightarrow> lc_reachable s"
  unfolding lc_reachable_def by (intro exI conjI, assumption, rule trace.stop)

lemma admitted_session_ok:
  assumes "admitted_session m r now = Inr session"
  shows "lc_reachable session \<and> vs_paths session = [] \<and> vs_state session = SActive \<and>
    vs_admission session = \<lparr>ad_session_id = ads_session_id r, ad_device_id = ads_device_id r,
      ad_expires_at_ms = ads_expires_at_ms r\<rparr>"
proof -
  let ?config = "\<lparr>sc_maximum_paths = mc_maximum_paths_per_session (sm_config m),
          sc_maximum_path_epoch_history = mc_maximum_path_epoch_history (sm_config m),
          sc_maximum_path_tombstones = mc_maximum_path_tombstones (sm_config m),
          sc_path_tombstone_ttl_ms = mc_path_tombstone_ttl_ms (sm_config m)\<rparr>"
  let ?ad = "\<lparr>ad_session_id = ads_session_id r, ad_device_id = ads_device_id r,
          ad_expires_at_ms = ads_expires_at_ms r\<rparr>"
  obtain s0 where s0: "v2_session_new ?config ?ad now = Inr s0"
    using assms by (cases "v2_session_new ?config ?ad now") (simp_all add: admitted_session_def)
  obtain t res where tr: "vs_activate s0 now = (t, res)" by fastforce
  have act: "vs_activate s0 now = (session, Inr ())"
    using assms by (cases res) (simp_all add: admitted_session_def s0 tr)
  have "lc_reachable s0" by (rule lc_reachable_new [OF s0])
  moreover have "lc_exec s0 (Activate now) = (session, Done)" using act by (simp add: of_result_def)
  ultimately have "lc_reachable session" by (rule lc_reachable_exec)
  moreover have "vs_paths s0 = []" "vs_admission s0 = ?ad"
    using s0 by (auto simp: v2_session_new_def split: if_splits)
  ultimately show ?thesis using act by (auto simp: vs_activate_def split: if_splits)
qed

text \<open>The committed reservation becomes a session.\<close>

definition opened :: "manager \<Rightarrow> admission_reservation \<Rightarrow> v2_session \<Rightarrow> u64 \<Rightarrow> manager" where
  "opened m r session now = m\<lparr>sm_admissions := kt_remove (ads_session_id r) (sm_admissions m),
     sm_sessions := hm_insert (ads_session_id r) \<lparr>ms_session = session,
       ms_organization_id = ads_organization_id r, ms_last_activity_ms = now\<rparr> (sm_sessions m)\<rparr>"

lemma sm_ok_opened:
  assumes ok: "sm_ok m" and r: "map_of (sm_admissions m) (ads_session_id r) = Some r"
    and s: "admitted_session m' r now = Inr session"
  shows "sm_ok (opened m r session now)"
proof -
  note t = sm_okD(1) [OF ok, unfolded sm_tables_def]
  let ?sid = "ads_session_id r" and ?u = "opened m r session now"
  let ?ms = "\<lparr>ms_session = session, ms_organization_id = ads_organization_id r, ms_last_activity_ms = now\<rparr>"
  have disj: "keys (sm_sessions m) \<inter> keys (sm_admissions m) = {}" using t by argo
  then have abs: "?sid \<notin> keys (sm_sessions m)" using keys_Some [OF r] by blast
  have keys: "keys (sm_sessions ?u) = insert ?sid (keys (sm_sessions m))"
    using t by (simp add: opened_def hm.keys_ins)
  have "Suc (length (sm_admissions ?u)) = length (sm_admissions m)"
    using t keys_Some [OF r] by (simp add: opened_def hm.length_remove)
  moreover have "length (sm_sessions ?u) = Suc (length (sm_sessions m))"
    using t abs by (simp add: opened_def hm.length_ins)
  ultimately have len: "length (sm_sessions ?u) + length (sm_admissions ?u) \<le> mc_maximum_sessions (sm_config m)"
    using t by linarith
  have at: "path_at (sm_sessions ?u) = path_at (sm_sessions m)"
    using abs admitted_session_ok [OF s]
    by (auto simp: opened_def path_at_put path_at_def fun_eq_iff dest: keys_Some split: option.split)
  have "sm_tables ?u"
    unfolding sm_tables_def
  proof (intro conjI)
    show "keys (sm_sessions ?u) \<inter> keys (sm_admissions ?u) = {}"
      unfolding keys using disj by (auto simp: opened_def set_kt_remove)
    show "\<forall>c s. map_of (sm_authenticated ?u) c = Some s \<longrightarrow> s \<in> keys (sm_sessions ?u)"
      unfolding keys using t by (auto simp: opened_def)
    show "\<forall>sid r'. map_of (sm_admissions ?u) sid = Some r' \<longrightarrow> ads_session_id r' = sid \<and> ads_creates_session r'"
      using t by (auto simp: opened_def map_of_remove split: if_splits)
    show "length (sm_sessions ?u) + length (sm_admissions ?u) \<le> mc_maximum_sessions (sm_config ?u)"
      using len by (simp add: opened_def)
  qed (use t in \<open>simp_all add: opened_def hm.ok_remove hm.ok_ins maximum_authenticated_connections_def\<close>)
  moreover have "map_of (sm_sessions ?u) sid = Some ms \<Longrightarrow> session_ok sid ms" for sid ms
    using sm_okD(2) [OF ok] admitted_session_ok [OF s]
    by (auto simp: opened_def map_of_hm_insert session_ok_def split: if_splits)
  ultimately show ?thesis
    unfolding sm_ok_def at using sm_okD(3,4) [OF ok] by (simp add: opened_def)
qed

text \<open>Identifiers that can still be issued.\<close>

definition ids_left :: "manager \<Rightarrow> nat" where
  "ids_left m = 2 ^ 64 - 1 - unat (sm_next_connection_id m)"

lemma ids_left_room: "0 < ids_left m \<Longrightarrow> sm_next_connection_id m \<noteq> - 1"
  by (auto simp: ids_left_def unat_minus_1_word)

lemma grant_eq:
  assumes "sm_ok m"
  shows "grant_connection m sid = (m\<lparr>sm_next_connection_id := sm_next_connection_id m + 1,
      sm_authenticated := hm_insert (sm_next_connection_id m) sid (sm_authenticated m)\<rparr>,
    \<lparr>ac_session_id = sid, ac_connection_id = sm_next_connection_id m\<rparr>)"
  using capsD(1) [OF sm_okD(4) [OF assms]]
  by (simp add: grant_connection_def next_connection_identity_def Let_def)

lemma sm_ok_grant:
  assumes ok: "sm_ok m" and room: "0 < ids_left m" and sid: "sid \<in> keys (sm_sessions m)"
    and few: "\<not> maximum_authenticated_connections m \<le> length (sm_authenticated m)"
  shows "sm_ok (fst (grant_connection m sid))"
proof -
  note t = sm_okD(1) [OF ok, unfolded sm_tables_def]
  let ?auth = "hm_insert (sm_next_connection_id m) sid (sm_authenticated m)"
  have "length ?auth \<le> Suc (length (sm_authenticated m))" using t by (intro hm.length_ins_le) blast
  moreover have "caps (map_of ?auth) (map_of (sm_connections m)) (map_of (sm_pending m)) (sm_next_connection_id m + 1)"
    unfolding map_of_hm_insert by (rule caps_grant [OF sm_okD(4) [OF ok] ids_left_room [OF room]])
  ultimately show ?thesis
    using t few sid sm_okD(2,3) [OF ok]
    by (auto simp: grant_eq [OF ok] sm_ok_def sm_tables_def hm.ok_ins map_of_hm_insert
        maximum_authenticated_connections_def split: if_splits)
qed

end
