(* ===== verification/SessionsOps.thy ===== *)
theory SessionsOps
  imports SessionsInv
begin

text \<open>
  Every operation of the session manager keeps the invariant, and no operation takes the supply
  of connection identifiers down by more than one.
\<close>

section \<open>Attach and detach\<close>

lemma pending_prune_frame:
  "sm_connections (prune_overdue_attaches now m) = sm_connections m"
  "sm_authenticated (prune_overdue_attaches now m) = sm_authenticated m"
  "sm_next_connection_id (prune_overdue_attaches now m) = sm_next_connection_id m"
  "sm_config (prune_overdue_attaches now m) = sm_config m"
  "sm_admissions (prune_overdue_attaches now m) = sm_admissions m"
  "map fst (sm_sessions (prune_overdue_attaches now m)) = map fst (sm_sessions m)"
  by (simp_all add: prune_overdue_attaches_def prune_each_frame)

text \<open>The session with its reservation, and the pending entry for it.\<close>

lemma sm_ok_reserved:
  assumes ok: "sm_ok m" and ms: "map_of (sm_sessions m) sid = Some ms"
    and auth: "map_of (sm_authenticated m) c = Some sid"
    and free: "c \<notin> keys (sm_connections m)" "c \<notin> keys (sm_pending m)"
    and room: "length (sm_pending m) < mc_maximum_pending_attaches (sm_config m)"
    and r: "reserve_attach (ms_session ms) c e k now = (session, Inr rv)"
  shows "sm_ok (m\<lparr>sm_sessions := hm_insert sid (ms\<lparr>ms_session := session\<rparr>) (sm_sessions m),
    sm_connections := sm_connections m,
    sm_pending := hm_insert c \<lparr>pc_reservation = \<lparr>gr_session_id = sid, gr_reservation = rv\<rparr>,
      pc_expires_at_ms = x\<rparr> (sm_pending m)\<rparr>)"
proof (rule sm_ok_update [OF ok ms])
  note t = sm_okD(1) [OF ok, unfolded sm_tables_def]
  let ?s = "ms_session ms" and ?q = "\<lparr>pc_reservation = \<lparr>gr_session_id = sid, gr_reservation = rv\<rparr>,
      pc_expires_at_ms = x\<rparr>"
  have s: "session_ok sid ms" by (rule sm_okD(2) [OF ok ms])
  then have lok: "lifecycle_ok ?s" by (simp add: session_ok_def lc_reachable_ok)
  show "session_ok sid (ms\<lparr>ms_session := session\<rparr>)"
    using session_ok_steps(4) [OF s, of c e k "now"] by (simp add: r)
  show "hm_ok (sm_connections m)" "hm_ok (hm_insert c ?q (sm_pending m))" using t by (simp_all add: hm.ok_ins)
  show "length (hm_insert c ?q (sm_pending m)) \<le> mc_maximum_pending_attaches (sm_config m)"
    using hm.length_ins_le [of "sm_pending m" c ?q] t room by linarith
  show "caps (map_of (sm_authenticated m)) (map_of (sm_connections m)) (map_of (hm_insert c ?q (sm_pending m)))
      (sm_next_connection_id m)"
    unfolding map_of_hm_insert by (rule caps_pend [OF sm_okD(4) [OF ok]]) (simp add: auth)
  obtain n where g: "session = granted (prune_path_tombstones now ?s) rv n" "ar_connection_id rv = c"
    "eligible (prune_path_tombstones now ?s) e k (ar_path_id rv)"
    using lok r by (cases rule: reserve_effect) auto
  let ?path = "\<lparr>pe_binding = \<lparr>pb_path_id = ar_path_id rv, pb_path_epoch = ar_path_epoch rv,
      pb_key_epoch = ar_key_epoch rv, pb_connection_id = ar_connection_id rv, pb_state = PConnecting\<rparr>,
    pe_reserved = True\<rparr>"
  have at: "path_at (hm_insert sid (ms\<lparr>ms_session := session\<rparr>) (sm_sessions m)) =
      at_upd (path_at (sm_sessions m)) sid (ar_path_id rv) (Some ?path)"
    by (rule at_upd_put [OF ms]) (simp add: g(1) granted_def map_of_hm_insert)
  show "links (path_at (hm_insert sid (ms\<lparr>ms_session := session\<rparr>) (sm_sessions m))) (map_of (sm_connections m))
      (map_of (hm_insert c ?q (sm_pending m)))"
    unfolding at map_of_hm_insert
  proof (rule links_reserve [OF sm_okD(3) [OF ok]])
    have "ar_path_id rv \<notin> keys (vs_paths ?s)" using g(3) by (simp add: eligible_def)
    then show "path_at (sm_sessions m) sid (ar_path_id rv) = None"
      by (simp add: path_at_def ms map_of_eq_None_iff)
    show "map_of (sm_connections m) c = None" using free(1) by (simp add: map_of_eq_None_iff)
  qed (simp_all add: g(2) reservation_matches_def)
qed

lemma reserve_refused_paths:
  assumes "lifecycle_ok s" and "reserve_attach s c e k now = (s', Inl err)"
  shows "vs_paths s' = vs_paths s"
  using assms by (cases rule: reserve_effect) auto

lemma sm_ok_reserve_attach:
  assumes ok: "sm_ok m"
  shows "sm_ok (fst (sm_reserve_attach m conn e k now))"
proof -
  let ?n = "prune_overdue_attaches now m" and ?c = "ac_connection_id conn" and ?sid = "ac_session_id conn"
  have n: "sm_ok ?n" by (rule sm_ok_prune [OF ok])
  have counted: "sm_ok (pending_counted ?n)" using n by (simp add: pending_counted_def)
  show ?thesis
  proof (cases "authenticated ?n conn \<and> ?c \<notin> keys (sm_connections ?n) \<and> ?c \<notin> keys (sm_pending ?n) \<and>
      length (sm_pending ?n) < mc_maximum_pending_attaches (sm_config ?n)")
    case False
    then show ?thesis using n counted by (auto simp: sm_reserve_attach_def Let_def)
  next
    case True
    show ?thesis
    proof (cases "map_of (sm_sessions ?n) ?sid")
      case None
      then show ?thesis using n True by (simp add: sm_reserve_attach_def Let_def)
    next
      case (Some ms)
      obtain session res where r: "reserve_attach (ms_session ms) ?c e k now = (session, res)" by fastforce
      have s: "session_ok ?sid ms" by (rule sm_okD(2) [OF n Some])
      show ?thesis
      proof (cases res)
        case (Inl err)
        have "sm_ok (put_session ?sid (ms\<lparr>ms_session := session\<rparr>) ?n)"
        proof (rule sm_ok_touch [OF n Some])
          show "session_ok ?sid (ms\<lparr>ms_session := session\<rparr>)"
            using session_ok_steps(4) [OF s, of ?c e k "now"] by (simp add: r)
          show "vs_paths (ms_session (ms\<lparr>ms_session := session\<rparr>)) = vs_paths (ms_session ms)"
            using reserve_refused_paths [of "ms_session ms"] s r Inl by (simp add: session_ok_def lc_reachable_ok)
        qed
        then show ?thesis using True Some r Inl by (simp add: sm_reserve_attach_def Let_def)
      next
        case (Inr rv)
        have "map_of (sm_authenticated ?n) ?c = Some ?sid" using True by (simp add: authenticated_def)
        from sm_ok_reserved [OF n Some this _ _ _ r [unfolded Inr]] True
        have "sm_ok (?n\<lparr>sm_sessions := hm_insert ?sid (ms\<lparr>ms_session := session\<rparr>) (sm_sessions ?n),
          sm_connections := sm_connections ?n,
          sm_pending := hm_insert ?c \<lparr>pc_reservation = \<lparr>gr_session_id = ?sid, gr_reservation = rv\<rparr>,
            pc_expires_at_ms = sat_add now (mc_pending_attach_ttl_ms (sm_config ?n))\<rparr> (sm_pending ?n)\<rparr>)" by blast
        then show ?thesis using True Some r Inr
          by (cases ?n) (simp add: sm_reserve_attach_def Let_def put_session_def)
      qed
    qed
  qed
qed

text \<open>A pending reservation commits: the path is attached and then healthy.\<close>

lemma commit_held:
  assumes ok: "lifecycle_ok s" and path: "map_of (vs_paths s) (ar_path_id r) = Some path"
    "reservation_matches path r"
  defines "b \<equiv> (pe_binding path)\<lparr>pb_state := PHealthy\<rparr>"
  obtains s1 b1 s2 where "commit_attach s r = (s1, Inr b1)" and "pb_path_id b1 = ar_path_id r"
    and "set_path_state s1 (ar_path_id r) PHealthy = (s2, Inr b)"
    and "map_of (vs_paths s2) = (map_of (vs_paths s))(ar_path_id r \<mapsto> \<lparr>pe_binding = b, pe_reserved = False\<rparr>)"
proof -
  let ?b1 = "(pe_binding path)\<lparr>pb_state := PAttached\<rparr>"
  let ?s1 = "s\<lparr>vs_paths := hm_insert (ar_path_id r) \<lparr>pe_binding = ?b1, pe_reserved = False\<rparr> (vs_paths s)\<rparr>"
  have c: "commit_attach s r = (?s1, Inr ?b1)" using path by (simp add: commit_attach_def Let_def)
  have id: "pb_path_id ?b1 = ar_path_id r"
    using lifecycle_entry [OF ok path(1)] by (simp add: binding_ok_def Let_def)
  have b: "?b1\<lparr>pb_state := PHealthy\<rparr> = b" by (simp add: b_def)
  have "\<exists>s2. set_path_state ?s1 (ar_path_id r) PHealthy = (s2, Inr b) \<and>
    map_of (vs_paths s2) = (map_of (vs_paths s))(ar_path_id r \<mapsto> \<lparr>pe_binding = b, pe_reserved = False\<rparr>)"
    by (simp add: set_path_state_def map_of_hm_insert b_def fun_eq_iff Let_def)
  then show ?thesis using that [OF c id] by blast
qed

lemma commit_attach_cases:
  assumes ok: "sm_ok m"
  obtains (unknown) "sm_commit_attach m r = (m\<lparr>sm_pending := kt_remove (ar_connection_id (gr_reservation r))
        (sm_pending m)\<rparr>, Inl MUnknownAttach, [])"
    and "map_option pc_reservation (map_of (sm_pending m) (ar_connection_id (gr_reservation r))) \<noteq> Some r"
  | (bound) m' b where "sm_commit_attach m r = (m', Inr b, [])" and "sm_ok m'"
    and "pb_state b = PHealthy" and "pb_connection_id b = ar_connection_id (gr_reservation r)"
    and "pb_path_id b = ar_path_id (gr_reservation r)" and "pb_path_epoch b = ar_path_epoch (gr_reservation r)"
    and "pb_key_epoch b = ar_key_epoch (gr_reservation r)"
    and "sm_authenticated m' = sm_authenticated m" and "sm_admissions m' = sm_admissions m"
    and "sm_next_connection_id m' = sm_next_connection_id m" and "map fst (sm_sessions m') = map fst (sm_sessions m)"
    and "map_option pc_reservation (map_of (sm_pending m) (ar_connection_id (gr_reservation r))) = Some r"
proof (cases "map_option pc_reservation (map_of (sm_pending m) (ar_connection_id (gr_reservation r))) = Some r")
  case False
  then show ?thesis by (intro unknown) (simp_all add: sm_commit_attach_def Let_def)
next
  case True
  let ?rv = "gr_reservation r" and ?sid = "gr_session_id r" and ?c = "ar_connection_id (gr_reservation r)"
  note t = sm_okD(1) [OF ok, unfolded sm_tables_def]
  obtain q where q: "map_of (sm_pending m) ?c = Some q" "pc_reservation q = r" using True by auto
  obtain ms path where ms: "map_of (sm_sessions m) ?sid = Some ms"
    and path: "map_of (vs_paths (ms_session ms)) (ar_path_id ?rv) = Some path" "reservation_matches path ?rv"
    using pending_held [OF ok q(1)] q(2) by metis
  have s: "session_ok ?sid ms" by (rule sm_okD(2) [OF ok ms])
  then have "lifecycle_ok (ms_session ms)" by (simp add: session_ok_def lc_reachable_ok)
  from commit_held [OF this path] obtain s1 b1 s2 where
    c: "commit_attach (ms_session ms) ?rv = (s1, Inr b1)" "pb_path_id b1 = ar_path_id ?rv"
    and h: "set_path_state s1 (ar_path_id ?rv) PHealthy = (s2, Inr ((pe_binding path)\<lparr>pb_state := PHealthy\<rparr>))"
    and p: "map_of (vs_paths s2) = (map_of (vs_paths (ms_session ms)))(ar_path_id ?rv \<mapsto>
      \<lparr>pe_binding = (pe_binding path)\<lparr>pb_state := PHealthy\<rparr>, pe_reserved = False\<rparr>)" .
  let ?b = "(pe_binding path)\<lparr>pb_state := PHealthy\<rparr>"
  have b: "pb_connection_id ?b = ?c" "pb_path_epoch ?b = ar_path_epoch ?rv" "pb_key_epoch ?b = ar_key_epoch ?rv"
    using path(2) by (simp_all add: reservation_matches_def)
  have bp: "pb_path_id ?b = ar_path_id ?rv"
    using lifecycle_entry [OF lc_reachable_ok path(1)] s by (simp add: binding_ok_def Let_def session_ok_def)
  let ?m = "m\<lparr>sm_sessions := hm_insert ?sid (ms\<lparr>ms_session := s2\<rparr>) (sm_sessions m),
      sm_connections := hm_insert ?c (?sid, ar_path_id ?rv, ar_path_epoch ?rv, ar_key_epoch ?rv) (sm_connections m),
      sm_pending := kt_remove ?c (sm_pending m)\<rparr>"
  have "sm_commit_attach m r = (?m, Inr ?b, [])"
    using True ms b bp by (cases m) (simp add: sm_commit_attach_def Let_def c h put_session_def)
  moreover have "sm_ok ?m"
  proof (rule sm_ok_update [OF ok ms])
    have "session_ok ?sid (ms\<lparr>ms_session := s1\<rparr>)" using session_ok_steps(2) [OF s, of ?rv] by (simp add: c)
    from session_ok_steps(5) [OF this, of "ar_path_id ?rv" PHealthy]
    show "session_ok ?sid (ms\<lparr>ms_session := s2\<rparr>)" by (simp add: h)
    show "hm_ok (hm_insert ?c (?sid, ar_path_id ?rv, ar_path_epoch ?rv, ar_key_epoch ?rv) (sm_connections m))"
      "hm_ok (kt_remove ?c (sm_pending m))" using t by (simp_all add: hm.ok_ins hm.ok_remove)
    show "length (kt_remove ?c (sm_pending m)) \<le> mc_maximum_pending_attaches (sm_config m)"
      using t length_kt_remove_le [of ?c "sm_pending m"] by linarith
    have at: "path_at (hm_insert ?sid (ms\<lparr>ms_session := s2\<rparr>) (sm_sessions m)) = at_upd (path_at (sm_sessions m))
        ?sid (ar_path_id ?rv) (Some \<lparr>pe_binding = ?b, pe_reserved = False\<rparr>)"
      by (rule at_upd_put [OF ms]) (simp add: p)
    show "links (path_at (hm_insert ?sid (ms\<lparr>ms_session := s2\<rparr>) (sm_sessions m)))
      (map_of (hm_insert ?c (?sid, ar_path_id ?rv, ar_path_epoch ?rv, ar_key_epoch ?rv) (sm_connections m)))
      (map_of (kt_remove ?c (sm_pending m)))"
      unfolding at map_of_hm_insert map_of_remove
      by (rule links_commit [OF sm_okD(3) [OF ok] q(1)]) (use q(2) b in \<open>simp_all add: committed_as_def\<close>)
    show "caps (map_of (sm_authenticated m))
      (map_of (hm_insert ?c (?sid, ar_path_id ?rv, ar_path_epoch ?rv, ar_key_epoch ?rv) (sm_connections m)))
      (map_of (kt_remove ?c (sm_pending m))) (sm_next_connection_id m)"
      unfolding map_of_hm_insert map_of_remove
      using caps_commit [OF sm_okD(4) [OF ok] q(1)] q(2) by simp
  qed
  ultimately show ?thesis using b bp True hm_insert_present [OF keys_Some [OF ms]]
    by (intro bound [of ?m ?b]) simp_all
qed

lemma sm_ok_commit_attach: "sm_ok m \<Longrightarrow> sm_ok (fst (sm_commit_attach m r))"
  by (rule commit_attach_cases [of m r]) (simp_all add: sm_ok_drop_pending)

text \<open>Detaching a committed path.\<close>

lemma detach_held:
  assumes path: "map_of (vs_paths s) p = Some path" "committed_as path c e k"
  obtains s' where "detach s p c e now = (s', True)" and "vs_paths s' = kt_remove p (vs_paths s)"
proof -
  have "p \<in> keys (vs_paths s)" by (rule keys_Some [OF path(1)])
  then have "\<exists>s'. detach s p c e now = (s', True) \<and> vs_paths s' = kt_remove p (vs_paths s)"
    using path by (simp add: detach_def Let_def committed_as_def path_insert_tombstone_def split: prod.split)
  then show ?thesis using that by blast
qed

lemma sm_ok_detached:
  assumes ok: "sm_ok m" and c: "map_of (sm_connections m) c = Some (sid, p, e, k)"
  obtains ms session where "map_of (sm_sessions m) sid = Some ms"
    and "detach (ms_session ms) p c e now = (session, True)"
    and "sm_ok (m\<lparr>sm_sessions := hm_insert sid (ms\<lparr>ms_session := session\<rparr>) (sm_sessions m),
      sm_connections := kt_remove c (sm_connections m), sm_pending := sm_pending m\<rparr>)"
proof -
  note t = sm_okD(1) [OF ok, unfolded sm_tables_def]
  obtain ms path where ms: "map_of (sm_sessions m) sid = Some ms"
    and path: "map_of (vs_paths (ms_session ms)) p = Some path" "committed_as path c e k"
    using connection_held [OF ok c] by metis
  obtain session where d: "detach (ms_session ms) p c e now = (session, True)"
    and ps: "vs_paths session = kt_remove p (vs_paths (ms_session ms))" by (rule detach_held [OF path])
  have "sm_ok (m\<lparr>sm_sessions := hm_insert sid (ms\<lparr>ms_session := session\<rparr>) (sm_sessions m),
      sm_connections := kt_remove c (sm_connections m), sm_pending := sm_pending m\<rparr>)"
  proof (rule sm_ok_update [OF ok ms])
    show "session_ok sid (ms\<lparr>ms_session := session\<rparr>)"
      using session_ok_steps(3) [OF sm_okD(2) [OF ok ms], of p c e "now"] by (simp add: d)
    show "hm_ok (kt_remove c (sm_connections m))" "hm_ok (sm_pending m)"
      "length (sm_pending m) \<le> mc_maximum_pending_attaches (sm_config m)" using t by (simp_all add: hm.ok_remove)
    have at: "path_at (hm_insert sid (ms\<lparr>ms_session := session\<rparr>) (sm_sessions m)) =
        at_upd (path_at (sm_sessions m)) sid p None"
      by (rule at_upd_put [OF ms]) (simp add: ps map_of_remove)
    show "links (path_at (hm_insert sid (ms\<lparr>ms_session := session\<rparr>) (sm_sessions m)))
      (map_of (kt_remove c (sm_connections m))) (map_of (sm_pending m))"
      unfolding at map_of_remove by (rule links_detach [OF sm_okD(3) [OF ok] c])
    show "caps (map_of (sm_authenticated m)) (map_of (kt_remove c (sm_connections m))) (map_of (sm_pending m))
      (sm_next_connection_id m)"
      by (rule caps_shrink [OF sm_okD(4) [OF ok]]) (auto simp: map_of_remove)
  qed
  then show ?thesis using that [OF ms d] by blast
qed

lemma sm_ok_detach_connection:
  assumes ok: "sm_ok m"
  shows "sm_ok (fst (detach_connection m conn p e now))"
proof (cases "map_of (sm_connections m) (ac_connection_id conn)")
  case None
  then show ?thesis by (simp add: detach_connection_def ok)
next
  case (Some owner)
  obtain sid p' e' k where owner: "owner = (sid, p', e', k)" by (cases owner)
  obtain ms session where ms: "map_of (sm_sessions m) sid = Some ms"
    and d: "detach (ms_session ms) p' (ac_connection_id conn) e' now = (session, True)"
    and ok': "sm_ok (m\<lparr>sm_sessions := hm_insert sid (ms\<lparr>ms_session := session\<rparr>) (sm_sessions m),
      sm_connections := kt_remove (ac_connection_id conn) (sm_connections m), sm_pending := sm_pending m\<rparr>)"
    by (rule sm_ok_detached [OF ok Some [unfolded owner]])
  from ok' have "sm_ok (put_session sid (ms\<lparr>ms_session := session\<rparr>)
      (m\<lparr>sm_connections := kt_remove (ac_connection_id conn) (sm_connections m)\<rparr>))"
    by (cases m) (simp add: put_session_def)
  then show ?thesis using ok Some owner ms d by (auto simp: detach_connection_def Let_def)
qed

lemma sm_ok_revoke:
  assumes ok: "sm_ok m"
  shows "sm_ok (m\<lparr>sm_authenticated := kt_remove c (sm_authenticated m)\<rparr>)"
proof -
  note t = sm_okD(1) [OF ok, unfolded sm_tables_def]
  have "length (kt_remove c (sm_authenticated m)) \<le> maximum_authenticated_connections m"
    using t length_kt_remove_le [of c "sm_authenticated m"] by linarith
  moreover have "caps (map_of (kt_remove c (sm_authenticated m))) (map_of (sm_connections m)) (map_of (sm_pending m))
      (sm_next_connection_id m)"
    by (rule caps_shrink [OF sm_okD(4) [OF ok]]) (auto simp: map_of_remove)
  ultimately show ?thesis
    using t sm_okD(2,3) [OF ok]
    by (simp add: sm_ok_def sm_tables_def hm.ok_remove map_of_remove maximum_authenticated_connections_def)
qed

lemma sm_ok_close_connection:
  assumes ok: "sm_ok m"
  shows "sm_ok (fst (close_connection m conn))"
proof -
  let ?c = "ac_connection_id conn"
  let ?m = "m\<lparr>sm_authenticated := kt_remove ?c (sm_authenticated m)\<rparr>"
  have ok': "sm_ok ?m" by (rule sm_ok_revoke [OF ok])
  show ?thesis
  proof (cases "map_of (sm_authenticated m) ?c = Some (ac_session_id conn)")
    case False
    then show ?thesis using ok' by (simp add: close_connection_def Let_def)
  next
    case found: True
    show ?thesis
    proof (cases "map_of (sm_pending m) ?c")
      case (Some q)
      then have q: "map_of (sm_pending ?m) ?c = Some q" by simp
      obtain ms where ms: "map_of (sm_sessions m) (gr_session_id (pc_reservation q)) = Some ms"
        using pending_held [OF ok Some] by metis
      obtain s b where ab: "abort_attach (ms_session ms) (gr_reservation (pc_reservation q)) = (s, b)" by fastforce
      have "sm_ok (put_session (gr_session_id (pc_reservation q)) (ms\<lparr>ms_session := s\<rparr>)
          (?m\<lparr>sm_pending := kt_remove ?c (sm_pending m)\<rparr>))"
        using sm_ok_abort [OF ok' q] ms ab by simp
      then show ?thesis using found Some ms ab by (simp add: close_connection_def Let_def)
    next
      case pend: None
      show ?thesis
      proof (cases "map_of (sm_connections m) ?c")
        case None
        then show ?thesis using found pend ok' by (simp add: close_connection_def Let_def)
      next
        case (Some owner)
        obtain sid p e k where owner: "owner = (sid, p, e, k)" by (cases owner)
        have c: "map_of (sm_connections ?m) ?c = Some (sid, p, e, k)" using Some owner by simp
        obtain ms session where ms: "map_of (sm_sessions ?m) sid = Some ms"
          using connection_held [OF ok' c] by metis
        obtain ms' session where ms': "map_of (sm_sessions ?m) sid = Some ms'"
          and d: "detach (ms_session ms') p ?c e (ms_last_activity_ms ms) = (session, True)"
          and up: "sm_ok (?m\<lparr>sm_sessions := hm_insert sid (ms'\<lparr>ms_session := session\<rparr>) (sm_sessions ?m),
            sm_connections := kt_remove ?c (sm_connections ?m), sm_pending := sm_pending ?m\<rparr>)"
          by (rule sm_ok_detached [OF ok' c])
        from up have "sm_ok (put_session sid (ms'\<lparr>ms_session := session\<rparr>)
            (?m\<lparr>sm_connections := kt_remove ?c (sm_connections m)\<rparr>))"
          by (cases m) (simp add: put_session_def)
        then show ?thesis using found pend Some owner ms ms' d by (simp add: close_connection_def Let_def)
      qed
    qed
  qed
qed

section \<open>Ingress, draining and removal\<close>

lemma sm_ok_activity:
  "sm_ok m \<Longrightarrow> map_of (sm_sessions m) sid = Some ms \<Longrightarrow> sm_ok (put_session sid (ms\<lparr>ms_last_activity_ms := x\<rparr>) m)"
  using sm_okD(2) [of m sid ms] by (intro sm_ok_touch [of m sid ms]) auto

lemmas gate_simps = Let_def case_prod_beta sm_ok_drop sm_ok_activity

lemma sm_ok_validate:
  assumes "sm_ok m"
  shows "sm_ok (fst (validate_attached_path m conn p e k now))"
    and "sm_ok (fst (validate_ingress m conn env now))"
    and "sm_ok (fst (record_authenticated_activity m conn now))"
  using assms
  by (auto simp: validate_attached_path_def validate_ingress_def record_authenticated_activity_def gate_simps
      split: option.split)

lemma sm_ok_begin_draining:
  assumes ok: "sm_ok m"
  shows "sm_ok (fst (sm_begin_draining m sid))"
proof (cases "map_of (sm_sessions m) sid")
  case None
  then show ?thesis by (simp add: sm_begin_draining_def ok)
next
  case (Some ms)
  obtain s res where b: "vs_begin_draining (ms_session ms) = (s, res)" by fastforce
  have "sm_ok (put_session sid (ms\<lparr>ms_session := s\<rparr>) m)"
  proof (rule sm_ok_touch [OF ok Some])
    show "session_ok sid (ms\<lparr>ms_session := s\<rparr>)"
      using session_ok_steps(7) [OF sm_okD(2) [OF ok Some]] by (simp add: b)
    show "vs_paths (ms_session (ms\<lparr>ms_session := s\<rparr>)) = vs_paths (ms_session ms)"
      using b by (auto simp: vs_begin_draining_def split: if_splits)
  qed
  then show ?thesis using Some b by (simp add: sm_begin_draining_def split: sum.split)
qed

lemma sm_ok_remove_each: "sm_ok m \<Longrightarrow> sm_ok (fst (remove_each chosen m))"
  by (induction chosen m rule: remove_each.induct)
    (auto simp: remove_session_eq Let_def case_prod_beta sm_ok_lose split: option.splits)

lemma record_each_frame:
  "\<exists>mm. record_each removals m = m\<lparr>sm_metrics := mm\<rparr>"
proof (induction removals arbitrary: m)
  case Nil
  show ?case by (rule exI [of _ "sm_metrics m"]) (simp add: record_each_def)
next
  case (Cons r removals)
  from Cons [of "record_removal (rm_reason r) m"]
  show ?case by (auto simp: record_each_def record_removal_def)
qed

lemma sm_ok_record_each [simp]: "sm_ok (record_each removals m) = sm_ok m"
  using record_each_frame [of removals m] by auto

text \<open>Pruning the tombstones of every session leaves its paths alone.\<close>

definition prune_sessions :: "u64 \<Rightarrow> manager \<Rightarrow> manager" where
  "prune_sessions now m = m\<lparr>sm_sessions := map (map_prod id (\<lambda>ms.
     ms\<lparr>ms_session := prune_path_tombstones now (ms_session ms)\<rparr>)) (sm_sessions m)\<rparr>"

lemma map_of_map_prod_id: "map_of (map (map_prod id f) m) k = map_option f (map_of m k)"
  by (induction m) auto

lemma map_fst_map_prod_id: "map fst (map (map_prod id f) m) = map fst m"
  by (induction m) auto

lemma sm_ok_prune_sessions:
  assumes ok: "sm_ok m"
  shows "sm_ok (prune_sessions now m)"
proof -
  note t = sm_okD(1) [OF ok, unfolded sm_tables_def]
  let ?u = "prune_sessions now m"
  have fst: "map fst (sm_sessions ?u) = map fst (sm_sessions m)"
    by (simp add: prune_sessions_def map_fst_map_prod_id)
  then have keys: "keys (sm_sessions ?u) = keys (sm_sessions m)" "length (sm_sessions ?u) = length (sm_sessions m)"
    by (metis set_map, metis length_map)
  have at: "path_at (sm_sessions ?u) = path_at (sm_sessions m)"
    unfolding prune_sessions_def by (auto simp: fun_eq_iff path_at_def map_of_map_prod_id split: option.split)
  have "sm_tables ?u"
    unfolding sm_tables_def keys using t
    by (simp add: prune_sessions_def hm_ok_def map_fst_map_prod_id maximum_authenticated_connections_def)
  moreover have "session_ok sid ms" if "map_of (sm_sessions ?u) sid = Some ms" for sid ms
    using that session_ok_steps(6) [OF sm_okD(2) [OF ok]]
    by (auto simp: prune_sessions_def map_of_map_prod_id)
  ultimately show ?thesis
    unfolding sm_ok_def at using sm_okD(3,4) [OF ok] by (simp add: prune_sessions_def)
qed

text \<open>The sweep up to the removals.\<close>

definition swept :: "manager \<Rightarrow> u64 \<Rightarrow> manager" where
  "swept m now = prune_sessions now (prune_overdue_attaches now
     (m\<lparr>sm_metrics := (sm_metrics m)\<lparr>mm_admissions_expired := mm_admissions_expired (sm_metrics m)
         + word_of_nat (length (sm_admissions m) - length (kt_retain (\<lambda>r. now < ads_expires_at_ms r) (sm_admissions m)))\<rparr>,
       sm_admissions := kt_retain (\<lambda>r. now < ads_expires_at_ms r) (sm_admissions m)\<rparr>))"

definition sessions_due :: "manager \<Rightarrow> u64 \<Rightarrow> (session_id \<times> removal_reason) list" where
  "sessions_due m now = List.map_filter (\<lambda>(sid, ms). map_option (Pair sid) (removal_due m now ms)) (sm_sessions m)"

lemma sweep_eq:
  "sweep m now = (let u = swept m now; (v, removals) = remove_each (sessions_due u now) u
     in (record_each removals v, Inr (length removals), removals))"
  by (simp add: sweep_def swept_def sessions_due_def prune_sessions_def Let_def)

lemma sm_ok_swept: "sm_ok m \<Longrightarrow> sm_ok (swept m now)"
  unfolding swept_def kt_retain_def
  by (intro sm_ok_prune_sessions sm_ok_prune)
    (use sm_ok_filter_admissions [of "m\<lparr>sm_metrics := x\<rparr>" for x] in simp)

lemma sm_ok_sweep: "sm_ok m \<Longrightarrow> sm_ok (fst (sweep m now))"
  by (simp add: sweep_eq Let_def case_prod_beta sm_ok_remove_each sm_ok_swept)

lemma sm_ok_close:
  assumes "sm_ok m"
  shows "sm_ok (fst (sm_close m sid))" and "sm_ok (fst (close_session m conn))" and "sm_ok (fst (close_all m))"
  using assms by (simp_all add: sm_close_def close_session_def close_all_def Let_def case_prod_beta
      sm_ok_drop sm_ok_remove_each)

section \<open>Opening sessions\<close>

lemma commit_admission_eq:
  "commit_admission m r now = (if \<not> ads_creates_session r then (m, Inr (), [])
     else if map_of (sm_admissions m) (ads_session_id r) \<noteq> Some r
     then (m\<lparr>sm_admissions := kt_remove (ads_session_id r) (sm_admissions m)\<rparr>, Inl MUnknownAdmission, [])
     else case admitted_session m r now of
       Inl e \<Rightarrow> (m\<lparr>sm_admissions := kt_remove (ads_session_id r) (sm_admissions m)\<rparr>, Inl e, [])
     | Inr session \<Rightarrow> (opened m r session now, Inr (), []))"
  by (simp add: commit_admission_def Let_def opened_def admitted_session_def split: sum.split)

lemma commit_and_bind_eq:
  "commit_admission_and_bind m r now =
    (if \<not> ads_creates_session r then bind_authenticated_connection m (ads_session_id r) now
     else if map_of (sm_admissions m) (ads_session_id r) \<noteq> Some r
     then (m\<lparr>sm_admissions := kt_remove (ads_session_id r) (sm_admissions m)\<rparr>, Inl MUnknownAdmission, [])
     else case admitted_session m r now of
       Inl e \<Rightarrow> (m\<lparr>sm_admissions := kt_remove (ads_session_id r) (sm_admissions m)\<rparr>, Inl e, [])
     | Inr session \<Rightarrow>
         let u = opened m r session now in
         if maximum_authenticated_connections u \<le> length (sm_authenticated u)
         then (fst (drop_session (ads_session_id r) RClosed (connection_counted u)), Inl MConnectionCapacity,
           snd (drop_session (ads_session_id r) RClosed (connection_counted u)))
         else (fst (grant_connection u (ads_session_id r)), Inr (snd (grant_connection u (ads_session_id r))), []))"
  by (simp add: commit_admission_and_bind_def Let_def opened_def admitted_session_def case_prod_beta split: sum.split)

lemma opened_frame [simp]:
  "sm_authenticated (opened m r s now) = sm_authenticated m"
  "sm_next_connection_id (opened m r s now) = sm_next_connection_id m"
  "sm_config (opened m r s now) = sm_config m"
  "sm_connections (opened m r s now) = sm_connections m"
  "sm_pending (opened m r s now) = sm_pending m"
  by (simp_all add: opened_def)

lemma ids_left_cong: "sm_next_connection_id m' = sm_next_connection_id m \<Longrightarrow> ids_left m' = ids_left m"
  by (simp add: ids_left_def)

lemma sm_ok_commit_admission:
  "sm_ok m \<Longrightarrow> sm_ok (fst (commit_admission m r now))"
  by (auto simp: commit_admission_eq sm_ok_remove_admission intro!: sm_ok_opened split: sum.split)

lemma sm_ok_bind:
  assumes "sm_ok m" and "0 < ids_left m"
  shows "sm_ok (fst (bind_authenticated_connection m sid now))"
  using assms
  by (auto simp: bind_authenticated_connection_def connection_counted_def Let_def case_prod_beta sm_ok_drop
      intro!: sm_ok_grant dest: keys_Some split: option.split)

lemma sm_ok_commit_and_bind:
  assumes ok: "sm_ok m" and room: "0 < ids_left m"
  shows "sm_ok (fst (commit_admission_and_bind m r now))"
proof -
  have "ads_session_id r \<in> keys (sm_sessions (opened m r session now))" for session
    by (rule keys_Some [of _ _ "\<lparr>ms_session = session, ms_organization_id = ads_organization_id r,
      ms_last_activity_ms = now\<rparr>"]) (simp add: opened_def map_of_hm_insert)
  moreover have "0 < ids_left (opened m r session now)" for session
    using room ids_left_cong [of "opened m r session now" m] by simp
  ultimately show ?thesis
    using ok room
    by (auto simp: commit_and_bind_eq sm_ok_remove_admission Let_def connection_counted_def
        intro!: sm_ok_opened sm_ok_bind sm_ok_drop sm_ok_grant split: sum.split)
qed

section \<open>The machine\<close>

lemma of_managed_fst [simp]: "fst (of_managed f r) = fst r"
  by (simp add: of_managed_def split: prod.split sum.split)

lemma sm_ok_exec:
  assumes "sm_ok m" and "0 < ids_left m"
  shows "sm_ok (fst (sm_exec m e))"
  using assms
  by (cases e) (simp_all add: sm_ok_reserve_admission sm_ok_commit_admission sm_ok_commit_and_bind
      abort_admission_def sm_ok_remove_admission sm_ok_bind sm_ok_reserve_attach sm_ok_commit_attach
      sm_ok_detach_connection sm_ok_close_connection sm_ok_validate sm_ok_begin_draining sm_ok_close sm_ok_sweep)

text \<open>The next identifier only moves when a capability is granted, and then by one.\<close>

lemma put_session_next [simp]: "sm_next_connection_id (put_session sid ms m) = sm_next_connection_id m"
  by (simp add: put_session_def)

lemma drop_session_next [simp]:
  "sm_next_connection_id (fst (drop_session sid reason m)) = sm_next_connection_id m"
  by (simp add: drop_session_eq record_removal_def lose_def split: option.split)

lemma remove_each_next [simp]: "sm_next_connection_id (fst (remove_each chosen m)) = sm_next_connection_id m"
  by (induction chosen m rule: remove_each.induct)
    (auto simp: remove_session_eq Let_def case_prod_beta lose_def split: option.splits)

lemma record_each_next [simp]: "sm_next_connection_id (record_each removals m) = sm_next_connection_id m"
  using record_each_frame [of removals m] by auto

lemma swept_next [simp]: "sm_next_connection_id (swept m now) = sm_next_connection_id m"
  by (simp add: swept_def prune_sessions_def pending_prune_frame)

definition next_grants :: "manager \<Rightarrow> manager \<Rightarrow> bool" where
  "next_grants m m' \<longleftrightarrow> sm_next_connection_id m' = sm_next_connection_id m \<or>
     sm_next_connection_id m' = sm_next_connection_id m + 1"

lemma next_grants_same: "sm_next_connection_id m' = sm_next_connection_id m \<Longrightarrow> next_grants m m'"
  by (simp add: next_grants_def)

lemma next_grants_bind:
  assumes "sm_ok m"
  shows "next_grants m (fst (bind_authenticated_connection m sid now))"
  using assms
  by (auto simp: next_grants_def bind_authenticated_connection_def connection_counted_def Let_def
      case_prod_beta grant_eq split: option.split)

lemma next_grants_commit_and_bind:
  assumes ok: "sm_ok m"
  shows "next_grants m (fst (commit_admission_and_bind m r now))"
proof -
  have "sm_ok (opened m r session now)"
    if "map_of (sm_admissions m) (ads_session_id r) = Some r" "admitted_session m r now = Inr session" for session
    by (rule sm_ok_opened [OF ok that])
  then show ?thesis
    using next_grants_bind [OF ok]
    by (auto simp: commit_and_bind_eq Let_def connection_counted_def next_grants_def grant_eq split: sum.split)
qed

lemma next_grants_exec:
  assumes ok: "sm_ok m"
  shows "next_grants m (fst (sm_exec m e))"
proof -
  have same: "next_grants m (fst (sm_exec m e))"
    if "sm_next_connection_id (fst (sm_exec m e)) = sm_next_connection_id m" for e
    using that by (rule next_grants_same)
  note defs = Let_def case_prod_beta admit_counted_def pending_counted_def pending_prune_frame
  show ?thesis
  proof (cases e)
    case (ReserveAdmission sid did oid ex now)
    then show ?thesis
      by (intro same) (simp add: reserve_admission_def defs split: option.split)
  next
    case (CommitAdmission r now)
    then show ?thesis by (intro same) (simp add: commit_admission_eq split: sum.split)
  next
    case (CommitAndBind r now)
    then show ?thesis by (simp add: next_grants_commit_and_bind [OF ok])
  next
    case (AbortAdmission r)
    then show ?thesis by (intro same) (simp add: abort_admission_def)
  next
    case (BindConnection sid now)
    then show ?thesis by (simp add: next_grants_bind [OF ok])
  next
    case (ReserveAttach c p k now)
    then show ?thesis
      by (intro same) (simp add: sm_reserve_attach_def defs split: option.split sum.split)
  next
    case (CommitAttach r)
    then show ?thesis by (intro same) (rule commit_attach_cases [OF ok, of r], simp_all)
  next
    case (DetachConnection c p pe now)
    then show ?thesis
      by (intro same) (simp add: detach_connection_def defs split: option.split)
  next
    case (CloseConnection c)
    then show ?thesis
      by (intro same) (simp add: close_connection_def defs split: option.split)
  next
    case (ValidatePath c p pe k now)
    then show ?thesis
      by (intro same) (simp add: validate_attached_path_def defs split: option.split)
  next
    case (ValidateIngress c env now)
    then show ?thesis
      by (intro same) (simp add: validate_ingress_def defs split: option.split)
  next
    case (RecordActivity c now)
    then show ?thesis
      by (intro same) (simp add: record_authenticated_activity_def defs split: option.split)
  next
    case (DrainSession sid)
    then show ?thesis
      by (intro same) (simp add: sm_begin_draining_def defs split: option.split sum.split)
  next
    case (Sweep now)
    then show ?thesis by (intro same) (simp add: sweep_eq defs)
  qed (simp_all add: next_grants_def sm_close_def close_session_def close_all_def defs)
qed

interpretation manager: keeps_until sm_exec sm_ok ids_left
proof
  fix m e m' out
  assume ok: "sm_ok m" and left: "0 < ids_left m" and e: "sm_exec m e = (m', out)"
  then show "sm_ok m'" using sm_ok_exec [OF ok left, of e] by simp
  have "next_grants m m'" using next_grants_exec [OF ok, of e] e by simp
  then show "ids_left m \<le> Suc (ids_left m')"
    using unat_inc [OF ids_left_room [OF left]] by (auto simp: next_grants_def ids_left_def)
qed

section \<open>Reachable managers\<close>

text \<open>
  States after fewer than \<open>2\<^sup>6\<^sup>4 - 1\<close> operations from a manager whose configured session
  limit is a \<open>usize\<close>.
\<close>

definition sm_reachable :: "nat \<Rightarrow> manager \<Rightarrow> bool" where
  "sm_reachable n m \<longleftrightarrow> (\<exists>config m0 tr. manager_new config = Inr m0 \<and>
     mc_maximum_sessions config \<le> usize_max \<and> trace sm_exec m0 tr m \<and>
     length tr + n \<le> 2 ^ 64 - 2)"

lemma sm_reachable_ok:
  assumes "sm_reachable n m"
  shows "sm_ok m" and "n \<le> ids_left m"
proof -
  obtain config m0 tr where m0: "manager_new config = Inr m0" "mc_maximum_sessions config \<le> usize_max"
    and tr: "trace sm_exec m0 tr m" and len: "length tr + n \<le> 2 ^ 64 - 2"
    using assms unfolding sm_reachable_def by blast
  have "ids_left m0 = 2 ^ 64 - 2" using m0(1) by (auto simp: manager_new_def ids_left_def split: if_splits)
  with manager.until_trace [OF tr sm_ok_new [OF m0]] len
  show "sm_ok m" and "n \<le> ids_left m" by simp_all
qed

lemma sm_reachable_trace:
  assumes "sm_reachable n m" and "trace sm_exec m tr u" and "length tr + k \<le> n"
  shows "sm_reachable k u"
proof -
  obtain config m0 tr0 where "manager_new config = Inr m0" "mc_maximum_sessions config \<le> usize_max"
    and "trace sm_exec m0 tr0 m" and "length tr0 + n \<le> 2 ^ 64 - 2"
    using assms(1) unfolding sm_reachable_def by blast
  moreover from this assms(2,3) have "trace sm_exec m0 (tr0 @ tr) u" and "length (tr0 @ tr) + k \<le> 2 ^ 64 - 2"
    by (auto simp: trace_append)
  ultimately show ?thesis unfolding sm_reachable_def by blast
qed

end
