(* ===== verification/SessionsPaths.thy ===== *)
theory SessionsPaths
  imports SessionsOps
begin

text \<open>
  What the operations of the session manager do to the path tables of its sessions: every session
  keeps the limits of the configuration, so the totals a snapshot reports are bounded by the
  number of sessions, and a reserved path that no pending attach names any more stays as it is
  until its session is removed.
\<close>

section \<open>The limits of a session\<close>

definition capacities :: "v2_session \<Rightarrow> nat \<times> nat \<times> nat" where
  "capacities s = (vs_maximum_paths s, vs_maximum_path_epoch_history s, vs_maximum_path_tombstones s)"

lemma allocate_capacities: "capacities (fst (allocate_turns n s e k)) = capacities s"
  by (induction n arbitrary: s)
    (simp_all add: allocate_turns_Suc Let_def capacities_def del: allocate_turns.simps(2))

lemma capacities_steps [simp]:
  "capacities (prune_path_tombstones now s) = capacities s"
  "capacities (fst (abort_attach s r)) = capacities s"
  "capacities (fst (commit_attach s r)) = capacities s"
  "capacities (fst (set_path_state s p st)) = capacities s"
  "capacities (fst (detach s p c e now)) = capacities s"
  "capacities (fst (vs_begin_draining s)) = capacities s"
  by (simp_all add: capacities_def prune_path_tombstones_def abort_attach_def commit_attach_def set_path_state_def
      detach_def path_insert_tombstone_def vs_begin_draining_def Let_def case_prod_beta split: option.split)

lemma capacities_reserve [simp]: "capacities (fst (reserve_attach s c e k now)) = capacities s"
proof -
  obtain t x where a: "allocate_path_id (prune_path_tombstones now s) e k = (t, x)" by fastforce
  then have "capacities t = capacities s"
    using allocate_capacities [of 65535 "prune_path_tombstones now s" e k] by (simp add: allocate_path_id_def)
  then have "capacities (t\<lparr>vs_path_epoch_history := h, vs_paths := ps\<rparr>) = capacities s" for h ps
    by (simp add: capacities_def)
  then show ?thesis using \<open>capacities t = capacities s\<close>
    by (auto simp: reserve_attach_def Let_def a split: option.split)
qed

definition configured :: "manager_config \<Rightarrow> nat \<times> nat \<times> nat" where
  "configured c = (mc_maximum_paths_per_session c, mc_maximum_path_epoch_history c, mc_maximum_path_tombstones c)"

definition fits :: "manager \<Rightarrow> bool" where
  "fits m \<longleftrightarrow> (\<forall>sid ms. map_of (sm_sessions m) sid = Some ms \<longrightarrow>
     capacities (ms_session ms) = configured (sm_config m))"

lemma fits_tables [simp]:
  "fits (m\<lparr>sm_admissions := as\<rparr>) = fits m"
  "fits (m\<lparr>sm_connections := cs\<rparr>) = fits m"
  "fits (m\<lparr>sm_pending := ps\<rparr>) = fits m"
  "fits (m\<lparr>sm_authenticated := au\<rparr>) = fits m"
  "fits (m\<lparr>sm_next_connection_id := n\<rparr>) = fits m"
  "fits (m\<lparr>sm_metrics := mm\<rparr>) = fits m"
  by (simp_all add: fits_def)

lemma fits_counted [simp]:
  "fits (admit_counted m) = fits m" "fits (connection_counted m) = fits m" "fits (pending_counted m) = fits m"
  "fits (fst (grant_connection m sid)) = fits m" "fits (record_removal reason m) = fits m"
  by (simp_all add: admit_counted_def connection_counted_def pending_counted_def grant_connection_def
      next_connection_identity_def record_removal_def Let_def case_prod_beta)

lemma fits_record_each [simp]: "fits (record_each removals m) = fits m"
  using record_each_frame [of removals m] by auto

lemma fits_put:
  "fits m \<Longrightarrow> map_of (sm_sessions m) sid = Some ms \<Longrightarrow> capacities (ms_session ms') = capacities (ms_session ms) \<Longrightarrow>
    fits (put_session sid ms' m)"
  by (auto simp: fits_def put_session_def map_of_hm_insert)

lemma fits_lose: "fits m \<Longrightarrow> fits (lose sid m)"
  by (auto simp: fits_def lose_def map_of_remove split: if_splits)

lemma fits_drop: "fits m \<Longrightarrow> fits (fst (drop_session sid reason m))"
  by (simp add: drop_session_eq fits_lose split: option.split)

lemma fits_remove_each: "fits m \<Longrightarrow> fits (fst (remove_each chosen m))"
  by (induction chosen m rule: remove_each.induct)
    (auto simp: remove_session_eq Let_def case_prod_beta fits_lose split: option.splits)

lemma fits_prune_each: "fits m \<Longrightarrow> fits (prune_each xs m)"
proof (induction xs m rule: prune_each.induct)
  case (2 conn r xs m)
  have "fits (put_session (gr_session_id r) (ms\<lparr>ms_session := fst (abort_attach (ms_session ms) (gr_reservation r))\<rparr>)
      (m\<lparr>sm_pending := kt_remove conn (sm_pending m)\<rparr>))"
    if "map_of (sm_sessions m) (gr_session_id r) = Some ms" for ms
    by (rule fits_put [where ms = ms]) (use that "2.prems" in simp_all)
  then show ?case using 2 by (auto simp: Let_def split: option.splits)
qed simp

lemma fits_swept: "fits m \<Longrightarrow> fits (swept m now)"
proof -
  assume "fits m"
  then have "fits (prune_overdue_attaches now (m\<lparr>sm_metrics := mm, sm_admissions := as\<rparr>))" for mm as
    unfolding prune_overdue_attaches_def by (intro fits_prune_each) simp
  moreover have "fits (prune_sessions now k)" if "fits k" for k
    using that by (auto simp: fits_def prune_sessions_def map_of_map_prod_id)
  ultimately show ?thesis unfolding swept_def by blast
qed

lemma fits_opened:
  assumes "fits m" and "admitted_session m r now = Inr session"
  shows "fits (opened m r session now)"
proof -
  have "capacities session = configured (sm_config m)"
    using assms(2) by (auto simp: admitted_session_def v2_session_new_def vs_activate_def capacities_def
        configured_def split: sum.splits prod.splits if_splits)
  then show ?thesis using assms(1) by (auto simp: fits_def opened_def map_of_hm_insert split: if_splits)
qed

lemma fits_steps:
  assumes "fits m"
  shows "fits (fst (reserve_admission m s did oid ex now))"
    and "fits (fst (commit_admission m r now))"
    and "fits (fst (bind_authenticated_connection m s now))"
    and "fits (fst (commit_admission_and_bind m r now))"
    and "fits (fst (abort_admission m r))"
    and "fits (fst (detach_connection m c p pe now))"
    and "fits (fst (close_connection m c))"
    and "fits (fst (validate_attached_path m c p pe k now))"
    and "fits (fst (validate_ingress m c env now))"
    and "fits (fst (record_authenticated_activity m c now))"
    and "fits (fst (sm_begin_draining m s))"
    and "fits (fst (sm_close m s))" and "fits (fst (close_session m c))"
    and "fits (fst (close_all m))" and "fits (fst (sweep m now))"
proof -
  note defs = Let_def case_prod_beta
  show "fits (fst (reserve_admission m s did oid ex now))"
    using assms fits_drop [OF assms] by (simp add: reserve_admission_def defs split: option.split)
  show "fits (fst (commit_admission m r now))"
    using assms fits_opened [OF assms] by (simp add: commit_admission_eq split: sum.split)
  show bind: "fits (fst (bind_authenticated_connection m s now))" for s
    using assms fits_drop [OF assms] by (simp add: bind_authenticated_connection_def defs split: option.split)
  show "fits (fst (commit_admission_and_bind m r now))"
    using assms fits_opened [OF assms] bind by (simp add: commit_and_bind_eq defs fits_drop split: sum.split)
  show "fits (fst (abort_admission m r))" using assms by (simp add: abort_admission_def)
  show "fits (fst (detach_connection m c p pe now))"
    using assms by (auto simp: detach_connection_def defs intro!: fits_put split: option.split)
  show "fits (fst (close_connection m c))"
    using assms by (auto simp: close_connection_def defs intro!: fits_put split: option.split)
  show "fits (fst (validate_attached_path m c p pe k now))"
    using assms by (auto simp: validate_attached_path_def defs fits_drop intro!: fits_put split: option.split)
  show "fits (fst (validate_ingress m c env now))"
    using assms by (auto simp: validate_ingress_def defs fits_drop intro!: fits_put split: option.split)
  show "fits (fst (record_authenticated_activity m c now))"
    using assms by (auto simp: record_authenticated_activity_def defs fits_drop intro!: fits_put split: option.split)
  show "fits (fst (sm_begin_draining m s))"
    using assms by (auto simp: sm_begin_draining_def defs intro!: fits_put split: option.split sum.split)
  show "fits (fst (sm_close m s))" "fits (fst (close_session m c))" "fits (fst (close_all m))" "fits (fst (sweep m now))"
    using assms by (simp_all add: sm_close_def close_session_def close_all_def sweep_eq defs fits_drop
        fits_remove_each fits_swept)
qed

lemma fits_reserve_attach:
  assumes "fits m"
  shows "fits (fst (sm_reserve_attach m c pe k now))"
proof -
  have "fits (prune_overdue_attaches now m)"
    unfolding prune_overdue_attaches_def by (rule fits_prune_each [OF assms])
  then show ?thesis
    by (auto simp: sm_reserve_attach_def Let_def case_prod_beta intro!: fits_put split: option.split sum.split)
qed

lemma fits_commit_attach: "fits m \<Longrightarrow> fits (fst (sm_commit_attach m r))"
  by (auto simp: sm_commit_attach_def Let_def case_prod_beta intro!: fits_put split: option.split sum.split)

interpretation limits: keeps_invariant sm_exec fits
proof
  fix m e m' out
  assume "fits m" and "sm_exec m e = (m', out)"
  moreover from this(1) have "fits (fst (sm_exec m e))"
    by (cases e) (simp_all add: fits_steps fits_reserve_attach fits_commit_attach)
  ultimately show "fits m'" by simp
qed

lemma sm_reachable_fits:
  assumes "sm_reachable n m"
  shows "fits m"
proof -
  obtain config m0 tr where m0: "manager_new config = Inr m0" and tr: "trace sm_exec m0 tr m"
    using assms unfolding sm_reachable_def by blast
  have "fits m0" using m0 by (auto simp: manager_new_def fits_def split: if_splits)
  with tr show ?thesis by (rule limits.inv_trace)
qed

text \<open>The totals over the sessions, and the connection table, which has one entry per committed path.\<close>

lemma sum_list_bound: "(\<And>x. x \<in> set xs \<Longrightarrow> f x \<le> (n::nat)) \<Longrightarrow> sum_list (map f xs) \<le> length xs * n"
proof (induction xs)
  case (Cons x xs)
  then have "f x \<le> n" "sum_list (map f xs) \<le> length xs * n" by simp_all
  then show ?case by simp
qed simp

lemma session_tables_bounded:
  assumes ok: "sm_ok m" and f: "fits m" and ms: "(sid, ms) \<in> set (sm_sessions m)"
  shows "length (vs_paths (ms_session ms)) \<le> mc_maximum_paths_per_session (sm_config m)"
    and "length (vs_path_tombstones (ms_session ms)) \<le> mc_maximum_path_tombstones (sm_config m)"
    and "length (vs_path_epoch_history (ms_session ms)) \<le> mc_maximum_path_epoch_history (sm_config m)"
proof -
  have at: "map_of (sm_sessions m) sid = Some ms"
    using ms sm_okD(1) [OF ok] by (simp add: sm_tables_def map_of_in_set hm.ok_distinct)
  have "lifecycle_ok (ms_session ms)" using sm_okD(2) [OF ok at] by (simp add: session_ok_def lc_reachable_ok)
  moreover have "capacities (ms_session ms) = configured (sm_config m)" using f at by (simp add: fits_def)
  ultimately show "length (vs_paths (ms_session ms)) \<le> mc_maximum_paths_per_session (sm_config m)"
    "length (vs_path_tombstones (ms_session ms)) \<le> mc_maximum_path_tombstones (sm_config m)"
    "length (vs_path_epoch_history (ms_session ms)) \<le> mc_maximum_path_epoch_history (sm_config m)"
    by (auto simp: lifecycle_defs capacities_def configured_def)
qed

lemma connections_bounded:
  assumes ok: "sm_ok m" and f: "fits m"
  shows "length (sm_connections m) \<le> length (sm_sessions m) * mc_maximum_paths_per_session (sm_config m)"
proof -
  note t = sm_okD(1) [OF ok, unfolded sm_tables_def]
  let ?paths = "\<lambda>sid. keys (vs_paths (ms_session (the (map_of (sm_sessions m) sid))))"
  let ?place = "\<lambda>(c :: connection_id, sid :: session_id, p :: path_id, e :: u64, k :: u32). (sid, p)"
  have conn: "map_of (sm_connections m) c = Some owner \<longleftrightarrow> (c, owner) \<in> set (sm_connections m)" for c owner
    using t by (simp add: map_of_in_set hm.ok_distinct)
  have at: "\<exists>path. path_at (sm_sessions m) sid p = Some path \<and> committed_as path c e k"
    if "(c, sid, p, e, k) \<in> set (sm_connections m)" for c sid p e k
    using that linksD(1) [OF sm_okD(3) [OF ok]] by (simp add: conn [symmetric])
  have bound: "card (?paths sid) \<le> mc_maximum_paths_per_session (sm_config m)" if sid: "sid \<in> keys (sm_sessions m)" for sid
  proof -
    obtain ms where "(sid, ms) \<in> set (sm_sessions m)" "map_of (sm_sessions m) sid = Some ms"
      using sid by (metis map_of_SomeD map_of_eq_None_iff not_None_eq)
    with session_tables_bounded(1) [OF ok f this(1)] show ?thesis
      using card_length [of "map fst (vs_paths (ms_session ms))"] by simp
  qed
  have "inj_on ?place (set (sm_connections m))"
    by (intro inj_onI) (auto dest!: at simp: committed_as_def)
  then have "length (sm_connections m) = card (?place ` set (sm_connections m))"
    using t by (simp add: card_image hm_ok_def distinct_card distinct_map)
  also have "\<dots> \<le> card (Sigma (keys (sm_sessions m)) ?paths)"
    by (intro card_mono) (auto dest!: at simp: path_at_def keys_Some split: option.splits)
  also have "\<dots> = (\<Sum>sid \<in> keys (sm_sessions m). card (?paths sid))" by (rule card_SigmaI) simp_all
  also have "\<dots> \<le> card (keys (sm_sessions m)) * mc_maximum_paths_per_session (sm_config m)"
    using sum_bounded_above [of "keys (sm_sessions m)" "\<lambda>sid. card (?paths sid)"] bound by simp
  also have "\<dots> \<le> length (sm_sessions m) * mc_maximum_paths_per_session (sm_config m)"
    using card_length [of "map fst (sm_sessions m)"] by simp
  finally show ?thesis .
qed

section \<open>A reserved path nobody can commit\<close>

text \<open>
  A path is orphaned when it is reserved and no pending attach names it. Only a pending attach
  commits or releases a reserved path, so it stays until its session is removed.
\<close>

definition claims :: "session_id \<Rightarrow> path_id \<Rightarrow> gateway_reservation \<Rightarrow> bool" where
  "claims sid p r \<longleftrightarrow> gr_session_id r = sid \<and> ar_path_id (gr_reservation r) = p"

definition orphaned :: "session_id \<Rightarrow> path_id \<Rightarrow> path_entry \<Rightarrow> manager \<Rightarrow> bool" where
  "orphaned sid p path m \<longleftrightarrow> path_at (sm_sessions m) sid p = Some path \<and> pe_reserved path \<and>
     (\<forall>(c, q) \<in> set (sm_pending m). \<not> claims sid p (pc_reservation q))"

lemma orphaned_tables [simp]:
  "orphaned sid p path (m\<lparr>sm_admissions := as\<rparr>) = orphaned sid p path m"
  "orphaned sid p path (m\<lparr>sm_connections := cs\<rparr>) = orphaned sid p path m"
  "orphaned sid p path (m\<lparr>sm_authenticated := au\<rparr>) = orphaned sid p path m"
  "orphaned sid p path (m\<lparr>sm_next_connection_id := n\<rparr>) = orphaned sid p path m"
  "orphaned sid p path (m\<lparr>sm_metrics := mm\<rparr>) = orphaned sid p path m"
  by (simp_all add: orphaned_def)

lemma orphaned_counted [simp]:
  "orphaned sid p path (admit_counted m) = orphaned sid p path m"
  "orphaned sid p path (connection_counted m) = orphaned sid p path m"
  "orphaned sid p path (pending_counted m) = orphaned sid p path m"
  "orphaned sid p path (fst (grant_connection m s)) = orphaned sid p path m"
  "orphaned sid p path (record_removal reason m) = orphaned sid p path m"
  by (simp_all add: admit_counted_def connection_counted_def pending_counted_def grant_connection_def
      next_connection_identity_def record_removal_def Let_def case_prod_beta)

lemma orphaned_record_each [simp]: "orphaned sid p path (record_each removals m) = orphaned sid p path m"
  using record_each_frame [of removals m] by auto

lemma orphaned_drop_pending: "orphaned sid p path m \<Longrightarrow> orphaned sid p path (m\<lparr>sm_pending := kt_remove c (sm_pending m)\<rparr>)"
  by (auto simp: orphaned_def set_kt_remove)

text \<open>The session operations leave the entry alone.\<close>

definition leaves :: "path_id \<Rightarrow> path_entry \<Rightarrow> v2_session \<Rightarrow> v2_session \<Rightarrow> bool" where
  "leaves p path s t \<longleftrightarrow> map_of (vs_paths s) p = Some path \<longrightarrow> map_of (vs_paths t) p = Some path"

lemma leaves_same: "vs_paths t = vs_paths s \<Longrightarrow> leaves p path s t"
  by (simp add: leaves_def)

lemma leaves_steps:
  "ar_path_id r \<noteq> p \<Longrightarrow> leaves p path s (fst (abort_attach s r))"
  "ar_path_id r \<noteq> p \<Longrightarrow> leaves p path s (fst (commit_attach s r))"
  "pe_reserved path \<Longrightarrow> leaves p path s (fst (set_path_state s q st))"
  "pe_reserved path \<Longrightarrow> leaves p path s (fst (detach s q c e now))"
  "leaves p path s (fst (vs_begin_draining s))"
  by (auto simp: leaves_def abort_attach_def commit_attach_def set_path_state_def detach_def vs_begin_draining_def
      path_insert_tombstone_def Let_def case_prod_beta map_of_remove map_of_hm_insert split: option.split)

lemma leaves_trans: "leaves p path s t \<Longrightarrow> leaves p path t u \<Longrightarrow> leaves p path s u"
  by (simp add: leaves_def)

lemma leaves_reserve:
  assumes ok: "lifecycle_ok s" and r: "reserve_attach s c e k now = (t, res)"
  shows "leaves p path s t" and "map_of (vs_paths s) p = Some path \<Longrightarrow> res = Inr rv \<Longrightarrow> ar_path_id rv \<noteq> p"
proof -
  from ok r show "leaves p path s t"
    by (cases rule: reserve_effect)
      (auto simp: leaves_def granted_def eligible_def map_of_hm_insert dest: keys_Some)
  assume "map_of (vs_paths s) p = Some path" and "res = Inr rv"
  from ok r this show "ar_path_id rv \<noteq> p"
    by (cases rule: reserve_effect) (auto simp: eligible_def dest: keys_Some)
qed

lemma orphaned_put:
  "orphaned sid p path m \<Longrightarrow> map_of (sm_sessions m) s = Some ms \<Longrightarrow> (s = sid \<Longrightarrow> leaves p path (ms_session ms) (ms_session ms')) \<Longrightarrow>
    orphaned sid p path (put_session s ms' m)"
  by (auto simp: orphaned_def put_session_def path_at_put path_at_def leaves_def)

text \<open>A removal of the session is reported.\<close>

definition spares :: "session_id \<Rightarrow> session_removal list \<Rightarrow> bool" where
  "spares sid removals \<longleftrightarrow> sid \<notin> rm_session_id ` set removals"

lemma spares_simps [simp]:
  "spares sid []"
  "spares sid (r # removals) \<longleftrightarrow> rm_session_id r \<noteq> sid \<and> spares sid removals"
  "spares sid (removals @ removals') \<longleftrightarrow> spares sid removals \<and> spares sid removals'"
  by (auto simp: spares_def)

lemma orphaned_lose: "orphaned sid p path m \<Longrightarrow> s \<noteq> sid \<Longrightarrow> orphaned sid p path (lose s m)"
  by (auto simp: orphaned_def lose_def path_at_remove set_kt_retain)

lemma orphaned_drop:
  "orphaned sid p path m \<Longrightarrow> spares sid (snd (drop_session s reason m)) \<Longrightarrow>
    orphaned sid p path (fst (drop_session s reason m))"
  by (auto simp: drop_session_eq removal_of_def orphaned_lose split: option.splits)

lemma orphaned_remove_each:
  "orphaned sid p path m \<Longrightarrow> spares sid (snd (remove_each chosen m)) \<Longrightarrow>
    orphaned sid p path (fst (remove_each chosen m))"
proof (induction chosen m rule: remove_each.induct)
  case (2 s reason chosen m)
  show ?case
  proof (cases "map_of (sm_sessions m) s")
    case None
    then have "remove_session s reason m = (m, None)" by (simp add: remove_session_eq)
    then show ?thesis using 2 by (simp add: case_prod_beta)
  next
    case (Some ms)
    then have r: "remove_session s reason m = (lose s m, Some (removal_of s reason ms))"
      by (simp add: remove_session_eq)
    then have "s \<noteq> sid" using "2.prems"(2) by (auto simp: case_prod_beta removal_of_def)
    from orphaned_lose [OF "2.prems"(1) this] show ?thesis
      using "2.IH" [OF r [symmetric]] "2.prems"(2) r by (simp add: case_prod_beta)
  qed
qed simp

lemma orphaned_prune_each:
  "orphaned sid p path m \<Longrightarrow> \<forall>(c, r) \<in> set xs. \<not> claims sid p r \<Longrightarrow> orphaned sid p path (prune_each xs m)"
proof (induction xs m rule: prune_each.induct)
  case (2 conn r xs m)
  have "orphaned sid p path (put_session (gr_session_id r)
      (ms\<lparr>ms_session := fst (abort_attach (ms_session ms) (gr_reservation r))\<rparr>)
      (m\<lparr>sm_pending := kt_remove conn (sm_pending m)\<rparr>))"
    if "map_of (sm_sessions m) (gr_session_id r) = Some ms" for ms
    by (rule orphaned_put [OF orphaned_drop_pending [OF "2.prems"(1)], where ms = ms])
      (use that "2.prems"(2) in \<open>auto simp: claims_def intro: leaves_steps\<close>)
  then show ?case using 2 orphaned_drop_pending [OF "2.prems"(1)] by (auto simp: Let_def split: option.splits)
qed simp

lemma orphaned_prune: "orphaned sid p path m \<Longrightarrow> orphaned sid p path (prune_overdue_attaches now m)"
  unfolding prune_overdue_attaches_def by (rule orphaned_prune_each) (auto simp: orphaned_def)

lemma orphaned_swept:
  assumes "orphaned sid p path m"
  shows "orphaned sid p path (swept m now)"
proof -
  have "orphaned sid p path (prune_overdue_attaches now (m\<lparr>sm_metrics := mm, sm_admissions := as\<rparr>))" for mm as
    by (rule orphaned_prune) (simp add: assms)
  moreover have "orphaned sid p path (prune_sessions now k)" if "orphaned sid p path k" for k
    using that by (auto simp: orphaned_def prune_sessions_def path_at_def map_of_map_prod_id split: option.splits)
  ultimately show ?thesis unfolding swept_def by blast
qed

lemma orphaned_opened:
  assumes "sm_ok m" and o: "orphaned sid p path m" and r: "map_of (sm_admissions m) (ads_session_id r) = Some r"
  shows "orphaned sid p path (opened m r session now)" and "ads_session_id r \<noteq> sid"
proof -
  have "sid \<in> keys (sm_sessions m)" using o by (auto simp: orphaned_def path_at_def keys_Some split: option.splits)
  moreover have "keys (sm_sessions m) \<inter> keys (sm_admissions m) = {}"
    using sm_okD(1) [OF assms(1)] unfolding sm_tables_def by argo
  ultimately show "ads_session_id r \<noteq> sid" using keys_Some [OF r] by blast
  then show "orphaned sid p path (opened m r session now)" using o by (simp add: orphaned_def opened_def path_at_put)
qed

lemma orphaned_steps:
  assumes ok: "sm_ok m" and o: "orphaned sid p path m"
  shows "spares sid (snd (snd (reserve_admission m s did oid ex now))) \<Longrightarrow>
      orphaned sid p path (fst (reserve_admission m s did oid ex now))"
    and "orphaned sid p path (fst (commit_admission m r now))"
    and "orphaned sid p path (fst (abort_admission m r))"
    and "orphaned sid p path (fst (detach_connection m c q pe now))"
    and "orphaned sid p path (fst (close_connection m c))"
    and "spares sid (snd (snd (validate_attached_path m c q pe k now))) \<Longrightarrow>
      orphaned sid p path (fst (validate_attached_path m c q pe k now))"
    and "spares sid (snd (snd (validate_ingress m c env now))) \<Longrightarrow>
      orphaned sid p path (fst (validate_ingress m c env now))"
    and "spares sid (snd (snd (record_authenticated_activity m c now))) \<Longrightarrow>
      orphaned sid p path (fst (record_authenticated_activity m c now))"
    and "orphaned sid p path (fst (sm_begin_draining m s))"
    and "spares sid (snd (snd (sm_close m s))) \<Longrightarrow> orphaned sid p path (fst (sm_close m s))"
    and "spares sid (snd (snd (close_session m c))) \<Longrightarrow> orphaned sid p path (fst (close_session m c))"
    and "spares sid (snd (snd (close_all m))) \<Longrightarrow> orphaned sid p path (fst (close_all m))"
    and "spares sid (snd (snd (sweep m now))) \<Longrightarrow> orphaned sid p path (fst (sweep m now))"
proof -
  note defs = Let_def case_prod_beta
  have reserved: "pe_reserved path" using o by (simp add: orphaned_def)
  have drop: "orphaned sid p path (fst (drop_session s reason m))" if "spares sid (snd (drop_session s reason m))" for s reason
    by (rule orphaned_drop [OF o that])
  have unclaimed: "\<not> claims sid p (pc_reservation q)" if "map_of (sm_pending m) d = Some q" for d q
    using o map_of_SomeD [OF that] by (auto simp: orphaned_def)
  show "orphaned sid p path (fst (reserve_admission m s did oid ex now))"
    if "spares sid (snd (snd (reserve_admission m s did oid ex now)))"
    using that o drop unfolding reserve_admission_def defs by (auto split: option.splits if_splits)
  show "orphaned sid p path (fst (commit_admission m r now))"
    using o orphaned_opened(1) [OF ok o] by (simp add: commit_admission_eq split: sum.split)
  show "orphaned sid p path (fst (abort_admission m r))" using o by (simp add: abort_admission_def)
  show "orphaned sid p path (fst (detach_connection m c q pe now))"
    using o reserved by (auto simp: detach_connection_def defs intro!: orphaned_put leaves_steps split: option.split)
  show "orphaned sid p path (fst (close_connection m c))"
  proof -
    have "orphaned sid p path (put_session (gr_session_id (pc_reservation q))
        (ms\<lparr>ms_session := fst (abort_attach (ms_session ms) (gr_reservation (pc_reservation q)))\<rparr>)
        (m\<lparr>sm_authenticated := au, sm_pending := kt_remove (ac_connection_id c) (sm_pending m)\<rparr>))"
      if "map_of (sm_pending m) (ac_connection_id c) = Some q"
        and "map_of (sm_sessions m) (gr_session_id (pc_reservation q)) = Some ms" for q ms au
      by (rule orphaned_put [where ms = ms])
        (use that unclaimed [OF that(1)] orphaned_drop_pending [of sid p path "m\<lparr>sm_authenticated := au\<rparr>"] o
          in \<open>auto simp: claims_def intro!: leaves_steps\<close>)
    moreover have "orphaned sid p path (m\<lparr>sm_authenticated := au, sm_pending := kt_remove d (sm_pending m)\<rparr>)" for au d
      using orphaned_drop_pending [of sid p path "m\<lparr>sm_authenticated := au\<rparr>" d] o by simp
    ultimately show ?thesis
      using o reserved
      by (auto simp: close_connection_def defs intro!: orphaned_put leaves_steps split: option.split)
  qed
  have touch: "orphaned sid p path (put_session s (ms\<lparr>ms_last_activity_ms := now\<rparr>) m)"
    if "map_of (sm_sessions m) s = Some ms" for s ms
    by (rule orphaned_put [OF o that]) (simp add: leaves_def)
  show "orphaned sid p path (fst (validate_attached_path m c q pe k now))"
    if "spares sid (snd (snd (validate_attached_path m c q pe k now)))"
    using that o drop touch unfolding validate_attached_path_def defs by (auto split: option.splits if_splits)
  show "orphaned sid p path (fst (validate_ingress m c env now))"
    if "spares sid (snd (snd (validate_ingress m c env now)))"
    using that o drop touch unfolding validate_ingress_def defs by (auto split: option.splits if_splits)
  show "orphaned sid p path (fst (record_authenticated_activity m c now))"
    if "spares sid (snd (snd (record_authenticated_activity m c now)))"
    using that o drop touch unfolding record_authenticated_activity_def defs by (auto split: option.splits if_splits)
  show "orphaned sid p path (fst (sm_begin_draining m s))"
    using o by (auto simp: sm_begin_draining_def defs intro!: orphaned_put leaves_steps split: option.split sum.split)
  show "spares sid (snd (snd (sm_close m s))) \<Longrightarrow> orphaned sid p path (fst (sm_close m s))"
    "spares sid (snd (snd (close_session m c))) \<Longrightarrow> orphaned sid p path (fst (close_session m c))"
    using o drop by (auto simp: sm_close_def close_session_def defs)
  show "spares sid (snd (snd (close_all m))) \<Longrightarrow> orphaned sid p path (fst (close_all m))"
    using orphaned_remove_each [OF o] by (simp add: close_all_def defs)
  show "spares sid (snd (snd (sweep m now))) \<Longrightarrow> orphaned sid p path (fst (sweep m now))"
    using orphaned_remove_each [OF orphaned_swept [OF o]] by (simp add: sweep_eq defs)
qed

lemma orphaned_bind:
  "orphaned sid p path m \<Longrightarrow> spares sid (snd (snd (bind_authenticated_connection m s now))) \<Longrightarrow>
    orphaned sid p path (fst (bind_authenticated_connection m s now))"
  using orphaned_drop [of sid p path m s RExpired]
  by (auto simp: bind_authenticated_connection_def Let_def case_prod_beta split: option.splits if_splits)

lemma orphaned_commit_and_bind:
  assumes ok: "sm_ok m" and o: "orphaned sid p path m"
    and s: "spares sid (snd (snd (commit_admission_and_bind m r now)))"
  shows "orphaned sid p path (fst (commit_admission_and_bind m r now))"
proof -
  have "orphaned sid p path (fst (drop_session (ads_session_id r) RClosed
      (connection_counted (opened m r session now))))"
    if "map_of (sm_admissions m) (ads_session_id r) = Some r" for session
    using orphaned_opened(1) [OF ok o that, where session = session and now = "now"] orphaned_opened(2) [OF ok o that]
    by (intro orphaned_drop) (auto simp: drop_session_eq removal_of_def split: option.split)
  then show ?thesis
    using o s orphaned_opened(1) [OF ok o] orphaned_bind [OF o]
    by (auto simp: commit_and_bind_eq Let_def split: sum.split if_splits)
qed

lemma orphaned_commit_attach:
  assumes ok: "sm_ok m" and o: "orphaned sid p path m"
  shows "orphaned sid p path (fst (sm_commit_attach m r))"
proof (cases "map_option pc_reservation (map_of (sm_pending m) (ar_connection_id (gr_reservation r))) = Some r")
  case False
  then show ?thesis using orphaned_drop_pending [OF o] by (simp add: sm_commit_attach_def Let_def)
next
  case True
  then obtain q where q: "map_of (sm_pending m) (ar_connection_id (gr_reservation r)) = Some q" "pc_reservation q = r"
    by blast
  then have r: "\<not> claims sid p r" using o map_of_SomeD [OF q(1)] by (auto simp: orphaned_def)
  have path: "pe_reserved path" using o by (simp add: orphaned_def)
  have one: "gr_session_id r = sid \<Longrightarrow> leaves p path (ms_session ms) (fst (commit_attach (ms_session ms) (gr_reservation r)))" for ms
    using r by (intro leaves_steps) (auto simp: claims_def)
  then have two: "gr_session_id r = sid \<Longrightarrow>
      leaves p path (ms_session ms) (fst (set_path_state (fst (commit_attach (ms_session ms) (gr_reservation r))) i st))"
    for ms i st using leaves_trans leaves_steps(3) [OF path] by metis
  from one two show ?thesis
    by (auto simp: sm_commit_attach_def Let_def case_prod_beta orphaned_drop_pending [OF o]
        intro!: orphaned_put split: option.split sum.split)
qed

lemma orphaned_reserve_attach:
  assumes ok: "sm_ok m" and o: "orphaned sid p path m"
  shows "orphaned sid p path (fst (sm_reserve_attach m conn e k now))"
proof -
  let ?n = "prune_overdue_attaches now m" and ?c = "ac_connection_id conn" and ?s = "ac_session_id conn"
  have n: "sm_ok ?n" by (rule sm_ok_prune [OF ok])
  have on: "orphaned sid p path ?n" by (rule orphaned_prune [OF o])
  show ?thesis
  proof (cases "authenticated ?n conn \<and> ?c \<notin> keys (sm_connections ?n) \<and> ?c \<notin> keys (sm_pending ?n) \<and>
      length (sm_pending ?n) < mc_maximum_pending_attaches (sm_config ?n) \<and> map_of (sm_sessions ?n) ?s \<noteq> None")
    case False
    then show ?thesis using on by (auto simp: sm_reserve_attach_def Let_def split: option.split)
  next
    case True
    then obtain ms where ms: "map_of (sm_sessions ?n) ?s = Some ms" by blast
    obtain session res where r: "reserve_attach (ms_session ms) ?c e k now = (session, res)" by fastforce
    have lok: "lifecycle_ok (ms_session ms)"
      using sm_okD(2) [OF n ms] by (simp add: session_ok_def lc_reachable_ok)
    have put: "orphaned sid p path (put_session ?s (ms\<lparr>ms_session := session\<rparr>) ?n)"
      by (rule orphaned_put [OF on ms]) (use leaves_reserve(1) [OF lok r] in simp)
    have "\<not> claims sid p \<lparr>gr_session_id = ?s, gr_reservation = rv\<rparr>" if "res = Inr rv" for rv
      using leaves_reserve(2) [OF lok r _ that, of p path] on ms by (auto simp: claims_def orphaned_def path_at_def)
    moreover have "hm_ok (sm_pending ?n)" using sm_okD(1) [OF n] by (simp add: sm_tables_def)
    moreover have "sm_pending (put_session ?s x ?n) = sm_pending ?n" for x by (simp add: put_session_def)
    ultimately have "orphaned sid p path ((put_session ?s (ms\<lparr>ms_session := session\<rparr>) ?n)\<lparr>sm_pending :=
        hm_insert ?c \<lparr>pc_reservation = \<lparr>gr_session_id = ?s, gr_reservation = rv\<rparr>, pc_expires_at_ms = x\<rparr> (sm_pending ?n)\<rparr>)"
      if "res = Inr rv" for rv x
      using put that by (auto simp: orphaned_def hm.set_ins)
    with put True ms r show ?thesis by (auto simp: sm_reserve_attach_def Let_def put_session_def split: sum.split)
  qed
qed

lemma orphaned_exec:
  assumes ok: "sm_ok m" and o: "orphaned sid p path m" and s: "spares sid (snd (snd (sm_exec m e)))"
  shows "orphaned sid p path (fst (sm_exec m e))"
proof -
  have removals: "snd (snd (of_managed f r)) = snd (snd r)" for f :: "'a \<Rightarrow> manager_outcome" and r
    by (simp add: of_managed_def split: prod.split sum.split)
  show ?thesis
    using s o by (cases e) (simp_all add: removals orphaned_steps [OF ok o] orphaned_bind orphaned_commit_and_bind [OF ok o]
        orphaned_reserve_attach [OF ok o] orphaned_commit_attach [OF ok o])
qed

lemma orphaned_trace:
  "trace sm_exec m tr u \<Longrightarrow> sm_ok m \<Longrightarrow> length tr \<le> ids_left m \<Longrightarrow> orphaned sid p path m \<Longrightarrow>
    \<forall>(e, out, removals) \<in> set tr. spares sid removals \<Longrightarrow> orphaned sid p path u"
proof (induction rule: trace.induct)
  case (go m e m' out tr u)
  have left: "0 < ids_left m" using go.prems(2) by simp
  have "sm_ok m'" by (rule manager.until_exec [OF go.prems(1) left go.hyps(1)])
  moreover have "length tr \<le> ids_left m'"
    using manager.left_exec [OF go.prems(1) left go.hyps(1)] go.prems(2) by simp
  moreover have "orphaned sid p path m'"
    using orphaned_exec [OF go.prems(1,3), of e] go.hyps(1) go.prems(4) by (auto simp: split_def)
  ultimately show ?case using go.IH go.prems(4) by simp
qed

text \<open>What an orphaned path denies: the attaches of its connection to its session, and its commit.\<close>

lemma orphaned_refuses:
  assumes ok: "sm_ok m" and o: "orphaned sid p path m"
    and c: "ac_session_id conn = sid" "ac_connection_id conn = pb_connection_id (pe_binding path)"
  shows "\<exists>err. fst (snd (sm_reserve_attach m conn e k now)) = Inl err"
proof -
  let ?n = "prune_overdue_attaches now m"
  have n: "sm_ok ?n" and on: "orphaned sid p path ?n" by (rule sm_ok_prune [OF ok], rule orphaned_prune [OF o])
  obtain ms where ms: "map_of (sm_sessions ?n) sid = Some ms" and path: "map_of (vs_paths (ms_session ms)) p = Some path"
    using on by (auto simp: orphaned_def path_at_def split: option.splits)
  obtain session res where r: "reserve_attach (ms_session ms) (ac_connection_id conn) e k now = (session, res)" by fastforce
  have "lifecycle_ok (ms_session ms)" using sm_okD(2) [OF n ms] by (simp add: session_ok_def lc_reachable_ok)
  from this r have "\<exists>err. res = Inl err"
    by (cases rule: reserve_effect) (use c map_of_SomeD [OF path] in auto)
  then show ?thesis using ms c(1) r by (auto simp: sm_reserve_attach_def Let_def)
qed

lemma orphaned_uncommittable:
  assumes "orphaned sid p path m" and "claims sid p r"
  shows "fst (snd (sm_commit_attach m r)) = Inl MUnknownAttach"
proof -
  have "map_option pc_reservation (map_of (sm_pending m) (ar_connection_id (gr_reservation r))) \<noteq> Some r"
    using assms by (auto simp: orphaned_def dest: map_of_SomeD)
  then show ?thesis by (simp add: sm_commit_attach_def Let_def)
qed

text \<open>A commit of another reservation of the connection orphans the path of the pending one.\<close>

lemma stale_commit_orphans:
  assumes ok: "sm_ok m" and q: "map_of (sm_pending m) c = Some q"
    and stale: "ar_connection_id (gr_reservation r) = c" "r \<noteq> pc_reservation q"
    and at: "gr_session_id (pc_reservation q) = sid" "ar_path_id (gr_reservation (pc_reservation q)) = p"
  obtains path where "sm_commit_attach m r = (m\<lparr>sm_pending := kt_remove c (sm_pending m)\<rparr>, Inl MUnknownAttach, [])"
    and "orphaned sid p path (m\<lparr>sm_pending := kt_remove c (sm_pending m)\<rparr>)"
    and "pb_connection_id (pe_binding path) = c" and "pb_state (pe_binding path) = PConnecting"
proof -
  obtain ms path where ms: "map_of (sm_sessions m) sid = Some ms"
    and path: "map_of (vs_paths (ms_session ms)) p = Some path" "reservation_matches path (gr_reservation (pc_reservation q))"
    and c: "ar_connection_id (gr_reservation (pc_reservation q)) = c"
    using pending_held [OF ok q] unfolding at by metis
  have only: "d = c" if d: "(d, q') \<in> set (sm_pending m)" "claims sid p (pc_reservation q')" for d q'
  proof -
    have "map_of (sm_pending m) d = Some q'"
      using d(1) sm_okD(1) [OF ok] by (simp add: sm_tables_def map_of_in_set hm.ok_distinct)
    from linksD(4,5) [OF sm_okD(3) [OF ok] this] d(2) ms path(1)
    have "reservation_matches path (gr_reservation (pc_reservation q'))"
      "ar_connection_id (gr_reservation (pc_reservation q')) = d"
      by (auto simp: claims_def path_at_def)
    with path(2) c show ?thesis by (simp add: reservation_matches_def)
  qed
  have "lifecycle_ok (ms_session ms)" using sm_okD(2) [OF ok ms] by (simp add: session_ok_def lc_reachable_ok)
  from lifecycle_entry [OF this path(1)] path(2) have "pb_state (pe_binding path) = PConnecting"
    by (simp add: binding_ok_def reservation_matches_def Let_def)
  moreover have "orphaned sid p path (m\<lparr>sm_pending := kt_remove c (sm_pending m)\<rparr>)"
    using ms path only by (auto simp: orphaned_def path_at_def reservation_matches_def set_kt_remove)
  moreover have "sm_commit_attach m r = (m\<lparr>sm_pending := kt_remove c (sm_pending m)\<rparr>, Inl MUnknownAttach, [])"
    using q stale by (simp add: sm_commit_attach_def Let_def)
  ultimately show ?thesis using that path(2) c by (simp add: reservation_matches_def)
qed

end
