(* ===== verification/SessionsProps.thy ===== *)
theory SessionsProps
  imports SessionsPaths
begin

text \<open>
  What the session manager guarantees: exactly which datagrams pass the ingress check, that a
  session's removal is reported once and leaves nothing behind, that a revoked capability is
  dead for good, what a sweep leaves, the bounds of the tables, and a stale commit that strands
  a path.
\<close>

section \<open>Ingress\<close>

text \<open>
  The authenticated connection owns a healthy path of a live session, and the header names that
  session, that path and its epochs. Stated on the sessions, not on the connection table the
  check looks into.
\<close>

definition entitled :: "manager \<Rightarrow> authenticated_connection \<Rightarrow> v2_header \<Rightarrow> u64 \<Rightarrow> bool" where
  "entitled m conn header now \<longleftrightarrow> vh_direction header = ClientToGateway \<and> authenticated m conn \<and>
     vh_session_id header = ac_session_id conn \<and>
     (\<exists>ms path. map_of (sm_sessions m) (vh_session_id header) = Some ms \<and>
        vs_state (ms_session ms) = SActive \<and> \<not> vs_is_expired (ms_session ms) now \<and>
        \<not> idle_since m ms now \<and> vs_path (ms_session ms) (vh_path_id header) = Some path \<and>
        pb_connection_id path = ac_connection_id conn \<and> pb_path_epoch path = vh_path_epoch header \<and>
        pb_key_epoch path = vh_key_epoch header \<and> pb_state path = PHealthy)"

lemma connection_iff:
  assumes ok: "sm_ok m"
  shows "map_of (sm_connections m) c = Some (sid, p, e, k) \<longleftrightarrow>
    (\<exists>ms path. map_of (sm_sessions m) sid = Some ms \<and> vs_path (ms_session ms) p = Some path \<and>
       pb_connection_id path = c \<and> pb_path_epoch path = e \<and> pb_key_epoch path = k \<and> pb_state path = PHealthy)"
    (is "?l \<longleftrightarrow> ?r")
proof
  assume ?l
  then obtain ms path where "map_of (sm_sessions m) sid = Some ms"
    "map_of (vs_paths (ms_session ms)) p = Some path" "committed_as path c e k" "pb_state (pe_binding path) = PHealthy"
    using connection_held [OF ok] by metis
  then show ?r by (auto simp: vs_path_def committed_as_def)
next
  assume ?r
  then obtain ms path where ms: "map_of (sm_sessions m) sid = Some ms"
    and path: "map_of (vs_paths (ms_session ms)) p = Some path" "pb_connection_id (pe_binding path) = c"
      "pb_path_epoch (pe_binding path) = e" "pb_key_epoch (pe_binding path) = k" "pb_state (pe_binding path) = PHealthy"
    by (auto simp: vs_path_def)
  have "binding_ok (ms_session ms) p path"
    using lifecycle_entry [OF lc_reachable_ok path(1)] sm_okD(2) [OF ok ms] by (simp add: session_ok_def)
  then have "\<not> pe_reserved path" using path(5) by (simp add: binding_ok_def Let_def)
  then show ?l using linksD(1) [OF sm_okD(3) [OF ok]] ms path by (auto simp: path_at_def committed_as_def)
qed

lemma connection_session:
  assumes "sm_ok m" and "authenticated m conn" and "map_of (sm_connections m) (ac_connection_id conn) = Some (sid, x)"
  shows "sid = ac_session_id conn"
  using capsD(3) [OF sm_okD(4) [OF assms(1)]] assms(2,3) unfolding authenticated_def by fastforce

definition ingress_of :: "v2_header \<Rightarrow> validated_ingress" where
  "ingress_of header = \<lparr>vi_session_id = vh_session_id header, vi_path_id = vh_path_id header,
     vi_path_epoch = vh_path_epoch header, vi_key_epoch = vh_key_epoch header\<rparr>"

lemma ingress_accepted:
  assumes ok: "sm_ok m" and e: "entitled m conn (ve_header env) now"
  obtains ms where "map_of (sm_sessions m) (ac_session_id conn) = Some ms"
    and "validate_ingress m conn env now =
      (put_session (ac_session_id conn) (ms\<lparr>ms_last_activity_ms := now\<rparr>) m, Inr (ingress_of (ve_header env)), [])"
proof -
  let ?h = "ve_header env"
  obtain ms path where ms: "map_of (sm_sessions m) (vh_session_id ?h) = Some ms"
    and live: "vs_state (ms_session ms) = SActive" "\<not> vs_is_expired (ms_session ms) now" "\<not> idle_since m ms now"
    and path: "vs_path (ms_session ms) (vh_path_id ?h) = Some path" "pb_connection_id path = ac_connection_id conn"
      "pb_path_epoch path = vh_path_epoch ?h" "pb_key_epoch path = vh_key_epoch ?h" "pb_state path = PHealthy"
    and other: "vh_direction ?h = ClientToGateway" "authenticated m conn" "vh_session_id ?h = ac_session_id conn"
    using e unfolding entitled_def by blast
  have "map_of (sm_connections m) (ac_connection_id conn) =
      Some (vh_session_id ?h, vh_path_id ?h, vh_path_epoch ?h, vh_key_epoch ?h)"
    using connection_iff [OF ok] ms path by blast
  then have "validate_ingress m conn env now =
      (put_session (ac_session_id conn) (ms\<lparr>ms_last_activity_ms := now\<rparr>) m, Inr (ingress_of ?h), [])"
    using ms live path(1,5) other
    by (simp add: validate_ingress_def Let_def path_not_healthy_def ingress_of_def)
  then show ?thesis using that ms other(3) by simp
qed

lemma ingress_refused:
  assumes ok: "sm_ok m" and e: "\<not> entitled m conn (ve_header env) now"
  shows "\<exists>m' err removals. validate_ingress m conn env now = (m', Inl err, removals) \<and>
    (err = MExpired \<or> err = MIdle \<or> m' = m \<and> removals = [])"
proof (cases "vh_direction (ve_header env) = ClientToGateway \<and> authenticated m conn")
  case False
  then show ?thesis by (auto simp: validate_ingress_def Let_def)
next
  case auth: True
  show ?thesis
  proof (cases "map_of (sm_connections m) (ac_connection_id conn)")
    case None
    then show ?thesis using auth by (simp add: validate_ingress_def Let_def)
  next
    case (Some owner)
    obtain sid p pe ke where owner: "owner = (sid, p, pe, ke)" by (cases owner)
    have sid: "sid = ac_session_id conn" using connection_session [OF ok] auth Some owner by blast
    obtain ms path where ms: "map_of (sm_sessions m) sid = Some ms" and path: "vs_path (ms_session ms) p = Some path"
      "pb_connection_id path = ac_connection_id conn" "pb_path_epoch path = pe" "pb_key_epoch path = ke"
      "pb_state path = PHealthy"
      using connection_iff [OF ok] Some owner by blast
    have "\<not> (vh_session_id (ve_header env) = sid \<and> vh_path_id (ve_header env) = p \<and>
        vh_path_epoch (ve_header env) = pe \<and> vh_key_epoch (ve_header env) = ke \<and>
        \<not> vs_is_expired (ms_session ms) now \<and> \<not> idle_since m ms now \<and> vs_state (ms_session ms) = SActive)"
      using e auth sid ms path unfolding entitled_def by blast
    then show ?thesis using auth Some owner ms
      by (auto simp: validate_ingress_def Let_def case_prod_beta)
  qed
qed

text \<open>C8. The ingress check is exact: a datagram passes if and only if it travels from a client,
  its authenticated connection owns the healthy path its header names, in the session the
  connection was admitted to, under exactly the epochs of the header, and that session is
  active, unexpired and not idle. A pass reports the routing fields of the header and only
  renews the session's activity; a refusal changes nothing, unless it finds the session expired
  or idle.\<close>

theorem ingress_exact:
  assumes "sm_reachable n m"
  shows "case validate_ingress m conn env now of
      (m', Inr v, removals) \<Rightarrow> entitled m conn (ve_header env) now \<and> v = ingress_of (ve_header env) \<and>
        removals = [] \<and> (\<exists>ms. map_of (sm_sessions m) (ac_session_id conn) = Some ms \<and>
          m' = put_session (ac_session_id conn) (ms\<lparr>ms_last_activity_ms := now\<rparr>) m)
    | (m', Inl err, removals) \<Rightarrow> \<not> entitled m conn (ve_header env) now \<and>
        (err = MExpired \<or> err = MIdle \<or> m' = m \<and> removals = [])"
proof (cases "entitled m conn (ve_header env) now")
  case True
  then obtain ms where ms: "map_of (sm_sessions m) (ac_session_id conn) = Some ms"
    and v: "validate_ingress m conn env now =
      (put_session (ac_session_id conn) (ms\<lparr>ms_last_activity_ms := now\<rparr>) m, Inr (ingress_of (ve_header env)), [])"
    by (rule ingress_accepted [OF sm_reachable_ok(1) [OF assms]])
  show ?thesis unfolding v using True ms by simp
next
  case False
  then obtain m' err removals where v: "validate_ingress m conn env now = (m', Inl err, removals)"
    and "err = MExpired \<or> err = MIdle \<or> m' = m \<and> removals = []"
    using ingress_refused [OF sm_reachable_ok(1) [OF assms]] by blast
  then show ?thesis using False by simp
qed

section \<open>Removal\<close>

text \<open>The sessions an outcome reports as opened, and the removals it hands to the cleanup hooks.\<close>

fun opens :: "session_id \<Rightarrow> manager_event \<times> manager_outcome \<times> session_removal list \<Rightarrow> nat" where
  "opens sid (CommitAdmission r now, MDone, _) = of_bool (ads_creates_session r \<and> ads_session_id r = sid)"
| "opens sid (CommitAndBind r now, MConnection c, _) = of_bool (ads_creates_session r \<and> ads_session_id r = sid)"
| "opens sid (CommitAndBind r now, MFailed MConnectionCapacity, _) =
     of_bool (ads_creates_session r \<and> ads_session_id r = sid)"
| "opens sid _ = 0"

fun removes :: "session_id \<Rightarrow> manager_event \<times> manager_outcome \<times> session_removal list \<Rightarrow> nat" where
  "removes sid (_, _, removals) = length (filter (\<lambda>r. rm_session_id r = sid) removals)"

definition present :: "session_id \<Rightarrow> manager \<Rightarrow> nat" where
  "present sid m = of_bool (sid \<in> keys (sm_sessions m))"

lemma present_cong: "map fst (sm_sessions m') = map fst (sm_sessions m) \<Longrightarrow> present sid m' = present sid m"
  unfolding present_def by (metis set_map)

lemma present_put [simp]: "map_of (sm_sessions m) s = Some ms \<Longrightarrow> present sid (put_session s ms' m) = present sid m"
  by (rule present_cong) (simp add: put_session_def hm_insert_present keys_Some)

lemma present_frame [simp]:
  "present sid (m\<lparr>sm_admissions := as\<rparr>) = present sid m"
  "present sid (m\<lparr>sm_connections := cs\<rparr>) = present sid m"
  "present sid (m\<lparr>sm_pending := ps\<rparr>) = present sid m"
  "present sid (m\<lparr>sm_authenticated := au\<rparr>) = present sid m"
  "present sid (m\<lparr>sm_metrics := mm\<rparr>) = present sid m"
  "present sid (m\<lparr>sm_next_connection_id := i\<rparr>) = present sid m"
  by (simp_all add: present_def)

lemma present_lose: "present sid (lose s m) = (if s = sid then 0 else present sid m)"
  by (auto simp: present_def lose_def set_kt_remove image_iff)

lemma present_Some: "map_of (sm_sessions m) sid = Some ms \<Longrightarrow> present sid m = 1"
  by (simp add: present_def keys_Some)

lemma present_drop:
  "present sid m = present sid (fst (drop_session s reason m)) +
    length (filter (\<lambda>r. rm_session_id r = sid) (snd (drop_session s reason m)))"
  by (auto simp: drop_session_eq record_removal_def present_lose removal_of_def present_Some split: option.split)

lemma present_remove_each:
  "present sid m = present sid (fst (remove_each chosen m)) +
    length (filter (\<lambda>r. rm_session_id r = sid) (snd (remove_each chosen m)))"
proof (induction chosen m rule: remove_each.induct)
  case (2 s reason chosen m)
  show ?case
  proof (cases "map_of (sm_sessions m) s")
    case None
    then have r: "remove_session s reason m = (m, None)" by (simp add: remove_session_eq)
    from 2 [OF r [symmetric]] show ?thesis by (simp add: r case_prod_beta)
  next
    case (Some ms)
    have "present sid m = present sid (lose s m) + of_bool (s = sid)"
      using Some by (auto simp: present_lose present_Some)
    moreover have r: "remove_session s reason m = (lose s m, Some (removal_of s reason ms))"
      using Some by (simp add: remove_session_eq)
    ultimately show ?thesis using 2 [OF r [symmetric]] by (simp add: r case_prod_beta removal_of_def)
  qed
qed simp

lemma present_record_each [simp]: "present sid (record_each removals m) = present sid m"
  using record_each_frame [of removals m] by auto

lemma present_prune [simp]: "present sid (prune_overdue_attaches now m) = present sid m"
  by (rule present_cong) (simp add: pending_prune_frame)

lemma present_swept [simp]: "present sid (swept m now) = present sid m"
proof (rule trans [OF present_cong])
  show "map fst (sm_sessions (swept m now)) = map fst (sm_sessions m)"
    by (simp add: swept_def prune_sessions_def map_fst_map_prod_id pending_prune_frame)
qed simp

lemma present_opened:
  assumes ok: "sm_ok m" and r: "map_of (sm_admissions m) (ads_session_id r) = Some r"
  shows "present sid (opened m r session now) = present sid m + of_bool (ads_session_id r = sid)"
proof -
  have "keys (sm_sessions m) \<inter> keys (sm_admissions m) = {}" using sm_okD(1) [OF ok] by (simp add: sm_tables_def)
  then have "ads_session_id r \<notin> keys (sm_sessions m)" using keys_Some [OF r] by blast
  moreover have "keys (sm_sessions (opened m r session now)) = insert (ads_session_id r) (keys (sm_sessions m))"
    using sm_okD(1) [OF ok] by (simp add: opened_def hm.keys_ins sm_tables_def)
  ultimately show ?thesis unfolding present_def by auto
qed

lemma present_grant: "present sid (fst (grant_connection m s)) = present sid m"
  by (simp add: grant_connection_def next_connection_identity_def Let_def present_def)

definition balanced :: "session_id \<Rightarrow> manager \<Rightarrow> manager_event
    \<Rightarrow> manager \<times> manager_outcome \<times> session_removal list \<Rightarrow> bool" where
  "balanced sid m e r \<longleftrightarrow> present sid m + opens sid (e, snd r) = present sid (fst r) + removes sid (e, snd r)"

lemma balanced_quiet:
  assumes "\<And>out removals. opens sid (e, out, removals) = 0"
    and "present sid m = present sid (fst r) + length (filter (\<lambda>x. rm_session_id x = sid) (snd (snd r)))"
  shows "balanced sid m e (of_managed f r)"
  using assms by (cases r) (simp add: balanced_def of_managed_def split: sum.split)

lemma balanced_commit:
  assumes ok: "sm_ok m"
  shows "balanced sid m (CommitAdmission r now) (of_managed (\<lambda>_. MDone) (commit_admission m r now))"
proof (cases "ads_creates_session r \<and> map_of (sm_admissions m) (ads_session_id r) = Some r")
  case False
  then show ?thesis by (auto simp: balanced_def of_managed_def commit_admission_eq)
next
  case True
  then show ?thesis using present_opened [OF ok, of r sid]
    by (cases "admitted_session m r now") (simp_all add: balanced_def of_managed_def commit_admission_eq)
qed

lemma balanced_bind:
  "present sid m = present sid (fst (bind_authenticated_connection m s now)) +
    length (filter (\<lambda>x. rm_session_id x = sid) (snd (snd (bind_authenticated_connection m s now))))"
  using present_drop [of sid m s RExpired]
  by (simp add: bind_authenticated_connection_def connection_counted_def Let_def case_prod_beta present_grant
      split: option.split)

lemma admitted_session_error:
  assumes "admitted_session m r now = Inl err"
  shows "err \<noteq> MConnectionCapacity"
proof -
  have "map_lifecycle x \<noteq> MConnectionCapacity" for x by (cases x) simp_all
  moreover have "\<exists>x. err = map_lifecycle x"
    using assms unfolding admitted_session_def
    by (cases "v2_session_new \<lparr>sc_maximum_paths = mc_maximum_paths_per_session (sm_config m),
        sc_maximum_path_epoch_history = mc_maximum_path_epoch_history (sm_config m),
        sc_maximum_path_tombstones = mc_maximum_path_tombstones (sm_config m),
        sc_path_tombstone_ttl_ms = mc_path_tombstone_ttl_ms (sm_config m)\<rparr>
      \<lparr>ad_session_id = ads_session_id r, ad_device_id = ads_device_id r,
        ad_expires_at_ms = ads_expires_at_ms r\<rparr> now")
      (auto split: prod.splits sum.splits)
  ultimately show ?thesis by metis
qed

lemma balanced_commit_and_bind:
  assumes ok: "sm_ok m"
  shows "balanced sid m (CommitAndBind r now) (of_managed MConnection (commit_admission_and_bind m r now))"
proof (cases "ads_creates_session r")
  case False
  obtain m' res removals where b: "bind_authenticated_connection m (ads_session_id r) now = (m', res, removals)"
    by (cases "bind_authenticated_connection m (ads_session_id r) now") auto
  have "opens sid (CommitAndBind r now, out, x) = 0" for out x
    using False by (cases "(sid, CommitAndBind r now, out, x)" rule: opens.cases) simp_all
  then show ?thesis using False balanced_bind [of sid m "ads_session_id r" "now"]
    by (intro balanced_quiet) (simp_all add: commit_and_bind_eq)
next
  case creates: True
  show ?thesis
  proof (cases "map_of (sm_admissions m) (ads_session_id r) = Some r")
    case False
    then show ?thesis using creates by (simp add: balanced_def of_managed_def commit_and_bind_eq)
  next
    case True
    show ?thesis
    proof (cases "admitted_session m r now")
      case (Inl err)
      have "err \<noteq> MConnectionCapacity"
        by (rule admitted_session_error [OF Inl])
      then have "opens sid (CommitAndBind r now, MFailed err, x) = 0" for x by (cases err) simp_all
      then show ?thesis using creates True Inl by (simp add: balanced_def of_managed_def commit_and_bind_eq)
    next
      case (Inr session)
      let ?u = "opened m r session now" and ?s = "ads_session_id r"
      have u: "present sid ?u = present sid m + of_bool (?s = sid)" by (rule present_opened [OF ok True])
      have d: "present sid ?u = present sid (fst (drop_session ?s RClosed (connection_counted ?u))) +
          length (filter (\<lambda>x. rm_session_id x = sid) (snd (drop_session ?s RClosed (connection_counted ?u))))"
        using present_drop [of sid "connection_counted ?u" ?s RClosed] by (simp add: connection_counted_def)
      show ?thesis
        using creates True Inr u d
        by (simp add: balanced_def of_managed_def commit_and_bind_eq Let_def present_grant)
    qed
  qed
qed

text \<open>The other operations report exactly the sessions that go.\<close>

definition reported :: "session_id \<Rightarrow> manager \<Rightarrow> 'a managed \<Rightarrow> bool" where
  "reported sid m r \<longleftrightarrow> present sid m = present sid (fst r) +
     length (filter (\<lambda>x. rm_session_id x = sid) (snd (snd r)))"

lemma reported_cases:
  "present sid m' = present sid m \<Longrightarrow> reported sid m (m', res, [])"
  "reported sid m (fst (drop_session s reason m), res, snd (drop_session s reason m))"
  by (simp_all add: reported_def present_drop [symmetric])

lemma reported_admission: "reported sid m (reserve_admission m s did oid ex now)"
proof -
  obtain k removals where k: "(case map_of (sm_sessions m) s of
      Some ms \<Rightarrow> if vs_is_expired (ms_session ms) now then drop_session s RExpired m else (m, [])
    | None \<Rightarrow> (m, [])) = (k, removals)" by fastforce
  have p: "present sid m = present sid k + length (filter (\<lambda>x. rm_session_id x = sid) removals)"
    using present_drop [of sid m s RExpired] k by (auto split: option.splits if_splits)
  show ?thesis
    unfolding reserve_admission_def k Let_def prod.case
    by (auto simp: reported_def p admit_counted_def split: option.split)
qed

lemma reported_ops:
  "reported sid m (abort_admission m r)"
  "reported sid m (bind_authenticated_connection m s now)"
  "reported sid m (sm_reserve_attach m c pe k now)"
  "reported sid m (detach_connection m c p pe now)"
  "reported sid m (close_connection m c)"
  "reported sid m (validate_attached_path m c p pe k now)"
  "reported sid m (validate_ingress m c env now)"
  "reported sid m (record_authenticated_activity m c now)"
  "reported sid m (sm_begin_draining m s)"
  "reported sid m (sm_close m s)"
  "reported sid m (close_session m c)"
  "reported sid m (close_all m)"
  "reported sid m (sweep m now)"
  using balanced_bind [of sid m s "now"]
  by (auto simp: abort_admission_def sm_reserve_attach_def detach_connection_def close_connection_def
      validate_attached_path_def validate_ingress_def record_authenticated_activity_def sm_begin_draining_def
      sm_close_def close_session_def pending_counted_def Let_def case_prod_beta
      intro!: reported_cases split: option.split sum.split)
    (simp_all add: reported_def close_all_def sweep_eq Let_def case_prod_beta present_remove_each [symmetric])

lemma reported_commit_attach:
  assumes ok: "sm_ok m"
  shows "reported sid m (sm_commit_attach m r)"
  by (rule commit_attach_cases [OF ok, of r]) (auto intro!: reported_cases dest: present_cong [of _ _ sid])

lemma balanced_reported:
  assumes "\<And>out removals. opens sid (e, out, removals) = 0" and "reported sid m r"
  shows "balanced sid m e (of_managed f r)"
  using assms unfolding reported_def by (rule balanced_quiet)

lemma balanced_exec:
  assumes ok: "sm_ok m"
  shows "balanced sid m e (sm_exec m e)"
  by (cases e; simp only: sm_exec.simps;
      (rule balanced_commit [OF ok] balanced_commit_and_bind [OF ok]
        | (rule balanced_reported, simp,
           rule reported_ops reported_admission reported_commit_attach [OF ok])))

interpretation ownership: balances sm_exec sm_ok ids_left "present sid" "opens sid" "removes sid" for sid
proof
  fix m e m' out
  assume "sm_ok m" and "sm_exec m e = (m', out)"
  then show "present sid m + opens sid (e, out) = present sid m' + removes sid (e, out)"
    using balanced_exec [of m sid e] by (simp add: balanced_def)
qed

lemma nothing_left:
  assumes ok: "sm_ok m" and sid: "sid \<notin> keys (sm_sessions m)"
  shows "map_of (sm_connections m) c = Some owner \<Longrightarrow> fst owner \<noteq> sid"
    and "map_of (sm_pending m) c = Some q \<Longrightarrow> gr_session_id (pc_reservation q) \<noteq> sid"
    and "map_of (sm_authenticated m) c = Some s \<Longrightarrow> s \<noteq> sid"
proof -
  show "map_of (sm_connections m) c = Some owner \<Longrightarrow> fst owner \<noteq> sid"
    using connection_held [OF ok] sid keys_Some by (metis prod.collapse)
  show "map_of (sm_pending m) c = Some q \<Longrightarrow> gr_session_id (pc_reservation q) \<noteq> sid"
    using pending_held [OF ok] sid keys_Some by metis
  show "map_of (sm_authenticated m) c = Some s \<Longrightarrow> s \<noteq> sid"
    using sm_okD(1) [OF ok] sid unfolding sm_tables_def by blast
qed

text \<open>C28. A session is handed to the cleanup hooks exactly once: over any run from an empty
  manager, the removals reported for a session identifier are as many as the sessions opened
  under it, less one while such a session is still there. Once it is gone no connection, no
  pending attach and no capability refers to it.\<close>

theorem removed_exactly_once:
  assumes "manager_new config = Inr m0" and "mc_maximum_sessions config \<le> usize_max"
    and "trace sm_exec m0 tr m" and "length tr \<le> 2 ^ 64 - 2"
  shows "sum_list (map (opens sid) tr) = sum_list (map (removes sid) tr) + of_bool (sid \<in> keys (sm_sessions m)) \<and>
    (sid \<notin> keys (sm_sessions m) \<longrightarrow>
      (\<forall>c owner. map_of (sm_connections m) c = Some owner \<longrightarrow> fst owner \<noteq> sid) \<and>
      (\<forall>c q. map_of (sm_pending m) c = Some q \<longrightarrow> gr_session_id (pc_reservation q) \<noteq> sid) \<and>
      (\<forall>c s. map_of (sm_authenticated m) c = Some s \<longrightarrow> s \<noteq> sid))"
proof -
  have ok: "sm_ok m0" by (rule sm_ok_new [OF assms(1,2)])
  have new: "ids_left m0 = 2 ^ 64 - 2" "present sid m0 = 0"
    using assms(1) by (auto simp: manager_new_def ids_left_def present_def split: if_splits)
  have len: "length tr \<le> ids_left m0" using assms(4) by (simp add: new)
  have "sm_ok m" using manager.until_trace [OF assms(3) ok len] by simp
  moreover have "present sid m = of_bool (sid \<in> keys (sm_sessions m))" by (simp add: present_def)
  ultimately show ?thesis
    using ownership.balance_trace [OF assms(3) ok len, of sid] new(2) nothing_left [of m sid] by simp
qed

section \<open>Capabilities\<close>

text \<open>The capability an operation presents, and the answers that grant it nothing.\<close>

fun presents :: "manager_event \<Rightarrow> authenticated_connection option" where
  "presents (ReserveAttach c _ _ _) = Some c"
| "presents (DetachConnection c _ _ _) = Some c"
| "presents (CloseConnection c) = Some c"
| "presents (ValidatePath c _ _ _ _) = Some c"
| "presents (ValidateIngress c _ _) = Some c"
| "presents (RecordActivity c _) = Some c"
| "presents (CloseBySelf c) = Some c"
| "presents _ = None"

definition refused :: "manager_outcome \<times> session_removal list \<Rightarrow> bool" where
  "refused out \<longleftrightarrow> out = (MFailed MUnknownConnection, []) \<or> out = (MFailed MInvalidDirection, []) \<or>
     out = (MAnswer False, [])"

lemma authenticated_set:
  "sm_ok m \<Longrightarrow> authenticated m c \<longleftrightarrow> (ac_connection_id c, ac_session_id c) \<in> set (sm_authenticated m)"
  unfolding authenticated_def by (rule map_of_in_set) (simp add: sm_okD(1) [unfolded sm_tables_def] hm.ok_distinct)

text \<open>Operations only take capabilities away, or grant the next identifier.\<close>

definition auth_sub :: "manager \<Rightarrow> 'a managed \<Rightarrow> bool" where
  "auth_sub m r \<longleftrightarrow> set (sm_authenticated (fst r)) \<subseteq> set (sm_authenticated m) \<union> {sm_next_connection_id m} \<times> UNIV"

lemma drop_auth: "set (sm_authenticated (fst (drop_session s reason m))) \<subseteq> set (sm_authenticated m)"
  by (auto simp: drop_session_eq record_removal_def lose_def set_kt_retain split: option.split)

lemma auth_sub_cases:
  "sm_authenticated m' = sm_authenticated m \<Longrightarrow> auth_sub m (m', r, x)"
  "auth_sub m (fst (drop_session s reason m), r, x)"
  using drop_auth [of s reason m] by (auto simp: auth_sub_def)

lemma put_session_auth [simp]: "sm_authenticated (put_session s ms m) = sm_authenticated m"
  by (simp add: put_session_def)

lemma remove_each_auth:
  "set (sm_authenticated (fst (remove_each chosen m))) \<subseteq> set (sm_authenticated m)"
proof (induction chosen m rule: remove_each.induct)
  case (2 s reason chosen m)
  obtain k x where r: "remove_session s reason m = (k, x)" by fastforce
  then have "set (sm_authenticated k) \<subseteq> set (sm_authenticated m)"
    by (auto simp: remove_session_eq lose_def set_kt_retain split: option.splits)
  with 2 [OF r [symmetric]] show ?case by (auto simp: r case_prod_beta)
qed simp

lemma grant_auth:
  assumes ok: "sm_ok m"
  shows "set (sm_authenticated (fst (grant_connection m s))) \<subseteq>
    set (sm_authenticated m) \<union> {sm_next_connection_id m} \<times> UNIV"
  using sm_okD(1) [OF ok] by (auto simp: grant_eq [OF ok] sm_tables_def hm.set_ins)

lemma record_each_auth [simp]: "sm_authenticated (record_each removals m) = sm_authenticated m"
  using record_each_frame [of removals m] by auto

lemma auth_sub_admission: "auth_sub m (reserve_admission m s did oid ex now)"
proof -
  obtain k removals where k: "(case map_of (sm_sessions m) s of
      Some ms \<Rightarrow> if vs_is_expired (ms_session ms) now then drop_session s RExpired m else (m, [])
    | None \<Rightarrow> (m, [])) = (k, removals)" by fastforce
  have p: "set (sm_authenticated k) \<subseteq> set (sm_authenticated m)"
    using drop_auth [of s RExpired m] k by (auto split: option.splits if_splits)
  show ?thesis
    unfolding reserve_admission_def k Let_def prod.case
    using p by (auto simp: auth_sub_def admit_counted_def split: option.split)
qed

lemma auth_sub_bind: "sm_ok m \<Longrightarrow> auth_sub m (bind_authenticated_connection m s now)"
  using grant_auth [of m s] drop_auth [of s RExpired m]
  by (auto simp: bind_authenticated_connection_def connection_counted_def Let_def case_prod_beta auth_sub_def
      split: option.split)

lemma auth_sub_commit_and_bind:
  assumes ok: "sm_ok m"
  shows "auth_sub m (commit_admission_and_bind m r now)"
proof (cases "ads_creates_session r \<and> map_of (sm_admissions m) (ads_session_id r) = Some r")
  case False
  then show ?thesis using auth_sub_bind [OF ok] by (auto simp: commit_and_bind_eq intro: auth_sub_cases)
next
  case True
  show ?thesis
  proof (cases "admitted_session m r now")
    case (Inl e)
    then show ?thesis using True by (auto simp: commit_and_bind_eq intro: auth_sub_cases)
  next
    case (Inr session)
    have "sm_ok (opened m r session now)" using sm_ok_opened [OF ok _ Inr] True by blast
    from grant_auth [OF this, of "ads_session_id r"]
      drop_auth [of "ads_session_id r" RClosed "connection_counted (opened m r session now)"]
    show ?thesis using True Inr
      by (auto simp: commit_and_bind_eq Let_def auth_sub_def connection_counted_def)
  qed
qed

lemma auth_sub_close_connection: "auth_sub m (close_connection m c)"
proof -
  let ?au = "kt_remove (ac_connection_id c) (sm_authenticated m)"
  have "sm_authenticated (fst (close_connection m c)) = ?au"
    by (simp add: close_connection_def Let_def case_prod_beta split: option.split)
  then show ?thesis by (auto simp: auth_sub_def set_kt_remove)
qed

lemma auth_sub_ops:
  "auth_sub m (commit_admission m r now)"
  "auth_sub m (abort_admission m r)"
  "auth_sub m (sm_reserve_attach m c pe k now)"
  "auth_sub m (detach_connection m c p pe now)"
  "auth_sub m (validate_attached_path m c p pe k now)"
  "auth_sub m (validate_ingress m c env now)"
  "auth_sub m (record_authenticated_activity m c now)"
  "auth_sub m (sm_begin_draining m s)"
  "auth_sub m (sm_close m s)"
  "auth_sub m (close_session m c)"
  by (auto simp: commit_admission_eq abort_admission_def sm_reserve_attach_def detach_connection_def
      validate_attached_path_def validate_ingress_def record_authenticated_activity_def
      sm_begin_draining_def sm_close_def close_session_def pending_counted_def Let_def case_prod_beta
      pending_prune_frame intro!: auth_sub_cases split: option.split sum.split)

lemma auth_sub_sweeps: "auth_sub m (close_all m)" "auth_sub m (sweep m now)"
proof -
  have "sm_authenticated (swept m now) = sm_authenticated m"
    by (simp add: swept_def prune_sessions_def pending_prune_frame)
  then show "auth_sub m (close_all m)" "auth_sub m (sweep m now)"
    using remove_each_auth [of _ m] remove_each_auth [of _ "swept m now"]
    by (fastforce simp: auth_sub_def close_all_def sweep_eq Let_def case_prod_beta)+
qed

lemma auth_sub_commit_attach: "sm_ok m \<Longrightarrow> auth_sub m (sm_commit_attach m r)"
  by (rule commit_attach_cases [of m r]) (auto intro: auth_sub_cases)

lemma auth_sub_of_managed: "auth_sub m r \<Longrightarrow> sm_ok m \<Longrightarrow> set (sm_authenticated (fst (of_managed f r))) \<subseteq>
    set (sm_authenticated m) \<union> {sm_next_connection_id m} \<times> UNIV"
  by (simp add: auth_sub_def)

lemma auth_exec:
  assumes ok: "sm_ok m"
  shows "set (sm_authenticated (fst (sm_exec m e))) \<subseteq> set (sm_authenticated m) \<union> {sm_next_connection_id m} \<times> UNIV"
  by (cases e; simp only: sm_exec.simps;
      rule auth_sub_of_managed [OF _ ok];
      rule auth_sub_ops auth_sub_close_connection auth_sub_sweeps auth_sub_admission auth_sub_bind [OF ok]
        auth_sub_commit_and_bind [OF ok] auth_sub_commit_attach [OF ok])

text \<open>The capability was issued and has been taken back.\<close>

definition revoked :: "authenticated_connection \<Rightarrow> manager \<Rightarrow> bool" where
  "revoked c m \<longleftrightarrow> sm_ok m \<and> ac_connection_id c < sm_next_connection_id m \<and> \<not> authenticated m c"

lemma revoked_exec:
  assumes r: "revoked c m" and left: "0 < ids_left m"
  shows "revoked c (fst (sm_exec m e))"
proof -
  let ?m = "fst (sm_exec m e)"
  have ok: "sm_ok m" and issued: "ac_connection_id c < sm_next_connection_id m" and no: "\<not> authenticated m c"
    using r by (simp_all add: revoked_def)
  have ok': "sm_ok ?m" by (rule sm_ok_exec [OF ok left])
  have "sm_next_connection_id m < sm_next_connection_id m + 1"
    using word_inc_less [OF ids_left_room [OF left], of "sm_next_connection_id m"] by simp
  then have "ac_connection_id c < sm_next_connection_id ?m"
    using next_grants_exec [OF ok, of e] issued by (auto simp: next_grants_def)
  moreover have "\<not> authenticated ?m c"
    using auth_exec [OF ok, of e] no issued unfolding authenticated_set [OF ok] authenticated_set [OF ok'] by auto
  ultimately show ?thesis using ok' by (simp add: revoked_def)
qed

interpretation revocation: keeps_until sm_exec "revoked c" ids_left for c
proof
  fix m e m' out
  assume r: "revoked c m" and left: "0 < ids_left m" and e: "sm_exec m e = (m', out)"
  show "revoked c m'" using revoked_exec [OF r left, of e] by (simp add: e)
  show "ids_left m \<le> Suc (ids_left m')" using r manager.left_exec [OF _ left e] by (simp add: revoked_def)
qed

lemma unauthenticated_refused:
  assumes no: "\<not> authenticated m c" and e: "presents e = Some c"
  shows "refused (snd (sm_exec m e))"
proof -
  have prune: "\<not> authenticated (prune_overdue_attaches now m) c" for "now"
    using no by (simp add: authenticated_def pending_prune_frame)
  have close: "close_connection m c = (m\<lparr>sm_authenticated := kt_remove (ac_connection_id c) (sm_authenticated m)\<rparr>,
      Inr False, [])"
    using no by (simp add: close_connection_def authenticated_def Let_def)
  show ?thesis
    using e no prune
    by (cases e) (simp_all add: refused_def of_managed_def sm_reserve_attach_def detach_connection_def close
        validate_attached_path_def validate_ingress_def record_authenticated_activity_def close_session_def Let_def)
qed

text \<open>C29. A capability that was issued and taken back is dead for good: over any further
  operations it is never accepted again, and every operation that presents it is refused and
  reports no removal. Since identifiers are issued in increasing order no later connection can
  revive it.\<close>

theorem revoked_capability_dead:
  assumes "sm_reachable n m" and "trace sm_exec m tr u" and "length tr \<le> n"
    and "ac_connection_id c < sm_next_connection_id m" and "\<not> authenticated m c"
  shows "\<not> authenticated u c \<and> (\<forall>(e, out) \<in> set tr. presents e = Some c \<longrightarrow> refused out)"
proof -
  have r: "revoked c m" using assms sm_reachable_ok(1) by (simp add: revoked_def)
  have len: "length tr \<le> ids_left m" using assms(1,3) sm_reachable_ok(2) by fastforce
  have "revoked c u" using revocation.until_trace [OF assms(2) r len] by simp
  moreover have "refused out" if e: "(e, out) \<in> set tr" "presents e = Some c" for e out
  proof -
    obtain t t' where t: "revoked c t" "sm_exec t e = (t', out)"
      using revocation.until_member [OF assms(2) r len e(1)] by metis
    have "\<not> authenticated t c" using t(1) by (simp add: revoked_def)
    from unauthenticated_refused [OF this e(2)] show ?thesis by (simp add: t(2))
  qed
  ultimately show ?thesis by (auto simp: revoked_def)
qed

section \<open>Sweep\<close>

lemma remove_each_effect:
  "distinct (map fst chosen) \<Longrightarrow> (\<And>sid reason. (sid, reason) \<in> set chosen \<Longrightarrow> sid \<in> keys (sm_sessions m)) \<Longrightarrow>
    sm_sessions (fst (remove_each chosen m)) = filter (\<lambda>e. fst e \<notin> set (map fst chosen)) (sm_sessions m) \<and>
    set (sm_pending (fst (remove_each chosen m))) \<subseteq> set (sm_pending m) \<and>
    sm_admissions (fst (remove_each chosen m)) = sm_admissions m \<and>
    snd (remove_each chosen m) = map (\<lambda>(sid, reason). removal_of sid reason (the (map_of (sm_sessions m) sid))) chosen"
proof (induction chosen m rule: remove_each.induct)
  case (2 s reason chosen m)
  have "s \<in> keys (sm_sessions m)" using "2.prems"(2) [of s reason] by simp
  then obtain ms where ms: "map_of (sm_sessions m) s = Some ms"
    by (metis map_of_eq_None_iff not_None_eq)
  have r: "remove_session s reason m = (lose s m, Some (removal_of s reason ms))"
    using ms by (simp add: remove_session_eq)
  have notin: "s \<notin> set (map fst chosen)" using "2.prems"(1) by simp
  have "sid \<in> keys (sm_sessions (lose s m))" if "(sid, reason') \<in> set chosen" for sid reason'
  proof -
    have "sid \<in> keys (sm_sessions m)" using "2.prems"(2) that by auto
    moreover have "sid \<noteq> s" using notin that by force
    ultimately show ?thesis by (force simp: lose_def set_kt_remove)
  qed
  moreover have "distinct (map fst chosen)" using "2.prems"(1) by simp
  ultimately have ih: "sm_sessions (fst (remove_each chosen (lose s m))) =
      filter (\<lambda>e. fst e \<notin> set (map fst chosen)) (sm_sessions (lose s m))"
    "set (sm_pending (fst (remove_each chosen (lose s m)))) \<subseteq> set (sm_pending (lose s m))"
    "sm_admissions (fst (remove_each chosen (lose s m))) = sm_admissions (lose s m)"
    "snd (remove_each chosen (lose s m)) =
      map (\<lambda>(sid, reason). removal_of sid reason (the (map_of (sm_sessions (lose s m)) sid))) chosen"
    using "2.IH" [OF r [symmetric]] by simp_all
  have same: "map (\<lambda>(sid, reason). removal_of sid reason (the (map_of (sm_sessions (lose s m)) sid))) chosen =
      map (\<lambda>(sid, reason). removal_of sid reason (the (map_of (sm_sessions m) sid))) chosen"
    using notin by (force simp: lose_def map_of_remove)
  have sub: "set (sm_pending (lose s m)) \<subseteq> set (sm_pending m)" by (auto simp: lose_def set_kt_retain)
  have filt: "filter (\<lambda>e. fst e \<notin> set (map fst chosen)) (sm_sessions (lose s m)) =
      filter (\<lambda>e. fst e \<notin> set (map fst ((s, reason) # chosen))) (sm_sessions m)"
    by (auto simp: lose_def kt_remove_def intro!: filter_cong)
  show ?case
    using ih sub ms unfolding remove_each.simps r same filt
    by (auto simp: case_prod_beta Let_def lose_def)
qed simp

lemma due_entries:
  "(sid, reason) \<in> set (sessions_due m now) \<longleftrightarrow> (\<exists>ms. (sid, ms) \<in> set (sm_sessions m) \<and> removal_due m now ms = Some reason)"
  unfolding sessions_due_def List.map_filter_def by (force simp: image_iff)

lemma due_keys: "map fst (sessions_due m now) = map fst (filter (\<lambda>e. removal_due m now (snd e) \<noteq> None) (sm_sessions m))"
proof -
  have "map fst (List.map_filter (\<lambda>(sid, ms). map_option (Pair sid) (f ms)) xs) =
      map fst (filter (\<lambda>e. f (snd e) \<noteq> None) xs)" for f :: "managed_session \<Rightarrow> removal_reason option" and xs
    by (induction xs) (auto simp: List.map_filter_def)
  then show ?thesis by (simp add: sessions_due_def)
qed

lemma swept_facts:
  "sm_admissions (swept m now) = kt_retain (\<lambda>r. now < ads_expires_at_ms r) (sm_admissions m)"
  "sm_config (swept m now) = sm_config m"
  "map_option ident (map_of (sm_sessions (swept m now)) sid) = map_option ident (map_of (sm_sessions m) sid)"
  "(c, q) \<in> set (sm_pending (swept m now)) \<Longrightarrow> (c, q) \<in> set (sm_pending m) \<and> now < pc_expires_at_ms q"
proof -
  let ?m = "m\<lparr>sm_metrics := (sm_metrics m)\<lparr>mm_admissions_expired := mm_admissions_expired (sm_metrics m)
         + word_of_nat (length (sm_admissions m) - length (kt_retain (\<lambda>r. now < ads_expires_at_ms r) (sm_admissions m)))\<rparr>,
       sm_admissions := kt_retain (\<lambda>r. now < ads_expires_at_ms r) (sm_admissions m)\<rparr>"
  show "sm_admissions (swept m now) = kt_retain (\<lambda>r. now < ads_expires_at_ms r) (sm_admissions m)"
    and "sm_config (swept m now) = sm_config m"
    by (simp_all add: swept_def prune_sessions_def pending_prune_frame)
  have "map_option ident (map_of (sm_sessions (prune_sessions now k)) sid) = map_option ident (map_of (sm_sessions k) sid)" for k
    unfolding prune_sessions_def
    by (cases "map_of (sm_sessions k) sid") (simp_all add: map_of_map_prod_id ident_def)
  then show "map_option ident (map_of (sm_sessions (swept m now)) sid) = map_option ident (map_of (sm_sessions m) sid)"
    by (simp add: swept_def prune_overdue_attaches_def prune_each_ident)
  assume "(c, q) \<in> set (sm_pending (swept m now))"
  then have "(c, q) \<in> set (sm_pending (prune_overdue_attaches now ?m))"
    by (simp add: swept_def prune_sessions_def)
  then show "(c, q) \<in> set (sm_pending m) \<and> now < pc_expires_at_ms q"
    unfolding prune_overdue_attaches_def prune_each_frame by (force simp: image_iff not_le)
qed

lemma removal_due_ident:
  "ident ms' = ident ms \<Longrightarrow> sm_config m' = sm_config m \<Longrightarrow> removal_due m' now ms' = removal_due m now ms"
  "ident ms' = ident ms \<Longrightarrow> removal_of sid reason ms' = removal_of sid reason ms"
  by (simp_all add: ident_def removal_due_def vs_is_expired_def idle_since_def removal_of_def)

lemma swept_twin:
  "map_of (sm_sessions (swept m now)) sid = Some ms' \<Longrightarrow>
    \<exists>ms. map_of (sm_sessions m) sid = Some ms \<and> ident ms' = ident ms"
  "map_of (sm_sessions m) sid = Some ms \<Longrightarrow>
    \<exists>ms'. map_of (sm_sessions (swept m now)) sid = Some ms' \<and> ident ms' = ident ms"
  using swept_facts(3) [of m "now" sid]
  by (cases "map_of (sm_sessions (swept m now)) sid"; cases "map_of (sm_sessions m) sid"; simp)+

lemma due_swept:
  assumes ok: "sm_ok m"
  shows "(sid, reason) \<in> set (sessions_due (swept m now) now) \<longleftrightarrow>
    (\<exists>ms. map_of (sm_sessions m) sid = Some ms \<and> removal_due m now ms = Some reason)"
proof -
  let ?u = "swept m now"
  have "distinct (map fst (sm_sessions ?u))"
    using sm_okD(1) [OF sm_ok_swept [OF ok]] by (simp add: sm_tables_def hm_ok_def)
  then have "(sid, reason) \<in> set (sessions_due ?u now) \<longleftrightarrow>
      (\<exists>ms'. map_of (sm_sessions ?u) sid = Some ms' \<and> removal_due ?u now ms' = Some reason)"
    by (simp add: due_entries map_of_in_set)
  also have "\<dots> \<longleftrightarrow> (\<exists>ms. map_of (sm_sessions m) sid = Some ms \<and> removal_due m now ms = Some reason)"
    using swept_twin(1) [of m "now" sid] swept_twin(2) [of m sid _ "now"] removal_due_ident(1) [OF _ swept_facts(2) [of m "now"]] by metis
  finally show ?thesis .
qed

text \<open>What a sweep does, in terms of the sessions that are due.\<close>

lemma sweep_effect:
  assumes ok: "sm_ok m" and s: "sweep m now = (m', res, removals)"
  shows "res = Inr (length removals)"
    and "removals = map (\<lambda>(sid, reason). removal_of sid reason (the (map_of (sm_sessions (swept m now)) sid)))
      (sessions_due (swept m now) now)"
    and "map_of (sm_sessions m') sid =
      (if sid \<in> keys (sessions_due (swept m now) now) then None else map_of (sm_sessions (swept m now)) sid)"
    and "sm_admissions m' = sm_admissions (swept m now)" and "set (sm_pending m') \<subseteq> set (sm_pending (swept m now))"
proof -
  let ?u = "swept m now" and ?due = "sessions_due (swept m now) now"
  have d: "distinct (map fst (sm_sessions ?u))"
    using sm_okD(1) [OF sm_ok_swept [OF ok]] by (simp add: sm_tables_def hm_ok_def)
  obtain v rs where v: "remove_each ?due ?u = (v, rs)" by fastforce
  have m': "m' = record_each rs v" "res = Inr (length rs)" "removals = rs"
    using s by (auto simp: sweep_eq Let_def v)
  have same: "sm_sessions m' = sm_sessions v" "sm_pending m' = sm_pending v" "sm_admissions m' = sm_admissions v"
    using record_each_frame [of rs v] by (auto simp: m'(1))
  have dd: "distinct (map fst ?due)" using d by (simp add: due_keys distinct_map_filter)
  have sub: "sid \<in> keys (sm_sessions ?u)" if "(sid, reason) \<in> set ?due" for sid reason
    using that by (force simp: due_entries)
  note eff = remove_each_effect [OF dd sub, unfolded v fst_conv snd_conv]
  show "res = Inr (length removals)" by (simp add: m')
  show "removals = map (\<lambda>(sid, reason). removal_of sid reason (the (map_of (sm_sessions ?u) sid))) ?due"
    using eff by (simp add: m')
  show "map_of (sm_sessions m') sid = (if sid \<in> keys ?due then None else map_of (sm_sessions ?u) sid)"
    using eff by (simp add: same map_of_filter_outside)
  show "sm_admissions m' = sm_admissions ?u" and "set (sm_pending m') \<subseteq> set (sm_pending ?u)"
    using eff by (simp_all add: same)
qed

lemma sweep_removals:
  assumes ok: "sm_ok m" and s: "sweep m now = (m', res, removals)"
  shows "set removals = {removal_of sid reason ms |sid reason ms.
    map_of (sm_sessions m) sid = Some ms \<and> removal_due m now ms = Some reason}"
proof -
  let ?f = "\<lambda>sid reason. removal_of sid reason (the (map_of (sm_sessions (swept m now)) sid))"
  have f: "?f sid reason = removal_of sid reason ms" if here: "map_of (sm_sessions m) sid = Some ms" for sid reason ms
  proof -
    obtain ms' where ms': "map_of (sm_sessions (swept m now)) sid = Some ms'" "ident ms' = ident ms"
      using swept_twin(2) [OF here] by blast
    show ?thesis using removal_due_ident(2) [OF ms'(2)] by (simp add: ms'(1))
  qed
  have "x \<in> set removals \<longleftrightarrow> (\<exists>sid reason. (sid, reason) \<in> set (sessions_due (swept m now) now) \<and> x = ?f sid reason)" for x
    unfolding sweep_effect(2) [OF ok s] by force
  then have "x \<in> set removals \<longleftrightarrow> (\<exists>sid reason ms. map_of (sm_sessions m) sid = Some ms \<and>
      removal_due m now ms = Some reason \<and> x = ?f sid reason)" for x
    unfolding due_swept [OF ok] by blast
  then have "x \<in> set removals \<longleftrightarrow> (\<exists>sid reason ms. map_of (sm_sessions m) sid = Some ms \<and>
      removal_due m now ms = Some reason \<and> x = removal_of sid reason ms)" for x
    using f by metis
  then show ?thesis by blast
qed

lemma sweep_keeps:
  assumes ok: "sm_ok m" and s: "sweep m now = (m', res, removals)"
  shows "case map_of (sm_sessions m') sid of
      None \<Rightarrow> (\<forall>ms. map_of (sm_sessions m) sid = Some ms \<longrightarrow> removal_due m now ms \<noteq> None)
    | Some ms' \<Rightarrow> (\<exists>ms. map_of (sm_sessions m) sid = Some ms \<and> removal_due m now ms = None \<and> ident ms' = ident ms)"
proof -
  have gone: "sid \<in> keys (sessions_due (swept m now) now) \<longleftrightarrow>
      (\<exists>ms. map_of (sm_sessions m) sid = Some ms \<and> removal_due m now ms \<noteq> None)"
    using due_swept [OF ok, of sid _ "now"] by (force simp: image_iff)
  show ?thesis
  proof (cases "sid \<in> keys (sessions_due (swept m now) now)")
    case True
    then show ?thesis using gone by (auto simp: sweep_effect(3) [OF ok s])
  next
    case False
    then have keep: "\<And>ms. map_of (sm_sessions m) sid = Some ms \<Longrightarrow> removal_due m now ms = None"
      using gone by blast
    show ?thesis
    proof (cases "map_of (sm_sessions (swept m now)) sid")
      case None
      then show ?thesis using False swept_twin(2) [of m sid _ "now"] by (auto simp: sweep_effect(3) [OF ok s])
    next
      case (Some ms')
      then obtain ms where "map_of (sm_sessions m) sid = Some ms" "ident ms' = ident ms"
        using swept_twin(1) by blast
      then show ?thesis using Some False keep by (simp add: sweep_effect(3) [OF ok s])
    qed
  qed
qed

text \<open>A sweep is complete and takes nothing else: it removes and reports exactly the
  sessions that are expired or idle, each with its owner and reason, keeps every other session
  with its owner, its admission and its last activity, keeps exactly the admissions that have
  not expired, and leaves no overdue pending attach.\<close>

theorem sweep_complete:
  assumes "sm_reachable n m" and "sweep m now = (m', res, removals)"
  shows "res = Inr (length removals) \<and>
    set removals = {removal_of sid reason ms |sid reason ms.
      map_of (sm_sessions m) sid = Some ms \<and> removal_due m now ms = Some reason} \<and>
    (\<forall>sid. case map_of (sm_sessions m') sid of
        None \<Rightarrow> (\<forall>ms. map_of (sm_sessions m) sid = Some ms \<longrightarrow> removal_due m now ms \<noteq> None)
      | Some ms' \<Rightarrow> (\<exists>ms. map_of (sm_sessions m) sid = Some ms \<and> removal_due m now ms = None \<and> ident ms' = ident ms)) \<and>
    sm_admissions m' = kt_retain (\<lambda>r. now < ads_expires_at_ms r) (sm_admissions m) \<and>
    (\<forall>(c, q) \<in> set (sm_pending m'). (c, q) \<in> set (sm_pending m) \<and> now < pc_expires_at_ms q)"
proof -
  note ok = sm_reachable_ok(1) [OF assms(1)]
  have "(c, q) \<in> set (sm_pending m) \<and> now < pc_expires_at_ms q" if "(c, q) \<in> set (sm_pending m')" for c q
    using that sweep_effect(5) [OF ok assms(2)] by (intro swept_facts(4)) blast
  then show ?thesis
    using sweep_effect(1,4) [OF ok assms(2)] sweep_removals [OF ok assms(2)] sweep_keeps [OF ok assms(2)]
    by (simp add: swept_facts(1)) blast
qed

section \<open>A run\<close>

text \<open>One client is admitted to session 5, attaches a path and sends a datagram.\<close>

definition gw_config :: manager_config where
  "gw_config = \<lparr>mc_maximum_sessions = 4, mc_idle_ttl_ms = 1000, mc_maximum_paths_per_session = 2,
     mc_maximum_pending_attaches = 2, mc_pending_attach_ttl_ms = 50, mc_maximum_path_epoch_history = 2,
     mc_maximum_path_tombstones = 2, mc_path_tombstone_ttl_ms = 100\<rparr>"

definition gw_metrics :: manager_metrics where
  "gw_metrics = \<lparr>mm_admission_capacity_rejected = 0, mm_connection_capacity_rejected = 0,
     mm_pending_attach_capacity_rejected = 0, mm_admissions_expired = 0, mm_pending_attaches_expired = 0,
     mm_sessions_expired = 0, mm_sessions_idle = 0, mm_sessions_closed = 0\<rparr>"

definition gw_new :: manager where
  "gw_new = \<lparr>sm_config = gw_config, sm_sessions = [], sm_admissions = [], sm_connections = [],
     sm_pending = [], sm_authenticated = [], sm_next_connection_id = 1, sm_metrics = gw_metrics\<rparr>"

definition gw_reservation :: admission_reservation where
  "gw_reservation = \<lparr>ads_session_id = 5, ads_device_id = 6, ads_organization_id = 7,
     ads_expires_at_ms = 5000, ads_creates_session = True\<rparr>"

definition gw_session :: v2_session where
  "gw_session = \<lparr>vs_admission = \<lparr>ad_session_id = 5, ad_device_id = 6, ad_expires_at_ms = 5000\<rparr>,
     vs_state = SActive, vs_maximum_paths = 2, vs_paths = [], vs_next_path_id = 1, vs_path_epoch_history = [],
     vs_path_tombstones = [], vs_tombstone_order = [], vs_maximum_path_epoch_history = 2,
     vs_maximum_path_tombstones = 2, vs_path_tombstone_ttl_ms = 100, vs_tombstones_expired = 0,
     vs_tombstones_capacity_evicted = 0\<rparr>"

definition gw_connection :: authenticated_connection where
  "gw_connection = \<lparr>ac_session_id = 5, ac_connection_id = 1\<rparr>"

definition gw_path :: "path_id \<Rightarrow> u64 \<Rightarrow> u32 \<Rightarrow> bool \<Rightarrow> path_entry" where
  "gw_path p e k committed = \<lparr>pe_binding = \<lparr>pb_path_id = p, pb_path_epoch = e, pb_key_epoch = k,
     pb_connection_id = 1, pb_state = (if committed then PHealthy else PConnecting)\<rparr>, pe_reserved = \<not> committed\<rparr>"

definition gw_attach :: "path_id \<Rightarrow> u64 \<Rightarrow> u32 \<Rightarrow> gateway_reservation" where
  "gw_attach p e k = \<lparr>gr_session_id = 5, gr_reservation =
     \<lparr>ar_path_id = p, ar_path_epoch = e, ar_key_epoch = k, ar_connection_id = 1\<rparr>\<rparr>"

definition gw_admitted :: manager where
  "gw_admitted = gw_new\<lparr>sm_sessions := [(5, \<lparr>ms_session = gw_session, ms_organization_id = 7,
     ms_last_activity_ms = 10\<rparr>)], sm_authenticated := [(1, 5)], sm_next_connection_id := 2\<rparr>"

definition gw_reserved :: manager where
  "gw_reserved = gw_admitted\<lparr>sm_sessions := [(5, \<lparr>ms_session = gw_session\<lparr>vs_next_path_id := 2,
        vs_path_epoch_history := [(1, \<lparr>ep_path_epoch = 3, ep_key_epoch = 3\<rparr>)],
        vs_paths := [(1, gw_path 1 3 3 False)]\<rparr>, ms_organization_id = 7, ms_last_activity_ms = 10\<rparr>)],
     sm_pending := [(1, \<lparr>pc_reservation = gw_attach 1 3 3, pc_expires_at_ms = 70\<rparr>)]\<rparr>"

definition gw_attached :: manager where
  "gw_attached = gw_admitted\<lparr>sm_sessions := [(5, \<lparr>ms_session = gw_session\<lparr>vs_next_path_id := 2,
        vs_path_epoch_history := [(1, \<lparr>ep_path_epoch = 3, ep_key_epoch = 3\<rparr>)],
        vs_paths := [(1, gw_path 1 3 3 True)]\<rparr>, ms_organization_id = 7, ms_last_activity_ms = 10\<rparr>)],
     sm_connections := [(1, (5, 1, 3, 3))]\<rparr>"

lemmas gw_eval = Let_def gw_config_def gw_metrics_def gw_new_def gw_reservation_def gw_session_def
  gw_connection_def gw_path_def gw_attach_def of_managed_def hm_insert_def kt_remove_def sat_add_def
  sat_sub_def

lemma gw_start: "manager_new gw_config = Inr gw_new"
  by (simp add: manager_new_def gw_eval)

lemma gw_admission:
  "sm_exec gw_new (ReserveAdmission 5 6 7 5000 9) =
     (gw_new\<lparr>sm_admissions := [(5, gw_reservation)]\<rparr>, MAdmission gw_reservation, [])"
  by (simp add: reserve_admission_def gw_eval usize_add_def usize_max_def)

lemma gw_admit:
  "sm_exec (gw_new\<lparr>sm_admissions := [(5, gw_reservation)]\<rparr>) (CommitAndBind gw_reservation 10) =
     (gw_admitted, MConnection gw_connection, [])"
  by (simp add: gw_admitted_def commit_admission_and_bind_def admitted_session_def v2_session_new_def
      vs_activate_def vs_is_expired_def maximum_authenticated_connections_def usize_mul_def usize_max_def
      grant_connection_def next_connection_identity_def gw_eval)

lemma gw_reserve:
  "sm_exec gw_admitted (ReserveAttach gw_connection 3 3 20) = (gw_reserved, MReservation (gw_attach 1 3 3), [])"
  by (simp add: gw_reserved_def gw_admitted_def sm_reserve_attach_def prune_overdue_attaches_def authenticated_def
      reserve_attach_def prune_path_tombstones_def vs_is_expired_def allocate_path_id_def allocate_turns_numeral
      eligible_def next_id_def put_session_def gw_eval del: allocate_turns.simps)

lemma gw_commit:
  "\<exists>b. sm_exec gw_reserved (CommitAttach (gw_attach 1 3 3)) = (gw_attached, MBound b, [])"
  by (simp add: gw_reserved_def gw_attached_def gw_admitted_def sm_commit_attach_def commit_attach_def
      reservation_matches_def set_path_state_def put_session_def gw_eval)

lemma gw_trace:
  "\<exists>b. trace sm_exec gw_new
     [(ReserveAdmission 5 6 7 5000 9, MAdmission gw_reservation, []),
      (CommitAndBind gw_reservation 10, MConnection gw_connection, []),
      (ReserveAttach gw_connection 3 3 20, MReservation (gw_attach 1 3 3), []),
      (CommitAttach (gw_attach 1 3 3), MBound b, [])] gw_attached"
  using gw_commit by (auto simp: trace_Cons gw_admission gw_admit gw_reserve simp del: sm_exec.simps)

lemma gw_reachable: "sm_reachable 100 gw_attached" "sm_reachable 100 gw_admitted"
proof -
  note new = gw_start
  have few: "mc_maximum_sessions gw_config \<le> usize_max" by (simp add: gw_config_def usize_max_def)
  have "sm_reachable 110 gw_new"
    unfolding sm_reachable_def by (intro exI conjI, rule new, rule few, rule trace.stop) simp
  from sm_reachable_trace [OF this] gw_trace show "sm_reachable 100 gw_attached" by fastforce
  have "trace sm_exec gw_new
     [(ReserveAdmission 5 6 7 5000 9, MAdmission gw_reservation, []),
      (CommitAndBind gw_reservation 10, MConnection gw_connection, [])] gw_admitted"
    by (simp add: trace_Cons gw_admission gw_admit del: sm_exec.simps)
  from sm_reachable_trace [OF \<open>sm_reachable 110 gw_new\<close> this] show "sm_reachable 100 gw_admitted" by simp
qed

definition gw_envelope :: v2_envelope where
  "gw_envelope = \<lparr>ve_header = \<lparr>vh_traffic_class = Bulk, vh_direction = ClientToGateway, vh_session_id = 5,
     vh_path_id = 1, vh_path_epoch = 3, vh_key_epoch = 3, vh_flow_id = 8, vh_packet_id = 2\<rparr>, ve_payload = [4, 5]\<rparr>"

lemma gw_attached_session: "map_of (sm_sessions gw_attached) 5 = Some \<lparr>ms_session = gw_session\<lparr>vs_next_path_id := 2,
        vs_path_epoch_history := [(1, \<lparr>ep_path_epoch = 3, ep_key_epoch = 3\<rparr>)],
        vs_paths := [(1, gw_path 1 3 3 True)]\<rparr>, ms_organization_id = 7, ms_last_activity_ms = 10\<rparr>"
  by (simp add: gw_attached_def gw_admitted_def)

theorem ingress_exact_witness:
  "\<exists>m'. validate_ingress gw_attached gw_connection gw_envelope 30 = (m', Inr (ingress_of (ve_header gw_envelope)), []) \<and>
     entitled gw_attached gw_connection (ve_header gw_envelope) 30"
proof -
  have "validate_ingress gw_attached gw_connection gw_envelope 30 =
      (fst (validate_ingress gw_attached gw_connection gw_envelope 30), Inr (ingress_of (ve_header gw_envelope)), [])"
    by (simp add: validate_ingress_def gw_envelope_def authenticated_def gw_attached_def gw_admitted_def
        vs_is_expired_def idle_since_def path_not_healthy_def vs_path_def ingress_of_def gw_eval)
  then obtain m' where v: "validate_ingress gw_attached gw_connection gw_envelope 30 =
      (m', Inr (ingress_of (ve_header gw_envelope)), [])" by blast
  from ingress_exact [OF gw_reachable(1), of gw_connection gw_envelope 30, unfolded v] v
  show ?thesis by simp
qed

theorem removed_exactly_once_witness:
  "\<exists>b. sum_list (map (opens 5) [(ReserveAdmission 5 6 7 5000 9, MAdmission gw_reservation, []),
      (CommitAndBind gw_reservation 10, MConnection gw_connection, []),
      (ReserveAttach gw_connection 3 3 20, MReservation (gw_attach 1 3 3), []),
      (CommitAttach (gw_attach 1 3 3), MBound b, [])]) = 1 \<and> 5 \<in> keys (sm_sessions gw_attached)"
proof -
  obtain b where tr: "trace sm_exec gw_new
     [(ReserveAdmission 5 6 7 5000 9, MAdmission gw_reservation, []),
      (CommitAndBind gw_reservation 10, MConnection gw_connection, []),
      (ReserveAttach gw_connection 3 3 20, MReservation (gw_attach 1 3 3), []),
      (CommitAttach (gw_attach 1 3 3), MBound b, [])] gw_attached" using gw_trace by blast
  have "mc_maximum_sessions gw_config \<le> usize_max" by (simp add: gw_config_def usize_max_def)
  from removed_exactly_once [OF gw_start this tr, of 5] show ?thesis
    by (intro exI [of _ b]) (simp add: gw_reservation_def gw_attached_def)
qed

text \<open>The client closes its connection, and presents the capability again.\<close>

theorem revoked_capability_dead_witness:
  "\<exists>m. sm_reachable 90 m \<and> \<not> authenticated m gw_connection \<and>
     sm_exec m (RecordActivity gw_connection 40) = (m, MFailed MUnknownConnection, []) \<and>
     refused (MFailed MUnknownConnection, [])"
proof -
  define m where "m = fst (sm_exec gw_attached (CloseConnection gw_connection))"
  have c: "sm_exec gw_attached (CloseConnection gw_connection) = (m, MAnswer True, [])"
    by (simp add: m_def close_connection_def gw_attached_def gw_admitted_def detach_def path_insert_tombstone_def
        put_session_def gw_eval)
  have m: "\<not> authenticated m gw_connection" "sm_next_connection_id m = 2"
    by (simp_all add: m_def close_connection_def gw_attached_def gw_admitted_def detach_def path_insert_tombstone_def
        put_session_def authenticated_def gw_eval)
  have "trace sm_exec gw_attached [(CloseConnection gw_connection, MAnswer True, [])] m"
    by (auto simp: trace_Cons c simp del: sm_exec.simps)
  from sm_reachable_trace [OF gw_reachable(1) this, of 90] have r: "sm_reachable 90 m" by simp
  have e: "sm_exec m (RecordActivity gw_connection 40) = (m, MFailed MUnknownConnection, [])"
    using m(1) by (simp add: record_authenticated_activity_def of_managed_def)
  have "trace sm_exec m [(RecordActivity gw_connection 40, MFailed MUnknownConnection, [])] m"
    by (auto simp: trace_Cons e simp del: sm_exec.simps)
  from revoked_capability_dead [OF r this, of gw_connection] m
  have "refused (MFailed MUnknownConnection, [])" by (simp add: gw_connection_def)
  with r m(1) e show ?thesis by blast
qed

text \<open>A sweep long after the client's last datagram.\<close>

theorem sweep_complete_witness:
  "\<exists>m' removals. sweep gw_attached 2000 = (m', Inr (length removals), removals) \<and> sm_sessions m' = [] \<and>
     set removals = {\<lparr>rm_session_id = 5, rm_device_id = 6, rm_organization_id = 7, rm_reason = RIdle\<rparr>}"
proof -
  obtain m' res removals where s: "sweep gw_attached 2000 = (m', res, removals)"
    by (cases "sweep gw_attached 2000") auto
  have sessions_due: "removal_due gw_attached 2000 ms = Some RIdle \<and> sid = 5"
    if "map_of (sm_sessions gw_attached) sid = Some ms" for sid ms
    using that by (auto simp: removal_due_def vs_is_expired_def idle_since_def gw_attached_def gw_admitted_def
        gw_eval split: if_splits)
  note c = sweep_complete [OF gw_reachable(1) s]
  have "map_of (sm_sessions m') sid = None" for sid
  proof (cases "map_of (sm_sessions m') sid")
    case (Some ms')
    from c [THEN conjunct2, THEN conjunct2, THEN conjunct1, rule_format, of sid]
    obtain ms where "map_of (sm_sessions gw_attached) sid = Some ms" "removal_due gw_attached 2000 ms = None"
      unfolding Some by auto
    then show ?thesis using sessions_due by force
  qed
  then have "map_of (sm_sessions m') = Map.empty" by (simp add: fun_eq_iff)
  then have "sm_sessions m' = []" by simp
  moreover have "set removals = {removal_of 5 RIdle ms |ms. map_of (sm_sessions gw_attached) 5 = Some ms}"
  proof -
    have eq: "map_of (sm_sessions gw_attached) sid = Some ms \<and> removal_due gw_attached 2000 ms = Some reason \<longleftrightarrow>
        sid = 5 \<and> reason = RIdle \<and> map_of (sm_sessions gw_attached) 5 = Some ms" for sid ms reason
    proof (cases "map_of (sm_sessions gw_attached) sid = Some ms")
      case True
      then show ?thesis using sessions_due [OF True] by auto
    next
      case False
      then show ?thesis by auto
    qed
    show ?thesis using c [THEN conjunct2, THEN conjunct1] unfolding eq by simp
  qed
  then have "set removals = {\<lparr>rm_session_id = 5, rm_device_id = 6, rm_organization_id = 7, rm_reason = RIdle\<rparr>}"
    unfolding gw_attached_session by (auto simp: removal_of_def gw_session_def)
  ultimately show ?thesis using s c by blast
qed

section \<open>Bounds\<close>

text \<open>C30. In every reachable state every table a snapshot counts is within the configured limits:
  sessions and pending admissions together, pending attaches, capabilities, and, at most their
  per-session limit for each session, the committed paths, the tombstones and the epoch history;
  every session is a reachable session of the path lifecycle filed under its own identifier, and
  every capability belongs to a session that is there.\<close>

theorem manager_bounds:
  assumes "sm_reachable n m"
  shows "sn_sessions (sm_snapshot m) + sn_admissions_pending (sm_snapshot m) \<le> mc_maximum_sessions (sm_config m) \<and>
    sn_pending_attaches (sm_snapshot m) \<le> mc_maximum_pending_attaches (sm_config m) \<and>
    sn_authenticated_connections (sm_snapshot m) \<le> sn_maximum_authenticated_connections (sm_snapshot m) \<and>
    sn_paths (sm_snapshot m) \<le> sn_sessions (sm_snapshot m) * mc_maximum_paths_per_session (sm_config m) \<and>
    sn_path_tombstones (sm_snapshot m) \<le> sn_sessions (sm_snapshot m) * mc_maximum_path_tombstones (sm_config m) \<and>
    sn_path_epoch_history_entries (sm_snapshot m) \<le>
      sn_sessions (sm_snapshot m) * mc_maximum_path_epoch_history (sm_config m) \<and>
    (\<forall>(sid, ms) \<in> set (sm_sessions m). lc_reachable (ms_session ms) \<and>
      ad_session_id (vs_admission (ms_session ms)) = sid) \<and>
    (\<forall>(c, sid) \<in> set (sm_authenticated m). sid \<in> keys (sm_sessions m))"
proof -
  note ok = sm_reachable_ok(1) [OF assms] and f = sm_reachable_fits [OF assms]
  note t = sm_okD(1) [OF ok, unfolded sm_tables_def]
  have "session_ok sid ms" if "(sid, ms) \<in> set (sm_sessions m)" for sid ms
    using that t sm_okD(2) [OF ok] by (simp add: map_of_in_set hm.ok_distinct)
  moreover have "sid \<in> keys (sm_sessions m)" if "(c, sid) \<in> set (sm_authenticated m)" for c sid
    using that t map_of_in_set [OF hm.ok_distinct] by metis
  moreover have "sum_list (map (\<lambda>x. length (vs_path_tombstones (ms_session (snd x)))) (sm_sessions m)) \<le>
      length (sm_sessions m) * mc_maximum_path_tombstones (sm_config m)"
    by (intro sum_list_bound) (metis session_tables_bounded(2) [OF ok f] prod.collapse)
  moreover have "sum_list (map (\<lambda>x. length (vs_path_epoch_history (ms_session (snd x)))) (sm_sessions m)) \<le>
      length (sm_sessions m) * mc_maximum_path_epoch_history (sm_config m)"
    by (intro sum_list_bound) (metis session_tables_bounded(3) [OF ok f] prod.collapse)
  ultimately show ?thesis
    using t connections_bounded [OF ok f]
    by (intro conjI) (auto simp: sm_snapshot_def Let_def case_prod_beta comp_def vs_tombstone_snapshot_def session_ok_def)
qed

theorem manager_bounds_witness:
  "sn_sessions (sm_snapshot gw_attached) \<le> 4 \<and> sn_authenticated_connections (sm_snapshot gw_attached) = 1 \<and>
     sn_paths (sm_snapshot gw_attached) = 1 \<and> sn_path_epoch_history_entries (sm_snapshot gw_attached) \<le> 2 \<and>
     5 \<in> keys (sm_sessions gw_attached)"
  using manager_bounds [OF gw_reachable(1)]
  by (simp add: sm_snapshot_def vs_tombstone_snapshot_def gw_attached_def gw_admitted_def gw_eval)

section \<open>A stale commit\<close>

text \<open>
  The client reserves a path, the reservation expires, and it reserves another. A commit of the
  first reservation is refused, but has already taken the pending entry of the second.
\<close>

definition stale_reserved :: manager where
  "stale_reserved = gw_admitted\<lparr>sm_sessions := [(5, \<lparr>ms_session = gw_session\<lparr>vs_next_path_id := 3,
        vs_path_epoch_history := [(1, \<lparr>ep_path_epoch = 3, ep_key_epoch = 3\<rparr>), (2, \<lparr>ep_path_epoch = 4, ep_key_epoch = 4\<rparr>)],
        vs_paths := [(2, gw_path 2 4 4 False)]\<rparr>, ms_organization_id = 7, ms_last_activity_ms = 10\<rparr>)],
     sm_pending := [(1, \<lparr>pc_reservation = gw_attach 2 4 4, pc_expires_at_ms = 150\<rparr>)],
     sm_metrics := gw_metrics\<lparr>mm_pending_attaches_expired := 1\<rparr>\<rparr>"

lemma stale_reserve:
  "sm_exec gw_reserved (ReserveAttach gw_connection 4 4 100) =
     (stale_reserved, MReservation (gw_attach 2 4 4), [])"
  by (simp add: stale_reserved_def gw_reserved_def gw_admitted_def sm_reserve_attach_def
      prune_overdue_attaches_def authenticated_def abort_attach_def reservation_matches_def
      reserve_attach_def prune_path_tombstones_def vs_is_expired_def allocate_path_id_def allocate_turns_numeral
      eligible_def next_id_def put_session_def gw_eval del: allocate_turns.simps)

lemma stale_commit:
  "sm_exec stale_reserved (CommitAttach (gw_attach 1 3 3)) =
     (stale_reserved\<lparr>sm_pending := []\<rparr>, MFailed MUnknownAttach, [])"
  "sm_exec (stale_reserved\<lparr>sm_pending := []\<rparr>) (CommitAttach (gw_attach 2 4 4)) =
     (stale_reserved\<lparr>sm_pending := []\<rparr>, MFailed MUnknownAttach, [])"
  by (simp_all add: stale_reserved_def gw_admitted_def sm_commit_attach_def gw_eval)

lemma stale_sweep:
  "sm_exec (stale_reserved\<lparr>sm_pending := []\<rparr>) (Sweep 200) =
     (stale_reserved\<lparr>sm_pending := []\<rparr>, MCount 0, [])"
  by (simp add: sweep_def stale_reserved_def gw_admitted_def kt_retain_def prune_overdue_attaches_def
      prune_path_tombstones_def removal_due_def vs_is_expired_def idle_since_def List.map_filter_simps
      record_each_def gw_eval)

lemma stale_again:
  "sm_exec (stale_reserved\<lparr>sm_pending := []\<rparr>) (ReserveAttach gw_connection 5 5 201) =
     (stale_reserved\<lparr>sm_pending := []\<rparr>, MFailed MConnectionAlreadyBound, [])"
  by (simp add: stale_reserved_def gw_admitted_def sm_reserve_attach_def prune_overdue_attaches_def authenticated_def
      reserve_attach_def prune_path_tombstones_def vs_is_expired_def put_session_def gw_eval)

lemma stale_close:
  "sm_exec (stale_reserved\<lparr>sm_pending := []\<rparr>) (CloseConnection gw_connection) =
     (stale_reserved\<lparr>sm_pending := [], sm_authenticated := []\<rparr>, MAnswer True, [])"
  by (simp add: stale_reserved_def gw_admitted_def close_connection_def gw_eval)

lemma managed_answer: "fst (snd (of_managed f r)) = (case fst (snd r) of Inl e \<Rightarrow> MFailed e | Inr x \<Rightarrow> f x)"
  by (simp add: of_managed_def split: prod.split sum.split)

text \<open>C31. A commit of any other reservation of a connection strands the path the connection has
  reserved meanwhile: it answers that the attach is unknown but drops the pending entry of the newer
  reservation. Over any later operations, sweeps past its deadline and the closing of the
  connection included, the path stays reserved as long as no operation removes the session: the
  newer reservation cannot be committed, and every attach of the same connection is refused.\<close>

theorem stale_commit_strands_path:
  assumes "sm_reachable n m" and q: "map_of (sm_pending m) c = Some q"
    and stale: "ar_connection_id (gr_reservation r) = c" "r \<noteq> pc_reservation q"
    and e: "sm_exec m (CommitAttach r) = (m', out)"
    and tr: "trace sm_exec m' tr u" and len: "length tr < n"
    and kept: "\<forall>(e, out, removals) \<in> set tr. gr_session_id (pc_reservation q) \<notin> rm_session_id ` set removals"
  shows "out = (MFailed MUnknownAttach, []) \<and>
    (\<exists>ms path. map_of (sm_sessions u) (gr_session_id (pc_reservation q)) = Some ms \<and>
       vs_path (ms_session ms) (ar_path_id (gr_reservation (pc_reservation q))) = Some path \<and>
       pb_connection_id path = c \<and> pb_state path = PConnecting) \<and>
    fst (snd (sm_exec u (CommitAttach (pc_reservation q)))) = MFailed MUnknownAttach \<and>
    (\<forall>e k now. \<exists>err. fst (snd (sm_exec u (ReserveAttach
       \<lparr>ac_session_id = gr_session_id (pc_reservation q), ac_connection_id = c\<rparr> e k now))) = MFailed err)"
proof -
  let ?sid = "gr_session_id (pc_reservation q)" and ?p = "ar_path_id (gr_reservation (pc_reservation q))"
  have ok: "sm_ok m" and left: "n \<le> ids_left m" using sm_reachable_ok [OF assms(1)] by blast+
  from stale_commit_orphans [OF ok q stale refl refl] obtain path where
    commit: "sm_commit_attach m r = (m\<lparr>sm_pending := kt_remove c (sm_pending m)\<rparr>, Inl MUnknownAttach, [])"
    and o: "orphaned ?sid ?p path (m\<lparr>sm_pending := kt_remove c (sm_pending m)\<rparr>)"
    and path: "pb_connection_id (pe_binding path) = c" "pb_state (pe_binding path) = PConnecting" .
  have m': "m' = m\<lparr>sm_pending := kt_remove c (sm_pending m)\<rparr>" and out: "out = (MFailed MUnknownAttach, [])"
    using e by (simp_all add: commit of_managed_def)
  have ok': "sm_ok m'" and left': "length tr \<le> ids_left m'"
    using sm_ok_drop_pending [OF ok] left len by (simp_all add: m' ids_left_def)
  have u: "sm_ok u" using manager.until_trace [OF tr ok' left'] by blast
  have "orphaned ?sid ?p path u"
    by (rule orphaned_trace [OF tr ok' left']) (use o kept in \<open>auto simp: m' spares_def\<close>)
  moreover from this have "fst (snd (sm_commit_attach u (pc_reservation q))) = Inl MUnknownAttach"
    by (rule orphaned_uncommittable) (simp add: claims_def)
  moreover have "\<exists>err. fst (snd (sm_reserve_attach u \<lparr>ac_session_id = ?sid, ac_connection_id = c\<rparr> e k now)) = Inl err" for e k "now"
    by (rule orphaned_refuses [OF u calculation(1)]) (simp_all add: path)
  then have "\<exists>err. fst (snd (sm_exec u (ReserveAttach \<lparr>ac_session_id = ?sid, ac_connection_id = c\<rparr> e k now))) = MFailed err"
    for e k "now" by (metis sm_exec.simps(6) managed_answer sum.simps(5))
  moreover have "\<exists>ms path. map_of (sm_sessions u) ?sid = Some ms \<and> vs_path (ms_session ms) ?p = Some path \<and>
       pb_connection_id path = c \<and> pb_state path = PConnecting"
    using calculation(1) path by (auto simp: orphaned_def path_at_def vs_path_def split: option.splits)
  ultimately show ?thesis using out by (simp add: managed_answer del: sm_exec.simps(6))
qed

theorem stale_commit_strands_path_witness:
  "\<exists>u ms path. trace sm_exec gw_admitted
     [(ReserveAttach gw_connection 3 3 20, MReservation (gw_attach 1 3 3), []),
      (ReserveAttach gw_connection 4 4 100, MReservation (gw_attach 2 4 4), []),
      (CommitAttach (gw_attach 1 3 3), MFailed MUnknownAttach, []),
      (CommitAttach (gw_attach 2 4 4), MFailed MUnknownAttach, []),
      (Sweep 200, MCount 0, []),
      (ReserveAttach gw_connection 5 5 201, MFailed MConnectionAlreadyBound, []),
      (CloseConnection gw_connection, MAnswer True, [])] u \<and>
   sm_pending u = [] \<and> sm_connections u = [] \<and> sm_authenticated u = [] \<and>
   map_of (sm_sessions u) 5 = Some ms \<and> vs_path (ms_session ms) 2 = Some path \<and> pb_state path = PConnecting"
proof -
  let ?u = "stale_reserved\<lparr>sm_pending := [], sm_authenticated := []\<rparr>"
  let ?start = "[(ReserveAttach gw_connection 3 3 20, MReservation (gw_attach 1 3 3), []),
      (ReserveAttach gw_connection 4 4 100, MReservation (gw_attach 2 4 4), [])]"
  let ?rest = "[(CommitAttach (gw_attach 2 4 4), MFailed MUnknownAttach, []), (Sweep 200, MCount 0, []),
      (ReserveAttach gw_connection 5 5 201, MFailed MConnectionAlreadyBound, []),
      (CloseConnection gw_connection, MAnswer True, [])]"
  have start: "trace sm_exec gw_admitted ?start stale_reserved"
    by (simp add: trace_Cons gw_reserve stale_reserve del: sm_exec.simps)
  have rest: "trace sm_exec (stale_reserved\<lparr>sm_pending := []\<rparr>) ?rest ?u"
    by (simp add: trace_Cons stale_commit stale_sweep stale_again stale_close del: sm_exec.simps)
  have reach: "sm_reachable 50 stale_reserved" by (rule sm_reachable_trace [OF gw_reachable(2) start]) simp
  have pend: "map_of (sm_pending stale_reserved) 1 = Some \<lparr>pc_reservation = gw_attach 2 4 4, pc_expires_at_ms = 150\<rparr>"
    by (simp add: stale_reserved_def)
  from stale_commit_strands_path [OF reach pend _ _ stale_commit(1) rest]
  obtain ms path where "map_of (sm_sessions ?u) 5 = Some ms" "vs_path (ms_session ms) 2 = Some path"
    "pb_state path = PConnecting" by (auto simp: gw_attach_def)
  moreover have "sm_connections ?u = []" by (simp add: stale_reserved_def gw_admitted_def gw_new_def)
  moreover have "trace sm_exec gw_admitted (?start @ (CommitAttach (gw_attach 1 3 3), MFailed MUnknownAttach, []) # ?rest) ?u"
    unfolding trace_append using start trace.go [OF stale_commit(1) rest] by blast
  ultimately show ?thesis by (intro exI [of _ ?u] exI [of _ ms] exI [of _ path]) simp
qed

end
