(* ===== verification/Mtu.thy ===== *)
theory Mtu
  imports Envelope
begin

text \<open>
  The path MTU policy and the checked send pipeline of \<open>crates/sg-transport/src/mtu.rs\<close>: the
  per-path state with its transitions, the admission gate with its counters, the packet-ID
  sequencer with its single-use reservations, and \<open>send_checked\<close>, which composes them with the
  envelope codec and the transport.

  The transport is the trait \<open>DatagramSender\<close>, whose implementations are outside this module.
  It is a parameter of the pipeline: a state \<open>'t\<close>, the limit it currently advertises, and a
  send that may change the state and answers with a result. Nothing is assumed about it. The
  permit that only the pipeline can construct has no content and is left out.
\<close>

section \<open>Checked sizes\<close>

definition SAFE_MODE_MIN_DATAGRAM_MTU :: nat where
  "SAFE_MODE_MIN_DATAGRAM_MTU = 1352"

definition SAFE_MODE_MIN_PAYLOAD_MTU :: nat where
  "SAFE_MODE_MIN_PAYLOAD_MTU = 1300"

definition MAX_DATAGRAM_MTU :: nat where
  "MAX_DATAGRAM_MTU = 65535"

type_synonym datagram_mtu = nat
type_synonym effective_payload_mtu = nat

datatype datagram_mtu_error = BelowMinimum nat nat | AboveMaximum nat nat

definition datagram_mtu_new :: "nat \<Rightarrow> datagram_mtu_error + datagram_mtu" where
  "datagram_mtu_new value =
     (if value < FIXED_HEADER_LEN then Inl (BelowMinimum value FIXED_HEADER_LEN)
      else if MAX_DATAGRAM_MTU < value then Inl (AboveMaximum value MAX_DATAGRAM_MTU)
      else Inr value)"

definition effective_payload :: "datagram_mtu \<Rightarrow> effective_payload_mtu" where
  "effective_payload mtu = mtu - FIXED_HEADER_LEN"

definition payload_datagram_mtu :: "effective_payload_mtu \<Rightarrow> datagram_mtu" where
  "payload_datagram_mtu payload = payload + FIXED_HEADER_LEN"

section \<open>Path state\<close>

datatype path_mtu_state =
    MtuUnknown
  | MtuAvailable datagram_mtu effective_payload_mtu
  | MtuReduced datagram_mtu effective_payload_mtu datagram_mtu
  | MtuBlackHole

datatype mtu_event =
    EvDiscovered nat
  | EvReduced nat nat
  | EvReduceIgnored nat nat
  | EvBlackHole
  | EvNoOp

fun st_effective_payload :: "path_mtu_state \<Rightarrow> effective_payload_mtu option" where
  "st_effective_payload (MtuAvailable d e) = Some e"
| "st_effective_payload (MtuReduced d e prev) = Some e"
| "st_effective_payload MtuUnknown = None"
| "st_effective_payload MtuBlackHole = None"

fun st_datagram_mtu :: "path_mtu_state \<Rightarrow> datagram_mtu option" where
  "st_datagram_mtu (MtuAvailable d e) = Some d"
| "st_datagram_mtu (MtuReduced d e prev) = Some d"
| "st_datagram_mtu MtuUnknown = None"
| "st_datagram_mtu MtuBlackHole = None"

fun send_denied :: "path_mtu_state \<Rightarrow> bool" where
  "send_denied MtuUnknown = True"
| "send_denied MtuBlackHole = True"
| "send_denied _ = False"

definition st_discover :: "path_mtu_state \<Rightarrow> datagram_mtu \<Rightarrow> path_mtu_state \<times> mtu_event" where
  "st_discover state mtu = (MtuAvailable mtu (effective_payload mtu), EvDiscovered mtu)"

definition reduce_from ::
  "path_mtu_state \<Rightarrow> datagram_mtu \<Rightarrow> datagram_mtu \<Rightarrow> path_mtu_state \<times> mtu_event" where
  "reduce_from state previous new_mtu =
     (if previous \<le> new_mtu then (state, EvReduceIgnored new_mtu previous)
      else (MtuReduced new_mtu (effective_payload new_mtu) previous, EvReduced previous new_mtu))"

fun st_reduce :: "path_mtu_state \<Rightarrow> datagram_mtu \<Rightarrow> path_mtu_state \<times> mtu_event" where
  "st_reduce (MtuAvailable d e) new_mtu = reduce_from (MtuAvailable d e) d new_mtu"
| "st_reduce (MtuReduced d e prev) new_mtu = reduce_from (MtuReduced d e prev) d new_mtu"
| "st_reduce MtuUnknown new_mtu = (MtuUnknown, EvNoOp)"
| "st_reduce MtuBlackHole new_mtu = (MtuBlackHole, EvNoOp)"

definition st_blackhole :: "path_mtu_state \<Rightarrow> path_mtu_state \<times> mtu_event" where
  "st_blackhole state =
     (if send_denied state then (state, EvNoOp) else (MtuBlackHole, EvBlackHole))"

definition st_recover :: "path_mtu_state \<Rightarrow> datagram_mtu \<Rightarrow> path_mtu_state \<times> mtu_event" where
  "st_recover state mtu =
     (if state \<noteq> MtuBlackHole then (state, EvNoOp) else st_discover state mtu)"

section \<open>Admission\<close>

datatype mtu_reject_reason =
    RejEmptyPayload
  | RejPayloadExceedsMtu nat nat
  | RejDatagramExceedsMtu nat nat
  | RejDatagramBelowHeader nat nat
  | RejPathMtuUnknown
  | RejPathMtuBlackHole

definition check_payload ::
  "nat \<Rightarrow> path_mtu_state \<Rightarrow> mtu_reject_reason + effective_payload_mtu" where
  "check_payload payload_len state =
     (if payload_len = 0 then Inl RejEmptyPayload
      else case state of
        MtuUnknown \<Rightarrow> Inl RejPathMtuUnknown
      | MtuBlackHole \<Rightarrow> Inl RejPathMtuBlackHole
      | MtuAvailable _ effective \<Rightarrow>
          if effective < payload_len then Inl (RejPayloadExceedsMtu payload_len effective)
          else Inr effective
      | MtuReduced _ effective _ \<Rightarrow>
          if effective < payload_len then Inl (RejPayloadExceedsMtu payload_len effective)
          else Inr effective)"

definition check_datagram :: "nat \<Rightarrow> path_mtu_state \<Rightarrow> mtu_reject_reason + datagram_mtu" where
  "check_datagram datagram_len state =
     (if datagram_len < FIXED_HEADER_LEN
      then Inl (RejDatagramBelowHeader datagram_len FIXED_HEADER_LEN)
      else case state of
        MtuUnknown \<Rightarrow> Inl RejPathMtuUnknown
      | MtuBlackHole \<Rightarrow> Inl RejPathMtuBlackHole
      | MtuAvailable mtu _ \<Rightarrow>
          if mtu < datagram_len then Inl (RejDatagramExceedsMtu datagram_len mtu) else Inr mtu
      | MtuReduced mtu _ _ \<Rightarrow>
          if mtu < datagram_len then Inl (RejDatagramExceedsMtu datagram_len mtu) else Inr mtu)"

record mtu_metrics =
  mm_sends_admitted :: u64
  mm_sends_enqueued :: u64
  mm_sends_rejected :: u64
  mm_encode_failures :: u64
  mm_transport_failures :: u64
  mm_mtu_reductions :: u64
  mm_blackholes_detected :: u64

definition mtu_metrics_default :: mtu_metrics where
  "mtu_metrics_default = \<lparr>mm_sends_admitted = 0, mm_sends_enqueued = 0, mm_sends_rejected = 0,
     mm_encode_failures = 0, mm_transport_failures = 0, mm_mtu_reductions = 0,
     mm_blackholes_detected = 0\<rparr>"

fun record_event :: "mtu_event \<Rightarrow> mtu_metrics \<Rightarrow> mtu_metrics" where
  "record_event (EvReduced previous current) m = mm_mtu_reductions_update sat_inc m"
| "record_event EvBlackHole m = mm_blackholes_detected_update sat_inc m"
| "record_event (EvDiscovered mtu) m = m"
| "record_event (EvReduceIgnored requested current) m = m"
| "record_event EvNoOp m = m"

definition admit_payload :: "nat \<Rightarrow> path_mtu_state \<Rightarrow> mtu_metrics
    \<Rightarrow> mtu_metrics \<times> (mtu_reject_reason + effective_payload_mtu)" where
  "admit_payload payload_len state metrics =
     (case check_payload payload_len state of
        Inr effective \<Rightarrow> (mm_sends_admitted_update sat_inc metrics, Inr effective)
      | Inl reason \<Rightarrow> (mm_sends_rejected_update sat_inc metrics, Inl reason))"

definition admit_datagram :: "nat \<Rightarrow> path_mtu_state \<Rightarrow> mtu_metrics
    \<Rightarrow> mtu_metrics \<times> (mtu_reject_reason + datagram_mtu)" where
  "admit_datagram datagram_len state metrics =
     (case check_datagram datagram_len state of
        Inr mtu \<Rightarrow> (mm_sends_admitted_update sat_inc metrics, Inr mtu)
      | Inl reason \<Rightarrow> (mm_sends_rejected_update sat_inc metrics, Inl reason))"

record mtu_admission =
  ma_state :: path_mtu_state
  ma_metrics :: mtu_metrics
  ma_tun_payload_mtu :: effective_payload_mtu

definition mtu_admission_default :: mtu_admission where
  "mtu_admission_default = \<lparr>ma_state = MtuUnknown, ma_metrics = mtu_metrics_default,
     ma_tun_payload_mtu = effective_payload SAFE_MODE_MIN_DATAGRAM_MTU\<rparr>"

text \<open>The \<open>usize\<close> sum of a 64-bit target.\<close>

definition with_tun_payload_mtu :: "nat \<Rightarrow> datagram_mtu_error + mtu_admission" where
  "with_tun_payload_mtu tun =
     rbind (datagram_mtu_new ((tun + FIXED_HEADER_LEN) mod 2 ^ 64)) (\<lambda>_.
     Inr \<lparr>ma_state = MtuUnknown, ma_metrics = mtu_metrics_default, ma_tun_payload_mtu = tun\<rparr>)"

definition can_carry_tun_payload :: "mtu_admission \<Rightarrow> bool" where
  "can_carry_tun_payload g =
     (case st_effective_payload (ma_state g) of
        None \<Rightarrow> False
      | Some effective \<Rightarrow> ma_tun_payload_mtu g \<le> effective)"

definition apply_transition ::
  "mtu_admission \<Rightarrow> path_mtu_state \<times> mtu_event \<Rightarrow> mtu_admission \<times> mtu_event" where
  "apply_transition g r =
     (let (state, event) = r
      in (g\<lparr>ma_state := state, ma_metrics := record_event event (ma_metrics g)\<rparr>, event))"

definition gate_discover :: "mtu_admission \<Rightarrow> datagram_mtu \<Rightarrow> mtu_admission \<times> mtu_event" where
  "gate_discover g mtu = apply_transition g (st_discover (ma_state g) mtu)"

definition gate_reduce :: "mtu_admission \<Rightarrow> datagram_mtu \<Rightarrow> mtu_admission \<times> mtu_event" where
  "gate_reduce g mtu = apply_transition g (st_reduce (ma_state g) mtu)"

definition gate_blackhole :: "mtu_admission \<Rightarrow> mtu_admission \<times> mtu_event" where
  "gate_blackhole g = apply_transition g (st_blackhole (ma_state g))"

definition gate_recover :: "mtu_admission \<Rightarrow> datagram_mtu \<Rightarrow> mtu_admission \<times> mtu_event" where
  "gate_recover g mtu = apply_transition g (st_recover (ma_state g) mtu)"

definition sync_from_transport :: "mtu_admission \<Rightarrow> datagram_mtu \<Rightarrow> mtu_admission \<times> mtu_event" where
  "sync_from_transport g transport_mtu =
     (case ma_state g of
        MtuUnknown \<Rightarrow> gate_discover g transport_mtu
      | MtuAvailable d _ \<Rightarrow>
          if transport_mtu < d then gate_reduce g transport_mtu else (g, EvNoOp)
      | MtuReduced d _ _ \<Rightarrow>
          if transport_mtu < d then gate_reduce g transport_mtu else (g, EvNoOp)
      | MtuBlackHole \<Rightarrow> (g, EvNoOp))"

definition reject_absent_transport_limit :: "mtu_admission \<Rightarrow> mtu_admission \<times> mtu_reject_reason" where
  "reject_absent_transport_limit g =
     (ma_metrics_update (mm_sends_rejected_update sat_inc) g, RejPathMtuUnknown)"

definition gate_admit_payload ::
  "mtu_admission \<Rightarrow> nat \<Rightarrow> mtu_admission \<times> (mtu_reject_reason + effective_payload_mtu)" where
  "gate_admit_payload g payload_len =
     (let (m, r) = admit_payload payload_len (ma_state g) (ma_metrics g) in (g\<lparr>ma_metrics := m\<rparr>, r))"

definition gate_admit_datagram ::
  "mtu_admission \<Rightarrow> nat \<Rightarrow> mtu_admission \<times> (mtu_reject_reason + datagram_mtu)" where
  "gate_admit_datagram g datagram_len =
     (let (m, r) = admit_datagram datagram_len (ma_state g) (ma_metrics g) in (g\<lparr>ma_metrics := m\<rparr>, r))"

definition admit_envelope ::
  "mtu_admission \<Rightarrow> nat \<Rightarrow> nat \<Rightarrow> mtu_admission \<times> (mtu_reject_reason + effective_payload_mtu)" where
  "admit_envelope g payload_len datagram_len =
     (if payload_len = 0
      then (ma_metrics_update (mm_sends_rejected_update sat_inc) g, Inl RejEmptyPayload)
      else let (m, r) = admit_datagram datagram_len (ma_state g) (ma_metrics g)
           in (g\<lparr>ma_metrics := m\<rparr>, rbind r (\<lambda>mtu. Inr (effective_payload mtu))))"

definition record_enqueue_success :: "mtu_admission \<Rightarrow> mtu_admission" where
  "record_enqueue_success = ma_metrics_update (mm_sends_enqueued_update sat_inc)"

definition record_encode_failure :: "mtu_admission \<Rightarrow> mtu_admission" where
  "record_encode_failure = ma_metrics_update (mm_encode_failures_update sat_inc)"

definition record_transport_failure :: "mtu_admission \<Rightarrow> mtu_admission" where
  "record_transport_failure = ma_metrics_update (mm_transport_failures_update sat_inc)"

section \<open>The sequencer\<close>

datatype packet_id_error = IdsExhausted

record packet_id_sequencer =
  ps_next :: u64
  ps_exhausted :: bool

definition sequencer_new :: "u64 \<Rightarrow> packet_id_sequencer" where
  "sequencer_new first = \<lparr>ps_next = first, ps_exhausted = False\<rparr>"

type_synonym packet_reservation = packet_id

definition seq_preview :: "packet_id_sequencer \<Rightarrow> packet_id_error + packet_reservation" where
  "seq_preview q = (if ps_exhausted q then Inl IdsExhausted else Inr (ps_next q))"

definition seq_commit :: "packet_reservation \<Rightarrow> packet_id_sequencer \<Rightarrow> packet_id_sequencer" where
  "seq_commit reservation q =
     (if ps_exhausted q \<or> reservation \<noteq> ps_next q then q
      else if ps_next q = u64_max then q\<lparr>ps_exhausted := True\<rparr>
      else q\<lparr>ps_next := ps_next q + 1\<rparr>)"

section \<open>The pipeline\<close>

datatype datagram_send_error =
    NoDatagramLimit
  | TooLarge nat nat
  | TransportRejected string

datatype checked_send_error =
    PacketIdExhausted packet_id_error
  | GateRejected mtu_reject_reason
  | BuildMismatch packet_id packet_id
  | EncodeFailed v2_envelope_error
  | TransportFailed datagram_send_error

record 't checked_datagram_sender =
  cds_inner :: 't
  cds_admission :: mtu_admission

definition send_checked ::
  "('t \<Rightarrow> datagram_mtu option) \<Rightarrow> (byte list \<Rightarrow> 't \<Rightarrow> 't \<times> (datagram_send_error + unit))
    \<Rightarrow> 't checked_datagram_sender \<Rightarrow> nat \<Rightarrow> packet_id_sequencer \<Rightarrow> (packet_reservation \<Rightarrow> v2_envelope)
    \<Rightarrow> 't checked_datagram_sender \<times> packet_id_sequencer \<times> (checked_send_error + packet_id)" where
  "send_checked current send_datagram self payload_len seqr build_envelope =
     (if ps_exhausted seqr then (self, seqr, Inl (PacketIdExhausted IdsExhausted))
      else case current (cds_inner self) of
        None \<Rightarrow>
          let (g, reason) = reject_absent_transport_limit (cds_admission self)
          in (self\<lparr>cds_admission := g\<rparr>, seqr, Inl (GateRejected reason))
      | Some transport_mtu \<Rightarrow>
          let (g, _) = sync_from_transport (cds_admission self) transport_mtu;
              datagram_len = usize_add FIXED_HEADER_LEN payload_len
          in case admit_envelope g payload_len datagram_len of
            (g, Inl reason) \<Rightarrow> (self\<lparr>cds_admission := g\<rparr>, seqr, Inl (GateRejected reason))
          | (g, Inr effective) \<Rightarrow>
              (case seq_preview seqr of
                 Inl e \<Rightarrow> (self\<lparr>cds_admission := g\<rparr>, seqr, Inl (PacketIdExhausted e))
               | Inr reservation \<Rightarrow>
                   let envelope = build_envelope reservation;
                       found = vh_packet_id (ve_header envelope)
                   in if found \<noteq> reservation
                      then (self\<lparr>cds_admission := record_encode_failure g\<rparr>, seqr,
                            Inl (BuildMismatch reservation found))
                      else case envelope_encode envelope effective of
                        Inl e \<Rightarrow> (self\<lparr>cds_admission := record_encode_failure g\<rparr>, seqr,
                                  Inl (EncodeFailed e))
                      | Inr datagram \<Rightarrow>
                          (case send_datagram datagram (cds_inner self) of
                             (t, Inl e) \<Rightarrow>
                               (self\<lparr>cds_inner := t, cds_admission := record_transport_failure g\<rparr>,
                                seqr, Inl (TransportFailed e))
                           | (t, Inr _) \<Rightarrow>
                               (self\<lparr>cds_inner := t, cds_admission := record_enqueue_success g\<rparr>,
                                seq_commit reservation seqr, Inr reservation))))"

end
