(* ===== verification/MtuProps.thy ===== *)
theory MtuProps
  imports Mtu Machine "HOL-Library.Product_Lexorder"
begin

text \<open>
  What the send pipeline promises: a rejected send changes nothing but counters, an accepted
  one hands the transport exactly one datagram that fits its limit and decodes at the other
  end, packet identifiers are issued in order and never reused, the limit of a path never
  rises behind the supervisor's back, and the counters account for every send.
\<close>

section \<open>The gate\<close>

definition mtu_valid :: "datagram_mtu \<Rightarrow> bool" where
  "mtu_valid d \<longleftrightarrow> FIXED_HEADER_LEN \<le> d \<and> d \<le> MAX_DATAGRAM_MTU"

lemma mtu_valid_new: "mtu_valid d \<longleftrightarrow> datagram_mtu_new d = Inr d"
  by (auto simp: mtu_valid_def datagram_mtu_new_def)

fun state_ok :: "path_mtu_state \<Rightarrow> bool" where
  "state_ok (MtuAvailable d e) \<longleftrightarrow> mtu_valid d \<and> e = effective_payload d"
| "state_ok (MtuReduced d e prev) \<longleftrightarrow> mtu_valid d \<and> e = effective_payload d \<and> d < prev \<and> mtu_valid prev"
| "state_ok MtuUnknown \<longleftrightarrow> True"
| "state_ok MtuBlackHole \<longleftrightarrow> True"

abbreviation gate_ok :: "mtu_admission \<Rightarrow> bool" where
  "gate_ok g \<equiv> state_ok (ma_state g)"

lemma gate_ok_start: "with_tun_payload_mtu n = Inr g \<Longrightarrow> gate_ok g" "gate_ok mtu_admission_default"
  by (auto simp: with_tun_payload_mtu_def rbind_Inr mtu_admission_default_def)

lemma apply_transition_state [simp]:
  "ma_state (fst (apply_transition g r)) = fst r"
  "ma_tun_payload_mtu (fst (apply_transition g r)) = ma_tun_payload_mtu g"
  by (simp_all add: apply_transition_def split: prod.split)

lemma state_ok_reduce: "state_ok st \<Longrightarrow> mtu_valid m \<Longrightarrow> state_ok (fst (st_reduce st m))"
  by (cases st) (auto simp: reduce_from_def)

lemma gate_ok_discover: "mtu_valid m \<Longrightarrow> gate_ok (fst (gate_discover g m))"
  by (simp add: gate_discover_def st_discover_def)

lemma gate_ok_reduce: "gate_ok g \<Longrightarrow> mtu_valid m \<Longrightarrow> gate_ok (fst (gate_reduce g m))"
  by (simp add: gate_reduce_def state_ok_reduce)

lemma gate_ok_sync:
  assumes "gate_ok g" and "mtu_valid m"
  shows "gate_ok (fst (sync_from_transport g m))"
  using assms gate_ok_discover [OF assms(2), of g] gate_ok_reduce [OF assms]
  by (auto simp: sync_from_transport_def split: path_mtu_state.split)

text \<open>After synchronising, a usable limit is at most the transport's.\<close>

lemma sync_limit:
  "st_datagram_mtu (ma_state (fst (sync_from_transport g m))) = Some d \<Longrightarrow> d \<le> m"
  by (cases "ma_state g")
    (auto simp: sync_from_transport_def gate_discover_def gate_reduce_def st_discover_def reduce_from_def
      split: if_splits)

lemma admit_envelope_Inr:
  assumes "admit_envelope g n k = (g', Inr eff)" and "gate_ok g"
  shows "\<exists>d. st_datagram_mtu (ma_state g) = Some d \<and> k \<le> d \<and> eff = effective_payload d \<and>
    mtu_valid d \<and> ma_state g' = ma_state g"
  using assms
  by (cases "ma_state g")
    (auto simp: admit_envelope_def admit_datagram_def check_datagram_def Let_def split: if_splits)

lemma admit_envelope_state: "ma_state (fst (admit_envelope g n k)) = ma_state g"
  by (simp add: admit_envelope_def Let_def split: prod.split)

text \<open>The two admission checks agree: for a non-empty payload the payload check and the check
  of the whole datagram accept and reject together and announce the same limit, for every valid
  path limit, not only from the Safe Mode minimum upwards.\<close>

theorem payload_and_datagram_checks_agree:
  assumes "state_ok st" and "0 < n"
  shows "check_payload n st = Inr e \<longleftrightarrow>
    (\<exists>d. check_datagram (FIXED_HEADER_LEN + n) st = Inr d \<and> effective_payload d = e)"
  using assms
  by (cases st) (auto simp: check_payload_def check_datagram_def effective_payload_def mtu_valid_def)

theorem payload_and_datagram_checks_agree_witness:
  "check_payload 48 (MtuAvailable 100 48) = Inr 48 \<and>
   (\<exists>d. check_datagram (FIXED_HEADER_LEN + 48) (MtuAvailable 100 48) = Inr d \<and> effective_payload d = 48)"
proof -
  have ok: "state_ok (MtuAvailable 100 48)"
    by (simp add: mtu_valid_def effective_payload_def FIXED_HEADER_LEN_def MAX_DATAGRAM_MTU_def)
  have "check_payload 48 (MtuAvailable 100 48) = Inr 48" by (simp add: check_payload_def)
  then show ?thesis using payload_and_datagram_checks_agree [OF ok, of 48 48] by simp
qed

subsection \<open>The limit only falls\<close>

datatype gate_event =
    GDiscover datagram_mtu
  | GReduce datagram_mtu
  | GBlackhole
  | GRecover datagram_mtu
  | GSync datagram_mtu
  | GAdmit nat nat
  | GAbsent

fun gate_exec :: "(mtu_admission, gate_event, mtu_event) machine" where
  "gate_exec g (GDiscover m) = gate_discover g m"
| "gate_exec g (GReduce m) = gate_reduce g m"
| "gate_exec g GBlackhole = gate_blackhole g"
| "gate_exec g (GRecover m) = gate_recover g m"
| "gate_exec g (GSync m) = sync_from_transport g m"
| "gate_exec g (GAdmit n k) = (fst (admit_envelope g n k), EvNoOp)"
| "gate_exec g GAbsent = (fst (reject_absent_transport_limit g), EvNoOp)"

fun announces :: "gate_event \<Rightarrow> bool" where
  "announces (GDiscover m) = True"
| "announces (GRecover m) = True"
| "announces _ = False"

definition quiet_exec :: "(mtu_admission, gate_event, mtu_event) machine" where
  "quiet_exec g e = (if announces e then (g, EvNoOp) else gate_exec g e)"

text \<open>How much a state allows: everything still, a limit, nothing.\<close>

fun level :: "path_mtu_state \<Rightarrow> nat \<times> nat" where
  "level MtuUnknown = (2, 0)"
| "level (MtuAvailable d e) = (1, d)"
| "level (MtuReduced d e prev) = (1, d)"
| "level MtuBlackHole = (0, 0)"

abbreviation limit_falls :: "mtu_admission \<Rightarrow> mtu_admission \<Rightarrow> bool" where
  "limit_falls g h \<equiv> level (ma_state h) \<le> level (ma_state g)"

lemma level_reduce: "level (fst (st_reduce st m)) \<le> level st"
  by (cases st) (simp_all add: reduce_from_def)

lemma level_blackhole: "level (fst (st_blackhole st)) \<le> level st"
  by (cases st) (simp_all add: st_blackhole_def)

lemma level_sync: "limit_falls g (fst (sync_from_transport g m))"
proof (cases "ma_state g")
  case MtuUnknown
  then show ?thesis by (simp add: sync_from_transport_def gate_discover_def st_discover_def)
next
  case (MtuAvailable d e)
  then show ?thesis using level_reduce [of "ma_state g" m] by (simp add: sync_from_transport_def gate_reduce_def)
next
  case (MtuReduced d e prev)
  then show ?thesis using level_reduce [of "ma_state g" m] by (simp add: sync_from_transport_def gate_reduce_def)
qed (simp add: sync_from_transport_def)

lemma limit_falls_quiet: "limit_falls g (fst (quiet_exec g e))"
  by (cases e)
    (simp_all add: quiet_exec_def gate_reduce_def gate_blackhole_def level_reduce level_blackhole
      level_sync admit_envelope_state reject_absent_transport_limit_def)

interpretation quiet: keeps_relation quiet_exec "\<lambda>_. True" limit_falls
proof
  fix g h k :: mtu_admission and e out
  show "limit_falls g h \<Longrightarrow> limit_falls h k \<Longrightarrow> limit_falls g k" by (rule order_trans)
  show "quiet_exec g e = (h, out) \<Longrightarrow> limit_falls g h" using limit_falls_quiet [of g e] by simp
qed simp_all

lemma level_datagram: "level st = (Suc 0, d) \<longleftrightarrow> st_datagram_mtu st = Some d"
  "level st = (0, 0) \<longleftrightarrow> st = MtuBlackHole" "level st = (2, 0) \<longleftrightarrow> st = MtuUnknown"
  by (cases st; simp)+

lemma blackhole_admits_nothing: "ma_state g = MtuBlackHole \<Longrightarrow> snd (admit_envelope g n k) \<noteq> Inr e"
  by (simp add: admit_envelope_def admit_datagram_def check_datagram_def)

lemma quiet_trace:
  "trace gate_exec g tr h \<Longrightarrow> \<forall>(e, out) \<in> set tr. \<not> announces e \<Longrightarrow> trace quiet_exec g tr h"
  by (induction rule: trace.induct) (auto intro!: trace.intros simp: quiet_exec_def)

text \<open>The limit of a path never rises behind the supervisor's back: over any sequence of
  reductions, black-hole reports, transport synchronisations and admissions without a discovery or
  a recovery, a known limit can only fall, and a black hole stays one, so that nothing is admitted.\<close>

theorem limit_never_rises:
  assumes "trace gate_exec g tr h" and "\<forall>(e, out) \<in> set tr. \<not> announces e"
    and "st_datagram_mtu (ma_state g) = Some d \<or> ma_state g = MtuBlackHole"
  shows "case st_datagram_mtu (ma_state h) of
      Some d' \<Rightarrow> st_datagram_mtu (ma_state g) = Some d \<and> d' \<le> d
    | None \<Rightarrow> ma_state h = MtuBlackHole \<and> (\<forall>n k e. snd (admit_envelope h n k) \<noteq> Inr e)"
proof -
  have "limit_falls g h"
    using quiet.rel_trace [OF quiet_trace [OF assms(1,2)]] by simp
  then show ?thesis
    using assms(3) blackhole_admits_nothing [of h]
    by (cases "ma_state h"; cases "ma_state g"; simp)
qed

text \<open>From a limit of 1400, a report of 1300 lowers it and a transport limit of 1500 changes nothing.\<close>

theorem limit_never_rises_witness:
  "\<exists>h. trace gate_exec (fst (gate_discover mtu_admission_default 1400))
       [(GReduce 1300, EvReduced 1400 1300), (GSync 1500, EvNoOp)] h \<and>
     st_datagram_mtu (ma_state h) = Some 1300"
proof -
  let ?g = "fst (gate_discover mtu_admission_default 1400)"
  let ?tr = "[(GReduce 1300, EvReduced 1400 1300), (GSync 1500, EvNoOp)]"
  have g: "st_datagram_mtu (ma_state ?g) = Some 1400"
    by (simp add: gate_discover_def st_discover_def)
  have "\<exists>h. trace gate_exec ?g ?tr h \<and> st_datagram_mtu (ma_state h) = Some 1300"
    by (simp add: trace_Cons gate_discover_def st_discover_def gate_reduce_def apply_transition_def
        reduce_from_def sync_from_transport_def)
  then obtain h where h: "trace gate_exec ?g ?tr h" "st_datagram_mtu (ma_state h) = Some 1300" by blast
  have "\<forall>(e, out) \<in> set ?tr. \<not> announces e" by simp
  from limit_never_rises [OF h(1) this disjI1 [OF g]] h show ?thesis by auto
qed

section \<open>The pipeline\<close>

text \<open>What a send does, by its outcome.\<close>

lemma send_checked_cases:
  assumes "send_checked current send s n q build = (s', q', r)"
  obtains (exhausted) "ps_exhausted q" "s' = s" "q' = q" "r = Inl (PacketIdExhausted IdsExhausted)"
  | (rejected) g reason where "\<not> ps_exhausted q" "q' = q" "r = Inl (GateRejected reason)"
      "s' = s\<lparr>cds_admission := g\<rparr>"
      "g = fst (reject_absent_transport_limit (cds_admission s)) \<or>
        (\<exists>m. current (cds_inner s) = Some m \<and>
          admit_envelope (fst (sync_from_transport (cds_admission s) m)) n
            (usize_add FIXED_HEADER_LEN n) = (g, Inl reason))"
  | (admitted) m g eff where "\<not> ps_exhausted q" "current (cds_inner s) = Some m"
      "admit_envelope (fst (sync_from_transport (cds_admission s) m)) n
        (usize_add FIXED_HEADER_LEN n) = (g, Inr eff)"
      "(q' = q \<and> s' = s\<lparr>cds_admission := record_encode_failure g\<rparr> \<and>
          (r = Inl (BuildMismatch (ps_next q) (vh_packet_id (ve_header (build (ps_next q))))) \<or>
           (\<exists>e. r = Inl (EncodeFailed e)))) \<or>
       (\<exists>d t. envelope_encode (build (ps_next q)) eff = Inr d \<and>
          vh_packet_id (ve_header (build (ps_next q))) = ps_next q \<and>
          ((\<exists>e. send d (cds_inner s) = (t, Inl e) \<and> q' = q \<and> r = Inl (TransportFailed e) \<and>
             s' = s\<lparr>cds_inner := t, cds_admission := record_transport_failure g\<rparr>) \<or>
           (send d (cds_inner s) = (t, Inr ()) \<and> q' = seq_commit (ps_next q) q \<and>
             r = Inr (ps_next q) \<and>
             s' = s\<lparr>cds_inner := t, cds_admission := record_enqueue_success g\<rparr>)))"
proof (cases "ps_exhausted q")
  case True
  show ?thesis
    by (rule exhausted) (use assms True in \<open>simp_all add: send_checked_def\<close>)
next
  case q: False
  show ?thesis
  proof (cases "current (cds_inner s)")
    case None
    have "q' = q \<and> r = Inl (GateRejected RejPathMtuUnknown) \<and>
      s' = s\<lparr>cds_admission := fst (reject_absent_transport_limit (cds_admission s))\<rparr>"
      using assms q None by (auto simp: send_checked_def reject_absent_transport_limit_def)
    then show ?thesis using rejected [OF q] by blast
  next
    case (Some m)
    let ?adm = "admit_envelope (fst (sync_from_transport (cds_admission s) m)) n
        (usize_add FIXED_HEADER_LEN n)"
    obtain g res where adm: "?adm = (g, res)" by fastforce
    obtain g1 ev where sync: "sync_from_transport (cds_admission s) m = (g1, ev)" by fastforce
    show ?thesis
    proof (cases res)
      case (Inl reason)
      have "q' = q \<and> r = Inl (GateRejected reason) \<and> s' = s\<lparr>cds_admission := g\<rparr>"
        using assms q Some adm Inl by (simp add: send_checked_def split_beta)
      then show ?thesis using rejected [OF q] Some adm Inl by blast
    next
      case (Inr eff)
      let ?e = "build (ps_next q)"
      have eq: "(s', q', r) =
        (if vh_packet_id (ve_header ?e) \<noteq> ps_next q
         then (s\<lparr>cds_admission := record_encode_failure g\<rparr>, q,
           Inl (BuildMismatch (ps_next q) (vh_packet_id (ve_header ?e))))
         else case envelope_encode ?e eff of
           Inl e \<Rightarrow> (s\<lparr>cds_admission := record_encode_failure g\<rparr>, q, Inl (EncodeFailed e))
         | Inr d \<Rightarrow> (case send d (cds_inner s) of
             (t, Inl e) \<Rightarrow> (s\<lparr>cds_inner := t, cds_admission := record_transport_failure g\<rparr>, q,
               Inl (TransportFailed e))
           | (t, Inr _) \<Rightarrow> (s\<lparr>cds_inner := t, cds_admission := record_enqueue_success g\<rparr>,
               seq_commit (ps_next q) q, Inr (ps_next q))))"
        unfolding assms [symmetric]
        using adm Inr by (simp add: send_checked_def q Some sync seq_preview_def Let_def)
      show ?thesis
      proof (rule admitted [OF q Some adm [unfolded Inr]], goal_cases)
        case 1
        show ?case
        proof (cases "vh_packet_id (ve_header ?e) = ps_next q")
          case True
          show ?thesis
          proof (cases "envelope_encode ?e eff")
            case (Inl e)
            with eq True show ?thesis by simp
          next
            case (Inr d)
            obtain t a where "send d (cds_inner s) = (t, a)" by fastforce
            with eq True Inr show ?thesis by (cases a) auto
          qed
        qed (use eq in simp)
      qed
    qed
  qed
qed

text \<open>C15. A send is atomic. If it fails, whatever the reason, the sequencer is untouched, and the
  transport was only called if the transport itself refused. If it succeeds, the transport accepted
  exactly one datagram, the encoding of the built envelope, which carries the identifier that was
  next, and the sequencer moves past it.\<close>

theorem send_is_atomic:
  assumes "send_checked current send s n q build = (s', q', r)"
  shows "case r of
      Inl e \<Rightarrow> q' = q \<and>
        (cds_inner s' = cds_inner s \<or>
         (\<exists>d err. e = TransportFailed err \<and> send d (cds_inner s) = (cds_inner s', Inl err)))
    | Inr i \<Rightarrow> i = ps_next q \<and> \<not> ps_exhausted q \<and> q' = seq_commit i q \<and>
        vh_packet_id (ve_header (build i)) = i \<and>
        (\<exists>d eff. envelope_encode (build i) eff = Inr d \<and> send d (cds_inner s) = (cds_inner s', Inr ()))"
  using assms by (cases rule: send_checked_cases) (auto, blast)

text \<open>A transport that accepts any datagram up to its limit and keeps a log of them.\<close>

definition log_send :: "byte list \<Rightarrow> byte list list \<Rightarrow> byte list list \<times> (datagram_send_error + unit)" where
  "log_send d log = (if 1400 < length d then (log, Inl (TooLarge (length d) 1400)) else (log @ [d], Inr ()))"

definition demo_sender :: "byte list list checked_datagram_sender" where
  "demo_sender = \<lparr>cds_inner = [], cds_admission = mtu_admission_default\<rparr>"

definition demo_build :: "packet_reservation \<Rightarrow> v2_envelope" where
  "demo_build i = sample_envelope\<lparr>ve_header := sample_header\<lparr>vh_packet_id := i\<rparr>\<rparr>"

lemmas send_eval = send_checked_def demo_sender_def demo_build_def log_send_def
  sync_from_transport_def gate_discover_def st_discover_def apply_transition_def
  admit_envelope_def admit_datagram_def check_datagram_def usize_small FIXED_HEADER_LEN_def
  seq_preview_def sequencer_new_def mtu_admission_default_def sample_envelope_def sample_header_def
  effective_payload_def envelope_encode_def validate_header_def validate_payload_len_def
  reject_absent_transport_limit_def Let_def

lemma demo_send: "\<exists>s' q'. send_checked (\<lambda>_. Some 1400) log_send demo_sender 3 (sequencer_new 9) demo_build =
    (s', q', Inr 9)"
  by (simp add: send_eval)

lemma demo_refused: "\<exists>s'. send_checked (\<lambda>_. None) log_send demo_sender 3 (sequencer_new 9) demo_build =
    (s', sequencer_new 9, Inl (GateRejected RejPathMtuUnknown))"
  by (simp add: send_eval)

theorem send_is_atomic_witness:
  "\<exists>s' q' d eff. send_checked (\<lambda>_. Some 1400) log_send demo_sender 3 (sequencer_new 9) demo_build =
     (s', q', Inr 9) \<and> q' = seq_commit 9 (sequencer_new 9) \<and>
     envelope_encode (demo_build 9) eff = Inr d \<and> log_send d [] = (cds_inner s', Inr ())"
proof -
  obtain s' q' where s: "send_checked (\<lambda>_. Some 1400) log_send demo_sender 3 (sequencer_new 9) demo_build =
    (s', q', Inr 9)" using demo_send by blast
  from send_is_atomic [OF s] s show ?thesis by (auto simp: demo_sender_def)
qed

text \<open>Nothing the pipeline enqueues can be too large for the path or unreadable at the other
  end: with a valid gate and a transport that advertises valid limits, an accepted datagram fits
  the limit the transport advertised for this very send, and a receiver with the payload limit of
  that path decodes it to exactly the envelope that was built, under the issued identifier.\<close>

theorem enqueued_datagram_fits_and_decodes:
  assumes s: "send_checked current send s n q build = (s', q', Inr i)"
    and gate: "gate_ok (cds_admission s)"
    and valid: "\<And>m. current (cds_inner s) = Some m \<Longrightarrow> mtu_valid m"
  shows "\<exists>m d. current (cds_inner s) = Some m \<and> send d (cds_inner s) = (cds_inner s', Inr ()) \<and>
    length d \<le> m \<and> envelope_decode d (effective_payload m) = Inr (build i) \<and>
    vh_packet_id (ve_header (build i)) = i"
  using s
proof (cases rule: send_checked_cases)
  case (admitted m g eff)
  let ?g = "fst (sync_from_transport (cds_admission s) m)"
  obtain d where d: "envelope_encode (build i) eff = Inr d" "send d (cds_inner s) = (cds_inner s', Inr ())"
    "vh_packet_id (ve_header (build i)) = i"
    using admitted(4) by auto
  have "gate_ok ?g" using gate_ok_sync [OF gate] valid admitted(2) by simp
  then obtain l where l: "st_datagram_mtu (ma_state ?g) = Some l" "eff = effective_payload l" "mtu_valid l"
    using admit_envelope_Inr [OF admitted(3)] by blast
  have lm: "l \<le> m" by (rule sync_limit [OF l(1)])
  have len: "length d = 52 + length (ve_payload (build i))" "length (ve_payload (build i)) \<le> eff"
    and enc: "envelope_encode (build i) (effective_payload m) = Inr d"
    using d(1) l(2) lm
    by (auto simp: envelope_encode_Inr validate_payload_len_Inr effective_payload_def)
  have "length d \<le> m"
    using len l(2,3) lm by (auto simp: effective_payload_def mtu_valid_def FIXED_HEADER_LEN_def)
  then show ?thesis
    using admitted(2) d(2,3) envelope_roundtrip [OF enc] by blast
qed auto

theorem enqueued_datagram_fits_and_decodes_witness:
  "\<exists>s' q' d. send_checked (\<lambda>_. Some 1400) log_send demo_sender 3 (sequencer_new 9) demo_build =
     (s', q', Inr 9) \<and> length d \<le> 1400 \<and> log_send d [] = (cds_inner s', Inr ()) \<and>
     envelope_decode d 1348 = Inr (demo_build 9)"
proof -
  obtain s' q' where s: "send_checked (\<lambda>_. Some 1400) log_send demo_sender 3 (sequencer_new 9) demo_build =
    (s', q', Inr 9)" using demo_send by blast
  have g: "gate_ok (cds_admission demo_sender)" by (simp add: demo_sender_def gate_ok_start)
  have v: "mtu_valid 1400" by (simp add: mtu_valid_def FIXED_HEADER_LEN_def MAX_DATAGRAM_MTU_def)
  from enqueued_datagram_fits_and_decodes [OF s g] v s show ?thesis
    by (auto simp: demo_sender_def effective_payload_def FIXED_HEADER_LEN_def)
qed

section \<open>Sequences of sends\<close>

definition send_exec ::
  "('t \<Rightarrow> datagram_mtu option) \<Rightarrow> (byte list \<Rightarrow> 't \<Rightarrow> 't \<times> (datagram_send_error + unit))
    \<Rightarrow> ('t checked_datagram_sender \<times> packet_id_sequencer, nat \<times> (packet_reservation \<Rightarrow> v2_envelope),
        checked_send_error + packet_id) machine" where
  "send_exec current send sq ev =
     (let (s, q) = sq; (n, build) = ev; (s', q', r) = send_checked current send s n q build
      in ((s', q'), r))"

fun issued :: "('e \<times> ('x + packet_id)) list \<Rightarrow> packet_id list" where
  "issued [] = []"
| "issued ((e, Inl x) # tr) = issued tr"
| "issued ((e, Inr i) # tr) = i # issued tr"

lemma send_exec_cases:
  assumes "send_exec current send (s, q) ev = ((s', q'), r)"
  shows "send_checked current send s (fst ev) q (snd ev) = (s', q', r)"
  using assms by (cases ev) (simp add: send_exec_def split: prod.splits)

lemma send_exec_sequencer:
  assumes "send_exec current send (s, q) ev = ((s', q'), r)"
  shows "case r of Inl e \<Rightarrow> q' = q | Inr i \<Rightarrow> i = ps_next q \<and> \<not> ps_exhausted q \<and> q' = seq_commit i q"
  using send_exec_cases [OF assms] by (cases rule: send_checked_cases) auto

definition seq_position :: "packet_id_sequencer \<Rightarrow> nat" where
  "seq_position q = (if ps_exhausted q then 2 ^ 64 else unat (ps_next q))"

lemma seq_position_le: "seq_position q \<le> 2 ^ 64"
  using unat_bound [of "ps_next q"] by (simp add: seq_position_def)

lemma seq_position_commit:
  assumes "\<not> ps_exhausted q"
  shows "seq_position (seq_commit (ps_next q) q) = seq_position q + 1"
proof (cases "ps_next q = - 1")
  case True
  with assms show ?thesis by (simp add: seq_commit_def seq_position_def unat_minus_1_word)
next
  case False
  with assms show ?thesis by (simp add: seq_commit_def seq_position_def unat_inc)
qed

lemma issued_trace:
  "trace (send_exec current send) sq tr su \<Longrightarrow>
    map unat (issued tr) = [seq_position (snd sq) ..< seq_position (snd su)] \<and>
    seq_position (snd sq) \<le> seq_position (snd su)"
proof (induction rule: trace.induct)
  case (go sq ev t r tr u)
  obtain s q s' q' where sq: "sq = (s, q)" "t = (s', q')" by fastforce
  show ?case
  proof (cases r)
    case (Inl e)
    then show ?thesis using send_exec_sequencer [OF go.hyps(1) [unfolded sq]] go.IH sq by simp
  next
    case (Inr i)
    then have i: "i = ps_next q" "\<not> ps_exhausted q" "q' = seq_commit (ps_next q) q"
      using send_exec_sequencer [OF go.hyps(1) [unfolded sq]] by auto
    then have pos: "seq_position q' = seq_position q + 1"
      using seq_position_commit by simp
    moreover have "seq_position q = unat i" using i by (simp add: seq_position_def)
    ultimately have pos: "seq_position q' = seq_position q + 1" "seq_position q = unat i" by simp_all
    then show ?thesis
      using go.IH sq Inr by (simp add: upt_conv_Cons)
  qed
qed simp

text \<open>C27. Packet identifiers are issued in order, without gaps and without reuse: over any sequence of
  sends, with any transport and any failures in between, the successful ones carry consecutive
  identifiers from the first, all below \<open>2 ^ 64\<close>; once the last identifier is issued the
  sequencer is exhausted for good and every further send fails.\<close>

theorem packet_ids_consecutive:
  assumes "trace (send_exec current send) (s, sequencer_new a) tr (s', q)"
  shows "map unat (issued tr) = [unat a ..< unat a + length (issued tr)] \<and>
    unat a + length (issued tr) \<le> 2 ^ 64 \<and>
    (ps_exhausted q \<longleftrightarrow> unat a + length (issued tr) = 2 ^ 64)"
proof -
  have start: "seq_position (sequencer_new a) = unat a"
    by (simp add: seq_position_def sequencer_new_def)
  note tr = issued_trace [OF assms, simplified snd_conv start]
  then have "length (issued tr) = seq_position q - unat a" by (metis length_map length_upt)
  then have "unat a + length (issued tr) = seq_position q" using tr by simp
  moreover have "ps_exhausted q \<longleftrightarrow> seq_position q = 2 ^ 64"
    using unat_bound [of "ps_next q"] by (auto simp: seq_position_def)
  ultimately show ?thesis using tr seq_position_le [of q] by simp
qed

text \<open>The last identifier, a refused send, and a send after the last identifier.\<close>

theorem packet_ids_consecutive_witness:
  "\<exists>s q. trace (send_exec (\<lambda>log. if length log < 3 then Some 1400 else None) log_send)
       (demo_sender, sequencer_new (- 1))
       [((2000, demo_build), Inl (GateRejected (RejDatagramExceedsMtu 2052 1400))),
        ((3, demo_build), Inr (- 1)), ((3, demo_build), Inl (PacketIdExhausted IdsExhausted))] (s, q) \<and>
     ps_exhausted q"
proof -
  let ?current = "\<lambda>log :: byte list list. if length log < 3 then Some 1400 else None"
  let ?tr = "[((2000 :: nat, demo_build), Inl (GateRejected (RejDatagramExceedsMtu 2052 1400))),
        ((3, demo_build), Inr (- 1)), ((3, demo_build), Inl (PacketIdExhausted IdsExhausted))]"
  have "\<exists>u. trace (send_exec ?current log_send) (demo_sender, sequencer_new (- 1)) ?tr u"
    by (simp add: trace_Cons send_exec_def) (simp add: send_eval record_enqueue_success_def seq_commit_def)
  then obtain s q where "trace (send_exec ?current log_send) (demo_sender, sequencer_new (- 1)) ?tr (s, q)"
    by auto
  with packet_ids_consecutive [OF this] show ?thesis by (auto simp: unat_minus_1_word)
qed

subsection \<open>Accounting\<close>

definition sender_metrics :: "'t checked_datagram_sender \<times> packet_id_sequencer \<Rightarrow> mtu_metrics" where
  "sender_metrics sq = ma_metrics (cds_admission (fst sq))"

fun was_enqueued :: "'e \<times> (checked_send_error + packet_id) \<Rightarrow> bool" where
  "was_enqueued (e, Inr i) = True"
| "was_enqueued (e, Inl x) = False"

fun was_rejected :: "'e \<times> (checked_send_error + packet_id) \<Rightarrow> bool" where
  "was_rejected (e, Inl (GateRejected x)) = True"
| "was_rejected _ = False"

fun was_unencodable :: "'e \<times> (checked_send_error + packet_id) \<Rightarrow> bool" where
  "was_unencodable (e, Inl (BuildMismatch i j)) = True"
| "was_unencodable (e, Inl (EncodeFailed x)) = True"
| "was_unencodable _ = False"

fun was_refused :: "'e \<times> (checked_send_error + packet_id) \<Rightarrow> bool" where
  "was_refused (e, Inl (TransportFailed x)) = True"
| "was_refused _ = False"

definition was_admitted :: "'e \<times> (checked_send_error + packet_id) \<Rightarrow> bool" where
  "was_admitted x \<longleftrightarrow> was_enqueued x \<or> was_unencodable x \<or> was_refused x"

definition send_counts :: "mtu_metrics \<Rightarrow> u64 list" where
  "send_counts m = [mm_sends_admitted m, mm_sends_enqueued m, mm_sends_rejected m,
     mm_encode_failures m, mm_transport_failures m]"

lemma send_counts_event: "send_counts (record_event ev m) = send_counts m"
  by (cases ev) (simp_all add: send_counts_def)

lemma send_counts_sync:
  "send_counts (ma_metrics (fst (sync_from_transport g m))) = send_counts (ma_metrics g)"
  by (simp add: sync_from_transport_def gate_discover_def gate_reduce_def apply_transition_def
      send_counts_event split: path_mtu_state.split prod.split)

lemma send_counts_admit:
  "admit_envelope g n k = (g', r) \<Longrightarrow> send_counts (ma_metrics g') =
     (case r of
        Inl e \<Rightarrow> (send_counts (ma_metrics g))[2 := sat_inc (mm_sends_rejected (ma_metrics g))]
      | Inr e \<Rightarrow> (send_counts (ma_metrics g))[0 := sat_inc (mm_sends_admitted (ma_metrics g))])"
  by (auto simp: admit_envelope_def admit_datagram_def send_counts_def Let_def split: sum.splits if_splits)

lemma sat_add_0 [simp]: "sat_add w 0 = (w :: u64)"
  using unat_bound [of w] by (simp add: sat_add_def)

lemma send_exec_counts:
  assumes "send_exec current send sq ev = (tq, r)"
  shows "send_counts (sender_metrics tq) = map2 (\<lambda>c b. sat_add c (of_bool b)) (send_counts (sender_metrics sq))
    [was_admitted (ev, r), was_enqueued (ev, r), was_rejected (ev, r), was_unencodable (ev, r), was_refused (ev, r)]"
proof -
  obtain s q s' q' where sq: "sq = (s, q)" "tq = (s', q')" by fastforce
  note step = send_exec_cases [OF assms [unfolded sq]]
  let ?m = "ma_metrics (cds_admission s)"
  from step show ?thesis
  proof (cases rule: send_checked_cases)
    case exhausted
    then show ?thesis by (simp add: sq sender_metrics_def send_counts_def was_admitted_def)
  next
    case (rejected g reason)
    have "send_counts (ma_metrics g) = (send_counts ?m)[2 := sat_inc (mm_sends_rejected ?m)]"
      using rejected(5)
    proof
      assume "\<exists>m. current (cds_inner s) = Some m \<and>
          admit_envelope (fst (sync_from_transport (cds_admission s) m)) (fst ev)
            (usize_add FIXED_HEADER_LEN (fst ev)) = (g, Inl reason)"
      then obtain m where "admit_envelope (fst (sync_from_transport (cds_admission s) m)) (fst ev)
            (usize_add FIXED_HEADER_LEN (fst ev)) = (g, Inl reason)" by blast
      from send_counts_admit [OF this] send_counts_sync [of "cds_admission s" m] show ?thesis
        by (simp add: send_counts_def)
    qed (simp add: reject_absent_transport_limit_def send_counts_def)
    with rejected show ?thesis by (simp add: sq sender_metrics_def send_counts_def was_admitted_def)
  next
    case (admitted m g eff)
    have "send_counts (ma_metrics g) = (send_counts ?m)[0 := sat_inc (mm_sends_admitted ?m)]"
      using send_counts_admit [OF admitted(3)] send_counts_sync [of "cds_admission s" m]
      by (simp add: send_counts_def)
    then have g: "mm_sends_admitted (ma_metrics g) = sat_inc (mm_sends_admitted ?m)"
      "mm_sends_enqueued (ma_metrics g) = mm_sends_enqueued ?m"
      "mm_sends_rejected (ma_metrics g) = mm_sends_rejected ?m"
      "mm_encode_failures (ma_metrics g) = mm_encode_failures ?m"
      "mm_transport_failures (ma_metrics g) = mm_transport_failures ?m"
      by (simp_all add: send_counts_def)
    note outcome = sq sender_metrics_def send_counts_def was_admitted_def record_encode_failure_def
      record_transport_failure_def record_enqueue_success_def g
    from admitted(4) show ?thesis
    proof (elim disjE exE conjE, goal_cases)
      case 1
      show ?thesis unfolding 1 outcome by (simp add: g)
    next
      case (2 e)
      show ?thesis unfolding 2 outcome by (simp add: g)
    next
      case (3 d t e)
      show ?thesis unfolding 3(5,6) outcome by (simp add: g)
    next
      case (4 d t)
      show ?thesis unfolding 4(5,6) outcome by (simp add: g)
    qed
  qed
qed

interpretation admitted: counts "send_exec current send" "mm_sends_admitted \<circ> sender_metrics" was_admitted
  for current :: "'t \<Rightarrow> datagram_mtu option" and send
  by unfold_locales (auto dest!: send_exec_counts simp: send_counts_def)

interpretation enqueued: counts "send_exec current send" "mm_sends_enqueued \<circ> sender_metrics" was_enqueued
  for current :: "'t \<Rightarrow> datagram_mtu option" and send
  by unfold_locales (auto dest!: send_exec_counts simp: send_counts_def)

interpretation rejected: counts "send_exec current send" "mm_sends_rejected \<circ> sender_metrics" was_rejected
  for current :: "'t \<Rightarrow> datagram_mtu option" and send
  by unfold_locales (auto dest!: send_exec_counts simp: send_counts_def)

interpretation unencodable: counts "send_exec current send" "mm_encode_failures \<circ> sender_metrics" was_unencodable
  for current :: "'t \<Rightarrow> datagram_mtu option" and send
  by unfold_locales (auto dest!: send_exec_counts simp: send_counts_def)

interpretation refused: counts "send_exec current send" "mm_transport_failures \<circ> sender_metrics" was_refused
  for current :: "'t \<Rightarrow> datagram_mtu option" and send
  by unfold_locales (auto dest!: send_exec_counts simp: send_counts_def)

text \<open>The counters account for every send: from fresh counters, after any sequence of sends each
  counter is the number of sends with that outcome, up to saturation, and the admitted sends are
  exactly the enqueued ones, those that could not be encoded and those the transport refused.\<close>

theorem sends_accounted:
  assumes "trace (send_exec current send) (s, q) tr u" and "ma_metrics (cds_admission s) = mtu_metrics_default"
  shows "let m = sender_metrics u; top = 2 ^ 64 - 1; count = (\<lambda>P. length (filter P tr)) in
    unat (mm_sends_enqueued m) = min (count was_enqueued) top \<and>
    unat (mm_sends_rejected m) = min (count was_rejected) top \<and>
    unat (mm_encode_failures m) = min (count was_unencodable) top \<and>
    unat (mm_transport_failures m) = min (count was_refused) top \<and>
    unat (mm_sends_admitted m) = min (count was_enqueued + count was_unencodable + count was_refused) top"
proof -
  have zero: "sender_metrics (s, q) = mtu_metrics_default" using assms(2) by (simp add: sender_metrics_def)
  have split: "length (filter was_admitted tr) =
      length (filter was_enqueued tr) + length (filter was_unencodable tr) + length (filter was_refused tr)"
  proof (induction tr)
    case (Cons x tr)
    obtain e r where x: "x = (e, r)" by fastforce
    show ?case
      using Cons unfolding x
      by (cases r; simp add: was_admitted_def) (rename_tac err; case_tac err; simp)
  qed simp
  have "unat (mm_sends_enqueued (sender_metrics u)) = min (length (filter was_enqueued tr)) (2 ^ 64 - 1)"
    using enqueued.counter_trace [OF assms(1)] by (simp add: zero mtu_metrics_default_def)
  moreover have "unat (mm_sends_rejected (sender_metrics u)) = min (length (filter was_rejected tr)) (2 ^ 64 - 1)"
    using rejected.counter_trace [OF assms(1)] by (simp add: zero mtu_metrics_default_def)
  moreover have "unat (mm_encode_failures (sender_metrics u)) = min (length (filter was_unencodable tr)) (2 ^ 64 - 1)"
    using unencodable.counter_trace [OF assms(1)] by (simp add: zero mtu_metrics_default_def)
  moreover have "unat (mm_transport_failures (sender_metrics u)) = min (length (filter was_refused tr)) (2 ^ 64 - 1)"
    using refused.counter_trace [OF assms(1)] by (simp add: zero mtu_metrics_default_def)
  moreover have "unat (mm_sends_admitted (sender_metrics u)) = min (length (filter was_admitted tr)) (2 ^ 64 - 1)"
    using admitted.counter_trace [OF assms(1)] by (simp add: zero mtu_metrics_default_def)
  ultimately show ?thesis unfolding Let_def split by blast
qed

theorem sends_accounted_witness:
  "\<exists>u. trace (send_exec (\<lambda>_. Some 1400) log_send) (demo_sender, sequencer_new 9) [((3, demo_build), Inr 9)] u \<and>
     unat (mm_sends_admitted (sender_metrics u)) = 1 \<and> unat (mm_sends_enqueued (sender_metrics u)) = 1"
proof -
  have "\<exists>u. trace (send_exec (\<lambda>_. Some 1400) log_send) (demo_sender, sequencer_new 9) [((3, demo_build), Inr 9)] u"
    using demo_send by (auto simp: trace_Cons send_exec_def)
  then obtain u where u: "trace (send_exec (\<lambda>_. Some 1400) log_send) (demo_sender, sequencer_new 9)
      [((3, demo_build), Inr 9)] u" by blast
  have "ma_metrics (cds_admission demo_sender) = mtu_metrics_default"
    by (simp add: demo_sender_def mtu_admission_default_def)
  from sends_accounted [OF u this] u show ?thesis by (intro exI [of _ u]) (simp add: Let_def)
qed

end
