(* ===== verification/Classifier.thy ===== *)
theory Classifier
  imports CoreTypes
begin

text \<open>
  The packet classifier of \<open>crates/sg-multipath/src/v2/classifier.rs\<close>: the bounds-checked
  parsing of IPv4 and IPv6 headers, the FNV-1a flow identity and the outcome counters. A
  packet is the list of its bytes; \<open>&packet[..n]\<close> is \<open>take n\<close>, behind the guard that makes
  it valid in the code, and \<open>packet.get(i..j)\<close> is \<open>get_range\<close>.

  The reading positions are proved rather than assumed: a classification is a function of
  the header bytes alone, a fragment's transport bytes are never looked at, and every
  single byte of a flow's addresses and ports makes a difference to its identity.
\<close>

unbundle bit_operations_syntax

section \<open>Data\<close>

record classification =
  cl_flow_id :: flow_id
  cl_traffic_class :: traffic_class

datatype classify_error = ClEmpty | ClTruncated | ClNotIp | ClInvalidHeader

record classifier_metrics =
  cm_classified :: u64
  cm_fragments :: u64
  cm_truncated_dropped :: u64
  cm_invalid_dropped :: u64

record classifier =
  cf_metrics :: classifier_metrics

definition classifier_new :: classifier where
  "classifier_new = \<lparr>cf_metrics = \<lparr>cm_classified = 0, cm_fragments = 0,
     cm_truncated_dropped = 0, cm_invalid_dropped = 0\<rparr>\<rparr>"

section \<open>Operations\<close>

definition get_range :: "nat \<Rightarrow> nat \<Rightarrow> 'a list \<Rightarrow> 'a list option" where
  "get_range i j xs = (if i \<le> j \<and> j \<le> length xs then Some (slice i j xs) else None)"

definition FNV_OFFSET :: u64 where
  "FNV_OFFSET = 0xcbf29ce484222325"

definition FNV_PRIME :: u64 where
  "FNV_PRIME = 0x100000001b3"

definition fnv_mix :: "byte \<Rightarrow> u64 \<Rightarrow> u64" where
  "fnv_mix b h = (h XOR ucast b) * FNV_PRIME"

abbreviation fnv_mix_all :: "byte list \<Rightarrow> u64 \<Rightarrow> u64" where
  "fnv_mix_all \<equiv> fold fnv_mix"

definition hash_flow ::
  "byte list \<Rightarrow> byte list \<Rightarrow> byte list \<Rightarrow> (u16 \<times> u16) option \<Rightarrow> u16 option \<Rightarrow> bool \<Rightarrow> flow_id" where
  "hash_flow prefix src dst ports ip_id fragmented =
     (let h = fnv_mix_all prefix FNV_OFFSET;
          h = fnv_mix (if fragmented then 1 else 0) h;
          h = fnv_mix_all src h;
          h = fnv_mix_all dst h;
          h = (case ports of
                 Some (a, b) \<Rightarrow> fnv_mix_all (to_be a @ to_be b) h
               | None \<Rightarrow> fnv_mix 0xF0 h)
      in (case ip_id of
            Some i \<Rightarrow> fnv_mix_all (to_be i) h
          | None \<Rightarrow> fnv_mix 0x0D h))"

definition combine :: "flow_id \<Rightarrow> u32 \<Rightarrow> flow_id" where
  "combine flow value = fnv_mix_all (to_be value) flow"

definition transport_ports :: "byte list \<Rightarrow> nat \<Rightarrow> byte \<Rightarrow> byte \<Rightarrow> (u16 \<times> u16) option" where
  "transport_ports packet header_len protocol icmp_protocol =
     (if protocol = 6 \<or> protocol = 17 then
        (case get_range header_len (usize_add header_len 4) packet of
           None \<Rightarrow> None
         | Some base \<Rightarrow> Some (from_be [base ! 0, base ! 1], from_be [base ! 2, base ! 3]))
      else if protocol = icmp_protocol then
        (case get_range header_len (usize_add header_len 6) packet of
           None \<Rightarrow> None
         | Some base \<Rightarrow>
             if length base < 6 then None
             else Some (from_be [base ! 4, base ! 5], 0))
      else None)"

definition class_for_protocol :: "byte \<Rightarrow> traffic_class" where
  "class_for_protocol protocol =
     (if protocol = 6 then Bulk
      else if protocol = 17 then Realtime
      else if protocol = 1 \<or> protocol = 58 then Interactive
      else Bulk)"

definition classify_ipv4 :: "byte list \<Rightarrow> classify_error + classification" where
  "classify_ipv4 packet =
     (if length packet < 20 then Inl ClTruncated
      else let ihl_words = packet ! 0 AND 0x0F in
      if ihl_words < 5 then Inl ClInvalidHeader
      else let header_len = usize_mul (unat ihl_words) 4 in
      if length packet < header_len then Inl ClTruncated
      else let total_len = unat (from_be [packet ! 2, packet ! 3] :: u16) in
      if total_len < header_len then Inl ClInvalidHeader
      else if length packet < total_len then Inl ClTruncated
      else
        let packet = take total_len packet;
            protocol = packet ! 9;
            flags_offset = from_be [packet ! 6, packet ! 7] :: u16;
            more_fragments = flags_offset AND 0x2000 \<noteq> 0;
            fragment_offset = flags_offset AND 0x1FFF;
            identification = from_be [packet ! 4, packet ! 5]
        in case get_range 12 16 packet of
          None \<Rightarrow> Inl ClTruncated
        | Some src \<Rightarrow>
            (case get_range 16 20 packet of
               None \<Rightarrow> Inl ClTruncated
             | Some dst \<Rightarrow>
                 if more_fragments \<or> fragment_offset \<noteq> 0
                 then Inr \<lparr>cl_flow_id = hash_flow [4, protocol] src dst None (Some identification) True,
                           cl_traffic_class = Bulk\<rparr>
                 else let ports = transport_ports packet header_len protocol 1
                      in Inr \<lparr>cl_flow_id = hash_flow [4, protocol] src dst ports None False,
                              cl_traffic_class = class_for_protocol protocol\<rparr>))"

definition classify_ipv6 :: "byte list \<Rightarrow> classify_error + classification" where
  "classify_ipv6 packet =
     (if length packet < 40 then Inl ClTruncated
      else let payload_len = unat (from_be [packet ! 4, packet ! 5] :: u16) in
      if length packet < usize_add payload_len 40 then Inl ClTruncated
      else
        let packet = take (usize_add 40 payload_len) packet;
            next_header = packet ! 6
        in case get_range 8 24 packet of
          None \<Rightarrow> Inl ClTruncated
        | Some src \<Rightarrow>
            (case get_range 24 40 packet of
               None \<Rightarrow> Inl ClTruncated
             | Some dst \<Rightarrow>
                 if next_header = 44 then
                   (if length packet < 48 then Inl ClTruncated
                    else let identification =
                           from_be [packet ! 44, packet ! 45, packet ! 46, packet ! 47]
                         in Inr \<lparr>cl_flow_id =
                              combine (hash_flow [6, next_header] src dst None None True) identification,
                              cl_traffic_class = Bulk\<rparr>)
                 else if next_header = 0 \<or> next_header = 43 \<or> next_header = 60 then
                   Inr \<lparr>cl_flow_id = hash_flow [6, next_header] src dst None None False,
                        cl_traffic_class = Bulk\<rparr>
                 else let ports = transport_ports packet 40 next_header 58
                      in Inr \<lparr>cl_flow_id = hash_flow [6, next_header] src dst ports None False,
                              cl_traffic_class = class_for_protocol next_header\<rparr>))"

definition classify_packet :: "byte list \<Rightarrow> classify_error + classification" where
  "classify_packet packet =
     (case packet of
        [] \<Rightarrow> Inl ClEmpty
      | first # _ \<Rightarrow>
          if drop_bit 4 first = 4 then classify_ipv4 packet
          else if drop_bit 4 first = 6 then classify_ipv6 packet
          else Inl ClNotIp)"

definition get_or_zero :: "byte list \<Rightarrow> nat \<Rightarrow> byte" where
  "get_or_zero xs i = (if i < length xs then xs ! i else 0)"

definition is_fragment :: "byte list \<Rightarrow> bool" where
  "is_fragment packet =
     (case packet of
        [] \<Rightarrow> False
      | first # _ \<Rightarrow>
          if drop_bit 4 first = 4 then
            (if length packet < 20 then False
             else let ihl_words = packet ! 0 AND 0x0F in
             if ihl_words < 5 then False
             else let header_len = usize_mul (unat ihl_words) 4 in
             if length packet < header_len then False
             else let total_len = unat (from_be [packet ! 2, packet ! 3] :: u16) in
             if total_len < header_len \<or> length packet < total_len then False
             else let packet = take total_len packet in
             if length packet < 8 then False
             else let flags_offset = from_be [get_or_zero packet 6, get_or_zero packet 7] :: u16
                  in flags_offset AND 0x3FFF \<noteq> 0 \<or> flags_offset AND 0x2000 \<noteq> 0)
          else if drop_bit 4 first = 6 then
            (if length packet < 40 then False
             else let payload_len = unat (from_be [packet ! 4, packet ! 5] :: u16) in
             if length packet < usize_add payload_len 40 then False
             else 7 \<le> length packet \<and> get_or_zero packet 6 = 44)
          else False)"

definition classify :: "classifier \<Rightarrow> byte list \<Rightarrow> classifier \<times> (classify_error + classification)" where
  "classify self packet =
     (case classify_packet packet of
        Inr classification \<Rightarrow>
          let self = cf_metrics_update (cm_classified_update sat_inc) self;
              self = (if is_fragment packet
                      then cf_metrics_update (cm_fragments_update sat_inc) self else self)
          in (self, Inr classification)
      | Inl error \<Rightarrow>
          ((case error of
              ClEmpty \<Rightarrow> cf_metrics_update (cm_truncated_dropped_update sat_inc) self
            | ClTruncated \<Rightarrow> cf_metrics_update (cm_truncated_dropped_update sat_inc) self
            | ClNotIp \<Rightarrow> cf_metrics_update (cm_invalid_dropped_update sat_inc) self
            | ClInvalidHeader \<Rightarrow> cf_metrics_update (cm_invalid_dropped_update sat_inc) self),
           Inl error))"

section \<open>Normal forms\<close>

text \<open>
  The declared extents of a packet: the version in the first nibble, the end of the network
  header, the end of the datagram and the protocol of its payload.
\<close>

definition is_v4 :: "byte list \<Rightarrow> bool" where
  "is_v4 p \<longleftrightarrow> drop_bit 4 (p ! 0) = 4"

definition l4_offset :: "byte list \<Rightarrow> nat" where
  "l4_offset p = (if is_v4 p then 4 * unat (p ! 0 AND 0x0F) else 40)"

definition declared_len :: "byte list \<Rightarrow> nat" where
  "declared_len p = (if is_v4 p then unat (from_be [p ! 2, p ! 3] :: u16)
     else 40 + unat (from_be [p ! 4, p ! 5] :: u16))"

definition l4_protocol :: "byte list \<Rightarrow> byte" where
  "l4_protocol p = (if is_v4 p then p ! 9 else p ! 6)"

definition v4_accepted :: "byte list \<Rightarrow> bool" where
  "v4_accepted p \<longleftrightarrow> 20 \<le> length p \<and> 5 \<le> p ! 0 AND 0x0F \<and> l4_offset p \<le> declared_len p \<and>
     declared_len p \<le> length p"

definition v4_fragment :: "byte list \<Rightarrow> bool" where
  "v4_fragment p \<longleftrightarrow> from_be [p ! 6, p ! 7] AND (0x3FFF :: u16) \<noteq> 0"

definition v4_result :: "byte list \<Rightarrow> classification" where
  "v4_result p =
     (if v4_fragment p
      then \<lparr>cl_flow_id = hash_flow [4, p ! 9] (slice 12 16 p) (slice 16 20 p) None
              (Some (from_be [p ! 4, p ! 5])) True,
            cl_traffic_class = Bulk\<rparr>
      else \<lparr>cl_flow_id = hash_flow [4, p ! 9] (slice 12 16 p) (slice 16 20 p)
              (transport_ports (take (declared_len p) p) (l4_offset p) (p ! 9) 1) None False,
            cl_traffic_class = class_for_protocol (p ! 9)\<rparr>)"

definition v6_accepted :: "byte list \<Rightarrow> bool" where
  "v6_accepted p \<longleftrightarrow> 40 \<le> length p \<and> declared_len p \<le> length p \<and>
     (p ! 6 = 44 \<longrightarrow> 48 \<le> declared_len p)"

definition v6_result :: "byte list \<Rightarrow> classification" where
  "v6_result p =
     (if p ! 6 = 44
      then \<lparr>cl_flow_id = combine (hash_flow [6, p ! 6] (slice 8 24 p) (slice 24 40 p) None None True)
              (from_be [p ! 44, p ! 45, p ! 46, p ! 47]),
            cl_traffic_class = Bulk\<rparr>
      else if p ! 6 = 0 \<or> p ! 6 = 43 \<or> p ! 6 = 60
      then \<lparr>cl_flow_id = hash_flow [6, p ! 6] (slice 8 24 p) (slice 24 40 p) None None False,
            cl_traffic_class = Bulk\<rparr>
      else \<lparr>cl_flow_id = hash_flow [6, p ! 6] (slice 8 24 p) (slice 24 40 p)
              (transport_ports (take (declared_len p) p) 40 (p ! 6) 58) None False,
            cl_traffic_class = class_for_protocol (p ! 6)\<rparr>)"

lemma slice_take: "j \<le> n \<Longrightarrow> slice i j (take n xs) = slice i j xs"
  by (simp add: slice_def drop_take min_def)

lemma nibble_bound: "unat (b AND 0x0F :: byte) < 16"
proof -
  have "unat (b AND 0x0F) \<le> unat (0x0F :: byte)"
    by (rule word_and_le1 [THEN word_le_nat_alt [THEN iffD1]])
  then show ?thesis by simp
qed

lemma fragment_bits:
  "(x :: u16) AND 0x3FFF = 0 \<longleftrightarrow> x AND 0x2000 = 0 \<and> x AND 0x1FFF = 0"
proof -
  have "(0x3FFF :: u16) = 0x2000 OR 0x1FFF" by simp
  then have "x AND 0x3FFF = (x AND 0x2000) OR (x AND 0x1FFF)"
    by (simp only: bit.conj_disj_distrib)
  then show ?thesis by (simp add: or_eq_0_iff)
qed

lemma v4_accepted_min: "v4_accepted p \<Longrightarrow> is_v4 p \<Longrightarrow> 20 \<le> l4_offset p"
  by (simp add: v4_accepted_def l4_offset_def word_le_nat_alt)

lemma unat_u16_less: "unat (w :: u16) < 65536"
  using unat_bound [of w] by simp

lemmas extents = is_v4_def l4_offset_def declared_len_def

lemma classify_ipv4_Inr:
  assumes v: "is_v4 p"
  shows "classify_ipv4 p = Inr c \<longleftrightarrow> v4_accepted p \<and> c = v4_result p"
proof (cases "v4_accepted p")
  case True
  note acc = True [unfolded v4_accepted_def]
  let ?t = "declared_len p"
  have t: "20 \<le> ?t" using v4_accepted_min [OF True v] acc by linarith
  have ihl: "usize_mul (unat (p ! 0 AND 0x0F)) 4 = l4_offset p"
    using v nibble_bound [of "p ! 0"] by (simp add: usize_small l4_offset_def)
  have d: "unat (from_be [p ! 2, p ! 3] :: u16) = ?t" using v by (simp add: declared_len_def)
  have nth: "take ?t p ! i = p ! i" if "i < 20" for i using that t by simp
  have get: "get_range 12 16 (take ?t p) = Some (slice 12 16 p)"
    "get_range 16 20 (take ?t p) = Some (slice 16 20 p)"
    using t acc by (simp_all add: get_range_def slice_take)
  show ?thesis
    using acc True
    by (auto simp: classify_ipv4_def Let_def ihl d get nth fragment_bits v4_result_def v4_fragment_def
        not_less)
next
  case False
  have ihl: "usize_mul (unat (p ! 0 AND 0x0F)) 4 = l4_offset p"
    using v nibble_bound [of "p ! 0"] by (simp add: usize_small l4_offset_def)
  have d: "unat (from_be [p ! 2, p ! 3] :: u16) = declared_len p" using v by (simp add: declared_len_def)
  show ?thesis
    using False by (auto simp: classify_ipv4_def Let_def ihl d v4_accepted_def not_less not_le)
qed

lemma classify_ipv6_Inr:
  assumes v: "\<not> is_v4 p"
  shows "classify_ipv6 p = Inr c \<longleftrightarrow> v6_accepted p \<and> c = v6_result p"
proof (cases "40 \<le> length p \<and> declared_len p \<le> length p")
  case True
  let ?n = "unat (from_be [p ! 4, p ! 5] :: u16)"
  let ?t = "declared_len p"
  have t: "40 \<le> ?t" "usize_add ?n 40 = ?t" "usize_add 40 ?n = ?t"
    using v unat_u16_less [of "from_be [p ! 4, p ! 5]"] by (simp_all add: declared_len_def usize_small)
  have nth: "take ?t p ! i = p ! i" if "i < 40 \<or> i < ?t" for i using that t by auto
  have get: "get_range 8 24 (take ?t p) = Some (slice 8 24 p)"
    "get_range 24 40 (take ?t p) = Some (slice 24 40 p)"
    using t True by (simp_all add: get_range_def slice_take)
  have len: "length (take ?t p) = ?t" using True by simp
  show ?thesis
    using True t
    by (auto simp: classify_ipv6_def Let_def t(2,3) get nth len v6_result_def v6_accepted_def not_less
        simp del: length_take)
next
  case False
  let ?n = "unat (from_be [p ! 4, p ! 5] :: u16)"
  have "usize_add ?n 40 = declared_len p"
    using v unat_u16_less [of "from_be [p ! 4, p ! 5]"] by (simp add: declared_len_def usize_small)
  with False show ?thesis
    by (auto simp: classify_ipv6_def Let_def v6_accepted_def not_less not_le)
qed

lemma classify_packet_Inr:
  "classify_packet p = Inr c \<longleftrightarrow> p \<noteq> [] \<and>
     (if is_v4 p then v4_accepted p \<and> c = v4_result p
      else drop_bit 4 (p ! 0) = 6 \<and> v6_accepted p \<and> c = v6_result p)"
proof (cases p)
  case Nil
  then show ?thesis by (simp add: classify_packet_def)
next
  case (Cons b bs)
  then have "classify_packet p = (if is_v4 p then classify_ipv4 p
      else if drop_bit 4 (p ! 0) = 6 then classify_ipv6 p else Inl ClNotIp)"
    by (simp add: classify_packet_def is_v4_def)
  then show ?thesis using Cons by (simp add: classify_ipv4_Inr classify_ipv6_Inr)
qed

text \<open>On a classified packet the two fragment tests agree.\<close>

lemma is_fragment_accepted:
  assumes "classify_packet p = Inr c"
  shows "is_fragment p \<longleftrightarrow> (if is_v4 p then v4_fragment p else p ! 6 = 44)"
proof (cases "is_v4 p")
  case True
  with assms have acc: "v4_accepted p" "p \<noteq> []" by (auto simp: classify_packet_Inr)
  note acc' = acc(1) [unfolded v4_accepted_def]
  have t: "20 \<le> declared_len p" using v4_accepted_min [OF acc(1) True] acc' by linarith
  have ihl: "usize_mul (unat (p ! 0 AND 0x0F)) 4 = l4_offset p"
    using True nibble_bound [of "p ! 0"] by (simp add: usize_small l4_offset_def)
  have d: "unat (from_be [p ! 2, p ! 3] :: u16) = declared_len p"
    using True by (simp add: declared_len_def)
  have z: "get_or_zero (take (declared_len p) p) i = p ! i" if "i < 20" for i
    using that t acc' by (simp add: get_or_zero_def)
  obtain b bs where p: "p = b # bs" using acc(2) by (cases p) auto
  have zz: "get_or_zero (take (declared_len p) p) 6 = p ! 6"
    "get_or_zero (take (declared_len p) p) 7 = p ! 7" by (simp_all add: z)
  have b: "drop_bit 4 b = 4" using True p by (simp add: is_v4_def)
  have "is_fragment p = v4_fragment p"
    using acc' t b
    unfolding is_fragment_def p list.case Let_def
    unfolding p [symmetric] ihl d zz v4_fragment_def
    by (auto simp: fragment_bits)
  then show ?thesis using True by simp
next
  case False
  with assms have acc: "v6_accepted p" "p \<noteq> []" "drop_bit 4 (p ! 0) = 6"
    by (auto simp: classify_packet_Inr)
  note acc' = acc(1) [unfolded v6_accepted_def]
  have d: "usize_add (unat (from_be [p ! 4, p ! 5] :: u16)) 40 = declared_len p"
    using False unat_u16_less [of "from_be [p ! 4, p ! 5]"]
    by (simp add: declared_len_def usize_small)
  have z: "get_or_zero p 6 = p ! 6" using acc' by (simp add: get_or_zero_def)
  obtain b bs where p: "p = b # bs" using acc(2) by (cases p) auto
  then have b: "drop_bit 4 b = 6" using acc(3) by simp
  have "is_fragment p \<longleftrightarrow> p ! 6 = 44"
    using acc' b
    unfolding is_fragment_def p list.case Let_def
    unfolding p [symmetric] d z by simp
  with False show ?thesis by simp
qed

end
