(* ===== verification/ClassifierProps.thy ===== *)
theory ClassifierProps
  imports Classifier
begin

text \<open>
  What the classifier promises: which bytes of a packet a classification can depend on,
  which bytes it must depend on, and what the counters count.
\<close>

unbundle bit_operations_syntax

section \<open>Which bytes are read\<close>

lemma slice_cong: "take n q = take n p \<Longrightarrow> j \<le> n \<Longrightarrow> slice i j q = slice i j p"
  by (metis slice_take)

lemma nth_cong: "take n q = take n p \<Longrightarrow> i < n \<Longrightarrow> q ! i = p ! i"
  by (metis nth_take)

text \<open>The extents are read from the first bytes of the network header.\<close>

definition fixed_part :: "byte list \<Rightarrow> nat" where
  "fixed_part p = (if is_v4 p then 12 else 8)"

lemma extents_cong:
  assumes "\<And>i. i < fixed_part p \<Longrightarrow> q ! i = p ! i"
  shows "is_v4 q = is_v4 p" and "l4_offset q = l4_offset p" and "declared_len q = declared_len p"
    and "l4_protocol q = l4_protocol p" and "is_v4 p \<Longrightarrow> v4_fragment q = v4_fragment p"
proof -
  have 0: "q ! 0 = p ! 0" using assms by (simp add: fixed_part_def)
  then show v: "is_v4 q = is_v4 p" by (simp add: is_v4_def)
  have eq: "q ! i = p ! i" if "i < 8 \<or> is_v4 p \<and> i < 12" for i
    using assms [of i] that by (auto simp: fixed_part_def split: if_splits)
  show "l4_offset q = l4_offset p" using 0 v by (simp add: l4_offset_def)
  show "declared_len q = declared_len p" using v by (simp add: declared_len_def eq)
  show "l4_protocol q = l4_protocol p" using v by (simp add: l4_protocol_def eq)
  show "is_v4 p \<Longrightarrow> v4_fragment q = v4_fragment p" by (simp add: v4_fragment_def eq)
qed

lemma transport_ports_cong:
  assumes "take (min (off + 6) d) q = take (min (off + 6) d) p" and "d \<le> length p" "d \<le> length q"
    and "off \<le> 60"
  shows "transport_ports (take d q) off proto icmp = transport_ports (take d p) off proto icmp"
proof -
  have "get_range off (off + k) (take d q) = get_range off (off + k) (take d p)" if "k \<le> 6" for k
  proof (cases "off + k \<le> d")
    case True
    then have "slice off (off + k) q = slice off (off + k) p"
      using that by (intro slice_cong [OF assms(1)]) simp
    with True assms(2,3) show ?thesis by (simp add: get_range_def slice_take)
  next
    case False
    with assms(2,3) show ?thesis by (simp add: get_range_def)
  qed
  with assms(4) show ?thesis by (simp add: transport_ports_def usize_small)
qed

text \<open>The bytes a classification depends on: a fragment's end before its payload.\<close>

definition view_len :: "byte list \<Rightarrow> nat" where
  "view_len p = (if is_fragment p then (if is_v4 p then 20 else 48)
     else min (l4_offset p + 6) (declared_len p))"

lemma accepted_bounds:
  assumes "classify_packet p = Inr c"
  shows "p \<noteq> []" and "declared_len p \<le> length p" and "l4_offset p \<le> declared_len p"
    and "20 \<le> l4_offset p" and "l4_offset p \<le> 60" and "\<not> is_v4 p \<Longrightarrow> l4_offset p = 40"
    and "\<not> is_v4 p \<Longrightarrow> p ! 6 = 44 \<Longrightarrow> 48 \<le> declared_len p"
  using assms nibble_bound [of "p ! 0"] v4_accepted_min [of p]
  by (auto simp: classify_packet_Inr v4_accepted_def v6_accepted_def l4_offset_def declared_len_def
      split: if_splits)

lemma accepted_cong:
  assumes c: "classify_packet p = Inr c" and len: "declared_len p \<le> length q"
    and eq: "\<And>i. i < fixed_part p \<Longrightarrow> q ! i = p ! i"
  shows "classify_packet q = Inr (if is_v4 p then v4_result q else v6_result q)"
    and "is_fragment q = is_fragment p"
proof -
  note ext = extents_cong [OF eq] and b = accepted_bounds [OF c]
  have q: "q \<noteq> []" using len b by auto
  have hd: "q ! 0 = p ! 0" and six: "\<not> is_v4 p \<Longrightarrow> q ! 6 = p ! 6"
    using eq by (simp_all add: fixed_part_def)
  have len20: "20 \<le> length q" and len40: "\<not> is_v4 p \<Longrightarrow> 40 \<le> length q"
    using b len by linarith+
  show r: "classify_packet q = Inr (if is_v4 p then v4_result q else v6_result q)"
    using c len q len20 len40
    by (auto simp: classify_packet_Inr v4_accepted_def v6_accepted_def ext hd six split: if_splits)
  show "is_fragment q = is_fragment p"
    by (simp add: is_fragment_accepted [OF r] is_fragment_accepted [OF c] ext six)
qed

lemma fixed_part_view:
  assumes "classify_packet p = Inr c"
  shows "fixed_part p \<le> view_len p"
  using accepted_bounds [OF assms] by (auto simp: fixed_part_def view_len_def)

text \<open>C26. Classification reads the network header, at most six bytes behind it, and nothing
  else: any packet with the same first bytes, whose declared length it still has, gets the
  same flow identity, class and fragment verdict, whatever follows. For a fragment the view
  ends before any transport byte, first fragment or not, and its class is bulk.\<close>

theorem reads_only_headers:
  assumes c: "classify_packet p = Inr c" and len: "declared_len p \<le> length q"
    and view: "take (view_len p) q = take (view_len p) p"
  shows "classify_packet q = Inr c \<and> is_fragment q = is_fragment p \<and>
    (is_fragment p \<longrightarrow> cl_traffic_class c = Bulk)"
proof -
  note b = accepted_bounds [OF c]
  have eq: "q ! i = p ! i" if "i < view_len p" for i
    using nth_cong [OF view that] .
  have eq': "q ! i = p ! i" if "i < fixed_part p" for i
    using eq that fixed_part_view [OF c] by simp
  note ext = extents_cong [of p q, OF eq'] and q = accepted_cong [OF c len eq']
  note frag = is_fragment_accepted [OF c]
  have cl: "c = (if is_v4 p then v4_result p else v6_result p)"
    using c by (auto simp: classify_packet_Inr split: if_splits)
  have len_p: "declared_len p \<le> length p" using b by simp
  have six: "\<not> is_v4 p \<Longrightarrow> q ! 6 = p ! 6" using eq' by (simp add: fixed_part_def)
  have nine: "is_v4 p \<Longrightarrow> q ! i = p ! i" if "i < 12" for i
    using eq' that by (simp add: fixed_part_def)
  have "(if is_v4 p then v4_result q else v6_result q) = c"
  proof (cases "is_fragment p")
    case True
    then have v: "view_len p = (if is_v4 p then 20 else 48)" by (simp add: view_len_def)
    have s: "slice i j q = slice i j p" if "j \<le> (if is_v4 p then 20 else 48)" for i j
      using slice_cong [OF view] that v by simp
    show ?thesis
      using True frag cl ext eq v s six nine
      by (cases "is_v4 p") (auto simp: v4_result_def v6_result_def)
  next
    case False
    then have v: "view_len p = min (l4_offset p + 6) (declared_len p)" by (simp add: view_len_def)
    have s: "slice i j q = slice i j p" if "j \<le> (if is_v4 p then 20 else 40)" for i j
    proof (rule slice_cong [OF view])
      show "j \<le> view_len p" using that b v by (cases "is_v4 p") auto
    qed
    have tp: "transport_ports (take (declared_len p) q) (l4_offset p) k n =
        transport_ports (take (declared_len p) p) (l4_offset p) k n" for k n
      using transport_ports_cong [of "l4_offset p" "declared_len p" q p] view v len len_p b by simp
    show ?thesis
      using False frag cl ext s tp six nine b(6)
      by (cases "is_v4 p") (auto simp: v4_result_def v6_result_def)
  qed
  moreover have "is_fragment p \<longrightarrow> cl_traffic_class c = Bulk"
    using frag cl by (auto simp: v4_result_def v6_result_def)
  ultimately show ?thesis using q by simp
qed

text \<open>The first fragment of a UDP datagram between two hosts, and the same datagram whole.\<close>

definition udp_header :: "byte \<Rightarrow> byte list" where
  "udp_header flags = [0x45, 0, 0, 28, 0, 7, flags, 0, 64, 17, 0, 0, 10, 0, 0, 1, 10, 0, 0, 2]"

definition udp_packet :: "byte \<Rightarrow> byte list" where
  "udp_packet flags = udp_header flags @ [4, 210, 0, 53, 0, 8, 0, 0]"

lemma udp_nth:
  "is_v4 (udp_header f @ xs)" "l4_offset (udp_header f @ xs) = 20"
  "declared_len (udp_header f @ xs) = 28" "l4_protocol (udp_header f @ xs) = 17"
  "v4_fragment (udp_header f @ xs) = (from_be [f, 0] AND (0x3FFF :: u16) \<noteq> 0)"
  by (simp_all add: udp_header_def is_v4_def l4_offset_def declared_len_def l4_protocol_def
      v4_fragment_def from_be_def nat_be_def)

lemma udp_classified:
  assumes "8 \<le> length xs"
  shows "classify_packet (udp_header f @ xs) = Inr (v4_result (udp_header f @ xs))"
proof -
  have "5 \<le> (udp_header f @ xs) ! 0 AND 0x0F" by (simp add: udp_header_def)
  then show ?thesis using assms
    by (simp add: classify_packet_Inr udp_nth v4_accepted_def) (simp add: udp_header_def)
qed

lemma udp_fragment:
  "8 \<le> length xs \<Longrightarrow> is_fragment (udp_header f @ xs) = (from_be [f, 0] AND (0x3FFF :: u16) \<noteq> 0)"
  using is_fragment_accepted [OF udp_classified [of xs f]] by (simp add: udp_nth)

theorem reads_only_headers_witness:
  "classify_packet (udp_header 0x20 @ [0, 0, 0, 0, 0, 0, 0, 0, 9]) =
     classify_packet (udp_packet 0x20) \<and>
   cl_traffic_class (v4_result (udp_packet 0x20)) = Bulk"
proof -
  let ?p = "udp_packet 0x20" and ?q = "udp_header 0x20 @ [0, 0, 0, 0, 0, 0, 0, 0, 9]"
  have c: "classify_packet ?p = Inr (v4_result ?p)"
    unfolding udp_packet_def by (rule udp_classified) simp
  have f: "is_fragment ?p"
    unfolding udp_packet_def by (simp add: udp_fragment from_be_def nat_be_def)
  have v: "view_len ?p = 20" using f by (simp add: view_len_def udp_packet_def udp_nth)
  have "take 20 ?q = take 20 ?p" by (simp add: udp_packet_def udp_header_def)
  moreover have "declared_len ?p \<le> length ?q"
    by (simp add: udp_packet_def udp_nth) (simp add: udp_header_def)
  ultimately show ?thesis
    using reads_only_headers [OF c, of ?q] c f v by simp
qed

section \<open>Which bytes make a difference\<close>

text \<open>Multiplication by the FNV prime is a bijection of the 64-bit words.\<close>

lemma fnv_prime_inverse: "FNV_PRIME * 0xce965057aff6957b = 1"
  by (simp add: FNV_PRIME_def)

lemma fnv_prime_cancel: "a * FNV_PRIME = b * FNV_PRIME \<longleftrightarrow> a = b"
proof
  assume "a * FNV_PRIME = b * FNV_PRIME"
  then have "a * (FNV_PRIME * 0xce965057aff6957b) = b * (FNV_PRIME * 0xce965057aff6957b)"
    by (simp only: mult.assoc [symmetric])
  then show "a = b" by (simp only: fnv_prime_inverse mult_1_right)
qed simp

lemma xor_cancel: "(a :: 'a::len word) XOR c = b XOR c \<longleftrightarrow> a = b"
  by (metis xor_self_eq xor.assoc xor.right_neutral)

lemma ucast_byte_inj: "(ucast (a :: byte) :: u64) = ucast b \<longleftrightarrow> a = b"
proof -
  have "unat (ucast x :: u64) = unat x" for x :: byte
    using unat_bound [of x] by (simp add: unsigned_ucast_eq take_bit_nat_eq_self)
  then show ?thesis by (metis word_unat_eq_iff)
qed

lemma fnv_mix_inj: "fnv_mix b h = fnv_mix b h' \<longleftrightarrow> h = h'" "fnv_mix b h = fnv_mix b' h \<longleftrightarrow> b = b'"
  by (simp_all add: fnv_mix_def fnv_prime_cancel xor_cancel)
    (metis xor_cancel xor.commute ucast_byte_inj)

lemma fnv_mix_all_inj: "fnv_mix_all bs h = fnv_mix_all bs h' \<longleftrightarrow> h = h'"
  by (induction bs arbitrary: h h') (simp_all add: fnv_mix_inj)

lemma fnv_one_byte:
  assumes "i < length bs" and "b \<noteq> bs ! i"
  shows "fnv_mix_all (bs[i := b]) h \<noteq> fnv_mix_all bs h"
proof -
  have "fnv_mix_all (bs[i := b]) h =
      fnv_mix_all (drop (Suc i) bs) (fnv_mix b (fnv_mix_all (take i bs) h))"
    using assms(1) by (simp add: upd_conv_take_nth_drop)
  moreover have "fnv_mix_all bs h =
      fnv_mix_all (drop (Suc i) bs) (fnv_mix (bs ! i) (fnv_mix_all (take i bs) h))"
    by (subst id_take_nth_drop [OF assms(1)]) simp
  ultimately show ?thesis using assms(2) by (simp add: fnv_mix_all_inj fnv_mix_inj)
qed

text \<open>The identity of an unfragmented TCP or UDP flow: addresses and ports, as they lie in the packet.\<close>

definition addresses :: "byte list \<Rightarrow> nat \<times> nat" where
  "addresses p = (if is_v4 p then (12, 20) else (8, 40))"

definition identity_positions :: "byte list \<Rightarrow> nat set" where
  "identity_positions p = {fst (addresses p) ..< snd (addresses p)} \<union> {l4_offset p ..< l4_offset p + 4}"

definition identity_bytes :: "byte list \<Rightarrow> byte list" where
  "identity_bytes p = [if is_v4 p then 4 else 6, l4_protocol p, 0] @
     slice (fst (addresses p)) (snd (addresses p)) p @ slice (l4_offset p) (l4_offset p + 4) p @ [0x0D]"

definition whole_transport :: "byte list \<Rightarrow> bool" where
  "whole_transport p \<longleftrightarrow> \<not> is_fragment p \<and> (l4_protocol p = 6 \<or> l4_protocol p = 17) \<and>
     l4_offset p + 4 \<le> declared_len p"

lemma ports_bytes:
  assumes "length base = 4"
  shows "to_be (from_be [base ! 0, base ! 1] :: u16) @ to_be (from_be [base ! 2, base ! 3] :: u16) = base"
proof -
  obtain a b c d where "base = [a, b, c, d]"
    using assms by (auto simp: length_Suc_conv eval_nat_numeral)
  then show ?thesis by simp
qed

lemma transport_ports_whole:
  assumes "whole_transport p" and "classify_packet p = Inr c"
  defines "base \<equiv> slice (l4_offset p) (l4_offset p + 4) p"
  shows "transport_ports (take (declared_len p) p) (l4_offset p) (l4_protocol p) n =
    Some (from_be [base ! 0, base ! 1], from_be [base ! 2, base ! 3])"
  using assms(1) accepted_bounds [OF assms(2)]
  by (auto simp: whole_transport_def transport_ports_def usize_small get_range_def slice_take base_def)

lemma identity_hash:
  assumes w: "whole_transport p" and c: "classify_packet p = Inr c"
  shows "c = \<lparr>cl_flow_id = fnv_mix_all (identity_bytes p) FNV_OFFSET,
    cl_traffic_class = class_for_protocol (l4_protocol p)\<rparr>"
proof -
  note b = accepted_bounds [OF c]
  let ?base = "slice (l4_offset p) (l4_offset p + 4) p"
  have "length ?base = 4"
    using w b by (subst length_slice) (auto simp: whole_transport_def)
  note ports = ports_bytes [OF this]
  note tp = transport_ports_whole [OF w c]
  have ports': "fnv_mix_all (to_be (from_be [?base ! 2, ?base ! 3] :: u16))
      (fnv_mix_all (to_be (from_be [?base ! 0, ?base ! 1] :: u16)) h) = fnv_mix_all ?base h" for h
    using arg_cong [OF ports, of "\<lambda>xs. fnv_mix_all xs h"] by simp
  have nf: "\<not> is_fragment p" using w by (simp add: whole_transport_def)
  have addr: "fnv_mix_all (slice j k p) (fnv_mix_all (slice i j p) h) = fnv_mix_all (slice i k p) h"
    if "i \<le> j" "j \<le> k" for i j k h
    using slice_join [OF that, of p] by (metis fold_append comp_apply)
  show ?thesis
  proof (cases "is_v4 p")
    case True
    then show ?thesis
      using c nf tp [of 1] ports' is_fragment_accepted [OF c] addr [of 12 16 20]
      by (simp add: classify_packet_Inr v4_result_def l4_protocol_def hash_flow_def identity_bytes_def
          addresses_def)
  next
    case False
    then have "l4_offset p = 40" using b(6) by simp
    with False show ?thesis
      using c w nf tp [of 58] ports' is_fragment_accepted [OF c] addr [of 8 24 40]
      by (auto simp: classify_packet_Inr v6_result_def l4_protocol_def hash_flow_def identity_bytes_def
          addresses_def whole_transport_def)
  qed
qed

text \<open>Writing a byte of the identity writes one byte of the hashed sequence.\<close>

lemma slice_update:
  assumes "j \<le> length p"
  shows "slice i j (p[k := b]) = (if i \<le> k \<and> k < j then (slice i j p)[k - i := b] else slice i j p)"
proof (cases "i \<le> k")
  case True
  then have "drop i (p[k := b]) = (drop i p)[k - i := b]" by (rule drop_update_swap)
  with True show ?thesis
    by (cases "k < j") (simp_all add: slice_def take_update_swap list_update_beyond)
next
  case False
  then show ?thesis by (simp add: slice_def drop_update_cancel)
qed

lemma update_segment:
  assumes "i < length ys"
  shows "(xs @ ys @ zs)[length xs + i := b] = xs @ ys[i := b] @ zs"
    and "(xs @ ys @ zs) ! (length xs + i) = ys ! i"
  using assms by (simp_all add: list_update_append nth_append)

lemma identity_bytes_update:
  assumes w: "whole_transport p" and c: "classify_packet p = Inr c"
    and k: "k \<in> identity_positions p" and same: "\<And>i. i < fixed_part p \<Longrightarrow> p[k := b] ! i = p ! i"
  shows "\<exists>i < length (identity_bytes p). identity_bytes p ! i = p ! k \<and>
    identity_bytes (p[k := b]) = (identity_bytes p)[i := b]"
proof -
  note ext = extents_cong [of p "p[k := b]", OF same] and bd = accepted_bounds [OF c]
  let ?lo = "fst (addresses p)" and ?hi = "snd (addresses p)" and ?l = "l4_offset p"
  let ?q = "p[k := b]"
  have addr: "addresses ?q = addresses p" using ext by (simp add: addresses_def)
  have hi: "?lo \<le> ?hi" "?hi \<le> ?l" "?l + 4 \<le> length p"
    using bd w by (auto simp: addresses_def whole_transport_def)
  let ?pre = "[if is_v4 p then 4 else 6, l4_protocol p, 0 :: byte]"
  let ?a = "slice ?lo ?hi p" and ?t = "slice ?l (?l + 4) p"
  have id: "identity_bytes p = ?pre @ ?a @ ?t @ [0x0D]"
    by (simp only: identity_bytes_def)
  have id': "identity_bytes ?q = ?pre @ slice ?lo ?hi ?q @ slice ?l (?l + 4) ?q @ [0x0D]"
    by (simp only: identity_bytes_def ext addr)
  have upd: "slice ?lo ?hi ?q = (if ?lo \<le> k \<and> k < ?hi then ?a[k - ?lo := b] else ?a)"
    "slice ?l (?l + 4) ?q = (if ?l \<le> k \<and> k < ?l + 4 then ?t[k - ?l := b] else ?t)"
    using hi by (simp_all add: slice_update)
  consider "?lo \<le> k" "k < ?hi" | "?l \<le> k" "k < ?l + 4"
    using k by (auto simp: identity_positions_def)
  then show ?thesis
  proof cases
    case 1
    then have i: "k - ?lo < length ?a" using hi by (simp add: length_slice)
    have nth: "?a ! (k - ?lo) = p ! k" using 1 hi by (simp add: slice_def)
    have q: "identity_bytes ?q = ?pre @ ?a[k - ?lo := b] @ ?t @ [0x0D]"
      unfolding id' upd using 1 hi by simp
    have "length ?pre + (k - ?lo) < length (identity_bytes p)" using i unfolding id by simp
    then show ?thesis
      using update_segment [OF i, of ?pre "?t @ [0x0D]"] nth q id by metis
  next
    case 2
    then have i: "k - ?l < length ?t" using hi by (simp add: length_slice)
    have nth: "?t ! (k - ?l) = p ! k" using 2 hi by (simp add: slice_def)
    have q: "identity_bytes ?q = (?pre @ ?a) @ ?t[k - ?l := b] @ [0x0D]"
      unfolding id' upd using 2 hi by simp
    have id2: "identity_bytes p = (?pre @ ?a) @ ?t @ [0x0D]" unfolding id by simp
    have "length (?pre @ ?a) + (k - ?l) < length (identity_bytes p)" using i unfolding id by simp
    then show ?thesis
      using update_segment [OF i, of "?pre @ ?a" "[0x0D]"] nth q id2 by metis
  qed
qed

text \<open>Every byte of a flow's identity counts: two unfragmented TCP or UDP packets that differ
  in exactly one byte of their addresses or ports are classified alike and get different flow
  identifiers, so the hash never merges such neighbouring flows.\<close>

theorem neighbouring_flows_distinct:
  assumes c: "classify_packet p = Inr c" and w: "whole_transport p"
    and k: "k \<in> identity_positions p" and b: "b \<noteq> p ! k"
  shows "\<exists>c'. classify_packet (p[k := b]) = Inr c' \<and>
    cl_traffic_class c' = cl_traffic_class c \<and> cl_flow_id c' \<noteq> cl_flow_id c"
proof -
  let ?q = "p[k := b]"
  have "fixed_part p \<le> k"
    using k accepted_bounds [OF c] by (auto simp: identity_positions_def addresses_def fixed_part_def)
  then have same: "?q ! i = p ! i" if "i < fixed_part p" for i
    using that by simp
  note ext = extents_cong [of p ?q, OF same]
  obtain c' where c': "classify_packet ?q = Inr c'" and f: "is_fragment ?q = is_fragment p"
    using accepted_cong [OF c _ same] accepted_bounds [OF c] by simp
  have w': "whole_transport ?q" using w ext f by (simp add: whole_transport_def)
  obtain i where i: "i < length (identity_bytes p)" "identity_bytes p ! i = p ! k"
    and upd: "identity_bytes ?q = (identity_bytes p)[i := b]"
    using identity_bytes_update [OF w c k same] by blast
  have "fnv_mix_all (identity_bytes ?q) FNV_OFFSET \<noteq> fnv_mix_all (identity_bytes p) FNV_OFFSET"
    using fnv_one_byte [OF i(1)] i(2) b upd by simp
  then show ?thesis
    using identity_hash [OF w c] identity_hash [OF w' c'] c' ext by simp
qed

text \<open>Changing the destination port 53 to 54.\<close>

theorem neighbouring_flows_distinct_witness:
  "\<exists>c c'. classify_packet (udp_packet 0) = Inr c \<and> classify_packet ((udp_packet 0)[23 := 54]) = Inr c' \<and>
     cl_traffic_class c' = cl_traffic_class c \<and> cl_flow_id c' \<noteq> cl_flow_id c"
proof -
  let ?p = "udp_packet 0"
  have c: "classify_packet ?p = Inr (v4_result ?p)"
    unfolding udp_packet_def by (rule udp_classified) simp
  have w: "whole_transport ?p"
    unfolding udp_packet_def whole_transport_def
    by (simp add: udp_fragment udp_nth from_be_def nat_be_def)
  have k: "23 \<in> identity_positions ?p"
    by (simp add: identity_positions_def udp_packet_def udp_nth)
  have b: "(54 :: byte) \<noteq> ?p ! 23"
    by (simp add: udp_packet_def udp_header_def)
  from neighbouring_flows_distinct [OF c w k b] c show ?thesis by blast
qed

section \<open>What the counters count\<close>

definition classify_run :: "byte list list \<Rightarrow> classifier" where
  "classify_run ps = foldl (\<lambda>s p. fst (classify s p)) classifier_new ps"

definition is_truncated :: "byte list \<Rightarrow> bool" where
  "is_truncated p \<longleftrightarrow> classify_packet p = Inl ClEmpty \<or> classify_packet p = Inl ClTruncated"

definition is_invalid :: "byte list \<Rightarrow> bool" where
  "is_invalid p \<longleftrightarrow> classify_packet p = Inl ClNotIp \<or> classify_packet p = Inl ClInvalidHeader"

definition is_classified :: "byte list \<Rightarrow> bool" where
  "is_classified p \<longleftrightarrow> \<not> isl (classify_packet p)"

lemma outcome_cases:
  obtains (classified) "is_classified p" "\<not> is_truncated p" "\<not> is_invalid p"
  | (truncated) "is_truncated p" "\<not> is_classified p" "\<not> is_invalid p"
  | (invalid) "is_invalid p" "\<not> is_classified p" "\<not> is_truncated p"
proof (cases "classify_packet p")
  case (Inl e)
  then show ?thesis
    using that by (cases e) (simp_all add: is_truncated_def is_invalid_def is_classified_def)
next
  case (Inr c)
  then show ?thesis
    using that by (simp add: is_truncated_def is_invalid_def is_classified_def)
qed

lemma classify_counts:
  "cm_classified (cf_metrics (fst (classify s p))) =
     sat_add (cm_classified (cf_metrics s)) (of_bool (is_classified p))"
  "cm_fragments (cf_metrics (fst (classify s p))) =
     sat_add (cm_fragments (cf_metrics s)) (of_bool (is_classified p \<and> is_fragment p))"
  "cm_truncated_dropped (cf_metrics (fst (classify s p))) =
     sat_add (cm_truncated_dropped (cf_metrics s)) (of_bool (is_truncated p))"
  "cm_invalid_dropped (cf_metrics (fst (classify s p))) =
     sat_add (cm_invalid_dropped (cf_metrics s)) (of_bool (is_invalid p))"
proof -
  have z: "sat_add w 0 = w" for w :: u64
    using unat_bound [of w] by (simp add: sat_add_def)
  note defs = classify_def is_truncated_def is_invalid_def is_classified_def z
  have err: "cm_classified (cf_metrics (fst (classify s p))) = cm_classified (cf_metrics s) \<and>
      cm_fragments (cf_metrics (fst (classify s p))) = cm_fragments (cf_metrics s) \<and>
      cm_truncated_dropped (cf_metrics (fst (classify s p))) =
        sat_add (cm_truncated_dropped (cf_metrics s)) (of_bool (is_truncated p)) \<and>
      cm_invalid_dropped (cf_metrics (fst (classify s p))) =
        sat_add (cm_invalid_dropped (cf_metrics s)) (of_bool (is_invalid p)) \<and> \<not> is_classified p"
    if "classify_packet p = Inl e" for e
    using that by (cases e) (simp_all add: defs)
  have ok: "cm_classified (cf_metrics (fst (classify s p))) = sat_inc (cm_classified (cf_metrics s)) \<and>
      cm_fragments (cf_metrics (fst (classify s p))) =
        sat_add (cm_fragments (cf_metrics s)) (of_bool (is_fragment p)) \<and>
      cm_truncated_dropped (cf_metrics (fst (classify s p))) = cm_truncated_dropped (cf_metrics s) \<and>
      cm_invalid_dropped (cf_metrics (fst (classify s p))) = cm_invalid_dropped (cf_metrics s) \<and>
      is_classified p \<and> \<not> is_truncated p \<and> \<not> is_invalid p"
    if "classify_packet p = Inr c" for c
    using that by (simp add: defs)
  show "cm_classified (cf_metrics (fst (classify s p))) =
     sat_add (cm_classified (cf_metrics s)) (of_bool (is_classified p))"
    and "cm_fragments (cf_metrics (fst (classify s p))) =
     sat_add (cm_fragments (cf_metrics s)) (of_bool (is_classified p \<and> is_fragment p))"
    and "cm_truncated_dropped (cf_metrics (fst (classify s p))) =
     sat_add (cm_truncated_dropped (cf_metrics s)) (of_bool (is_truncated p))"
    and "cm_invalid_dropped (cf_metrics (fst (classify s p))) =
     sat_add (cm_invalid_dropped (cf_metrics s)) (of_bool (is_invalid p))"
    by (cases "classify_packet p"; use err ok z in fastforce)+
qed

text \<open>The counters account for every packet: after any sequence of packets each counter is
  the number of packets with that outcome, up to saturation at the largest 64-bit value; the
  three outcomes partition the packets, and fragments are counted among the classified ones.\<close>

theorem counters_account:
  "let m = cf_metrics (classify_run ps);
       count = (\<lambda>P. length (filter P ps))
   in unat (cm_classified m) = min (count is_classified) (2 ^ 64 - 1) \<and>
      unat (cm_fragments m) = min (count (\<lambda>p. is_classified p \<and> is_fragment p)) (2 ^ 64 - 1) \<and>
      unat (cm_truncated_dropped m) = min (count is_truncated) (2 ^ 64 - 1) \<and>
      unat (cm_invalid_dropped m) = min (count is_invalid) (2 ^ 64 - 1) \<and>
      count is_classified + count is_truncated + count is_invalid = length ps"
proof (induction ps rule: rev_induct)
  case Nil
  show ?case by (simp add: classify_run_def classifier_new_def)
next
  case (snoc p ps)
  have step: "cf_metrics (classify_run (ps @ [p])) = cf_metrics (fst (classify (classify_run ps) p))"
    by (simp add: classify_run_def)
  have len: "length (filter P (ps @ [p])) = length (filter P ps) + of_bool (P p)" for P
    by simp
  note ih = snoc [unfolded Let_def]
  have part: "of_bool (is_classified p) + of_bool (is_truncated p) + of_bool (is_invalid p) = (1 :: nat)"
    by (cases p rule: outcome_cases) simp_all
  show ?case
    unfolding Let_def step classify_counts len
    using ih part by (intro conjI sat_count) auto
qed

end
