(* ===== verification/Ticket.thy ===== *)
theory Ticket
  imports CoreTypes Containers "HOL-Library.List_Lexorder"
begin

text \<open>
  Controller-issued admission tickets, \<open>crates/sg-auth/src/ticket.rs\<close>, and the validation entry
  point of \<open>crates/sg-auth/src/device.rs\<close>. Strings are their bytes.

  The \<open>jsonwebtoken\<close> crate is a parameter: \<open>jwt_header\<close> is \<open>decode_header\<close>, \<open>jwt_claims\<close> is
  \<open>decode\<close> with the validation the verifier sets up (EdDSA only, no leeway, issuer and audience),
  and \<open>from_ed\<close> is \<open>DecodingKey::from_ed_components\<close>. The type of decoding keys is a type variable.
\<close>

unbundle bit_operations_syntax

section \<open>Data\<close>

type_synonym ticket_id = arr16

definition max_compact_ticket_len :: nat where
  "max_compact_ticket_len = 2048"

definition max_header_segment_len :: nat where
  "max_header_segment_len = 512"

definition max_claims_segment_len :: nat where
  "max_claims_segment_len = 1536"

definition max_signature_segment_len :: nat where
  "max_signature_segment_len = 512"

definition max_key_id_len :: nat where
  "max_key_id_len = 64"

definition max_issuer_len :: nat where
  "max_issuer_len = 128"

definition max_audience_len :: nat where
  "max_audience_len = 128"

definition max_region_len :: nat where
  "max_region_len = 32"

definition max_allowed_regions :: nat where
  "max_allowed_regions = 16"

definition max_trust_keys :: nat where
  "max_trust_keys = 32"

definition max_revoked_tickets :: nat where
  "max_revoked_tickets = 4096"

definition max_ticket_lifetime_seconds :: u64 where
  "max_ticket_lifetime_seconds = 15 * 60"

definition replay_expiry_skew_seconds :: u64 where
  "replay_expiry_skew_seconds = 30"

datatype ticket_error = TkInvalidConfiguration | TkInvalidTrustSnapshot | TkControllerUnavailable
  | TkMalformedTicket | TkInvalidHeader | TkUnknownSigningKey | TkInvalidSignatureOrClaims
  | TkInvalidClaims | TkDeviceIdentityMismatch | TkRevoked

record controller_public_key =
  ck_key_id :: "byte list"
  ck_public_key_x :: "byte list"

record 'k trust_snapshot =
  ts_keys :: "(byte list \<times> 'k) list"
  ts_revoked_ticket_ids :: "ticket_id list"
  ts_fresh_until_unix_seconds :: u64

datatype trust_availability = TrustFresh | TrustMissing | TrustStale

record ticket_verifier =
  tv_issuer :: "byte list"
  tv_audience :: "byte list"
  tv_current_region :: "byte list"

record verified_ticket =
  vt_ticket_id :: ticket_id
  vt_device_id :: device_id
  vt_organization_id :: arr16
  vt_session_id :: session_id
  vt_expires_at_unix_seconds :: u64
  vt_policy_version :: u64

record wire_claims =
  wc_jti :: "byte list"
  wc_iss :: "byte list"
  wc_aud :: "byte list"
  wc_device :: "byte list"
  wc_organization :: "byte list"
  wc_session :: "byte list"
  wc_iat :: u64
  wc_exp :: u64
  wc_policy_version :: u64
  wc_regions :: "byte list list"
  wc_nonce :: "byte list"

record jwt_header_data =
  jh_is_eddsa :: bool
  jh_typ :: "byte list option"
  jh_kid :: "byte list option"

record 'k jwt_library =
  jwt_header :: "byte list \<Rightarrow> jwt_header_data option"
  jwt_claims :: "byte list \<Rightarrow> 'k \<Rightarrow> byte list \<Rightarrow> byte list \<Rightarrow> wire_claims option"

section \<open>Text\<close>

definition is_ascii :: "byte list \<Rightarrow> bool" where
  "is_ascii v = list_all (\<lambda>b. b < 0x80) v"

definition is_digit :: "byte \<Rightarrow> bool" where
  "is_digit b \<longleftrightarrow> 48 \<le> b \<and> b \<le> 57"

definition is_lowercase :: "byte \<Rightarrow> bool" where
  "is_lowercase b \<longleftrightarrow> 97 \<le> b \<and> b \<le> 122"

definition is_alphanumeric :: "byte \<Rightarrow> bool" where
  "is_alphanumeric b \<longleftrightarrow> is_digit b \<or> is_lowercase b \<or> 65 \<le> b \<and> b \<le> 90"

definition valid_text :: "byte list \<Rightarrow> nat \<Rightarrow> bool" where
  "valid_text v maximum \<longleftrightarrow> v \<noteq> [] \<and> length v \<le> maximum \<and> is_ascii v"

definition is_base64url :: "byte list \<Rightarrow> bool" where
  "is_base64url v = list_all (\<lambda>b. is_alphanumeric b \<or> b = 45 \<or> b = 95) v"

definition valid_key_id :: "byte list \<Rightarrow> bool" where
  "valid_key_id v \<longleftrightarrow> valid_text v max_key_id_len \<and> list_all (\<lambda>b. is_alphanumeric b \<or> b = 45 \<or> b = 95) v"

definition valid_region :: "byte list \<Rightarrow> bool" where
  "valid_region v \<longleftrightarrow> valid_text v max_region_len \<and> list_all (\<lambda>b. is_lowercase b \<or> is_digit b \<or> b = 45) v"

text \<open>\<open>str::split\<close> with a one-byte separator.\<close>

fun split_on :: "byte \<Rightarrow> byte list \<Rightarrow> byte list list" where
  "split_on d [] = [[]]"
| "split_on d (b # bs) =
     (if b = d then [] # split_on d bs
      else case split_on d bs of s # ss \<Rightarrow> (b # s) # ss | [] \<Rightarrow> [[b]])"

definition validate_compact_bounds :: "byte list \<Rightarrow> ticket_error + unit" where
  "validate_compact_bounds ticket =
     (if ticket = [] \<or> max_compact_ticket_len < length ticket \<or> \<not> is_ascii ticket then Inl TkMalformedTicket
      else let segments = split_on 46 ticket in
      if length segments \<noteq> 3
         \<or> segments ! 0 = [] \<or> segments ! 1 = [] \<or> segments ! 2 = []
         \<or> max_header_segment_len < length (segments ! 0)
         \<or> max_claims_segment_len < length (segments ! 1)
         \<or> max_signature_segment_len < length (segments ! 2)
         \<or> list_ex (\<lambda>s. \<not> is_base64url s) segments
      then Inl TkMalformedTicket else Inr ())"

definition hex_value :: "byte \<Rightarrow> byte option" where
  "hex_value v =
     (if 48 \<le> v \<and> v \<le> 57 then Some (v - 48)
      else if 97 \<le> v \<and> v \<le> 102 then Some (v - 97 + 10)
      else None)"

text \<open>The loop over the bytes of an identifier, from index \<open>i\<close> with \<open>n\<close> bytes to go.\<close>

fun parse_id_bytes :: "nat \<Rightarrow> nat \<Rightarrow> byte list \<Rightarrow> byte list option" where
  "parse_id_bytes i 0 source = (if source = [] then Some [] else None)"
| "parse_id_bytes i (Suc n) source =
     (case (if i = 4 \<or> i = 6 \<or> i = 8 \<or> i = 10
            then (case source of c # r \<Rightarrow> if c = 45 then Some r else None | [] \<Rightarrow> None)
            else Some source) of
        Some (h # l # r) \<Rightarrow>
          (case (hex_value h, hex_value l) of
             (Some high, Some low) \<Rightarrow>
               map_option (\<lambda>bytes. (push_bit 4 high OR low) # bytes) (parse_id_bytes (Suc i) n r)
           | _ \<Rightarrow> None)
      | _ \<Rightarrow> None)"

definition parse_identifier :: "byte list \<Rightarrow> arr16 option" where
  "parse_identifier v = (if length v \<noteq> 36 then None else map_option from_be (parse_id_bytes 0 16 v))"

section \<open>Trust\<close>

definition controller_public_key_new :: "byte list \<Rightarrow> byte list \<Rightarrow> ticket_error + controller_public_key" where
  "controller_public_key_new key_id x =
     (if \<not> valid_key_id key_id \<or> x = [] \<or> 128 < length x \<or> \<not> is_base64url x then Inl TkInvalidTrustSnapshot
      else Inr \<lparr>ck_key_id = key_id, ck_public_key_x = x\<rparr>)"

fun decode_keys :: "(byte list \<Rightarrow> 'k option) \<Rightarrow> controller_public_key list \<Rightarrow> (byte list \<times> 'k) list
    \<Rightarrow> ticket_error + (byte list \<times> 'k) list" where
  "decode_keys from_ed [] decoded = Inr decoded"
| "decode_keys from_ed (key # rest) decoded =
     (case from_ed (ck_public_key_x key) of
        None \<Rightarrow> Inl TkInvalidTrustSnapshot
      | Some decoding_key \<Rightarrow>
          if ck_key_id key \<in> keys decoded then Inl TkInvalidTrustSnapshot
          else decode_keys from_ed rest (bt_insert (ck_key_id key) decoding_key decoded))"

definition trust_snapshot_new :: "(byte list \<Rightarrow> 'k option) \<Rightarrow> controller_public_key list \<Rightarrow> ticket_id list \<Rightarrow> u64
    \<Rightarrow> ticket_error + 'k trust_snapshot" where
  "trust_snapshot_new from_ed public_keys revoked fresh_until =
     (if public_keys = [] \<or> max_trust_keys < length public_keys \<or> max_revoked_tickets < length revoked
         \<or> fresh_until = 0
      then Inl TkInvalidTrustSnapshot
      else rbind (decode_keys from_ed public_keys []) (\<lambda>decoded.
        Inr \<lparr>ts_keys = decoded, ts_revoked_ticket_ids = remdups revoked, ts_fresh_until_unix_seconds = fresh_until\<rparr>))"

definition snapshot_availability :: "'k trust_snapshot \<Rightarrow> u64 \<Rightarrow> trust_availability" where
  "snapshot_availability t now = (if ts_fresh_until_unix_seconds t \<le> now then TrustStale else TrustFresh)"

definition is_revoked :: "'k trust_snapshot \<Rightarrow> ticket_id \<Rightarrow> bool" where
  "is_revoked t ticket \<longleftrightarrow> ticket \<in> set (ts_revoked_ticket_ids t)"

definition controller_trust_availability :: "'k trust_snapshot option \<Rightarrow> u64 \<Rightarrow> trust_availability" where
  "controller_trust_availability trust now =
     (case trust of None \<Rightarrow> TrustMissing | Some snapshot \<Rightarrow> snapshot_availability snapshot now)"

section \<open>Verification\<close>

definition ticket_verifier_new :: "byte list \<Rightarrow> byte list \<Rightarrow> byte list \<Rightarrow> ticket_error + ticket_verifier" where
  "ticket_verifier_new issuer audience region =
     (if \<not> valid_text issuer max_issuer_len \<or> \<not> valid_text audience max_audience_len \<or> \<not> valid_region region
      then Inl TkInvalidConfiguration
      else Inr \<lparr>tv_issuer = issuer, tv_audience = audience, tv_current_region = region\<rparr>)"

definition claims_rejected :: "ticket_verifier \<Rightarrow> wire_claims \<Rightarrow> arr16 \<Rightarrow> u64 \<Rightarrow> device_id \<Rightarrow> bool" where
  "claims_rejected v claims device now verified_device \<longleftrightarrow>
     device \<noteq> verified_device
     \<or> wc_iss claims \<noteq> tv_issuer v
     \<or> wc_aud claims \<noteq> tv_audience v
     \<or> wc_policy_version claims = 0
     \<or> now < wc_iat claims
     \<or> wc_exp claims \<le> now
     \<or> wc_exp claims \<le> wc_iat claims
     \<or> max_ticket_lifetime_seconds < wc_exp claims - wc_iat claims
     \<or> wc_regions claims = []
     \<or> max_allowed_regions < length (wc_regions claims)
     \<or> list_ex (\<lambda>region. \<not> valid_region region) (wc_regions claims)
     \<or> \<not> list_ex (\<lambda>region. region = tv_current_region v) (wc_regions claims)"

definition ok_or :: "'a option \<Rightarrow> 'e \<Rightarrow> 'e + 'a" where
  "ok_or x e = (case x of None \<Rightarrow> Inl e | Some v \<Rightarrow> Inr v)"

text \<open>The header checks, up to the decoding key.\<close>

definition ticket_key :: "'k jwt_library \<Rightarrow> 'k trust_snapshot \<Rightarrow> byte list \<Rightarrow> ticket_error + 'k" where
  "ticket_key jwt trust ticket =
     rbind (validate_compact_bounds ticket) (\<lambda>_.
     rbind (ok_or (jwt_header jwt ticket) TkMalformedTicket) (\<lambda>header.
     if \<not> jh_is_eddsa header \<or> jh_typ header \<noteq> Some [74, 87, 84] then Inl TkInvalidHeader
     else rbind (ok_or (jh_kid header) TkInvalidHeader) (\<lambda>key_id.
     if \<not> valid_key_id key_id then Inl TkInvalidHeader
     else ok_or (map_of (ts_keys trust) key_id) TkUnknownSigningKey)))"

definition ticket_verify :: "'k jwt_library \<Rightarrow> ticket_verifier \<Rightarrow> byte list \<Rightarrow> 'k trust_snapshot option \<Rightarrow> u64
    \<Rightarrow> device_id \<Rightarrow> device_id \<Rightarrow> ticket_error + verified_ticket" where
  "ticket_verify jwt v ticket trust now verified_device hello_device =
     (if verified_device \<noteq> hello_device then Inl TkDeviceIdentityMismatch
      else if controller_trust_availability trust now \<noteq> TrustFresh then Inl TkControllerUnavailable
      else rbind (ok_or trust TkControllerUnavailable) (\<lambda>trust.
      rbind (ticket_key jwt trust ticket) (\<lambda>key.
      rbind (ok_or (jwt_claims jwt ticket key (tv_issuer v) (tv_audience v)) TkInvalidSignatureOrClaims) (\<lambda>claims.
      rbind (ok_or (parse_identifier (wc_jti claims)) TkInvalidClaims) (\<lambda>ticket_id.
      rbind (ok_or (parse_identifier (wc_device claims)) TkInvalidClaims) (\<lambda>device.
      rbind (ok_or (parse_identifier (wc_organization claims)) TkInvalidClaims) (\<lambda>organization.
      rbind (ok_or (parse_identifier (wc_session claims)) TkInvalidClaims) (\<lambda>session.
      rbind (ok_or (parse_identifier (wc_nonce claims)) TkInvalidClaims) (\<lambda>nonce.
      if claims_rejected v claims device now verified_device then Inl TkInvalidClaims
      else if is_revoked trust ticket_id then Inl TkRevoked
      else Inr \<lparr>vt_ticket_id = ticket_id, vt_device_id = device, vt_organization_id = organization,
        vt_session_id = session, vt_expires_at_unix_seconds = wc_exp claims,
        vt_policy_version = wc_policy_version claims\<rparr>)))))))))"

definition validate_admission_ticket :: "'k jwt_library \<Rightarrow> ticket_verifier \<Rightarrow> byte list \<Rightarrow> 'k trust_snapshot option
    \<Rightarrow> u64 \<Rightarrow> device_id \<Rightarrow> device_id \<Rightarrow> ticket_error + verified_ticket" where
  "validate_admission_ticket jwt v ticket trust now verified_device hello_device =
     (if verified_device \<noteq> hello_device then Inl TkDeviceIdentityMismatch
      else ticket_verify jwt v ticket trust now verified_device hello_device)"

lemma ok_or_Inr [simp]: "ok_or x e = Inr v \<longleftrightarrow> x = Some v"
  by (cases x) (auto simp: ok_or_def)

end
