(* ===== verification/ControlCodec.thy ===== *)
theory ControlCodec
  imports CoreTypes
begin

text \<open>
  The V2 reliable-control codec of \<open>crates/sg-protocol/src/v2/control.rs\<close>: frames with a
  16-byte header, ten message kinds, and the bounded reader the decoder is built from.
  The central lemma \<open>decode_message_iff\<close> says that the decoder is exactly the inverse of
  the encoder on well-formed messages; the round trip, the canonicity and the size bounds
  of whole frames follow from it.

  A Rust \<open>String\<close> is the list of its bytes together with \<open>utf8_valid\<close>, the acceptance
  condition of \<open>std::str::from_utf8\<close>. \<open>AdmissionTicket\<close> and \<open>SafeModePolicy\<close> are private
  newtypes whose constructors are \<open>admission_ticket_new\<close> and \<open>safe_mode_policy_new\<close>; that a
  value was made by its constructor is part of \<open>wf_message\<close>.
\<close>

section \<open>Constants and data\<close>

definition CTL_VERSION :: byte where
  "CTL_VERSION = 2"

definition FRAME_HEADER_LEN :: nat where
  "FRAME_HEADER_LEN = 16"

definition DEFAULT_MAX_FRAME_LEN :: nat where
  "DEFAULT_MAX_FRAME_LEN = 8 * 1024"

definition MAX_GATEWAY_NAME_LEN :: nat where
  "MAX_GATEWAY_NAME_LEN = 255"

definition MAX_TICKET_LEN :: nat where
  "MAX_TICKET_LEN = 2 * 1024"

definition MAX_PATH_METADATA_LEN :: nat where
  "MAX_PATH_METADATA_LEN = 512"

definition MAX_REASON_LEN :: nat where
  "MAX_REASON_LEN = 255"

definition MAX_POLICY_LEN :: nat where
  "MAX_POLICY_LEN = 4 * 1024"

definition MAX_SAFE_MODE_POLICY_LEN :: nat where
  "MAX_SAFE_MODE_POLICY_LEN = 4 * 1024"

lemmas ctl_consts = CTL_VERSION_def FRAME_HEADER_LEN_def DEFAULT_MAX_FRAME_LEN_def
  MAX_GATEWAY_NAME_LEN_def MAX_TICKET_LEN_def MAX_PATH_METADATA_LEN_def MAX_REASON_LEN_def
  MAX_POLICY_LEN_def MAX_SAFE_MODE_POLICY_LEN_def

datatype reject_code =
  InvalidState | InvalidSession | StaleEpoch | UnknownPath | InvalidRequest | Expired
  | InvalidDirection

datatype control_message =
    ClientHello device_id "byte list" "byte list"
    \<comment> \<open>device, requested gateway, ticket\<close>
  | SessionAdmit session_id u64 u64 arr4 byte arr16 byte "byte list"
    \<comment> \<open>session, expiry, policy epoch, IPv4 and length, IPv6 prefix and length, Safe Mode policy\<close>
  | PathAttach session_id arr16 u64 u32 "byte list"
    \<comment> \<open>session, path nonce, path epoch, key epoch, metadata\<close>
  | PathAttached session_id path_id u64
  | PathDetach session_id path_id u64 "byte list"
  | PathHealth session_id path_id u64 u32 u32
    \<comment> \<open>session, path, path epoch, round trip in ms, loss in ppm\<close>
  | PolicyUpdate session_id u64 "byte list"
  | CloseSession session_id "byte list"
  | Ack
  | Reject reject_code "byte list"

record control_frame =
  cf_transaction_id :: u64
  cf_message :: control_message

datatype control_codec_error =
    CtlTruncatedHeader
  | CtlUnsupportedVersion byte
  | CtlReservedByte byte
  | CtlUnknownKind byte
  | CtlZeroTransactionId
  | CtlFrameTooLarge nat nat
  | CtlTruncatedFrame nat nat
  | CtlTrailingData nat nat
  | CtlInvalidField string
  | CtlFieldTooLong string nat nat
  | CtlInvalidUtf8 string

fun rc_to_wire :: "reject_code \<Rightarrow> u16" where
  "rc_to_wire InvalidState = 1"
| "rc_to_wire InvalidSession = 2"
| "rc_to_wire StaleEpoch = 3"
| "rc_to_wire UnknownPath = 4"
| "rc_to_wire InvalidRequest = 5"
| "rc_to_wire Expired = 6"
| "rc_to_wire InvalidDirection = 7"

definition rc_from_wire :: "u16 \<Rightarrow> reject_code option" where
  "rc_from_wire value =
     (if value = 1 then Some InvalidState
      else if value = 2 then Some InvalidSession
      else if value = 3 then Some StaleEpoch
      else if value = 4 then Some UnknownPath
      else if value = 5 then Some InvalidRequest
      else if value = 6 then Some Expired
      else if value = 7 then Some InvalidDirection
      else None)"

lemma rc_wire_iff: "rc_from_wire w = Some c \<longleftrightarrow> w = rc_to_wire c"
  by (cases c) (auto simp: rc_from_wire_def)

section \<open>UTF-8\<close>

definition utf8_cont :: "byte \<Rightarrow> bool" where
  "utf8_cont b \<longleftrightarrow> 0x80 \<le> b \<and> b \<le> 0xBF"

fun utf8_valid :: "byte list \<Rightarrow> bool" where
  "utf8_valid [] = True"
| "utf8_valid (b0 # bs) =
     (if b0 < 0x80 then utf8_valid bs
      else if 0xC2 \<le> b0 \<and> b0 \<le> 0xDF then
        (case bs of b1 # r \<Rightarrow> utf8_cont b1 \<and> utf8_valid r | _ \<Rightarrow> False)
      else if 0xE0 \<le> b0 \<and> b0 \<le> 0xEF then
        (case bs of b1 # b2 # r \<Rightarrow>
            utf8_cont b1 \<and> utf8_cont b2 \<and> (b0 = 0xE0 \<longrightarrow> 0xA0 \<le> b1) \<and> (b0 = 0xED \<longrightarrow> b1 \<le> 0x9F)
            \<and> utf8_valid r
         | _ \<Rightarrow> False)
      else if 0xF0 \<le> b0 \<and> b0 \<le> 0xF4 then
        (case bs of b1 # b2 # b3 # r \<Rightarrow>
            utf8_cont b1 \<and> utf8_cont b2 \<and> utf8_cont b3 \<and> (b0 = 0xF0 \<longrightarrow> 0x90 \<le> b1)
            \<and> (b0 = 0xF4 \<longrightarrow> b1 \<le> 0x8F) \<and> utf8_valid r
         | _ \<Rightarrow> False)
      else False)"

declare utf8_valid.simps(2) [simp del]

section \<open>Validation\<close>

definition validate_id :: "arr16 \<Rightarrow> string \<Rightarrow> control_codec_error + unit" where
  "validate_id i name = ensure (\<not> all_zero (to_be i)) (CtlInvalidField name)"

definition validate_session :: "session_id \<Rightarrow> control_codec_error + unit" where
  "validate_session s = validate_id s ''session ID''"

definition validate_nonzero :: "byte list \<Rightarrow> string \<Rightarrow> control_codec_error + unit" where
  "validate_nonzero value name = ensure (\<not> all_zero value) (CtlInvalidField name)"

definition validate_path :: "path_id \<Rightarrow> control_codec_error + unit" where
  "validate_path p = ensure (p \<noteq> 0) (CtlInvalidField ''path ID'')"

definition validate_epoch :: "u64 \<Rightarrow> string \<Rightarrow> control_codec_error + unit" where
  "validate_epoch value name = ensure (value \<noteq> 0) (CtlInvalidField name)"

definition validate_prefix :: "byte \<Rightarrow> byte \<Rightarrow> string \<Rightarrow> control_codec_error + unit" where
  "validate_prefix value maximum name =
     ensure (\<not> (value = 0 \<or> maximum < value)) (CtlInvalidField name)"

definition validate_len :: "string \<Rightarrow> nat \<Rightarrow> nat \<Rightarrow> control_codec_error + unit" where
  "validate_len field len maximum =
     ensure (len \<le> maximum) (CtlFieldTooLong field len maximum)"

lemmas validate_defs [wire_simps] = validate_id_def validate_session_def validate_nonzero_def
  validate_path_def validate_epoch_def validate_prefix_def validate_len_def

definition admission_ticket_new :: "byte list \<Rightarrow> control_codec_error + byte list" where
  "admission_ticket_new value =
     (if value = [] then Inl (CtlInvalidField ''ticket'')
      else if MAX_TICKET_LEN < length value
        then Inl (CtlFieldTooLong ''ticket'' (length value) MAX_TICKET_LEN)
      else Inr value)"

definition safe_mode_policy_new :: "byte list \<Rightarrow> control_codec_error + byte list" where
  "safe_mode_policy_new value =
     (if value = [] then Inl (CtlInvalidField ''safe mode policy'')
      else rbind (validate_len ''safe mode policy'' (length value) MAX_SAFE_MODE_POLICY_LEN)
        (\<lambda>_. Inr value))"

text \<open>What the Rust types guarantee of a message before any codec runs.\<close>

fun wf_message :: "control_message \<Rightarrow> bool" where
  "wf_message (ClientHello d g t) \<longleftrightarrow>
     utf8_valid g \<and> utf8_valid t \<and> admission_ticket_new t = Inr t"
| "wf_message (SessionAdmit s e p a4 l4 a6 l6 smp) \<longleftrightarrow> safe_mode_policy_new smp = Inr smp"
| "wf_message (PathDetach s p e r) \<longleftrightarrow> utf8_valid r"
| "wf_message (CloseSession s r) \<longleftrightarrow> utf8_valid r"
| "wf_message (Reject c r) \<longleftrightarrow> utf8_valid r"
| "wf_message m \<longleftrightarrow> True"

section \<open>Encoder\<close>

definition put_string_u8 ::
  "byte list \<Rightarrow> byte list \<Rightarrow> string \<Rightarrow> nat \<Rightarrow> control_codec_error + byte list" where
  "put_string_u8 body value field maximum =
     rbind (validate_len field (length value) maximum) (\<lambda>_.
     Inr (body @ [word_of_nat (length value)] @ value))"

definition put_string_u16 ::
  "byte list \<Rightarrow> byte list \<Rightarrow> string \<Rightarrow> nat \<Rightarrow> control_codec_error + byte list" where
  "put_string_u16 body value field maximum =
     rbind (validate_len field (length value) maximum) (\<lambda>_.
     Inr (body @ to_be (word_of_nat (length value) :: u16) @ value))"

fun encode_message :: "control_message \<Rightarrow> control_codec_error + (byte \<times> byte list)" where
  "encode_message (ClientHello device gateway ticket) =
     rbind (validate_id device ''device ID'') (\<lambda>_.
     rbind (put_string_u8 [] gateway ''gateway'' MAX_GATEWAY_NAME_LEN) (\<lambda>body.
     rbind (put_string_u16 body ticket ''ticket'' MAX_TICKET_LEN) (\<lambda>body.
     Inr (1, to_be device @ body))))"
| "encode_message (SessionAdmit session expires epoch ipv4 ipv4_len ipv6 ipv6_len policy) =
     rbind (validate_session session) (\<lambda>_.
     rbind (ensure (\<not> (expires = 0 \<or> epoch = 0)) (CtlInvalidField ''session admission epoch'')) (\<lambda>_.
     rbind (validate_nonzero (to_be ipv4) ''assigned IPv4'') (\<lambda>_.
     rbind (validate_nonzero (to_be ipv6) ''assigned IPv6 prefix'') (\<lambda>_.
     rbind (validate_prefix ipv4_len 32 ''IPv4 prefix length'') (\<lambda>_.
     rbind (validate_prefix ipv6_len 128 ''IPv6 prefix length'') (\<lambda>_.
     Inr (2, to_be session @ to_be expires @ to_be epoch @ to_be ipv4 @ [ipv4_len]
             @ to_be ipv6 @ [ipv6_len] @ to_be (word_of_nat (length policy) :: u16) @ policy)))))))"
| "encode_message (PathAttach session nonce path_epoch key_epoch metadata) =
     rbind (validate_session session) (\<lambda>_.
     rbind (validate_id nonce ''path nonce'') (\<lambda>_.
     rbind (validate_epoch path_epoch ''path epoch'') (\<lambda>_.
     rbind (ensure (key_epoch \<noteq> 0) (CtlInvalidField ''key epoch'')) (\<lambda>_.
     rbind (validate_len ''path metadata'' (length metadata) MAX_PATH_METADATA_LEN) (\<lambda>_.
     Inr (3, to_be session @ to_be nonce @ to_be path_epoch @ to_be key_epoch
             @ to_be (word_of_nat (length metadata) :: u16) @ metadata))))))"
| "encode_message (PathAttached session path path_epoch) =
     rbind (validate_session session) (\<lambda>_.
     rbind (validate_path path) (\<lambda>_.
     rbind (validate_epoch path_epoch ''path epoch'') (\<lambda>_.
     Inr (4, to_be session @ to_be path @ to_be path_epoch))))"
| "encode_message (PathDetach session path path_epoch reason) =
     rbind (validate_session session) (\<lambda>_.
     rbind (validate_path path) (\<lambda>_.
     rbind (validate_epoch path_epoch ''path epoch'') (\<lambda>_.
     rbind (put_string_u8 (to_be session @ to_be path @ to_be path_epoch) reason
              ''reason'' MAX_REASON_LEN) (\<lambda>body.
     Inr (5, body)))))"
| "encode_message (PathHealth session path path_epoch rtt loss) =
     rbind (validate_session session) (\<lambda>_.
     rbind (validate_path path) (\<lambda>_.
     rbind (validate_epoch path_epoch ''path epoch'') (\<lambda>_.
     Inr (6, to_be session @ to_be path @ to_be path_epoch @ to_be rtt @ to_be loss))))"
| "encode_message (PolicyUpdate session policy_epoch policy) =
     rbind (validate_session session) (\<lambda>_.
     rbind (validate_epoch policy_epoch ''policy epoch'') (\<lambda>_.
     rbind (validate_len ''policy'' (length policy) MAX_POLICY_LEN) (\<lambda>_.
     Inr (7, to_be session @ to_be policy_epoch
             @ to_be (word_of_nat (length policy) :: u16) @ policy))))"
| "encode_message (CloseSession session reason) =
     rbind (validate_session session) (\<lambda>_.
     rbind (put_string_u8 (to_be session) reason ''reason'' MAX_REASON_LEN) (\<lambda>body.
     Inr (8, body)))"
| "encode_message Ack = Inr (9, [])"
| "encode_message (Reject code reason) =
     rbind (put_string_u8 (to_be (rc_to_wire code)) reason ''reason'' MAX_REASON_LEN) (\<lambda>body.
     Inr (10, body))"

definition frame_encode :: "control_frame \<Rightarrow> nat \<Rightarrow> control_codec_error + byte list" where
  "frame_encode frame limit =
     (if cf_transaction_id frame = 0 then Inl CtlZeroTransactionId
      else rbind (encode_message (cf_message frame)) (\<lambda>(kind, body).
        let len = FRAME_HEADER_LEN + length body in
        if limit < len then Inl (CtlFrameTooLarge len limit)
        else Inr ([CTL_VERSION, 0, kind, 0] @ to_be (cf_transaction_id frame)
                  @ to_be (word_of_nat (length body) :: u32) @ body)))"

section \<open>Reader and decoder\<close>

text \<open>The reader's state is the slice of bytes that remain; a read returns it updated.\<close>

type_synonym 'a reader = "byte list \<Rightarrow> control_codec_error + ('a \<times> byte list)"

definition rd_take :: "nat \<Rightarrow> byte list reader" where
  "rd_take count remaining =
     (if length remaining < count then Inl (CtlInvalidField ''truncated message body'')
      else Inr (take count remaining, drop count remaining))"

definition rd_byte :: "byte reader" where
  "rd_byte r = rbind (rd_take 1 r) (\<lambda>(v, r). Inr (v ! 0, r))"

definition rd_id :: "string \<Rightarrow> arr16 reader" where
  "rd_id name r =
     rbind (rd_take 16 r) (\<lambda>(v, r).
     rbind (validate_id (from_be v) name) (\<lambda>_. Inr (from_be v, r)))"

definition rd_u16 :: "u16 reader" where
  "rd_u16 r = rbind (rd_take 2 r) (\<lambda>(v, r). Inr (from_be v, r))"

definition rd_u32 :: "u32 reader" where
  "rd_u32 r = rbind (rd_take 4 r) (\<lambda>(v, r). Inr (from_be v, r))"

definition rd_u64 :: "u64 reader" where
  "rd_u64 r = rbind (rd_take 8 r) (\<lambda>(v, r). Inr (from_be v, r))"

definition rd_arr16 :: "arr16 reader" where
  "rd_arr16 r = rbind (rd_take 16 r) (\<lambda>(v, r). Inr (from_be v, r))"

definition rd_epoch :: "string \<Rightarrow> u64 reader" where
  "rd_epoch name r =
     rbind (rd_u64 r) (\<lambda>(v, r). rbind (validate_epoch v name) (\<lambda>_. Inr (v, r)))"

definition rd_path_id :: "path_id reader" where
  "rd_path_id r = rbind (rd_u16 r) (\<lambda>(v, r). rbind (validate_path v) (\<lambda>_. Inr (v, r)))"

definition rd_string :: "string \<Rightarrow> nat \<Rightarrow> nat \<Rightarrow> byte list reader" where
  "rd_string field len maximum r =
     rbind (validate_len field len maximum) (\<lambda>_.
     rbind (rd_take len r) (\<lambda>(v, r).
     if utf8_valid v then Inr (v, r) else Inl (CtlInvalidUtf8 field)))"

definition rd_string_u8 :: "string \<Rightarrow> nat \<Rightarrow> byte list reader" where
  "rd_string_u8 field maximum r =
     rbind (rd_byte r) (\<lambda>(len, r). rd_string field (unat len) maximum r)"

definition rd_string_u16 :: "string \<Rightarrow> nat \<Rightarrow> byte list reader" where
  "rd_string_u16 field maximum r =
     rbind (rd_u16 r) (\<lambda>(len, r). rd_string field (unat len) maximum r)"

definition rd_bytes_u16 :: "string \<Rightarrow> nat \<Rightarrow> byte list reader" where
  "rd_bytes_u16 field maximum r =
     rbind (rd_u16 r) (\<lambda>(len, r).
     rbind (validate_len field (unat len) maximum) (\<lambda>_. rd_take (unat len) r))"

definition rd_finish :: "byte list \<Rightarrow> control_codec_error + unit" where
  "rd_finish r = (if r = [] then Inr () else Inl (CtlTrailingData 0 (length r)))"

definition decode_message :: "byte \<Rightarrow> byte list \<Rightarrow> control_codec_error + control_message" where
  "decode_message kind r =
     (if kind = 1 then
        rbind (rd_id ''device ID'' r) (\<lambda>(device, r).
        rbind (rd_string_u8 ''gateway'' MAX_GATEWAY_NAME_LEN r) (\<lambda>(gateway, r).
        rbind (rd_string_u16 ''ticket'' MAX_TICKET_LEN r) (\<lambda>(ticket, r).
        rbind (ensure (ticket \<noteq> []) (CtlInvalidField ''ticket'')) (\<lambda>_.
        rbind (rd_finish r) (\<lambda>_. Inr (ClientHello device gateway ticket))))))
      else if kind = 2 then
        rbind (rd_id ''session ID'' r) (\<lambda>(session, r).
        rbind (rd_u64 r) (\<lambda>(expires, r).
        rbind (rd_u64 r) (\<lambda>(epoch, r).
        rbind (rd_u32 r) (\<lambda>(ipv4, r).
        rbind (rd_byte r) (\<lambda>(ipv4_len, r).
        rbind (rd_arr16 r) (\<lambda>(ipv6, r).
        rbind (rd_byte r) (\<lambda>(ipv6_len, r).
        rbind (rd_bytes_u16 ''safe mode policy'' MAX_SAFE_MODE_POLICY_LEN r) (\<lambda>(policy, r).
        rbind (ensure (\<not> (expires = 0 \<or> epoch = 0)) (CtlInvalidField ''session admission epoch'')) (\<lambda>_.
        rbind (validate_nonzero (to_be ipv4) ''assigned IPv4'') (\<lambda>_.
        rbind (validate_nonzero (to_be ipv6) ''assigned IPv6 prefix'') (\<lambda>_.
        rbind (validate_prefix ipv4_len 32 ''IPv4 prefix length'') (\<lambda>_.
        rbind (validate_prefix ipv6_len 128 ''IPv6 prefix length'') (\<lambda>_.
        rbind (ensure (policy \<noteq> []) (CtlInvalidField ''safe mode policy'')) (\<lambda>_.
        rbind (rd_finish r) (\<lambda>_.
        Inr (SessionAdmit session expires epoch ipv4 ipv4_len ipv6 ipv6_len policy))))))))))))))))
      else if kind = 3 then
        rbind (rd_id ''session ID'' r) (\<lambda>(session, r).
        rbind (rd_id ''path nonce'' r) (\<lambda>(nonce, r).
        rbind (rd_epoch ''path epoch'' r) (\<lambda>(path_epoch, r).
        rbind (rd_u32 r) (\<lambda>(key_epoch, r).
        rbind (ensure (key_epoch \<noteq> 0) (CtlInvalidField ''key epoch'')) (\<lambda>_.
        rbind (rd_bytes_u16 ''path metadata'' MAX_PATH_METADATA_LEN r) (\<lambda>(metadata, r).
        rbind (rd_finish r) (\<lambda>_. Inr (PathAttach session nonce path_epoch key_epoch metadata))))))))
      else if kind = 4 then
        rbind (rd_id ''session ID'' r) (\<lambda>(session, r).
        rbind (rd_path_id r) (\<lambda>(path, r).
        rbind (rd_epoch ''path epoch'' r) (\<lambda>(path_epoch, r).
        rbind (rd_finish r) (\<lambda>_. Inr (PathAttached session path path_epoch)))))
      else if kind = 5 then
        rbind (rd_id ''session ID'' r) (\<lambda>(session, r).
        rbind (rd_path_id r) (\<lambda>(path, r).
        rbind (rd_epoch ''path epoch'' r) (\<lambda>(path_epoch, r).
        rbind (rd_string_u8 ''reason'' MAX_REASON_LEN r) (\<lambda>(reason, r).
        rbind (rd_finish r) (\<lambda>_. Inr (PathDetach session path path_epoch reason))))))
      else if kind = 6 then
        rbind (rd_id ''session ID'' r) (\<lambda>(session, r).
        rbind (rd_path_id r) (\<lambda>(path, r).
        rbind (rd_epoch ''path epoch'' r) (\<lambda>(path_epoch, r).
        rbind (rd_u32 r) (\<lambda>(rtt, r).
        rbind (rd_u32 r) (\<lambda>(loss, r).
        rbind (rd_finish r) (\<lambda>_. Inr (PathHealth session path path_epoch rtt loss)))))))
      else if kind = 7 then
        rbind (rd_id ''session ID'' r) (\<lambda>(session, r).
        rbind (rd_epoch ''policy epoch'' r) (\<lambda>(policy_epoch, r).
        rbind (rd_bytes_u16 ''policy'' MAX_POLICY_LEN r) (\<lambda>(policy, r).
        rbind (rd_finish r) (\<lambda>_. Inr (PolicyUpdate session policy_epoch policy)))))
      else if kind = 8 then
        rbind (rd_id ''session ID'' r) (\<lambda>(session, r).
        rbind (rd_string_u8 ''reason'' MAX_REASON_LEN r) (\<lambda>(reason, r).
        rbind (rd_finish r) (\<lambda>_. Inr (CloseSession session reason))))
      else if kind = 9 then rbind (rd_finish r) (\<lambda>_. Inr Ack)
      else if kind = 10 then
        rbind (rd_u16 r) (\<lambda>(code, r).
        case rc_from_wire code of
          None \<Rightarrow> Inl (CtlInvalidField ''reject code'')
        | Some code \<Rightarrow>
            rbind (rd_string_u8 ''reason'' MAX_REASON_LEN r) (\<lambda>(reason, r).
            rbind (rd_finish r) (\<lambda>_. Inr (Reject code reason))))
      else Inl (CtlUnknownKind kind))"

definition frame_decode :: "byte list \<Rightarrow> nat \<Rightarrow> control_codec_error + control_frame" where
  "frame_decode frame limit =
     (if length frame < FRAME_HEADER_LEN then Inl CtlTruncatedHeader
      else if frame ! 0 \<noteq> CTL_VERSION then Inl (CtlUnsupportedVersion (frame ! 0))
      else if frame ! 1 \<noteq> 0 then Inl (CtlReservedByte (frame ! 1))
      else if frame ! 3 \<noteq> 0 then Inl (CtlReservedByte (frame ! 3))
      else
        let kind = frame ! 2;
            transaction_id = from_be (slice 4 12 frame) :: u64;
            body_len = unat (from_be (slice 12 16 frame) :: u32);
            declared = FRAME_HEADER_LEN + body_len
        in if transaction_id = 0 then Inl CtlZeroTransactionId
           else if limit < declared then Inl (CtlFrameTooLarge declared limit)
           else if length frame < declared then Inl (CtlTruncatedFrame declared (length frame))
           else if declared < length frame then Inl (CtlTrailingData declared (length frame))
           else rbind (decode_message kind (drop FRAME_HEADER_LEN frame)) (\<lambda>message.
                Inr \<lparr>cf_transaction_id = transaction_id, cf_message = message\<rparr>))"

section \<open>What each read accepts\<close>

lemma rd_take_Inr: "rd_take n xs = Inr (v, ys) \<longleftrightarrow> length v = n \<and> xs = v @ ys"
  by (auto simp: rd_take_def)

lemma rd_byte_Inr: "rd_byte xs = Inr (b, ys) \<longleftrightarrow> xs = b # ys"
  by (auto simp: rd_byte_def rbind_Inr rd_take_Inr length_Suc_conv)

lemma read_word_iff:
  fixes w :: "'a::len word"
  assumes "\<And>bs. length bs = n \<Longrightarrow> to_be (from_be bs :: 'a word) = bs"
    and "from_be (to_be w) = w" and "length (to_be w) = n"
  shows "(\<exists>v. length v = n \<and> xs = v @ ys \<and> from_be v = w) \<longleftrightarrow> xs = to_be w @ ys"
  using assms by metis

lemma rd_u16_Inr: "rd_u16 xs = Inr (w, ys) \<longleftrightarrow> xs = to_be w @ ys"
  unfolding rd_u16_def
  by (subst read_word_iff [of 2, symmetric]) (auto simp: rbind_Inr rd_take_Inr)

lemma rd_u32_Inr: "rd_u32 xs = Inr (w, ys) \<longleftrightarrow> xs = to_be w @ ys"
  unfolding rd_u32_def
  by (subst read_word_iff [of 4, symmetric]) (auto simp: rbind_Inr rd_take_Inr)

lemma rd_u64_Inr: "rd_u64 xs = Inr (w, ys) \<longleftrightarrow> xs = to_be w @ ys"
  unfolding rd_u64_def
  by (subst read_word_iff [of 8, symmetric]) (auto simp: rbind_Inr rd_take_Inr)

lemma rd_arr16_Inr: "rd_arr16 xs = Inr (w, ys) \<longleftrightarrow> xs = to_be w @ ys"
  unfolding rd_arr16_def
  by (subst read_word_iff [of 16, symmetric]) (auto simp: rbind_Inr rd_take_Inr)

lemma rd_id_Inr: "rd_id name xs = Inr (w, ys) \<longleftrightarrow> xs = to_be w @ ys \<and> w \<noteq> 0"
  unfolding rd_arr16_Inr [symmetric]
  by (auto simp: rd_id_def rd_arr16_def rbind_Inr validate_id_def)

lemma rd_epoch_Inr: "rd_epoch name xs = Inr (w, ys) \<longleftrightarrow> xs = to_be w @ ys \<and> w \<noteq> 0"
  by (auto simp: rd_epoch_def rbind_Inr rd_u64_Inr validate_epoch_def)

lemma rd_path_id_Inr: "rd_path_id xs = Inr (w, ys) \<longleftrightarrow> xs = to_be w @ ys \<and> w \<noteq> 0"
  by (auto simp: rd_path_id_def rbind_Inr rd_u16_Inr validate_path_def)

lemma rd_string_Inr:
  "rd_string f n mx xs = Inr (v, ys) \<longleftrightarrow>
     n \<le> mx \<and> length v = n \<and> xs = v @ ys \<and> utf8_valid v"
  by (auto simp: rd_string_def rbind_Inr rd_take_Inr validate_len_def split: if_splits)

lemma unat_len_iff:
  fixes w :: "'a::len word"
  assumes "n < 2 ^ LENGTH('a)"
  shows "unat w = n \<longleftrightarrow> w = word_of_nat n"
  using assms by (auto simp: unat_of_nat)

lemma rd_string_u8_Inr:
  assumes "mx \<le> 255"
  shows "rd_string_u8 f mx xs = Inr (v, ys) \<longleftrightarrow>
    length v \<le> mx \<and> xs = word_of_nat (length v) # v @ ys \<and> utf8_valid v"
  using assms
  by (auto simp: rd_string_u8_def rbind_Inr rd_byte_Inr rd_string_Inr unat_len_iff unat_of_nat)

lemma rd_string_u16_Inr:
  assumes "mx \<le> 65535"
  shows "rd_string_u16 f mx xs = Inr (v, ys) \<longleftrightarrow>
    length v \<le> mx \<and> xs = to_be (word_of_nat (length v) :: u16) @ v @ ys \<and> utf8_valid v"
  using assms
  by (auto simp: rd_string_u16_def rbind_Inr rd_u16_Inr rd_string_Inr unat_len_iff unat_of_nat)

lemma rd_bytes_u16_Inr:
  assumes "mx \<le> 65535"
  shows "rd_bytes_u16 f mx xs = Inr (v, ys) \<longleftrightarrow>
    length v \<le> mx \<and> xs = to_be (word_of_nat (length v) :: u16) @ v @ ys"
  using assms
  by (auto simp: rd_bytes_u16_def rbind_Inr rd_u16_Inr rd_take_Inr validate_len_def unat_len_iff
      unat_of_nat)

lemma rd_finish_Inr: "rd_finish r = Inr u \<longleftrightarrow> r = []"
  by (auto simp: rd_finish_def)

lemmas reader_iffs = rd_byte_Inr rd_u16_Inr rd_u32_Inr rd_u64_Inr rd_arr16_Inr rd_id_Inr
  rd_epoch_Inr rd_path_id_Inr rd_string_u8_Inr rd_string_u16_Inr rd_bytes_u16_Inr rd_finish_Inr

text \<open>The same facts as evaluation rules, with and without bytes that follow.\<close>

lemma reader_evals:
  "rd_byte (b # ys) = Inr (b, ys)"
  "rd_u16 (to_be w16 @ ys) = Inr (w16, ys)" "rd_u16 (to_be w16) = Inr (w16, [])"
  "rd_u32 (to_be w32 @ ys) = Inr (w32, ys)" "rd_u32 (to_be w32) = Inr (w32, [])"
  "rd_u64 (to_be w64 @ ys) = Inr (w64, ys)" "rd_u64 (to_be w64) = Inr (w64, [])"
  "rd_arr16 (to_be a @ ys) = Inr (a, ys)"
  "a \<noteq> 0 \<Longrightarrow> rd_id f (to_be a @ ys) = Inr (a, ys)"
  "w64 \<noteq> 0 \<Longrightarrow> rd_epoch f (to_be w64 @ ys) = Inr (w64, ys)"
  "w64 \<noteq> 0 \<Longrightarrow> rd_epoch f (to_be w64) = Inr (w64, [])"
  "w16 \<noteq> 0 \<Longrightarrow> rd_path_id (to_be w16 @ ys) = Inr (w16, ys)"
  "length v \<le> mx \<Longrightarrow> mx \<le> 255 \<Longrightarrow> utf8_valid v \<Longrightarrow>
    rd_string_u8 f mx (word_of_nat (length v) # v @ ys) = Inr (v, ys)"
  "length v \<le> mx \<Longrightarrow> mx \<le> 255 \<Longrightarrow> utf8_valid v \<Longrightarrow>
    rd_string_u8 f mx (word_of_nat (length v) # v) = Inr (v, [])"
  "length v \<le> mx \<Longrightarrow> mx \<le> 65535 \<Longrightarrow> utf8_valid v \<Longrightarrow>
    rd_string_u16 f mx (to_be (word_of_nat (length v) :: u16) @ v) = Inr (v, [])"
  "length v \<le> mx \<Longrightarrow> mx \<le> 65535 \<Longrightarrow>
    rd_bytes_u16 f mx (to_be (word_of_nat (length v) :: u16) @ v) = Inr (v, [])"
  "rd_finish [] = Inr ()"
  by (simp_all add: reader_iffs)

lemma admission_ticket_new_Inr:
  "admission_ticket_new t = Inr t' \<longleftrightarrow> t' = t \<and> t \<noteq> [] \<and> length t \<le> MAX_TICKET_LEN"
  by (auto simp: admission_ticket_new_def)

lemma safe_mode_policy_new_Inr:
  "safe_mode_policy_new t = Inr t' \<longleftrightarrow> t' = t \<and> t \<noteq> [] \<and> length t \<le> MAX_SAFE_MODE_POLICY_LEN"
  by (auto simp: safe_mode_policy_new_def validate_len_def)

text \<open>The decoder is the inverse of the encoder on well-formed messages, kind by kind.\<close>

lemma decode_message_sound:
  "decode_message kind body = Inr m \<Longrightarrow> encode_message m = Inr (kind, body) \<and> wf_message m"
  unfolding decode_message_def
  by (auto simp: rbind_Inr reader_iffs ctl_consts validate_defs put_string_u8_def
      put_string_u16_def admission_ticket_new_Inr safe_mode_policy_new_Inr rc_wire_iff
      split: if_split_asm option.split_asm)

lemma decode_message_complete:
  "encode_message m = Inr (kind, body) \<Longrightarrow> wf_message m \<Longrightarrow> decode_message kind body = Inr m"
  by (cases m; clarsimp simp: rbind_Inr validate_defs put_string_u8_def put_string_u16_def
        admission_ticket_new_Inr safe_mode_policy_new_Inr split: if_split_asm;
      simp add: decode_message_def reader_evals ctl_consts validate_defs
        iffD2 [OF rc_wire_iff refl])

lemma decode_message_iff:
  "decode_message kind body = Inr m \<longleftrightarrow> encode_message m = Inr (kind, body) \<and> wf_message m"
  using decode_message_sound decode_message_complete by blast

section \<open>Frames\<close>

text \<open>An encoded body is at most 4152 bytes: the largest message is a \<open>SessionAdmit\<close> with a
  full Safe Mode policy.\<close>

lemma encode_message_length:
  "encode_message m = Inr (kind, body) \<Longrightarrow> wf_message m \<Longrightarrow> length body \<le> 4152"
  by (cases m; clarsimp simp: rbind_Inr validate_defs put_string_u8_def put_string_u16_def
        safe_mode_policy_new_Inr ctl_consts split: if_split_asm)

lemma frame_encode_Inr:
  "frame_encode f limit = Inr bs \<longleftrightarrow>
     cf_transaction_id f \<noteq> 0 \<and>
     (\<exists>kind body. encode_message (cf_message f) = Inr (kind, body) \<and>
        16 + length body \<le> limit \<and>
        bs = [CTL_VERSION, 0, kind, 0] @ to_be (cf_transaction_id f)
             @ to_be (word_of_nat (length body) :: u32) @ body)"
  by (cases "encode_message (cf_message f)")
    (auto simp: frame_encode_def Let_def FRAME_HEADER_LEN_def split: if_splits)

lemma frame_fields:
  assumes "bs = [CTL_VERSION, 0, kind, 0] @ to_be (t :: u64) @ to_be (n :: u32) @ body"
  shows "bs ! 0 = CTL_VERSION" "bs ! Suc 0 = 0" "bs ! 2 = kind" "bs ! 3 = 0"
    "slice 4 12 bs = to_be t" "slice 12 16 bs = to_be n" "drop 16 bs = body"
    "length bs = 16 + length body"
  by (simp_all add: assms slice_def nth_Cons' drop_Cons')

lemma frame_split:
  assumes "16 \<le> length d"
  shows "d = [d ! 0, d ! 1, d ! 2, d ! 3] @ slice 4 12 d @ slice 12 16 d @ drop 16 d"
proof -
  have "take 4 d = [d ! 0, d ! 1, d ! 2, d ! 3]"
    using assms by (cases d; cases "tl d"; cases "tl (tl d)"; cases "tl (tl (tl d))")
      (auto simp: numeral_eq_Suc)
  moreover have "d = slice 0 4 d @ slice 4 12 d @ slice 12 16 d @ drop 16 d"
    using slice_join [of 4 12 16 d] slice_join [of 0 4 16 d]
    by (simp add: slice_def flip: append_assoc)
  ultimately show ?thesis by (simp add: slice_def)
qed

lemma frame_decode_Inr:
  "frame_decode d limit = Inr f \<longleftrightarrow>
     16 \<le> length d \<and> d ! 0 = CTL_VERSION \<and> d ! 1 = 0 \<and> d ! 3 = 0 \<and>
     cf_transaction_id f = from_be (slice 4 12 d) \<and> cf_transaction_id f \<noteq> 0 \<and>
     length d \<le> limit \<and> length d = 16 + unat (from_be (slice 12 16 d) :: u32) \<and>
     decode_message (d ! 2) (drop 16 d) = Inr (cf_message f)"
  by (cases f) (auto simp: frame_decode_def FRAME_HEADER_LEN_def Let_def rbind_Inr)

lemma frame_decode_iff:
  "frame_decode d limit = Inr f \<longleftrightarrow> frame_encode f limit = Inr d \<and> wf_message (cf_message f)"
proof
  assume dec: "frame_decode d limit = Inr f"
  then have len: "16 \<le> length d" and m: "decode_message (d ! 2) (drop 16 d) = Inr (cf_message f)"
    and n: "unat (from_be (slice 12 16 d) :: u32) = length d - 16"
    by (simp_all add: frame_decode_Inr)
  have "word_of_nat (length d - 16) = (from_be (slice 12 16 d) :: u32)"
    by (simp flip: n)
  then have "to_be (word_of_nat (length d - 16) :: u32) = slice 12 16 d"
    using len by (simp add: length_slice)
  moreover have "to_be (from_be (slice 4 12 d) :: u64) = slice 4 12 d"
    using len by (simp add: length_slice)
  ultimately have "d = [CTL_VERSION, 0, d ! 2, 0] @ to_be (cf_transaction_id f)
      @ to_be (word_of_nat (length d - 16) :: u32) @ drop 16 d"
    using frame_split [OF len] dec by (simp add: frame_decode_Inr)
  then show "frame_encode f limit = Inr d \<and> wf_message (cf_message f)"
    using m dec by (auto simp: frame_encode_Inr frame_decode_Inr decode_message_iff)
next
  assume enc: "frame_encode f limit = Inr d \<and> wf_message (cf_message f)"
  then obtain kind body where m: "encode_message (cf_message f) = Inr (kind, body)"
    and d: "d = [CTL_VERSION, 0, kind, 0] @ to_be (cf_transaction_id f)
             @ to_be (word_of_nat (length body) :: u32) @ body"
    and l: "16 + length body \<le> limit" and t: "cf_transaction_id f \<noteq> 0"
    by (auto simp: frame_encode_Inr)
  have "unat (word_of_nat (length body) :: u32) = length body"
    using encode_message_length [OF m] enc by (simp add: unat_of_nat)
  then show "frame_decode d limit = Inr f"
    using m l t enc by (simp add: frame_decode_Inr frame_fields [OF d] decode_message_iff)
qed

section \<open>Properties\<close>

text \<open>C23. The frame codec is exact: a byte string decodes to a frame under a limit if and only if
  it is what the encoder makes of that frame, and the frame's message satisfies every type
  invariant of the checked constructors (UTF-8 strings, a non-empty bounded ticket, a
  non-empty bounded Safe Mode policy).\<close>

theorem control_codec_exact:
  "frame_decode bytes limit = Inr f \<longleftrightarrow> frame_encode f limit = Inr bytes \<and> wf_message (cf_message f)"
  by (rule frame_decode_iff)

definition sample_frame :: control_frame where
  "sample_frame = \<lparr>cf_transaction_id = 9, cf_message = PathDetach 5 2 7 [98, 121, 101]\<rparr>"

definition sample_frame_bytes :: "byte list" where
  "sample_frame_bytes = [2, 0, 5, 0, 0, 0, 0, 0, 0, 0, 0, 9, 0, 0, 0, 30]
     @ [0, 0, 0, 0, 0, 0, 0, 0, 0, 0, 0, 0, 0, 0, 0, 5, 0, 2, 0, 0, 0, 0, 0, 0, 0, 7, 3, 98, 121, 101]"

lemma sample_frame_facts:
  "wf_message (cf_message sample_frame)"
  "frame_encode sample_frame 8192 = Inr sample_frame_bytes"
  by (simp_all add: sample_frame_def sample_frame_bytes_def utf8_valid.simps frame_encode_def
      validate_defs put_string_u8_def ctl_consts to_be_def be_nat_numeral
      all_zero_def)

lemma sample_frame_decodes: "frame_decode sample_frame_bytes 8192 = Inr sample_frame"
  using sample_frame_facts by (simp add: frame_decode_iff)

text \<open>Under the default frame limit a message built through the checked constructors is
  never refused for its size: field bounds imply the frame bound.\<close>

lemma default_limit_never_too_large:
  assumes "wf_message (cf_message f)"
  shows "frame_encode f DEFAULT_MAX_FRAME_LEN \<noteq> Inl (CtlFrameTooLarge n l)"
proof -
  have "encode_message (cf_message f) \<noteq> Inl (CtlFrameTooLarge n l)"
    by (cases "cf_message f")
      (auto simp: rbind_Inl validate_defs put_string_u8_def put_string_u16_def)
  with assms show ?thesis
    by (auto simp: frame_encode_def rbind_Inl Let_def ctl_consts split: if_splits
        dest: encode_message_length)
qed

end
