(* ===== verification/Replay.thy ===== *)
theory Replay
  imports Journal Ticket ControlCodec
begin

text \<open>
  Redemption of tickets: the journal of \<open>apps/streamguard-gateway/src/v2/replay.rs\<close> and the
  \<open>ReplayCache\<close> of \<open>apps/streamguard-gateway/src/v2/admission.rs\<close>. As for the lease journal, the
  file system is a parameter: what the metadata check and the read answer and how
  \<open>secure_atomic_write\<close> ends. The path is fixed, so that a durable cache is one that has a gateway
  name. The gate that the unit tests block the rewrite with is left out.
\<close>

section \<open>The journal\<close>

definition replay_journal_magic :: "byte list" where
  "replay_journal_magic = [83, 71, 84, 82]"

definition replay_journal_version :: byte where
  "replay_journal_version = 1"

definition replay_scope_single :: byte where
  "replay_scope_single = 0"

definition replay_record_len :: nat where
  "replay_record_len = 24"

definition max_replay_entries_hard_cap :: nat where
  "max_replay_entries_hard_cap = 65536"

definition max_replay_journal_bytes :: nat where
  "max_replay_journal_bytes = 8 + 253 + max_replay_entries_hard_cap * replay_record_len"

definition max_journal_gateway_name_len :: nat where
  "max_journal_gateway_name_len = 253"

datatype redemption_scope = SingleGateway

datatype redemption_scope_error = MultiGatewayRejected | InvalidScope

definition redemption_scope_parse :: "string \<Rightarrow> redemption_scope_error + redemption_scope" where
  "redemption_scope_parse v =
     (if v = ''single-gateway'' then Inr SingleGateway
      else if v = ''multi-gateway'' \<or> v = ''shared'' \<or> v = ''multi'' \<or> v = ''clustered'' then Inl MultiGatewayRejected
      else Inl InvalidScope)"

datatype replay_journal_error = RjInvalidConfiguration | RjIo | RjCorrupt

type_synonym redemptions = "(ticket_id \<times> u64) list"

definition validate_journal_gateway_name :: "byte list \<Rightarrow> replay_journal_error + unit" where
  "validate_journal_gateway_name name =
     ensure (\<not> (name = [] \<or> max_journal_gateway_name_len < length name \<or> \<not> is_ascii name)) RjInvalidConfiguration"

text \<open>The loop over the records, with the identifiers seen and the map so far.\<close>

fun read_redemptions :: "u64 \<Rightarrow> byte list list \<Rightarrow> ticket_id list \<Rightarrow> redemptions \<Rightarrow> replay_journal_error + redemptions" where
  "read_redemptions now [] seen entries = Inr entries"
| "read_redemptions now (chunk # chunks) seen entries =
     (let ticket_bytes = slice 0 16 chunk;
          expiry = from_be (slice 16 24 chunk) :: u64
      in if all_zero ticket_bytes \<or> expiry = 0 then Inl RjCorrupt
      else let ticket_id = from_be ticket_bytes in
      if ticket_id \<in> set seen then Inl RjCorrupt
      else let retained_until = sat_add expiry replay_expiry_skew_seconds in
        read_redemptions now chunks (ticket_id # seen)
          (if now < retained_until then bt_insert ticket_id retained_until entries else entries))"

definition parse_replay_journal :: "byte list \<Rightarrow> byte list \<Rightarrow> u64 \<Rightarrow> replay_journal_error + redemptions" where
  "parse_replay_journal bytes expected_gateway now =
     (if max_replay_journal_bytes < length bytes then Inl RjCorrupt
      else if length bytes < 8 then Inl RjCorrupt
      else if slice 0 4 bytes \<noteq> replay_journal_magic then Inl RjCorrupt
      else if bytes ! 4 \<noteq> replay_journal_version then Inl RjCorrupt
      else if bytes ! 5 \<noteq> replay_scope_single then Inl RjCorrupt
      else let name_len = unat (bytes ! 6) in
      if bytes ! 7 \<noteq> 0 then Inl RjCorrupt
      else if name_len = 0 \<or> max_journal_gateway_name_len < name_len then Inl RjCorrupt
      else if length bytes < 8 + name_len then Inl RjCorrupt
      else let stored_name = slice 8 (8 + name_len) bytes in
      if \<not> utf8_valid stored_name then Inl RjCorrupt
      else if stored_name \<noteq> expected_gateway then Inl RjCorrupt
      else let records = drop (8 + name_len) bytes in
      if length records mod replay_record_len \<noteq> 0 then Inl RjCorrupt
      else if max_replay_entries_hard_cap < length records div replay_record_len then Inl RjCorrupt
      else read_redemptions now (chunks_exact replay_record_len records) [] [])"

definition read_replay_journal :: "file_meta \<Rightarrow> file_content \<Rightarrow> byte list \<Rightarrow> u64 \<Rightarrow> replay_journal_error + redemptions" where
  "read_replay_journal meta file expected_gateway now =
     rbind (validate_journal_gateway_name expected_gateway) (\<lambda>_.
     case meta of
       MetaInvalid \<Rightarrow> Inl RjCorrupt
     | MetaMissing \<Rightarrow> Inr []
     | MetaError \<Rightarrow> Inl RjIo
     | MetaValid \<Rightarrow>
         (case file of
            Missing \<Rightarrow> Inr []
          | Unreadable \<Rightarrow> Inl RjIo
          | Bytes bytes \<Rightarrow> parse_replay_journal bytes expected_gateway now))"

text \<open>The loop that writes the records.\<close>

fun redemption_bytes :: "redemptions \<Rightarrow> replay_journal_error + byte list" where
  "redemption_bytes [] = Inr []"
| "redemption_bytes ((ticket_id, retained_until) # rest) =
     (let expiry = sat_sub retained_until replay_expiry_skew_seconds in
      if expiry = 0 then Inl RjIo
      else rbind (redemption_bytes rest) (\<lambda>bytes. Inr (to_be ticket_id @ to_be expiry @ bytes)))"

definition replay_journal_bytes :: "byte list \<Rightarrow> redemptions \<Rightarrow> replay_journal_error + byte list" where
  "replay_journal_bytes name entries =
     rbind (validate_journal_gateway_name name) (\<lambda>_.
     if max_replay_entries_hard_cap < length entries then Inl RjIo
     else rbind (redemption_bytes entries) (\<lambda>records.
       let bytes = replay_journal_magic @ [replay_journal_version, replay_scope_single, of_nat (length name), 0]
             @ name @ records
       in if max_replay_journal_bytes < length bytes then Inl RjIo else Inr bytes))"

definition rewrite_replay_journal :: "file_content \<Rightarrow> byte list \<Rightarrow> redemptions \<Rightarrow> write_end
    \<Rightarrow> file_content \<times> (replay_journal_error + unit)" where
  "rewrite_replay_journal file name entries outcome =
     (case replay_journal_bytes name entries of
        Inl e \<Rightarrow> (file, Inl e)
      | Inr bytes \<Rightarrow>
          (case outcome of
             Written \<Rightarrow> (Bytes bytes, Inr ())
           | NotWritten \<Rightarrow> (file, Inl RjIo)
           | WrittenUnsynced \<Rightarrow> (Bytes bytes, Inl RjIo)))"

section \<open>The cache\<close>

datatype admission_error = AdInvalidConfiguration | AdInvalidHello | AdLimited | AdTicket ticket_error
  | AdReplay | AdReplayCapacity | AdReplayStore | AdUnavailable | AdProvisioningRejected

datatype replay_cache_error = RcReplay | RcCapacity | RcUnavailable

record replay_cache =
  rc_capacity :: nat
  rc_entries :: redemptions
  rc_replay_rejected :: u64
  rc_capacity_rejected :: u64
  rc_expired :: u64
  rc_gateway :: "byte list option"

definition replay_cache_new :: "nat \<Rightarrow> admission_error + replay_cache" where
  "replay_cache_new capacity =
     (if capacity = 0 \<or> max_replay_entries_hard_cap < capacity then Inl AdInvalidConfiguration
      else Inr \<lparr>rc_capacity = capacity, rc_entries = [], rc_replay_rejected = 0, rc_capacity_rejected = 0,
        rc_expired = 0, rc_gateway = None\<rparr>)"

definition replay_open_durable :: "file_meta \<Rightarrow> file_content \<Rightarrow> byte list \<Rightarrow> nat \<Rightarrow> u64 \<Rightarrow> write_end
    \<Rightarrow> file_content \<times> (admission_error + replay_cache)" where
  "replay_open_durable meta file name capacity now outcome =
     (if capacity = 0 \<or> max_replay_entries_hard_cap < capacity then (file, Inl AdInvalidConfiguration)
      else case read_replay_journal meta file name now of
        Inl _ \<Rightarrow> (file, Inl AdReplayStore)
      | Inr loaded \<Rightarrow>
          if capacity < length loaded then (file, Inl AdReplayStore)
          else case rewrite_replay_journal file name loaded outcome of
            (file, Inl _) \<Rightarrow> (file, Inl AdReplayStore)
          | (file, Inr _) \<Rightarrow>
              (file, Inr \<lparr>rc_capacity = capacity, rc_entries = loaded, rc_replay_rejected = 0,
                 rc_capacity_rejected = 0, rc_expired = 0, rc_gateway = Some name\<rparr>))"

definition replay_consume :: "file_content \<Rightarrow> replay_cache \<Rightarrow> ticket_id \<Rightarrow> u64 \<Rightarrow> u64 \<Rightarrow> write_end
    \<Rightarrow> file_content \<times> replay_cache \<times> (replay_cache_error + unit)" where
  "replay_consume file c ticket_id expiry now outcome =
     (let entries = kt_retain (\<lambda>retained_until. now < retained_until) (rc_entries c);
          c = c\<lparr>rc_entries := entries,
                rc_expired := rc_expired c + of_nat (length (rc_entries c) - length entries)\<rparr>
      in if ticket_id \<in> keys entries
         then (file, c\<lparr>rc_replay_rejected := rc_replay_rejected c + 1\<rparr>, Inl RcReplay)
         else if rc_capacity c \<le> length entries
         then (file, c\<lparr>rc_capacity_rejected := rc_capacity_rejected c + 1\<rparr>, Inl RcCapacity)
         else
           let snapshot = bt_insert ticket_id (sat_add expiry replay_expiry_skew_seconds) entries in
           case rc_gateway c of
             None \<Rightarrow> (file, c\<lparr>rc_entries := snapshot\<rparr>, Inr ())
           | Some name \<Rightarrow>
               (case rewrite_replay_journal file name snapshot outcome of
                  (file, Inl _) \<Rightarrow> (file, c\<lparr>rc_entries := kt_remove ticket_id snapshot\<rparr>, Inl RcUnavailable)
                | (file, Inr _) \<Rightarrow> (file, c\<lparr>rc_entries := snapshot\<rparr>, Inr ())))"

text \<open>
  A gateway with its journal, restarted any number of times. A start that fails leaves no cache.
  A \<open>fault\<close> of the metadata check or of the read may make a start fail; without one they answer
  what the file is.
\<close>

record replay_system =
  rs_file :: file_content
  rs_cache :: "replay_cache option"

datatype replay_event =
    RpConsume ticket_id u64 u64 write_end
  | RpRestart nat u64 "replay_journal_error option" write_end

datatype replay_outcome = Consumed "replay_cache_error + unit" | Restarted "admission_error option"

fun faulty_meta :: "replay_journal_error option \<Rightarrow> file_content \<Rightarrow> file_meta" where
  "faulty_meta (Some RjCorrupt) file = MetaInvalid"
| "faulty_meta (Some _) file = MetaError"
| "faulty_meta None Missing = MetaMissing"
| "faulty_meta None file = MetaValid"

fun replay_exec :: "byte list \<Rightarrow> replay_system \<Rightarrow> replay_event \<Rightarrow> replay_system \<times> replay_outcome" where
  "replay_exec name s (RpConsume ticket_id expiry now outcome) =
     (case rs_cache s of
        None \<Rightarrow> (s, Consumed (Inl RcUnavailable))
      | Some c \<Rightarrow>
          (case replay_consume (rs_file s) c ticket_id expiry now outcome of
             (file, c, r) \<Rightarrow> (\<lparr>rs_file = file, rs_cache = Some c\<rparr>, Consumed r)))"
| "replay_exec name s (RpRestart capacity now fault outcome) =
     (case replay_open_durable (faulty_meta fault (rs_file s)) (rs_file s) name capacity now outcome of
        (file, Inl e) \<Rightarrow> (\<lparr>rs_file = file, rs_cache = None\<rparr>, Restarted (Some e))
      | (file, Inr c) \<Rightarrow> (\<lparr>rs_file = file, rs_cache = Some c\<rparr>, Restarted None))"

end
