(* ===== verification/Admission.thy ===== *)
theory Admission
  imports Replay Sessions Machine
begin

text \<open>
  Admission to the gateway, \<open>apps/streamguard-gateway/src/v2/admission.rs\<close>: the bounded client
  hello, the limiter of concurrent handshakes, and the handler that takes a hello through the
  limiter, the ticket check, the redemption journal and the session manager. The wait for the
  journal is the one point where \<open>admit_async\<close> yields: it is split there into three transitions,
  so that several admissions interleave. The mutexes are never poisoned; counters wrap as
  \<open>fetch_add\<close> does; an in-flight count is a number, being below a configured \<open>usize\<close>.
\<close>

section \<open>Hello and owner\<close>

record client_hello =
  bh_device_id :: device_id
  bh_requested_gateway :: "byte list"
  bh_ticket :: "byte list"

definition hello_from_control_message :: "control_message \<Rightarrow> admission_error + client_hello" where
  "hello_from_control_message message =
     (case message of
        ClientHello device_id requested_gateway ticket \<Rightarrow>
          if requested_gateway = []
             \<or> MAX_GATEWAY_NAME_LEN < length requested_gateway
             \<or> \<not> is_ascii requested_gateway
          then Inl AdInvalidHello
          else Inr \<lparr>bh_device_id = device_id, bh_requested_gateway = requested_gateway, bh_ticket = ticket\<rparr>
      | _ \<Rightarrow> Inl AdInvalidHello)"

record admission_time =
  at_unix_seconds :: u64
  at_monotonic_millis :: u64

record session_owner =
  so_session_id :: session_id
  so_device_id :: device_id
  so_organization_id :: organization_id

definition owner_from_ticket :: "verified_ticket \<Rightarrow> session_owner" where
  "owner_from_ticket ticket = \<lparr>so_session_id = vt_session_id ticket, so_device_id = vt_device_id ticket,
     so_organization_id = vt_organization_id ticket\<rparr>"

record admission_accepted =
  aa_owner :: session_owner
  aa_expires_at_unix_seconds :: u64
  aa_policy_version :: u64
  aa_reservation :: admission_reservation

section \<open>The limiter\<close>

datatype ip_addr = IpAddrV4 arr4 | IpAddrV6 arr16

record limiter_config =
  lm_source_capacity :: nat
  lm_source_ttl_millis :: u64
  lm_maximum_per_source_in_flight :: nat
  lm_maximum_global_in_flight :: nat
  lm_maximum_verification_budget_millis :: u64

record source_state =
  src_in_flight :: nat
  src_last_seen_millis :: u64

record handshake_limiter =
  hl_config :: limiter_config
  hl_sources :: "(ip_addr \<times> source_state) list"
  hl_global_in_flight :: nat
  hl_source_capacity_rejected :: u64
  hl_source_in_flight_rejected :: u64
  hl_global_in_flight_rejected :: u64
  hl_deadline_rejected :: u64
  hl_expired :: u64

datatype limiter_error = LimBudgetExceeded | LimSourceCapacity | LimSourceInFlight | LimGlobalInFlight | LimUnavailable

definition limiter_new :: "limiter_config \<Rightarrow> admission_error + handshake_limiter" where
  "limiter_new config =
     (if lm_source_capacity config = 0
         \<or> lm_source_ttl_millis config = 0
         \<or> lm_maximum_per_source_in_flight config = 0
         \<or> lm_maximum_global_in_flight config = 0
         \<or> lm_maximum_verification_budget_millis config = 0
      then Inl AdInvalidConfiguration
      else Inr \<lparr>hl_config = config, hl_sources = [], hl_global_in_flight = 0, hl_source_capacity_rejected = 0,
        hl_source_in_flight_rejected = 0, hl_global_in_flight_rejected = 0, hl_deadline_rejected = 0, hl_expired = 0\<rparr>)"

text \<open>An entry that is kept by the pruning.\<close>

definition source_kept :: "limiter_config \<Rightarrow> u64 \<Rightarrow> source_state \<Rightarrow> bool" where
  "source_kept config now entry \<longleftrightarrow>
     src_in_flight entry \<noteq> 0 \<or> sat_sub now (src_last_seen_millis entry) < lm_source_ttl_millis config"

text \<open>A permit is the address it was given for.\<close>

definition limiter_acquire :: "handshake_limiter \<Rightarrow> ip_addr \<Rightarrow> u64 \<Rightarrow> u64
    \<Rightarrow> handshake_limiter \<times> (limiter_error + ip_addr)" where
  "limiter_acquire l source started_at now =
     (if lm_maximum_verification_budget_millis (hl_config l) < sat_sub now started_at
      then (l\<lparr>hl_deadline_rejected := hl_deadline_rejected l + 1\<rparr>, Inl LimBudgetExceeded)
      else
        let sources = kt_retain (source_kept (hl_config l) now) (hl_sources l);
            l = l\<lparr>hl_sources := sources, hl_expired := hl_expired l + of_nat (length (hl_sources l) - length sources)\<rparr>
        in if lm_maximum_global_in_flight (hl_config l) \<le> hl_global_in_flight l
           then (l\<lparr>hl_global_in_flight_rejected := hl_global_in_flight_rejected l + 1\<rparr>, Inl LimGlobalInFlight)
           else if source \<notin> keys sources \<and> lm_source_capacity (hl_config l) \<le> length sources
           then (l\<lparr>hl_source_capacity_rejected := hl_source_capacity_rejected l + 1\<rparr>, Inl LimSourceCapacity)
           else
             let sources = (if source \<in> keys sources then sources
                   else hm_insert source \<lparr>src_in_flight = 0, src_last_seen_millis = now\<rparr> sources);
                 l = l\<lparr>hl_sources := sources\<rparr>
             in case map_of sources source of
                  None \<Rightarrow> (l, Inl LimUnavailable)
                | Some entry \<Rightarrow>
                    if lm_maximum_per_source_in_flight (hl_config l) \<le> src_in_flight entry
                    then (l\<lparr>hl_source_in_flight_rejected := hl_source_in_flight_rejected l + 1\<rparr>, Inl LimSourceInFlight)
                    else (l\<lparr>hl_sources := hm_insert source
                               \<lparr>src_in_flight = src_in_flight entry + 1, src_last_seen_millis = now\<rparr> sources,
                             hl_global_in_flight := hl_global_in_flight l + 1\<rparr>, Inr source))"

definition permit_drop :: "ip_addr \<Rightarrow> handshake_limiter \<Rightarrow> handshake_limiter" where
  "permit_drop source l =
     (let l = l\<lparr>hl_global_in_flight := hl_global_in_flight l - 1\<rparr>
      in case map_of (hl_sources l) source of
           None \<Rightarrow> l
         | Some entry \<Rightarrow> l\<lparr>hl_sources := hm_insert source
              (entry\<lparr>src_in_flight := src_in_flight entry - 1\<rparr>) (hl_sources l)\<rparr>)"

record limiter_snapshot =
  ln_source_entries :: nat
  ln_source_capacity :: nat
  ln_global_in_flight :: nat
  ln_global_in_flight_capacity :: nat
  ln_source_capacity_rejected :: u64
  ln_source_in_flight_rejected :: u64
  ln_global_in_flight_rejected :: u64
  ln_deadline_rejected :: u64
  ln_expired :: u64

definition limiter_snapshot_of :: "handshake_limiter \<Rightarrow> limiter_snapshot" where
  "limiter_snapshot_of l = \<lparr>ln_source_entries = length (hl_sources l),
     ln_source_capacity = lm_source_capacity (hl_config l),
     ln_global_in_flight = hl_global_in_flight l,
     ln_global_in_flight_capacity = lm_maximum_global_in_flight (hl_config l),
     ln_source_capacity_rejected = hl_source_capacity_rejected l,
     ln_source_in_flight_rejected = hl_source_in_flight_rejected l,
     ln_global_in_flight_rejected = hl_global_in_flight_rejected l,
     ln_deadline_rejected = hl_deadline_rejected l,
     ln_expired = hl_expired l\<rparr>"

text \<open>
  The limiter with the permits that are held. A permit is dropped once, by its owner: dropping one
  that nobody holds is not possible in the code and does nothing here.
\<close>

datatype limiter_event = LmAcquire ip_addr u64 u64 | LmDrop ip_addr

fun limiter_exec :: "(handshake_limiter \<times> ip_addr list, limiter_event, limiter_error option) machine" where
  "limiter_exec (l, permits) (LmAcquire source started_at now) =
     (case limiter_acquire l source started_at now of
        (l, Inl e) \<Rightarrow> ((l, permits), Some e)
      | (l, Inr permit) \<Rightarrow> ((l, permit # permits), None))"
| "limiter_exec (l, permits) (LmDrop permit) =
     (if permit \<in> set permits then ((permit_drop permit l, remove1 permit permits), None)
      else ((l, permits), None))"

section \<open>The handler\<close>

record admission_metrics =
  am_admitted :: u64
  am_limiter_rejected :: u64
  am_ticket_rejected :: u64
  am_controller_unavailable :: u64
  am_provisioning_rejected :: u64

record admission_handler =
  ah_verifier :: ticket_verifier
  ah_limiter :: handshake_limiter
  ah_replay :: replay_cache
  ah_file :: file_content
  ah_sessions :: manager
  ah_metrics :: admission_metrics

definition handler_new :: "ticket_verifier \<Rightarrow> handshake_limiter \<Rightarrow> replay_cache \<Rightarrow> file_content \<Rightarrow> manager
    \<Rightarrow> admission_handler" where
  "handler_new verifier limiter replay file sessions =
     \<lparr>ah_verifier = verifier, ah_limiter = limiter, ah_replay = replay, ah_file = file, ah_sessions = sessions,
      ah_metrics = \<lparr>am_admitted = 0, am_limiter_rejected = 0, am_ticket_rejected = 0,
        am_controller_unavailable = 0, am_provisioning_rejected = 0\<rparr>\<rparr>"

definition count_metric :: "(admission_metrics \<Rightarrow> admission_metrics) \<Rightarrow> admission_handler \<Rightarrow> admission_handler" where
  "count_metric f h = h\<lparr>ah_metrics := f (ah_metrics h)\<rparr>"

text \<open>The permit of the listener for the handshake itself, and the permit that \<open>admit_async\<close> takes.\<close>

definition acquire_permit :: "admission_handler \<Rightarrow> ip_addr \<Rightarrow> u64 \<Rightarrow> u64 \<Rightarrow> admission_handler \<times> (admission_error + ip_addr)" where
  "acquire_permit h source started_at now =
     (case limiter_acquire (ah_limiter h) source started_at now of
        (l, Inl _) \<Rightarrow> (count_metric (\<lambda>m. m\<lparr>am_limiter_rejected := am_limiter_rejected m + 1\<rparr>) (h\<lparr>ah_limiter := l\<rparr>),
           Inl AdLimited)
      | (l, Inr permit) \<Rightarrow> (h\<lparr>ah_limiter := l\<rparr>, Inr permit))"

definition acquire_handshake :: "admission_handler \<Rightarrow> ip_addr \<Rightarrow> admission_time \<Rightarrow> admission_handler \<times> (admission_error + ip_addr)" where
  "acquire_handshake h source now = acquire_permit h source (at_monotonic_millis now) (at_monotonic_millis now)"

definition drop_permit :: "ip_addr \<Rightarrow> admission_handler \<Rightarrow> admission_handler" where
  "drop_permit permit h = h\<lparr>ah_limiter := permit_drop permit (ah_limiter h)\<rparr>"

text \<open>Up to the redemption: the permit and the ticket.\<close>

definition admit_begin :: "'k jwt_library \<Rightarrow> admission_handler \<Rightarrow> ip_addr \<Rightarrow> device_id \<Rightarrow> client_hello
    \<Rightarrow> 'k trust_snapshot option \<Rightarrow> u64 \<Rightarrow> admission_time
    \<Rightarrow> admission_handler \<times> (admission_error + ip_addr \<times> verified_ticket)" where
  "admit_begin jwt h source peer hello trust started_at now =
     (case acquire_permit h source started_at (at_monotonic_millis now) of
        (h, Inl e) \<Rightarrow> (h, Inl e)
      | (h, Inr permit) \<Rightarrow>
          (case validate_admission_ticket jwt (ah_verifier h) (bh_ticket hello) trust (at_unix_seconds now) peer
               (bh_device_id hello) of
             Inl error \<Rightarrow>
               (drop_permit permit (count_metric (\<lambda>m. if error = TkControllerUnavailable
                    then m\<lparr>am_controller_unavailable := am_controller_unavailable m + 1\<rparr>
                    else m\<lparr>am_ticket_rejected := am_ticket_rejected m + 1\<rparr>) h), Inl (AdTicket error))
           | Inr ticket \<Rightarrow> (h, Inr (permit, ticket))))"

text \<open>
  The redemption on the owner queue. A full or closed queue runs nothing; on a timeout the caller
  is answered at once and the job runs later, as an \<open>orphan_consume\<close>, or never. An in-memory cache
  has no queue.
\<close>

datatype owner_answer = OwnerRan write_end | OwnerGone

fun admission_error_of :: "replay_cache_error \<Rightarrow> admission_error" where
  "admission_error_of RcReplay = AdReplay"
| "admission_error_of RcCapacity = AdReplayCapacity"
| "admission_error_of RcUnavailable = AdUnavailable"

definition handler_consume :: "admission_handler \<Rightarrow> ticket_id \<Rightarrow> u64 \<Rightarrow> u64 \<Rightarrow> write_end
    \<Rightarrow> admission_handler \<times> (replay_cache_error + unit)" where
  "handler_consume h ticket_id expiry now outcome =
     (case replay_consume (ah_file h) (ah_replay h) ticket_id expiry now outcome of
        (file, c, r) \<Rightarrow> (h\<lparr>ah_file := file, ah_replay := c\<rparr>, r))"

definition consume_async :: "admission_handler \<Rightarrow> ticket_id \<Rightarrow> u64 \<Rightarrow> u64 \<Rightarrow> owner_answer
    \<Rightarrow> admission_handler \<times> (replay_cache_error + unit)" where
  "consume_async h ticket_id expiry now answer =
     (if rc_gateway (ah_replay h) = None then handler_consume h ticket_id expiry now Written
      else case answer of
        OwnerRan outcome \<Rightarrow> handler_consume h ticket_id expiry now outcome
      | OwnerGone \<Rightarrow> (h, Inl RcUnavailable))"

definition admission_deadline :: "admission_time \<Rightarrow> u64 \<Rightarrow> u64" where
  "admission_deadline now expires_at_unix_seconds =
     sat_add (at_monotonic_millis now) (sat_mul (sat_sub expires_at_unix_seconds (at_unix_seconds now)) 1000)"

text \<open>From the redemption on. The permit is dropped on every way out.\<close>

definition admit_finish :: "admission_handler \<Rightarrow> ip_addr \<Rightarrow> verified_ticket \<Rightarrow> replay_cache_error + unit \<Rightarrow> admission_time
    \<Rightarrow> admission_handler \<times> (admission_error + admission_accepted) \<times> session_removal list" where
  "admit_finish h permit ticket redeemed now =
     (case redeemed of
        Inl e \<Rightarrow> (drop_permit permit h, Inl (admission_error_of e), [])
      | Inr _ \<Rightarrow>
          let owner = owner_from_ticket ticket in
          case reserve_admission (ah_sessions h) (so_session_id owner) (so_device_id owner) (so_organization_id owner)
              (admission_deadline now (vt_expires_at_unix_seconds ticket)) (at_monotonic_millis now) of
            (sessions, Inl _, removals) \<Rightarrow>
              (drop_permit permit (count_metric (\<lambda>m. m\<lparr>am_provisioning_rejected := am_provisioning_rejected m + 1\<rparr>)
                 (h\<lparr>ah_sessions := sessions\<rparr>)), Inl AdProvisioningRejected, removals)
          | (sessions, Inr reservation, removals) \<Rightarrow>
              (drop_permit permit (count_metric (\<lambda>m. m\<lparr>am_admitted := am_admitted m + 1\<rparr>) (h\<lparr>ah_sessions := sessions\<rparr>)),
               Inr \<lparr>aa_owner = owner, aa_expires_at_unix_seconds = vt_expires_at_unix_seconds ticket,
                 aa_policy_version = vt_policy_version ticket, aa_reservation = reservation\<rparr>, removals))"

text \<open>An admission that nothing interleaves with.\<close>

definition admit_async :: "'k jwt_library \<Rightarrow> admission_handler \<Rightarrow> ip_addr \<Rightarrow> device_id \<Rightarrow> client_hello
    \<Rightarrow> 'k trust_snapshot option \<Rightarrow> u64 \<Rightarrow> admission_time \<Rightarrow> owner_answer
    \<Rightarrow> admission_handler \<times> (admission_error + admission_accepted) \<times> session_removal list" where
  "admit_async jwt h source peer hello trust started_at now answer =
     (case admit_begin jwt h source peer hello trust started_at now of
        (h, Inl e) \<Rightarrow> (h, Inl e, [])
      | (h, Inr (permit, ticket)) \<Rightarrow>
          (case consume_async h (vt_ticket_id ticket) (vt_expires_at_unix_seconds ticket) (at_unix_seconds now) answer of
             (h, redeemed) \<Rightarrow> admit_finish h permit ticket redeemed now))"

definition commit_and_bind :: "admission_handler \<Rightarrow> admission_accepted \<Rightarrow> admission_time
    \<Rightarrow> admission_handler \<times> (admission_error + authenticated_connection) \<times> session_removal list" where
  "commit_and_bind h admitted now =
     (case commit_admission_and_bind (ah_sessions h) (aa_reservation admitted) (at_monotonic_millis now) of
        (sessions, Inl _, removals) \<Rightarrow> (h\<lparr>ah_sessions := sessions\<rparr>, Inl AdProvisioningRejected, removals)
      | (sessions, Inr connection, removals) \<Rightarrow> (h\<lparr>ah_sessions := sessions\<rparr>, Inr connection, removals))"

definition handler_abort :: "admission_handler \<Rightarrow> admission_accepted \<Rightarrow> admission_handler" where
  "handler_abort h admitted = h\<lparr>ah_sessions := fst (abort_admission (ah_sessions h) (aa_reservation admitted))\<rparr>"

end
