(* ===== verification/ControlState.thy ===== *)
theory ControlState
  imports ControlCodec Containers
begin

text \<open>
  The per-connection control sequencer of
  \<open>crates/sg-protocol/src/v2/control/state.rs\<close>: one record of state, and the two entry
  points \<open>on_inbound\<close> and \<open>on_outbound\<close> with every branch of the four handlers behind
  them. A method that takes \<open>&mut self\<close> takes the state and returns it updated next to its
  result. The four \<open>BTreeMap\<close>s are ordered association lists; the queue of completed
  requests is a list with its front first.

  What the sequencer promises over its runs is stated in \<open>ControlProps\<close>.
\<close>

section \<open>Data\<close>

datatype control_role = Client | Gateway

datatype connection_phase = AwaitHello | AwaitAdmit | Active | Closed

record verified_admission =
  va_session_id :: session_id
  va_expires_at_ms :: u64
  va_policy_epoch :: u64
  va_assigned_ipv4 :: arr4
  va_assigned_ipv4_prefix_len :: byte
  va_assigned_ipv6_prefix :: arr16
  va_assigned_ipv6_prefix_len :: byte
  va_safe_mode_policy :: "byte list"

record state_config =
  completed_request_capacity :: nat
  completed_request_ttl_ms :: u64
  attachment_capacity :: nat
  pending_attach_capacity :: nat
  pending_attach_ttl_ms :: u64
  pending_policy_update_capacity :: nat
  pending_policy_update_ttl_ms :: u64

definition state_config_default :: state_config where
  "state_config_default = \<lparr>
     completed_request_capacity = 64,
     completed_request_ttl_ms = 60000,
     attachment_capacity = 64,
     pending_attach_capacity = 64,
     pending_attach_ttl_ms = 10000,
     pending_policy_update_capacity = 64,
     pending_policy_update_ttl_ms = 10000\<rparr>"

datatype control_action = NoAction | Reply control_frame | Replay control_frame

datatype control_state_error =
    ZeroCapacity
  | PendingAttachCapacity
  | PendingPolicyUpdateCapacity
  | ChangedLocalTransaction u64
  | LocalInvalidState connection_phase
  | InvalidAdmission
  | AdmissionExpired

record completed_request =
  cr_request :: control_frame
  cr_response :: control_frame
  cr_expires_at_ms :: u64

record attachment_record =
  ar_request :: control_message
  ar_response :: control_message

record pending_attach =
  pa_request :: control_message
  pa_expires_at_ms :: u64

record pending_policy_update =
  pp_policy_epoch :: u64
  pp_expires_at_ms :: u64

record pending_detach =
  pd_request :: control_message
  pd_path_id :: path_id
  pd_path_epoch :: u64
  pd_expires_at_ms :: u64

record control_state =
  cs_role :: control_role
  cs_phase :: connection_phase
  cs_config :: state_config
  cs_verified_admission :: "verified_admission option"
  cs_session_id :: "session_id option"
  cs_expires_at_ms :: "u64 option"
  cs_policy_epoch :: u64
  cs_protocol_paths :: "(path_id \<times> u64) list"
  cs_attachments :: "(arr16 \<times> attachment_record) list"
  cs_pending_attaches :: "(u64 \<times> pending_attach) list"
  cs_pending_policy_updates :: "(u64 \<times> pending_policy_update) list"
  cs_pending_detaches :: "(u64 \<times> pending_detach) list"
  cs_completed :: "completed_request list"
  cs_hello_transaction_id :: "u64 option"
  cs_next_path_id :: "path_id option"

section \<open>Helpers\<close>

text \<open>A \<open>&'static str\<close> reason as the bytes it has on the wire.\<close>

definition ascii :: "string \<Rightarrow> byte list" where
  "ascii cs = map (\<lambda>c. word_of_nat (of_char c)) cs"

definition ack :: "u64 \<Rightarrow> control_frame" where
  "ack tid = \<lparr>cf_transaction_id = tid, cf_message = Ack\<rparr>"

definition reject :: "u64 \<Rightarrow> reject_code \<Rightarrow> string \<Rightarrow> control_frame" where
  "reject tid code reason = \<lparr>cf_transaction_id = tid, cf_message = Reject code (ascii reason)\<rparr>"

fun path_attach_epoch :: "control_message \<Rightarrow> control_state_error + u64" where
  "path_attach_epoch (PathAttach s n path_epoch k m) = Inr path_epoch"
| "path_attach_epoch _ = Inl InvalidAdmission"

definition from_verified_claims ::
  "session_id \<Rightarrow> u64 \<Rightarrow> u64 \<Rightarrow> arr4 \<Rightarrow> byte \<Rightarrow> arr16 \<Rightarrow> byte \<Rightarrow> byte list
   \<Rightarrow> control_state_error + verified_admission" where
  "from_verified_claims session expires epoch ipv4 ipv4_len ipv6 ipv6_len policy =
     (if all_zero (to_be session) \<or> expires = 0 \<or> epoch = 0 \<or> all_zero (to_be ipv4)
         \<or> ipv4_len = 0 \<or> 32 < ipv4_len \<or> all_zero (to_be ipv6) \<or> ipv6_len = 0 \<or> 128 < ipv6_len
      then Inl InvalidAdmission
      else Inr \<lparr>va_session_id = session, va_expires_at_ms = expires, va_policy_epoch = epoch,
                va_assigned_ipv4 = ipv4, va_assigned_ipv4_prefix_len = ipv4_len,
                va_assigned_ipv6_prefix = ipv6, va_assigned_ipv6_prefix_len = ipv6_len,
                va_safe_mode_policy = policy\<rparr>)"

definition admit :: "verified_admission \<Rightarrow> u64 \<Rightarrow> control_frame" where
  "admit a tid = \<lparr>cf_transaction_id = tid,
     cf_message = SessionAdmit (va_session_id a) (va_expires_at_ms a) (va_policy_epoch a)
       (va_assigned_ipv4 a) (va_assigned_ipv4_prefix_len a) (va_assigned_ipv6_prefix a)
       (va_assigned_ipv6_prefix_len a) (va_safe_mode_policy a)\<rparr>"

definition cs_new ::
  "control_role \<Rightarrow> state_config \<Rightarrow> verified_admission option
   \<Rightarrow> control_state_error + control_state" where
  "cs_new role config admission =
     (if completed_request_capacity config = 0 \<or> attachment_capacity config = 0
         \<or> pending_attach_capacity config = 0 \<or> pending_policy_update_capacity config = 0
      then Inl ZeroCapacity
      else Inr \<lparr>cs_role = role, cs_phase = AwaitHello, cs_config = config,
                cs_verified_admission = admission, cs_session_id = None,
                cs_expires_at_ms = None, cs_policy_epoch = 0, cs_protocol_paths = [],
                cs_attachments = [], cs_pending_attaches = [],
                cs_pending_policy_updates = [], cs_pending_detaches = [],
                cs_completed = [], cs_hello_transaction_id = None,
                cs_next_path_id = Some 1\<rparr>)"

definition client :: "state_config \<Rightarrow> control_state_error + control_state" where
  "client config = cs_new Client config None"

definition gateway_after_verified_admission ::
  "state_config \<Rightarrow> verified_admission \<Rightarrow> control_state_error + control_state" where
  "gateway_after_verified_admission config a = cs_new Gateway config (Some a)"

definition path_epoch :: "control_state \<Rightarrow> path_id \<Rightarrow> u64 option" where
  "path_epoch s p = map_of (cs_protocol_paths s) p"

definition active_session :: "control_state \<Rightarrow> session_id \<Rightarrow> bool" where
  "active_session s session \<longleftrightarrow> cs_phase s = Active \<and> cs_session_id s = Some session"

definition expire_if_needed :: "control_state \<Rightarrow> u64 \<Rightarrow> control_state \<times> bool" where
  "expire_if_needed s now =
     (if cs_phase s = Active
         \<and> (case cs_expires_at_ms s of None \<Rightarrow> False | Some expires \<Rightarrow> expires \<le> now)
      then (s\<lparr>cs_phase := Closed\<rparr>, True)
      else (s, False))"

definition prune_completed :: "u64 \<Rightarrow> control_state \<Rightarrow> control_state" where
  "prune_completed now s =
     s\<lparr>cs_completed := filter (\<lambda>e. now < cr_expires_at_ms e) (cs_completed s)\<rparr>"

definition prune_pending_attaches :: "u64 \<Rightarrow> control_state \<Rightarrow> control_state" where
  "prune_pending_attaches now s =
     s\<lparr>cs_pending_attaches :=
        kt_retain (\<lambda>p. now < pa_expires_at_ms p) (cs_pending_attaches s)\<rparr>"

definition prune_pending_policy_updates :: "u64 \<Rightarrow> control_state \<Rightarrow> control_state" where
  "prune_pending_policy_updates now s =
     s\<lparr>cs_pending_policy_updates :=
        kt_retain (\<lambda>p. now < pp_expires_at_ms p) (cs_pending_policy_updates s)\<rparr>"

definition prune_pending_detaches :: "u64 \<Rightarrow> control_state \<Rightarrow> control_state" where
  "prune_pending_detaches now s =
     s\<lparr>cs_pending_detaches :=
        kt_retain (\<lambda>p. now < pd_expires_at_ms p) (cs_pending_detaches s)\<rparr>"

definition remember ::
  "control_frame \<Rightarrow> control_frame \<Rightarrow> u64 \<Rightarrow> control_state \<Rightarrow> control_state" where
  "remember request response now s =
     (let kept = (if length (cs_completed s) = completed_request_capacity (cs_config s)
                  then tl (cs_completed s) else cs_completed s)
      in s\<lparr>cs_completed := kept @ [\<lparr>cr_request = request, cr_response = response,
             cr_expires_at_ms = sat_add now (completed_request_ttl_ms (cs_config s))\<rparr>]\<rparr>)"

definition reject_and_remember ::
  "control_frame \<Rightarrow> reject_code \<Rightarrow> string \<Rightarrow> u64 \<Rightarrow> control_state
   \<Rightarrow> control_state \<times> control_action" where
  "reject_and_remember request code reason now s =
     (let response = reject (cf_transaction_id request) code reason
      in (remember request response now s, Reply response))"

definition completed_action :: "control_state \<Rightarrow> control_frame \<Rightarrow> control_action option" where
  "completed_action s frame =
     (case find (\<lambda>c. cf_transaction_id (cr_request c) = cf_transaction_id frame) (cs_completed s) of
        None \<Rightarrow> None
      | Some c \<Rightarrow>
          if cr_request c = frame then Some (Replay (cr_response c))
          else Some (Reply (reject (cf_transaction_id frame) InvalidRequest
                      ''transaction replay changed'')))"

definition path_request_code ::
  "control_state \<Rightarrow> session_id \<Rightarrow> path_id \<Rightarrow> u64 \<Rightarrow> reject_code option" where
  "path_request_code s session p epoch =
     (if \<not> active_session s session then Some InvalidSession
      else case path_epoch s p of
        None \<Rightarrow> Some UnknownPath
      | Some current \<Rightarrow> if current \<noteq> epoch then Some StaleEpoch else None)"

section \<open>Local frames\<close>

definition client_outbound ::
  "control_state \<Rightarrow> control_frame \<Rightarrow> u64 \<Rightarrow> control_state \<times> (control_state_error + unit)" where
  "client_outbound s frame now =
     (let tid = cf_transaction_id frame; invalid = (s, Inl (LocalInvalidState (cs_phase s)))
      in case cf_message frame of
        ClientHello device gateway ticket \<Rightarrow>
          if cs_phase s = AwaitHello
          then (s\<lparr>cs_phase := AwaitAdmit, cs_hello_transaction_id := Some tid\<rparr>, Inr ())
          else invalid
      | PathAttach session nonce epoch key metadata \<Rightarrow>
          if active_session s session then
            (case map_of (cs_pending_attaches s) tid of
              Some pending \<Rightarrow>
                if pa_request pending \<noteq> cf_message frame
                then (s, Inl (ChangedLocalTransaction tid)) else (s, Inr ())
            | None \<Rightarrow>
                if length (cs_pending_attaches s) = pending_attach_capacity (cs_config s)
                then (s, Inl PendingAttachCapacity)
                else (s\<lparr>cs_pending_attaches := bt_insert tid
                         \<lparr>pa_request = cf_message frame,
                          pa_expires_at_ms = sat_add now (pending_attach_ttl_ms (cs_config s))\<rparr>
                         (cs_pending_attaches s)\<rparr>, Inr ()))
          else invalid
      | PathDetach session p epoch reason \<Rightarrow>
          if active_session s session \<and> path_epoch s p = Some epoch then
            (case map_of (cs_pending_detaches s) tid of
              Some pending \<Rightarrow>
                if pd_request pending \<noteq> cf_message frame
                then (s, Inl (ChangedLocalTransaction tid)) else (s, Inr ())
            | None \<Rightarrow>
                if length (cs_pending_detaches s) = pending_attach_capacity (cs_config s)
                then (s, Inl PendingAttachCapacity)
                else (s\<lparr>cs_pending_detaches := bt_insert tid
                         \<lparr>pd_request = cf_message frame, pd_path_id = p, pd_path_epoch = epoch,
                          pd_expires_at_ms = sat_add now (pending_attach_ttl_ms (cs_config s))\<rparr>
                         (cs_pending_detaches s)\<rparr>, Inr ()))
          else invalid
      | PathHealth session p epoch rtt loss \<Rightarrow>
          if active_session s session \<and> path_epoch s p = Some epoch then (s, Inr ()) else invalid
      | Ack \<Rightarrow> if cs_phase s = Active then (s, Inr ()) else invalid
      | Reject code reason \<Rightarrow> if cs_phase s = Active then (s, Inr ()) else invalid
      | CloseSession session reason \<Rightarrow>
          if active_session s session then (s\<lparr>cs_phase := Closed\<rparr>, Inr ()) else invalid
      | _ \<Rightarrow> invalid)"

definition gateway_outbound ::
  "control_state \<Rightarrow> control_frame \<Rightarrow> u64 \<Rightarrow> control_state \<times> (control_state_error + unit)" where
  "gateway_outbound s frame now =
     (let tid = cf_transaction_id frame; invalid = (s, Inl (LocalInvalidState (cs_phase s)))
      in case cf_message frame of
        PolicyUpdate session epoch policy \<Rightarrow>
          if active_session s session \<and> cs_policy_epoch s < epoch then
            (case map_of (cs_pending_policy_updates s) tid of
              Some pending \<Rightarrow>
                if pp_policy_epoch pending \<noteq> epoch
                then (s, Inl (ChangedLocalTransaction tid)) else (s, Inr ())
            | None \<Rightarrow>
                if length (cs_pending_policy_updates s)
                     = pending_policy_update_capacity (cs_config s)
                then (s, Inl PendingPolicyUpdateCapacity)
                else (s\<lparr>cs_pending_policy_updates := bt_insert tid
                         \<lparr>pp_policy_epoch = epoch,
                          pp_expires_at_ms =
                            sat_add now (pending_policy_update_ttl_ms (cs_config s))\<rparr>
                         (cs_pending_policy_updates s)\<rparr>, Inr ()))
          else invalid
      | Ack \<Rightarrow> if cs_phase s = Active then (s, Inr ()) else invalid
      | Reject code reason \<Rightarrow> if cs_phase s = Active then (s, Inr ()) else invalid
      | CloseSession session reason \<Rightarrow>
          if active_session s session then (s\<lparr>cs_phase := Closed\<rparr>, Inr ()) else invalid
      | _ \<Rightarrow> invalid)"

definition prune_pending :: "u64 \<Rightarrow> control_state \<Rightarrow> control_state" where
  "prune_pending now s =
     prune_pending_detaches now (prune_pending_policy_updates now (prune_pending_attaches now s))"

definition on_outbound ::
  "control_state \<Rightarrow> control_frame \<Rightarrow> u64 \<Rightarrow> control_state \<times> (control_state_error + unit)" where
  "on_outbound s frame now =
     (let (s, expired) = expire_if_needed (prune_pending now s) now
      in if expired then (s, Inl AdmissionExpired)
         else case cs_role s of
           Client \<Rightarrow> client_outbound s frame now
         | Gateway \<Rightarrow> gateway_outbound s frame now)"

section \<open>Peer frames\<close>

definition client_inbound ::
  "control_state \<Rightarrow> control_frame \<Rightarrow> u64
   \<Rightarrow> control_state \<times> (control_state_error + control_action)" where
  "client_inbound s frame now =
     (let tid = cf_transaction_id frame;
          refuse = (\<lambda>code reason. (s, Inr (Reply (reject tid code reason))));
          bad_state = refuse InvalidState ''message is invalid in this state'';
          bad_direction = refuse InvalidDirection ''message is invalid from this peer''
      in case cf_message frame of
        SessionAdmit session expires epoch ipv4 ipv4_len ipv6 ipv6_len policy \<Rightarrow>
          if cs_phase s = AwaitAdmit \<and> cs_hello_transaction_id s = Some tid then
            if expires \<le> now then refuse Expired ''admission expired''
            else (s\<lparr>cs_session_id := Some session, cs_expires_at_ms := Some expires,
                    cs_policy_epoch := epoch, cs_phase := Active\<rparr>, Inr NoAction)
          else bad_state
      | PathAttached session p epoch \<Rightarrow>
          if active_session s session then
            (case map_of (cs_pending_attaches s) tid of
              None \<Rightarrow> refuse InvalidState ''no matching path attach''
            | Some pending \<Rightarrow>
                (case pa_request pending of
                  PathAttach expected_session n expected_epoch k m \<Rightarrow>
                    if expected_session \<noteq> session \<or> expected_epoch \<noteq> epoch
                    then refuse InvalidRequest ''path attach reply mismatch''
                    else if (case path_epoch s p of None \<Rightarrow> False | Some current \<Rightarrow> epoch \<le> current)
                    then refuse StaleEpoch ''path attached epoch rejected''
                    else (s\<lparr>cs_pending_attaches := kt_remove tid (cs_pending_attaches s),
                            cs_protocol_paths := bt_insert p epoch (cs_protocol_paths s)\<rparr>,
                          Inr NoAction)
                | _ \<Rightarrow> refuse InvalidRequest ''invalid pending path attach''))
          else bad_state
      | PolicyUpdate session epoch policy \<Rightarrow>
          if active_session s session then
            if epoch \<le> cs_policy_epoch s then refuse StaleEpoch ''policy epoch rejected''
            else (s\<lparr>cs_policy_epoch := epoch\<rparr>, Inr (Reply (ack tid)))
          else bad_state
      | CloseSession session reason \<Rightarrow>
          if active_session s session then (s\<lparr>cs_phase := Closed\<rparr>, Inr (Reply (ack tid)))
          else bad_state
      | Ack \<Rightarrow>
          if cs_phase s = Active then
            (case map_of (cs_pending_detaches s) tid of
              None \<Rightarrow> (s, Inr NoAction)
            | Some pending \<Rightarrow>
                let s' = s\<lparr>cs_pending_detaches := kt_remove tid (cs_pending_detaches s)\<rparr>
                in (if path_epoch s (pd_path_id pending) = Some (pd_path_epoch pending)
                    then s'\<lparr>cs_protocol_paths := kt_remove (pd_path_id pending) (cs_protocol_paths s)\<rparr>
                    else s', Inr NoAction))
          else bad_direction
      | Reject code reason \<Rightarrow>
          if cs_phase s = Active
          then (s\<lparr>cs_pending_detaches := kt_remove tid (cs_pending_detaches s)\<rparr>, Inr NoAction)
          else bad_direction
      | _ \<Rightarrow> bad_direction)"

definition gateway_path_request ::
  "control_state \<Rightarrow> control_frame \<Rightarrow> session_id \<Rightarrow> path_id \<Rightarrow> u64 \<Rightarrow> u64 \<Rightarrow> bool
   \<Rightarrow> control_state \<times> (control_state_error + control_action)" where
  "gateway_path_request s frame session p epoch now detach =
     (case path_request_code s session p epoch of
        Some code \<Rightarrow> map_prod id Inr (reject_and_remember frame code ''path epoch rejected'' now s)
      | None \<Rightarrow>
          let s' = (if detach then s\<lparr>cs_protocol_paths := kt_remove p (cs_protocol_paths s)\<rparr> else s);
              response = ack (cf_transaction_id frame)
          in (remember frame response now s', Inr (Reply response)))"

definition gateway_attach ::
  "control_state \<Rightarrow> control_frame \<Rightarrow> session_id \<Rightarrow> arr16 \<Rightarrow> u64
   \<Rightarrow> control_state \<times> (control_state_error + control_action)" where
  "gateway_attach s frame session nonce now =
     (let refuse = (\<lambda>code reason. map_prod id Inr (reject_and_remember frame code reason now s));
          tid = cf_transaction_id frame
      in if \<not> active_session s session
         then refuse InvalidSession ''session is not active on this connection''
         else case map_of (cs_attachments s) nonce of
           Some existing \<Rightarrow>
             if ar_request existing \<noteq> cf_message frame
             then refuse InvalidRequest ''path nonce replay changed''
             else let response = \<lparr>cf_transaction_id = tid, cf_message = ar_response existing\<rparr>
                  in (remember frame response now s, Inr (Replay response))
         | None \<Rightarrow>
             if length (cs_attachments s) = attachment_capacity (cs_config s)
             then refuse InvalidRequest ''path attachment capacity exhausted''
             else case cs_next_path_id s of
               None \<Rightarrow> refuse InvalidRequest ''path identifier space exhausted''
             | Some next \<Rightarrow>
                 (case path_attach_epoch (cf_message frame) of
                   Inl e \<Rightarrow> (s, Inl e)
                 | Inr epoch \<Rightarrow>
                     let response_message = PathAttached session next epoch;
                         s' = s\<lparr>cs_next_path_id := (if next = - 1 then None else Some (next + 1)),
                               cs_protocol_paths := bt_insert next epoch (cs_protocol_paths s),
                               cs_attachments := bt_insert nonce
                                 \<lparr>ar_request = cf_message frame, ar_response = response_message\<rparr>
                                 (cs_attachments s)\<rparr>;
                         response = \<lparr>cf_transaction_id = tid, cf_message = response_message\<rparr>
                     in (remember frame response now s', Inr (Reply response))))"

definition gateway_inbound ::
  "control_state \<Rightarrow> control_frame \<Rightarrow> u64
   \<Rightarrow> control_state \<times> (control_state_error + control_action)" where
  "gateway_inbound s frame now =
     (case completed_action s frame of
        Some action \<Rightarrow> (s, Inr action)
      | None \<Rightarrow>
          let tid = cf_transaction_id frame;
              refuse = (\<lambda>code reason. map_prod id Inr (reject_and_remember frame code reason now s));
              bad_direction =
                (s, Inr (Reply (reject tid InvalidDirection ''message is invalid from this peer'')))
          in case cf_message frame of
            ClientHello device gateway ticket \<Rightarrow>
              if cs_phase s \<noteq> AwaitHello
              then refuse InvalidState ''client hello is no longer allowed''
              else (case cs_verified_admission s of
                None \<Rightarrow> (s, Inl InvalidAdmission)
              | Some a \<Rightarrow>
                  if va_expires_at_ms a \<le> now then refuse Expired ''admission expired''
                  else let s' = s\<lparr>cs_session_id := Some (va_session_id a),
                                 cs_expires_at_ms := Some (va_expires_at_ms a),
                                 cs_policy_epoch := va_policy_epoch a, cs_phase := Active\<rparr>;
                           response = admit a tid
                       in (remember frame response now s', Inr (Reply response)))
          | PathAttach session nonce epoch key metadata \<Rightarrow> gateway_attach s frame session nonce now
          | PathDetach session p epoch reason \<Rightarrow>
              gateway_path_request s frame session p epoch now True
          | PathHealth session p epoch rtt loss \<Rightarrow>
              gateway_path_request s frame session p epoch now False
          | CloseSession session reason \<Rightarrow>
              if \<not> active_session s session
              then refuse InvalidSession ''session is not active on this connection''
              else let response = ack tid
                   in ((remember frame response now s)\<lparr>cs_phase := Closed\<rparr>, Inr (Reply response))
          | Ack \<Rightarrow>
              if cs_phase s = Active then
                (case map_of (cs_pending_policy_updates s) tid of
                  Some pending \<Rightarrow>
                    (s\<lparr>cs_pending_policy_updates := kt_remove tid (cs_pending_policy_updates s),
                       cs_policy_epoch := pp_policy_epoch pending\<rparr>, Inr NoAction)
                | None \<Rightarrow> (s, Inr (Reply (reject tid InvalidState ''unexpected acknowledgement''))))
              else bad_direction
          | Reject code reason \<Rightarrow>
              if cs_phase s = Active then
                if tid \<in> keys (cs_pending_policy_updates s)
                then (s\<lparr>cs_pending_policy_updates := kt_remove tid (cs_pending_policy_updates s)\<rparr>,
                      Inr NoAction)
                else (s, Inr (Reply (reject tid InvalidState ''unexpected rejection'')))
              else bad_direction
          | _ \<Rightarrow> bad_direction)"

definition on_inbound ::
  "control_state \<Rightarrow> control_frame \<Rightarrow> u64
   \<Rightarrow> control_state \<times> (control_state_error + control_action)" where
  "on_inbound s frame now =
     (let (s, expired) = expire_if_needed (prune_pending now (prune_completed now s)) now
      in if expired
         then (s, Inr (Reply (reject (cf_transaction_id frame) Expired ''admission expired'')))
         else case cs_role s of
           Client \<Rightarrow> client_inbound s frame now
         | Gateway \<Rightarrow> gateway_inbound s frame now)"

end
