(* ===== verification/Listener.thy ===== *)
theory Listener
  imports Admission ControlState PoolInv
begin

text \<open>
  The V2 admission listener, \<open>apps/streamguard-gateway/src/v2/listener.rs\<close>, between the transport
  and the state of the gateway: what it does with an incoming connection, with its client hello
  and with each later control frame. It ties the admission handler, the session manager and the
  address pool together. As in the gateway's runtime, the pool is the cleanup hook of the session
  manager, so every removal defers the release of its lease.

  The answers of the environment are arguments: how the store and the owner queue answer each
  pool operation (\<open>None\<close> is a full or closed queue or a timeout), how the journal ends and
  whether a response could be written. Of QUIC and TLS only how each wait ends is seen. The debug
  assertion that the commit promotes the reserved lease is left out.
\<close>

section \<open>Data\<close>

datatype listener_error = LsInvalidConfiguration | LsTlsConfiguration | LsEndpoint | LsEndpointClosed | LsLimited
  | LsHandshake | LsHandshakeDeadline | LsPeerIdentity | LsControlStream | LsControlStreamDeadline | LsInvalidControl
  | LsAdmissionRejected | LsInvalidAdmission | LsResponseWrite | LsConnectionClosed | LsConnectionCleanup | LsAddressPool

record gateway =
  ls_handler :: admission_handler
  ls_pool :: address_pool

record listener_binding =
  lb_path_id :: path_id
  lb_path_epoch :: u64
  lb_key_epoch :: u32
  lb_path_nonce :: arr16

record admitted_connection =
  lc_admitted :: admission_accepted
  lc_connection :: "authenticated_connection option"
  lc_attached_path :: "listener_binding option"

text \<open>An elapsed time in whole milliseconds.\<close>

definition advance_admission_time :: "admission_time \<Rightarrow> nat \<Rightarrow> admission_time" where
  "advance_admission_time base elapsed =
     \<lparr>at_unix_seconds = sat_add (at_unix_seconds base) (of_nat (elapsed div 1000)),
      at_monotonic_millis = sat_add (at_monotonic_millis base) (of_nat (min elapsed (2 ^ 64 - 1)))\<rparr>"

text \<open>The \<open>SessionAdmit\<close> of an admission; the template is its Safe Mode policy.\<close>

definition template_frame :: "byte list \<Rightarrow> u64 \<Rightarrow> admission_accepted \<Rightarrow> assigned_addresses
    \<Rightarrow> listener_error + control_frame" where
  "template_frame policy transaction_id admitted lease =
     (if 2 ^ 64 \<le> unat (aa_expires_at_unix_seconds admitted) * 1000 then Inl LsInvalidAdmission
      else Inr \<lparr>cf_transaction_id = transaction_id, cf_message = SessionAdmit (so_session_id (aa_owner admitted))
        (aa_expires_at_unix_seconds admitted * 1000) (aa_policy_version admitted) (aa_ipv4 lease)
        (aa_ipv4_prefix_len lease) (aa_ipv6_prefix lease) (aa_ipv6_prefix_len lease) policy\<rparr>)"

definition listener_reject :: "u64 \<Rightarrow> reject_code \<Rightarrow> string \<Rightarrow> control_frame" where
  "listener_reject transaction_id code reason =
     \<lparr>cf_transaction_id = transaction_id, cf_message = Reject code (ascii reason)\<rparr>"

section \<open>Operations on the parts\<close>

text \<open>An operation of the session manager, with the cleanup of the sessions it removes.\<close>

definition cleaned_up :: "session_removal list \<Rightarrow> gateway \<Rightarrow> gateway" where
  "cleaned_up removals g =
     g\<lparr>ls_pool := foldl (\<lambda>p removal. fst (release_deferred p (rm_session_id removal))) (ls_pool g) removals\<rparr>"

definition on_sessions :: "(manager \<Rightarrow> 'a managed) \<Rightarrow> gateway \<Rightarrow> gateway \<times> (manager_error + 'a)" where
  "on_sessions operation g =
     (case operation (ah_sessions (ls_handler g)) of
        (m, r, removals) \<Rightarrow> (cleaned_up removals (g\<lparr>ls_handler := (ls_handler g)\<lparr>ah_sessions := m\<rparr>\<rparr>), r))"

text \<open>An operation of the pool through its owner queue.\<close>

definition on_pool :: "(address_pool \<Rightarrow> begun) \<Rightarrow> bool list option \<Rightarrow> gateway \<Rightarrow> gateway \<times> pool_answer option" where
  "on_pool operation answers g =
     (case answers of
        None \<Rightarrow> (g, None)
      | Some bs \<Rightarrow> (case complete (operation (ls_pool g)) bs of (p, answer) \<Rightarrow> (g\<lparr>ls_pool := p\<rparr>, Some answer)))"

fun granted_addresses :: "pool_answer option \<Rightarrow> assigned_addresses option" where
  "granted_addresses (Some (Addresses (Inr a))) = Some a"
| "granted_addresses _ = None"

definition release_async :: "session_id \<Rightarrow> bool list option \<Rightarrow> gateway \<Rightarrow> gateway" where
  "release_async sid answers g = fst (on_pool (\<lambda>p. release_begin p sid 0) answers g)"

text \<open>The sweep of the pool closes the sessions whose leases expired.\<close>

definition close_session_by_id :: "session_id \<Rightarrow> gateway \<Rightarrow> gateway" where
  "close_session_by_id sid g = fst (on_sessions (\<lambda>m. sm_close m sid) g)"

definition sweep_pool :: "u64 \<Rightarrow> (bool list \<times> bool list) option \<Rightarrow> gateway \<Rightarrow> gateway" where
  "sweep_pool now answers g =
     (case answers of
        None \<Rightarrow> g
      | Some (delete_answers, retry_answers) \<Rightarrow>
          (case pool_sweep (ls_pool g) now delete_answers retry_answers of
             (p, answer) \<Rightarrow> foldl (\<lambda>g sid. close_session_by_id sid g) (g\<lparr>ls_pool := p\<rparr>)
               (case answer of Swept ids \<Rightarrow> ids | _ \<Rightarrow> [])))"

section \<open>Accepting\<close>

record accept_env =
  ae_sweep :: "(bool list \<times> bool list) option"
  ae_consume :: owner_answer
  ae_reserve :: "bool list option"
  ae_commit :: "bool list option"
  ae_release :: "bool list option"
  ae_written :: bool

text \<open>
  From the admission on. \<open>unwind\<close> is the way out after the session is committed: the lease is
  released and the session closed.
\<close>

definition unwind :: "session_id \<Rightarrow> authenticated_connection \<Rightarrow> accept_env \<Rightarrow> gateway \<Rightarrow> gateway" where
  "unwind sid connection env g =
     fst (on_sessions (\<lambda>m. close_session m connection) (release_async sid (ae_release env) g))"

definition abort_admitted :: "admission_accepted \<Rightarrow> gateway \<Rightarrow> gateway" where
  "abort_admitted admitted g = g\<lparr>ls_handler := handler_abort (ls_handler g) admitted\<rparr>"

definition accept_admitted :: "byte list \<Rightarrow> u64 \<Rightarrow> admission_accepted \<Rightarrow> admission_time \<Rightarrow> pool_time \<Rightarrow> accept_env
    \<Rightarrow> gateway \<Rightarrow> gateway \<times> (listener_error + admitted_connection \<times> control_frame)" where
  "accept_admitted policy transaction_id admitted now pool_now env g =
     (let sid = so_session_id (aa_owner admitted) in
      case on_pool (\<lambda>p. reserve_begin p sid (so_device_id (aa_owner admitted)) pool_now) (ae_reserve env) g of
        (g, reserved) \<Rightarrow>
      if granted_addresses reserved = None then (abort_admitted admitted g, Inl LsAddressPool)
      else case commit_and_bind (ls_handler g) admitted now of
        (h, Inl _, removals) \<Rightarrow>
          (abort_admitted admitted (release_async sid (ae_release env) (cleaned_up removals (g\<lparr>ls_handler := h\<rparr>))),
           Inl LsAdmissionRejected)
      | (h, Inr connection, removals) \<Rightarrow>
          (case on_pool (\<lambda>p. commit_begin p sid pool_now) (ae_commit env) (cleaned_up removals (g\<lparr>ls_handler := h\<rparr>)) of
             (g, committed) \<Rightarrow>
           case granted_addresses committed of
             None \<Rightarrow> (unwind sid connection env g, Inl LsAddressPool)
           | Some lease \<Rightarrow>
               (case template_frame policy transaction_id admitted lease of
                  Inl error \<Rightarrow> (unwind sid connection env g, Inl error)
                | Inr response \<Rightarrow>
                    if \<not> ae_written env then (unwind sid connection env g, Inl LsResponseWrite)
                    else (g, Inr (\<lparr>lc_admitted = admitted, lc_connection = Some connection, lc_attached_path = None\<rparr>,
                      response)))))"

definition accept_hello :: "'k jwt_library \<Rightarrow> 'k trust_snapshot \<Rightarrow> byte list \<Rightarrow> ip_addr \<Rightarrow> device_id \<Rightarrow> control_frame
    \<Rightarrow> admission_time \<Rightarrow> nat \<Rightarrow> accept_env \<Rightarrow> gateway
    \<Rightarrow> gateway \<times> (listener_error + admitted_connection \<times> control_frame)" where
  "accept_hello jwt trust policy source peer hello_frame now elapsed env g =
     (case hello_from_control_message (cf_message hello_frame) of
        Inl _ \<Rightarrow> (g, Inl LsInvalidControl)
      | Inr hello \<Rightarrow>
          let admission_now = advance_admission_time now elapsed in
          case on_sessions (\<lambda>m. sweep m (at_monotonic_millis admission_now)) g of
            (g, Inl _) \<Rightarrow> (g, Inl LsAdmissionRejected)
          | (g, Inr _) \<Rightarrow>
              let pool_now = pool_time_from_seconds (at_monotonic_millis admission_now) (at_unix_seconds admission_now);
                  g = sweep_pool (tm_monotonic_ms pool_now) (ae_sweep env) g
              in case admit_async jwt (ls_handler g) source peer hello (Some trust) (at_monotonic_millis now) admission_now
                   (ae_consume env) of
                (h, Inl _, removals) \<Rightarrow> (cleaned_up removals (g\<lparr>ls_handler := h\<rparr>), Inl LsAdmissionRejected)
              | (h, Inr admitted, removals) \<Rightarrow>
                  accept_admitted policy (cf_transaction_id hello_frame) admitted admission_now pool_now env
                    (cleaned_up removals (g\<lparr>ls_handler := h\<rparr>)))"

text \<open>
  What an incoming connection shows of itself: its address, how its handshake ends, the identity in
  its verified certificate, how the wait for its control stream ends, the first frame on it, and the
  time all of this took. The permit for the handshake is held until the handshake ends.
\<close>

datatype awaited = Arrived | Broken | Overdue

record incoming =
  in_source :: ip_addr
  in_handshake :: awaited
  in_peer :: "device_id option"
  in_control_stream :: awaited
  in_hello :: "control_frame option"
  in_elapsed :: nat

definition accept_one_at :: "'k jwt_library \<Rightarrow> 'k trust_snapshot \<Rightarrow> byte list \<Rightarrow> admission_time \<Rightarrow> incoming option
    \<Rightarrow> accept_env \<Rightarrow> gateway \<Rightarrow> gateway \<times> (listener_error + admitted_connection \<times> control_frame)" where
  "accept_one_at jwt trust policy now accepted env g =
     (case accepted of
        None \<Rightarrow> (g, Inl LsEndpointClosed)
      | Some i \<Rightarrow>
          (case acquire_handshake (ls_handler g) (in_source i) now of
             (h, Inl _) \<Rightarrow> (g\<lparr>ls_handler := h\<rparr>, Inl LsLimited)
           | (h, Inr permit) \<Rightarrow>
               let g = g\<lparr>ls_handler := drop_permit permit h\<rparr> in
               (case in_handshake i of
                  Broken \<Rightarrow> (g, Inl LsHandshake)
                | Overdue \<Rightarrow> (g, Inl LsHandshakeDeadline)
                | Arrived \<Rightarrow>
                    (case in_peer i of
                       None \<Rightarrow> (g, Inl LsPeerIdentity)
                     | Some peer \<Rightarrow>
                         (case in_control_stream i of
                            Broken \<Rightarrow> (g, Inl LsControlStream)
                          | Overdue \<Rightarrow> (g, Inl LsControlStreamDeadline)
                          | Arrived \<Rightarrow>
                              (case in_hello i of
                                 None \<Rightarrow> (g, Inl LsInvalidControl)
                               | Some hello_frame \<Rightarrow>
                                   accept_hello jwt trust policy (in_source i) peer hello_frame now (in_elapsed i) env g))))))"

section \<open>Control frames\<close>

record control_env =
  ce_sweep :: "(bool list \<times> bool list) option"
  ce_renew :: "bool list option"
  ce_written :: bool

definition renew_lease :: "session_id \<Rightarrow> pool_time \<Rightarrow> control_env \<Rightarrow> gateway \<Rightarrow> gateway \<times> bool" where
  "renew_lease sid now env g =
     (case on_pool (\<lambda>p. renew_begin p sid now) (ce_renew env) g of
        (g, answer) \<Rightarrow> (g, answer = Some (Renewed (Inr ()))))"

text \<open>The renewal that an attach and a detach begin with; the session is closed when it fails.\<close>

definition renew_activity :: "authenticated_connection \<Rightarrow> session_id \<Rightarrow> pool_time \<Rightarrow> control_env \<Rightarrow> gateway
    \<Rightarrow> gateway \<times> bool" where
  "renew_activity connection sid now env g =
     (case on_sessions (\<lambda>m. record_authenticated_activity m connection (tm_monotonic_ms now)) g of
        (g, Inl _) \<Rightarrow> (close_session_by_id sid g, False)
      | (g, Inr _) \<Rightarrow>
          (case renew_lease sid now env g of
             (g, ok) \<Rightarrow> if ok then (g, True) else (close_session_by_id sid g, False)))"

definition connection_close :: "gateway \<Rightarrow> admitted_connection
    \<Rightarrow> gateway \<times> admitted_connection \<times> (listener_error + bool)" where
  "connection_close g c =
     (case lc_connection c of
        None \<Rightarrow> (g, c, Inr False)
      | Some connection \<Rightarrow>
          let c = c\<lparr>lc_connection := None, lc_attached_path := None\<rparr> in
          (case on_sessions (\<lambda>m. close_connection m connection) g of
             (g, Inl _) \<Rightarrow> (g, c, Inl LsConnectionCleanup)
           | (g, Inr b) \<Rightarrow> (g, c, Inr b)))"

definition connection_close_session :: "gateway \<Rightarrow> admitted_connection
    \<Rightarrow> gateway \<times> admitted_connection \<times> (listener_error + bool)" where
  "connection_close_session g c =
     (case lc_connection c of
        None \<Rightarrow> (g, c, Inr False)
      | Some connection \<Rightarrow>
          let c = c\<lparr>lc_connection := None, lc_attached_path := None\<rparr> in
          (case on_sessions (\<lambda>m. close_session m connection) g of
             (g, Inl _) \<Rightarrow> (g, c, Inl LsConnectionCleanup)
           | (g, Inr b) \<Rightarrow> (g, c, Inr b)))"

type_synonym control_result = "gateway \<times> admitted_connection \<times> (listener_error + control_frame)"

definition path_attached :: "u64 \<Rightarrow> session_id \<Rightarrow> path_id \<Rightarrow> u64 \<Rightarrow> control_frame" where
  "path_attached transaction_id sid path_id epoch =
     \<lparr>cf_transaction_id = transaction_id, cf_message = PathAttached sid path_id epoch\<rparr>"

text \<open>An attach on a connection that has a path: the same request again, or a rejected one.\<close>

definition attach_again :: "gateway \<Rightarrow> admitted_connection \<Rightarrow> listener_binding \<Rightarrow> u64 \<Rightarrow> session_id \<Rightarrow> arr16 \<Rightarrow> u64 \<Rightarrow> u32
    \<Rightarrow> pool_time \<Rightarrow> control_env \<Rightarrow> control_result" where
  "attach_again g c path transaction_id sid path_nonce epoch key_epoch now env =
     (if lb_path_epoch path = epoch \<and> lb_key_epoch path = key_epoch \<and> lb_path_nonce path = path_nonce
      then case lc_connection c of
        None \<Rightarrow> (g, c, Inl LsConnectionClosed)
      | Some connection \<Rightarrow>
          (case on_sessions (\<lambda>m. validate_attached_path m connection (lb_path_id path) (lb_path_epoch path)
               (lb_key_epoch path) (tm_monotonic_ms now)) g of
             (g, Inr _) \<Rightarrow>
               (case renew_lease sid now env g of
                  (g, ok) \<Rightarrow>
                    if ok then (g, c, Inr (path_attached transaction_id sid (lb_path_id path) epoch))
                    else (close_session_by_id sid g, c, Inl LsAddressPool))
           | (g, Inl _) \<Rightarrow>
               (g, c, Inr (listener_reject transaction_id InvalidState ''cached path attachment is no longer valid'')))
      else (g, c, Inr (listener_reject transaction_id StaleEpoch ''connection is already attached'')))"

definition attach_new :: "gateway \<Rightarrow> admitted_connection \<Rightarrow> u64 \<Rightarrow> session_id \<Rightarrow> arr16 \<Rightarrow> u64 \<Rightarrow> u32
    \<Rightarrow> pool_time \<Rightarrow> control_env \<Rightarrow> control_result" where
  "attach_new g c transaction_id sid path_nonce epoch key_epoch now env =
     (case lc_connection c of
        None \<Rightarrow> (g, c, Inl LsConnectionClosed)
      | Some connection \<Rightarrow>
          (case renew_activity connection sid now env g of
             (g, False) \<Rightarrow> (g, c, Inl LsAddressPool)
           | (g, True) \<Rightarrow>
               (case on_sessions (\<lambda>m. sm_reserve_attach m connection epoch key_epoch (tm_monotonic_ms now)) g of
                  (g, Inl _) \<Rightarrow> (g, c, Inr (listener_reject transaction_id InvalidState ''path attach rejected''))
                | (g, Inr reservation) \<Rightarrow>
                    (case on_sessions (\<lambda>m. sm_commit_attach m reservation) g of
                       (g, Inl _) \<Rightarrow>
                         (g, c, Inr (listener_reject transaction_id InvalidState ''path attach could not commit''))
                     | (g, Inr path) \<Rightarrow>
                         (g, c\<lparr>lc_attached_path := Some \<lparr>lb_path_id = pb_path_id path, lb_path_epoch = pb_path_epoch path,
                              lb_key_epoch = pb_key_epoch path, lb_path_nonce = path_nonce\<rparr>\<rparr>,
                          Inr (path_attached transaction_id sid (pb_path_id path) (pb_path_epoch path)))))))"

definition detach_path :: "gateway \<Rightarrow> admitted_connection \<Rightarrow> u64 \<Rightarrow> session_id \<Rightarrow> path_id \<Rightarrow> u64
    \<Rightarrow> pool_time \<Rightarrow> control_env \<Rightarrow> control_result" where
  "detach_path g c transaction_id sid path_id epoch now env =
     (case lc_connection c of
        None \<Rightarrow> (g, c, Inl LsConnectionClosed)
      | Some connection \<Rightarrow>
          (case renew_activity connection sid now env g of
             (g, False) \<Rightarrow> (g, c, Inl LsAddressPool)
           | (g, True) \<Rightarrow>
               (case on_sessions (\<lambda>m. detach_connection m connection path_id epoch (tm_monotonic_ms now)) g of
                  (g, Inl _) \<Rightarrow> (g, c, Inr (listener_reject transaction_id UnknownPath ''path detach rejected''))
                | (g, Inr detached) \<Rightarrow>
                    (g, (if detached then c\<lparr>lc_attached_path := None\<rparr> else c),
                     Inr \<lparr>cf_transaction_id = transaction_id, cf_message = Ack\<rparr>))))"

definition control_response :: "gateway \<Rightarrow> admitted_connection \<Rightarrow> control_frame \<Rightarrow> pool_time \<Rightarrow> control_env \<Rightarrow> control_result" where
  "control_response g c frame now env =
     (let transaction_id = cf_transaction_id frame;
          owned = so_session_id (aa_owner (lc_admitted c));
          rejected = (g, c, Inr (listener_reject transaction_id InvalidDirection
            ''control request is not valid for this connection''))
      in case cf_message frame of
           PathAttach sid path_nonce epoch key_epoch metadata \<Rightarrow>
             if sid \<noteq> owned then rejected
             else (case lc_attached_path c of
                 Some path \<Rightarrow> attach_again g c path transaction_id sid path_nonce epoch key_epoch now env
               | None \<Rightarrow> attach_new g c transaction_id sid path_nonce epoch key_epoch now env)
         | PathDetach sid path_id epoch reason \<Rightarrow>
             if sid \<noteq> owned then rejected
             else detach_path g c transaction_id sid path_id epoch now env
         | CloseSession sid reason \<Rightarrow>
             if sid \<noteq> owned then rejected
             else (case connection_close_session g c of
                 (g, c, Inl e) \<Rightarrow> (g, c, Inl e)
               | (g, c, Inr _) \<Rightarrow> (g, c, Inr \<lparr>cf_transaction_id = transaction_id, cf_message = Ack\<rparr>))
         | _ \<Rightarrow> rejected)"

definition handle_control :: "gateway \<Rightarrow> admitted_connection \<Rightarrow> control_frame \<Rightarrow> pool_time \<Rightarrow> control_env \<Rightarrow> control_result" where
  "handle_control g c frame now env =
     (case on_sessions (\<lambda>m. sweep m (tm_monotonic_ms now)) g of
        (g, Inl _) \<Rightarrow> (g, c, Inl LsConnectionCleanup)
      | (g, Inr _) \<Rightarrow>
          (case control_response (sweep_pool (tm_monotonic_ms now) (ce_sweep env) g) c frame now env of
             (g, c, Inl e) \<Rightarrow> (g, c, Inl e)
           | (g, c, Inr response) \<Rightarrow>
               if ce_written env then (g, c, Inr response)
               else (case connection_close g c of (g, c, _) \<Rightarrow> (g, c, Inl LsControlStream))))"

end
