(* ===== verification/TicketProps.thy ===== *)
theory TicketProps
  imports Ticket
begin

text \<open>
  What a verified ticket certifies, and that the identifiers in its claims are read back exactly
  from their canonical text.
\<close>

section \<open>Identifiers as text\<close>

definition hex_digit :: "byte \<Rightarrow> byte" where
  "hex_digit n = (if n < 10 then 48 + n else 87 + n)"

fun id_text :: "nat \<Rightarrow> byte list \<Rightarrow> byte list" where
  "id_text i [] = []"
| "id_text i (b # bs) =
     (if i = 4 \<or> i = 6 \<or> i = 8 \<or> i = 10 then [45] else [])
     @ [hex_digit (drop_bit 4 b), hex_digit (b AND 15)] @ id_text (Suc i) bs"

text \<open>Lowercase hexadecimal, grouped 8-4-4-4-12.\<close>

definition identifier_text :: "arr16 \<Rightarrow> byte list" where
  "identifier_text w = id_text 0 (to_be w)"

lemma hex_value_digit:
  assumes "a < 16"
  shows "hex_value (hex_digit a) = Some a"
proof (cases "a < 10")
  case True
  then have "unat (48 + a) = 48 + unat a" by (simp add: word_less_nat_alt unat_plus_if')
  with True show ?thesis by (simp add: hex_digit_def hex_value_def word_le_nat_alt word_less_nat_alt)
next
  case False
  then have "unat (87 + a) = 87 + unat a" using assms by (simp add: word_less_nat_alt unat_plus_if')
  with False assms show ?thesis by (simp add: hex_digit_def hex_value_def word_le_nat_alt word_less_nat_alt)
qed

lemma hex_value_range:
  assumes "hex_value h = Some a"
  shows "a < 16"
proof -
  from assms consider "48 \<le> h" "h \<le> 57" "a = h - 48" | "97 \<le> h" "h \<le> 102" "a = h - 97 + 10"
    by (auto simp: hex_value_def split: if_split_asm)
  then show ?thesis
  proof cases
    case 1
    then have "unat a = unat h - 48" by (simp add: unat_sub)
    with 1 show ?thesis by (simp add: word_less_nat_alt word_le_nat_alt)
  next
    case 2
    then have "87 \<le> h" by (simp add: word_le_nat_alt)
    then have "unat (h - 87) = unat h - 87" by (simp add: unat_sub)
    with 2 show ?thesis by (simp add: word_less_nat_alt word_le_nat_alt)
  qed
qed

lemma hex_value_inj:
  assumes "hex_value h = Some a" and "hex_value k = Some a"
  shows "h = k"
proof -
  have lo: "unat (h - 48) = unat h - 48" if "48 \<le> h" for h :: byte using that by (simp add: unat_sub)
  have hi: "unat (h - 87) = unat h - 87" if "97 \<le> h" for h :: byte
    using that by (subst unat_sub) (simp_all add: word_le_nat_alt)
  have "unat h = unat k"
    using assms lo [of h] lo [of k] hi [of h] hi [of k]
    by (auto simp: hex_value_def word_unat_eq_iff word_le_nat_alt split: if_split_asm)
  then show ?thesis by (simp add: word_unat_eq_iff)
qed

lemma hex_value_iff: "hex_value h = Some a \<longleftrightarrow> a < 16 \<and> h = hex_digit a"
  using hex_value_digit hex_value_range hex_value_inj by blast

lemma fifteen: "(15::byte) = mask 4"
  by (simp add: mask_eq_exp_minus_1)

lemma nibble_bits: "(a::byte) < 16 \<Longrightarrow> bit a i \<Longrightarrow> i < 4"
proof -
  assume "a < 16" and b: "bit a i"
  then have "a AND mask 4 = a" by (intro less_mask_eq) simp
  with b have "bit (a AND mask 4) i" by simp
  then show "i < 4" by (simp add: bit_simps)
qed

lemma nibble_range: "drop_bit 4 (b::byte) < 16" "b AND 15 < 16"
proof -
  have "unat (drop_bit 4 b) = unat b div 16" unfolding unat_drop_bit_eq by (simp add: drop_bit_eq_div)
  moreover have "unat b < 256" using unat_bound [of b] by simp
  ultimately have "unat (drop_bit 4 b) < 16" by linarith
  then show "drop_bit 4 b < 16" unfolding word_less_nat_alt by simp
  show "b AND 15 < 16" using word_and_le1 [of b 15] by (simp add: word_le_nat_alt word_less_nat_alt)
qed

lemma nibble_join: "push_bit 4 (drop_bit 4 b) OR (b AND 15) = (b::byte)"
  unfolding fifteen by (rule bit_word_eqI) (auto simp: bit_simps)

lemma nibble_split:
  assumes "a < 16" and "c < 16"
  shows "drop_bit 4 (push_bit 4 a OR c) = (a::byte)" and "(push_bit 4 a OR c) AND 15 = (c::byte)"
proof -
  show "drop_bit 4 (push_bit 4 a OR c) = a"
    by (rule bit_word_eqI) (use nibble_bits [OF assms(1)] nibble_bits [OF assms(2)] in \<open>fastforce simp: bit_simps\<close>)
  show "(push_bit 4 a OR c) AND 15 = c"
    unfolding fifteen by (rule bit_word_eqI) (use nibble_bits [OF assms(2)] in \<open>auto simp: bit_simps\<close>)
qed

text \<open>One byte of the loop reads back the two digits of one byte of the text.\<close>

lemma parse_pair:
  "(case (hex_value h, hex_value l) of
      (Some high, Some low) \<Rightarrow> map_option (\<lambda>bytes. (push_bit 4 high OR low) # bytes) rest
    | _ \<Rightarrow> None) = Some bs \<longleftrightarrow>
   (\<exists>b bs'. bs = b # bs' \<and> rest = Some bs' \<and> h = hex_digit (drop_bit 4 b) \<and> l = hex_digit (b AND 15))"
proof -
  have "(case (hex_value h, hex_value l) of
      (Some high, Some low) \<Rightarrow> map_option (\<lambda>bytes. (push_bit 4 high OR low) # bytes) rest
    | _ \<Rightarrow> None) = Some bs \<longleftrightarrow>
   (\<exists>high low bs'. hex_value h = Some high \<and> hex_value l = Some low \<and> rest = Some bs'
      \<and> bs = (push_bit 4 high OR low) # bs')"
    by (auto split: option.splits)
  also have "\<dots> \<longleftrightarrow> (\<exists>high low bs'. high < 16 \<and> low < 16 \<and> h = hex_digit high \<and> l = hex_digit low \<and> rest = Some bs'
      \<and> bs = (push_bit 4 high OR low) # bs')"
    unfolding hex_value_iff by blast
  also have "\<dots> \<longleftrightarrow> (\<exists>b bs'. bs = b # bs' \<and> rest = Some bs' \<and> h = hex_digit (drop_bit 4 b) \<and> l = hex_digit (b AND 15))"
  proof
    assume "\<exists>b bs'. bs = b # bs' \<and> rest = Some bs' \<and> h = hex_digit (drop_bit 4 b) \<and> l = hex_digit (b AND 15)"
    then show "\<exists>high low bs'. high < 16 \<and> low < 16 \<and> h = hex_digit high \<and> l = hex_digit low \<and> rest = Some bs'
      \<and> bs = (push_bit 4 high OR low) # bs'"
      using nibble_range nibble_join by metis
  next
    assume "\<exists>high low bs'. high < 16 \<and> low < 16 \<and> h = hex_digit high \<and> l = hex_digit low \<and> rest = Some bs'
      \<and> bs = (push_bit 4 high OR low) # bs'"
    then show "\<exists>b bs'. bs = b # bs' \<and> rest = Some bs' \<and> h = hex_digit (drop_bit 4 b) \<and> l = hex_digit (b AND 15)"
      using nibble_split by metis
  qed
  finally show ?thesis .
qed

lemma parse_id_bytes_iff: "parse_id_bytes i n source = Some bs \<longleftrightarrow> length bs = n \<and> source = id_text i bs"
proof (induction n arbitrary: i source bs)
  case (Suc n)
  let ?dash = "i = 4 \<or> i = 6 \<or> i = 8 \<or> i = 10"
  have step: "(case src of h # l # r \<Rightarrow>
        (case (hex_value h, hex_value l) of
           (Some high, Some low) \<Rightarrow> map_option (\<lambda>bytes. (push_bit 4 high OR low) # bytes) (parse_id_bytes (Suc i) n r)
         | _ \<Rightarrow> None) | _ \<Rightarrow> None) = Some bs \<longleftrightarrow>
      (\<exists>b bs'. bs = b # bs' \<and> length bs' = n
        \<and> src = hex_digit (drop_bit 4 b) # hex_digit (b AND 15) # id_text (Suc i) bs')" for src
  proof (cases "\<exists>h l r. src = h # l # r")
    case True
    then obtain h l r where src: "src = h # l # r" by blast
    show ?thesis unfolding src list.case parse_pair Suc.IH by auto
  qed (auto split: list.splits)
  show ?case
  proof (cases ?dash)
    case True
    then show ?thesis
      using step [of "tl source"] by (cases source; cases bs) (auto split: if_split_asm)
  next
    case False
    then show ?thesis using step [of source] by (cases bs) auto
  qed
qed auto

lemma parse_identifier_iff: "parse_identifier v = Some w \<longleftrightarrow> v = identifier_text w"
proof -
  have len: "length (id_text 0 bs) = 36" if "length bs = 16" for bs
    using that by (simp add: length_Suc_conv numeral_eq_Suc) (elim exE conjE, simp)
  have "parse_identifier v = Some w \<longleftrightarrow> length v = 36 \<and> (\<exists>bs. length bs = 16 \<and> v = id_text 0 bs \<and> w = from_be bs)"
    by (auto simp: parse_identifier_def parse_id_bytes_iff)
  also have "\<dots> \<longleftrightarrow> v = identifier_text w"
    using len by (auto simp: identifier_text_def intro!: exI [of _ "to_be w"])
  finally show ?thesis .
qed

text \<open>An identifier in a claim is read exactly from its canonical text, thirty-six characters
  of lowercase hexadecimal grouped 8-4-4-4-12: every identifier is read back from its text, and no
  other text, no uppercase or misgrouped spelling of it, is read at all.\<close>

theorem identifier_text_exact: "parse_identifier v = Some w \<longleftrightarrow> v = identifier_text w"
  by (rule parse_identifier_iff)

section \<open>What verification certifies\<close>

lemma decode_keys_sound:
  "decode_keys from_ed public_keys decoded = Inr result \<Longrightarrow> bt_ok decoded \<Longrightarrow> map_of result k = Some key \<Longrightarrow>
    map_of decoded k = Some key \<or> (\<exists>pk \<in> set public_keys. ck_key_id pk = k \<and> from_ed (ck_public_key_x pk) = Some key)"
proof (induction from_ed public_keys decoded rule: decode_keys.induct)
  case (2 from_ed pk rest decoded)
  then obtain dk where dk: "from_ed (ck_public_key_x pk) = Some dk" "ck_key_id pk \<notin> keys decoded"
    "decode_keys from_ed rest (bt_insert (ck_key_id pk) dk decoded) = Inr result"
    by (auto split: option.splits if_split_asm)
  from "2.IH" [OF dk(1) dk(2) dk(3) bt.ok_ins [OF "2.prems"(2)] "2.prems"(3)] dk(1)
  show ?case by (auto simp: bt.get_ins [OF "2.prems"(2)] split: if_split_asm)
qed simp

text \<open>C7. A verified ticket is bound to the peer and to the controller. Under a trust snapshot
  built from the controller's public keys, a verified ticket is a compact token of at most 2048
  bytes whose claims the library accepts under one of those keys for the configured issuer and
  audience; its device claim spells the identity of the authenticated peer, which is the one of the
  hello; it is within its validity, at most fifteen minutes from its end, the snapshot is fresh and
  does not revoke it, and the gateway's region is among the claimed ones.\<close>

theorem verified_ticket_certified:
  assumes "trust_snapshot_new from_ed public_keys revoked fresh_until = Inr trust"
    and "ticket_verify jwt v ticket (Some trust) now peer hello = Inr t"
  shows "peer = hello \<and> now < fresh_until \<and> length ticket \<le> 2048 \<and> length (split_on 46 ticket) = 3
    \<and> vt_ticket_id t \<notin> set revoked
    \<and> (\<exists>pk \<in> set public_keys. \<exists>key claims. from_ed (ck_public_key_x pk) = Some key
        \<and> jwt_claims jwt ticket key (tv_issuer v) (tv_audience v) = Some claims
        \<and> wc_device claims = identifier_text peer \<and> vt_device_id t = peer
        \<and> wc_jti claims = identifier_text (vt_ticket_id t)
        \<and> wc_session claims = identifier_text (vt_session_id t)
        \<and> wc_organization claims = identifier_text (vt_organization_id t)
        \<and> wc_exp claims = vt_expires_at_unix_seconds t \<and> wc_iat claims \<le> now
        \<and> now < vt_expires_at_unix_seconds t \<and> unat (vt_expires_at_unix_seconds t) \<le> unat now + 900
        \<and> tv_current_region v \<in> set (wc_regions claims) \<and> vt_policy_version t \<noteq> 0)"
proof -
  obtain decoded where d: "decode_keys from_ed public_keys [] = Inr decoded"
    and tr: "ts_keys trust = decoded" "set (ts_revoked_ticket_ids trust) = set revoked" "ts_fresh_until_unix_seconds trust = fresh_until"
    using assms(1) by (auto simp: trust_snapshot_new_def rbind_Inr split: if_split_asm)
  obtain key claims where key: "ticket_key jwt trust ticket = Inr key"
    and claims: "jwt_claims jwt ticket key (tv_issuer v) (tv_audience v) = Some claims"
    and ids: "parse_identifier (wc_jti claims) = Some (vt_ticket_id t)" "parse_identifier (wc_device claims) = Some (vt_device_id t)"
      "parse_identifier (wc_organization claims) = Some (vt_organization_id t)"
      "parse_identifier (wc_session claims) = Some (vt_session_id t)"
    and ok: "\<not> claims_rejected v claims (vt_device_id t) now peer" "\<not> is_revoked trust (vt_ticket_id t)"
    and t: "vt_expires_at_unix_seconds t = wc_exp claims" "vt_policy_version t = wc_policy_version claims"
    and peer: "peer = hello" and fresh: "now < fresh_until"
    using assms(2) tr(3)
    by (auto simp: ticket_verify_def rbind_Inr controller_trust_availability_def snapshot_availability_def split: if_split_asm)
  obtain kid where kid: "validate_compact_bounds ticket = Inr ()" "map_of decoded kid = Some key"
    using key tr(1) by (auto simp: ticket_key_def rbind_Inr split: if_split_asm)
  have "bt_ok ([] :: (byte list \<times> 'a) list)" by (rule bt.ok_Nil)
  from decode_keys_sound [OF d this kid(2)]
  obtain pk where pk: "pk \<in> set public_keys" "from_ed (ck_public_key_x pk) = Some key" by auto
  have ticket: "length ticket \<le> 2048" "length (split_on 46 ticket) = 3"
    using kid(1) by (auto simp: validate_compact_bounds_def max_compact_ticket_len_def Let_def split: if_split_asm)
  have claim: "vt_device_id t = peer" "wc_iat claims \<le> now" "now < wc_exp claims" "wc_policy_version claims \<noteq> 0"
    "tv_current_region v \<in> set (wc_regions claims)" "wc_iat claims \<le> wc_exp claims"
    "wc_exp claims - wc_iat claims \<le> max_ticket_lifetime_seconds"
    using ok(1) by (auto simp: claims_rejected_def list_ex_iff)
  have "unat (wc_exp claims) - unat (wc_iat claims) \<le> 900"
    using claim(6,7) by (simp add: unat_sub word_le_nat_alt max_ticket_lifetime_seconds_def)
  moreover have "unat (wc_iat claims) \<le> unat now" using claim(2) by (simp add: word_le_nat_alt)
  ultimately have "unat (wc_exp claims) \<le> unat now + 900" by linarith
  moreover have "vt_ticket_id t \<notin> set revoked" using ok(2) tr(2) by (simp add: is_revoked_def)
  ultimately show ?thesis
    using peer fresh ticket pk(2) claims ids claim t
    by (intro conjI bexI [OF _ pk(1)] exI [of _ key] exI [of _ claims]) (simp_all add: parse_identifier_iff)
qed

section \<open>A ticket\<close>

text \<open>A library that accepts every token as the same claims, under a key that is its own text.\<close>

definition sample_claims :: wire_claims where
  "sample_claims = \<lparr>wc_jti = identifier_text 1, wc_iss = [99], wc_aud = [103], wc_device = identifier_text 7,
     wc_organization = identifier_text 9, wc_session = identifier_text 5, wc_iat = 1000, wc_exp = 1600,
     wc_policy_version = 1, wc_regions = [[101, 117]], wc_nonce = identifier_text 11\<rparr>"

definition sample_jwt :: "byte list jwt_library" where
  "sample_jwt = \<lparr>jwt_header = \<lambda>ticket. Some \<lparr>jh_is_eddsa = True, jh_typ = Some [74, 87, 84], jh_kid = Some [107]\<rparr>,
     jwt_claims = \<lambda>ticket key issuer audience. if key = [120] then Some sample_claims else None\<rparr>"

definition sample_trust :: "byte list trust_snapshot" where
  "sample_trust = \<lparr>ts_keys = [([107], [120])], ts_revoked_ticket_ids = [2], ts_fresh_until_unix_seconds = 2000\<rparr>"

definition sample_verifier :: ticket_verifier where
  "sample_verifier = \<lparr>tv_issuer = [99], tv_audience = [103], tv_current_region = [101, 117]\<rparr>"

definition sample_ticket :: verified_ticket where
  "sample_ticket = \<lparr>vt_ticket_id = 1, vt_device_id = 7, vt_organization_id = 9, vt_session_id = 5,
     vt_expires_at_unix_seconds = 1600, vt_policy_version = 1\<rparr>"

lemmas text_defs = valid_text_def is_ascii_def is_alphanumeric_def is_digit_def is_lowercase_def is_base64url_def
  max_key_id_len_def max_region_len_def

lemma sample_trust_new:
  "trust_snapshot_new Some [\<lparr>ck_key_id = [107], ck_public_key_x = [120]\<rparr>] [2] 2000 = Inr sample_trust"
  by (simp add: trust_snapshot_new_def max_trust_keys_def max_revoked_tickets_def sample_trust_def)

lemma parse_identifier_text [simp]: "parse_identifier (identifier_text w) = Some w"
  by (simp add: parse_identifier_iff)

lemma sample_key: "ticket_key sample_jwt sample_trust [97, 46, 98, 46, 99] = Inr [120]"
  by (simp add: ticket_key_def validate_compact_bounds_def max_compact_ticket_len_def Let_def max_header_segment_len_def
    max_claims_segment_len_def max_signature_segment_len_def text_defs sample_jwt_def sample_trust_def ok_or_def valid_key_id_def)

lemma sample_verified:
  "ticket_verify sample_jwt sample_verifier [97, 46, 98, 46, 99] (Some sample_trust) 1100 7 7 = Inr sample_ticket"
proof -
  have "jwt_claims sample_jwt [97, 46, 98, 46, 99] [120] (tv_issuer sample_verifier) (tv_audience sample_verifier) = Some sample_claims"
    by (simp add: sample_jwt_def)
  moreover have "\<not> claims_rejected sample_verifier sample_claims 7 1100 7"
    by (simp add: claims_rejected_def sample_claims_def sample_verifier_def max_ticket_lifetime_seconds_def max_allowed_regions_def
      valid_region_def text_defs)
  ultimately show ?thesis
    by (simp add: ticket_verify_def sample_key controller_trust_availability_def snapshot_availability_def ok_or_def
      is_revoked_def sample_ticket_def) (simp add: sample_claims_def sample_trust_def is_revoked_def)
qed

lemma verified_ticket_certified_witness:
  "ticket_verify sample_jwt sample_verifier [97, 46, 98, 46, 99] (Some sample_trust) 1100 7 7 = Inr sample_ticket
    \<and> vt_ticket_id sample_ticket \<notin> {2}"
  using verified_ticket_certified [OF sample_trust_new sample_verified] sample_verified by simp

end
