(* ===== verification/ReplayProps.thy ===== *)
theory ReplayProps
  imports Replay Machine
begin

text \<open>
  What the redemption journal guarantees: what is written is read back, under its own gateway
  name only, and a ticket is redeemed at most once while it is retained, across restarts and
  failed writes; and one defect, the nil identifier.
\<close>

section \<open>Reading what was written\<close>

lemma bt_insert_last: "\<forall>k' \<in> keys m. k' < k \<Longrightarrow> bt_insert k v m = m @ [(k, v)]"
  by (induction k v m rule: bt_insert.induct) auto

lemma utf8_ascii: "is_ascii v \<Longrightarrow> utf8_valid v"
  by (induction v) (simp_all add: is_ascii_def utf8_valid.simps)

definition redemption_record :: "ticket_id \<times> u64 \<Rightarrow> byte list" where
  "redemption_record e = to_be (fst e) @ to_be (sat_sub (snd e) replay_expiry_skew_seconds)"

definition kept :: "redemptions \<Rightarrow> bool" where
  "kept entries \<longleftrightarrow> (\<forall>e \<in> set entries. replay_expiry_skew_seconds < snd e)"

lemma length_record [simp]: "length (redemption_record e) = 24"
  by (simp add: redemption_record_def)

lemma sat_sub_zero: "sat_sub r k = 0 \<longleftrightarrow> r \<le> (k::u64)"
  by (auto simp: sat_sub_def)

lemma redemption_bytes_iff:
  "redemption_bytes es = Inr bs \<longleftrightarrow> kept es \<and> bs = concat (map redemption_record es)"
proof (induction es arbitrary: bs)
  case (Cons e es)
  obtain t r where e: "e = (t, r)" by (cases e)
  show ?case using Cons.IH
    by (auto simp: e rbind_Inr kept_def redemption_record_def sat_sub_zero Let_def not_le)
qed (auto simp: kept_def)

lemma retained_back: "replay_expiry_skew_seconds < r \<Longrightarrow>
    sat_add (sat_sub r replay_expiry_skew_seconds) replay_expiry_skew_seconds = r"
  using unat_bound [of r]
  by (simp add: word_unat_eq_iff unat_sat_add unat_sat_sub word_less_nat_alt replay_expiry_skew_seconds_def)

lemma record_parts:
  "slice 0 16 (redemption_record (t, r)) = to_be t"
  "slice 16 24 (redemption_record (t, r)) = to_be (sat_sub r replay_expiry_skew_seconds)"
  by (simp_all add: redemption_record_def slice_def)

lemma read_written:
  assumes "kept es" and "bt_ok es" and "keys es \<inter> set seen = {}" and "\<forall>k \<in> keys m. \<forall>k' \<in> keys es. k < k'"
  shows "read_redemptions now (map redemption_record es) seen m =
    (if 0 \<in> keys es then Inl RjCorrupt else Inr (m @ filter (\<lambda>e. now < snd e) es))"
  using assms
proof (induction es arbitrary: seen m)
  case (Cons e es)
  obtain t r where e: "e = (t, r)" by (cases e)
  have r: "replay_expiry_skew_seconds < r" and rest: "kept es" "bt_ok es" and above: "\<forall>k \<in> keys es. t < k"
    using Cons.prems by (auto simp: e kept_def bt_ok_Cons)
  have nz: "sat_sub r replay_expiry_skew_seconds \<noteq> 0" using r by (auto simp: sat_sub_zero not_le)
  have new: "t \<notin> set seen" and seen: "keys es \<inter> set (t # seen) = {}" using Cons.prems(3) above by (auto simp: e)
  have ins: "bt_insert t r m = m @ [(t, r)]" by (rule bt_insert_last) (use Cons.prems(4) in \<open>simp add: e\<close>)
  have order: "\<forall>k \<in> keys (m @ [(t, r)]). \<forall>k' \<in> keys es. k < k'" "\<forall>k \<in> keys m. \<forall>k' \<in> keys es. k < k'"
    using Cons.prems(4) above by (auto simp: e)
  show ?case
  proof (cases "t = 0")
    case True
    then show ?thesis by (simp add: e record_parts)
  next
    case False
    have step: "read_redemptions now (map redemption_record (e # es)) seen m =
        read_redemptions now (map redemption_record es) (t # seen) (if now < r then m @ [(t, r)] else m)"
      using False nz new by (simp add: e record_parts Let_def retained_back [OF r] ins)
    show ?thesis
      unfolding step using Cons.IH [OF rest seen order(1)] Cons.IH [OF rest seen order(2)] False by (simp add: e)
  qed
qed simp

lemma chunks_records: "chunks_exact 24 (concat (map redemption_record es)) = map redemption_record es"
proof (induction es)
  case Nil
  show ?case by (simp add: chunks_exact.simps)
next
  case (Cons e es)
  then show ?case by (simp add: chunks_exact.simps [of 24 "redemption_record e @ _"])
qed

lemma length_records: "length (concat (map redemption_record es)) = 24 * length es"
  by (induction es) simp_all

lemma journal_bytes_Inr:
  "replay_journal_bytes name es = Inr bytes \<Longrightarrow> name \<noteq> [] \<and> length name \<le> 253 \<and> is_ascii name \<and> kept es
    \<and> length es \<le> 65536 \<and> length bytes \<le> max_replay_journal_bytes
    \<and> bytes = [83, 71, 84, 82, 1, 0, of_nat (length name), 0] @ name @ concat (map redemption_record es)"
  by (auto simp: replay_journal_bytes_def rbind_Inr validate_journal_gateway_name_def redemption_bytes_iff Let_def
    replay_journal_magic_def replay_journal_version_def replay_scope_single_def max_journal_gateway_name_len_def
    max_replay_entries_hard_cap_def split: if_split_asm)

lemma parse_written:
  assumes bytes: "replay_journal_bytes name es = Inr bytes" and es: "bt_ok es"
  shows "parse_replay_journal bytes other now =
    (if other \<noteq> name \<or> 0 \<in> keys es then Inl RjCorrupt else Inr (filter (\<lambda>e. now < snd e) es))"
proof -
  note b = journal_bytes_Inr [OF bytes]
  let ?h = "[83, 71, 84, 82, 1, 0, of_nat (length name), 0] :: byte list"
  let ?r = "concat (map redemption_record es)"
  have eq: "bytes = ?h @ name @ ?r" using b by blast
  have n: "unat (of_nat (length name) :: byte) = length name" using b by (simp add: unat_of_nat)
  have "drop (length xs) (xs @ ys) = ys" for xs ys :: "byte list" by simp
  moreover have "length (?h @ name) = 8 + length name" by simp
  ultimately have rest: "drop (8 + length name) bytes = ?r" unfolding eq by (metis append_assoc)
  have parts: "slice 0 4 bytes = replay_journal_magic" "bytes ! 4 = replay_journal_version" "bytes ! 5 = replay_scope_single"
    "bytes ! 6 = of_nat (length name)" "bytes ! 7 = 0" "slice 8 (8 + length name) bytes = name"
    "8 + length name \<le> length bytes"
    unfolding eq by (simp_all add: slice_def replay_journal_magic_def replay_journal_version_def replay_scope_single_def)
  have cap: "length bytes \<le> max_replay_journal_bytes" "length es \<le> 65536" "name \<noteq> []" "length name \<le> 253"
    "is_ascii name" "kept es" using b by blast+
  have "parse_replay_journal bytes other now = (if other \<noteq> name then Inl RjCorrupt
      else read_redemptions now (chunks_exact 24 ?r) [] [])"
    unfolding parse_replay_journal_def Let_def parts(1-5) n parts(6) rest
    using cap parts(7) utf8_ascii [OF cap(5)]
    by (auto simp: not_less max_journal_gateway_name_len_def replay_record_len_def max_replay_entries_hard_cap_def length_records)
  then show ?thesis unfolding chunks_records using read_written [OF cap(6) es, of "[]" "[]" now] by simp
qed

text \<open>The gateway \<open>gw\<close>, for the examples.\<close>

lemma gw_rewrite:
  assumes "kept es" and "length es \<le> 10"
  shows "\<exists>bytes. replay_journal_bytes [103, 119] es = Inr bytes \<and> rewrite_replay_journal file [103, 119] es Written = (Bytes bytes, Inr ())"
proof -
  have "redemption_bytes es = Inr (concat (map redemption_record es))" using assms by (simp add: redemption_bytes_iff)
  then have "\<exists>bytes. replay_journal_bytes [103, 119] es = Inr bytes"
    using assms(2) by (simp add: replay_journal_bytes_def validate_journal_gateway_name_def is_ascii_def length_records
      max_journal_gateway_name_len_def max_replay_entries_hard_cap_def max_replay_journal_bytes_def replay_record_len_def
      replay_journal_magic_def ensure_def Let_def)
  then show ?thesis by (auto simp: rewrite_replay_journal_def)
qed

text \<open>C37. The redemption journal is read back as it was written, less the expired entries, and
  only by its own gateway: any other gateway name, and the nil ticket identifier, makes the file
  corrupt.\<close>

theorem replay_journal_exact:
  assumes "replay_journal_bytes name entries = Inr bytes" and "bt_ok entries"
  shows "(case read_replay_journal MetaValid (Bytes bytes) other now of
      Inr loaded \<Rightarrow> other = name \<and> 0 \<notin> keys entries \<and> loaded = filter (\<lambda>e. now < snd e) entries
    | Inl e \<Rightarrow> other \<noteq> name \<or> 0 \<in> keys entries)"
proof (cases "validate_journal_gateway_name other")
  case (Inl e)
  moreover have "validate_journal_gateway_name name = Inr ()"
    using assms(1) by (auto simp: replay_journal_bytes_def rbind_Inr)
  ultimately show ?thesis by (auto simp: read_replay_journal_def)
next
  case (Inr u)
  then show ?thesis using parse_written [OF assms] by (simp add: read_replay_journal_def)
qed

lemma replay_journal_exact_witness:
  "(case read_replay_journal MetaValid (Bytes (projr (replay_journal_bytes [103, 119] [(7, 130), (9, 150)]))) [103, 119] 140 of
      Inr loaded \<Rightarrow> loaded = [(9, 150)] | Inl e \<Rightarrow> False)"
proof -
  have "kept [(7, 130), (9, 150)]" by (simp add: kept_def replay_expiry_skew_seconds_def)
  from gw_rewrite [OF this, of Missing] have "replay_journal_bytes [103, 119] [(7, 130), (9, 150)]
      = Inr (projr (replay_journal_bytes [103, 119] [(7, 130), (9, 150)]))"
    by auto
  from replay_journal_exact [OF this, of "[103, 119]" 140] show ?thesis by (auto simp: bt_ok_def split: sum.splits)
qed

section \<open>Redemption at most once\<close>

definition replay_ok :: "byte list \<Rightarrow> replay_system \<Rightarrow> bool" where
  "replay_ok name s \<longleftrightarrow> (\<forall>c. rs_cache s = Some c \<longrightarrow> bt_ok (rc_entries c) \<and> rc_gateway c = Some name)"

lemma read_redemptions_ok: "read_redemptions now chunks seen m = Inr m' \<Longrightarrow> bt_ok m \<Longrightarrow> bt_ok m'"
  by (induction now chunks seen m rule: read_redemptions.induct) (auto simp: Let_def bt.ok_ins split: if_split_asm)

lemma read_replay_journal_ok:
  assumes "read_replay_journal meta file name now = Inr loaded"
  shows "bt_ok loaded"
proof -
  have "bt_ok m" if "parse_replay_journal bytes name now = Inr m" for bytes m
    using that read_redemptions_ok bt.ok_Nil by (auto simp: parse_replay_journal_def Let_def split: if_split_asm)
  with assms show ?thesis
    by (auto simp: read_replay_journal_def rbind_Inr bt.ok_Nil split: file_meta.splits file_content.splits)
qed

lemma rewrite_cases:
  assumes "rewrite_replay_journal file name entries w = (file', r)"
  obtains "file' = file" and "r \<noteq> Inr ()"
  | bytes where "replay_journal_bytes name entries = Inr bytes" and "file' = Bytes bytes"
  using assms by (cases w) (auto simp: rewrite_replay_journal_def split: sum.splits)

lemma rewrite_ok:
  "rewrite_replay_journal file name entries w = (file', Inr u) \<Longrightarrow>
    \<exists>bytes. replay_journal_bytes name entries = Inr bytes \<and> file' = Bytes bytes"
  by (cases w) (auto simp: rewrite_replay_journal_def split: sum.splits)

text \<open>What a consume does to a durable cache.\<close>

lemma consume_cases:
  assumes "replay_consume file c tid expiry now w = (file', c', r)" and "rc_gateway c = Some name"
  defines "live \<equiv> kt_retain (\<lambda>retained. now < retained) (rc_entries c)"
  obtains (kept) "file' = file" and "rc_entries c' = live" and "r \<noteq> Inr ()" and "rc_gateway c' = Some name"
  | (failed) "tid \<notin> keys live" and "r = Inl RcUnavailable" and "rc_gateway c' = Some name"
    and "rc_entries c' = kt_remove tid (bt_insert tid (sat_add expiry replay_expiry_skew_seconds) live)"
    and "file' = file \<or> (\<exists>bytes. file' = Bytes bytes \<and>
      replay_journal_bytes name (bt_insert tid (sat_add expiry replay_expiry_skew_seconds) live) = Inr bytes)"
  | (redeemed) bytes where "tid \<notin> keys live" and "r = Inr ()" and "rc_gateway c' = Some name"
    and "rc_entries c' = bt_insert tid (sat_add expiry replay_expiry_skew_seconds) live"
    and "file' = Bytes bytes" and "replay_journal_bytes name (rc_entries c') = Inr bytes"
proof -
  let ?snapshot = "bt_insert tid (sat_add expiry replay_expiry_skew_seconds) live"
  obtain file'' r'' where w: "rewrite_replay_journal file name ?snapshot w = (file'', r'')" by fastforce
  consider "tid \<in> keys live \<or> rc_capacity c \<le> length live" | "tid \<notin> keys live" "\<not> rc_capacity c \<le> length live" by blast
  then show ?thesis
  proof cases
    case 1
    with assms(1,2) kept show ?thesis by (auto simp: replay_consume_def Let_def live_def [symmetric] split: if_split_asm)
  next
    case 2
    show ?thesis
    proof (cases r'')
      case (Inl e)
      from w have "file'' = file \<or> (\<exists>bytes. file'' = Bytes bytes \<and> replay_journal_bytes name ?snapshot = Inr bytes)"
        by (cases rule: rewrite_cases) auto
      with 2 Inl w assms(1,2) failed show ?thesis by (auto simp: replay_consume_def Let_def live_def [symmetric])
    next
      case (Inr u)
      with rewrite_ok w obtain bytes where "replay_journal_bytes name ?snapshot = Inr bytes" "file'' = Bytes bytes" by blast
      with 2 Inr w assms(1,2) redeemed show ?thesis by (auto simp: replay_consume_def Let_def live_def [symmetric])
    qed
  qed
qed

lemma open_cases:
  assumes "replay_open_durable meta file name capacity now w = (file', r)"
  obtains (failed) e where "r = Inl e" and "file' = file \<or> (\<exists>loaded bytes. read_replay_journal meta file name now = Inr loaded
      \<and> replay_journal_bytes name loaded = Inr bytes \<and> file' = Bytes bytes)"
  | (opened) c bytes where "r = Inr c" and "read_replay_journal meta file name now = Inr (rc_entries c)"
    and "rc_gateway c = Some name" and "replay_journal_bytes name (rc_entries c) = Inr bytes" and "file' = Bytes bytes"
proof -
  consider e where "r = Inl e" "file' = file"
    | loaded where "read_replay_journal meta file name now = Inr loaded"
      "(case rewrite_replay_journal file name loaded w of (f, Inl _) \<Rightarrow> (f, Inl AdReplayStore)
        | (f, Inr _) \<Rightarrow> (f, Inr \<lparr>rc_capacity = capacity, rc_entries = loaded, rc_replay_rejected = 0,
                 rc_capacity_rejected = 0, rc_expired = 0, rc_gateway = Some name\<rparr>)) = (file', r)"
    using assms by (auto simp: replay_open_durable_def split: sum.splits if_split_asm)
  then show ?thesis
  proof cases
    case (2 loaded)
    obtain f x where w: "rewrite_replay_journal file name loaded w = (f, x)" by fastforce
    show ?thesis
    proof (cases x)
      case (Inl e)
      from w have "f = file \<or> (\<exists>bytes. replay_journal_bytes name loaded = Inr bytes \<and> f = Bytes bytes)"
        by (cases rule: rewrite_cases) auto
      with 2 w Inl failed show ?thesis by auto
    next
      case (Inr u)
      with rewrite_ok w obtain bytes where "replay_journal_bytes name loaded = Inr bytes" "f = Bytes bytes" by blast
      with 2 w Inr show ?thesis
        by (intro opened [of "\<lparr>rc_capacity = capacity, rc_entries = loaded, rc_replay_rejected = 0,
          rc_capacity_rejected = 0, rc_expired = 0, rc_gateway = Some name\<rparr>" bytes]) auto
    qed
  qed (use failed in auto)
qed

interpretation replay: keeps_invariant "replay_exec name" "replay_ok name" for name
proof
  fix s e t out
  assume ok: "replay_ok name s" and step: "replay_exec name s e = (t, out)"
  show "replay_ok name t"
  proof (cases e)
    case (RpConsume tid expiry now w)
    show ?thesis
    proof (cases "rs_cache s")
      case (Some c)
      then have c: "bt_ok (rc_entries c)" "rc_gateway c = Some name" using ok by (auto simp: replay_ok_def)
      obtain file' c' r where k: "replay_consume (rs_file s) c tid expiry now w = (file', c', r)" by (metis prod_cases3)
      have "bt_ok (kt_retain (\<lambda>retained. now < retained) (rc_entries c))" by (rule bt.ok_retain [OF c(1)])
      then have "bt_ok (rc_entries c') \<and> rc_gateway c' = Some name"
        by (cases rule: consume_cases [OF k c(2)]) (auto simp: bt.ok_ins bt.ok_remove)
      with Some k step RpConsume show ?thesis by (auto simp: replay_ok_def)
    qed (use step RpConsume ok in auto)
  next
    case (RpRestart capacity now fault w)
    obtain file' r where o: "replay_open_durable (faulty_meta fault (rs_file s)) (rs_file s) name capacity now w = (file', r)"
      by fastforce
    from o show ?thesis
      by (cases rule: open_cases) (use o step RpRestart read_replay_journal_ok in \<open>auto simp: replay_ok_def\<close>)
  qed
qed

fun replay_time :: "replay_event \<Rightarrow> u64" where
  "replay_time (RpConsume tid expiry now w) = now"
| "replay_time (RpRestart capacity now fault w) = now"

text \<open>Both the cache, when there is one, and the file hold the redemption of \<open>tid\<close> until \<open>r\<close>.\<close>

definition retains :: "byte list \<Rightarrow> ticket_id \<Rightarrow> u64 \<Rightarrow> replay_system \<Rightarrow> bool" where
  "retains name tid r s \<longleftrightarrow> replay_ok name s
     \<and> (\<exists>es bytes. rs_file s = Bytes bytes \<and> replay_journal_bytes name es = Inr bytes \<and> bt_ok es \<and> map_of es tid = Some r)
     \<and> (\<forall>c. rs_cache s = Some c \<longrightarrow> map_of (rc_entries c) tid = Some r)"

lemma retains_read:
  assumes "replay_journal_bytes name es = Inr bytes" and es: "bt_ok es" and tid: "map_of es tid = Some r" and now: "now < r"
    and read: "read_replay_journal (faulty_meta fault (Bytes bytes)) (Bytes bytes) name now = Inr loaded"
  shows "map_of loaded tid = Some r"
proof -
  have "faulty_meta fault (Bytes bytes) = MetaValid"
    using read by (cases fault; cases "the fault") (auto simp: read_replay_journal_def rbind_Inr)
  then have "loaded = kt_retain (\<lambda>retained. now < retained) es"
    using read parse_written [OF assms(1) es, of name now]
    by (auto simp: read_replay_journal_def rbind_Inr kt_retain_def split: if_split_asm)
  then show ?thesis using tid now by (simp add: map_of_retain [OF bt_ok_distinct [OF es]])
qed

lemma retains_consume:
  assumes r: "retains name tid r s" and now: "now < r"
    and step: "replay_exec name s (RpConsume other expiry now w) = (t, out)"
  shows "retains name tid r t \<and> (out = Consumed (Inr ()) \<longrightarrow> other \<noteq> tid)"
proof (cases "rs_cache s")
  case None
  then show ?thesis using r step by auto
next
  case (Some c)
  let ?live = "kt_retain (\<lambda>retained. now < retained) (rc_entries c)"
  let ?snapshot = "bt_insert other (sat_add expiry replay_expiry_skew_seconds) ?live"
  from r Some have c: "bt_ok (rc_entries c)" "rc_gateway c = Some name" "map_of (rc_entries c) tid = Some r"
    by (auto simp: retains_def replay_ok_def)
  obtain file' c' x where k: "replay_consume (rs_file s) c other expiry now w = (file', c', x)" by (metis prod_cases3)
  with Some step have t: "t = \<lparr>rs_file = file', rs_cache = Some c'\<rparr>" "out = Consumed x" by auto
  have ok: "replay_ok name t" using replay.inv_exec [OF _ step] r by (simp add: retains_def)
  have live: "bt_ok ?live" "map_of ?live tid = Some r"
    using c now bt.ok_retain [OF c(1)] by (simp_all add: map_of_retain [OF bt_ok_distinct [OF c(1)]])
  have snap: "bt_ok ?snapshot" "other \<noteq> tid \<Longrightarrow> map_of ?snapshot tid = Some r"
    "other \<noteq> tid \<Longrightarrow> map_of (kt_remove other ?snapshot) tid = Some r"
    using live by (simp_all add: bt.ok_ins map_of_bt_insert map_of_remove)
  have new: "other \<noteq> tid" if "other \<notin> keys ?live" using that live(2) by (metis map_of_eq_None_iff option.distinct(1))
  show ?thesis
  proof (rule consume_cases [OF k c(2)], goal_cases)
    case 1
    then show ?thesis using ok r live(2) by (auto simp: retains_def t)
  next
    case 2
    then show ?thesis using ok r snap new [OF 2(1)] by (auto simp: retains_def t)
  next
    case (3 bytes)
    then show ?thesis using ok snap new [OF 3(1)] by (auto simp: retains_def t)
  qed
qed

lemma retains_restart:
  assumes r: "retains name tid r s" and now: "now < r"
    and step: "replay_exec name s (RpRestart capacity now fault w) = (t, out)"
  shows "retains name tid r t"
proof -
  from r obtain es bytes where f: "rs_file s = Bytes bytes" "replay_journal_bytes name es = Inr bytes" "bt_ok es"
    "map_of es tid = Some r" by (auto simp: retains_def)
  obtain file' x where o: "replay_open_durable (faulty_meta fault (Bytes bytes)) (Bytes bytes) name capacity now w = (file', x)"
    by fastforce
  have t: "t = \<lparr>rs_file = file', rs_cache = (case x of Inl _ \<Rightarrow> None | Inr c \<Rightarrow> Some c)\<rparr>"
    using step o f(1) by (auto split: sum.splits)
  have ok: "replay_ok name t" using replay.inv_exec [OF _ step] r by (simp add: retains_def)
  have loaded: "bt_ok loaded \<and> map_of loaded tid = Some r"
    if "read_replay_journal (faulty_meta fault (Bytes bytes)) (Bytes bytes) name now = Inr loaded" for loaded
    using retains_read [OF f(2-4) now that] read_replay_journal_ok [OF that] by simp
  from o show ?thesis
  proof (cases rule: open_cases)
    case (failed e)
    then show ?thesis using ok f loaded by (auto simp: retains_def t)
  next
    case (opened c bytes')
    then show ?thesis using ok loaded [OF opened(2)] by (auto simp: retains_def t)
  qed
qed

lemma retains_trace:
  "trace (replay_exec name) s tr u \<Longrightarrow> retains name tid r s \<Longrightarrow> \<forall>x \<in> set tr. replay_time (fst x) < r \<Longrightarrow>
    retains name tid r u"
proof (induction rule: trace.induct)
  case (go s e t out tr u)
  have "retains name tid r t"
    using go.hyps(1) go.prems by (cases e) (auto dest: retains_consume retains_restart)
  with go show ?case by simp
qed simp

lemma consumed_retains:
  assumes "replay_ok name s" and step: "replay_exec name s (RpConsume tid expiry now w) = (t, Consumed (Inr ()))"
  shows "retains name tid (sat_add expiry replay_expiry_skew_seconds) t"
proof -
  obtain c where Some: "rs_cache s = Some c" using step by (cases "rs_cache s") auto
  with assms(1) have c: "bt_ok (rc_entries c)" "rc_gateway c = Some name" by (auto simp: replay_ok_def)
  obtain file' c' x where k: "replay_consume (rs_file s) c tid expiry now w = (file', c', x)" by (metis prod_cases3)
  with Some step have t: "t = \<lparr>rs_file = file', rs_cache = Some c'\<rparr>" "x = Inr ()" by auto
  have ok: "replay_ok name t" using replay.inv_exec [OF assms] .
  have live: "bt_ok (kt_retain (\<lambda>retained. now < retained) (rc_entries c))" by (rule bt.ok_retain [OF c(1)])
  show ?thesis
    by (cases rule: consume_cases [OF k c(2)]) (use ok t live in \<open>auto simp: retains_def bt.ok_ins map_of_bt_insert\<close>)
qed

text \<open>C5. A ticket is redeemed at most once while it is retained: between two redemptions of the
  same ticket, whatever restarts and failed writes lie between them, the clock has reached the
  expiry of the first one and the skew.\<close>

theorem redeemed_once:
  assumes "trace (replay_exec name) s
      (before @ [(RpConsume tid expiry now w, Consumed (Inr ()))] @ between @ [(RpConsume tid expiry' now' w', Consumed (Inr ()))]) u"
    and "rs_cache s = None"
  shows "\<exists>t \<in> insert now' (replay_time ` fst ` set between). sat_add expiry replay_expiry_skew_seconds \<le> t"
proof (rule ccontr)
  let ?r = "sat_add expiry replay_expiry_skew_seconds"
  assume "\<not> ?thesis"
  then have now': "now' < ?r" and early: "\<forall>x \<in> set between. replay_time (fst x) < ?r" by (auto simp: not_le)
  from assms(1) obtain s1 s2 s3 where b: "trace (replay_exec name) s before s1"
    and c: "replay_exec name s1 (RpConsume tid expiry now w) = (s2, Consumed (Inr ()))"
    and m: "trace (replay_exec name) s2 between s3"
    and d: "replay_exec name s3 (RpConsume tid expiry' now' w') = (u, Consumed (Inr ()))"
    by (auto simp: trace_append trace_Cons)
  have "replay_ok name s1" using replay.inv_trace [OF b] assms(2) by (simp add: replay_ok_def)
  from retains_trace [OF m consumed_retains [OF this c] early] have "retains name tid ?r s3" .
  from retains_consume [OF this now' d] show False by simp
qed

lemma gw_restart:
  assumes holds: "disk = Missing \<and> es = [] \<or> (\<exists>old. replay_journal_bytes [103, 119] old = Inr bytes \<and> disk = Bytes bytes
      \<and> bt_ok old \<and> 0 \<notin> keys old \<and> es = kt_retain (\<lambda>retained. now < retained) old)"
    and es: "length es \<le> 4"
  obtains c bytes' where "replay_exec [103, 119] \<lparr>rs_file = disk, rs_cache = cache\<rparr> (RpRestart 4 now None Written)
      = (\<lparr>rs_file = Bytes bytes', rs_cache = Some c\<rparr>, Restarted None)"
    and "rc_entries c = es" and "rc_capacity c = 4" and "rc_gateway c = Some [103, 119]"
proof -
  from holds have "kept es"
  proof
    assume "\<exists>old. replay_journal_bytes [103, 119] old = Inr bytes \<and> disk = Bytes bytes
      \<and> bt_ok old \<and> 0 \<notin> keys old \<and> es = kt_retain (\<lambda>retained. now < retained) old"
    then obtain old where old: "replay_journal_bytes [103, 119] old = Inr bytes" "es = kt_retain (\<lambda>retained. now < retained) old"
      by blast
    from journal_bytes_Inr [OF old(1)] have "kept old" by blast
    then show ?thesis by (simp add: old(2) kept_def set_kt_retain)
  qed (simp add: kept_def)
  moreover have "length es \<le> 10" using es by simp
  ultimately obtain bytes' where w: "rewrite_replay_journal disk [103, 119] es Written = (Bytes bytes', Inr ())"
    using gw_rewrite [of es disk] by blast
  have name: "validate_journal_gateway_name [103, 119] = Inr ()"
    by (simp add: validate_journal_gateway_name_def is_ascii_def max_journal_gateway_name_len_def)
  have "read_replay_journal (faulty_meta None disk) disk [103, 119] now = Inr es"
    using holds parse_written [of "[103, 119]" _ bytes "[103, 119]" now] name
    by (auto simp: read_replay_journal_def kt_retain_def)
  with w es show ?thesis
    by (intro that [of bytes' "\<lparr>rc_capacity = 4, rc_entries = es, rc_replay_rejected = 0, rc_capacity_rejected = 0,
      rc_expired = 0, rc_gateway = Some [103, 119]\<rparr>"])
      (simp_all add: replay_open_durable_def max_replay_entries_hard_cap_def)
qed

lemma gw_consume:
  assumes c: "rc_capacity c = 4" "rc_gateway c = Some [103, 119]"
    and live: "kt_retain (\<lambda>retained. now < retained) (rc_entries c) = []" and e: "sat_add expiry replay_expiry_skew_seconds = r"
    "replay_expiry_skew_seconds < r"
  obtains c' bytes where "replay_exec [103, 119] \<lparr>rs_file = disk, rs_cache = Some c\<rparr> (RpConsume tid expiry now Written)
      = (\<lparr>rs_file = Bytes bytes, rs_cache = Some c'\<rparr>, Consumed (Inr ()))"
    and "rc_entries c' = [(tid, r)]" and "rc_capacity c' = 4" and "rc_gateway c' = Some [103, 119]"
    and "replay_journal_bytes [103, 119] [(tid, r)] = Inr bytes"
proof -
  have "kept [(tid, r)]" using e by (simp add: kept_def)
  from gw_rewrite [OF this, of disk] obtain bytes where "replay_journal_bytes [103, 119] [(tid, r)] = Inr bytes"
    "rewrite_replay_journal disk [103, 119] [(tid, r)] Written = (Bytes bytes, Inr ())" by auto
  with c live e(1) show ?thesis
    by (intro that [of bytes "c\<lparr>rc_entries := [(tid, r)], rc_expired := rc_expired c + of_nat (length (rc_entries c))\<rparr>"])
      (simp_all add: replay_consume_def Let_def)
qed

lemma redeemed_once_witness:
  "\<exists>u. trace (replay_exec [103, 119]) \<lparr>rs_file = Missing, rs_cache = None\<rparr>
      ([(RpRestart 4 0 None Written, Restarted None)] @ [(RpConsume 7 100 50 Written, Consumed (Inr ()))]
        @ [(RpRestart 4 70 None Written, Restarted None)] @ [(RpConsume 7 200 130 Written, Consumed (Inr ()))]) u
    \<and> (\<exists>t \<in> {130, 70}. sat_add 100 replay_expiry_skew_seconds \<le> t)"
proof -
  have r: "sat_add 100 replay_expiry_skew_seconds = 130" "sat_add 200 replay_expiry_skew_seconds = 230"
    "replay_expiry_skew_seconds < 130" "replay_expiry_skew_seconds < 230"
    by (simp_all add: sat_add_def replay_expiry_skew_seconds_def)
  obtain c0 b0 where 0: "replay_exec [103, 119] \<lparr>rs_file = Missing, rs_cache = None\<rparr> (RpRestart 4 0 None Written)
      = (\<lparr>rs_file = Bytes b0, rs_cache = Some c0\<rparr>, Restarted None)" and c0: "rc_entries c0 = []" "rc_capacity c0 = 4"
    "rc_gateway c0 = Some [103, 119]" by (rule gw_restart [of Missing "[]" _ 0]) auto
  obtain c1 b1 where 1: "replay_exec [103, 119] \<lparr>rs_file = Bytes b0, rs_cache = Some c0\<rparr> (RpConsume 7 100 50 Written)
      = (\<lparr>rs_file = Bytes b1, rs_cache = Some c1\<rparr>, Consumed (Inr ()))" and b1: "replay_journal_bytes [103, 119] [(7, 130)] = Inr b1"
    by (rule gw_consume [OF c0(2,3) _ r(1,3), of 50]) (auto simp: c0 kt_retain_def)
  obtain c2 b2 where 2: "replay_exec [103, 119] \<lparr>rs_file = Bytes b1, rs_cache = Some c1\<rparr> (RpRestart 4 70 None Written)
      = (\<lparr>rs_file = Bytes b2, rs_cache = Some c2\<rparr>, Restarted None)" and c2: "rc_entries c2 = [(7, 130)]" "rc_capacity c2 = 4"
    "rc_gateway c2 = Some [103, 119]"
    by (rule gw_restart [of "Bytes b1" "[(7, 130)]" b1 70]) (use b1 in \<open>auto simp: kt_retain_def bt_ok_def\<close>)
  obtain c3 b3 where 3: "replay_exec [103, 119] \<lparr>rs_file = Bytes b2, rs_cache = Some c2\<rparr> (RpConsume 7 200 130 Written)
      = (\<lparr>rs_file = Bytes b3, rs_cache = Some c3\<rparr>, Consumed (Inr ()))"
    by (rule gw_consume [OF c2(2,3) _ r(2,4), of 130]) (auto simp: c2 kt_retain_def)
  have run: "trace (replay_exec [103, 119]) \<lparr>rs_file = Missing, rs_cache = None\<rparr>
      ([(RpRestart 4 0 None Written, Restarted None)] @ [(RpConsume 7 100 50 Written, Consumed (Inr ()))]
        @ [(RpRestart 4 70 None Written, Restarted None)] @ [(RpConsume 7 200 130 Written, Consumed (Inr ()))])
      \<lparr>rs_file = Bytes b3, rs_cache = Some c3\<rparr>"
    by (simp add: trace_Cons 0 1 2 3 del: replay_exec.simps)
  from redeemed_once [OF run] have "\<exists>t \<in> {130, 70}. sat_add 100 replay_expiry_skew_seconds \<le> t" by simp
  with run show ?thesis by blast
qed

text \<open>The journal holds a redemption of the nil identifier: no start reads it.\<close>

definition jammed :: "byte list \<Rightarrow> replay_system \<Rightarrow> bool" where
  "jammed name s \<longleftrightarrow> (\<exists>es bytes. rs_file s = Bytes bytes \<and> replay_journal_bytes name es = Inr bytes \<and> bt_ok es \<and> 0 \<in> keys es)"

lemma retains_jammed: "retains name 0 r s \<Longrightarrow> jammed name s"
  unfolding retains_def jammed_def by (metis map_of_eq_None_iff option.distinct(1))

lemma jammed_restart:
  assumes "jammed name s"
  shows "\<exists>err. replay_exec name s (RpRestart capacity now fault w) = (s\<lparr>rs_cache := None\<rparr>, Restarted (Some err))"
proof -
  obtain es bytes where f: "rs_file s = Bytes bytes" and b: "replay_journal_bytes name es = Inr bytes" "bt_ok es" "0 \<in> keys es"
    using assms by (auto simp: jammed_def)
  have "\<exists>e. read_replay_journal (faulty_meta fault (Bytes bytes)) (Bytes bytes) name now = Inl e"
    using parse_written [OF b(1,2), of name now] b(3)
    by (cases fault; cases "the fault"; cases "validate_journal_gateway_name name") (auto simp: read_replay_journal_def)
  then show ?thesis using f by (cases s) (auto simp: replay_open_durable_def)
qed

lemma jammed_served:
  "trace (replay_exec name) s tr u \<Longrightarrow> retains name 0 r s \<Longrightarrow> \<forall>x \<in> set tr. replay_time (fst x) < r \<Longrightarrow>
    \<forall>x \<in> set tr. snd x \<noteq> Restarted None"
proof (induction rule: trace.induct)
  case (go s e t out tr u)
  have "retains name 0 r t"
    using go.hyps(1) go.prems by (cases e) (auto dest: retains_consume retains_restart)
  moreover have "out \<noteq> Restarted None"
  proof (cases e)
    case (RpRestart capacity now fault w)
    then show ?thesis using jammed_restart [OF retains_jammed [OF go.prems(1)], of capacity "now" fault w] go.hyps(1) by auto
  qed (use go.hyps(1) in \<open>auto split: option.splits prod.splits\<close>)
  ultimately show ?case using go.IH go.prems(2) by simp
qed simp

lemma jammed_down:
  "trace (replay_exec name) s tr u \<Longrightarrow> jammed name s \<Longrightarrow> rs_cache s = None \<Longrightarrow>
    (\<forall>x \<in> set tr. snd x \<noteq> Restarted None) \<and> jammed name u"
proof (induction rule: trace.induct)
  case (go s e t out tr u)
  have "jammed name t \<and> rs_cache t = None \<and> out \<noteq> Restarted None"
  proof (cases e)
    case (RpRestart capacity now fault w)
    then show ?thesis using jammed_restart [OF go.prems(1), of capacity "now" fault w] go.hyps(1) go.prems(1)
      by (auto simp: jammed_def)
  qed (use go.hyps(1) go.prems in auto)
  then show ?case using go.IH by simp
qed simp

text \<open>C38. A ticket with the nil identifier is redeemed like any other, and while its redemption is
  retained no start of the gateway succeeds, whatever else is redeemed, because the journal it
  wrote is corrupt to its own reader. A start attempted in that time leaves the gateway down for
  good: no later start succeeds at any time, since only a running gateway rewrites the journal.\<close>

theorem nil_ticket_blocks_restart:
  assumes "trace (replay_exec name) s
      (before @ [(RpConsume 0 expiry now w, Consumed (Inr ()))] @ served @ later) u"
    and "rs_cache s = None"
    and times: "\<forall>(e, out) \<in> set served. replay_time e < sat_add expiry replay_expiry_skew_seconds"
    and later: "later = [] \<or> (\<exists>capacity time fault w' out rest. later = (RpRestart capacity time fault w', out) # rest)"
  shows "(\<forall>(e, out) \<in> set (served @ later). out \<noteq> Restarted None) \<and>
    (\<forall>capacity time fault w'. \<exists>err. replay_exec name u (RpRestart capacity time fault w') =
       (u\<lparr>rs_cache := None\<rparr>, Restarted (Some err)))"
proof -
  from assms(1) obtain s1 s2 s3 where b: "trace (replay_exec name) s before s1"
    and c: "replay_exec name s1 (RpConsume 0 expiry now w) = (s2, Consumed (Inr ()))"
    and m: "trace (replay_exec name) s2 served s3" and l: "trace (replay_exec name) s3 later u"
    by (auto simp: trace_append trace_Cons)
  have "replay_ok name s1" using replay.inv_trace [OF b] assms(2) by (simp add: replay_ok_def)
  note kept = consumed_retains [OF this c]
  have early: "\<forall>x \<in> set served. replay_time (fst x) < sat_add expiry replay_expiry_skew_seconds" using times by auto
  have up: "\<forall>x \<in> set served. snd x \<noteq> Restarted None" by (rule jammed_served [OF m kept early])
  have jam: "jammed name s3" by (rule retains_jammed [OF retains_trace [OF m kept early]])
  have "(\<forall>x \<in> set later. snd x \<noteq> Restarted None) \<and> jammed name u"
    using later
  proof
    assume "\<exists>capacity time fault w' out rest. later = (RpRestart capacity time fault w', out) # rest"
    then obtain capacity time fault w' out rest where first: "later = (RpRestart capacity time fault w', out) # rest" by blast
    from jammed_restart [OF jam, of capacity time fault w'] l obtain err where
      "out = Restarted (Some err)" "trace (replay_exec name) (s3\<lparr>rs_cache := None\<rparr>) rest u"
      by (auto simp: first trace_Cons simp del: replay_exec.simps)
    with jammed_down [OF this(2)] jam show ?thesis by (auto simp: first jammed_def)
  qed (use l jam in simp)
  with up jammed_restart show ?thesis by fastforce
qed

lemma nil_ticket_blocks_restart_witness:
  "\<exists>u v err err'. trace (replay_exec [103, 119]) \<lparr>rs_file = Missing, rs_cache = None\<rparr>
      [(RpRestart 4 0 None Written, Restarted None), (RpConsume 0 100 50 Written, Consumed (Inr ())),
       (RpRestart 4 70 None Written, Restarted (Some err))] u
    \<and> replay_exec [103, 119] u (RpRestart 4 1000 None Written) = (v, Restarted (Some err'))"
proof -
  have r: "sat_add 100 replay_expiry_skew_seconds = 130" "replay_expiry_skew_seconds < 130"
    by (simp_all add: sat_add_def replay_expiry_skew_seconds_def)
  let ?s = "\<lparr>rs_file = Missing, rs_cache = None\<rparr>" and ?up = "[(RpRestart 4 0 None Written, Restarted None)]"
  obtain c0 b0 where 0: "replay_exec [103, 119] ?s (RpRestart 4 0 None Written)
      = (\<lparr>rs_file = Bytes b0, rs_cache = Some c0\<rparr>, Restarted None)" and c0: "rc_entries c0 = []" "rc_capacity c0 = 4"
    "rc_gateway c0 = Some [103, 119]" by (rule gw_restart [of Missing "[]" _ 0]) auto
  obtain c1 b1 where 1: "replay_exec [103, 119] \<lparr>rs_file = Bytes b0, rs_cache = Some c0\<rparr> (RpConsume 0 100 50 Written)
      = (\<lparr>rs_file = Bytes b1, rs_cache = Some c1\<rparr>, Consumed (Inr ()))"
    by (rule gw_consume [OF c0(2,3) _ r, of 50]) (auto simp: c0 kt_retain_def)
  let ?s1 = "\<lparr>rs_file = Bytes b1, rs_cache = Some c1\<rparr>"
  have "trace (replay_exec [103, 119]) ?s (?up @ [(RpConsume 0 100 50 Written, Consumed (Inr ()))] @ [] @ []) ?s1"
    by (simp add: trace_Cons 0 1 del: replay_exec.simps)
  from nil_ticket_blocks_restart [OF this]
  have "\<exists>err. replay_exec [103, 119] ?s1 (RpRestart 4 70 None Written) = (?s1\<lparr>rs_cache := None\<rparr>, Restarted (Some err))"
    by (simp del: replay_exec.simps)
  then obtain err where
    2: "replay_exec [103, 119] ?s1 (RpRestart 4 70 None Written) = (?s1\<lparr>rs_cache := None\<rparr>, Restarted (Some err))" by blast
  have run: "trace (replay_exec [103, 119]) ?s (?up @ [(RpConsume 0 100 50 Written, Consumed (Inr ()))] @ [] @
      [(RpRestart 4 70 None Written, Restarted (Some err))]) (?s1\<lparr>rs_cache := None\<rparr>)"
    by (simp add: trace_Cons 0 1 2 del: replay_exec.simps)
  have "\<exists>err'. replay_exec [103, 119] (?s1\<lparr>rs_cache := None\<rparr>) (RpRestart 4 1000 None Written)
      = (?s1\<lparr>rs_cache := None\<rparr>\<lparr>rs_cache := None\<rparr>, Restarted (Some err'))"
    using nil_ticket_blocks_restart [OF run] by (simp del: replay_exec.simps)
  with run show ?thesis by (auto simp del: replay_exec.simps)
qed

end
