(* ===== verification/AdmissionProps.thy ===== *)
theory AdmissionProps
  imports Admission TicketProps ReplayProps SessionsProps
begin

text \<open>
  The limiter counts exactly the permits that are held, every admission gives its permit back,
  and an admission that succeeds belongs to the device of the connection, by a ticket that was
  verified and redeemed for it.
\<close>

section \<open>Permits\<close>

definition in_flight :: "handshake_limiter \<Rightarrow> ip_addr \<Rightarrow> nat" where
  "in_flight l source = (case map_of (hl_sources l) source of None \<Rightarrow> 0 | Some entry \<Rightarrow> src_in_flight entry)"

definition limiter_ok :: "limiter_config \<Rightarrow> handshake_limiter \<times> ip_addr list \<Rightarrow> bool" where
  "limiter_ok config s \<longleftrightarrow> (case s of (l, permits) \<Rightarrow>
     hl_config l = config \<and> hm_ok (hl_sources l)
     \<and> hl_global_in_flight l = length permits \<and> length permits \<le> lm_maximum_global_in_flight config
     \<and> length (hl_sources l) \<le> lm_source_capacity config
     \<and> (\<forall>source. in_flight l source = count_list permits source
          \<and> count_list permits source \<le> lm_maximum_per_source_in_flight config))"

text \<open>Pruning drops no entry with a permit, so it changes no in-flight count.\<close>

lemma in_flight_retain:
  assumes "hm_ok m"
  shows "(case map_of (kt_retain (source_kept config now) m) source of None \<Rightarrow> 0 | Some entry \<Rightarrow> src_in_flight entry)
    = (case map_of m source of None \<Rightarrow> 0 | Some entry \<Rightarrow> src_in_flight entry)"
  by (simp add: map_of_retain [OF hm.ok_distinct [OF assms]] source_kept_def split: option.split)

lemma hm_insert_twice: "hm_insert k v (hm_insert k w m) = hm_insert k v m"
  unfolding hm_insert_def by (induction m) auto

text \<open>What an acquisition does, on every way out.\<close>

definition acquire_due :: "handshake_limiter \<Rightarrow> ip_addr \<Rightarrow> u64 \<Rightarrow> u64 \<Rightarrow> bool" where
  "acquire_due l source started_at now \<longleftrightarrow>
     (let config = hl_config l; live = kt_retain (source_kept config now) (hl_sources l) in
        sat_sub now started_at \<le> lm_maximum_verification_budget_millis config
        \<and> hl_global_in_flight l < lm_maximum_global_in_flight config
        \<and> in_flight l source < lm_maximum_per_source_in_flight config
        \<and> (source \<in> keys live \<or> length live < lm_source_capacity config))"

lemma acquire_cases:
  assumes "limiter_acquire l source started_at now = (l', r)" and ok: "hm_ok (hl_sources l)"
    and cap: "length (hl_sources l) \<le> lm_source_capacity (hl_config l)"
    and pos: "0 < lm_maximum_per_source_in_flight (hl_config l)"
  shows "hl_config l' = hl_config l \<and> hm_ok (hl_sources l') \<and> length (hl_sources l') \<le> lm_source_capacity (hl_config l)
    \<and> (if acquire_due l source started_at now
       then r = Inr source \<and> hl_global_in_flight l' = Suc (hl_global_in_flight l)
         \<and> in_flight l' = (in_flight l)(source := Suc (in_flight l source))
       else isl r \<and> hl_global_in_flight l' = hl_global_in_flight l \<and> in_flight l' = in_flight l)"
proof -
  define live where "live = kt_retain (source_kept (hl_config l) now) (hl_sources l)"
  have live: "hm_ok live" "length live \<le> lm_source_capacity (hl_config l)"
    using hm.ok_retain [OF ok] length_kt_retain_le cap order_trans unfolding live_def by blast+
  have count: "in_flight l = (\<lambda>s. case map_of live s of None \<Rightarrow> 0 | Some entry \<Rightarrow> src_in_flight entry)"
    unfolding live_def in_flight_retain [OF ok] by (simp add: in_flight_def fun_eq_iff)
  have due: "acquire_due l source started_at now \<longleftrightarrow>
      sat_sub now started_at \<le> lm_maximum_verification_budget_millis (hl_config l)
      \<and> hl_global_in_flight l < lm_maximum_global_in_flight (hl_config l)
      \<and> in_flight l source < lm_maximum_per_source_in_flight (hl_config l)
      \<and> (source \<in> keys live \<or> length live < lm_source_capacity (hl_config l))"
    by (simp add: acquire_due_def Let_def live_def)
  note eq = assms(1) [unfolded limiter_acquire_def Let_def, folded live_def]
  show ?thesis
  proof (cases "lm_maximum_verification_budget_millis (hl_config l) < sat_sub now started_at")
    case True
    then show ?thesis using eq ok cap by (auto simp: due in_flight_def)
  next
    case time: False
    show ?thesis
    proof (cases "map_of live source")
      case None
      then have "source \<notin> keys live" by (simp add: map_of_eq_None_iff)
      moreover have "in_flight l source = 0" using None by (simp add: count)
      ultimately show ?thesis using None time eq live pos unfolding due count
        by (auto simp: hm.ok_ins hm.length_ins map_of_hm_insert hm_insert_twice in_flight_def fun_eq_iff split: if_split_asm)
    next
      case (Some entry)
      then have known: "source \<in> keys live" by (metis map_of_eq_None_iff option.distinct(1))
      then have "length (hm_insert source x live) = length live" for x by (simp add: hm.length_ins [OF live(1)])
      moreover have "in_flight l source = src_in_flight entry" using Some by (simp add: count)
      ultimately show ?thesis using known Some time eq live unfolding due count
        by (auto simp: hm.ok_ins map_of_hm_insert in_flight_def fun_eq_iff split: if_split_asm)
    qed
  qed
qed

lemma drop_levels:
  assumes "hm_ok (hl_sources l)" and "0 < in_flight l source"
  shows "hl_config (permit_drop source l) = hl_config l" and "hm_ok (hl_sources (permit_drop source l))"
    and "length (hl_sources (permit_drop source l)) = length (hl_sources l)"
    and "hl_global_in_flight (permit_drop source l) = hl_global_in_flight l - 1"
    and "in_flight (permit_drop source l) = (in_flight l)(source := in_flight l source - 1)"
proof -
  obtain entry where e: "map_of (hl_sources l) source = Some entry"
    using assms(2) by (auto simp: in_flight_def split: option.splits)
  then have "source \<in> keys (hl_sources l)" by (metis map_of_eq_None_iff option.distinct(1))
  with e assms(1) show "hl_config (permit_drop source l) = hl_config l" "hm_ok (hl_sources (permit_drop source l))"
    "length (hl_sources (permit_drop source l)) = length (hl_sources l)"
    "hl_global_in_flight (permit_drop source l) = hl_global_in_flight l - 1"
    "in_flight (permit_drop source l) = (in_flight l)(source := in_flight l source - 1)"
    by (auto simp: permit_drop_def Let_def hm.ok_ins hm.length_ins in_flight_def map_of_hm_insert fun_eq_iff)
qed

lemma limiter_step:
  assumes pos: "0 < lm_maximum_per_source_in_flight config" and ok: "limiter_ok config s"
    and step: "limiter_exec s e = (t, out)"
  shows "limiter_ok config t"
proof -
  obtain l permits where s: "s = (l, permits)" by (cases s)
  with ok have l: "hl_config l = config" "hm_ok (hl_sources l)" "hl_global_in_flight l = length permits"
      "length permits \<le> lm_maximum_global_in_flight config" "length (hl_sources l) \<le> lm_source_capacity config"
    and count: "in_flight l x = count_list permits x" "count_list permits x \<le> lm_maximum_per_source_in_flight config" for x
    by (auto simp: limiter_ok_def)
  show ?thesis
  proof (cases e)
    case (LmAcquire source started_at now)
    obtain l' r where a: "limiter_acquire l source started_at now = (l', r)" by fastforce
    from acquire_cases [OF a] l pos
    have c: "hl_config l' = config" "hm_ok (hl_sources l')" "length (hl_sources l') \<le> lm_source_capacity config"
      "if acquire_due l source started_at now
       then r = Inr source \<and> hl_global_in_flight l' = Suc (hl_global_in_flight l)
         \<and> in_flight l' = (in_flight l)(source := Suc (in_flight l source))
       else isl r \<and> hl_global_in_flight l' = hl_global_in_flight l \<and> in_flight l' = in_flight l"
      by simp_all
    show ?thesis
    proof (cases "acquire_due l source started_at now")
      case True
      then have "in_flight l source < lm_maximum_per_source_in_flight config" "length permits < lm_maximum_global_in_flight config"
        using l by (auto simp: acquire_due_def Let_def)
      moreover have "t = (l', source # permits)" using True c(4) a step LmAcquire s by auto
      ultimately show ?thesis using True c l count by (auto simp: limiter_ok_def)
    next
      case False
      then have "t = (l', permits)" using c(4) a step LmAcquire s by (cases r) auto
      with False c l count show ?thesis by (simp add: limiter_ok_def)
    qed
  next
    case (LmDrop source)
    show ?thesis
    proof (cases "source \<in> set permits")
      case True
      then have held: "0 < in_flight l source" by (metis count(1) count_list_0_iff gr0I)
      have rem: "count_list (remove1 source permits) x = count_list permits x - of_bool (x = source)" for x
        by (induction permits) auto
      from True step LmDrop s have t: "t = (permit_drop source l, remove1 source permits)" by simp
      have "count_list (remove1 source permits) x \<le> lm_maximum_per_source_in_flight config" for x
        using count(2) [of x] by (simp add: rem)
      with True drop_levels [OF l(2) held] l count show ?thesis
        by (auto simp: limiter_ok_def t rem length_remove1)
    qed (use step LmDrop s ok in auto)
  qed
qed

interpretation limiter: keeps_invariant limiter_exec
  "\<lambda>s. 0 < lm_maximum_per_source_in_flight config \<and> limiter_ok config s" for config
  using limiter_step by unfold_locales blast

text \<open>C18. The limiter counts exactly the permits that are held: never more than configured, in total
  and for each address, over any sequence of acquisitions and drops; and an acquisition is
  granted exactly when it is in time and neither limit nor the table of addresses is full.\<close>

theorem permits_exact:
  assumes "limiter_new config = Inr l0" and "trace limiter_exec (l0, []) tr (l, permits)"
  shows "ln_global_in_flight (limiter_snapshot_of l) = length permits
    \<and> length permits \<le> lm_maximum_global_in_flight config
    \<and> ln_source_entries (limiter_snapshot_of l) \<le> lm_source_capacity config
    \<and> (\<forall>source. count_list permits source \<le> lm_maximum_per_source_in_flight config)
    \<and> (\<forall>source started_at now. snd (limiter_acquire l source started_at now) = Inr source \<longleftrightarrow>
          sat_sub now started_at \<le> lm_maximum_verification_budget_millis config
          \<and> length permits < lm_maximum_global_in_flight config
          \<and> count_list permits source < lm_maximum_per_source_in_flight config
          \<and> (source \<in> keys (kt_retain (source_kept config now) (hl_sources l))
              \<or> length (kt_retain (source_kept config now) (hl_sources l)) < lm_source_capacity config))"
proof -
  have start: "0 < lm_maximum_per_source_in_flight config \<and> limiter_ok config (l0, [])"
    using assms(1) by (auto simp: limiter_new_def limiter_ok_def hm.ok_Nil in_flight_def split: if_split_asm)
  from limiter.inv_trace [OF assms(2) this] have pos: "0 < lm_maximum_per_source_in_flight config"
    and l: "hl_config l = config" "hm_ok (hl_sources l)" "hl_global_in_flight l = length permits"
      "length permits \<le> lm_maximum_global_in_flight config" "length (hl_sources l) \<le> lm_source_capacity config"
    and count: "in_flight l source = count_list permits source"
      "count_list permits source \<le> lm_maximum_per_source_in_flight config" for source
    by (auto simp: limiter_ok_def)
  have "snd (limiter_acquire l source started_at now) = Inr source \<longleftrightarrow> acquire_due l source started_at now"
    for source started_at now
    using acquire_cases [of l source started_at now] l pos
    by (cases "limiter_acquire l source started_at now") (auto split: if_split_asm)
  then show ?thesis using l count by (simp add: limiter_snapshot_of_def acquire_due_def Let_def)
qed

definition few_permits :: limiter_config where
  "few_permits = \<lparr>lm_source_capacity = 2, lm_source_ttl_millis = 10, lm_maximum_per_source_in_flight = 1,
     lm_maximum_global_in_flight = 2, lm_maximum_verification_budget_millis = 5\<rparr>"

definition few_new :: handshake_limiter where
  "few_new = \<lparr>hl_config = few_permits, hl_sources = [], hl_global_in_flight = 0, hl_source_capacity_rejected = 0,
     hl_source_in_flight_rejected = 0, hl_global_in_flight_rejected = 0, hl_deadline_rejected = 0, hl_expired = 0\<rparr>"

lemma few_start: "limiter_new few_permits = Inr few_new"
  by (simp add: limiter_new_def few_permits_def few_new_def)

lemma few_acquired:
  "\<exists>l. limiter_exec (few_new, []) (LmAcquire (IpAddrV4 1) 0 3) = ((l, [IpAddrV4 1]), None)"
  by (simp add: limiter_acquire_def few_new_def few_permits_def Let_def sat_sub_def kt_retain_def hm_insert_def)

lemma permits_exact_witness:
  "\<exists>l. trace limiter_exec (few_new, []) [(LmAcquire (IpAddrV4 1) 0 3, None)] (l, [IpAddrV4 1])
    \<and> snd (limiter_acquire l (IpAddrV4 1) 4 5) \<noteq> Inr (IpAddrV4 1)"
proof -
  obtain l where "trace limiter_exec (few_new, []) [(LmAcquire (IpAddrV4 1) 0 3, None)] (l, [IpAddrV4 1])"
    using few_acquired by (auto simp: trace_Cons)
  moreover from permits_exact [OF few_start this] have "snd (limiter_acquire l (IpAddrV4 1) 4 5) \<noteq> Inr (IpAddrV4 1)"
    by (simp add: few_permits_def)
  ultimately show ?thesis by blast
qed

lemma acquired_permit: "limiter_acquire l source started_at now = (l', Inr permit) \<Longrightarrow> permit = source"
  by (auto simp: limiter_acquire_def Let_def split: if_split_asm option.splits)

lemma count_metric_limiter [simp]: "ah_limiter (count_metric f h) = ah_limiter h"
  by (simp add: count_metric_def)

lemma consume_async_frame [simp]:
  "ah_limiter (fst (consume_async h tid expiry now answer)) = ah_limiter h"
  "ah_sessions (fst (consume_async h tid expiry now answer)) = ah_sessions h"
  by (auto simp: consume_async_def handler_consume_def split: owner_answer.splits prod.splits)

lemma finish_limiter: "ah_limiter (fst (admit_finish h permit ticket r now)) = permit_drop permit (ah_limiter h)"
  by (auto simp: admit_finish_def drop_permit_def Let_def split: sum.split prod.split)

text \<open>An admission gives its permit back on every way out, whatever the ticket, the journal and
  the session manager answer: afterwards exactly the permits are held that were held before.\<close>

lemma admission_returns_permit:
  "\<exists>tr. trace limiter_exec (ah_limiter h, permits) tr
     (ah_limiter (fst (admit_async jwt h source peer hello trust started_at now answer)), permits)"
proof -
  let ?now = "at_monotonic_millis now"
  obtain l r where a: "limiter_acquire (ah_limiter h) source started_at ?now = (l, r)" by fastforce
  show ?thesis
  proof (cases r)
    case (Inl e)
    with a have "ah_limiter (fst (admit_async jwt h source peer hello trust started_at now answer)) = l"
      by (simp add: admit_async_def admit_begin_def acquire_permit_def)
    moreover have "trace limiter_exec (ah_limiter h, permits) [(LmAcquire source started_at ?now, Some e)] (l, permits)"
      using a Inl by (simp add: trace_Cons)
    ultimately show ?thesis by metis
  next
    case (Inr permit)
    with a acquired_permit have "permit = source" by blast
    with a Inr have "ah_limiter (fst (admit_async jwt h source peer hello trust started_at now answer)) = permit_drop source l"
      by (auto simp: admit_async_def admit_begin_def acquire_permit_def drop_permit_def finish_limiter case_prod_beta
        split: sum.split prod.split)
    moreover have "trace limiter_exec (ah_limiter h, permits)
        [(LmAcquire source started_at ?now, None), (LmDrop source, None)] (permit_drop source l, permits)"
      using a Inr \<open>permit = source\<close> by (simp add: trace_Cons)
    ultimately show ?thesis by metis
  qed
qed

section \<open>Admissions\<close>

lemma lost_absent: "sm_ok m \<Longrightarrow> map_of (sm_sessions (fst (drop_session sid reason m))) sid = None"
  by (simp add: drop_session_eq lose_def split: option.split) (auto simp: map_of_remove record_removal_def)

lemma reserve_admission_owner:
  assumes ok: "sm_ok m" and r: "reserve_admission m sid did oid ex now = (m', Inr r, removals)"
  shows "ads_session_id r = sid \<and> ads_device_id r = did \<and> ads_organization_id r = oid \<and>
    (if ads_creates_session r then map_of (sm_admissions m') sid = Some r
     else \<exists>ms. map_of (sm_sessions m') sid = Some ms \<and> ad_device_id (vs_admission (ms_session ms)) = did
       \<and> ms_organization_id ms = oid \<and> \<not> vs_is_expired (ms_session ms) now)"
proof -
  define n where "n = (case map_of (sm_sessions m) sid of
      Some ms \<Rightarrow> if vs_is_expired (ms_session ms) now then drop_session sid RExpired m else (m, [])
    | None \<Rightarrow> (m, []))"
  have n: "sm_ok (fst n)" using ok sm_ok_drop [OF ok] by (auto simp: n_def split: option.split)
  have alive: "\<not> vs_is_expired (ms_session ms) now" if "map_of (sm_sessions (fst n)) sid = Some ms" for ms
    using that lost_absent [OF ok] by (auto simp: n_def split: option.splits if_split_asm)
  have filed: "ads_session_id a = sid \<and> ads_creates_session a" if "map_of (sm_admissions (fst n)) sid = Some a" for a
    using that sm_okD(1) [OF n] by (auto simp: sm_tables_def)
  show ?thesis
    using r alive filed unfolding reserve_admission_def n_def [symmetric] Let_def case_prod_beta
    by (auto simp: map_of_hm_insert split: if_split_asm option.splits)
qed

text \<open>A new reservation lasts as long as the ticket, counted from the gateway's clock in milliseconds.\<close>

lemma reserve_admission_deadline:
  assumes "reserve_admission m sid did oid ex now = (m', Inr r, removals)"
    and "ads_creates_session r" and "map_of (sm_admissions m) sid = None"
  shows "ads_expires_at_ms r = ex"
proof -
  have "map_of (sm_admissions (fst (drop_session sid reason m))) sid = None" for reason
    using assms(3) by (simp add: drop_session_eq lose_def record_removal_def split: option.split)
  then show ?thesis
    using assms unfolding reserve_admission_def Let_def case_prod_beta by (auto split: if_split_asm option.splits)
qed

lemma unat_sat_mul: "unat (sat_mul a b) = min (2 ^ 64 - 1) (unat a * unat b)"
proof -
  have "unat (a * b) = unat a * unat b" if "unat a * unat b < 2 ^ 64"
    using that by (simp add: unat_word_ariths)
  then show ?thesis by (auto simp: sat_mul_def unat_minus_1_word min_def not_less simp del: unat_mult_lem)
qed

lemma admission_deadline_nat:
  "unat (admission_deadline now expiry) =
     min (2 ^ 64 - 1) (unat (at_monotonic_millis now) + (unat expiry - unat (at_unix_seconds now)) * 1000)"
  by (simp add: admission_deadline_def unat_sat_add unat_sat_mul unat_sat_sub)

lemma redeemed_entry:
  assumes "replay_consume file c tid expiry now w = (file', c', Inr ())"
  shows "(\<forall>r. (tid, r) \<in> set (rc_entries c) \<longrightarrow> r \<le> now)
    \<and> (tid, sat_add expiry replay_expiry_skew_seconds) \<in> set (rc_entries c')"
proof -
  have new: "(k, v) \<in> set (bt_insert k v m)" for k :: ticket_id and v m
    by (induction k v m rule: bt_insert.induct) auto
  have "tid \<notin> keys (kt_retain (\<lambda>retained. now < retained) (rc_entries c))"
    and "rc_entries c' = bt_insert tid (sat_add expiry replay_expiry_skew_seconds)
      (kt_retain (\<lambda>retained. now < retained) (rc_entries c))"
    using assms by (auto simp: replay_consume_def Let_def split: if_split_asm option.splits prod.splits sum.splits)
  then show ?thesis using new by (force simp: set_kt_retain not_less)
qed

lemma begin_verified:
  assumes "admit_begin jwt h source peer hello trust started_at now = (h', Inr (permit, ticket))"
  shows "bh_device_id hello = peer
    \<and> ticket_verify jwt (ah_verifier h) (bh_ticket hello) trust (at_unix_seconds now) peer peer = Inr ticket
    \<and> vt_device_id ticket = peer \<and> at_unix_seconds now < vt_expires_at_unix_seconds ticket"
proof -
  have verify: "bh_device_id hello = peer
      \<and> ticket_verify jwt (ah_verifier h) (bh_ticket hello) trust (at_unix_seconds now) peer peer = Inr ticket"
    using assms by (auto simp: admit_begin_def acquire_permit_def validate_admission_ticket_def
      split: prod.splits sum.splits if_split_asm)
  then show ?thesis
    by (auto simp: ticket_verify_def rbind_Inr claims_rejected_def list_ex_iff split: if_split_asm)
qed

text \<open>The reservation of an accepted admission is the one for the ticket's owner.\<close>

definition reserved_for :: "verified_ticket \<Rightarrow> admission_time \<Rightarrow> admission_accepted \<Rightarrow> manager \<Rightarrow> bool" where
  "reserved_for ticket now accepted m \<longleftrightarrow>
     aa_owner accepted = owner_from_ticket ticket
     \<and> aa_expires_at_unix_seconds accepted = vt_expires_at_unix_seconds ticket
     \<and> aa_policy_version accepted = vt_policy_version ticket
     \<and> ads_session_id (aa_reservation accepted) = vt_session_id ticket
     \<and> ads_device_id (aa_reservation accepted) = vt_device_id ticket
     \<and> ads_organization_id (aa_reservation accepted) = vt_organization_id ticket
     \<and> (if ads_creates_session (aa_reservation accepted)
        then map_of (sm_admissions m) (vt_session_id ticket) = Some (aa_reservation accepted)
        else \<exists>ms. map_of (sm_sessions m) (vt_session_id ticket) = Some ms
          \<and> ad_device_id (vs_admission (ms_session ms)) = vt_device_id ticket
          \<and> ms_organization_id ms = vt_organization_id ticket
          \<and> at_monotonic_millis now < ad_expires_at_ms (vs_admission (ms_session ms)))"

lemma reserve_next: "sm_next_connection_id (fst (reserve_admission m sid did oid ex now)) = sm_next_connection_id m"
  by (auto simp: reserve_admission_def Let_def case_prod_beta admit_counted_def split: option.split)

lemma finish_reserved:
  assumes "admit_finish h permit ticket r now = (h', Inr accepted, removals)" and ok: "sm_ok (ah_sessions h)"
  shows "reserved_for ticket now accepted (ah_sessions h') \<and> sm_ok (ah_sessions h')
    \<and> sm_next_connection_id (ah_sessions h') = sm_next_connection_id (ah_sessions h)"
proof -
  obtain sessions where res: "reserve_admission (ah_sessions h) (vt_session_id ticket) (vt_device_id ticket) (vt_organization_id ticket)
      (admission_deadline now (vt_expires_at_unix_seconds ticket)) (at_monotonic_millis now)
      = (sessions, Inr (aa_reservation accepted), removals)"
    and fin: "ah_sessions h' = sessions" "aa_owner accepted = owner_from_ticket ticket"
      "aa_expires_at_unix_seconds accepted = vt_expires_at_unix_seconds ticket" "aa_policy_version accepted = vt_policy_version ticket"
    using assms(1) by (auto simp: admit_finish_def Let_def owner_from_ticket_def drop_permit_def count_metric_def
      split: prod.splits sum.splits)
  note owner = reserve_admission_owner [OF ok res, unfolded vs_is_expired_def not_le]
  show ?thesis
    using owner fin sm_ok_reserve_admission [OF ok] reserve_next res unfolding reserved_for_def by (metis fst_conv)
qed

text \<open>The deadlines a manager has under an identifier: that of the live session or of the pending
  reservation.\<close>

definition deadlines :: "manager \<Rightarrow> session_id \<Rightarrow> u64 set" where
  "deadlines m sid = {ad_expires_at_ms (vs_admission (ms_session ms)) |ms. map_of (sm_sessions m) sid = Some ms}
     \<union> {ads_expires_at_ms r |r. map_of (sm_admissions m) sid = Some r}"

lemma deadlinesI:
  "map_of (sm_sessions m) sid = Some ms \<Longrightarrow> ad_expires_at_ms (vs_admission (ms_session ms)) \<in> deadlines m sid"
  "map_of (sm_admissions m) sid = Some r \<Longrightarrow> ads_expires_at_ms r \<in> deadlines m sid"
  by (auto simp: deadlines_def)

lemma deadlines_drop: "deadlines (fst (drop_session s reason m)) sid \<subseteq> deadlines m sid"
  by (auto simp: deadlines_def drop_session_eq lose_def record_removal_def map_of_remove split: option.splits if_split_asm)

lemma deadlines_close: "deadlines (fst (sm_close m s)) sid \<subseteq> deadlines m sid"
  using deadlines_drop by (simp add: sm_close_def case_prod_beta)

lemma deadlines_sweep: "sm_ok m \<Longrightarrow> deadlines (fst (sweep m now)) sid \<subseteq> deadlines m sid"
proof
  fix d
  assume ok: "sm_ok m" and d: "d \<in> deadlines (fst (sweep m now)) sid"
  obtain m' res removals where s: "sweep m now = (m', res, removals)" by (metis prod_cases3)
  from d s consider (session) ms where "map_of (sm_sessions m') sid = Some ms" "d = ad_expires_at_ms (vs_admission (ms_session ms))"
    | (admission) r where "map_of (sm_admissions m') sid = Some r" "d = ads_expires_at_ms r"
    by (auto simp: deadlines_def)
  then show "d \<in> deadlines m sid"
  proof cases
    case session
    with sweep_keeps [OF ok s, of sid] show ?thesis by (auto simp: ident_def intro: deadlinesI)
  next
    case admission
    then have "(sid, r) \<in> set (sm_admissions (swept m now))" using sweep_effect(4) [OF ok s] map_of_SomeD by fastforce
    then have "(sid, r) \<in> set (sm_admissions m)"
      by (simp add: swept_facts(1) set_kt_retain)
    then have "map_of (sm_admissions m) sid = Some r"
      using sm_okD(1) [OF ok] by (auto simp: sm_tables_def hm_ok_def)
    with admission show ?thesis by (auto intro: deadlinesI)
  qed
qed

lemma deadlines_reserve: "deadlines (fst (reserve_admission m s did oid ex now)) sid \<subseteq> insert ex (deadlines m sid)"
proof -
  define n where "n = (case map_of (sm_sessions m) s of
      Some ms \<Rightarrow> if vs_is_expired (ms_session ms) now then drop_session s RExpired m else (m, [])
    | None \<Rightarrow> (m, []))"
  have n: "deadlines (fst n) sid \<subseteq> deadlines m sid"
    using deadlines_drop by (auto simp: n_def split: option.split)
  have "deadlines (fst (reserve_admission m s did oid ex now)) sid \<subseteq> insert ex (deadlines (fst n) sid) \<union> deadlines m sid"
    unfolding reserve_admission_def n_def [symmetric] Let_def case_prod_beta
    by (auto simp: deadlines_def admit_counted_def map_of_hm_insert split: option.splits if_split_asm)
  with n show ?thesis by blast
qed

text \<open>An admission in one go: a verified ticket, its reservation, and a deadline that is the ticket's or
  was there before.\<close>

lemma admitted_reserved:
  assumes a: "admit_async jwt h source peer hello trust started_at now answer = (h', Inr accepted, removals)"
    and ok: "sm_ok (ah_sessions h)"
  obtains ticket where "reserved_for ticket now accepted (ah_sessions h')"
    and "ticket_verify jwt (ah_verifier h) (bh_ticket hello) trust (at_unix_seconds now) peer peer = Inr ticket"
    and "bh_device_id hello = peer" and "vt_device_id ticket = peer"
    and "deadlines (ah_sessions h') (vt_session_id ticket)
      \<subseteq> insert (admission_deadline now (vt_expires_at_unix_seconds ticket)) (deadlines (ah_sessions h) (vt_session_id ticket))"
proof -
  obtain h1 permit ticket where start: "admit_begin jwt h source peer hello trust started_at now = (h1, Inr (permit, ticket))"
    using a by (auto simp: admit_async_def split: prod.splits sum.splits)
  obtain h2 r where c: "consume_async h1 (vt_ticket_id ticket) (vt_expires_at_unix_seconds ticket) (at_unix_seconds now) answer
      = (h2, r)" by fastforce
  have fin: "admit_finish h2 permit ticket r now = (h', Inr accepted, removals)"
    using a start c by (simp add: admit_async_def)
  have "ah_sessions h1 = ah_sessions h"
    using start by (auto simp: admit_begin_def acquire_permit_def split: prod.splits sum.splits)
  moreover have "ah_sessions h2 = ah_sessions h1" using consume_async_frame(2) c by (metis fst_conv)
  ultimately have same: "ah_sessions h2 = ah_sessions h" by simp
  obtain did oid where "ah_sessions h' = fst (reserve_admission (ah_sessions h) (vt_session_id ticket) did oid
      (admission_deadline now (vt_expires_at_unix_seconds ticket)) (at_monotonic_millis now))"
    using fin same by (auto simp: admit_finish_def Let_def owner_from_ticket_def drop_permit_def count_metric_def
      split: prod.splits sum.splits) (metis fst_conv)
  then have "deadlines (ah_sessions h') (vt_session_id ticket)
      \<subseteq> insert (admission_deadline now (vt_expires_at_unix_seconds ticket)) (deadlines (ah_sessions h) (vt_session_id ticket))"
    using deadlines_reserve by metis
  moreover have "reserved_for ticket now accepted (ah_sessions h')" using finish_reserved [OF fin] ok same by simp
  ultimately show ?thesis using that begin_verified [OF start] by blast
qed

text \<open>C6. An admission that succeeds, whatever other admissions do between its steps, belongs to the
  device of the connection: the ticket was verified for it, it is not expired and was not
  redeemed before, its redemption is retained beyond its expiry, and the reservation is for the
  ticket's session, a new one or one that is live under the same owner. A new reservation lasts
  until the ticket expires, in milliseconds of the gateway's monotonic clock.\<close>

theorem admission_certified:
  assumes "admit_begin jwt h1 source peer hello trust started_at now = (h1', Inr (permit, ticket))"
    and "consume_async h2 (vt_ticket_id ticket) (vt_expires_at_unix_seconds ticket) (at_unix_seconds now) answer = (h2', Inr ())"
    and "admit_finish h3 permit ticket (Inr ()) now = (h3', Inr accepted, removals)"
    and "sm_reachable n (ah_sessions h3)"
  shows "bh_device_id hello = peer
    \<and> ticket_verify jwt (ah_verifier h1) (bh_ticket hello) trust (at_unix_seconds now) peer peer = Inr ticket
    \<and> (\<forall>r. (vt_ticket_id ticket, r) \<in> set (rc_entries (ah_replay h2)) \<longrightarrow> r \<le> at_unix_seconds now)
    \<and> (vt_ticket_id ticket, sat_add (vt_expires_at_unix_seconds ticket) replay_expiry_skew_seconds)
        \<in> set (rc_entries (ah_replay h2'))
    \<and> aa_owner accepted = owner_from_ticket ticket \<and> so_device_id (aa_owner accepted) = peer
    \<and> at_unix_seconds now < aa_expires_at_unix_seconds accepted
    \<and> ads_session_id (aa_reservation accepted) = so_session_id (aa_owner accepted)
    \<and> ads_device_id (aa_reservation accepted) = peer
    \<and> ads_organization_id (aa_reservation accepted) = so_organization_id (aa_owner accepted)
    \<and> (if ads_creates_session (aa_reservation accepted)
       then map_of (sm_admissions (ah_sessions h3')) (vt_session_id ticket) = Some (aa_reservation accepted)
       else \<exists>ms. map_of (sm_sessions (ah_sessions h3')) (vt_session_id ticket) = Some ms
         \<and> ad_device_id (vs_admission (ms_session ms)) = peer \<and> ms_organization_id ms = vt_organization_id ticket
         \<and> at_monotonic_millis now < ad_expires_at_ms (vs_admission (ms_session ms)))
    \<and> (ads_creates_session (aa_reservation accepted) \<and> map_of (sm_admissions (ah_sessions h3)) (vt_session_id ticket) = None
       \<longrightarrow> unat (ads_expires_at_ms (aa_reservation accepted)) = min (2 ^ 64 - 1) (unat (at_monotonic_millis now)
             + (unat (vt_expires_at_unix_seconds ticket) - unat (at_unix_seconds now)) * 1000))"
proof -
  obtain w file' c' where "replay_consume (ah_file h2) (ah_replay h2) (vt_ticket_id ticket) (vt_expires_at_unix_seconds ticket)
      (at_unix_seconds now) w = (file', c', Inr ())" and c': "c' = ah_replay h2'"
    using assms(2) by (auto simp: consume_async_def handler_consume_def split: if_split_asm owner_answer.splits prod.splits)
  note redeemed = redeemed_entry [OF this(1), unfolded c']
  obtain sessions where "reserve_admission (ah_sessions h3) (vt_session_id ticket) (vt_device_id ticket) (vt_organization_id ticket)
      (admission_deadline now (vt_expires_at_unix_seconds ticket)) (at_monotonic_millis now)
      = (sessions, Inr (aa_reservation accepted), removals)"
    using assms(3) by (auto simp: admit_finish_def Let_def owner_from_ticket_def split: prod.splits sum.splits)
  note deadline = reserve_admission_deadline [OF this]
  show ?thesis
    using begin_verified [OF assms(1)] redeemed deadline admission_deadline_nat finish_reserved [OF assms(3) sm_reachable_ok(1) [OF assms(4)]]
    by (auto simp: reserved_for_def owner_from_ticket_def)
qed

definition sample_handler :: admission_handler where
  "sample_handler = handler_new sample_verifier few_new \<lparr>rc_capacity = 4, rc_entries = [], rc_replay_rejected = 0,
     rc_capacity_rejected = 0, rc_expired = 0, rc_gateway = None\<rparr> Missing gw_new"

definition sample_hello :: client_hello where
  "sample_hello = \<lparr>bh_device_id = 7, bh_requested_gateway = [103], bh_ticket = [97, 46, 98, 46, 99]\<rparr>"

lemma admission_certified_witness:
  "\<exists>h1 h2 h3 accepted. admit_begin sample_jwt sample_handler (IpAddrV4 1) 7 sample_hello (Some sample_trust) 8
        \<lparr>at_unix_seconds = 1100, at_monotonic_millis = 9\<rparr> = (h1, Inr (IpAddrV4 1, sample_ticket))
    \<and> consume_async h1 1 1600 1100 (OwnerRan Written) = (h2, Inr ())
    \<and> admit_finish h2 (IpAddrV4 1) sample_ticket (Inr ()) \<lparr>at_unix_seconds = 1100, at_monotonic_millis = 9\<rparr>
        = (h3, Inr accepted, [])
    \<and> so_device_id (aa_owner accepted) = 7 \<and> (1, 1630) \<in> set (rc_entries (ah_replay h2))"
proof -
  let ?now = "\<lparr>at_unix_seconds = 1100, at_monotonic_millis = 9\<rparr>"
  have ticket: "vt_ticket_id sample_ticket = 1" "vt_expires_at_unix_seconds sample_ticket = 1600"
    "vt_session_id sample_ticket = 5" "vt_device_id sample_ticket = 7" by (simp_all add: sample_ticket_def)
  obtain l where l: "limiter_acquire few_new (IpAddrV4 1) 8 9 = (l, Inr (IpAddrV4 1))"
    by (simp add: limiter_acquire_def few_new_def few_permits_def Let_def sat_sub_def kt_retain_def hm_insert_def)
  then have b: "admit_begin sample_jwt sample_handler (IpAddrV4 1) 7 sample_hello (Some sample_trust) 8 ?now
      = (sample_handler\<lparr>ah_limiter := l\<rparr>, Inr (IpAddrV4 1, sample_ticket))"
    by (simp add: admit_begin_def acquire_permit_def sample_handler_def handler_new_def sample_hello_def
      validate_admission_ticket_def sample_verified)
  obtain h2 where c: "consume_async (sample_handler\<lparr>ah_limiter := l\<rparr>) 1 1600 1100 (OwnerRan Written) = (h2, Inr ())"
    and h2: "ah_sessions h2 = gw_new"
    by (simp add: consume_async_def handler_consume_def replay_consume_def sample_handler_def handler_new_def Let_def kt_retain_def)
  obtain h3 accepted where f: "admit_finish h2 (IpAddrV4 1) sample_ticket (Inr ()) ?now = (h3, Inr accepted, [])"
    by (simp add: admit_finish_def Let_def owner_from_ticket_def ticket h2 reserve_admission_def admission_deadline_def
      sat_add_def sat_sub_def sat_mul_def gw_new_def gw_config_def usize_add_def usize_max_def)
  have few: "mc_maximum_sessions gw_config \<le> usize_max" by (simp add: gw_config_def usize_max_def)
  have reachable: "sm_reachable 0 (ah_sessions h2)"
    unfolding sm_reachable_def h2 by (intro exI conjI, rule gw_start, rule few, rule trace.stop) simp
  have "consume_async (sample_handler\<lparr>ah_limiter := l\<rparr>) (vt_ticket_id sample_ticket)
      (vt_expires_at_unix_seconds sample_ticket) (at_unix_seconds ?now) (OwnerRan Written) = (h2, Inr ())"
    using c by (simp add: ticket)
  from admission_certified [OF b this f reachable] b c f
  show ?thesis by (auto simp: ticket sat_add_def replay_expiry_skew_seconds_def)
qed

end
