(* ===== verification/Forwarding.thy ===== *)
theory Forwarding
  imports PoolProps
begin

text \<open>
  The uplink source check of \<open>apps/streamguard-gateway/src/v2/forwarding.rs\<close>: a packet of a client
  is forwarded only if its source address is the one the session's Active lease assigns. The pool
  is the one of the lease theories, so that uniqueness of leases carries over to packets.
\<close>

unbundle bit_operations_syntax

section \<open>Data\<close>

datatype ip_source = SourceV4 arr4 | SourceV6 arr16

record validated_uplink =
  vu_session_id :: session_id
  vu_source :: ip_source
  vu_packet :: "byte list"

datatype forward_error = FwEmpty | FwTooLarge | FwTruncated | FwInvalidHeader | FwInvalidLength
  | FwUnknownVersion | FwInvalidSource | FwUnknownSession | FwSourceMismatch

record forwarder_metrics =
  fm_validated :: u64
  fm_parse_dropped :: u64
  fm_spoof_dropped :: u64

record uplink_forwarder =
  uf_maximum_packet_bytes :: nat
  uf_metrics :: forwarder_metrics

definition min_packet_bytes :: nat where
  "min_packet_bytes = 20"

definition min_ipv6_bytes :: nat where
  "min_ipv6_bytes = 40"

definition max_packet_bytes_hard_cap :: nat where
  "max_packet_bytes_hard_cap = 65535"

section \<open>Operations\<close>

definition forwarder_new :: "nat \<Rightarrow> forward_error + uplink_forwarder" where
  "forwarder_new maximum_packet_bytes =
     (if \<not> (1280 \<le> maximum_packet_bytes \<and> maximum_packet_bytes \<le> max_packet_bytes_hard_cap) then Inl FwInvalidLength
      else Inr \<lparr>uf_maximum_packet_bytes = maximum_packet_bytes,
        uf_metrics = \<lparr>fm_validated = 0, fm_parse_dropped = 0, fm_spoof_dropped = 0\<rparr>\<rparr>)"

definition parse_ipv4_source :: "byte list \<Rightarrow> forward_error + ip_source" where
  "parse_ipv4_source packet =
     (if length packet < min_packet_bytes then Inl FwTruncated
      else let ihl_bytes = usize_mul (unat (packet ! 0 AND 0x0F)) 4 in
      if ihl_bytes < min_packet_bytes then Inl FwInvalidHeader
      else if length packet < ihl_bytes then Inl FwTruncated
      else let total_len = unat (from_be [packet ! 2, packet ! 3] :: u16) in
      if total_len < ihl_bytes then Inl FwInvalidLength
      else if total_len \<noteq> length packet then Inl FwInvalidLength
      else let src = from_be (slice 12 16 packet) :: arr4 in
      if src = 0 then Inl FwInvalidSource else Inr (SourceV4 src))"

definition parse_ipv6_source :: "byte list \<Rightarrow> forward_error + ip_source" where
  "parse_ipv6_source packet =
     (if length packet < min_ipv6_bytes then Inl FwTruncated
      else let payload_len = unat (from_be [packet ! 4, packet ! 5] :: u16) in
      if usize_add min_ipv6_bytes payload_len \<noteq> length packet then Inl FwInvalidLength
      else let src = from_be (slice 8 24 packet) :: arr16 in
      if all_zero (to_be src) then Inl FwInvalidSource else Inr (SourceV6 src))"

definition fw_count :: "((u64 \<Rightarrow> u64) \<Rightarrow> forwarder_metrics \<Rightarrow> forwarder_metrics) \<Rightarrow> uplink_forwarder \<Rightarrow> uplink_forwarder" where
  "fw_count counter f = f\<lparr>uf_metrics := counter (\<lambda>n. n + 1) (uf_metrics f)\<rparr>"

definition parse_source :: "uplink_forwarder \<Rightarrow> byte list \<Rightarrow> uplink_forwarder \<times> (forward_error + ip_source)" where
  "parse_source f packet =
     (if packet = [] then (fw_count fm_parse_dropped_update f, Inl FwEmpty)
      else if uf_maximum_packet_bytes f < length packet then (fw_count fm_parse_dropped_update f, Inl FwTooLarge)
      else
        let version = drop_bit 4 (packet ! 0);
            result = (if version = 4 then parse_ipv4_source packet
              else if version = 6 then parse_ipv6_source packet
              else Inl FwUnknownVersion)
        in case result of
          Inl e \<Rightarrow> (fw_count fm_parse_dropped_update f, Inl e)
        | Inr source \<Rightarrow> (f, Inr source))"

definition source_check :: "address_pool \<Rightarrow> assigned_addresses \<Rightarrow> ip_source \<Rightarrow> forward_error option" where
  "source_check p lease source =
     (case source of
        SourceV4 src \<Rightarrow>
          if src = 0 \<or> src = apc_ipv4_gateway (ap_config p) \<or> src \<noteq> aa_ipv4 lease then Some FwSourceMismatch else None
      | SourceV6 src \<Rightarrow>
          if all_zero (to_be src) then Some FwInvalidSource
          else if slice 0 8 (to_be src) \<noteq> slice 0 8 (to_be (aa_ipv6_prefix lease)) then Some FwSourceMismatch
          else None)"

definition fw_validate :: "uplink_forwarder \<Rightarrow> address_pool \<Rightarrow> session_id \<Rightarrow> byte list
    \<Rightarrow> uplink_forwarder \<times> (forward_error + validated_uplink)" where
  "fw_validate f p sid packet =
     (case parse_source f packet of
        (f, Inl e) \<Rightarrow> (f, Inl e)
      | (f, Inr source) \<Rightarrow>
          (case pool_lookup_active p sid of
             None \<Rightarrow> (fw_count fm_spoof_dropped_update f, Inl FwUnknownSession)
           | Some lease \<Rightarrow>
               (case source_check p lease source of
                  Some e \<Rightarrow> (fw_count fm_spoof_dropped_update f, Inl e)
                | None \<Rightarrow> (fw_count fm_validated_update f,
                    Inr \<lparr>vu_session_id = sid, vu_source = source, vu_packet = packet\<rparr>))))"

text \<open>The sink counts what it forwards and hands the packet on.\<close>

record sink_metrics =
  sk_forwarded :: u64
  sk_bytes_forwarded :: u64

definition sink_new :: sink_metrics where
  "sink_new = \<lparr>sk_forwarded = 0, sk_bytes_forwarded = 0\<rparr>"

definition sink_submit :: "sink_metrics \<Rightarrow> validated_uplink \<Rightarrow> sink_metrics \<times> validated_uplink" where
  "sink_submit m u =
     (m\<lparr>sk_forwarded := sk_forwarded m + 1, sk_bytes_forwarded := sk_bytes_forwarded m + of_nat (length (vu_packet u))\<rparr>, u)"

section \<open>Frames\<close>

text \<open>A packet whose header lengths are consistent with its size.\<close>

definition ipv4_frame :: "byte list \<Rightarrow> bool" where
  "ipv4_frame packet \<longleftrightarrow> 20 \<le> length packet \<and> drop_bit 4 (packet ! 0) = 4
     \<and> 5 \<le> unat (packet ! 0 AND 0x0F) \<and> 4 * unat (packet ! 0 AND 0x0F) \<le> length packet
     \<and> nat_be (slice 2 4 packet) = length packet"

definition ipv6_frame :: "byte list \<Rightarrow> bool" where
  "ipv6_frame packet \<longleftrightarrow> 40 \<le> length packet \<and> drop_bit 4 (packet ! 0) = 6
     \<and> 40 + nat_be (slice 4 6 packet) = length packet"

lemma slice_two: "k = Suc i \<Longrightarrow> j = Suc k \<Longrightarrow> k < length xs \<Longrightarrow> slice i j xs = [xs ! i, xs ! k]"
  by (simp add: slice_def Cons_nth_drop_Suc [symmetric])

lemma low_nibble: "unat ((b::byte) AND 15) \<le> 15"
  using word_and_le1 [of b 15] by (simp add: word_le_nat_alt)

lemma parse_ipv4_source_iff:
  "drop_bit 4 (packet ! 0) = 4 \<and> parse_ipv4_source packet = Inr source \<longleftrightarrow>
    ipv4_frame packet \<and> source = SourceV4 (from_be (slice 12 16 packet)) \<and> (from_be (slice 12 16 packet) :: arr4) \<noteq> 0"
proof (cases "20 \<le> length packet")
  case True
  then have s: "slice 2 4 packet = [packet ! 2, packet ! 3]" by (intro slice_two) simp_all
  have m: "usize_mul (unat (packet ! 0 AND 0x0F)) 4 = 4 * unat (packet ! 0 AND 0x0F)"
    using low_nibble [of "packet ! 0"] by (simp add: usize_mul_def usize_max_def)
  show ?thesis using True
    by (auto simp: parse_ipv4_source_def ipv4_frame_def Let_def m s unat_from_be_u16 min_packet_bytes_def split: if_split_asm)
qed (auto simp: parse_ipv4_source_def ipv4_frame_def min_packet_bytes_def)

lemma parse_ipv6_source_iff:
  "drop_bit 4 (packet ! 0) = 6 \<and> parse_ipv6_source packet = Inr source \<longleftrightarrow>
    ipv6_frame packet \<and> source = SourceV6 (from_be (slice 8 24 packet)) \<and> (from_be (slice 8 24 packet) :: arr16) \<noteq> 0"
proof (cases "40 \<le> length packet")
  case True
  then have s: "slice 4 6 packet = [packet ! 4, packet ! 5]" by (intro slice_two) simp_all
  have "nat_be [packet ! 4, packet ! 5] < 65536" using nat_be_less [of "[packet ! 4, packet ! 5]"] by simp
  then have m: "usize_add 40 (nat_be [packet ! 4, packet ! 5]) = 40 + nat_be [packet ! 4, packet ! 5]"
    by (simp add: usize_add_def usize_max_def)
  show ?thesis using True
    by (auto simp: parse_ipv6_source_def ipv6_frame_def Let_def m s unat_from_be_u16 min_ipv6_bytes_def split: if_split_asm)
qed (auto simp: parse_ipv6_source_def ipv6_frame_def min_ipv6_bytes_def)

text \<open>The first eight bytes of a prefix are its upper half.\<close>

lemma be_nat_add: "be_nat (m + n) x = be_nat m (x div 256 ^ n) @ be_nat n x"
  by (induction n arbitrary: x) (simp_all add: div_mult2_eq)

lemma upper_half: "slice 0 8 (to_be (p::arr16)) = to_be (hi64 p)"
proof -
  have h: "unat (hi64 p) = unat p div 2 ^ 64"
  proof -
    have d: "unat (drop_bit 64 p) = unat p div 2 ^ 64" unfolding unat_drop_bit_eq by (rule drop_bit_eq_div)
    moreover have "unat p div 2 ^ 64 < 2 ^ 64" using unat_bound [of p] by (simp add: less_mult_imp_div_less)
    ultimately have "unat (drop_bit 64 p) < 2 ^ 64" by simp
    then show ?thesis unfolding hi64_def unsigned_ucast_eq unat_take_bit d [symmetric] by (simp add: take_bit_eq_mod)
  qed
  show ?thesis using be_nat_add [of 8 8 "unat p"] by (simp add: to_be_def slice_def h)
qed

section \<open>Properties\<close>

lemma active_lease:
  assumes "pool_reachable s" and "pool_lookup_active (py_pool s) sid = Some a"
  shows "(sid, a) \<in> set (live_grants s)" and "ipv4_usable (ap_config (py_pool s)) (aa_ipv4 a)"
    and "ipv6_usable (ap_config (py_pool s)) (aa_ipv6_prefix a)"
proof -
  have "pool_lookup (py_pool s) sid = Some a"
    using assms(2) by (auto simp: pool_lookup_def pool_lookup_active_def)
  then show live: "(sid, a) \<in> set (live_grants s)" by (rule lookup_live)
  have "leases_good (ap_config (py_pool s)) {} (live_grants s)"
    by (rule live_good [OF pool_reachable_inv [OF assms(1)]])
  with live show "ipv4_usable (ap_config (py_pool s)) (aa_ipv4 a)" "ipv6_usable (ap_config (py_pool s)) (aa_ipv6_prefix a)"
    by (auto simp: leases_good_def)
qed

lemma active_apart:
  assumes "pool_reachable s" and "pool_lookup_active (py_pool s) sid = Some a"
    and "pool_lookup_active (py_pool s) other = Some b" and "other \<noteq> sid"
  shows "aa_ipv4 b \<noteq> aa_ipv4 a" and "aa_ipv6_prefix b \<noteq> aa_ipv6_prefix a"
proof -
  have good: "leases_good (ap_config (py_pool s)) {} (live_grants s)"
    by (rule live_good [OF pool_reachable_inv [OF assms(1)]])
  note live = active_lease(1) [OF assms(1,2)] active_lease(1) [OF assms(1,3)]
  from good show "aa_ipv4 b \<noteq> aa_ipv4 a" and "aa_ipv6_prefix b \<noteq> aa_ipv6_prefix a"
    unfolding leases_good_def using distinct_map_eq [OF _ live] assms(4) by (metis Pair_inject snd_conv)+
qed

lemma usable_v6_upper:
  assumes "pool_config_ok c" and "ipv6_usable c p"
  shows "lo64 p = 0" and "hi64 p \<noteq> 0"
proof -
  show lo: "lo64 p = 0" using assms(2) by (auto simp: ipv6_usable_def ipv6_is_64_aligned_def split: if_split_asm)
  show "hi64 p \<noteq> 0"
  proof
    assume "hi64 p = 0"
    then have "ipv6_subnet_index (apc_ipv6_base c) (apc_ipv6_parent_prefix_len c) p = Some 0"
      using assms(2) by (auto simp: ipv6_usable_def ipv6_subnet_index_def Let_def split: if_split_asm)
    with assms(2) show False by (auto simp: ipv6_usable_def split: if_split_asm)
  qed
qed

text \<open>What a validation accepts, in terms of the bytes of the packet.\<close>

lemma fw_validate_iff:
  "snd (fw_validate f p sid packet) = Inr u \<longleftrightarrow>
    length packet \<le> uf_maximum_packet_bytes f
    \<and> (\<exists>source lease. (ipv4_frame packet \<and> source = SourceV4 (from_be (slice 12 16 packet))
            \<and> (from_be (slice 12 16 packet) :: arr4) \<noteq> 0
          \<or> ipv6_frame packet \<and> source = SourceV6 (from_be (slice 8 24 packet))
            \<and> (from_be (slice 8 24 packet) :: arr16) \<noteq> 0)
        \<and> pool_lookup_active p sid = Some lease \<and> source_check p lease source = None
        \<and> u = \<lparr>vu_session_id = sid, vu_source = source, vu_packet = packet\<rparr>)"
proof -
  have ne: "ipv4_frame packet \<Longrightarrow> packet \<noteq> []" "ipv6_frame packet \<Longrightarrow> packet \<noteq> []"
    by (auto simp: ipv4_frame_def ipv6_frame_def)
  have parse: "snd (parse_source f packet) = Inr source \<longleftrightarrow> length packet \<le> uf_maximum_packet_bytes f \<and>
      (ipv4_frame packet \<and> source = SourceV4 (from_be (slice 12 16 packet)) \<and> (from_be (slice 12 16 packet) :: arr4) \<noteq> 0
      \<or> ipv6_frame packet \<and> source = SourceV6 (from_be (slice 8 24 packet)) \<and> (from_be (slice 8 24 packet) :: arr16) \<noteq> 0)"
    for source
    unfolding parse_ipv4_source_iff [symmetric] parse_ipv6_source_iff [symmetric]
    using ne parse_ipv4_source_iff [of packet source] parse_ipv6_source_iff [of packet source]
    by (auto simp: parse_source_def Let_def split: sum.splits if_split_asm)
  have "snd (fw_validate f p sid packet) = Inr u \<longleftrightarrow> (\<exists>source lease. snd (parse_source f packet) = Inr source
      \<and> pool_lookup_active p sid = Some lease \<and> source_check p lease source = None
      \<and> u = \<lparr>vu_session_id = sid, vu_source = source, vu_packet = packet\<rparr>)"
    by (auto simp: fw_validate_def split: prod.splits sum.splits option.splits)
  then show ?thesis unfolding parse by blast
qed

text \<open>C3. Sources cannot be forged across sessions. In every state the pool reaches, a validated
  packet is the client's packet unchanged, its session has an Active lease, its source bytes are the
  leased IPv4 address, a host of the network that is not the gateway, or lie in the leased prefix;
  and no forwarder accepts a packet with these source bytes for any other session.\<close>

theorem uplink_source_owned:
  assumes "pool_reachable s" and "snd (fw_validate f (py_pool s) sid packet) = Inr u"
  shows "vu_packet u = packet \<and> vu_session_id u = sid \<and> (\<exists>a. pool_lookup_active (py_pool s) sid = Some a \<and>
      (case vu_source u of
         SourceV4 src \<Rightarrow> slice 12 16 packet = to_be (aa_ipv4 a) \<and> src = aa_ipv4 a
           \<and> apc_network (ap_config (py_pool s)) < src \<and> src < apc_broadcast (ap_config (py_pool s))
           \<and> src \<noteq> apc_ipv4_gateway (ap_config (py_pool s))
       | SourceV6 src \<Rightarrow> slice 8 24 packet = to_be src \<and> hi64 src = hi64 (aa_ipv6_prefix a)))
    \<and> (\<forall>g other packet' v. other \<noteq> sid \<and> snd (fw_validate g (py_pool s) other packet') = Inr v \<longrightarrow>
        (case (vu_source u, vu_source v) of
           (SourceV4 src, SourceV4 src') \<Rightarrow> src' \<noteq> src
         | (SourceV6 src, SourceV6 src') \<Rightarrow> hi64 src' \<noteq> hi64 src
         | _ \<Rightarrow> True))"
proof -
  let ?p = "py_pool s"
  have c: "pool_config_ok (ap_config ?p)"
    using pool_reachable_inv [OF assms(1)] by (auto simp: pool_inv_on_def pool_ok_def)
  have v6: "hi64 src = hi64 (aa_ipv6_prefix a)" if "source_check ?p a (SourceV6 src) = None" for a src
    using that by (auto simp: source_check_def upper_half split: if_split_asm dest: arg_cong [of _ _ "from_be :: _ \<Rightarrow> u64"])
  have v4: "src = aa_ipv4 a" if "source_check ?p a (SourceV4 src) = None" for a src
    using that by (simp add: source_check_def split: if_split_asm)
  obtain a where a: "pool_lookup_active ?p sid = Some a" "source_check ?p a (vu_source u) = None"
    and u: "vu_packet u = packet" "vu_session_id u = sid"
    and src: "vu_source u = SourceV4 (from_be (slice 12 16 packet)) \<and> length packet \<ge> 20
      \<or> vu_source u = SourceV6 (from_be (slice 8 24 packet)) \<and> length packet \<ge> 40"
    using assms(2) unfolding fw_validate_iff by (auto simp: ipv4_frame_def ipv6_frame_def)
  note own = active_lease [OF assms(1) a(1)]
  have apart: "case (vu_source u, vu_source v) of
           (SourceV4 src, SourceV4 src') \<Rightarrow> src' \<noteq> src
         | (SourceV6 src, SourceV6 src') \<Rightarrow> hi64 src' \<noteq> hi64 src
         | _ \<Rightarrow> True"
    if ne: "other \<noteq> sid" and v: "snd (fw_validate g ?p other packet') = Inr v" for g other packet' v
  proof -
    obtain b where b: "pool_lookup_active ?p other = Some b" "source_check ?p b (vu_source v) = None"
      using v unfolding fw_validate_iff by auto
    note diff = active_apart [OF assms(1) a(1) b(1) ne]
    have "lo64 (aa_ipv6_prefix a) = 0" "lo64 (aa_ipv6_prefix b) = 0"
      using usable_v6_upper(1) [OF c] own(3) active_lease(3) [OF assms(1) b(1)] by simp_all
    then have "hi64 (aa_ipv6_prefix b) \<noteq> hi64 (aa_ipv6_prefix a)"
      using diff(2) join_hi64 by metis
    with a(2) b(2) diff(1) v4 [of a] v4 [of b] v6 [of a] v6 [of b] show ?thesis
      by (cases "vu_source u"; cases "vu_source v") auto
  qed
  have "case vu_source u of
         SourceV4 src \<Rightarrow> slice 12 16 packet = to_be (aa_ipv4 a) \<and> src = aa_ipv4 a
           \<and> apc_network (ap_config ?p) < src \<and> src < apc_broadcast (ap_config ?p) \<and> src \<noteq> apc_ipv4_gateway (ap_config ?p)
       | SourceV6 src \<Rightarrow> slice 8 24 packet = to_be src \<and> hi64 src = hi64 (aa_ipv6_prefix a)"
    using src
  proof (elim disjE conjE)
    assume s4: "vu_source u = SourceV4 (from_be (slice 12 16 packet))" and len: "20 \<le> length packet"
    have "to_be (from_be (slice 12 16 packet) :: arr4) = slice 12 16 packet" using len by (simp add: length_slice)
    then show ?thesis using s4 v4 [of a "from_be (slice 12 16 packet)"] a(2) own(2) by (simp add: ipv4_usable_iff [OF c])
  next
    assume s6: "vu_source u = SourceV6 (from_be (slice 8 24 packet))" and len: "40 \<le> length packet"
    have "to_be (from_be (slice 8 24 packet) :: arr16) = slice 8 24 packet" using len by (simp add: length_slice)
    then show ?thesis using s6 v6 [of a "from_be (slice 8 24 packet)"] a(2) by simp
  qed
  with u a(1) apart show ?thesis by blast
qed

text \<open>A client is not refused its own addresses: in every state the pool reaches, a packet of
  a session with an Active lease is accepted exactly when it is not larger than the configured
  maximum and is either an IPv4 packet of consistent lengths from the leased address or an IPv6
  packet of consistent length from the leased prefix. The checks for a zero source and for the
  gateway's address never refuse the owner.\<close>

theorem uplink_accepted_exactly:
  assumes "pool_reachable s" and "pool_lookup_active (py_pool s) sid = Some a"
  shows "(\<exists>u. snd (fw_validate f (py_pool s) sid packet) = Inr u) \<longleftrightarrow>
    length packet \<le> uf_maximum_packet_bytes f
    \<and> (ipv4_frame packet \<and> slice 12 16 packet = to_be (aa_ipv4 a)
       \<or> ipv6_frame packet \<and> slice 8 16 packet = slice 0 8 (to_be (aa_ipv6_prefix a)))"
proof -
  let ?p = "py_pool s"
  have c: "pool_config_ok (ap_config ?p)"
    using pool_reachable_inv [OF assms(1)] by (auto simp: pool_inv_on_def pool_ok_def)
  note own = active_lease(2,3) [OF assms]
  have nz: "aa_ipv4 a \<noteq> 0" "aa_ipv4 a \<noteq> apc_ipv4_gateway (ap_config ?p)" using own(1) by (auto simp: ipv4_usable_iff [OF c])
  note up = usable_v6_upper [OF c own(2)]
  have four: "(from_be (slice 12 16 packet) :: arr4) \<noteq> 0 \<and> source_check ?p a (SourceV4 (from_be (slice 12 16 packet))) = None
      \<longleftrightarrow> slice 12 16 packet = to_be (aa_ipv4 a)" if "ipv4_frame packet"
  proof -
    have "length (slice 12 16 packet) = 4" using that by (simp add: ipv4_frame_def length_slice)
    then have "slice 12 16 packet = to_be (aa_ipv4 a) \<longleftrightarrow> from_be (slice 12 16 packet) = aa_ipv4 a"
      by (metis from_be_to_be_widths(2) to_be_from_be_widths(2))
    with nz show ?thesis by (auto simp: source_check_def)
  qed
  have six: "(from_be (slice 8 24 packet) :: arr16) \<noteq> 0 \<and> source_check ?p a (SourceV6 (from_be (slice 8 24 packet))) = None
      \<longleftrightarrow> slice 8 16 packet = slice 0 8 (to_be (aa_ipv6_prefix a))" if "ipv6_frame packet"
  proof -
    let ?src = "from_be (slice 8 24 packet) :: arr16"
    have "to_be ?src = slice 8 24 packet" using that by (simp add: ipv6_frame_def length_slice)
    then have s: "slice 0 8 (to_be ?src) = slice 8 16 packet" by (simp add: slice_def)
    have "?src \<noteq> 0" if "slice 8 16 packet = slice 0 8 (to_be (aa_ipv6_prefix a))"
    proof
      assume "?src = 0"
      with s that have "to_be (hi64 (aa_ipv6_prefix a)) = slice 0 8 (to_be (0 :: arr16))" by (simp add: upper_half)
      then have "hi64 (aa_ipv6_prefix a) = hi64 0" unfolding upper_half by (metis from_be_to_be_widths(3))
      with up(2) show False by (simp add: hi64_def)
    qed
    with s show ?thesis by (auto simp: source_check_def)
  qed
  show ?thesis unfolding fw_validate_iff assms(2) using four six by auto
qed

text \<open>A packet from the address that the first session of the sample pool leases.\<close>

definition lan_packet :: "byte list" where
  "lan_packet = [0x45, 0, 0, 20, 0, 0, 0, 0, 64, 6, 0, 0, 10, 64, 0, 3, 10, 64, 0, 1]"

lemma lan_active:
  "\<exists>s. pool_reachable s \<and> pool_lookup_active (py_pool s) 5 = Some (lan_address 3 1)"
proof -
  have "\<exists>m. trace pool_exec lan_start (
     [(PoReserve 5 7 (lan_time 0), Parked), (PoFinish 0 [True], Answered (Addresses (Inr (lan_address 3 1))))] @
     [(PoCommit 5 (lan_time 10), Parked), (PoFinish 0 [True], Answered (Addresses (Inr (lan_address 3 1))))])
     (lan_state [(5, lan_lease 7 (sat_add 10 3600000))] [] [] m)"
    unfolding trace_append lan_start_state
    by (intro exI conjI, rule lan_reserved, simp, simp, rule lan_committed, rule lan_before(1))
  then obtain m where "pool_reachable (lan_state [(5, lan_lease 7 (sat_add 10 3600000))] [] [] m)"
    using lan_reachable by blast
  moreover have "pool_lookup_active (py_pool (lan_state [(5, lan_lease 7 (sat_add 10 3600000))] [] [] m)) 5 = Some (lan_address 3 1)"
    by (simp add: pool_lookup_active_def lan_state_def lan_lease_def)
  ultimately show ?thesis by blast
qed

lemma lan_packet_frame: "ipv4_frame lan_packet" "slice 12 16 lan_packet = to_be (aa_ipv4 (lan_address 3 1))"
  by (simp_all add: ipv4_frame_def lan_packet_def slice_def nat_be_def lan_address_def to_be_def be_nat_numeral)

definition lan_forwarder :: uplink_forwarder where
  "lan_forwarder = \<lparr>uf_maximum_packet_bytes = 1500,
     uf_metrics = \<lparr>fm_validated = 0, fm_parse_dropped = 0, fm_spoof_dropped = 0\<rparr>\<rparr>"

lemma lan_packet_fits: "length lan_packet \<le> uf_maximum_packet_bytes lan_forwarder"
  by (simp add: lan_packet_def lan_forwarder_def)

lemma uplink_accepted_exactly_witness:
  "\<exists>s u. pool_reachable s \<and> snd (fw_validate lan_forwarder (py_pool s) 5 lan_packet) = Inr u"
proof -
  obtain s where s: "pool_reachable s" "pool_lookup_active (py_pool s) 5 = Some (lan_address 3 1)" using lan_active by blast
  from uplink_accepted_exactly [OF s, of lan_forwarder lan_packet] lan_packet_frame lan_packet_fits s(1)
  show ?thesis by blast
qed

lemma lan_forwarded:
  assumes "pool_lookup_active p 5 = Some (lan_address 3 1)" and "apc_ipv4_gateway (ap_config p) \<noteq> 0x0a400003"
  shows "snd (fw_validate lan_forwarder p 5 lan_packet) =
    Inr \<lparr>vu_session_id = 5, vu_source = SourceV4 0x0a400003, vu_packet = lan_packet\<rparr>"
proof -
  have "(from_be (slice 12 16 lan_packet) :: arr4) = 0x0a400003"
    unfolding lan_packet_frame(2) by (simp add: lan_address_def)
  with assms lan_packet_frame(1) lan_packet_fits show ?thesis
    unfolding fw_validate_iff by (auto simp: source_check_def lan_address_def)
qed

lemma uplink_source_owned_witness:
  "\<exists>s. pool_reachable s \<and> snd (fw_validate lan_forwarder (py_pool s) 5 lan_packet) =
      Inr \<lparr>vu_session_id = 5, vu_source = SourceV4 0x0a400003, vu_packet = lan_packet\<rparr>
    \<and> 0x0a400003 < apc_broadcast (ap_config (py_pool s))"
proof -
  obtain s where s: "pool_reachable s" "pool_lookup_active (py_pool s) 5 = Some (lan_address 3 1)" using lan_active by blast
  have "pool_config_ok (ap_config (py_pool s))"
    using pool_reachable_inv [OF s(1)] by (auto simp: pool_inv_on_def pool_ok_def)
  then have "apc_ipv4_gateway (ap_config (py_pool s)) \<noteq> 0x0a400003"
    using active_lease(2) [OF s] by (auto simp: ipv4_usable_iff lan_address_def)
  from lan_forwarded [OF s(2) this]
  have v: "snd (fw_validate lan_forwarder (py_pool s) 5 lan_packet) =
    Inr \<lparr>vu_session_id = 5, vu_source = SourceV4 0x0a400003, vu_packet = lan_packet\<rparr>" .
  from uplink_source_owned [OF s(1) v] v s(1) show ?thesis by auto
qed

end
