(* ===== verification/ListenerParts.thy ===== *)
theory ListenerParts
  imports Listener AdmissionProps Forwarding
begin

text \<open>
  What each step of the listener does to the session manager and to the pool: the lemmas that the
  theorems on the whole listener are composed of.
\<close>

abbreviation sessions_of :: "gateway \<Rightarrow> manager" where
  "sessions_of g \<equiv> ah_sessions (ls_handler g)"

section \<open>The parts\<close>

lemma cleaned_up_handler [simp]: "ls_handler (cleaned_up removals g) = ls_handler g"
  by (simp add: cleaned_up_def)

lemma cleaned_up_Nil [simp]: "cleaned_up [] g = g"
  by (simp add: cleaned_up_def)

lemma on_pool_handler [simp]: "ls_handler (fst (on_pool operation answers g)) = ls_handler g"
  by (simp add: on_pool_def split: option.split prod.split)

lemma on_sessions_simps [simp]:
  "sessions_of (fst (on_sessions operation g)) = fst (operation (sessions_of g))"
  "snd (on_sessions operation g) = fst (snd (operation (sessions_of g)))"
  by (simp_all add: on_sessions_def split: prod.split)

lemma release_async_handler [simp]: "ls_handler (release_async sid answers g) = ls_handler g"
  by (simp add: release_async_def)

lemma drop_session_caps: "sm_next_connection_id (fst (drop_session sid reason m)) = sm_next_connection_id m"
  by simp

lemma close_by_id_ok:
  "sm_ok (sessions_of g) \<Longrightarrow> sm_ok (sessions_of (close_session_by_id sid g))
    \<and> sm_next_connection_id (sessions_of (close_session_by_id sid g)) = sm_next_connection_id (sessions_of g)"
  by (simp add: close_session_by_id_def sm_ok_close sm_close_def case_prod_beta sm_ok_drop)

lemma sweep_pool_ok:
  "sm_ok (sessions_of g) \<Longrightarrow> sm_ok (sessions_of (sweep_pool now answers g))
    \<and> sm_next_connection_id (sessions_of (sweep_pool now answers g)) = sm_next_connection_id (sessions_of g)"
proof -
  assume ok: "sm_ok (sessions_of g)"
  have fold: "sm_ok (sessions_of (foldl (\<lambda>g sid. close_session_by_id sid g) g ids))
      \<and> sm_next_connection_id (sessions_of (foldl (\<lambda>g sid. close_session_by_id sid g) g ids))
        = sm_next_connection_id (sessions_of g)" if "sm_ok (sessions_of g)" for g ids
    using that by (induction ids arbitrary: g) (use close_by_id_ok in auto)
  show ?thesis using fold [of "g\<lparr>ls_pool := p\<rparr>" for p] ok
    by (auto simp: sweep_pool_def split: option.split prod.split)
qed

text \<open>Neither the sweep of the manager nor that of the pool gives a session a new deadline.\<close>

lemma verifier_on_sessions [simp]: "ah_verifier (ls_handler (fst (on_sessions operation g))) = ah_verifier (ls_handler g)"
  by (simp add: on_sessions_def split: prod.split)

lemma close_all_frame:
  "ah_verifier (ls_handler (foldl (\<lambda>g sid. close_session_by_id sid g) g ids)) = ah_verifier (ls_handler g)
    \<and> deadlines (sessions_of (foldl (\<lambda>g sid. close_session_by_id sid g) g ids)) sid \<subseteq> deadlines (sessions_of g) sid"
proof (induction ids arbitrary: g)
  case (Cons s ids)
  have "deadlines (sessions_of (close_session_by_id s g)) sid \<subseteq> deadlines (sessions_of g) sid"
    by (simp add: close_session_by_id_def deadlines_close)
  with Cons [of "close_session_by_id s g"] show ?case by (auto simp: close_session_by_id_def)
qed simp

lemma sweep_pool_frame:
  "ah_verifier (ls_handler (sweep_pool now answers g)) = ah_verifier (ls_handler g)"
  "deadlines (sessions_of (sweep_pool now answers g)) sid \<subseteq> deadlines (sessions_of g) sid"
  using close_all_frame [of "g\<lparr>ls_pool := p\<rparr>" for p]
  by (auto simp: sweep_pool_def split: option.split prod.split)

lemma granted_iff: "granted_addresses r = Some a \<longleftrightarrow> r = Some (Addresses (Inr a))"
  by (auto elim!: granted_addresses.elims)

lemma commit_granted:
  assumes "on_pool (\<lambda>p. commit_begin p sid now) answers g = (g', r)" and "granted_addresses r = Some lease"
  shows "(pool_lookup_active (ls_pool g') sid = Some lease \<or> quarantines (ap_release_pending (ls_pool g')) sid lease)
    \<and> ls_handler g' = ls_handler g"
proof -
  obtain bs p answer where c: "complete (commit_begin (ls_pool g) sid now) bs = (p, answer)"
    and g': "g' = g\<lparr>ls_pool := p\<rparr>" and answer: "answer = Addresses (Inr lease)"
    using assms by (auto simp: on_pool_def granted_iff split: option.splits prod.splits)
  have "pool_lookup_active p sid = Some lease \<or> quarantines (ap_release_pending p) sid lease"
    using c unfolding answer
    by (auto simp: complete_def commit_begin_def Let_def promote_finish_def expire_finish_def pool_lookup_active_def
      quarantines_def map_of_hm_insert pool_count_def map_prod_def split: if_split_asm option.splits prod.splits sum.splits)
  then show ?thesis by (simp add: g')
qed

text \<open>A capability that is granted is for the reserved session, which is active and not expired.\<close>

lemma commit_and_bind_owner:
  assumes "commit_admission_and_bind m r now = (m', Inr connection, removals)"
  shows "ac_session_id connection = ads_session_id r \<and> authenticated m' connection \<and> removals = []
    \<and> (\<exists>ms. map_of (sm_sessions m') (ads_session_id r) = Some ms
      \<and> vs_state (ms_session ms) = SActive \<and> \<not> vs_is_expired (ms_session ms) now
      \<and> (if ads_creates_session r
         then ad_device_id (vs_admission (ms_session ms)) = ads_device_id r \<and> ms_organization_id ms = ads_organization_id r
           \<and> ad_expires_at_ms (vs_admission (ms_session ms)) = ads_expires_at_ms r
         else map_of (sm_sessions m) (ads_session_id r) = Some ms))"
proof -
  have grant: "ac_session_id (snd (grant_connection n sid)) = sid \<and> authenticated (fst (grant_connection n sid)) (snd (grant_connection n sid))
      \<and> sm_sessions (fst (grant_connection n sid)) = sm_sessions n" for n sid
    by (simp add: grant_connection_def authenticated_def next_connection_identity_def Let_def map_of_hm_insert)
  show ?thesis
  proof (cases "ads_creates_session r")
    case False
    with assms have "bind_authenticated_connection m (ads_session_id r) now = (m', Inr connection, removals)"
      by (simp add: commit_admission_and_bind_def)
    with False grant [of m "ads_session_id r"] show ?thesis
      by (auto simp: bind_authenticated_connection_def case_prod_beta Let_def split: option.splits if_split_asm)
  next
    case True
    have new: "vs_admission s = \<lparr>ad_session_id = ads_session_id r, ad_device_id = ads_device_id r, ad_expires_at_ms = ads_expires_at_ms r\<rparr>
        \<and> vs_state s = SActive \<and> \<not> vs_is_expired s now"
      if "admitted_session m r now = Inr s" for s
      using that by (auto simp: admitted_session_def v2_session_new_def vs_activate_def vs_is_expired_def
        split: if_split_asm sum.splits prod.splits)
    from True assms obtain session where session: "admitted_session m r now = Inr session"
      and m': "m' = fst (grant_connection (opened m r session now) (ads_session_id r))"
      "connection = snd (grant_connection (opened m r session now) (ads_session_id r))" "removals = []"
      by (auto simp: commit_and_bind_eq Let_def split: sum.splits if_split_asm)
    have "map_of (sm_sessions (opened m r session now)) (ads_session_id r) = Some \<lparr>ms_session = session,
        ms_organization_id = ads_organization_id r, ms_last_activity_ms = now\<rparr>"
      by (simp add: opened_def map_of_hm_insert)
    with True m' grant [of "opened m r session now" "ads_session_id r"] new [OF session] show ?thesis by simp
  qed
qed

section \<open>Accepting\<close>

lemma accept_admitted_ok:
  assumes run: "accept_admitted policy transaction_id admitted now pool_now env g = (g', Inr (c, response))"
  shows "\<exists>connection lease. commit_admission_and_bind (sessions_of g) (aa_reservation admitted) (at_monotonic_millis now)
        = (sessions_of g', Inr connection, [])
    \<and> c = \<lparr>lc_admitted = admitted, lc_connection = Some connection, lc_attached_path = None\<rparr>
    \<and> template_frame policy transaction_id admitted lease = Inr response
    \<and> (pool_lookup_active (ls_pool g') (so_session_id (aa_owner admitted)) = Some lease
        \<or> quarantines (ap_release_pending (ls_pool g')) (so_session_id (aa_owner admitted)) lease)"
proof -
  let ?sid = "so_session_id (aa_owner admitted)"
  obtain g1 reserved where r: "on_pool (\<lambda>p. reserve_begin p ?sid (so_device_id (aa_owner admitted)) pool_now) (ae_reserve env) g
      = (g1, reserved)" by fastforce
  have h1: "ls_handler g1 = ls_handler g" using on_pool_handler r by (metis fst_conv)
  obtain h b removals where b: "commit_and_bind (ls_handler g1) admitted now = (h, b, removals)" by (metis prod_cases3)
  from run r b obtain connection where conn: "b = Inr connection"
    by (cases b) (auto simp: accept_admitted_def Let_def split: if_split_asm)
  obtain m' where m': "commit_admission_and_bind (sessions_of g) (aa_reservation admitted) (at_monotonic_millis now)
      = (m', Inr connection, removals)" and h: "h = (ls_handler g1)\<lparr>ah_sessions := m'\<rparr>"
    using b conn h1 by (auto simp: commit_and_bind_def split: prod.splits sum.splits)
  from commit_and_bind_owner [OF m'] have none: "removals = []" by blast
  let ?g = "g1\<lparr>ls_handler := h\<rparr>"
  obtain g2 committed where k: "on_pool (\<lambda>p. commit_begin p ?sid pool_now) (ae_commit env) ?g = (g2, committed)" by fastforce
  have run': "(case granted_addresses committed of
             None \<Rightarrow> (unwind ?sid connection env g2, Inl LsAddressPool)
           | Some lease \<Rightarrow>
               (case template_frame policy transaction_id admitted lease of
                  Inl error \<Rightarrow> (unwind ?sid connection env g2, Inl error)
                | Inr response \<Rightarrow>
                    if \<not> ae_written env then (unwind ?sid connection env g2, Inl LsResponseWrite)
                    else (g2, Inr (\<lparr>lc_admitted = admitted, lc_connection = Some connection, lc_attached_path = None\<rparr>,
                      response)))) = (g', Inr (c, response))"
    using run r b conn none k by (simp add: accept_admitted_def Let_def split: if_split_asm)
  then obtain lease where lease: "granted_addresses committed = Some lease" "template_frame policy transaction_id admitted lease = Inr response"
    and c: "c = \<lparr>lc_admitted = admitted, lc_connection = Some connection, lc_attached_path = None\<rparr>" "g' = g2"
    by (auto split: option.splits sum.splits if_split_asm)
  from commit_granted [OF k lease(1)] h m' none lease c show ?thesis by auto
qed

section \<open>Control frames\<close>

definition lease_renewed :: "gateway \<Rightarrow> session_id \<Rightarrow> pool_time \<Rightarrow> bool" where
  "lease_renewed g sid now \<longleftrightarrow> (\<exists>l. map_of (ap_active (ls_pool g)) sid = Some l
     \<and> le_expires_at_ms l = sat_add (tm_monotonic_ms now) (apc_lease_ttl_ms (ap_config (ls_pool g))))"

lemma renew_lease_ok:
  assumes "renew_lease sid now env g = (g', True)"
  shows "lease_renewed g' sid now \<and> ls_handler g' = ls_handler g"
proof -
  obtain bs p where c: "complete (renew_begin (ls_pool g) sid now) bs = (p, Renewed (Inr ()))" and g': "g' = g\<lparr>ls_pool := p\<rparr>"
    using assms by (auto simp: renew_lease_def on_pool_def split: option.splits prod.splits)
  have "\<exists>l. map_of (ap_active p) sid = Some l
      \<and> le_expires_at_ms l = sat_add (tm_monotonic_ms now) (apc_lease_ttl_ms (ap_config p))"
    using c by (auto simp: complete_def renew_begin_def renew_finish_def Let_def map_of_hm_insert map_prod_def
      split: if_split_asm option.splits prod.splits)
  then show ?thesis by (simp add: g' lease_renewed_def)
qed

lemma activity_quiet:
  "record_authenticated_activity m connection now = (m', Inr u, removals) \<Longrightarrow> removals = [] \<and> authenticated m connection"
  by (auto simp: record_authenticated_activity_def Let_def split: if_split_asm option.splits prod.splits)

lemma validate_quiet:
  "validate_attached_path m connection path_id ep ke now = (m', Inr u, removals) \<Longrightarrow> removals = []
    \<and> map_of (sm_connections m') (ac_connection_id connection) = Some (ac_session_id connection, path_id, ep, ke)"
  by (auto simp: validate_attached_path_def Let_def put_session_def split: if_split_asm option.splits prod.splits)

lemma reserve_attach_quiet: "snd (snd (sm_reserve_attach m connection ep ke now)) = []"
  by (auto simp: sm_reserve_attach_def Let_def split: option.split sum.split prod.split)

lemma reserve_attach_for:
  "sm_reserve_attach m connection ep ke now = (m', Inr r, removals) \<Longrightarrow> gr_session_id r = ac_session_id connection
    \<and> ar_connection_id (gr_reservation r) = ac_connection_id connection"
  by (auto simp: sm_reserve_attach_def reserve_attach_def Let_def split: if_split_asm option.splits sum.splits prod.splits)

lemma commit_attach_quiet: "snd (snd (sm_commit_attach m r)) = []"
  by (auto simp: sm_commit_attach_def Let_def split: option.split sum.split prod.split)

lemma commit_attach_bound:
  assumes ok: "sm_ok m" and c: "sm_commit_attach m r = (m', Inr b, removals)"
  shows "map_of (sm_connections m') (ar_connection_id (gr_reservation r))
      = Some (gr_session_id r, pb_path_id b, pb_path_epoch b, pb_key_epoch b)"
proof -
  have "map_of (sm_connections m') (pb_connection_id b)
      = Some (gr_session_id r, pb_path_id b, pb_path_epoch b, pb_key_epoch b)"
    using c by (auto simp: sm_commit_attach_def Let_def map_of_hm_insert split: if_split_asm option.splits sum.splits prod.splits)
  moreover have "pb_connection_id b = ar_connection_id (gr_reservation r)"
    using c by (cases rule: commit_attach_cases [OF ok, of r]) auto
  ultimately show ?thesis by simp
qed

lemma detach_quiet: "snd (snd (detach_connection m connection path_id ep now)) = []"
  by (auto simp: detach_connection_def Let_def split: option.split prod.split)

text \<open>Operations that remove no session leave the pool alone.\<close>

lemma on_sessions_quiet:
  assumes "on_sessions operation g = (g', r)" and "snd (snd (operation (sessions_of g))) = []"
  shows "ls_pool g' = ls_pool g \<and> operation (sessions_of g) = (sessions_of g', r, [])"
  using assms by (cases "operation (sessions_of g)") (auto simp: on_sessions_def)

lemma renew_activity_ok:
  assumes "renew_activity connection sid now env g = (g', True)"
  shows "lease_renewed g' sid now \<and> authenticated (sessions_of g) connection
    \<and> (sm_ok (sessions_of g) \<longrightarrow> sm_ok (sessions_of g'))"
proof -
  obtain g1 where a: "on_sessions (\<lambda>m. record_authenticated_activity m connection (tm_monotonic_ms now)) g = (g1, Inr ())"
    and renew: "renew_lease sid now env g1 = (g', True)"
    using assms by (auto simp: renew_activity_def split: prod.splits sum.splits if_split_asm)
  obtain m removals where act: "record_authenticated_activity (sessions_of g) connection (tm_monotonic_ms now) = (m, Inr (), removals)"
    and m: "m = sessions_of g1"
    using a by (auto simp: on_sessions_def split: prod.splits)
  have "sm_ok (sessions_of g1)" if "sm_ok (sessions_of g)" using sm_ok_validate [OF that] act m by (metis fst_conv)
  then show ?thesis using renew_lease_ok [OF renew] activity_quiet [OF act] by simp
qed

text \<open>What an answered attach leaves: the path is bound to the connection and the lease is renewed.\<close>

definition path_in_force :: "gateway \<Rightarrow> admitted_connection \<Rightarrow> session_id \<Rightarrow> path_id \<Rightarrow> u64 \<Rightarrow> pool_time \<Rightarrow> bool" where
  "path_in_force g c sid path_id ep now \<longleftrightarrow> lease_renewed g sid now
     \<and> (\<exists>connection b. lc_connection c = Some connection \<and> lc_attached_path c = Some b
       \<and> lb_path_id b = path_id \<and> lb_path_epoch b = ep
       \<and> map_of (sm_connections (sessions_of g)) (ac_connection_id connection)
           = Some (ac_session_id connection, path_id, ep, lb_key_epoch b))"

lemma lease_renewed_cong: "ls_pool g' = ls_pool g \<Longrightarrow> lease_renewed g' = lease_renewed g"
  by (simp add: lease_renewed_def fun_eq_iff)

lemma attach_new_answer:
  assumes run: "attach_new g c transaction_id sid nonce ep ke now env = (g', c', Inr response)" and ok: "sm_ok (sessions_of g)"
  shows "lease_renewed g' sid now \<and> (case cf_message response of
      PathAttached s path_id e \<Rightarrow> s = sid \<and> path_in_force g' c' sid path_id e now
    | Reject code reason \<Rightarrow> True | _ \<Rightarrow> False)"
proof -
  obtain connection where conn: "lc_connection c = Some connection" using run by (auto simp: attach_new_def split: option.splits)
  obtain g1 where a: "renew_activity connection sid now env g = (g1, True)"
    using run conn by (auto simp: attach_new_def split: option.splits prod.splits bool.splits)
  from renew_activity_ok [OF a] ok have renewed: "lease_renewed g1 sid now" and ok1: "sm_ok (sessions_of g1)" by blast+
  obtain g2 r where b: "on_sessions (\<lambda>m. sm_reserve_attach m connection ep ke (tm_monotonic_ms now)) g1 = (g2, r)" by fastforce
  note b' = on_sessions_quiet [OF b reserve_attach_quiet]
  have ok2: "sm_ok (sessions_of g2)" using sm_ok_reserve_attach [OF ok1] b' by (metis fst_conv)
  have renewed2: "lease_renewed g2 sid now" using renewed b' lease_renewed_cong by metis
  show ?thesis
  proof (cases r)
    case (Inl e)
    then show ?thesis using run conn a b renewed2 by (auto simp: attach_new_def listener_reject_def)
  next
    case (Inr reservation)
    obtain g3 x where d: "on_sessions (\<lambda>m. sm_commit_attach m reservation) g2 = (g3, x)" by fastforce
    note d' = on_sessions_quiet [OF d commit_attach_quiet]
    have renewed3: "lease_renewed g3 sid now" using renewed2 d' lease_renewed_cong by metis
    show ?thesis
    proof (cases x)
      case (Inl e)
      then show ?thesis using run conn a b d Inr renewed3 by (auto simp: attach_new_def listener_reject_def)
    next
      case (Inr path)
      have same: "gr_session_id reservation = ac_session_id connection"
        "ar_connection_id (gr_reservation reservation) = ac_connection_id connection"
        using reserve_attach_for b' \<open>r = Inr reservation\<close> by blast+
      have "map_of (sm_connections (sessions_of g3)) (ac_connection_id connection)
          = Some (ac_session_id connection, pb_path_id path, pb_path_epoch path, pb_key_epoch path)"
        using commit_attach_bound [OF ok2] d' Inr same by metis
      then show ?thesis using run conn a b d Inr \<open>r = Inr reservation\<close> renewed3
        by (auto simp: attach_new_def path_attached_def path_in_force_def)
    qed
  qed
qed

lemma attach_again_answer:
  assumes run: "attach_again g c path transaction_id sid nonce ep ke now env = (g', c', Inr response)"
    and path: "lc_attached_path c = Some path"
  shows "case cf_message response of
      PathAttached s path_id e \<Rightarrow> s = sid \<and> path_in_force g' c' sid path_id e now
    | Reject code reason \<Rightarrow> True | _ \<Rightarrow> False"
proof (cases "lb_path_epoch path = ep \<and> lb_key_epoch path = ke \<and> lb_path_nonce path = nonce")
  case False
  then show ?thesis using run by (auto simp: attach_again_def listener_reject_def)
next
  case True
  obtain connection where conn: "lc_connection c = Some connection"
    using run True by (auto simp: attach_again_def split: option.splits)
  obtain g1 r where b: "on_sessions (\<lambda>m. validate_attached_path m connection (lb_path_id path) (lb_path_epoch path)
      (lb_key_epoch path) (tm_monotonic_ms now)) g = (g1, r)" by fastforce
  show ?thesis
  proof (cases r)
    case (Inl e)
    then show ?thesis using run True conn b by (auto simp: attach_again_def listener_reject_def)
  next
    case (Inr u)
    obtain removals where v: "validate_attached_path (sessions_of g) connection (lb_path_id path) (lb_path_epoch path)
      (lb_key_epoch path) (tm_monotonic_ms now) = (sessions_of g1, Inr (), removals)"
      using b Inr by (auto simp: on_sessions_def split: prod.splits)
    obtain ok g2 where d: "renew_lease sid now env g1 = (g2, ok)" by fastforce
    show ?thesis using run True conn b Inr d path renew_lease_ok [of sid now env g1 g2] validate_quiet [OF v]
      by (cases ok) (auto simp: attach_again_def path_attached_def path_in_force_def)
  qed
qed

lemma detach_answer:
  assumes run: "detach_path g c transaction_id sid path_id ep now env = (g', c', Inr response)"
  shows "lease_renewed g' sid now \<and> (case cf_message response of Ack \<Rightarrow> True | Reject code reason \<Rightarrow> True | _ \<Rightarrow> False)"
proof -
  obtain connection where conn: "lc_connection c = Some connection" using run by (auto simp: detach_path_def split: option.splits)
  obtain g1 where a: "renew_activity connection sid now env g = (g1, True)"
    using run conn by (auto simp: detach_path_def split: option.splits prod.splits bool.splits)
  from renew_activity_ok [OF a] have renewed: "lease_renewed g1 sid now" by blast
  obtain g2 r where b: "on_sessions (\<lambda>m. detach_connection m connection path_id ep (tm_monotonic_ms now)) g1 = (g2, r)" by fastforce
  have "lease_renewed g2 sid now" using renewed on_sessions_quiet [OF b detach_quiet] lease_renewed_cong by metis
  then show ?thesis using run conn a b by (cases r) (auto simp: detach_path_def listener_reject_def split: if_split_asm)
qed

lemma bind_refused:
  assumes "map_of (sm_sessions m) sid = Some ms" and "vs_state (ms_session ms) = SActive"
    and "now < ad_expires_at_ms (vs_admission (ms_session ms))"
    and "maximum_authenticated_connections m \<le> length (sm_authenticated m)"
  shows "bind_authenticated_connection m sid now = (connection_counted m, Inl MConnectionCapacity, [])"
  using assms by (simp add: bind_authenticated_connection_def vs_is_expired_def linorder_not_le [symmetric])

section \<open>Permits\<close>

text \<open>Only an admission and the handshake before it touch the limiter.\<close>

lemma limiter_cleaned_up [simp]: "ls_handler (cleaned_up removals g) = ls_handler g"
  by (simp add: cleaned_up_def)

lemma limiter_on_sessions [simp]: "ah_limiter (ls_handler (fst (on_sessions f g))) = ah_limiter (ls_handler g)"
  by (simp add: on_sessions_def split: prod.split)

lemma handler_on_pool [simp]: "ls_handler (fst (on_pool f answers g)) = ls_handler g"
  by (simp add: on_pool_def split: option.split prod.split)

lemma limiter_close_by_id [simp]: "ah_limiter (ls_handler (close_session_by_id sid g)) = ah_limiter (ls_handler g)"
  by (simp add: close_session_by_id_def)

lemma limiter_close_all [simp]:
  "ah_limiter (ls_handler (foldl (\<lambda>g sid. close_session_by_id sid g) g sids)) = ah_limiter (ls_handler g)"
  by (induction sids arbitrary: g) simp_all

lemma limiter_sweep_pool [simp]: "ah_limiter (ls_handler (sweep_pool now answers g)) = ah_limiter (ls_handler g)"
  by (simp add: sweep_pool_def split: option.split prod.split)

lemma limiter_exits [simp]:
  "ah_limiter (ls_handler (unwind sid connection env g)) = ah_limiter (ls_handler g)"
  "ah_limiter (ls_handler (abort_admitted admitted g)) = ah_limiter (ls_handler g)"
  "ah_limiter (ls_handler (release_async sid answers g)) = ah_limiter (ls_handler g)"
  by (simp_all add: unwind_def abort_admitted_def release_async_def handler_abort_def)

lemma limiter_commit: "ah_limiter (fst (commit_and_bind h admitted now)) = ah_limiter h"
  by (simp add: commit_and_bind_def split: prod.split sum.split)

lemma limiter_accept_admitted [simp]:
  "ah_limiter (ls_handler (fst (accept_admitted policy transaction_id admitted now pool_now env g))) = ah_limiter (ls_handler g)"
proof -
  let ?sid = "so_session_id (aa_owner admitted)"
  obtain g1 reserved where a: "on_pool (\<lambda>p. reserve_begin p ?sid (so_device_id (aa_owner admitted)) pool_now) (ae_reserve env) g
      = (g1, reserved)" by fastforce
  have g1: "ls_handler g1 = ls_handler g" using a by (metis fst_conv handler_on_pool)
  obtain h r removals where b: "commit_and_bind (ls_handler g1) admitted now = (h, r, removals)" by (metis prod.exhaust)
  have h: "ah_limiter h = ah_limiter (ls_handler g)" using b g1 limiter_commit by (metis fst_conv)
  obtain g2 committed where c: "on_pool (\<lambda>p. commit_begin p ?sid pool_now) (ae_commit env) (cleaned_up removals (g1\<lparr>ls_handler := h\<rparr>))
      = (g2, committed)" by fastforce
  have g2: "ls_handler g2 = h"
    using handler_on_pool [of "\<lambda>p. commit_begin p ?sid pool_now" "ae_commit env" "cleaned_up removals (g1\<lparr>ls_handler := h\<rparr>)"] c by simp
  show ?thesis using h g2
    by (simp add: accept_admitted_def Let_def a b [unfolded g1] b c g1 split: sum.split option.split)
qed

end
