(* ===== verification/ListenerRuns.thy ===== *)
theory ListenerRuns
  imports ListenerParts
begin

text \<open>Runs of a small gateway that the theorems on the listener are applied to.\<close>

section \<open>A gateway\<close>

text \<open>A manager that holds one session with one capability, filled by the device of session 5.\<close>

definition one_config :: manager_config where
  "one_config = gw_config\<lparr>mc_maximum_sessions := 1, mc_maximum_paths_per_session := 1\<rparr>"

definition one_new :: manager where
  "one_new = gw_new\<lparr>sm_config := one_config\<rparr>"

definition one_admitted :: manager where
  "one_admitted = one_new\<lparr>sm_sessions := [(5, \<lparr>ms_session = gw_session\<lparr>vs_maximum_paths := 1\<rparr>, ms_organization_id = 7,
     ms_last_activity_ms = 10\<rparr>)], sm_authenticated := [(1, 5)], sm_next_connection_id := 2\<rparr>"

lemmas admit_eval = reserve_admission_def commit_admission_and_bind_def admitted_session_def v2_session_new_def
  vs_activate_def vs_is_expired_def maximum_authenticated_connections_def usize_add_def usize_mul_def usize_max_def
  grant_connection_def next_connection_identity_def

lemma one_reachable: "sm_reachable 0 one_admitted"
proof -
  have start: "manager_new one_config = Inr one_new" and few: "mc_maximum_sessions one_config \<le> usize_max"
    by (simp_all add: manager_new_def one_config_def one_new_def gw_eval usize_max_def)
  have run: "trace sm_exec one_new [(ReserveAdmission 5 6 7 5000 9, MAdmission gw_reservation, []),
      (CommitAndBind gw_reservation 10, MConnection gw_connection, [])] one_admitted"
    by (simp add: trace_Cons one_new_def one_admitted_def one_config_def admit_eval gw_eval)
  show ?thesis
    unfolding sm_reachable_def by (intro exI conjI, rule start, rule few, rule run) simp
qed

text \<open>A manager whose session 5 was closed and admitted again.\<close>

definition gw_again :: manager where
  "gw_again = gw_admitted\<lparr>sm_authenticated := [(2, 5)], sm_next_connection_id := 3,
     sm_metrics := gw_metrics\<lparr>mm_sessions_closed := 1\<rparr>\<rparr>"

lemma gw_again_reachable: "sm_reachable 0 gw_again"
proof -
  have "trace sm_exec gw_admitted [(CloseBySelf gw_connection, MAnswer True, [\<lparr>rm_session_id = 5, rm_device_id = 6,
        rm_organization_id = 7, rm_reason = RClosed\<rparr>]),
      (ReserveAdmission 5 6 7 5000 9, MAdmission gw_reservation, []),
      (CommitAndBind gw_reservation 10, MConnection \<lparr>ac_session_id = 5, ac_connection_id = 2\<rparr>, [])] gw_again"
    by (simp add: trace_Cons gw_again_def gw_admitted_def close_session_def authenticated_def drop_session_def remove_session_def
        record_removal_def vs_close_def kt_retain_def admit_eval gw_eval)
  from sm_reachable_trace [OF gw_reachable(2) this, of 0] show ?thesis by simp
qed

text \<open>The pool in which session 5 has the first addresses.\<close>

definition lan_leased :: "pool_metrics \<Rightarrow> address_pool" where
  "lan_leased m = py_pool (lan_state [(5, lan_lease 6 (sat_add 10 3600000))] [] [] m)"

lemma lan_leased_reachable: "\<exists>m. pool_reachable \<lparr>py_pool = lan_leased m, py_running = []\<rparr>"
proof -
  have "\<exists>m. trace pool_exec lan_start (
     [(PoReserve 5 6 (lan_time 0), Parked), (PoFinish 0 [True], Answered (Addresses (Inr (lan_address 3 1))))] @
     [(PoCommit 5 (lan_time 10), Parked), (PoFinish 0 [True], Answered (Addresses (Inr (lan_address 3 1))))])
     (lan_state [(5, lan_lease 6 (sat_add 10 3600000))] [] [] m)"
    unfolding trace_append lan_start_state
    by (intro exI conjI, rule lan_reserved, simp, simp, rule lan_committed, rule lan_before(1))
  then show ?thesis using lan_reachable by (fastforce simp: lan_leased_def lan_state_def)
qed

definition gw_at :: "manager \<Rightarrow> address_pool \<Rightarrow> gateway" where
  "gw_at m p = \<lparr>ls_handler = sample_handler\<lparr>ah_sessions := m\<rparr>, ls_pool = p\<rparr>"

lemma gw_at_simps [simp]: "sessions_of (gw_at m p) = m" "ls_pool (gw_at m p) = p"
  by (simp_all add: gw_at_def)

definition gw_accepted :: admission_accepted where
  "gw_accepted = \<lparr>aa_owner = \<lparr>so_session_id = 5, so_device_id = 6, so_organization_id = 7\<rparr>, aa_expires_at_unix_seconds = 1600,
     aa_policy_version = 1, aa_reservation = gw_reservation\<lparr>ads_creates_session := False\<rparr>\<rparr>"

definition gw_conn :: admitted_connection where
  "gw_conn = \<lparr>lc_admitted = gw_accepted, lc_connection = Some gw_connection, lc_attached_path = None\<rparr>"

end
