(* ===== verification/Engine.thy ===== *)
theory Engine
  imports ListenerRuns Forwarding Mtu
begin

text \<open>
  The gateway engine of \<open>apps/streamguard-gateway/src/v2/engine.rs\<close>: its supervised state, its MTU
  gate and packet-ID sequencer, and the sole uplink ingress, which composes the session manager's
  ingress check, the source check of the forwarder, the renewal of the lease and the sealed sink.
  The shared session map and pool are those of the gateway of the listener. The TUN driver is
  seen through the failure it reports (of a parameter type) and the MTU of its backend.
\<close>

section \<open>State\<close>

datatype 'f engine_state = EngineRunning | EngineTerminal 'f | EngineClosed

datatype ingest_error = InNotAttached | InBindingRejected manager_error | InRejected forward_error
  | InLeaseRejected address_pool_error

record 'f gateway_engine =
  ge_driver_owned :: bool
  ge_state :: "'f engine_state"
  ge_mtu :: mtu_admission
  ge_sequencer :: packet_id_sequencer
  ge_uplink_forwarder :: "uplink_forwarder option"
  ge_sessions_attached :: bool
  ge_uplink_sink :: sink_metrics

definition mtu_admission_from_driver :: "u32 \<Rightarrow> mtu_admission" where
  "mtu_admission_from_driver backend_mtu =
     (case with_tun_payload_mtu (unat backend_mtu) of
        Inr admission \<Rightarrow> admission
      | Inl _ \<Rightarrow> mtu_admission_default)"

definition engine_new :: "'f option \<Rightarrow> u32 \<Rightarrow> 'f gateway_engine" where
  "engine_new failure backend_mtu =
     \<lparr>ge_driver_owned = True,
      ge_state = (case failure of Some f \<Rightarrow> EngineTerminal f | None \<Rightarrow> EngineRunning),
      ge_mtu = mtu_admission_from_driver backend_mtu, ge_sequencer = sequencer_new 0,
      ge_uplink_forwarder = None, ge_sessions_attached = False, ge_uplink_sink = sink_new\<rparr>"

definition attach_uplink :: "nat \<Rightarrow> 'f gateway_engine \<Rightarrow> 'f gateway_engine \<times> (forward_error + unit)" where
  "attach_uplink maximum_packet_bytes e =
     (case forwarder_new maximum_packet_bytes of
        Inl error \<Rightarrow> (e, Inl error)
      | Inr forwarder \<Rightarrow> (e\<lparr>ge_uplink_forwarder := Some forwarder\<rparr>, Inr ()))"

definition attach_session_manager :: "'f gateway_engine \<Rightarrow> 'f gateway_engine" where
  "attach_session_manager e = e\<lparr>ge_sessions_attached := True\<rparr>"

section \<open>Uplink\<close>

text \<open>The answers of the owner queue to the renewal are as in the listener; a queue that is full,
  slow or closed does not answer.\<close>

definition renewal_error :: "address_pool_error \<Rightarrow> pool_answer option \<Rightarrow> address_pool_error option" where
  "renewal_error queue_error answer =
     (case answer of
        None \<Rightarrow> Some queue_error
      | Some (Renewed (Inl error)) \<Rightarrow> Some error
      | Some _ \<Rightarrow> None)"

definition ingest_uplink_at_time :: "authenticated_connection \<Rightarrow> v2_envelope \<Rightarrow> pool_time \<Rightarrow> bool list option
    \<Rightarrow> address_pool_error \<Rightarrow> 'f gateway_engine \<Rightarrow> gateway
    \<Rightarrow> 'f gateway_engine \<times> gateway \<times> (ingest_error + validated_uplink)" where
  "ingest_uplink_at_time connection envelope now renew queue_error e g =
     (if \<not> ge_sessions_attached e then (e, g, Inl InNotAttached)
      else case ge_uplink_forwarder e of
        None \<Rightarrow> (e, g, Inl InNotAttached)
      | Some forwarder \<Rightarrow>
          (case on_sessions (\<lambda>m. validate_ingress m connection envelope (tm_monotonic_ms now)) g of
             (g, Inl error) \<Rightarrow> (e, g, Inl (InBindingRejected error))
           | (g, Inr bound) \<Rightarrow>
               (case fw_validate forwarder (ls_pool g) (vi_session_id bound) (ve_payload envelope) of
                  (forwarder, Inl error) \<Rightarrow> (e\<lparr>ge_uplink_forwarder := Some forwarder\<rparr>, g, Inl (InRejected error))
                | (forwarder, Inr validated) \<Rightarrow>
                    let e = e\<lparr>ge_uplink_forwarder := Some forwarder\<rparr> in
                    (case on_pool (\<lambda>p. renew_begin p (vi_session_id bound) now) renew g of
                       (g, answer) \<Rightarrow>
                         (case renewal_error queue_error answer of
                            Some error \<Rightarrow> (e, g, Inl (InLeaseRejected error))
                          | None \<Rightarrow>
                              (case sink_submit (ge_uplink_sink e) validated of
                                 (sink, forwarded) \<Rightarrow> (e\<lparr>ge_uplink_sink := sink\<rparr>, g, Inr forwarded)))))))"

section \<open>Supervision\<close>

text \<open>A read first takes over the failure the driver has recorded by then, as does the watcher task
  when the driver signals it. A shutdown joins the driver, whose join reports its failure, or that
  its worker panicked.\<close>

definition sync_state :: "'f option \<Rightarrow> 'f gateway_engine \<Rightarrow> 'f gateway_engine" where
  "sync_state failure e =
     (case ge_state e of
        EngineRunning \<Rightarrow>
          if \<not> ge_driver_owned e then e
          else (case failure of None \<Rightarrow> e | Some f \<Rightarrow> e\<lparr>ge_state := EngineTerminal f\<rparr>)
      | _ \<Rightarrow> e)"

definition engine_state_of :: "'f option \<Rightarrow> 'f gateway_engine \<Rightarrow> 'f gateway_engine \<times> 'f engine_state" where
  "engine_state_of failure e = (let e = sync_state failure e in (e, ge_state e))"

definition engine_failure :: "'f option \<Rightarrow> 'f gateway_engine \<Rightarrow> 'f gateway_engine \<times> 'f option" where
  "engine_failure failure e =
     (let e = sync_state failure e in (e, case ge_state e of EngineTerminal f \<Rightarrow> Some f | _ \<Rightarrow> None))"

definition engine_shutdown :: "('e + 'f option) \<Rightarrow> 'f gateway_engine \<Rightarrow> 'f gateway_engine \<times> ('e + 'f engine_state)" where
  "engine_shutdown closed e =
     (if \<not> ge_driver_owned e then (e, Inr (ge_state e))
      else let e = e\<lparr>ge_driver_owned := False\<rparr> in
        (case closed of
           Inl error \<Rightarrow> (e, Inl error)
         | Inr None \<Rightarrow>
             let e = (case ge_state e of EngineRunning \<Rightarrow> e\<lparr>ge_state := EngineClosed\<rparr> | _ \<Rightarrow> e) in (e, Inr (ge_state e))
         | Inr (Some f) \<Rightarrow>
             let e = (case ge_state e of EngineRunning \<Rightarrow> e\<lparr>ge_state := EngineTerminal f\<rparr> | _ \<Rightarrow> e) in (e, Inr (ge_state e))))"

section \<open>The ingress\<close>

lemma renewal_granted:
  assumes "on_pool (\<lambda>p. renew_begin p sid now) renew g = (g', answer)" and "renewal_error q answer = None"
  shows "lease_renewed g' sid now \<and> ls_handler g' = ls_handler g"
proof -
  have "answer = Some (Renewed (Inr ()))"
    using assms by (auto simp: on_pool_def complete_def renew_begin_def renew_finish_def renewal_error_def Let_def
      split: option.splits prod.splits if_splits)
  then have "renew_lease sid now \<lparr>ce_sweep = None, ce_renew = renew, ce_written = True\<rparr> g = (g', True)"
    using assms(1) by (simp add: renew_lease_def)
  then show ?thesis by (rule renew_lease_ok)
qed

lemma admits_ingress:
  assumes "sm_ok (sessions_of g)" and "entitled (sessions_of g) connection (ve_header envelope) ms"
  obtains g1 where "on_sessions (\<lambda>m. validate_ingress m connection envelope ms) g = (g1, Inr (ingress_of (ve_header envelope)))"
    and "ls_pool g1 = ls_pool g"
proof -
  obtain s where "validate_ingress (sessions_of g) connection envelope ms =
      (put_session (ac_session_id connection) (s\<lparr>ms_last_activity_ms := ms\<rparr>) (sessions_of g), Inr (ingress_of (ve_header envelope)), [])"
    by (rule ingress_accepted [OF assms])
  then show ?thesis using that by (simp add: on_sessions_def cleaned_up_def)
qed

lemma refuses_ingress:
  assumes "sm_ok (sessions_of g)" and "\<not> entitled (sessions_of g) connection (ve_header envelope) ms"
  obtains g1 error where "on_sessions (\<lambda>m. validate_ingress m connection envelope ms) g = (g1, Inl error)"
    and "error = MExpired \<or> error = MIdle \<or> g1 = g"
proof -
  obtain m' err removals where v: "validate_ingress (sessions_of g) connection envelope ms = (m', Inl err, removals)"
    and "err = MExpired \<or> err = MIdle \<or> m' = sessions_of g \<and> removals = []"
    using ingress_refused [OF assms] by blast
  then show ?thesis using that by (auto simp: on_sessions_def cleaned_up_def)
qed

text \<open>C1. Nothing reaches the network but what a client may send. The ingress forwards a datagram
  only if its authenticated connection is entitled to the path and epochs of its header, its payload
  is a well-formed IP packet of at most the configured size whose source is an address of the Active
  lease of that session, and that lease was renewed to a full lease time from now; it forwards the
  payload unchanged, for that session, and counts it once. Otherwise nothing is forwarded or counted
  as forwarded, and a datagram refused for its header or its source leaves every lease as it was,
  unless it finds the session expired or idle. A header is refused exactly when it is not entitled.\<close>

theorem uplink_forwarded_exactly:
  assumes "ingest_uplink_at_time connection envelope now renew queue_error e g = (e', g', result)"
    and "sm_reachable n (sessions_of g)" and "ge_sessions_attached e" and "ge_uplink_forwarder e = Some forwarder"
  shows "case result of
      Inr u \<Rightarrow> entitled (sessions_of g) connection (ve_header envelope) (tm_monotonic_ms now)
        \<and> vu_session_id u = vh_session_id (ve_header envelope) \<and> vu_packet u = ve_payload envelope
        \<and> length (ve_payload envelope) \<le> uf_maximum_packet_bytes forwarder
        \<and> (\<exists>a. pool_lookup_active (ls_pool g) (vu_session_id u) = Some a
            \<and> source_check (ls_pool g) a (vu_source u) = None
            \<and> (ipv4_frame (ve_payload envelope) \<and> vu_source u = SourceV4 (from_be (slice 12 16 (ve_payload envelope)))
               \<or> ipv6_frame (ve_payload envelope) \<and> vu_source u = SourceV6 (from_be (slice 8 24 (ve_payload envelope)))))
        \<and> lease_renewed g' (vu_session_id u) now
        \<and> ge_uplink_sink e' = \<lparr>sk_forwarded = sk_forwarded (ge_uplink_sink e) + 1,
            sk_bytes_forwarded = sk_bytes_forwarded (ge_uplink_sink e) + of_nat (length (ve_payload envelope))\<rparr>
    | Inl error \<Rightarrow> ge_uplink_sink e' = ge_uplink_sink e
        \<and> ((\<exists>why. error = InBindingRejected why) = (\<not> entitled (sessions_of g) connection (ve_header envelope) (tm_monotonic_ms now)))
        \<and> (case error of
             InBindingRejected why \<Rightarrow> why = MExpired \<or> why = MIdle \<or> g' = g
           | InRejected why \<Rightarrow> ls_pool g' = ls_pool g
           | _ \<Rightarrow> error \<noteq> InNotAttached)"
proof (cases "entitled (sessions_of g) connection (ve_header envelope) (tm_monotonic_ms now)")
  case False
  obtain g1 error where "on_sessions (\<lambda>m. validate_ingress m connection envelope (tm_monotonic_ms now)) g = (g1, Inl error)"
    and "error = MExpired \<or> error = MIdle \<or> g1 = g"
    by (rule refuses_ingress [OF sm_reachable_ok(1) [OF assms(2)] False])
  then show ?thesis using assms(1,3,4) False by (auto simp: ingest_uplink_at_time_def)
next
  case True
  let ?sid = "vh_session_id (ve_header envelope)"
  obtain g1 where check: "on_sessions (\<lambda>m. validate_ingress m connection envelope (tm_monotonic_ms now)) g
      = (g1, Inr (ingress_of (ve_header envelope)))" and g1: "ls_pool g1 = ls_pool g"
    by (rule admits_ingress [OF sm_reachable_ok(1) [OF assms(2)] True])
  obtain f1 validated where v: "fw_validate forwarder (ls_pool g) ?sid (ve_payload envelope) = (f1, validated)" by fastforce
  obtain g2 answer where r: "on_pool (\<lambda>p. renew_begin p ?sid now) renew g1 = (g2, answer)" by fastforce
  have sid: "vi_session_id (ingress_of (ve_header envelope)) = ?sid" by (simp add: ingress_of_def)
  note step = assms(1) [unfolded ingest_uplink_at_time_def]
  note parts = assms(3,4) check g1 v r sid
  show ?thesis
  proof (cases validated)
    case (Inl error)
    then have "g' = g1" "ge_uplink_sink e' = ge_uplink_sink e" "result = Inl (InRejected error)"
      using step by (auto simp: parts)
    then show ?thesis using True g1 by simp
  next
    case (Inr u)
    have ok: "snd (fw_validate forwarder (ls_pool g) ?sid (ve_payload envelope)) = Inr u" by (simp add: v Inr)
    show ?thesis
    proof (cases "renewal_error queue_error answer")
      case None
      from renewal_granted [OF r None] ok [unfolded fw_validate_iff] step True Inr None
      show ?thesis by (auto simp: parts sink_submit_def)
    next
      case (Some error)
      then show ?thesis using step True Inr by (auto simp: parts)
    qed
  qed
qed

section \<open>An example\<close>

text \<open>The first packet of a session, from its leased address, over its first path.\<close>

definition lan_envelope :: v2_envelope where
  "lan_envelope = gw_envelope\<lparr>ve_payload := lan_packet\<rparr>"

definition lan_engine :: "unit gateway_engine" where
  "lan_engine = (engine_new None 1300)\<lparr>ge_uplink_forwarder := Some lan_forwarder, ge_sessions_attached := True\<rparr>"

lemma lan_entitled: "entitled gw_attached gw_connection (ve_header lan_envelope) 30"
  by (simp add: entitled_def lan_envelope_def gw_envelope_def authenticated_def vs_is_expired_def
    idle_since_def vs_path_def gw_attached_def gw_admitted_def gw_eval)

lemma uplink_forwarded_exactly_witness:
  "\<exists>m e' g' u. ingest_uplink_at_time gw_connection lan_envelope (lan_time 30) (Some [True]) PStore lan_engine
      (gw_at gw_attached (lan_leased m)) = (e', g', Inr u)
    \<and> vu_packet u = lan_packet \<and> lease_renewed g' 5 (lan_time 30) \<and> sk_forwarded (ge_uplink_sink e') = 1"
proof -
  obtain m where reach: "pool_reachable \<lparr>py_pool = lan_leased m, py_running = []\<rparr>" using lan_leased_reachable by blast
  let ?g = "gw_at gw_attached (lan_leased m)"
  have now: "tm_monotonic_ms (lan_time 30) = 30" by (simp add: lan_time_def)
  have "sm_ok (sessions_of ?g)" using sm_reachable_ok(1) [OF gw_reachable(1)] by simp
  moreover have e: "entitled (sessions_of ?g) gw_connection (ve_header lan_envelope) 30" using lan_entitled by simp
  ultimately obtain g1 where check: "on_sessions (\<lambda>m. validate_ingress m gw_connection lan_envelope 30) ?g
      = (g1, Inr (ingress_of (ve_header lan_envelope)))" and g1: "ls_pool g1 = lan_leased m"
    by (rule admits_ingress) (simp add: gw_at_def)
  have active: "pool_lookup_active (lan_leased m) 5 = Some (lan_address 3 1)"
    by (simp add: pool_lookup_active_def lan_leased_def lan_state_def lan_lease_def)
  have v: "snd (fw_validate lan_forwarder (lan_leased m) 5 lan_packet)
      = Inr \<lparr>vu_session_id = 5, vu_source = SourceV4 0x0a400003, vu_packet = lan_packet\<rparr>"
    by (rule lan_forwarded [OF active]) (simp add: lan_leased_def lan_state_def lan_config_def)
  then obtain f1 where v': "fw_validate lan_forwarder (lan_leased m) 5 lan_packet
      = (f1, Inr \<lparr>vu_session_id = 5, vu_source = SourceV4 0x0a400003, vu_packet = lan_packet\<rparr>)" by (metis prod.collapse)
  have "\<exists>p. complete (renew_begin (lan_leased m) 5 (lan_time 30)) [True] = (p, Renewed (Inr ()))"
    by (simp add: complete_def renew_begin_def renew_finish_def Let_def store_ok_def lan_leased_def lan_state_def lan_lease_def
      lan_time_def sat_add_def)
  then obtain p where renewed: "on_pool (\<lambda>p. renew_begin p 5 (lan_time 30)) (Some [True]) g1
      = (g1\<lparr>ls_pool := p\<rparr>, Some (Renewed (Inr ())))"
    by (auto simp: on_pool_def g1)
  have header: "vi_session_id (ingress_of (ve_header lan_envelope)) = 5" "ve_payload lan_envelope = lan_packet"
    by (simp_all add: ingress_of_def lan_envelope_def gw_envelope_def)
  have attached: "ge_sessions_attached lan_engine" "ge_uplink_forwarder lan_engine = Some lan_forwarder"
    "sk_forwarded (ge_uplink_sink lan_engine) = 0"
    by (simp_all add: lan_engine_def engine_new_def sink_new_def)
  obtain e' u where run: "ingest_uplink_at_time gw_connection lan_envelope (lan_time 30) (Some [True]) PStore lan_engine ?g
      = (e', g1\<lparr>ls_pool := p\<rparr>, Inr u)"
    by (simp add: ingest_uplink_at_time_def attached now check g1 header v' renewed renewal_error_def sink_submit_def)
  have reachable: "sm_reachable 100 (sessions_of ?g)" using gw_reachable(1) by simp
  from uplink_forwarded_exactly [OF run reachable attached(1,2)] run attached(3)
  show ?thesis by (fastforce simp: lan_envelope_def gw_envelope_def)
qed

end
