(* ===== verification/ListenerProps.thy ===== *)
theory ListenerProps
  imports ListenerRuns
begin

text \<open>
  What the listener guarantees across its parts: a \<open>SessionAdmit\<close> carries the expiry and the policy
  version of the verified ticket, for an active session of its device and for addresses the pool
  holds for it, and a path is attached or detached only with a renewed lease. Three theorems show where the parts disagree.
\<close>

section \<open>Admission and control\<close>

text \<open>C4. A \<open>SessionAdmit\<close> answers a ticket that was verified for the device of the connection: it
  names the ticket's session, expiry and policy version, and addresses that the pool holds for that
  session, leased or still in quarantine. The session is then active and not expired, belongs to
  the ticket's device and organization, and the connection holds a capability for it. The deadline
  of the session is the ticket's, or the one that a session or a reservation already had under the
  identifier.\<close>

theorem session_admit_exact:
  assumes run: "accept_hello jwt trust policy source peer hello_frame now elapsed env g = (g', Inr (c, response))"
    and reach: "sm_reachable n (sessions_of g)"
    and current: "current = advance_admission_time now elapsed"
  shows "\<exists>hello ticket connection lease ms. hello_from_control_message (cf_message hello_frame) = Inr hello
    \<and> bh_device_id hello = peer
    \<and> ticket_verify jwt (ah_verifier (ls_handler g)) (bh_ticket hello) (Some trust) (at_unix_seconds current) peer peer = Inr ticket
    \<and> aa_owner (lc_admitted c) = owner_from_ticket ticket
    \<and> lc_connection c = Some connection \<and> authenticated (sessions_of g') connection
    \<and> ac_session_id connection = vt_session_id ticket
    \<and> map_of (sm_sessions (sessions_of g')) (vt_session_id ticket) = Some ms
    \<and> vs_state (ms_session ms) = SActive \<and> \<not> vs_is_expired (ms_session ms) (at_monotonic_millis current)
    \<and> ad_device_id (vs_admission (ms_session ms)) = peer \<and> ms_organization_id ms = vt_organization_id ticket
    \<and> (unat (ad_expires_at_ms (vs_admission (ms_session ms))) = min (2 ^ 64 - 1) (unat (at_monotonic_millis current)
           + (unat (vt_expires_at_unix_seconds ticket) - unat (at_unix_seconds current)) * 1000)
        \<or> ad_expires_at_ms (vs_admission (ms_session ms)) \<in> deadlines (sessions_of g) (vt_session_id ticket))
    \<and> unat (vt_expires_at_unix_seconds ticket) * 1000 < 2 ^ 64
    \<and> response = \<lparr>cf_transaction_id = cf_transaction_id hello_frame, cf_message =
        SessionAdmit (vt_session_id ticket) (vt_expires_at_unix_seconds ticket * 1000)
          (vt_policy_version ticket) (aa_ipv4 lease) (aa_ipv4_prefix_len lease) (aa_ipv6_prefix lease)
          (aa_ipv6_prefix_len lease) policy\<rparr>
    \<and> (pool_lookup_active (ls_pool g') (vt_session_id ticket) = Some lease
        \<or> quarantines (ap_release_pending (ls_pool g')) (vt_session_id ticket) lease)"
proof -
  note ok = sm_reachable_ok(1) [OF reach]
  let ?now = "advance_admission_time now elapsed"
  let ?pool_now = "pool_time_from_seconds (at_monotonic_millis ?now) (at_unix_seconds ?now)"
  obtain hello where hello: "hello_from_control_message (cf_message hello_frame) = Inr hello"
    using run by (cases "hello_from_control_message (cf_message hello_frame)") (auto simp: accept_hello_def)
  obtain g1 s where g1: "on_sessions (\<lambda>m. sweep m (at_monotonic_millis ?now)) g = (g1, s)" by fastforce
  let ?g2 = "sweep_pool (tm_monotonic_ms ?pool_now) (ae_sweep env) g1"
  have swept: "sessions_of g1 = fst (sweep (sessions_of g) (at_monotonic_millis ?now))"
    "ah_verifier (ls_handler g1) = ah_verifier (ls_handler g)"
    using on_sessions_simps(1) [of "\<lambda>m. sweep m (at_monotonic_millis ?now)" g]
      verifier_on_sessions [of "\<lambda>m. sweep m (at_monotonic_millis ?now)" g] g1 by simp_all
  have ok2: "sm_ok (sessions_of ?g2)" using sweep_pool_ok sm_ok_sweep [OF ok] swept by simp
  have verifier: "ah_verifier (ls_handler ?g2) = ah_verifier (ls_handler g)" by (simp add: sweep_pool_frame swept)
  have before: "deadlines (sessions_of ?g2) sid \<subseteq> deadlines (sessions_of g) sid" for sid
    using sweep_pool_frame(2) deadlines_sweep [OF ok] swept by (metis subset_trans)
  obtain h a removals where a: "admit_async jwt (ls_handler ?g2) source peer hello (Some trust) (at_monotonic_millis now) ?now
      (ae_consume env) = (h, a, removals)" by (metis prod_cases3)
  obtain admitted where admitted: "a = Inr admitted"
    using run hello g1 a by (cases a) (auto simp: accept_hello_def Let_def split: sum.splits)
  let ?g3 = "cleaned_up removals (?g2\<lparr>ls_handler := h\<rparr>)"
  have run': "accept_admitted policy (cf_transaction_id hello_frame) admitted ?now ?pool_now env ?g3 = (g', Inr (c, response))"
    using run hello g1 a admitted by (auto simp: accept_hello_def Let_def split: sum.splits)
  obtain ticket where res: "reserved_for ticket ?now admitted (ah_sessions h)"
    and ticket: "ticket_verify jwt (ah_verifier (ls_handler g)) (bh_ticket hello) (Some trust) (at_unix_seconds ?now) peer peer = Inr ticket"
      "bh_device_id hello = peer" "vt_device_id ticket = peer"
    and deadline: "deadlines (ah_sessions h) (vt_session_id ticket)
      \<subseteq> insert (admission_deadline ?now (vt_expires_at_unix_seconds ticket)) (deadlines (sessions_of g) (vt_session_id ticket))"
    by (rule admitted_reserved [OF a [unfolded admitted] ok2, unfolded verifier]) (use before in blast)
  obtain connection lease where k: "commit_admission_and_bind (sessions_of ?g3) (aa_reservation admitted) (at_monotonic_millis ?now)
        = (sessions_of g', Inr connection, [])"
    and c: "c = \<lparr>lc_admitted = admitted, lc_connection = Some connection, lc_attached_path = None\<rparr>"
    and frame: "template_frame policy (cf_transaction_id hello_frame) admitted lease = Inr response"
    and pool: "pool_lookup_active (ls_pool g') (so_session_id (aa_owner admitted)) = Some lease
        \<or> quarantines (ap_release_pending (ls_pool g')) (so_session_id (aa_owner admitted)) lease"
    using accept_admitted_ok [OF run'] by blast
  have owner: "aa_owner admitted = owner_from_ticket ticket" "ads_session_id (aa_reservation admitted) = vt_session_id ticket"
    "ads_device_id (aa_reservation admitted) = peer" "ads_organization_id (aa_reservation admitted) = vt_organization_id ticket"
    "aa_expires_at_unix_seconds admitted = vt_expires_at_unix_seconds ticket" "aa_policy_version admitted = vt_policy_version ticket"
    using res ticket by (auto simp: reserved_for_def)
  note bound = commit_and_bind_owner [OF k]
  have "\<exists>ms. map_of (sm_sessions (sessions_of g')) (vt_session_id ticket) = Some ms
      \<and> vs_state (ms_session ms) = SActive \<and> \<not> vs_is_expired (ms_session ms) (at_monotonic_millis ?now)
      \<and> ad_device_id (vs_admission (ms_session ms)) = peer \<and> ms_organization_id ms = vt_organization_id ticket
      \<and> ad_expires_at_ms (vs_admission (ms_session ms)) \<in> deadlines (ah_sessions h) (vt_session_id ticket)"
    using bound res owner ticket
    by (cases "ads_creates_session (aa_reservation admitted)") (auto simp: reserved_for_def intro: deadlinesI dest: deadlinesI(2))
  then obtain ms where ms: "map_of (sm_sessions (sessions_of g')) (vt_session_id ticket) = Some ms"
      "vs_state (ms_session ms) = SActive" "\<not> vs_is_expired (ms_session ms) (at_monotonic_millis ?now)"
      "ad_device_id (vs_admission (ms_session ms)) = peer" "ms_organization_id ms = vt_organization_id ticket"
    and d: "ad_expires_at_ms (vs_admission (ms_session ms)) \<in> deadlines (ah_sessions h) (vt_session_id ticket)" by blast
  have "unat (ad_expires_at_ms (vs_admission (ms_session ms))) = min (2 ^ 64 - 1) (unat (at_monotonic_millis ?now)
           + (unat (vt_expires_at_unix_seconds ticket) - unat (at_unix_seconds ?now)) * 1000)
      \<or> ad_expires_at_ms (vs_admission (ms_session ms)) \<in> deadlines (sessions_of g) (vt_session_id ticket)"
    using d deadline admission_deadline_nat by auto
  moreover have "response = \<lparr>cf_transaction_id = cf_transaction_id hello_frame, cf_message =
        SessionAdmit (vt_session_id ticket) (vt_expires_at_unix_seconds ticket * 1000)
          (vt_policy_version ticket) (aa_ipv4 lease) (aa_ipv4_prefix_len lease) (aa_ipv6_prefix lease)
          (aa_ipv6_prefix_len lease) policy\<rparr>" "unat (vt_expires_at_unix_seconds ticket) * 1000 < 2 ^ 64"
    using frame owner by (auto simp: template_frame_def owner_from_ticket_def split: if_split_asm)
  moreover have "so_session_id (aa_owner admitted) = vt_session_id ticket" by (simp add: owner owner_from_ticket_def)
  moreover have "ac_session_id connection = vt_session_id ticket" "authenticated (sessions_of g') connection"
    using bound owner(2) by simp_all
  ultimately show ?thesis unfolding current using hello ticket owner(1) ms pool
    by - (rule exI [of _ hello], rule exI [of _ ticket], rule exI [of _ connection], rule exI [of _ lease], rule exI [of _ ms],
      simp only: c admitted_connection.simps, simp)
qed

text \<open>C36. A control frame is answered with success only for the session of the connection: an attached
  path is bound to the connection's capability under the answered identifier and epoch, and
  an attach or a detach is acknowledged only with the lease renewed for its full time.\<close>

theorem path_answers_renewed:
  assumes run: "handle_control g c frame now env = (g', c', Inr response)" and reach: "sm_reachable n (sessions_of g)"
  shows "case cf_message response of
      PathAttached sid path_id ep \<Rightarrow> sid = so_session_id (aa_owner (lc_admitted c)) \<and> path_in_force g' c' sid path_id ep now
    | Ack \<Rightarrow> (case cf_message frame of
          PathDetach sid path_id ep reason \<Rightarrow> sid = so_session_id (aa_owner (lc_admitted c)) \<and> lease_renewed g' sid now
        | CloseSession sid reason \<Rightarrow> sid = so_session_id (aa_owner (lc_admitted c)) \<and> lc_connection c' = None
        | _ \<Rightarrow> False)
    | Reject code reason \<Rightarrow> True
    | _ \<Rightarrow> False"
proof -
  obtain g1 x where a: "on_sessions (\<lambda>m. sweep m (tm_monotonic_ms now)) g = (g1, Inr x)"
    using run by (auto simp: handle_control_def split: prod.splits sum.splits)
  let ?g = "sweep_pool (tm_monotonic_ms now) (ce_sweep env) g1"
  have "sm_ok (sessions_of g1)"
    using on_sessions_simps(1) [of "\<lambda>m. sweep m (tm_monotonic_ms now)" g] a sm_ok_sweep [OF sm_reachable_ok(1) [OF reach]] by simp
  then have ok: "sm_ok (sessions_of ?g)" using sweep_pool_ok by blast
  have run': "control_response ?g c frame now env = (g', c', Inr response)"
    using run a by (auto simp: handle_control_def split: prod.splits sum.splits if_split_asm)
  show ?thesis
  proof (cases "cf_message frame")
    case (PathAttach sid nonce ep ke metadata)
    show ?thesis
    proof (cases "sid = so_session_id (aa_owner (lc_admitted c))")
      case True
      show ?thesis
      proof (cases "lc_attached_path c")
        case None
        with run' PathAttach True have "attach_new ?g c (cf_transaction_id frame) sid nonce ep ke now env = (g', c', Inr response)"
          by (simp add: control_response_def)
        from attach_new_answer [OF this ok] True show ?thesis by (simp split: control_message.splits)
      next
        case (Some path)
        with run' PathAttach True have "attach_again ?g c path (cf_transaction_id frame) sid nonce ep ke now env
            = (g', c', Inr response)" by (simp add: control_response_def)
        from attach_again_answer [OF this Some] True show ?thesis by (simp split: control_message.splits)
      qed
    qed (use run' PathAttach in \<open>auto simp: control_response_def listener_reject_def\<close>)
  next
    case (PathDetach sid path_id ep reason)
    show ?thesis
    proof (cases "sid = so_session_id (aa_owner (lc_admitted c))")
      case True
      with run' PathDetach have "detach_path ?g c (cf_transaction_id frame) sid path_id ep now env = (g', c', Inr response)"
        by (simp add: control_response_def)
      from detach_answer [OF this] True PathDetach show ?thesis by (simp split: control_message.splits)
    qed (use run' PathDetach in \<open>auto simp: control_response_def listener_reject_def\<close>)
  next
    case (CloseSession sid reason)
    then show ?thesis
      using run' by (auto simp: control_response_def Let_def listener_reject_def connection_close_session_def
        split: if_split_asm option.splits sum.splits prod.splits)
  qed (use run' in \<open>auto simp: control_response_def Let_def listener_reject_def\<close>)
qed

section \<open>Where the parts disagree\<close>

text \<open>C39. A device that comes back to its live session while the capabilities are used up is refused,
  and the refusal releases the lease of the live session: its other connections keep their
  capabilities, but every packet they send is dropped.\<close>

theorem refused_resume_releases_lease:
  assumes resume: "\<not> ads_creates_session (aa_reservation admitted)" "ads_session_id (aa_reservation admitted) = sid"
      "so_session_id (aa_owner admitted) = sid" "sid \<noteq> 0" "so_device_id (aa_owner admitted) \<noteq> 0"
    and live: "map_of (sm_sessions (sessions_of g)) sid = Some ms" "vs_state (ms_session ms) = SActive"
      "at_monotonic_millis now < ad_expires_at_ms (vs_admission (ms_session ms))"
    and full: "maximum_authenticated_connections (sessions_of g) \<le> length (sm_authenticated (sessions_of g))"
    and lease: "map_of (ap_active (ls_pool g)) sid = Some l" "le_device_id l = so_device_id (aa_owner admitted)"
      "sid \<notin> set (ap_inflight (ls_pool g))" "map_of (ap_release_pending (ls_pool g)) sid = None"
      "map_of (ap_pending (ls_pool g)) sid = None"
    and env: "ae_reserve env = Some []" "ae_release env = Some [True]"
  shows "\<exists>g'. accept_admitted policy transaction_id admitted now pool_now env g = (g', Inl LsAdmissionRejected)
    \<and> map_of (sm_sessions (sessions_of g')) sid = Some ms
    \<and> sm_authenticated (sessions_of g') = sm_authenticated (sessions_of g)
    \<and> (\<forall>f packet. isl (snd (fw_validate f (ls_pool g') sid packet)))"
proof -
  have reserved: "on_pool (\<lambda>p. reserve_begin p sid (so_device_id (aa_owner admitted)) pool_now) (Some []) g
      = (g, Some (Addresses (Inr (le_addresses l))))"
    using lease resume by (simp add: on_pool_def complete_def reserve_begin_def)
  let ?h = "(ls_handler g)\<lparr>ah_sessions := connection_counted (sessions_of g)\<rparr>"
  have bind: "commit_and_bind (ls_handler g) admitted now = (?h, Inl AdProvisioningRejected, [])"
    using bind_refused [OF live full] resume by (simp add: commit_and_bind_def commit_admission_and_bind_def)
  let ?p = "fst (complete (release_begin (ls_pool g) sid 0) [True])"
  have gone: "map_of (ap_active ?p) sid = None"
    using lease by (auto simp: complete_def release_begin_def take_lease_def release_finish_def Let_def store_ok_def
      map_of_remove map_of_eq_None_iff [symmetric] park_def unpark_def pool_count_def)
  have released: "release_async sid (Some [True]) (g\<lparr>ls_handler := ?h\<rparr>) = g\<lparr>ls_handler := ?h, ls_pool := ?p\<rparr>"
    by (simp add: release_async_def on_pool_def split: prod.split)
  have abort: "abort_admitted admitted g' = g'" for g'
    using resume by (simp add: abort_admitted_def handler_abort_def abort_admission_def)
  have "accept_admitted policy transaction_id admitted now pool_now env g
      = (g\<lparr>ls_handler := ?h, ls_pool := ?p\<rparr>, Inl LsAdmissionRejected)"
    using env resume by (simp add: accept_admitted_def reserved bind released abort)
  moreover have "isl (snd (fw_validate f ?p sid packet))" for f packet
    using gone by (auto simp: fw_validate_def pool_lookup_active_def split: sum.split prod.split)
  ultimately show ?thesis using live by (simp add: connection_counted_def)
qed

text \<open>C40. A connection left over from an earlier life of a session can end the new one: an attach on its
  revoked capability is refused, and the refusal closes the session that is now live under the
  same identifier.\<close>

theorem stale_connection_closes_session:
  assumes "lc_connection c = Some connection" and "lc_attached_path c = None"
    and "\<not> authenticated (sessions_of g) connection"
    and "so_session_id (aa_owner (lc_admitted c)) = sid" and "map_of (sm_sessions (sessions_of g)) sid = Some ms"
    and "cf_message frame = PathAttach sid nonce ep ke metadata"
  shows "\<exists>g'. control_response g c frame now env = (g', c, Inl LsAddressPool)
    \<and> map_of (sm_sessions (sessions_of g')) sid = None"
proof -
  obtain g1 where a: "on_sessions (\<lambda>m. record_authenticated_activity m connection (tm_monotonic_ms now)) g
      = (g1, Inl MUnknownConnection)" and g1: "sessions_of g1 = sessions_of g"
    using assms(3) by (simp add: on_sessions_def record_authenticated_activity_def)
  have "map_of (sm_sessions (sessions_of (close_session_by_id sid g1))) sid = None"
    using assms(5) by (simp add: close_session_by_id_def sm_close_def case_prod_beta g1 drop_session_eq lose_def map_of_remove
      record_removal_def)
  moreover have "control_response g c frame now env = (close_session_by_id sid g1, c, Inl LsAddressPool)"
    using assms a by (simp add: control_response_def attach_new_def renew_activity_def)
  ultimately show ?thesis by blast
qed

text \<open>A detach that is rejected, for a path the connection does not have, still renews the lease: any
  request for its own session keeps a lease alive.\<close>

theorem rejected_detach_renews_lease:
  assumes "lc_connection c = Some connection" and "authenticated (sessions_of g) connection"
    and "so_session_id (aa_owner (lc_admitted c)) = sid" and "ac_session_id connection = sid"
    and live: "map_of (sm_sessions (sessions_of g)) sid = Some ms" "vs_state (ms_session ms) = SActive"
      "\<not> vs_is_expired (ms_session ms) (tm_monotonic_ms now)" "\<not> idle_since (sessions_of g) ms (tm_monotonic_ms now)"
    and other: "map_of (sm_connections (sessions_of g)) (ac_connection_id connection) = Some (sid, bound, bound_epoch, ke)"
      "bound \<noteq> path_id"
    and lease: "map_of (ap_active (ls_pool g)) sid = Some l" "tm_monotonic_ms now < le_expires_at_ms l"
      "sid \<notin> set (ap_inflight (ls_pool g))"
    and "ce_renew env = Some [True]" and "cf_message frame = PathDetach sid path_id ep reason"
  shows "\<exists>g' response. control_response g c frame now env = (g', c, Inr response)
    \<and> cf_message response = Reject UnknownPath (ascii ''path detach rejected'') \<and> lease_renewed g' sid now"
proof -
  let ?m = "put_session sid (ms\<lparr>ms_last_activity_ms := tm_monotonic_ms now\<rparr>) (sessions_of g)"
  have act: "record_authenticated_activity (sessions_of g) connection (tm_monotonic_ms now) = (?m, Inr (), [])"
    using assms(2,4) live by (simp add: record_authenticated_activity_def)
  obtain g1 where a: "on_sessions (\<lambda>m. record_authenticated_activity m connection (tm_monotonic_ms now)) g = (g1, Inr ())"
    and g1: "sessions_of g1 = ?m" "ls_pool g1 = ls_pool g"
    by (simp add: on_sessions_def act)
  have "\<exists>p. complete (renew_begin (ls_pool g) sid now) [True] = (p, Renewed (Inr ()))"
    using lease by (simp add: complete_def renew_begin_def renew_finish_def Let_def store_ok_def not_le)
  then obtain g2 where b: "renew_lease sid now env g1 = (g2, True)"
    using assms(14) g1 by (auto simp: renew_lease_def on_pool_def)
  note renewed = renew_lease_ok [OF b]
  have "detach_connection ?m connection path_id ep (tm_monotonic_ms now) = (?m, Inl MBindingMismatch, [])"
    using assms(2,4) other by (simp add: detach_connection_def authenticated_def put_session_def)
  then have c: "on_sessions (\<lambda>m. detach_connection m connection path_id ep (tm_monotonic_ms now)) g2 = (g2, Inl MBindingMismatch)"
    using renewed g1 by (simp add: on_sessions_def)
  have "control_response g c frame now env
      = (g2, c, Inr (listener_reject (cf_transaction_id frame) UnknownPath ''path detach rejected''))"
    using assms a b c by (simp add: control_response_def detach_path_def renew_activity_def)
  then show ?thesis using renewed by (simp add: listener_reject_def)
qed

section \<open>Permits\<close>

lemma hello_returns_permit:
  "\<exists>tr. trace limiter_exec (ah_limiter (ls_handler g), permits) tr
    (ah_limiter (ls_handler (fst (accept_hello jwt trust policy source peer hello_frame now elapsed env g))), permits)"
proof (cases "hello_from_control_message (cf_message hello_frame)")
  case (Inl e)
  then show ?thesis by (simp add: accept_hello_def exI [of _ "[]"])
next
  case (Inr hello)
  let ?now = "advance_admission_time now elapsed"
  let ?pool_now = "pool_time_from_seconds (at_monotonic_millis ?now) (at_unix_seconds ?now)"
  obtain g1 r where s: "on_sessions (\<lambda>m. sweep m (at_monotonic_millis ?now)) g = (g1, r)" by fastforce
  have g1: "ah_limiter (ls_handler g1) = ah_limiter (ls_handler g)" using s limiter_on_sessions by (metis fst_conv)
  show ?thesis
  proof (cases r)
    case (Inl e)
    then show ?thesis using Inr g1 s by (simp add: accept_hello_def exI [of _ "[]"])
  next
    case swept: (Inr u)
    let ?g = "sweep_pool (tm_monotonic_ms ?pool_now) (ae_sweep env) g1"
    obtain tr where tr: "trace limiter_exec (ah_limiter (ls_handler ?g), permits) tr
        (ah_limiter (fst (admit_async jwt (ls_handler ?g) source peer hello (Some trust) (at_monotonic_millis now) ?now
          (ae_consume env))), permits)"
      using admission_returns_permit by blast
    obtain h a removals where a: "admit_async jwt (ls_handler ?g) source peer hello (Some trust) (at_monotonic_millis now) ?now
          (ae_consume env) = (h, a, removals)" by (metis prod.exhaust)
    have "ah_limiter (ls_handler (fst (accept_hello jwt trust policy source peer hello_frame now elapsed env g))) = ah_limiter h"
      using Inr swept s by (simp add: accept_hello_def Let_def a split: sum.split)
    then show ?thesis using tr g1 by (auto simp: a)
  qed
qed

text \<open>C17. No permit leaks. Whatever becomes of an incoming connection - refused, broken in its
  handshake, without an identity, an invalid hello, a rejected ticket, a failing journal, store or
  response, or admitted - the limiter afterwards has been through acquisitions and drops that leave
  exactly the permits held that were held before: neither the permit for the handshake nor the one
  for the ticket verification stays behind.\<close>

theorem accept_returns_permits:
  "\<exists>tr. trace limiter_exec (ah_limiter (ls_handler g), permits) tr
    (ah_limiter (ls_handler (fst (accept_one_at jwt trust policy now accepted env g))), permits)"
proof (cases accepted)
  case None
  then show ?thesis by (simp add: accept_one_at_def exI [of _ "[]"])
next
  case (Some i)
  let ?start = "ah_limiter (ls_handler g)" and ?now = "at_monotonic_millis now"
  obtain l r where a: "limiter_acquire ?start (in_source i) ?now ?now = (l, r)" by fastforce
  show ?thesis
  proof (cases r)
    case (Inl e)
    have "trace limiter_exec (?start, permits) [(LmAcquire (in_source i) ?now ?now, Some e)] (l, permits)"
      using a Inl by (simp add: trace_Cons)
    then show ?thesis using Some a Inl by (auto simp: accept_one_at_def acquire_handshake_def acquire_permit_def)
  next
    case (Inr permit)
    let ?h = "drop_permit permit ((ls_handler g)\<lparr>ah_limiter := l\<rparr>)"
    let ?g = "g\<lparr>ls_handler := ?h\<rparr>"
    have "permit = in_source i" using a Inr acquired_permit by blast
    then have hs: "trace limiter_exec (?start, permits)
        [(LmAcquire (in_source i) ?now ?now, None), (LmDrop permit, None)] (ah_limiter (ls_handler ?g), permits)"
      using a Inr by (simp add: trace_Cons drop_permit_def)
    define rest where "rest = accept_one_at jwt trust policy now accepted env g"
    have "fst rest = ?g \<or> (\<exists>peer hello_frame.
        rest = accept_hello jwt trust policy (in_source i) peer hello_frame now (in_elapsed i) env ?g)"
      using Some a Inr by (auto simp: rest_def accept_one_at_def acquire_handshake_def acquire_permit_def Let_def
        split: awaited.split option.split)
    then obtain tr where "trace limiter_exec (ah_limiter (ls_handler ?g), permits) tr (ah_limiter (ls_handler (fst rest)), permits)"
      using hello_returns_permit by (metis trace_Nil)
    with hs show ?thesis unfolding rest_def using trace_append [of limiter_exec] by metis
  qed
qed

section \<open>The examples\<close>

lemma refused_resume_releases_lease_witness:
  "\<exists>m g'. sm_reachable 0 one_admitted \<and> pool_reachable \<lparr>py_pool = lan_leased m, py_running = []\<rparr>
    \<and> accept_admitted [1] 1 gw_accepted \<lparr>at_unix_seconds = 1100, at_monotonic_millis = 20\<rparr> (lan_time 20)
        \<lparr>ae_sweep = None, ae_consume = OwnerRan Written, ae_reserve = Some [], ae_commit = None, ae_release = Some [True],
         ae_written = True\<rparr> (gw_at one_admitted (lan_leased m)) = (g', Inl LsAdmissionRejected)
    \<and> isl (snd (fw_validate lan_forwarder (ls_pool g') 5 lan_packet))"
proof -
  obtain m where m: "pool_reachable \<lparr>py_pool = lan_leased m, py_running = []\<rparr>" using lan_leased_reachable by blast
  show ?thesis
    using refused_resume_releases_lease [of gw_accepted 5 "gw_at one_admitted (lan_leased m)"
        "\<lparr>ms_session = gw_session\<lparr>vs_maximum_paths := 1\<rparr>, ms_organization_id = 7, ms_last_activity_ms = 10\<rparr>"
        "\<lparr>at_unix_seconds = 1100, at_monotonic_millis = 20\<rparr>" "lan_lease 6 (sat_add 10 3600000)"
        "\<lparr>ae_sweep = None, ae_consume = OwnerRan Written, ae_reserve = Some [], ae_commit = None, ae_release = Some [True],
         ae_written = True\<rparr>" "[1]" 1 "lan_time 20"] one_reachable m
    by (simp add: gw_accepted_def gw_reservation_def one_admitted_def one_new_def one_config_def gw_session_def gw_new_def
      gw_config_def maximum_authenticated_connections_def usize_mul_def usize_max_def lan_leased_def lan_state_def lan_lease_def)
      metis
qed

lemma stale_connection_closes_session_witness:
  "\<exists>m g'. sm_reachable 0 gw_again \<and> pool_reachable \<lparr>py_pool = lan_leased m, py_running = []\<rparr>
    \<and> control_response (gw_at gw_again (lan_leased m)) gw_conn
        \<lparr>cf_transaction_id = 3, cf_message = PathAttach 5 8 3 3 []\<rparr> (lan_time 20)
        \<lparr>ce_sweep = None, ce_renew = Some [True], ce_written = True\<rparr> = (g', gw_conn, Inl LsAddressPool)
    \<and> map_of (sm_sessions (sessions_of g')) 5 = None"
proof -
  obtain m where m: "pool_reachable \<lparr>py_pool = lan_leased m, py_running = []\<rparr>" using lan_leased_reachable by blast
  show ?thesis
    using stale_connection_closes_session [of gw_conn gw_connection "gw_at gw_again (lan_leased m)" 5
        "\<lparr>ms_session = gw_session, ms_organization_id = 7, ms_last_activity_ms = 10\<rparr>"
        "\<lparr>cf_transaction_id = 3, cf_message = PathAttach 5 8 3 3 []\<rparr>" 8 3 3 "[]" "lan_time 20"
        "\<lparr>ce_sweep = None, ce_renew = Some [True], ce_written = True\<rparr>"] gw_again_reachable m
    by (simp add: gw_conn_def gw_accepted_def gw_again_def gw_admitted_def authenticated_def gw_connection_def) metis
qed

lemma rejected_detach_renews_lease_witness:
  "\<exists>m g' response. sm_reachable 100 gw_attached \<and> pool_reachable \<lparr>py_pool = lan_leased m, py_running = []\<rparr>
    \<and> control_response (gw_at gw_attached (lan_leased m)) gw_conn
        \<lparr>cf_transaction_id = 3, cf_message = PathDetach 5 2 3 []\<rparr> (lan_time 20)
        \<lparr>ce_sweep = None, ce_renew = Some [True], ce_written = True\<rparr> = (g', gw_conn, Inr response)
    \<and> lease_renewed g' 5 (lan_time 20)"
proof -
  obtain m where m: "pool_reachable \<lparr>py_pool = lan_leased m, py_running = []\<rparr>" using lan_leased_reachable by blast
  have l: "map_of (ap_active (lan_leased m)) 5 = Some (lan_lease 6 (sat_add 10 3600000))" "ap_inflight (lan_leased m) = []"
    by (simp_all add: lan_leased_def lan_state_def)
  have soon: "tm_monotonic_ms (lan_time 20) = 20" "(20::u64) < le_expires_at_ms (lan_lease 6 (sat_add 10 3600000))"
    by (simp_all add: lan_time_def lan_lease_def sat_add_def)
  note it = rejected_detach_renews_lease [of gw_conn gw_connection "gw_at gw_attached (lan_leased m)" 5 _ "lan_time 20" 1 3 3 2
        "lan_lease 6 (sat_add 10 3600000)" "\<lparr>ce_sweep = None, ce_renew = Some [True], ce_written = True\<rparr>"
        "\<lparr>cf_transaction_id = 3, cf_message = PathDetach 5 2 3 []\<rparr>" 3 "[]", unfolded gw_at_simps soon(1), OF _ _ _ _ gw_attached_session]
  have "\<exists>g' response. control_response (gw_at gw_attached (lan_leased m)) gw_conn
        \<lparr>cf_transaction_id = 3, cf_message = PathDetach 5 2 3 []\<rparr> (lan_time 20)
        \<lparr>ce_sweep = None, ce_renew = Some [True], ce_written = True\<rparr> = (g', gw_conn, Inr response)
      \<and> cf_message response = Reject UnknownPath (ascii ''path detach rejected'') \<and> lease_renewed g' 5 (lan_time 20)"
    by (rule it) (use l soon in \<open>simp_all add: gw_conn_def gw_accepted_def authenticated_def gw_connection_def gw_attached_def
      gw_admitted_def gw_session_def vs_is_expired_def idle_since_def gw_new_def gw_config_def sat_sub_def\<close>)
  then show ?thesis using gw_reachable(1) m by blast
qed

text \<open>A first admission, with the ticket of the example, into an empty gateway.\<close>

definition sample_hello_frame :: control_frame where
  "sample_hello_frame = \<lparr>cf_transaction_id = 2, cf_message = ClientHello 7 [103] [97, 46, 98, 46, 99]\<rparr>"

definition sample_env :: accept_env where
  "sample_env = \<lparr>ae_sweep = None, ae_consume = OwnerRan Written, ae_reserve = Some [True], ae_commit = Some [True],
     ae_release = None, ae_written = True\<rparr>"

lemma lan_reserve_run:
  "\<exists>m. complete (reserve_begin lan_pool 5 7 t) [True]
    = (py_pool (lan_state [] [(5, lan_lease 7 (sat_add (tm_monotonic_ms t) 30000))] [] m), Addresses (Inr (lan_address 3 1)))"
proof -
  have p: "lan_pool = py_pool (lan_state [] [] [] pool_metrics_default)"
    using lan_start_state by (metis lan_start_def pool_system.select_convs(1))
  note allocate = lan_allocate [OF p]
  show ?thesis using allocate unfolding p
    by (auto simp: reserve_begin_def reserve_new_def lan_state_def usize_add_def usize_max_def complete_def
      reserve_finish_def Let_def store_ok_def park_def unpark_def pool_count_def hm_insert_def lan_lease_def)
qed

lemma lan_commit_run:
  "tm_monotonic_ms t < expires \<Longrightarrow> \<exists>m'. complete (commit_begin (py_pool (lan_state [] [(sid, lan_lease did expires)] [] m)) sid t) [True]
    = (py_pool (lan_state [(sid, lan_lease did (sat_add (tm_monotonic_ms t) 3600000))] [] [] m'), Addresses (Inr (lan_address 3 1)))"
  by (auto simp: commit_begin_def complete_def promote_finish_def Let_def store_ok_def lan_state_def
      lan_lease_def park_def unpark_def pool_count_def hm_insert_def kt_remove_def linorder_not_le [symmetric])

definition sample_reservation :: admission_reservation where
  "sample_reservation = \<lparr>ads_session_id = 5, ads_device_id = 7, ads_organization_id = 9, ads_expires_at_ms = 500009,
     ads_creates_session = True\<rparr>"

definition sample_accepted :: admission_accepted where
  "sample_accepted = \<lparr>aa_owner = owner_from_ticket sample_ticket, aa_expires_at_unix_seconds = 1600, aa_policy_version = 1,
     aa_reservation = sample_reservation\<rparr>"

lemma sample_admitted:
  "\<exists>h. admit_async sample_jwt (ls_handler (gw_at gw_new lan_pool)) (IpAddrV4 1) 7 sample_hello (Some sample_trust) 9
      \<lparr>at_unix_seconds = 1100, at_monotonic_millis = 9\<rparr> (OwnerRan Written) = (h, Inr sample_accepted, [])
    \<and> ah_sessions h = gw_new\<lparr>sm_admissions := [(5, sample_reservation)]\<rparr>"
proof -
  let ?now = "\<lparr>at_unix_seconds = 1100, at_monotonic_millis = 9\<rparr>"
  have g: "ls_handler (gw_at gw_new lan_pool) = sample_handler" by (simp add: gw_at_def sample_handler_def handler_new_def)
  have ticket: "vt_ticket_id sample_ticket = 1" "vt_expires_at_unix_seconds sample_ticket = 1600" "vt_policy_version sample_ticket = 1"
    "vt_session_id sample_ticket = 5" "vt_device_id sample_ticket = 7" "vt_organization_id sample_ticket = 9"
    by (simp_all add: sample_ticket_def)
  obtain l where l: "limiter_acquire few_new (IpAddrV4 1) 9 9 = (l, Inr (IpAddrV4 1))"
    by (simp add: limiter_acquire_def few_new_def few_permits_def Let_def sat_sub_def kt_retain_def hm_insert_def)
  then have b: "admit_begin sample_jwt sample_handler (IpAddrV4 1) 7 sample_hello (Some sample_trust) 9 ?now
      = (sample_handler\<lparr>ah_limiter := l\<rparr>, Inr (IpAddrV4 1, sample_ticket))"
    by (simp add: admit_begin_def acquire_permit_def sample_handler_def handler_new_def sample_hello_def
      validate_admission_ticket_def sample_verified)
  obtain h2 where c: "consume_async (sample_handler\<lparr>ah_limiter := l\<rparr>) 1 1600 1100 (OwnerRan Written) = (h2, Inr ())"
    and h2: "ah_sessions h2 = gw_new"
    by (simp add: consume_async_def handler_consume_def replay_consume_def sample_handler_def handler_new_def Let_def kt_retain_def)
  have "reserve_admission gw_new 5 7 9 500009 9 = (gw_new\<lparr>sm_admissions := [(5, sample_reservation)]\<rparr>, Inr sample_reservation, [])"
    by (simp add: reserve_admission_def gw_eval sample_reservation_def usize_add_def usize_max_def)
  then have "\<exists>h. admit_finish h2 (IpAddrV4 1) sample_ticket (Inr ()) ?now = (h, Inr sample_accepted, [])
      \<and> ah_sessions h = gw_new\<lparr>sm_admissions := [(5, sample_reservation)]\<rparr>"
    by (simp add: admit_finish_def Let_def owner_from_ticket_def ticket h2 admission_deadline_def sat_add_def sat_sub_def sat_mul_def
      sample_accepted_def drop_permit_def count_metric_def)
  then show ?thesis unfolding g by (simp add: admit_async_def b c ticket)
qed

lemma sample_sweep: "sweep gw_new 9 = (gw_new, Inr 0, [])"
  by (simp add: sweep_def prune_overdue_attaches_def kt_retain_def map_filter_def record_each_def gw_eval)

lemma session_admit_exact_witness:
  "\<exists>g' c response. accept_hello sample_jwt sample_trust [1] (IpAddrV4 1) 7 sample_hello_frame
        \<lparr>at_unix_seconds = 1100, at_monotonic_millis = 9\<rparr> 0 sample_env (gw_at gw_new lan_pool) = (g', Inr (c, response))
    \<and> so_device_id (aa_owner (lc_admitted c)) = 7
    \<and> (\<exists>ms. map_of (sm_sessions (sessions_of g')) 5 = Some ms \<and> vs_state (ms_session ms) = SActive)"
proof -
  let ?now = "\<lparr>at_unix_seconds = 1100, at_monotonic_millis = 9\<rparr> :: admission_time"
  let ?pool_now = "pool_time_from_seconds 9 1100"
  have hello: "hello_from_control_message (cf_message sample_hello_frame) = Inr sample_hello"
    by (simp add: hello_from_control_message_def sample_hello_frame_def sample_hello_def MAX_GATEWAY_NAME_LEN_def is_ascii_def)
  have adv: "advance_admission_time ?now 0 = ?now" by (simp add: advance_admission_time_def sat_add_def)
  have swept: "on_sessions (\<lambda>m. sweep m 9) (gw_at gw_new lan_pool) = (gw_at gw_new lan_pool, Inr 0)"
    by (simp add: on_sessions_def sample_sweep gw_at_def)
  obtain h where h: "admit_async sample_jwt (ls_handler (gw_at gw_new lan_pool)) (IpAddrV4 1) 7 sample_hello (Some sample_trust) 9
      ?now (OwnerRan Written) = (h, Inr sample_accepted, [])" "ah_sessions h = gw_new\<lparr>sm_admissions := [(5, sample_reservation)]\<rparr>"
    using sample_admitted by blast
  have owner: "so_session_id (aa_owner sample_accepted) = 5" "so_device_id (aa_owner sample_accepted) = 7"
    by (simp_all add: sample_accepted_def owner_from_ticket_def sample_ticket_def)
  have env: "ae_sweep sample_env = None" "ae_consume sample_env = OwnerRan Written" "cf_transaction_id sample_hello_frame = 2"
    by (simp_all add: sample_env_def sample_hello_frame_def)
  have put: "(gw_at gw_new lan_pool)\<lparr>ls_handler := h\<rparr> = \<lparr>ls_handler = h, ls_pool = lan_pool\<rparr>"
    by (simp add: gw_at_def)
  have mono: "tm_monotonic_ms ?pool_now = 9" by (simp add: pool_time_from_seconds_def)
  obtain m where r: "complete (reserve_begin lan_pool 5 7 ?pool_now) [True]
    = (py_pool (lan_state [] [(5, lan_lease 7 (sat_add 9 30000))] [] m), Addresses (Inr (lan_address 3 1)))"
    using lan_reserve_run [of ?pool_now] mono by auto
  obtain m' where k: "complete (commit_begin (py_pool (lan_state [] [(5, lan_lease 7 (sat_add 9 30000))] [] m)) 5 ?pool_now) [True]
    = (py_pool (lan_state [(5, lan_lease 7 (sat_add 9 3600000))] [] [] m'), Addresses (Inr (lan_address 3 1)))"
    using lan_commit_run [of ?pool_now "sat_add 9 30000" 5 7 m] mono by (auto simp: sat_add_def)
  obtain n connection where b: "commit_admission_and_bind (gw_new\<lparr>sm_admissions := [(5, sample_reservation)]\<rparr>) sample_reservation 9
      = (n, Inr connection, [])"
    by (simp add: admit_eval gw_eval sample_reservation_def)
  have cb: "commit_and_bind h sample_accepted ?now = (h\<lparr>ah_sessions := n\<rparr>, Inr connection, [])"
    using b h(2) by (simp add: commit_and_bind_def sample_accepted_def)
  obtain response where frame: "template_frame [1] 2 sample_accepted (lan_address 3 1) = Inr response"
    by (simp add: template_frame_def sample_accepted_def)
  let ?g = "\<lparr>ls_handler = h\<lparr>ah_sessions := n\<rparr>, ls_pool = py_pool (lan_state [(5, lan_lease 7 (sat_add 9 3600000))] [] [] m')\<rparr>"
  let ?c = "\<lparr>lc_admitted = sample_accepted, lc_connection = Some connection, lc_attached_path = None\<rparr>"
  have "accept_admitted [1] 2 sample_accepted ?now ?pool_now sample_env \<lparr>ls_handler = h, ls_pool = lan_pool\<rparr> = (?g, Inr (?c, response))"
    by (simp add: accept_admitted_def owner on_pool_def sample_env_def r cb k frame)
  then have run: "accept_hello sample_jwt sample_trust [1] (IpAddrV4 1) 7 sample_hello_frame ?now 0 sample_env (gw_at gw_new lan_pool)
      = (?g, Inr (?c, response))"
    using h(1) by (simp add: accept_hello_def hello adv swept sweep_pool_def env mono Let_def put)
  have few: "mc_maximum_sessions gw_config \<le> usize_max" by (simp add: gw_config_def usize_max_def)
  have "sm_reachable 0 (sessions_of (gw_at gw_new lan_pool))"
    unfolding sm_reachable_def gw_at_simps by (intro exI conjI, rule gw_start, rule few, rule trace.stop) simp
  from session_admit_exact [OF run this refl] obtain ticket ms where
    "aa_owner sample_accepted = owner_from_ticket ticket" "map_of (sm_sessions n) (vt_session_id ticket) = Some ms"
    "vs_state (ms_session ms) = SActive" by fastforce
  moreover from this owner have "vt_session_id ticket = 5" by (simp add: owner_from_ticket_def)
  ultimately show ?thesis using run owner by fastforce
qed

text \<open>An attach on a connection of a live session.\<close>

definition gw_active :: manager where
  "gw_active = gw_admitted\<lparr>sm_sessions := [(5, \<lparr>ms_session = gw_session, ms_organization_id = 7, ms_last_activity_ms = 20\<rparr>)]\<rparr>"

lemma gw_active_steps:
  "sweep gw_admitted 20 = (gw_admitted, Inr 0, [])"
  "record_authenticated_activity gw_admitted gw_connection 20 = (gw_active, Inr (), [])"
  "\<exists>m. sm_reserve_attach gw_active gw_connection 3 3 20 = (m, Inr (gw_attach 1 3 3), [])
    \<and> (\<exists>m' b. sm_commit_attach m (gw_attach 1 3 3) = (m', Inr b, []))"
proof -
  show "sweep gw_admitted 20 = (gw_admitted, Inr 0, [])"
    by (simp add: sweep_def prune_overdue_attaches_def kt_retain_def map_filter_def record_each_def gw_admitted_def removal_due_def
      vs_is_expired_def idle_since_def prune_path_tombstones_def gw_eval)
  show "record_authenticated_activity gw_admitted gw_connection 20 = (gw_active, Inr (), [])"
    by (simp add: record_authenticated_activity_def authenticated_def gw_active_def gw_admitted_def vs_is_expired_def idle_since_def
      put_session_def gw_eval)
  show "\<exists>m. sm_reserve_attach gw_active gw_connection 3 3 20 = (m, Inr (gw_attach 1 3 3), [])
    \<and> (\<exists>m' b. sm_commit_attach m (gw_attach 1 3 3) = (m', Inr b, []))"
    by (simp add: gw_active_def gw_admitted_def sm_reserve_attach_def prune_overdue_attaches_def authenticated_def
      reserve_attach_def prune_path_tombstones_def vs_is_expired_def allocate_path_id_def allocate_turns_numeral
      eligible_def next_id_def put_session_def sm_commit_attach_def commit_attach_def reservation_matches_def set_path_state_def
      gw_eval del: allocate_turns.simps)
qed

lemma path_answers_renewed_witness:
  "\<exists>m g' c' response path_id ep. handle_control (gw_at gw_admitted (lan_leased m)) gw_conn
      \<lparr>cf_transaction_id = 3, cf_message = PathAttach 5 8 3 3 []\<rparr> (lan_time 20)
      \<lparr>ce_sweep = None, ce_renew = Some [True], ce_written = True\<rparr> = (g', c', Inr response)
    \<and> cf_message response = PathAttached 5 path_id ep \<and> path_in_force g' c' 5 path_id ep (lan_time 20)"
proof -
  let ?env = "\<lparr>ce_sweep = None, ce_renew = Some [True], ce_written = True\<rparr>"
  let ?frame = "\<lparr>cf_transaction_id = 3, cf_message = PathAttach 5 8 3 3 []\<rparr> :: control_frame"
  fix m
  let ?g = "gw_at gw_admitted (lan_leased m)"
  have now: "tm_monotonic_ms (lan_time 20) = 20" by (simp add: lan_time_def)
  have swept: "on_sessions (\<lambda>m. sweep m 20) ?g = (?g, Inr 0)" by (simp add: on_sessions_def gw_active_steps(1) gw_at_def)
  have act: "on_sessions (\<lambda>m. record_authenticated_activity m gw_connection 20) ?g = (gw_at gw_active (lan_leased m), Inr ())"
    by (simp add: on_sessions_def gw_active_steps(2) gw_at_def)
  have "\<exists>p. complete (renew_begin (lan_leased m) 5 (lan_time 20)) [True] = (p, Renewed (Inr ()))"
    by (simp add: complete_def renew_begin_def renew_finish_def Let_def store_ok_def lan_leased_def lan_state_def lan_lease_def
      lan_time_def sat_add_def)
  then obtain p where renewed: "renew_lease 5 (lan_time 20) ?env (gw_at gw_active (lan_leased m)) = (gw_at gw_active p, True)"
    by (auto simp: renew_lease_def on_pool_def gw_at_def)
  obtain n n' b where r: "sm_reserve_attach gw_active gw_connection 3 3 20 = (n, Inr (gw_attach 1 3 3), [])"
    and k: "sm_commit_attach n (gw_attach 1 3 3) = (n', Inr b, [])" using gw_active_steps(3) by blast
  have r': "on_sessions (\<lambda>m. sm_reserve_attach m gw_connection 3 3 20) (gw_at gw_active p) = (gw_at n p, Inr (gw_attach 1 3 3))"
    by (simp add: on_sessions_def r gw_at_def)
  have k': "on_sessions (\<lambda>m. sm_commit_attach m (gw_attach 1 3 3)) (gw_at n p) = (gw_at n' p, Inr b)"
    by (simp add: on_sessions_def k gw_at_def)
  let ?c = "gw_conn\<lparr>lc_attached_path := Some \<lparr>lb_path_id = pb_path_id b, lb_path_epoch = pb_path_epoch b,
      lb_key_epoch = pb_key_epoch b, lb_path_nonce = 8\<rparr>\<rparr>"
  let ?response = "path_attached 3 5 (pb_path_id b) (pb_path_epoch b)"
  have c: "lc_connection gw_conn = Some gw_connection" "lc_attached_path gw_conn = None" "so_session_id (aa_owner (lc_admitted gw_conn)) = 5"
    by (simp_all add: gw_conn_def gw_accepted_def)
  have run: "handle_control ?g gw_conn ?frame (lan_time 20) ?env = (gw_at n' p, ?c, Inr ?response)"
    by (simp add: handle_control_def now swept sweep_pool_def control_response_def c attach_new_def renew_activity_def act renewed r' k')
  have "sm_reachable 100 (sessions_of ?g)" using gw_reachable(2) by simp
  from path_answers_renewed [OF run this] run show ?thesis by (fastforce simp: path_attached_def)
qed

end
