(* ===== verification/LifecycleTrace.thy ===== *)
theory LifecycleTrace
  imports LifecycleProps
begin

text \<open>
  The properties of the session lifecycle, over the traces of its operations, with the
  concrete session their witnesses run.
\<close>

section \<open>Identifiers\<close>

text \<open>The cursor visits every identifier within 65535 turns.\<close>

lemma next_id_step: "next_id (- 1) = 1" "w \<noteq> - 1 \<Longrightarrow> unat (next_id w) = unat w + 1"
  by (simp_all add: next_id_def unat_inc)

lemma unat_next_id_pow:
  assumes "n \<noteq> 0"
  shows "unat ((next_id ^^ i) n) = (unat n - 1 + i) mod 65535 + 1"
proof (induction i)
  case 0
  have "unat n < 65536" using unat_bound [of n] by simp
  moreover have "0 < unat n" using assms by (simp add: unat_gt_0)
  ultimately show ?case by simp
next
  case (Suc i)
  let ?w = "(next_id ^^ i) n" and ?x = "unat n - 1 + i"
  show ?case
  proof (cases "?w = - 1")
    case True
    then have "?x mod 65535 = 65534" using Suc by (simp add: unat_minus_1_word)
    moreover have "next_id ?w = 1" using True by (simp add: next_id_step)
    ultimately show ?thesis by (simp add: mod_Suc)
  next
    case False
    then have "unat (next_id ?w) = ?x mod 65535 + 2"
      using Suc next_id_step(2) [OF False] by simp
    moreover have "?x mod 65535 \<noteq> 65534"
    proof
      assume "?x mod 65535 = 65534"
      then have "unat ?w = unat (- 1 :: u16)" using Suc by (simp add: unat_minus_1_word)
      with False show False by (simp add: word_unat_eq_iff)
    qed
    ultimately show ?thesis by (simp add: mod_Suc)
  qed
qed

lemma next_id_pow_surj:
  assumes "n \<noteq> 0" and "p \<noteq> 0"
  shows "\<exists>i < 65535. (next_id ^^ i) n = p"
proof -
  let ?i = "(unat p + 65535 - unat n) mod 65535"
  have n: "unat n < 65536" "0 < unat n" and p: "unat p < 65536" "0 < unat p"
    using unat_bound [of n] unat_bound [of p] assms by (simp_all add: unat_gt_0)
  have "(unat n - 1 + ?i) mod 65535 = (unat n - 1 + (unat p + 65535 - unat n)) mod 65535"
    by (rule mod_add_right_eq)
  also have "unat n - 1 + (unat p + 65535 - unat n) = (unat p - 1) + 65535"
    using n p by linarith
  also have "\<dots> mod 65535 = (unat p - 1) mod 65535" by (rule mod_add_self2)
  also have "\<dots> = unat p - 1" using p by (intro mod_less) simp
  finally have "unat ((next_id ^^ ?i) n) = unat p"
    using p by (simp add: unat_next_id_pow [OF assms(1)])
  then have "(next_id ^^ ?i) n = p" by (simp add: word_unat_eq_iff)
  moreover have "?i < 65535" by simp
  ultimately show ?thesis by blast
qed

lemma allocate_turns_None:
  "allocate_turns n s e k = (s', None) \<Longrightarrow> i < n \<Longrightarrow> \<not> eligible s e k ((next_id ^^ i) (vs_next_path_id s))"
proof (induction n arbitrary: s i)
  case 0
  then show ?case by simp
next
  case (Suc n)
  let ?t = "s\<lparr>vs_next_path_id := next_id (vs_next_path_id s)\<rparr>"
  have "\<not> eligible s e k (vs_next_path_id s)" and rest: "allocate_turns n ?t e k = (s', None)"
    using Suc.prems(1) by (auto simp: allocate_turns_Suc Let_def simp del: allocate_turns.simps split: if_splits)
  then show ?case
    using Suc.IH [OF rest, of "i - 1"] Suc.prems(2)
    by (cases i) (simp_all add: funpow_swap1)
qed

lemma reserve_succeeds:
  assumes s: "lc_reachable s" and act: "vs_state s = SActive" "\<not> vs_is_expired s now"
    and epochs: "e \<noteq> 0" "k \<noteq> 0" and room: "vs_path_count s < vs_maximum_paths s"
    and unbound: "\<forall>(p, path) \<in> set (vs_paths s). pb_connection_id (pe_binding path) \<noteq> conn"
    and el: "eligible (prune_path_tombstones now s) e k p" "p \<noteq> 0"
  shows "\<exists>s' r. reserve_attach s conn e k now = (s', Inr r) \<and>
    eligible (prune_path_tombstones now s) e k (ar_path_id r)"
proof -
  let ?t = "prune_path_tombstones now s"
  have ok: "lifecycle_ok s" by (rule lc_reachable_ok [OF s])
  then have nz: "vs_next_path_id ?t \<noteq> 0" by (simp add: lifecycle_ok_def history_ok_def)
  obtain u a where al: "allocate_path_id ?t e k = (u, a)" by fastforce
  obtain q where q: "a = Some q"
  proof (cases a)
    case None
    obtain i where "i < 65535" "(next_id ^^ i) (vs_next_path_id ?t) = p"
      using next_id_pow_surj [OF nz el(2)] by blast
    with allocate_turns_None [of 65535 ?t e k u i] al el(1) None show ?thesis
      by (simp add: allocate_path_id_def)
  qed
  have "\<not> list_ex (\<lambda>(_, path). pb_connection_id (pe_binding path) = conn) (vs_paths s)"
    using unbound by (auto simp: list_ex_iff)
  then have "\<exists>s' r. reserve_attach s conn e k now = (s', Inr r)"
    using act epochs room al q
    by (simp add: reserve_attach_def Let_def vs_is_expired_def vs_path_count_def)
  then obtain s' r where r: "reserve_attach s conn e k now = (s', Inr r)" by blast
  from ok this have "eligible ?t e k (ar_path_id r)" by (cases rule: reserve_effect) auto
  with r show ?thesis by blast
qed

section \<open>A concrete session\<close>

text \<open>Active from time 3, with room for \<open>m - 1\<close> paths; a path is reserved at time 10.\<close>

definition demo_config :: "nat \<Rightarrow> v2_session_config" where
  "demo_config m = \<lparr>sc_maximum_paths = m - 1, sc_maximum_path_epoch_history = m - 1,
     sc_maximum_path_tombstones = 2, sc_path_tombstone_ttl_ms = 100\<rparr>"

definition demo_admission :: admission where
  "demo_admission = \<lparr>ad_session_id = 5, ad_device_id = 6, ad_expires_at_ms = 1000\<rparr>"

definition demo_new :: "nat \<Rightarrow> v2_session" where
  "demo_new m = \<lparr>vs_admission = demo_admission, vs_state = SPending, vs_maximum_paths = m - 1,
     vs_paths = [], vs_next_path_id = 1, vs_path_epoch_history = [], vs_path_tombstones = [],
     vs_tombstone_order = [], vs_maximum_path_epoch_history = m - 1, vs_maximum_path_tombstones = 2,
     vs_path_tombstone_ttl_ms = 100, vs_tombstones_expired = 0, vs_tombstones_capacity_evicted = 0\<rparr>"

definition demo_active :: "nat \<Rightarrow> v2_session" where
  "demo_active m = fst (lc_exec (demo_new m) (Activate 3))"

definition demo_reservation :: attach_reservation where
  "demo_reservation = \<lparr>ar_path_id = 1, ar_path_epoch = 1, ar_key_epoch = 1, ar_connection_id = 7\<rparr>"

definition demo_reserved :: "nat \<Rightarrow> v2_session" where
  "demo_reserved m = fst (reserve_attach (demo_active m) 7 1 1 10)"

definition demo_aborted :: "nat \<Rightarrow> v2_session" where
  "demo_aborted m = fst (abort_attach (demo_reserved m) demo_reservation)"

definition demo_attached :: "nat \<Rightarrow> v2_session" where
  "demo_attached m = fst (commit_attach (demo_reserved m) demo_reservation)"

definition demo_detached :: "nat \<Rightarrow> v2_session" where
  "demo_detached m = fst (detach (demo_attached m) 1 7 1 20)"

lemmas demo_eval = Let_def demo_new_def v2_session_new_def demo_config_def demo_admission_def
  of_result_def vs_activate_def vs_is_expired_def reserve_attach_def allocate_path_id_def
  allocate_turns_numeral eligible_def next_id_def prune_path_tombstones_def hm_insert_def
  commit_attach_def abort_attach_def reservation_matches_def detach_def path_insert_tombstone_def
  kt_remove_def sat_add_def demo_reservation_def

lemma demo_new: "m = 2 \<or> m = 3 \<Longrightarrow> v2_session_new (demo_config m) demo_admission 2 = Inr (demo_new m)"
  by (auto simp: demo_eval)

lemma demo_active_eq: "demo_active m = demo_new m\<lparr>vs_state := SActive\<rparr>"
  by (simp add: demo_active_def demo_eval)

lemma demo_reserved_eq:
  assumes "m = 2 \<or> m = 3"
  shows "demo_reserved m = demo_new m\<lparr>vs_state := SActive, vs_next_path_id := 2,
      vs_path_epoch_history := [(1, \<lparr>ep_path_epoch = 1, ep_key_epoch = 1\<rparr>)],
      vs_paths := [(1, \<lparr>pe_binding = \<lparr>pb_path_id = 1, pb_path_epoch = 1, pb_key_epoch = 1,
        pb_connection_id = 7, pb_state = PConnecting\<rparr>, pe_reserved = True\<rparr>)]\<rparr>"
    and "reserve_attach (demo_active m) 7 1 1 10 = (demo_reserved m, Inr demo_reservation)"
  using assms unfolding demo_reserved_def demo_active_eq
  by (auto simp: demo_eval simp del: allocate_turns.simps)

lemma demo_aborted_eq: "m = 2 \<or> m = 3 \<Longrightarrow> demo_aborted m = (demo_reserved m)\<lparr>vs_paths := []\<rparr>"
  by (simp add: demo_aborted_def demo_reserved_eq) (simp add: demo_eval)

lemma demo_attached_eq: "m = 2 \<or> m = 3 \<Longrightarrow> demo_attached m = (demo_reserved m)\<lparr>vs_paths :=
    [(1, \<lparr>pe_binding = \<lparr>pb_path_id = 1, pb_path_epoch = 1, pb_key_epoch = 1,
        pb_connection_id = 7, pb_state = PAttached\<rparr>, pe_reserved = False\<rparr>)]\<rparr>"
  by (simp add: demo_attached_def demo_reserved_eq) (simp add: demo_eval)

lemma demo_detached_eq:
  assumes "m = 2 \<or> m = 3"
  shows "detach (demo_attached m) 1 7 1 20 = (demo_detached m, True)"
    and "demo_detached m = (demo_aborted m)\<lparr>vs_path_tombstones := [(1, \<lparr>pt_expires_at_ms = 120\<rparr>)],
      vs_tombstone_order := [1]\<rparr>"
  using assms unfolding demo_detached_def demo_aborted_eq [OF assms] demo_attached_eq [OF assms]
    demo_reserved_eq(1) [OF assms]
  by (auto simp: demo_eval)

lemma demo_reachable:
  assumes "m = 2 \<or> m = 3"
  shows "lc_reachable (demo_active m)" and "lc_reachable (demo_reserved m)"
    and "lc_reachable (demo_aborted m)" and "lc_reachable (demo_attached m)"
    and "lc_reachable (demo_detached m)"
proof -
  have new: "lc_reachable (demo_new m)"
    unfolding lc_reachable_def
    by (intro exI conjI) (rule demo_new [OF assms], rule trace.stop)
  have next_state: "lc_reachable s \<Longrightarrow> lc_reachable (fst (lc_exec s e))" for s e
    using lc_reachable_exec [of s e "fst (lc_exec s e)" "snd (lc_exec s e)"] by simp
  show a: "lc_reachable (demo_active m)"
    unfolding demo_active_def by (rule next_state [OF new])
  show r: "lc_reachable (demo_reserved m)"
    using next_state [OF a, of "Reserve 7 1 1 10"] by (simp add: demo_reserved_def)
  show "lc_reachable (demo_aborted m)"
    using next_state [OF r, of "Abort demo_reservation"] by (simp add: demo_aborted_def)
  show c: "lc_reachable (demo_attached m)"
    using next_state [OF r, of "Commit demo_reservation"] by (simp add: demo_attached_def)
  show "lc_reachable (demo_detached m)"
    using next_state [OF c, of "Detach 1 7 1 20"] by (simp add: demo_detached_def)
qed

text \<open>The only identifier the session may use, again, with both epochs advanced.\<close>

lemma demo_again:
  "\<exists>v r. reserve_attach (demo_aborted 2) 8 2 2 11 = (v, Inr r) \<and> ar_path_id r = 1"
proof -
  let ?s = "demo_aborted 2"
  have eq: "?s = (demo_reserved 2)\<lparr>vs_paths := []\<rparr>" by (simp add: demo_aborted_eq)
  note eval = eq demo_reserved_eq demo_eval vs_path_count_def
  have el: "eligible (prune_path_tombstones 11 ?s) 2 2 p \<longleftrightarrow> p = 1" for p
    by (simp add: eval)
  have "\<exists>s' r. reserve_attach ?s 8 2 2 11 = (s', Inr r) \<and>
      eligible (prune_path_tombstones 11 ?s) 2 2 (ar_path_id r)"
    by (rule reserve_succeeds [where p = 1]) (simp_all add: demo_reachable el, simp_all add: eval)
  then show ?thesis unfolding el by blast
qed

section \<open>Reuse of identifiers\<close>

text \<open>C16. A path identifier is only ever reused with both epochs advanced: whatever happens
  between two reservations of the same identifier, the later one has a larger path epoch and
  a larger key epoch, so no packet of the old path can pass for one of the new.\<close>

theorem reused_path_id_advances:
  assumes s: "lc_reachable s" and r: "reserve_attach s conn e k now = (t, Inr r)"
    and tr: "trace lc_exec t tr u"
    and r': "reserve_attach u conn' e' k' now' = (v, Inr r')"
    and same: "ar_path_id r' = ar_path_id r"
  shows "e < e' \<and> k < k'"
proof -
  have ok: "lifecycle_ok s" "lifecycle_ok t" "lifecycle_ok u"
    using lc_reachable_ok [OF s] lifecycle_ok_reserve r lifecycle.inv_trace tr by blast+
  from ok(1) r have "map_of (vs_path_epoch_history t) (ar_path_id r) =
      Some \<lparr>ep_path_epoch = e, ep_key_epoch = k\<rparr>"
    by (cases rule: reserve_effect) (auto simp: granted_def map_of_hm_insert)
  moreover have "epochs_grow t u" using lifecycle.rel_trace [OF tr ok(2)] by (simp add: evolves_def)
  ultimately obtain b where b: "map_of (vs_path_epoch_history u) (ar_path_id r) = Some b"
    "e \<le> ep_path_epoch b" "k \<le> ep_key_epoch b"
    unfolding epochs_grow_def by fastforce
  from ok(3) r' show ?thesis
    using b same by (cases rule: reserve_effect) (auto simp: eligible_def)
qed

theorem reused_path_id_advances_witness:
  "\<exists>v r. reserve_attach (demo_active 2) 7 1 1 10 = (demo_reserved 2, Inr demo_reservation) \<and>
     reserve_attach (demo_aborted 2) 8 2 2 11 = (v, Inr r) \<and>
     ar_path_id r = ar_path_id demo_reservation \<and> (1 :: u64) < 2 \<and> (1 :: u32) < 2"
proof -
  obtain v r where r: "reserve_attach (demo_aborted 2) 8 2 2 11 = (v, Inr r)"
    "ar_path_id r = ar_path_id demo_reservation"
    using demo_again by (auto simp: demo_reservation_def)
  have first: "reserve_attach (demo_active 2) 7 1 1 10 = (demo_reserved 2, Inr demo_reservation)"
    by (rule demo_reserved_eq(2)) simp
  have "trace lc_exec (demo_reserved 2) [(Abort demo_reservation, Answer True)] (demo_aborted 2)"
    unfolding demo_aborted_def demo_reserved_eq(1) [OF disjI1 [OF refl]]
    by (simp add: trace_Cons demo_eval)
  from reused_path_id_advances [OF _ first this r] first r show ?thesis
    by (auto simp: demo_reachable)
qed

text \<open>Allocation is complete: an active session with room for a path and an unbound
  connection grants the attach whenever any identifier can be used, wherever the cursor of the
  search stands and however many identifiers it has to skip.\<close>

theorem attach_granted_if_possible:
  assumes s: "lc_reachable s" and act: "vs_state s = SActive" "\<not> vs_is_expired s now"
    and epochs: "e \<noteq> 0" "k \<noteq> 0" and room: "vs_path_count s < vs_maximum_paths s"
    and unbound: "\<forall>(p, path) \<in> set (vs_paths s). pb_connection_id (pe_binding path) \<noteq> conn"
    and el: "eligible (prune_path_tombstones now s) e k p" "p \<noteq> 0"
  shows "\<exists>s' r. reserve_attach s conn e k now = (s', Inr r) \<and>
    eligible (prune_path_tombstones now s) e k (ar_path_id r)"
  using s act epochs room unbound el by (rule reserve_succeeds)

theorem attach_granted_if_possible_witness:
  "\<exists>v r. reserve_attach (demo_aborted 2) 8 2 2 11 = (v, Inr r) \<and>
     eligible (prune_path_tombstones 11 (demo_aborted 2)) 2 2 (ar_path_id r)"
  by (rule attach_granted_if_possible [where p = 1])
    (simp_all add: demo_reachable, simp_all add: demo_aborted_eq demo_reserved_eq demo_eval vs_path_count_def)

section \<open>Quarantine\<close>

fun lc_clock :: "lifecycle_event \<Rightarrow> u64 option" where
  "lc_clock (Prune now) = Some now"
| "lc_clock (Reserve conn e k now) = Some now"
| "lc_clock _ = None"

fun is_detach :: "lifecycle_event \<times> lifecycle_outcome \<Rightarrow> bool" where
  "is_detach (Detach p conn e now, out) = (out = Answer True)"
| "is_detach _ = False"

text \<open>The identifier is quarantined until \<open>E\<close>, with at most \<open>n\<close> later ones behind it.\<close>

definition guarded :: "path_id \<Rightarrow> u64 \<Rightarrow> nat \<Rightarrow> v2_session \<Rightarrow> bool" where
  "guarded p E n s \<longleftrightarrow> (\<exists>xs ys. vs_tombstone_order s = xs @ p # ys \<and> length ys \<le> n) \<and>
     map_of (vs_path_tombstones s) p = Some \<lparr>pt_expires_at_ms = E\<rparr>"

lemma guarded_same:
  "guarded p E n s \<Longrightarrow> vs_tombstone_order t = vs_tombstone_order s \<Longrightarrow>
    vs_path_tombstones t = vs_path_tombstones s \<Longrightarrow> guarded p E n t"
  by (simp add: guarded_def)

lemma guarded_prune:
  assumes ok: "lifecycle_ok s" and g: "guarded p E n s" and now: "now < E"
  shows "guarded p E n (prune_path_tombstones now s)"
proof -
  obtain pre order x where pre: "vs_tombstone_order s = pre @ order"
    and eq: "prune_path_tombstones now s = s\<lparr>vs_path_tombstones :=
        filter (\<lambda>e. fst e \<notin> set pre) (vs_path_tombstones s),
      vs_tombstone_order := order, vs_tombstones_expired := x\<rparr>"
    and exp: "\<forall>p \<in> set pre. \<exists>t. map_of (vs_path_tombstones s) p = Some t \<and> pt_expires_at_ms t \<le> now"
    using prune_effect [OF ok] by metis
  obtain xs ys where order: "vs_tombstone_order s = xs @ p # ys" "length ys \<le> n"
    using g by (auto simp: guarded_def)
  have p: "map_of (vs_path_tombstones s) p = Some \<lparr>pt_expires_at_ms = E\<rparr>"
    using g by (simp add: guarded_def)
  with exp now have np: "p \<notin> set pre" by fastforce
  obtain zs where "order = zs @ p # ys"
    using pre order(1) np by (auto simp: append_eq_append_conv2 append_eq_Cons_conv Cons_eq_append_conv)
  then show ?thesis
    using p np order(2) unfolding eq guarded_def by (auto simp: map_of_filter_outside)
qed

lemma guarded_exec:
  assumes ok: "lifecycle_ok s" and g: "guarded p E n s" and e: "lc_exec s ev = (t, out)"
    and clock: "\<And>now. lc_clock ev = Some now \<Longrightarrow> now < E"
    and room: "n + of_bool (is_detach (ev, out)) < vs_maximum_path_tombstones s"
  shows "guarded p E (n + of_bool (is_detach (ev, out))) t"
proof (cases ev)
  case (Prune now)
  then show ?thesis using guarded_prune [OF ok g] clock e by auto
next
  case (Reserve conn pe ke now)
  then obtain res where r: "reserve_attach s conn pe ke now = (t, res)"
    using e by (auto simp: map_prod_def split: prod.splits)
  have "guarded p E n (prune_path_tombstones now s)"
    using guarded_prune [OF ok g] clock Reserve by simp
  with ok r show ?thesis
    using Reserve by (cases rule: reserve_effect) (auto elim!: guarded_same simp: granted_def)
next
  case (Detach q conn pe now)
  then obtain b where d: "detach s q conn pe now = (t, b)" and out: "out = Answer b"
    using e by (auto simp: map_prod_def split: prod.splits)
  from detach_effect [OF d] show ?thesis
  proof (elim disjE exE conjE)
    assume "t = s" and "\<not> b"
    then show ?thesis using g Detach out by simp
  next
    fix path
    assume q: "map_of (vs_paths s) q = Some path" and b: b
      and t: "t = (path_insert_tombstone q (pb_path_epoch (pe_binding path))
        (pb_key_epoch (pe_binding path)) now s)\<lparr>vs_paths := kt_remove q (vs_paths s)\<rparr>"
    obtain xs ys where order: "vs_tombstone_order s = xs @ p # ys" "length ys \<le> n"
      using g by (auto simp: guarded_def)
    have p: "map_of (vs_path_tombstones s) p = Some \<lparr>pt_expires_at_ms = E\<rparr>"
      using g by (simp add: guarded_def)
    have qt: "hm_ok (vs_path_tombstones s)" "keys (vs_paths s) \<inter> keys (vs_path_tombstones s) = {}"
      "distinct (vs_tombstone_order s)" "set (vs_tombstone_order s) = keys (vs_path_tombstones s)"
      using ok by (simp_all add: lifecycle_ok_def quarantine_ok_def)
    have "q \<in> keys (vs_paths s)" "p \<in> keys (vs_path_tombstones s)"
      using map_of_SomeD [OF q] map_of_SomeD [OF p] by force+
    then have pq: "p \<noteq> q" using qt(2) by blast
    have len: "length (vs_path_tombstones s) = length (vs_tombstone_order s)"
      using hm.length_eq_card [OF qt(1)] distinct_card [OF qt(3)] qt(4) by simp
    have room': "Suc (length ys) < vs_maximum_path_tombstones s"
      using room order(2) Detach out b by simp
    have xs: "xs \<noteq> []" if "vs_maximum_path_tombstones s \<le> length (vs_path_tombstones s)"
      using that len order(1) room' by auto
    have hd_p: "hd (vs_tombstone_order s) \<noteq> p" "tl (vs_tombstone_order s) = tl xs @ p # ys"
      if "vs_maximum_path_tombstones s \<le> length (vs_path_tombstones s)"
      using xs [OF that] order(1) qt(3) by (cases xs; simp)+
    show ?thesis
    proof (rule tombstone_effect [OF ok q, of now])
      fix x
      assume eq: "path_insert_tombstone q (pb_path_epoch (pe_binding path))
          (pb_key_epoch (pe_binding path)) now s = s\<lparr>vs_path_tombstones := hm_insert q
             \<lparr>pt_expires_at_ms = sat_add now (vs_path_tombstone_ttl_ms s)\<rparr>
             (if vs_maximum_path_tombstones s \<le> length (vs_path_tombstones s)
              then kt_remove (hd (vs_tombstone_order s)) (vs_path_tombstones s)
              else vs_path_tombstones s),
           vs_tombstone_order :=
             (if vs_maximum_path_tombstones s \<le> length (vs_path_tombstones s)
              then tl (vs_tombstone_order s) else vs_tombstone_order s) @ [q],
           vs_tombstones_capacity_evicted := x\<rparr>"
      have "\<exists>zs. vs_tombstone_order t = zs @ p # (ys @ [q])"
        using order(1) hd_p(2) unfolding t eq by (auto split: if_splits)
      then obtain zs where "vs_tombstone_order t = zs @ p # (ys @ [q])" by blast
      moreover have "map_of (vs_path_tombstones t) p = Some \<lparr>pt_expires_at_ms = E\<rparr>"
        using p pq hd_p(1) unfolding t eq by (auto simp: map_of_hm_insert map_of_remove)
      moreover have "length (ys @ [q]) \<le> n + 1" using order(2) by simp
      ultimately show ?thesis
        using Detach out b unfolding guarded_def by fastforce
    qed
  qed
next
  case (Commit r)
  then obtain res where "commit_attach s r = (t, res)" using e by (auto simp: map_prod_def split: prod.splits)
  from commit_effect [OF this] show ?thesis using g Commit by (auto elim!: guarded_same)
next
  case (Abort r)
  then obtain b where "abort_attach s r = (t, b)" using e by (auto simp: map_prod_def split: prod.splits)
  from abort_effect [OF this] show ?thesis using g Abort by (auto elim!: guarded_same)
next
  case (SetPathState q st)
  then obtain res where "set_path_state s q st = (t, res)" using e by (auto simp: map_prod_def split: prod.splits)
  from set_state_effect [OF this] show ?thesis using g SetPathState by (auto elim!: guarded_same)
qed (use e g in \<open>auto simp: vs_activate_def vs_begin_draining_def vs_close_def elim!: guarded_same
  split: if_splits\<close>)

lemma guarded_trace:
  "trace lc_exec s tr u \<Longrightarrow> lifecycle_ok s \<Longrightarrow> guarded p E n s \<Longrightarrow>
    (\<And>ev out now. (ev, out) \<in> set tr \<Longrightarrow> lc_clock ev = Some now \<Longrightarrow> now < E) \<Longrightarrow>
    n + length (filter is_detach tr) < vs_maximum_path_tombstones s \<Longrightarrow>
    guarded p E (n + length (filter is_detach tr)) u"
proof (induction arbitrary: n rule: trace.induct)
  case (stop s)
  then show ?case by simp
next
  case (go s e t out tr u)
  let ?d = "of_bool (is_detach (e, out))"
  have t: "lifecycle_ok t" by (rule lifecycle_ok_exec [OF go.prems(1) go.hyps(1)])
  have "guarded p E (n + ?d) t"
    using go.prems by (intro guarded_exec [OF go.prems(1,2) go.hyps(1)]) auto
  moreover have "vs_maximum_path_tombstones t = vs_maximum_path_tombstones s"
    using evolves_exec [OF go.prems(1) go.hyps(1)] by (simp add: evolves_def limits_of_def)
  ultimately have "guarded p E (n + ?d + length (filter is_detach tr)) u"
    using go.prems(3,4) by (intro go.IH [OF t]) auto
  then show ?case by (cases "is_detach (e, out)") simp_all
qed

text \<open>A detached path identifier is quarantined: until its quarantine time has passed on the
  clock of the operations that read one, and as long as fewer other paths are detached than the
  quarantine holds, the identifier is neither bound nor issued again, whatever else happens.\<close>

theorem detached_id_quarantined:
  assumes s: "lc_reachable s" and d: "detach s p conn e now = (t, True)"
    and tr: "trace lc_exec t tr u"
    and clock: "\<forall>(ev, out) \<in> set tr. case lc_clock ev of None \<Rightarrow> True
      | Some now' \<Rightarrow> now' < sat_add now (vs_path_tombstone_ttl_ms s)"
    and few: "length (filter is_detach tr) < vs_maximum_path_tombstones s"
  shows "vs_path u p = None \<and>
    (\<forall>(ev, out) \<in> set tr. \<forall>r. out = Reserved r \<longrightarrow> ar_path_id r \<noteq> p)"
proof -
  let ?E = "sat_add now (vs_path_tombstone_ttl_ms s)"
  have ok: "lifecycle_ok s" by (rule lc_reachable_ok [OF s])
  obtain path where p: "map_of (vs_paths s) p = Some path"
    and t: "t = (path_insert_tombstone p (pb_path_epoch (pe_binding path))
      (pb_key_epoch (pe_binding path)) now s)\<lparr>vs_paths := kt_remove p (vs_paths s)\<rparr>"
    using detach_effect [OF d] by blast
  have t_ok: "lifecycle_ok t" unfolding t by (rule lifecycle_ok_tombstone [OF ok p])
  have g: "guarded p ?E 0 t"
  proof (rule tombstone_effect [OF ok p, of now])
    fix x
    assume eq: "path_insert_tombstone p (pb_path_epoch (pe_binding path))
        (pb_key_epoch (pe_binding path)) now s = s\<lparr>vs_path_tombstones := hm_insert p
           \<lparr>pt_expires_at_ms = sat_add now (vs_path_tombstone_ttl_ms s)\<rparr>
           (if vs_maximum_path_tombstones s \<le> length (vs_path_tombstones s)
            then kt_remove (hd (vs_tombstone_order s)) (vs_path_tombstones s)
            else vs_path_tombstones s),
         vs_tombstone_order :=
           (if vs_maximum_path_tombstones s \<le> length (vs_path_tombstones s)
            then tl (vs_tombstone_order s) else vs_tombstone_order s) @ [p],
         vs_tombstones_capacity_evicted := x\<rparr>"
    show ?thesis unfolding t eq guarded_def by (simp add: map_of_hm_insert)
  qed
  have max: "vs_maximum_path_tombstones t = vs_maximum_path_tombstones s"
    by (rule tombstone_effect [OF ok p, of now]) (simp add: t)
  have clock': "now' < ?E" if "(ev, out) \<in> set tr" "lc_clock ev = Some now'" for ev out now'
    using clock that by fastforce
  have free: "vs_path v p = None" if "guarded p ?E n v" "lifecycle_ok v" for n v
  proof -
    have "p \<in> keys (vs_path_tombstones v)"
      using that(1) unfolding guarded_def by (metis map_of_eq_None_iff not_None_eq option.distinct(1))
    then have "p \<notin> keys (vs_paths v)"
      using that(2) unfolding lifecycle_ok_def quarantine_ok_def by blast
    then show ?thesis by (simp add: vs_path_def map_of_eq_None_iff)
  qed
  have "ar_path_id r \<noteq> p" if in_tr: "(ev, Reserved r) \<in> set tr" for ev r
  proof -
    obtain tr1 tr2 where split: "tr = tr1 @ (ev, Reserved r) # tr2"
      using split_list [OF in_tr] by blast
    then obtain v w where v: "trace lc_exec t tr1 v" and w: "lc_exec v ev = (w, Reserved r)"
      using tr by (auto simp: trace_append trace_Cons)
    have v_ok: "lifecycle_ok v" by (rule lifecycle.inv_trace [OF v t_ok])
    have gv: "guarded p ?E (0 + length (filter is_detach tr1)) v"
      by (rule guarded_trace [OF v t_ok g]) (use clock' few max split in auto)
    obtain c pe ke now' where ev: "ev = Reserve c pe ke now'"
      and r: "reserve_attach v c pe ke now' = (w, Inr r)"
      using w by (cases ev) (auto simp: of_result_def map_prod_def split: prod.splits sum.splits)
    have "guarded p ?E (0 + length (filter is_detach tr1)) (prune_path_tombstones now' v)"
      using guarded_prune [OF v_ok gv] clock' in_tr ev by auto
    then have "p \<in> keys (vs_path_tombstones (prune_path_tombstones now' v))"
      unfolding guarded_def by (metis map_of_eq_None_iff not_None_eq option.distinct(1))
    moreover have "eligible (prune_path_tombstones now' v) pe ke (ar_path_id r)"
      using v_ok r by (cases rule: reserve_effect) auto
    ultimately show ?thesis by (auto simp: eligible_def)
  qed
  moreover have "guarded p ?E (0 + length (filter is_detach tr)) u"
    by (rule guarded_trace [OF tr t_ok g]) (use clock' few max in auto)
  ultimately show ?thesis
    using free lifecycle.inv_trace [OF tr t_ok] by blast
qed

theorem detached_id_quarantined_witness:
  "\<exists>u r. trace lc_exec (demo_detached 3) [(Prune 50, Done), (Reserve 8 2 2 60, Reserved r)] u \<and>
     vs_path u 1 = None \<and> ar_path_id r \<noteq> 1"
proof -
  let ?r = "\<lparr>ar_path_id = 2, ar_path_epoch = 2, ar_key_epoch = 2, ar_connection_id = 8\<rparr>"
  let ?tr = "[(Prune 50, Done), (Reserve 8 2 2 60, Reserved ?r)]"
  have s: "lc_reachable (demo_attached 3)" and d: "detach (demo_attached 3) 1 7 1 20 = (demo_detached 3, True)"
    by (simp_all add: demo_reachable demo_detached_eq)
  have "\<exists>u. trace lc_exec (demo_detached 3) ?tr u"
    by (simp add: demo_detached_eq demo_aborted_eq demo_reserved_eq trace_Cons)
      (simp add: demo_eval del: allocate_turns.simps)
  then obtain u where u: "trace lc_exec (demo_detached 3) ?tr u" by blast
  have "\<forall>(ev, out) \<in> set ?tr. case lc_clock ev of None \<Rightarrow> True
      | Some now' \<Rightarrow> now' < sat_add 20 (vs_path_tombstone_ttl_ms (demo_attached 3))"
    by (simp add: demo_attached_eq demo_reserved_eq demo_eval)
  moreover have "length (filter is_detach ?tr) < vs_maximum_path_tombstones (demo_attached 3)"
    by (simp add: demo_attached_eq demo_reserved_eq demo_eval)
  ultimately show ?thesis
    using detached_id_quarantined [OF s d u] u by fastforce
qed

section \<open>The session\<close>

lemma path_insert_tombstone_state [simp]:
  "vs_state (path_insert_tombstone p e k now s) = vs_state s"
  by (simp add: path_insert_tombstone_def Let_def split: prod.split)

text \<open>A session closes exactly once: over any sequence of operations from its creation, close
  answers true once if the session has ended up closed and never otherwise. Once it is closed it
  holds no path, and no operation reopens it.\<close>

theorem close_exactly_once:
  assumes "v2_session_new config ad now = Inr s" and "trace lc_exec s tr u"
  shows "length (filter (\<lambda>(ev, out). ev = Close \<and> out = Answer True) tr) =
      (if vs_state u = SClosed then 1 else 0) \<and>
    (vs_state u = SClosed \<longrightarrow> vs_path_count u = 0)"
proof -
  let ?closes = "\<lambda>tr. length (filter (\<lambda>(ev, out). ev = Close \<and> out = Answer True) tr)"
  have step: "of_bool (ev = Close \<and> out = Answer True) =
      of_bool (vs_state b = SClosed) - (of_bool (vs_state a = SClosed) :: nat) \<and>
      (vs_state a = SClosed \<longrightarrow> vs_state b = SClosed)"
    if ok: "lifecycle_ok a" and e: "lc_exec a ev = (b, out)" for a b ev out
  proof (cases "ev = Close")
    case True
    then show ?thesis using e by (auto simp: vs_close_def split: if_splits)
  next
    case False
    have "session_rank (vs_state a) \<le> session_rank (vs_state b)"
      using evolves_exec [OF ok e] by (simp add: evolves_def)
    then have "vs_state a = SClosed \<longrightarrow> vs_state b = SClosed" by (cases "vs_state b") auto
    moreover have "vs_state b = SClosed \<longrightarrow> vs_state a = SClosed"
    proof (cases ev)
      case (Reserve c pe ke now')
      then obtain res where r: "reserve_attach a c pe ke now' = (b, res)"
        using e by (auto simp: map_prod_def split: prod.splits)
      from ok r show ?thesis by (cases rule: reserve_effect) (auto simp: granted_def)
    next
      case (Commit r)
      then show ?thesis using e by (auto simp: map_prod_def dest!: commit_effect split: prod.splits)
    next
      case (Abort r)
      then show ?thesis using e by (auto simp: map_prod_def dest!: abort_effect split: prod.splits)
    next
      case (Detach p conn pe now')
      then obtain x where "detach a p conn pe now' = (b, x)"
        using e by (auto simp: map_prod_def split: prod.splits)
      from detach_effect [OF this] show ?thesis
        by auto
    next
      case (SetPathState p st)
      then show ?thesis using e by (auto simp: map_prod_def dest!: set_state_effect split: prod.splits)
    qed (use e False in \<open>auto simp: vs_activate_def vs_begin_draining_def split: if_splits\<close>)
    ultimately show ?thesis using False by auto
  qed
  have run: "trace lc_exec a tr b \<Longrightarrow> lifecycle_ok a \<Longrightarrow>
      ?closes tr + of_bool (vs_state a = SClosed) = (of_bool (vs_state b = SClosed) :: nat)" for a tr b
  proof (induction rule: trace.induct)
    case (go a e t out tr u)
    from go.IH [OF lifecycle_ok_exec [OF go.prems go.hyps(1)]] step [OF go.prems go.hyps(1)]
    show ?case
      by (cases "e = Close \<and> out = Answer True"; cases "vs_state a = SClosed"; cases "vs_state t = SClosed")
        (auto simp: of_bool_def split: if_splits)
  qed simp
  have ok: "lifecycle_ok s" by (rule lifecycle_ok_new [OF assms(1)])
  have "vs_state s = SPending" using assms(1) by (auto simp: v2_session_new_def split: if_splits)
  with run [OF assms(2) ok] have "?closes tr = (if vs_state u = SClosed then 1 else 0)" by simp
  moreover have "lifecycle_ok u" by (rule lifecycle.inv_trace [OF assms(2) ok])
  then have "vs_state u = SClosed \<longrightarrow> vs_path_count u = 0"
    by (simp add: lifecycle_ok_def paths_bound_def vs_path_count_def)
  ultimately show ?thesis by blast
qed

theorem close_exactly_once_witness:
  "\<exists>u. trace lc_exec (demo_new 3) [(Activate 3, Done), (Close, Answer True), (Close, Answer False)] u \<and>
     vs_state u = SClosed \<and> vs_path_count u = 0"
proof -
  have "\<exists>u. trace lc_exec (demo_new 3) [(Activate 3, Done), (Close, Answer True), (Close, Answer False)] u \<and>
      vs_state u = SClosed"
    by (simp add: trace_Cons demo_eval vs_close_def)
  then show ?thesis using close_exactly_once [OF demo_new [of 3]] by fastforce
qed

text \<open>In every reachable state a session stays within the limits it was created with, a
  connection is bound to at most one path, every binding is filed under its own identifier with
  the epochs the history records for it, and no bound identifier is in quarantine.\<close>

theorem lifecycle_bounds:
  assumes "lc_reachable s"
  shows "vs_path_count s \<le> vs_maximum_paths s \<and>
    length (vs_path_epoch_history s) \<le> vs_maximum_path_epoch_history s \<and>
    length (vs_path_tombstones s) \<le> vs_maximum_path_tombstones s \<and>
    (\<forall>p b. vs_path s p = Some b \<longrightarrow> pb_path_id b = p \<and> p \<noteq> 0 \<and> p \<notin> keys (vs_path_tombstones s) \<and>
      map_of (vs_path_epoch_history s) p =
        Some \<lparr>ep_path_epoch = pb_path_epoch b, ep_key_epoch = pb_key_epoch b\<rparr> \<and>
      (\<forall>q b'. vs_path s q = Some b' \<and> pb_connection_id b' = pb_connection_id b \<longrightarrow> q = p))"
proof -
  note ok = lc_reachable_ok [OF assms]
  have "vs_path_count s \<le> vs_maximum_paths s \<and>
    length (vs_path_epoch_history s) \<le> vs_maximum_path_epoch_history s \<and>
    length (vs_path_tombstones s) \<le> vs_maximum_path_tombstones s"
    using ok by (simp add: lifecycle_defs vs_path_count_def)
  moreover have "pb_path_id b = p \<and> p \<noteq> 0 \<and> p \<notin> keys (vs_path_tombstones s) \<and>
      map_of (vs_path_epoch_history s) p =
        Some \<lparr>ep_path_epoch = pb_path_epoch b, ep_key_epoch = pb_key_epoch b\<rparr>"
    if b: "vs_path s p = Some b" for p b
  proof -
    obtain path where path: "map_of (vs_paths s) p = Some path" "pe_binding path = b"
      using b by (auto simp: vs_path_def)
    have bo: "pb_path_id b = p" "map_of (vs_path_epoch_history s) p =
        Some \<lparr>ep_path_epoch = pb_path_epoch b, ep_key_epoch = pb_key_epoch b\<rparr>"
      using lifecycle_entry [OF ok path(1)] path(2) by (simp_all add: binding_ok_def Let_def)
    have "p \<in> keys (vs_paths s)" using map_of_SomeD [OF path(1)] by force
    moreover have "keys (vs_paths s) \<inter> keys (vs_path_tombstones s) = {}"
      using ok by (simp add: lifecycle_defs)
    moreover have "p \<in> keys (vs_path_epoch_history s)" using map_of_SomeD [OF bo(2)] by force
    moreover have "0 \<notin> keys (vs_path_epoch_history s)" using ok by (simp add: lifecycle_defs)
    ultimately show ?thesis using bo by blast
  qed
  moreover have "q = p" if b: "vs_path s p = Some b" and b': "vs_path s q = Some b'"
    and eq: "pb_connection_id b' = pb_connection_id b" for p b q b'
  proof -
    obtain e e' where "(p, e) \<in> set (vs_paths s)" "pe_binding e = b"
      "(q, e') \<in> set (vs_paths s)" "pe_binding e' = b'"
      using b b' by (auto simp: vs_path_def dest: map_of_SomeD)
    moreover have "conns_distinct (vs_paths s)" using ok by (simp add: lifecycle_ok_def paths_bound_def)
    ultimately show ?thesis using eq unfolding conns_distinct_def by metis
  qed
  ultimately show ?thesis by blast
qed

theorem lifecycle_bounds_witness:
  "\<exists>b. vs_path (demo_attached 3) 1 = Some b \<and> pb_path_id b = 1 \<and> pb_state b = PAttached \<and>
     vs_path_count (demo_attached 3) \<le> vs_maximum_paths (demo_attached 3)"
proof -
  have "\<exists>b. vs_path (demo_attached 3) 1 = Some b \<and> pb_state b = PAttached"
    by (simp add: demo_attached_eq vs_path_def)
  then show ?thesis using lifecycle_bounds [of "demo_attached 3"] demo_reachable(4) [of 3] by blast
qed

text \<open>Every step leaves the identity of a binding that survives it and moves its state along the graph.\<close>

lemma path_state_graph:
  assumes s: "lc_reachable s" and e: "lc_exec s e = (t, out)"
    and b: "vs_path s p = Some b" and b': "vs_path t p = Some b'"
  shows "b' = b \<or> (valid_path_transition (pb_state b) (pb_state b') \<and> b' = b\<lparr>pb_state := pb_state b'\<rparr>)"
proof -
  have ok: "lifecycle_ok s" by (rule lc_reachable_ok [OF s])
  obtain path where path: "map_of (vs_paths s) p = Some path" "pe_binding path = b"
    using b by (auto simp: vs_path_def)
  have bo: "binding_ok s p path" by (rule lifecycle_entry [OF ok path(1)])
  show ?thesis
  proof (cases e)
    case (Reserve c pe ke now)
    then obtain res where r: "reserve_attach s c pe ke now = (t, res)"
      using e by (auto simp: map_prod_def split: prod.splits)
    have "p \<in> keys (vs_paths s)" using map_of_SomeD [OF path(1)] by force
    with ok r show ?thesis
      using b b' by (cases rule: reserve_effect)
        (auto simp: granted_def vs_path_def map_of_hm_insert eligible_def split: if_splits)
  next
    case (Commit r)
    then obtain res where "commit_attach s r = (t, res)" using e by (auto simp: map_prod_def split: prod.splits)
    from commit_effect [OF this] show ?thesis
      using path b b' bo
      by (auto simp: vs_path_def map_of_hm_insert reservation_matches_def binding_ok_def Let_def split: if_splits)
  next
    case (Abort r)
    then obtain x where "abort_attach s r = (t, x)" using e by (auto simp: map_prod_def split: prod.splits)
    from abort_effect [OF this] show ?thesis
      using b b' by (auto simp: vs_path_def map_of_remove split: if_splits)
  next
    case (Detach q conn pe now)
    then obtain x where "detach s q conn pe now = (t, x)" using e by (auto simp: map_prod_def split: prod.splits)
    from detach_effect [OF this] show ?thesis
      using b b' by (auto simp: vs_path_def map_of_remove split: if_splits)
  next
    case (SetPathState q st)
    then obtain res where "set_path_state s q st = (t, res)" using e by (auto simp: map_prod_def split: prod.splits)
    from set_state_effect [OF this] show ?thesis
      using path b b' by (auto simp: vs_path_def map_of_hm_insert split: if_splits)
  qed (use e b b' in \<open>auto simp: vs_path_def vs_activate_def vs_begin_draining_def vs_close_def
    split: if_splits\<close>)
qed

end
