(* ===== verification/ControlProps.thy ===== *)
theory ControlProps
  imports ControlState
begin

text \<open>
  What the control sequencer promises. A step is one local or one peer frame at any time;
  the locale \<open>step_invariant\<close> collects what an invariant has to show of the pruning, the
  expiry and the four handlers, and derives it for every later state; \<open>state_invariant\<close>
  adds the constructors and derives it for every reachable state. They are interpreted on
  the size and order of the tables (\<open>tables_ok\<close>), on the path identifiers in use
  (\<open>paths_ok\<close>), and on what never changes or only grows along a run.
\<close>

section \<open>Steps and reachable states\<close>

inductive ctl_step :: "control_state \<Rightarrow> control_state \<Rightarrow> bool" where
  inbound: "on_inbound s frame now = (s', r) \<Longrightarrow> ctl_step s s'"
| outbound: "on_outbound s frame now = (s', q) \<Longrightarrow> ctl_step s s'"

inductive ctl_reachable :: "control_state \<Rightarrow> bool" where
  start: "cs_new role config admission = Inr s \<Longrightarrow> ctl_reachable s"
| step: "ctl_reachable s \<Longrightarrow> ctl_step s s' \<Longrightarrow> ctl_reachable s'"

inductive_cases ctl_stepE: "ctl_step s s'"

lemmas handler_defs = client_outbound_def gateway_outbound_def client_inbound_def
  gateway_inbound_def gateway_attach_def gateway_path_request_def
lemmas prune_defs = prune_completed_def prune_pending_def prune_pending_attaches_def
  prune_pending_policy_updates_def prune_pending_detaches_def
lemmas ctl_splits = control_message.splits option.splits if_splits sum.splits

locale step_invariant =
  fixes inv :: "control_state \<Rightarrow> bool"
  assumes inv_prune_completed: "inv s \<Longrightarrow> inv (prune_completed now s)"
    and inv_prune_pending: "inv s \<Longrightarrow> inv (prune_pending now s)"
    and inv_expire: "inv s \<Longrightarrow> cs_phase s = Active \<Longrightarrow> inv (s\<lparr>cs_phase := Closed\<rparr>)"
    and inv_client_out:
      "inv s \<Longrightarrow> cs_role s = Client \<Longrightarrow> inv (fst (client_outbound s frame now))"
    and inv_gateway_out:
      "inv s \<Longrightarrow> cs_role s = Gateway \<Longrightarrow> inv (fst (gateway_outbound s frame now))"
    and inv_client_in:
      "inv s \<Longrightarrow> cs_role s = Client \<Longrightarrow> inv (fst (client_inbound s frame now))"
    and inv_gateway_in:
      "inv s \<Longrightarrow> cs_role s = Gateway \<Longrightarrow> inv (fst (gateway_inbound s frame now))"
begin

lemma inv_expire_if_needed: "inv s \<Longrightarrow> inv (fst (expire_if_needed s now))"
  by (auto simp: expire_if_needed_def intro: inv_expire)

lemma inv_on_outbound: "inv s \<Longrightarrow> inv (fst (on_outbound s frame now))"
proof -
  assume s: "inv s"
  obtain s' e where e: "expire_if_needed (prune_pending now s) now = (s', e)"
    by fastforce
  with inv_expire_if_needed [OF inv_prune_pending [OF s], of now now] have "inv s'"
    by simp
  with e show ?thesis
    by (auto simp: on_outbound_def inv_client_out inv_gateway_out split: control_role.split)
qed

lemma inv_on_inbound: "inv s \<Longrightarrow> inv (fst (on_inbound s frame now))"
proof -
  assume s: "inv s"
  obtain s' e where e: "expire_if_needed (prune_pending now (prune_completed now s)) now = (s', e)"
    by fastforce
  with inv_expire_if_needed [OF inv_prune_pending [OF inv_prune_completed [OF s]], of now now now]
  have "inv s'" by simp
  with e show ?thesis
    by (auto simp: on_inbound_def inv_client_in inv_gateway_in split: control_role.split)
qed

lemma inv_step: "ctl_step s s' \<Longrightarrow> inv s \<Longrightarrow> inv s'"
  by (erule ctl_stepE) (metis inv_on_inbound fst_conv, metis inv_on_outbound fst_conv)

lemma inv_steps: "ctl_step\<^sup>*\<^sup>* s s' \<Longrightarrow> inv s \<Longrightarrow> inv s'"
  by (induction rule: rtranclp_induct) (auto intro: inv_step)

end

locale state_invariant = step_invariant +
  assumes inv_new: "cs_new role config admission = Inr s \<Longrightarrow> inv s"
begin

lemma inv_reachable: "ctl_reachable s \<Longrightarrow> inv s"
  by (induction rule: ctl_reachable.induct) (auto intro: inv_new inv_step)

end

text \<open>
  A preorder every step respects from states of the invariant, and so every run. The
  sublocale turns it into the invariant ``reached from a given state along the preorder''.
\<close>

locale step_relation = step_invariant +
  fixes rel :: "control_state \<Rightarrow> control_state \<Rightarrow> bool"
  assumes rel_refl: "rel s s"
    and rel_trans: "rel s t \<Longrightarrow> rel t u \<Longrightarrow> rel s u"
    and rel_prune_completed: "rel s (prune_completed now s)"
    and rel_prune_pending: "rel s (prune_pending now s)"
    and rel_expire: "inv s \<Longrightarrow> cs_phase s = Active \<Longrightarrow> rel s (s\<lparr>cs_phase := Closed\<rparr>)"
    and rel_client_out:
      "inv s \<Longrightarrow> cs_role s = Client \<Longrightarrow> rel s (fst (client_outbound s frame now))"
    and rel_gateway_out:
      "inv s \<Longrightarrow> cs_role s = Gateway \<Longrightarrow> rel s (fst (gateway_outbound s frame now))"
    and rel_client_in:
      "inv s \<Longrightarrow> cs_role s = Client \<Longrightarrow> rel s (fst (client_inbound s frame now))"
    and rel_gateway_in:
      "inv s \<Longrightarrow> cs_role s = Gateway \<Longrightarrow> rel s (fst (gateway_inbound s frame now))"

sublocale step_relation \<subseteq> along: step_invariant "\<lambda>t. inv t \<and> rel s t" for s
proof
qed (blast intro: inv_prune_completed inv_prune_pending inv_expire inv_client_out
  inv_gateway_out inv_client_in inv_gateway_in rel_trans rel_prune_completed
  rel_prune_pending rel_expire rel_client_out rel_gateway_out rel_client_in rel_gateway_in)+

context step_relation
begin

lemma rel_steps: "ctl_step\<^sup>*\<^sup>* s s' \<Longrightarrow> inv s \<Longrightarrow> rel s s'"
  using along.inv_steps [of s s' s] rel_refl by blast

end

section \<open>Tables stay ordered and bounded\<close>

definition completed_ok :: "control_state \<Rightarrow> bool" where
  "completed_ok s \<longleftrightarrow>
     distinct (map (cf_transaction_id \<circ> cr_request) (cs_completed s)) \<and>
     length (cs_completed s) \<le> completed_request_capacity (cs_config s) \<and>
     0 < completed_request_capacity (cs_config s)"

definition tables_ok :: "control_state \<Rightarrow> bool" where
  "tables_ok s \<longleftrightarrow>
     bt_ok (cs_protocol_paths s) \<and> bt_ok (cs_attachments s) \<and> bt_ok (cs_pending_attaches s) \<and>
     bt_ok (cs_pending_policy_updates s) \<and> bt_ok (cs_pending_detaches s) \<and>
     length (cs_attachments s) \<le> attachment_capacity (cs_config s) \<and>
     length (cs_pending_attaches s) \<le> pending_attach_capacity (cs_config s) \<and>
     length (cs_pending_detaches s) \<le> pending_attach_capacity (cs_config s) \<and>
     length (cs_pending_policy_updates s) \<le> pending_policy_update_capacity (cs_config s) \<and>
     completed_ok s"

text \<open>An insertion behind the code's equality check keeps the bound.\<close>

lemma length_insert_bound:
  "bt_ok m \<Longrightarrow> length m \<le> c \<Longrightarrow> length m \<noteq> c \<Longrightarrow> length (bt_insert k v m) \<le> c"
  by (rule order_trans [OF bt.length_ins_le]) auto

lemma length_retain_bound: "length m \<le> c \<Longrightarrow> length (kt_retain P m) \<le> c"
  by (rule order_trans [OF length_kt_retain_le])

lemma length_remove_bound: "length m \<le> c \<Longrightarrow> length (kt_remove k m) \<le> c"
  by (rule order_trans [OF length_kt_remove_le])

lemmas bound_rules = length_insert_bound length_retain_bound length_remove_bound
  bt.ok_ins bt.ok_remove bt.ok_retain

lemma completed_ok_prune: "completed_ok s \<Longrightarrow> completed_ok (prune_completed now s)"
  unfolding completed_ok_def prune_completed_def
  by (auto simp: distinct_map_filter intro: order_trans [OF length_filter_le])

lemma completed_action_None:
  "completed_action s f = None \<longleftrightarrow>
     (\<forall>c \<in> set (cs_completed s). cf_transaction_id (cr_request c) \<noteq> cf_transaction_id f)"
  by (auto simp: completed_action_def find_None_iff find_Some_iff split: option.splits)

lemma completed_ok_remember:
  assumes ok: "completed_ok s" and "completed_action s f = None"
  shows "completed_ok (remember f r now s)"
proof -
  let ?tid = "cf_transaction_id \<circ> cr_request"
  let ?k = "if length (cs_completed s) = completed_request_capacity (cs_config s)
            then tl (cs_completed s) else cs_completed s"
  have "set ?k \<subseteq> set (cs_completed s)" by (cases "cs_completed s") auto
  moreover have "cf_transaction_id f \<notin> ?tid ` set (cs_completed s)"
    using assms(2) by (auto simp: completed_action_None)
  ultimately have "cf_transaction_id f \<notin> ?tid ` set ?k" by blast
  moreover have "distinct (map ?tid ?k)"
    using ok by (auto simp: completed_ok_def map_tl intro: distinct_tl)
  moreover have "Suc (length ?k) \<le> completed_request_capacity (cs_config s)"
    using ok by (auto simp: completed_ok_def)
  ultimately show ?thesis
    using ok by (simp add: completed_ok_def remember_def Let_def)
qed

text \<open>The queue of completed requests is the only table \<open>remember\<close> touches.\<close>

lemma remember_fields [simp]:
  "cs_role (remember f r now s) = cs_role s"
  "cs_phase (remember f r now s) = cs_phase s"
  "cs_config (remember f r now s) = cs_config s"
  "cs_verified_admission (remember f r now s) = cs_verified_admission s"
  "cs_session_id (remember f r now s) = cs_session_id s"
  "cs_expires_at_ms (remember f r now s) = cs_expires_at_ms s"
  "cs_policy_epoch (remember f r now s) = cs_policy_epoch s"
  "cs_protocol_paths (remember f r now s) = cs_protocol_paths s"
  "cs_attachments (remember f r now s) = cs_attachments s"
  "cs_pending_attaches (remember f r now s) = cs_pending_attaches s"
  "cs_pending_policy_updates (remember f r now s) = cs_pending_policy_updates s"
  "cs_pending_detaches (remember f r now s) = cs_pending_detaches s"
  "cs_next_path_id (remember f r now s) = cs_next_path_id s"
  by (simp_all add: remember_def Let_def)

lemma fst_refuse [simp]:
  "fst (reject_and_remember f c w now s) =
     remember f (reject (cf_transaction_id f) c w) now s"
  by (simp add: reject_and_remember_def Let_def)

lemma completed_ok_update [simp]:
  "completed_ok (s\<lparr>cs_phase := ph\<rparr>) = completed_ok s"
  "completed_ok (s\<lparr>cs_session_id := si\<rparr>) = completed_ok s"
  "completed_ok (s\<lparr>cs_expires_at_ms := ex\<rparr>) = completed_ok s"
  "completed_ok (s\<lparr>cs_policy_epoch := ep\<rparr>) = completed_ok s"
  "completed_ok (s\<lparr>cs_protocol_paths := pp\<rparr>) = completed_ok s"
  "completed_ok (s\<lparr>cs_attachments := at\<rparr>) = completed_ok s"
  "completed_ok (s\<lparr>cs_pending_attaches := pa\<rparr>) = completed_ok s"
  "completed_ok (s\<lparr>cs_pending_policy_updates := pu\<rparr>) = completed_ok s"
  "completed_ok (s\<lparr>cs_pending_detaches := pd\<rparr>) = completed_ok s"
  "completed_ok (s\<lparr>cs_hello_transaction_id := h\<rparr>) = completed_ok s"
  "completed_ok (s\<lparr>cs_next_path_id := np\<rparr>) = completed_ok s"
  by (simp_all add: completed_ok_def)

lemma tables_ok_remember:
  "tables_ok s \<Longrightarrow> completed_action s f = None \<Longrightarrow> tables_ok (remember f r now s)"
  by (auto simp: tables_ok_def intro: completed_ok_remember)

lemma tables_ok_close: "tables_ok (s\<lparr>cs_phase := ph\<rparr>) = tables_ok s"
  by (simp add: tables_ok_def)

lemma tables_ok_gateway_attach:
  assumes s: "tables_ok s" and f: "completed_action s f = None"
  shows "tables_ok (fst (gateway_attach s f session nonce now))"
proof -
  have "tables_ok (s\<lparr>cs_next_path_id := np, cs_protocol_paths := bt_insert p e (cs_protocol_paths s),
      cs_attachments := bt_insert nonce r (cs_attachments s)\<rparr>)"
    if "length (cs_attachments s) \<noteq> attachment_capacity (cs_config s)" for np p e r
    using s that by (auto simp: tables_ok_def intro: bound_rules)
  with s f show ?thesis
    by (auto simp: gateway_attach_def Let_def completed_action_def intro!: tables_ok_remember
        split: option.splits sum.splits)
qed

lemma tables_ok_path_request:
  "tables_ok s \<Longrightarrow> completed_action s f = None \<Longrightarrow>
    tables_ok (fst (gateway_path_request s f session p epoch now detach))"
  by (auto simp: gateway_path_request_def Let_def completed_action_def intro!: tables_ok_remember
      split: option.splits) (auto simp: tables_ok_def intro: bound_rules)

interpretation tables: state_invariant tables_ok
proof
  fix s :: control_state and role config admission now frame
  show "cs_new role config admission = Inr s \<Longrightarrow> tables_ok s"
    by (auto simp: cs_new_def tables_ok_def completed_ok_def bt.ok_Nil split: if_splits)
  show "tables_ok s \<Longrightarrow> tables_ok (prune_completed now s)"
    using completed_ok_prune [of s now] by (simp add: tables_ok_def prune_completed_def)
  show "tables_ok s \<Longrightarrow> tables_ok (prune_pending now s)"
    by (auto simp: tables_ok_def prune_defs intro: bound_rules)
  show "tables_ok s \<Longrightarrow> cs_phase s = Active \<Longrightarrow> tables_ok (s\<lparr>cs_phase := Closed\<rparr>)"
    by (simp add: tables_ok_def)
  show "tables_ok s \<Longrightarrow> tables_ok (fst (client_outbound s frame now))"
    by (cases "cf_message frame")
      (auto simp: tables_ok_def client_outbound_def Let_def intro: bound_rules
        split: option.splits)
  show "tables_ok s \<Longrightarrow> tables_ok (fst (gateway_outbound s frame now))"
    by (cases "cf_message frame")
      (auto simp: tables_ok_def gateway_outbound_def Let_def intro: bound_rules
        split: option.splits)
  show "tables_ok s \<Longrightarrow> tables_ok (fst (client_inbound s frame now))"
    by (cases "cf_message frame")
      (auto simp: tables_ok_def client_inbound_def Let_def intro: bound_rules
        split: option.splits control_message.splits)
  show "tables_ok s \<Longrightarrow> tables_ok (fst (gateway_inbound s frame now))"
  proof (cases "completed_action s frame")
    case None
    assume s: "tables_ok s"
    have "tables_ok (s\<lparr>cs_session_id := a, cs_expires_at_ms := b, cs_policy_epoch := c,
        cs_phase := d\<rparr>)"
      and "tables_ok (s\<lparr>cs_pending_policy_updates := kt_remove k (cs_pending_policy_updates s)\<rparr>)"
      and "tables_ok (s\<lparr>cs_pending_policy_updates := kt_remove k (cs_pending_policy_updates s),
        cs_policy_epoch := c\<rparr>)" for a b c d k
      using s by (auto simp: tables_ok_def intro: bound_rules)
    with None s show ?thesis
      by (cases "cf_message frame")
        (auto simp: gateway_inbound_def Let_def tables_ok_gateway_attach tables_ok_path_request
          tables_ok_close completed_action_None intro!: tables_ok_remember split: option.splits)
  qed (simp add: gateway_inbound_def)
qed

section \<open>Path identifiers are issued once\<close>

fun attached_path :: "control_message \<Rightarrow> path_id option" where
  "attached_path (PathAttached s p e) = Some p"
| "attached_path _ = None"

definition issued :: "control_state \<Rightarrow> arr16 \<Rightarrow> path_id \<Rightarrow> bool" where
  "issued s nonce p \<longleftrightarrow>
     (\<exists>r. map_of (cs_attachments s) nonce = Some r \<and> attached_path (ar_response r) = Some p)"

definition paths_ok :: "control_state \<Rightarrow> bool" where
  "paths_ok s \<longleftrightarrow>
     cs_next_path_id s \<noteq> Some 0 \<and> bt_ok (cs_attachments s) \<and> bt_ok (cs_protocol_paths s) \<and>
     (\<forall>n p. issued s n p \<longrightarrow> p \<noteq> 0 \<and> (\<forall>k. cs_next_path_id s = Some k \<longrightarrow> p < k)) \<and>
     (\<forall>n n' p. issued s n p \<longrightarrow> issued s n' p \<longrightarrow> n' = n) \<and>
     (cs_role s = Gateway \<longrightarrow> (\<forall>p. path_epoch s p \<noteq> None \<longrightarrow> (\<exists>n. issued s n p)))"

lemma issued_cong:
  "cs_attachments s' = cs_attachments s \<Longrightarrow> issued s' = issued s"
  by (intro ext) (simp add: issued_def)

lemma paths_ok_cong:
  assumes "paths_ok s" and "cs_attachments s' = cs_attachments s"
    and "cs_next_path_id s' = cs_next_path_id s" and "cs_role s' = cs_role s"
    and "bt_ok (cs_protocol_paths s')"
    and "cs_role s = Gateway \<Longrightarrow> (\<forall>p. path_epoch s' p \<noteq> None \<longrightarrow> path_epoch s p \<noteq> None)"
  shows "paths_ok s'"
  using assms unfolding paths_ok_def issued_cong [OF assms(2)] by simp

lemma paths_ok_sorted: "paths_ok s \<Longrightarrow> bt_ok (cs_protocol_paths s)"
  by (simp add: paths_ok_def)

lemma paths_ok_remember: "paths_ok s \<Longrightarrow> paths_ok (remember f r now s)"
  by (rule paths_ok_cong [of s]) (auto simp: paths_ok_sorted path_epoch_def)

lemma issued_attach:
  assumes "paths_ok s"
  shows "issued (s\<lparr>cs_next_path_id := nx, cs_protocol_paths := m,
      cs_attachments := bt_insert nonce r (cs_attachments s)\<rparr>) n p \<longleftrightarrow>
    (if n = nonce then attached_path (ar_response r) = Some p else issued s n p)"
  using assms by (simp add: issued_def paths_ok_def bt.get_ins)

lemma paths_ok_attach:
  assumes s: "paths_ok s" and nxt: "cs_next_path_id s = Some k"
    and nx: "nx = (if k = - 1 then None else Some (k + 1))"
    and fresh: "map_of (cs_attachments s) nonce = None"
    and resp: "attached_path (ar_response r) = Some k"
  shows "paths_ok (s\<lparr>cs_next_path_id := nx,
    cs_protocol_paths := bt_insert k e (cs_protocol_paths s),
    cs_attachments := bt_insert nonce r (cs_attachments s)\<rparr>)" (is "paths_ok ?s'")
proof -
  have k0: "k \<noteq> 0" and ok: "bt_ok (cs_attachments s)" "bt_ok (cs_protocol_paths s)"
    using s nxt by (auto simp: paths_ok_def)
  have old: "p \<noteq> 0 \<and> p < k" if "issued s n p" for n p
    using s nxt that unfolding paths_ok_def by blast
  have iss: "issued ?s' n p \<longleftrightarrow> (if n = nonce then p = k else issued s n p)" for n p
    using resp by (auto simp: issued_attach [OF s])
  have new: "\<not> issued s nonce p" "\<not> issued s n k" for n p
    using fresh old [of n k] by (auto simp: issued_def)
  have pe: "path_epoch ?s' p = (if p = k then Some e else path_epoch s p)" for p
    by (simp add: path_epoch_def bt.get_ins [OF ok(2)])
  have "p \<noteq> 0 \<and> (\<forall>j. nx = Some j \<longrightarrow> p < j)" if "issued ?s' n p" for n p
  proof (cases "n = nonce")
    case True
    with that have "p = k" by (simp add: iss)
    with k0 show ?thesis by (auto simp: nx word_inc_less)
  next
    case False
    with that have "issued s n p" by (simp add: iss)
    with old [of n p] show ?thesis by (auto simp: nx word_inc_less less_imp_le)
  qed
  moreover have "n' = n" if "issued ?s' n p" "issued ?s' n' p" for n n' p
  proof (cases "p = k")
    case True
    with that new(2) show ?thesis by (auto simp: iss split: if_splits)
  next
    case False
    with that have "issued s n p" "issued s n' p" by (auto simp: iss split: if_splits)
    with s show ?thesis unfolding paths_ok_def by blast
  qed
  moreover have "\<exists>n. issued ?s' n p" if "cs_role s = Gateway" "path_epoch ?s' p \<noteq> None" for p
  proof (cases "p = k")
    case True
    then have "issued ?s' nonce p" by (simp add: iss)
    then show ?thesis ..
  next
    case False
    with that have "path_epoch s p \<noteq> None" by (simp add: pe)
    with s that(1) obtain n where n: "issued s n p" unfolding paths_ok_def by blast
    with new(1) have "n \<noteq> nonce" by blast
    with n have "issued ?s' n p" by (simp add: iss)
    then show ?thesis ..
  qed
  moreover have "nx \<noteq> Some 0" by (auto simp: nx word_inc_nonzero)
  ultimately show ?thesis
    unfolding paths_ok_def by (simp add: bt.ok_ins ok) blast
qed

text \<open>A gateway handler that refuses or only answers.\<close>

lemma paths_ok_detach:
  "paths_ok s \<Longrightarrow> paths_ok (s\<lparr>cs_protocol_paths := kt_remove p (cs_protocol_paths s)\<rparr>)"
  by (rule paths_ok_cong [of s])
    (auto simp: paths_ok_sorted path_epoch_def map_of_remove bt.ok_remove split: if_splits)

lemma paths_ok_gateway_attach:
  assumes s: "paths_ok s"
  shows "paths_ok (fst (gateway_attach s f session nonce now))"
  using s
  by (auto simp: gateway_attach_def Let_def intro!: paths_ok_remember paths_ok_attach
      split: option.splits sum.splits)

lemma paths_ok_path_request:
  "paths_ok s \<Longrightarrow> paths_ok (fst (gateway_path_request s f session p epoch now detach))"
  by (auto simp: gateway_path_request_def Let_def intro!: paths_ok_remember paths_ok_detach
      split: option.splits)

interpretation paths: state_invariant paths_ok
proof
  fix s :: control_state and role config admission now frame
  note cong = paths_ok_cong [of s]
  note sorted = paths_ok_sorted [of s]
  show "cs_new role config admission = Inr s \<Longrightarrow> paths_ok s"
    by (auto simp: cs_new_def paths_ok_def issued_def path_epoch_def bt.ok_Nil split: if_splits)
  show "paths_ok s \<Longrightarrow> paths_ok (prune_completed now s)"
    by (rule cong) (auto simp: prune_completed_def path_epoch_def sorted)
  show "paths_ok s \<Longrightarrow> paths_ok (prune_pending now s)"
    by (rule cong) (auto simp: prune_defs path_epoch_def sorted)
  show "paths_ok s \<Longrightarrow> cs_phase s = Active \<Longrightarrow> paths_ok (s\<lparr>cs_phase := Closed\<rparr>)"
    by (rule cong) (auto simp: path_epoch_def sorted)
  show "paths_ok s \<Longrightarrow> cs_role s = Client \<Longrightarrow> paths_ok (fst (client_outbound s frame now))"
    by (rule cong, assumption; cases "cf_message frame")
      (auto simp: client_outbound_def Let_def path_epoch_def sorted split: option.splits)
  show "paths_ok s \<Longrightarrow> cs_role s = Gateway \<Longrightarrow> paths_ok (fst (gateway_outbound s frame now))"
    by (rule cong, assumption; cases "cf_message frame")
      (auto simp: gateway_outbound_def Let_def path_epoch_def sorted split: option.splits)
  show "paths_ok s \<Longrightarrow> cs_role s = Client \<Longrightarrow> paths_ok (fst (client_inbound s frame now))"
    by (rule cong, assumption; cases "cf_message frame")
      (auto simp: client_inbound_def Let_def sorted bt.ok_ins bt.ok_remove
        split: option.splits control_message.splits)
  show "paths_ok (fst (gateway_inbound s frame now))" if s: "paths_ok s"
  proof (cases "completed_action s frame")
    case None
    have upd: "paths_ok (s\<lparr>cs_session_id := a, cs_expires_at_ms := b, cs_policy_epoch := c,
        cs_phase := d\<rparr>)"
      "paths_ok (s\<lparr>cs_pending_policy_updates := m\<rparr>)"
      "paths_ok (s\<lparr>cs_pending_policy_updates := m, cs_policy_epoch := c\<rparr>)" for a b c d m
      by (rule cong [OF s]; simp add: path_epoch_def sorted [OF s])+
    have close: "paths_ok (t\<lparr>cs_phase := d\<rparr>) \<longleftrightarrow> paths_ok t" for t d
      by (simp add: paths_ok_def issued_def path_epoch_def)
    from None s upd show ?thesis
      by (cases "cf_message frame")
        (auto simp: gateway_inbound_def Let_def paths_ok_gateway_attach paths_ok_path_request close
          intro!: paths_ok_remember split: option.splits)
  qed (simp add: gateway_inbound_def s)
qed

section \<open>What only grows along a run\<close>

primrec phase_rank :: "connection_phase \<Rightarrow> nat" where
  "phase_rank AwaitHello = 0"
| "phase_rank AwaitAdmit = 1"
| "phase_rank Active = 2"
| "phase_rank Closed = 3"

text \<open>Before the session is active no policy epoch has been taken.\<close>

definition epoch_ok :: "control_state \<Rightarrow> bool" where
  "epoch_ok s \<longleftrightarrow> (phase_rank (cs_phase s) < 2 \<longrightarrow> cs_policy_epoch s = 0)"

definition advances :: "control_state \<Rightarrow> control_state \<Rightarrow> bool" where
  "advances s t \<longleftrightarrow>
     cs_role t = cs_role s \<and> cs_config t = cs_config s \<and>
     phase_rank (cs_phase s) \<le> phase_rank (cs_phase t) \<and>
     map_of (cs_attachments s) \<subseteq>\<^sub>m map_of (cs_attachments t) \<and>
     (cs_role s = Client \<longrightarrow> cs_policy_epoch s \<le> cs_policy_epoch t) \<and>
     (cs_phase s = Closed \<longrightarrow>
        cs_session_id t = cs_session_id s \<and> cs_policy_epoch t = cs_policy_epoch s \<and>
        cs_protocol_paths t = cs_protocol_paths s \<and> cs_attachments t = cs_attachments s)"

definition run_ok :: "control_state \<Rightarrow> bool" where
  "run_ok s \<longleftrightarrow> bt_ok (cs_attachments s) \<and> epoch_ok s"

lemma phase_rank_facts:
  "phase_rank p \<le> 3" "3 \<le> phase_rank p \<longleftrightarrow> p = Closed" "2 \<le> phase_rank p \<longleftrightarrow> p = Active \<or> p = Closed"
  by (cases p; simp)+

lemma advances_refl: "advances s s"
  by (simp add: advances_def)

lemma advances_trans: "advances s t \<Longrightarrow> advances t u \<Longrightarrow> advances s u"
  unfolding advances_def
  by (auto intro: order_trans map_le_trans simp: phase_rank_facts dest: phase_rank_facts(2) [THEN iffD1])

lemma advances_same_tables:
  assumes "cs_role t = cs_role s" "cs_config t = cs_config s"
    "cs_attachments t = cs_attachments s" "phase_rank (cs_phase s) \<le> phase_rank (cs_phase t)"
    "cs_role s = Client \<Longrightarrow> cs_policy_epoch s \<le> cs_policy_epoch t"
    "cs_phase s = Closed \<Longrightarrow> cs_session_id t = cs_session_id s \<and>
       cs_policy_epoch t = cs_policy_epoch s \<and> cs_protocol_paths t = cs_protocol_paths s"
  shows "advances s t"
  using assms by (simp add: advances_def)

lemma advances_gateway_attach:
  assumes "bt_ok (cs_attachments s)" and "cs_role s = Gateway"
  shows "advances s (fst (gateway_attach s f session nonce now))"
proof -
  have "map_of (cs_attachments s) nonce = None \<Longrightarrow>
      map_of (cs_attachments s) \<subseteq>\<^sub>m (map_of (cs_attachments s))(nonce \<mapsto> r)" for r
    by (auto simp: map_le_def)
  with assms show ?thesis
    by (auto simp: gateway_attach_def Let_def advances_def bt.get_ins active_session_def
        split: option.splits sum.splits)
qed

lemma advances_path_request:
  "cs_role s = Gateway \<Longrightarrow> advances s (fst (gateway_path_request s f session p epoch now detach))"
  by (auto simp: gateway_path_request_def path_request_code_def active_session_def Let_def
      advances_def split: option.splits if_splits)

lemma run_ok_cong:
  "run_ok s \<Longrightarrow> cs_attachments t = cs_attachments s \<Longrightarrow> epoch_ok t \<Longrightarrow> run_ok t"
  by (simp add: run_ok_def)

lemma run_ok_gateway_attach:
  "run_ok s \<Longrightarrow> run_ok (fst (gateway_attach s f session nonce now))"
  by (auto simp: gateway_attach_def Let_def run_ok_def epoch_ok_def bt.ok_ins
      split: option.splits sum.splits)

lemma run_ok_path_request:
  "run_ok s \<Longrightarrow> run_ok (fst (gateway_path_request s f session p epoch now detach))"
  by (auto simp: gateway_path_request_def Let_def run_ok_def epoch_ok_def split: option.splits)

interpretation run: state_invariant run_ok
proof
  fix s :: control_state and role config admission now frame
  show "cs_new role config admission = Inr s \<Longrightarrow> run_ok s"
    by (auto simp: cs_new_def run_ok_def epoch_ok_def bt.ok_Nil split: if_splits)
  show "run_ok s \<Longrightarrow> run_ok (prune_completed now s)"
    by (simp add: prune_completed_def run_ok_def epoch_ok_def)
  show "run_ok s \<Longrightarrow> run_ok (prune_pending now s)"
    by (simp add: prune_defs run_ok_def epoch_ok_def)
  show "run_ok s \<Longrightarrow> cs_phase s = Active \<Longrightarrow> run_ok (s\<lparr>cs_phase := Closed\<rparr>)"
    by (simp add: run_ok_def epoch_ok_def)
  show "run_ok s \<Longrightarrow> cs_role s = Client \<Longrightarrow> run_ok (fst (client_outbound s frame now))"
    by (cases "cf_message frame")
      (auto simp: client_outbound_def Let_def run_ok_def epoch_ok_def split: option.splits)
  show "run_ok s \<Longrightarrow> cs_role s = Gateway \<Longrightarrow> run_ok (fst (gateway_outbound s frame now))"
    by (cases "cf_message frame")
      (auto simp: gateway_outbound_def Let_def run_ok_def epoch_ok_def split: option.splits)
  show "run_ok s \<Longrightarrow> cs_role s = Client \<Longrightarrow> run_ok (fst (client_inbound s frame now))"
    by (cases "cf_message frame")
      (auto simp: client_inbound_def Let_def run_ok_def epoch_ok_def active_session_def
        split: option.splits control_message.splits)
  show "run_ok s \<Longrightarrow> cs_role s = Gateway \<Longrightarrow> run_ok (fst (gateway_inbound s frame now))"
    by (cases "cf_message frame")
      (auto simp: gateway_inbound_def Let_def run_ok_gateway_attach run_ok_path_request
        split: option.splits, auto simp: run_ok_def epoch_ok_def)
qed

interpretation grow: step_relation run_ok advances
proof
  fix s t u :: control_state and now frame
  show "advances s s" by (rule advances_refl)
  show "advances s t \<Longrightarrow> advances t u \<Longrightarrow> advances s u" by (rule advances_trans)
  show "advances s (prune_completed now s)"
    by (simp add: advances_def prune_completed_def)
  show "advances s (prune_pending now s)"
    by (simp add: advances_def prune_defs)
  show "cs_phase s = Active \<Longrightarrow> advances s (s\<lparr>cs_phase := Closed\<rparr>)"
    by (simp add: advances_def)
  show "cs_role s = Client \<Longrightarrow> advances s (fst (client_outbound s frame now))"
    by (cases "cf_message frame")
      (auto simp: client_outbound_def Let_def active_session_def advances_def
        split: option.splits)
  show "cs_role s = Gateway \<Longrightarrow> advances s (fst (gateway_outbound s frame now))"
    by (cases "cf_message frame")
      (auto simp: gateway_outbound_def Let_def active_session_def advances_def
        split: option.splits)
  show "run_ok s \<Longrightarrow> cs_role s = Client \<Longrightarrow> advances s (fst (client_inbound s frame now))"
    by (cases "cf_message frame")
      (auto simp: client_inbound_def Let_def active_session_def advances_def run_ok_def
        epoch_ok_def split: option.splits control_message.splits)
  show "run_ok s \<Longrightarrow> cs_role s = Gateway \<Longrightarrow> advances s (fst (gateway_inbound s frame now))"
    by (cases "cf_message frame")
      (auto simp: gateway_inbound_def Let_def advances_gateway_attach advances_path_request
        run_ok_def split: option.splits, auto simp: advances_def phase_rank_facts active_session_def)
qed

section \<open>Resent requests\<close>

text \<open>The requests a gateway remembers its answer to.\<close>

fun is_request :: "control_message \<Rightarrow> bool" where
  "is_request (ClientHello d g k) = True"
| "is_request (PathAttach s n e k m) = True"
| "is_request (PathDetach s p e r) = True"
| "is_request (PathHealth s p e rtt loss) = True"
| "is_request (CloseSession s r) = True"
| "is_request _ = False"

fun action_frame :: "control_action \<Rightarrow> control_frame option" where
  "action_frame NoAction = None"
| "action_frame (Reply f) = Some f"
| "action_frame (Replay f) = Some f"

definition remembers :: "control_state \<Rightarrow> control_frame \<Rightarrow> control_frame \<Rightarrow> u64 \<Rightarrow> bool" where
  "remembers s f r until \<longleftrightarrow>
     \<lparr>cr_request = f, cr_response = r, cr_expires_at_ms = until\<rparr> \<in> set (cs_completed s)"

lemma remembers_remember [simp]:
  "remembers (remember f r now s) f r (sat_add now (completed_request_ttl_ms (cs_config s)))"
  by (simp add: remembers_def remember_def Let_def)

lemma remembers_phase [simp]: "remembers (s\<lparr>cs_phase := p\<rparr>) = remembers s"
  by (intro ext) (simp add: remembers_def)

lemma remembers_after:
  "cs_config s' = cs_config s \<Longrightarrow>
    remembers (remember f r now s') f r (sat_add now (completed_request_ttl_ms (cs_config s)))"
  by (metis remembers_remember)

lemma gateway_request_remembered:
  assumes "completed_action s f = None" and "is_request (cf_message f)"
    and "gateway_inbound s f now = (s', Inr act)"
  shows "\<exists>r. action_frame act = Some r \<and>
    remembers s' f r (sat_add now (completed_request_ttl_ms (cs_config s)))"
  using assms
  by (cases "cf_message f")
    (auto simp: gateway_inbound_def gateway_attach_def gateway_path_request_def Let_def
      reject_and_remember_def intro!: remembers_after
      split: option.splits if_splits sum.splits)

lemma completed_action_remembered:
  assumes "completed_ok s" and "remembers s f r until"
  shows "completed_action s f = Some (Replay r)"
proof -
  let ?tid = "cf_transaction_id \<circ> cr_request"
  let ?c = "\<lparr>cr_request = f, cr_response = r, cr_expires_at_ms = until\<rparr>"
  have c: "?c \<in> set (cs_completed s)" and d: "inj_on ?tid (set (cs_completed s))"
    using assms by (auto simp: remembers_def completed_ok_def distinct_map)
  have "find (\<lambda>c. ?tid c = cf_transaction_id f) (cs_completed s) \<noteq> None"
    using c by (auto simp: find_None_iff)
  then obtain e where e: "find (\<lambda>c. ?tid c = cf_transaction_id f) (cs_completed s) = Some e"
    by blast
  then have "e \<in> set (cs_completed s)" "?tid e = ?tid ?c"
    by (auto simp: find_Some_iff)
  with c d have "e = ?c" by (meson inj_onD)
  with e show ?thesis by (simp add: completed_action_def)
qed

text \<open>When the session is not over, a peer frame reaches its handler.\<close>

definition live_at :: "control_state \<Rightarrow> u64 \<Rightarrow> bool" where
  "live_at s now \<longleftrightarrow> \<not> snd (expire_if_needed s now)"

lemma live_at_iff:
  "live_at s now \<longleftrightarrow>
     (cs_phase s = Active \<longrightarrow> (\<forall>x. cs_expires_at_ms s = Some x \<longrightarrow> now < x))"
  by (auto simp: live_at_def expire_if_needed_def not_le split: option.splits)

lemma expire_if_needed_live:
  "live_at s now \<Longrightarrow> expire_if_needed (prune_pending t (prune_completed t s)) now =
     (prune_pending t (prune_completed t s), False)"
  "live_at s now \<Longrightarrow> expire_if_needed (prune_pending t s) now = (prune_pending t s, False)"
  by (auto simp: live_at_def expire_if_needed_def prune_defs split: if_splits)

lemma prune_fields [simp]:
  "cs_role (prune_pending t s) = cs_role s" "cs_role (prune_completed t s) = cs_role s"
  "cs_config (prune_pending t s) = cs_config s" "cs_config (prune_completed t s) = cs_config s"
  "cs_completed (prune_pending t s) = cs_completed s"
  by (simp_all add: prune_defs)

lemma on_inbound_gateway:
  "cs_role s = Gateway \<Longrightarrow> live_at s now \<Longrightarrow>
    on_inbound s f now = gateway_inbound (prune_pending now (prune_completed now s)) f now"
  by (simp add: on_inbound_def expire_if_needed_live)

lemma on_inbound_client:
  "cs_role s = Client \<Longrightarrow> live_at s now \<Longrightarrow>
    on_inbound s f now = client_inbound (prune_pending now (prune_completed now s)) f now"
  by (simp add: on_inbound_def expire_if_needed_live)

lemma on_outbound_client:
  "cs_role s = Client \<Longrightarrow> live_at s now \<Longrightarrow>
    on_outbound s f now = client_outbound (prune_pending now s) f now"
  by (simp add: on_outbound_def expire_if_needed_live)

lemma completed_action_pruned:
  "completed_action s f = None \<Longrightarrow>
    completed_action (prune_pending t (prune_completed t s)) f = None"
  by (auto simp: completed_action_None) (auto simp: prune_completed_def)

lemma reachable_on_inbound:
  "ctl_reachable s \<Longrightarrow> on_inbound s f now = (s', r) \<Longrightarrow> ctl_reachable s' \<and> advances s s'"
  by (meson ctl_reachable.step ctl_step.inbound grow.rel_steps run.inv_reachable r_into_rtranclp)

section \<open>Properties\<close>

text \<open>Whatever frames arrive and are sent, in whatever order and at whatever times, each
  of the five tables of a sequencer stays within its configured capacity, and the queue of
  remembered requests never holds two entries for one transaction.\<close>

theorem control_tables_bounded:
  assumes "ctl_reachable s"
  shows "length (cs_attachments s) \<le> attachment_capacity (cs_config s) \<and>
    length (cs_pending_attaches s) \<le> pending_attach_capacity (cs_config s) \<and>
    length (cs_pending_detaches s) \<le> pending_attach_capacity (cs_config s) \<and>
    length (cs_pending_policy_updates s) \<le> pending_policy_update_capacity (cs_config s) \<and>
    length (cs_completed s) \<le> completed_request_capacity (cs_config s) \<and>
    distinct (map (cf_transaction_id \<circ> cr_request) (cs_completed s))"
  using tables.inv_reachable [OF assms] by (simp add: tables_ok_def completed_ok_def)

text \<open>C22. Path identifiers are issued once: an attachment a gateway has accepted keeps its
  path identifier for the rest of the connection, the identifier is not zero, and no other
  nonce is ever given the same one, also after the path is detached.\<close>

theorem path_id_issued_once:
  assumes "ctl_reachable s" and "ctl_step\<^sup>*\<^sup>* s s'" and "issued s n p"
  shows "p \<noteq> 0 \<and> issued s' n p \<and> (\<forall>n'. issued s' n' p \<longrightarrow> n' = n)"
proof -
  have "map_of (cs_attachments s) \<subseteq>\<^sub>m map_of (cs_attachments s')"
    using grow.rel_steps [OF assms(2)] run.inv_reachable [OF assms(1)] by (simp add: advances_def)
  with assms(3) have i: "issued s' n p" by (auto simp: issued_def map_le_def dom_def)
  moreover have "paths_ok s'"
    using paths.inv_steps [OF assms(2)] paths.inv_reachable [OF assms(1)] by simp
  ultimately show ?thesis unfolding paths_ok_def by blast
qed

text \<open>A gateway answers a request once: when it has answered a request (with an
  acknowledgement, an attachment or a rejection), a second delivery of the same frame within
  the retention time is answered with the very same frame, as a replay, and changes nothing
  but drop what has expired.\<close>

theorem resend_answered_once:
  assumes reach: "ctl_reachable s" and gw: "cs_role s = Gateway" and live: "live_at s now"
    and new: "completed_action s f = None" and req: "is_request (cf_message f)"
    and first: "on_inbound s f now = (s', Inr act)"
    and again: "live_at s' later"
    and soon: "later < sat_add now (completed_request_ttl_ms (cs_config s))"
  shows "\<exists>r. action_frame act = Some r \<and>
    on_inbound s' f later = (prune_pending later (prune_completed later s'), Inr (Replay r))"
proof -
  let ?u = "sat_add now (completed_request_ttl_ms (cs_config s))"
  let ?p = "prune_pending later (prune_completed later s')"
  obtain r where r: "action_frame act = Some r" "remembers s' f r ?u"
    using gateway_request_remembered [OF completed_action_pruned [OF new] req
      first [unfolded on_inbound_gateway [OF gw live]]] by auto
  have s': "ctl_reachable s'" "advances s s'"
    using reachable_on_inbound [OF reach first] by auto
  have "completed_ok ?p"
    using tables.inv_prune_pending [OF tables.inv_prune_completed [OF tables.inv_reachable [OF s'(1)]]]
    by (simp add: tables_ok_def)
  moreover have "remembers ?p f r ?u"
    using r(2) soon by (simp add: remembers_def) (simp add: prune_completed_def)
  ultimately have "completed_action ?p f = Some (Replay r)"
    by (rule completed_action_remembered)
  moreover have "cs_role s' = Gateway" using s'(2) gw by (simp add: advances_def)
  ultimately show ?thesis
    using r(1) again by (simp add: on_inbound_gateway gateway_inbound_def)
qed

text \<open>The connection phases only advance, and a closed connection is final: whatever
  follows, it stays closed with the session, policy epoch, paths and attachments it had.\<close>

theorem closed_is_final:
  assumes "ctl_reachable s" and "ctl_step\<^sup>*\<^sup>* s s'"
  shows "phase_rank (cs_phase s) \<le> phase_rank (cs_phase s') \<and>
    (cs_phase s = Closed \<longrightarrow> cs_phase s' = Closed \<and> cs_session_id s' = cs_session_id s \<and>
      cs_policy_epoch s' = cs_policy_epoch s \<and> cs_protocol_paths s' = cs_protocol_paths s \<and>
      cs_attachments s' = cs_attachments s)"
proof -
  have "advances s s'"
    by (rule grow.rel_steps [OF assms(2) run.inv_reachable [OF assms(1)]])
  moreover from this have "cs_phase s' = Closed" if "cs_phase s = Closed"
    using that phase_rank_facts(2) [of "cs_phase s'"] by (simp add: advances_def)
  ultimately show ?thesis by (simp add: advances_def)
qed

text \<open>A client never goes back to an older policy: along every run its policy epoch only
  grows, whatever policy updates the peer sends.\<close>

theorem client_policy_epoch_monotone:
  assumes "ctl_reachable s" and "cs_role s = Client" and "ctl_step\<^sup>*\<^sup>* s s'"
  shows "cs_policy_epoch s \<le> cs_policy_epoch s'"
  using grow.rel_steps [OF assms(3)] run.inv_reachable [OF assms(1)] assms(2)
  by (simp add: advances_def)

text \<open>The handshake agrees: a fresh client's hello, delivered to a gateway holding a
  verified admission that has not expired, is answered with that admission, and the client
  accepts it; both ends are then active with the session, expiry and policy epoch of the
  admission.\<close>

theorem handshake_agrees:
  assumes c: "client config = Inr c" and g: "gateway_after_verified_admission config' a = Inr g"
    and f: "f = \<lparr>cf_transaction_id = tid, cf_message = ClientHello device gw ticket\<rparr>"
    and t2: "t2 < va_expires_at_ms a" and t3: "t3 < va_expires_at_ms a"
  shows "\<exists>c1 c2 g1. on_outbound c f t1 = (c1, Inr ()) \<and>
    on_inbound g f t2 = (g1, Inr (Reply (admit a tid))) \<and>
    on_inbound c1 (admit a tid) t3 = (c2, Inr NoAction) \<and>
    cs_phase c2 = Active \<and> cs_phase g1 = Active \<and>
    cs_session_id c2 = Some (va_session_id a) \<and> cs_session_id g1 = cs_session_id c2 \<and>
    cs_expires_at_ms c2 = Some (va_expires_at_ms a) \<and> cs_expires_at_ms g1 = cs_expires_at_ms c2 \<and>
    cs_policy_epoch c2 = va_policy_epoch a \<and> cs_policy_epoch g1 = cs_policy_epoch c2"
proof -
  have c: "cs_role c = Client" "cs_phase c = AwaitHello"
    and g: "cs_role g = Gateway" "cs_phase g = AwaitHello" "cs_completed g = []"
      "cs_verified_admission g = Some a"
    using c g
    by (auto simp: client_def gateway_after_verified_admission_def cs_new_def split: if_splits)
  let ?c1 = "(prune_pending t1 c)\<lparr>cs_phase := AwaitAdmit, cs_hello_transaction_id := Some tid\<rparr>"
  have s1: "on_outbound c f t1 = (?c1, Inr ())"
    using c by (simp add: on_outbound_client live_at_iff client_outbound_def f prune_defs)
  let ?g1 = "remember f (admit a tid) t2 ((prune_pending t2 (prune_completed t2 g))
    \<lparr>cs_session_id := Some (va_session_id a), cs_expires_at_ms := Some (va_expires_at_ms a),
     cs_policy_epoch := va_policy_epoch a, cs_phase := Active\<rparr>)"
  have s2: "on_inbound g f t2 = (?g1, Inr (Reply (admit a tid)))"
  proof -
    let ?g = "prune_pending t2 (prune_completed t2 g)"
    have "completed_action ?g f = None"
      using g by (simp add: completed_action_None) (simp add: prune_completed_def)
    moreover have "cs_phase ?g = AwaitHello" "cs_verified_admission ?g = Some a"
      using g by (simp_all add: prune_defs)
    moreover have "cf_transaction_id f = tid" "cf_message f = ClientHello device gw ticket"
      by (simp_all add: f)
    ultimately show ?thesis
      using g t2 by (auto simp: on_inbound_gateway live_at_iff gateway_inbound_def Let_def)
  qed
  have "cs_role ?c1 = Client" "live_at ?c1 t3"
    using c by (simp_all add: live_at_iff)
  then obtain c2 where s3: "on_inbound ?c1 (admit a tid) t3 = (c2, Inr NoAction)"
    and "cs_phase c2 = Active \<and> cs_session_id c2 = Some (va_session_id a) \<and>
      cs_expires_at_ms c2 = Some (va_expires_at_ms a) \<and> cs_policy_epoch c2 = va_policy_epoch a"
    by (simp add: on_inbound_client client_inbound_def admit_def prune_defs
        iffD2 [OF not_le t3])
  moreover have "cs_phase ?g1 = Active \<and> cs_session_id ?g1 = Some (va_session_id a) \<and>
      cs_expires_at_ms ?g1 = Some (va_expires_at_ms a) \<and> cs_policy_epoch ?g1 = va_policy_epoch a"
    by simp
  ultimately show ?thesis using s1 s2 by metis
qed

lemma client_attached:
  assumes c: "cs_role s = Client" "live_at s now" "active_session s session"
    and ok: "bt_ok (cs_pending_attaches s)" "bt_ok (cs_protocol_paths s)"
    and e: "map_of (cs_pending_attaches s) tid = Some e"
      "pa_request e = PathAttach session nonce epoch key meta" "now < pa_expires_at_ms e"
    and older: "\<And>e. path_epoch s p = Some e \<Longrightarrow> e < epoch"
  shows "\<exists>s'. on_inbound s \<lparr>cf_transaction_id = tid, cf_message = PathAttached session p epoch\<rparr> now
    = (s', Inr NoAction) \<and> path_epoch s' p = Some epoch"
proof -
  let ?s = "prune_pending now (prune_completed now s)"
  have "map_of (cs_pending_attaches ?s) tid = Some e" and p: "cs_protocol_paths ?s = cs_protocol_paths s"
    and "active_session ?s session"
    using e c(3) by (simp_all add: prune_defs map_of_retain [OF bt_ok_distinct [OF ok(1)]]
        active_session_def)
  moreover have "\<not> epoch \<le> x" if "path_epoch s p = Some x" for x
    using older that by (simp add: not_le)
  ultimately show ?thesis
    using c ok e
    by (auto simp: on_inbound_client client_inbound_def Let_def path_epoch_def p
        bt.get_ins split: option.splits)
qed

text \<open>C12. The attach exchange agrees: an active client's path attach, sent under a fresh
  transaction and a fresh nonce to an active gateway of the same session that has room, is
  answered with the gateway's next path identifier; the client accepts the answer unless it
  already knows that path under the same or a later epoch, and then both ends hold the path
  under the requested epoch.\<close>

theorem attach_agrees:
  assumes c: "cs_role c = Client" "active_session c session" "live_at c t1" "live_at c t3"
    and g: "ctl_reachable g" "cs_role g = Gateway" "active_session g session" "live_at g t2"
    and cr: "ctl_reachable c"
    and f: "f = \<lparr>cf_transaction_id = tid, cf_message = PathAttach session nonce epoch key meta\<rparr>"
    and c_new: "map_of (cs_pending_attaches c) tid = None"
      "length (cs_pending_attaches c) < pending_attach_capacity (cs_config c)"
    and g_new: "completed_action g f = None" "map_of (cs_attachments g) nonce = None"
      "length (cs_attachments g) < attachment_capacity (cs_config g)"
    and id: "cs_next_path_id g = Some p"
    and older: "\<And>e. path_epoch c p = Some e \<Longrightarrow> e < epoch"
    and soon: "t3 < sat_add t1 (pending_attach_ttl_ms (cs_config c))"
  shows "\<exists>c1 c2 g1 r. on_outbound c f t1 = (c1, Inr ()) \<and>
    on_inbound g f t2 = (g1, Inr (Reply r)) \<and> on_inbound c1 r t3 = (c2, Inr NoAction) \<and>
    path_epoch c2 p = Some epoch \<and> path_epoch g1 p = Some epoch"
proof -
  let ?m = "cs_pending_attaches (prune_pending t1 c)"
  let ?e = "\<lparr>pa_request = cf_message f,
    pa_expires_at_ms = sat_add t1 (pending_attach_ttl_ms (cs_config c))\<rparr>"
  let ?c1 = "(prune_pending t1 c)\<lparr>cs_pending_attaches := bt_insert tid ?e ?m\<rparr>"
  let ?r = "\<lparr>cf_transaction_id = tid, cf_message = PathAttached session p epoch\<rparr>"
  have m: "?m = kt_retain (\<lambda>q. t1 < pa_expires_at_ms q) (cs_pending_attaches c)"
    by (simp add: prune_defs)
  have tc: "tables_ok c" by (rule tables.inv_reachable [OF cr])
  then have ok: "bt_ok (cs_pending_attaches c)" "bt_ok (cs_protocol_paths c)" "bt_ok ?m"
    by (auto simp: tables_ok_def m bt.ok_retain)
  have "length ?m < pending_attach_capacity (cs_config c)"
    using c_new(2) length_kt_retain_le [of _ "cs_pending_attaches c"] by (auto simp: m intro: le_less_trans)
  moreover have "map_of ?m tid = None"
    using c_new(1) by (simp add: m map_of_retain [OF bt_ok_distinct [OF ok(1)]])
  moreover have act: "active_session (prune_pending t1 c) session"
    using c(2) by (simp add: active_session_def prune_defs)
  ultimately have s1: "on_outbound c f t1 = (?c1, Inr ())"
    using c by (simp add: on_outbound_client client_outbound_def f Let_def)
  let ?g = "prune_pending t2 (prune_completed t2 g)"
  have "completed_action ?g f = None"
    by (rule completed_action_pruned [OF g_new(1)])
  moreover have tg: "bt_ok (cs_protocol_paths g)"
    using tables.inv_reachable [OF g(1)] by (simp add: tables_ok_def)
  moreover have "active_session ?g session" "cs_attachments ?g = cs_attachments g"
    "cs_next_path_id ?g = Some p" "cs_protocol_paths ?g = cs_protocol_paths g"
    using g id by (simp_all add: active_session_def prune_defs)
  ultimately have s2: "\<exists>g1. on_inbound g f t2 = (g1, Inr (Reply ?r)) \<and> path_epoch g1 p = Some epoch"
    using g g_new
    by (auto simp: on_inbound_gateway gateway_inbound_def gateway_attach_def f Let_def
        path_epoch_def bt.get_ins)
  have live: "live_at ?c1 t3" and role: "cs_role ?c1 = Client"
    using c by (simp_all add: live_at_iff prune_defs)
  have "\<exists>c2. on_inbound ?c1 ?r t3 = (c2, Inr NoAction) \<and> path_epoch c2 p = Some epoch"
  proof (rule client_attached [OF role live])
    show "active_session ?c1 session" using act by (simp add: active_session_def)
    show "bt_ok (cs_pending_attaches ?c1)" "bt_ok (cs_protocol_paths ?c1)"
      using ok by (simp_all add: bt.ok_ins) (simp add: prune_defs)
    show "map_of (cs_pending_attaches ?c1) tid = Some ?e" by (simp add: bt.get_ins [OF ok(3)])
    show "pa_request ?e = PathAttach session nonce epoch key meta" by (simp add: f)
    show "t3 < pa_expires_at_ms ?e" using soon by simp
    show "path_epoch ?c1 p = Some e \<Longrightarrow> e < epoch" for e
      using older by (simp add: path_epoch_def prune_defs)
  qed
  with s1 s2 show ?thesis by blast
qed

section \<open>A concrete run\<close>

text \<open>
  A session of one client and one gateway: hello, admission, one attach and its answer. It
  instantiates the hypotheses of the properties above.
\<close>

definition run_admission :: verified_admission where
  "run_admission = \<lparr>va_session_id = 7, va_expires_at_ms = 100000, va_policy_epoch = 3,
     va_assigned_ipv4 = 167772161, va_assigned_ipv4_prefix_len = 32, va_assigned_ipv6_prefix = 9,
     va_assigned_ipv6_prefix_len = 128, va_safe_mode_policy = []\<rparr>"

definition run_hello :: control_frame where
  "run_hello = \<lparr>cf_transaction_id = 1, cf_message = ClientHello 5 [103] [116]\<rparr>"

definition run_attach :: control_frame where
  "run_attach = \<lparr>cf_transaction_id = 2, cf_message = PathAttach 7 11 4 0 []\<rparr>"

definition run_attached :: control_frame where
  "run_attached = \<lparr>cf_transaction_id = 2, cf_message = PathAttached 7 1 4\<rparr>"

definition run_fresh :: "control_role \<Rightarrow> verified_admission option \<Rightarrow> control_state" where
  "run_fresh role a = (case cs_new role state_config_default a of Inr s \<Rightarrow> s)"

abbreviation "run_g0 \<equiv> run_fresh Gateway (Some run_admission)"
abbreviation "run_c0 \<equiv> run_fresh Client None"
definition "run_g1 = fst (on_inbound run_g0 run_hello 10)"
definition "run_g2 = fst (on_inbound run_g1 run_attach 20)"
definition "run_c1 = fst (on_inbound (fst (on_outbound run_c0 run_hello 5)) (admit run_admission 1) 15)"

lemma cs_new_run_fresh: "cs_new role state_config_default a = Inr (run_fresh role a)"
  by (simp add: run_fresh_def cs_new_def state_config_default_def)

lemma ctl_reachable_inbound: "ctl_reachable s \<Longrightarrow> ctl_reachable (fst (on_inbound s f now))"
  by (metis ctl_reachable.step ctl_step.inbound prod.collapse)

lemma ctl_reachable_outbound: "ctl_reachable s \<Longrightarrow> ctl_reachable (fst (on_outbound s f now))"
  by (metis ctl_reachable.step ctl_step.outbound prod.collapse)

lemma run_reachable: "ctl_reachable run_g1" "ctl_reachable run_g2" "ctl_reachable run_c1"
  unfolding run_g1_def run_g2_def run_c1_def
  by (rule ctl_reachable_inbound ctl_reachable_outbound ctl_reachable.start [OF cs_new_run_fresh])+

lemma run_step: "ctl_step\<^sup>*\<^sup>* run_g1 run_g2"
  unfolding run_g2_def by (metis ctl_step.inbound prod.collapse r_into_rtranclp)

lemmas run_eval = run_fresh_def cs_new_def state_config_default_def run_admission_def
  run_hello_def run_attach_def on_inbound_def on_outbound_def expire_if_needed_def prune_defs
  kt_retain_def gateway_inbound_def gateway_attach_def client_outbound_def client_inbound_def
  completed_action_def active_session_def remember_def admit_def sat_add_def Let_def

lemma run_g1_value:
  "run_g1 = \<lparr>cs_role = Gateway, cs_phase = Active, cs_config = state_config_default,
     cs_verified_admission = Some run_admission, cs_session_id = Some 7,
     cs_expires_at_ms = Some 100000, cs_policy_epoch = 3, cs_protocol_paths = [],
     cs_attachments = [], cs_pending_attaches = [], cs_pending_policy_updates = [],
     cs_pending_detaches = [],
     cs_completed = [\<lparr>cr_request = run_hello, cr_response = admit run_admission 1,
       cr_expires_at_ms = 60010\<rparr>],
     cs_hello_transaction_id = None, cs_next_path_id = Some 1\<rparr>"
  unfolding run_g1_def by (simp add: run_eval)

lemma run_g2_value:
  "on_inbound run_g1 run_attach 20 = (run_g2, Inr (Reply run_attached))"
  "cs_attachments run_g2 = [(11, \<lparr>ar_request = cf_message run_attach,
     ar_response = cf_message run_attached\<rparr>)]"
  "cs_role run_g2 = Gateway" "cs_expires_at_ms run_g2 = Some 100000"
  unfolding run_g2_def by (simp_all add: run_g1_value run_attached_def) (simp_all add: run_eval)

lemma run_c1_value:
  "cs_role run_c1 = Client" "cs_phase run_c1 = Active" "cs_session_id run_c1 = Some 7"
  "cs_expires_at_ms run_c1 = Some 100000" "cs_policy_epoch run_c1 = 3"
  "cs_pending_attaches run_c1 = []" "cs_protocol_paths run_c1 = []"
  "cs_config run_c1 = state_config_default"
  unfolding run_c1_def by (simp_all add: run_eval)

lemma control_tables_bounded_witness:
  "length (cs_attachments run_g2) = 1 \<and>
   length (cs_attachments run_g2) \<le> attachment_capacity (cs_config run_g2)"
  using control_tables_bounded [OF run_reachable(2)] by (simp add: run_g2_value)

lemma path_id_issued_once_witness:
  "issued (fst (on_inbound run_g2 run_attach 30)) 11 1 \<and>
   \<not> issued (fst (on_inbound run_g2 run_attach 30)) 12 1"
proof -
  have i: "issued run_g2 11 1"
    by (simp add: issued_def run_g2_value run_attached_def)
  have "ctl_step\<^sup>*\<^sup>* run_g2 (fst (on_inbound run_g2 run_attach 30))"
    by (metis ctl_step.inbound prod.collapse r_into_rtranclp)
  from path_id_issued_once [OF run_reachable(2) this i] show ?thesis by auto
qed

lemma resend_answered_once_witness:
  "snd (on_inbound run_g2 run_attach 1000) = Inr (Replay run_attached)"
proof -
  have "live_at run_g1 20" "cs_role run_g1 = Gateway" "completed_action run_g1 run_attach = None"
    "(1000::u64) < sat_add 20 (completed_request_ttl_ms (cs_config run_g1))"
    by (simp_all add: live_at_iff run_g1_value completed_action_def run_hello_def run_attach_def
        state_config_default_def sat_add_def)
  moreover have "live_at run_g2 1000" "is_request (cf_message run_attach)"
    by (simp_all add: live_at_iff run_g2_value run_attach_def)
  ultimately show ?thesis
    using resend_answered_once [OF run_reachable(1) _ _ _ _ run_g2_value(1), of 1000] by simp
qed

lemma closed_is_final_witness: "phase_rank (cs_phase run_g1) \<le> phase_rank (cs_phase run_g2)"
  using closed_is_final [OF run_reachable(1) run_step] by simp

lemma client_policy_epoch_monotone_witness:
  "3 \<le> cs_policy_epoch (fst (on_inbound run_c1 \<lparr>cf_transaction_id = 9,
     cf_message = PolicyUpdate 7 2 []\<rparr> 50))" (is "3 \<le> cs_policy_epoch ?s")
proof -
  have "ctl_step\<^sup>*\<^sup>* run_c1 ?s"
    by (metis ctl_step.inbound prod.collapse r_into_rtranclp)
  from client_policy_epoch_monotone [OF run_reachable(3) run_c1_value(1) this]
  show ?thesis by (simp add: run_c1_value)
qed

lemma handshake_agrees_witness:
  "\<exists>g1. on_inbound run_g0 run_hello 10 = (g1, Inr (Reply (admit run_admission 1))) \<and>
    cs_phase g1 = Active"
proof -
  have "client state_config_default = Inr run_c0"
    "gateway_after_verified_admission state_config_default run_admission = Inr run_g0"
    by (simp_all add: client_def gateway_after_verified_admission_def cs_new_run_fresh)
  moreover have "(10::u64) < va_expires_at_ms run_admission" "(15::u64) < va_expires_at_ms run_admission"
    by (simp_all add: run_admission_def)
  ultimately show ?thesis
    using handshake_agrees [OF _ _ run_hello_def] by blast
qed

lemma attach_agrees_witness:
  "\<exists>c1 c2 g1 r. on_outbound run_c1 run_attach 18 = (c1, Inr ()) \<and>
    on_inbound run_g1 run_attach 20 = (g1, Inr (Reply r)) \<and>
    on_inbound c1 r 30 = (c2, Inr NoAction) \<and> path_epoch c2 1 = Some 4 \<and> path_epoch g1 1 = Some 4"
  by (rule attach_agrees [OF _ _ _ _ run_reachable(1) _ _ _ run_reachable(3) run_attach_def])
    (simp_all add: run_c1_value run_g1_value active_session_def live_at_iff path_epoch_def
      completed_action_def run_hello_def run_attach_def state_config_default_def sat_add_def)

definition run_update :: "u64 \<Rightarrow> u64 \<Rightarrow> control_frame" where
  "run_update tid epoch = \<lparr>cf_transaction_id = tid, cf_message = PolicyUpdate 7 epoch []\<rparr>"

definition "run_g3 = fst (on_outbound (fst (on_outbound run_g1 (run_update 20 5) 30)) (run_update 21 7) 31)"
definition "run_g4 = fst (on_inbound run_g3 (ack 21) 32)"

lemma run_g4_epochs:
  "cs_policy_epoch run_g4 = 7" "cs_role run_g4 = Gateway"
  "cs_policy_epoch (fst (on_inbound run_g4 (ack 20) 33)) = 5"
  unfolding run_g4_def run_g3_def
  by (simp_all add: run_g1_value) (simp_all add: run_eval gateway_outbound_def run_update_def
      ack_def prune_completed_def kt_remove_def)

text \<open>The gateway's own policy epoch is not monotone: two policy updates may be pending at
  once, and acknowledgements that arrive in the other order leave it at the older epoch.\<close>

theorem gateway_policy_epoch_can_regress:
  "\<exists>s s'. ctl_reachable s \<and> cs_role s = Gateway \<and> ctl_step s s' \<and>
    cs_policy_epoch s' < cs_policy_epoch s"
proof (intro exI conjI)
  show "ctl_reachable run_g4"
    unfolding run_g4_def run_g3_def
    by (intro ctl_reachable_inbound ctl_reachable_outbound run_reachable)
  show "ctl_step run_g4 (fst (on_inbound run_g4 (ack 20) 33))"
    by (metis ctl_step.inbound prod.collapse)
  show "cs_role run_g4 = Gateway"
    "cs_policy_epoch (fst (on_inbound run_g4 (ack 20) 33)) < cs_policy_epoch run_g4"
    by (simp_all add: run_g4_epochs)
qed

end
