(* ===== verification/ReceiveKey.thy ===== *)
theory ReceiveKey
  imports CoreTypes Envelope "HOL-Library.List_Lexorder" "HOL-Library.Product_Lexorder"
begin

text \<open>
  The receive key of \<open>crates/sg-multipath/src/v2/mod.rs\<close>, with its deterministic order as
  an instance of the library's \<open>linorder\<close>, and the minimum searches of Rust's iterators
  (\<open>min_by\<close>, \<open>min_by_key\<close>), which return the first of several minima.
\<close>

section \<open>Orderings\<close>

datatype cmp_ordering = CmpLess | CmpEqual | CmpGreater

definition ord_cmp :: "'a::linorder \<Rightarrow> 'a \<Rightarrow> cmp_ordering" where
  "ord_cmp a b = (if a < b then CmpLess else if a = b then CmpEqual else CmpGreater)"

fun then_with :: "cmp_ordering \<Rightarrow> cmp_ordering \<Rightarrow> cmp_ordering" where
  "then_with CmpEqual o2 = o2"
| "then_with o1 o2 = o1"

section \<open>The key\<close>

datatype receive_key = Receive_Key
  (rk_session: session_id) (rk_direction: direction) (rk_key_epoch: u32) (rk_flow: flow_id)

definition deterministic_cmp :: "receive_key \<Rightarrow> receive_key \<Rightarrow> cmp_ordering" where
  "deterministic_cmp a b =
     then_with (then_with (then_with
       (ord_cmp (to_be (rk_session a)) (to_be (rk_session b)))
       (ord_cmp (dir_to_wire (rk_direction a)) (dir_to_wire (rk_direction b))))
       (ord_cmp (rk_key_epoch a) (rk_key_epoch b)))
       (ord_cmp (rk_flow a) (rk_flow b))"

text \<open>The comparison is the lexicographic order on the four fields, and they determine the key.\<close>

definition key_tuple :: "receive_key \<Rightarrow> byte list \<times> byte \<times> u32 \<times> flow_id" where
  "key_tuple k = (to_be (rk_session k), dir_to_wire (rk_direction k), rk_key_epoch k, rk_flow k)"

lemma dir_to_wire_inj: "dir_to_wire a = dir_to_wire b \<longleftrightarrow> a = b"
  by (cases a; cases b) simp_all

lemma to_be_inj: "to_be (a::arr16) = to_be b \<longleftrightarrow> a = b"
  by (metis from_be_to_be_widths(4))

lemma key_tuple_inj: "key_tuple a = key_tuple b \<longleftrightarrow> a = b"
  by (cases a; cases b) (auto simp: key_tuple_def dir_to_wire_inj to_be_inj)

lemma then_with_ord_cmp:
  "then_with (ord_cmp a b) (ord_cmp c d) = ord_cmp (a, c) (b, d)"
  by (auto simp: ord_cmp_def less_prod_def')

lemma deterministic_cmp_tuple:
  "deterministic_cmp a b = ord_cmp (key_tuple a) (key_tuple b)"
proof -
  have assoc: "then_with (then_with x y) z = then_with x (then_with y z)" for x y z
    by (cases x) simp_all
  show ?thesis
    by (simp only: deterministic_cmp_def key_tuple_def assoc) (simp only: then_with_ord_cmp)
qed

instantiation receive_key :: linorder
begin

definition less_eq_receive_key :: "receive_key \<Rightarrow> receive_key \<Rightarrow> bool" where
  "less_eq_receive_key a b \<longleftrightarrow> deterministic_cmp a b \<noteq> CmpGreater"

definition less_receive_key :: "receive_key \<Rightarrow> receive_key \<Rightarrow> bool" where
  "less_receive_key a b \<longleftrightarrow> deterministic_cmp a b = CmpLess"

instance
proof
  have le: "x \<le> y \<longleftrightarrow> key_tuple x \<le> key_tuple y" for x y
    by (auto simp: less_eq_receive_key_def deterministic_cmp_tuple ord_cmp_def key_tuple_inj)
  have lt: "x < y \<longleftrightarrow> key_tuple x < key_tuple y" for x y
    by (auto simp: less_receive_key_def deterministic_cmp_tuple ord_cmp_def)
  fix a b c :: receive_key
  show "(a < b) = (a \<le> b \<and> \<not> b \<le> a)" by (auto simp: le lt)
  show "a \<le> a" by (simp add: le)
  show "a \<le> b \<Longrightarrow> b \<le> c \<Longrightarrow> a \<le> c" unfolding le by (rule order_trans)
  show "a \<le> b \<Longrightarrow> b \<le> a \<Longrightarrow> a = b" unfolding le by (metis key_tuple_inj order_antisym)
  show "a \<le> b \<or> b \<le> a" unfolding le by (rule linear)
qed

end

lemma deterministic_cmp_iff:
  "deterministic_cmp a b = CmpLess \<longleftrightarrow> a < b"
  "deterministic_cmp a b = CmpEqual \<longleftrightarrow> a = b"
  "deterministic_cmp a b = CmpGreater \<longleftrightarrow> b < a"
  by (auto simp: less_receive_key_def deterministic_cmp_tuple ord_cmp_def key_tuple_inj
      split: if_splits)

section \<open>Minimum searches\<close>

fun first_min :: "('a \<Rightarrow> 'k::linorder) \<Rightarrow> 'a list \<Rightarrow> 'a option" where
  "first_min f [] = None"
| "first_min f (x # xs) =
     (case first_min f xs of None \<Rightarrow> Some x | Some y \<Rightarrow> if f y < f x then Some y else Some x)"

lemma first_min_None [simp]: "first_min f xs = None \<longleftrightarrow> xs = []"
  by (cases xs) (auto split: option.splits)

lemma first_min_Some:
  "first_min f xs = Some m \<Longrightarrow> m \<in> set xs \<and> (\<forall>x \<in> set xs. f m \<le> f x)"
proof (induction xs arbitrary: m)
  case Nil
  then show ?case by simp
next
  case (Cons x xs)
  show ?case
  proof (cases "first_min f xs")
    case None
    with Cons.prems show ?thesis by simp
  next
    case (Some y)
    with Cons.IH [OF Some] Cons.prems show ?thesis
      by (auto split: if_splits intro: order_trans less_imp_le)
  qed
qed

text \<open>When the keys are distinct the minimum does not depend on the order of the list.\<close>

lemma first_min_unique:
  assumes "set xs = set ys" and "inj_on f (set xs)"
  shows "first_min f xs = first_min f ys"
proof (cases "first_min f xs")
  case None
  with assms have "ys = []" by simp
  with None show ?thesis by simp
next
  case (Some m)
  with assms(1) have "ys \<noteq> []" by auto
  then obtain n where n: "first_min f ys = Some n"
    using first_min_None [of f ys] by blast
  from first_min_Some [OF Some] first_min_Some [OF n] assms(1) have "f m = f n"
    by (auto intro: antisym)
  with first_min_Some [OF Some] first_min_Some [OF n] assms have "m = n"
    by (auto dest: inj_onD)
  with Some n show ?thesis by simp
qed

end
