(* ===== verification/Tombstones.thy ===== *)
theory Tombstones
  imports ReceiveKey Containers "HOL-Library.Multiset"
begin

text \<open>
  The tombstone table that \<open>crates/sg-multipath/src/v2/dedup.rs\<close> and \<open>reorder.rs\<close> both keep
  beside their flows: the highest identifier observed for a removed key, until a deadline.
  Inserting drops what has expired and, at capacity, the tombstone that expires soonest.
\<close>

record tombstone =
  dt_watermark :: u64
  dt_expires_at_ms :: u64

type_synonym tombstones = "(receive_key \<times> tombstone) list"

definition oldest_tombstone :: "tombstones \<Rightarrow> receive_key option" where
  "oldest_tombstone m =
     map_option fst (first_min (\<lambda>(k, t). ((dt_expires_at_ms t, dt_watermark t), k)) m)"

text \<open>The tombstones that make room for a new one.\<close>

definition tombstone_room :: "nat \<Rightarrow> tombstones \<Rightarrow> tombstones" where
  "tombstone_room n m =
     (if n \<le> length m
      then (case oldest_tombstone m of Some k \<Rightarrow> kt_remove k m | None \<Rightarrow> m) else m)"

lemma oldest_tombstone_in: "oldest_tombstone m = Some k \<Longrightarrow> k \<in> keys m"
  unfolding oldest_tombstone_def by (auto dest!: first_min_Some) force

lemma tombstone_room_facts:
  assumes "hm_ok m"
  shows "hm_ok (tombstone_room n m)" and "set (tombstone_room n m) \<subseteq> set m"
    and "length m \<le> n \<Longrightarrow> 0 < n \<Longrightarrow> length (tombstone_room n m) < n"
proof -
  show "hm_ok (tombstone_room n m)"
    using assms by (simp add: tombstone_room_def hm.ok_remove split: option.splits)
  show "set (tombstone_room n m) \<subseteq> set m"
    by (auto simp: tombstone_room_def set_kt_remove split: option.splits)
  assume le: "length m \<le> n" "0 < n"
  show "length (tombstone_room n m) < n"
  proof (cases "oldest_tombstone m")
    case None
    then have "m = []" by (simp add: oldest_tombstone_def)
    with le show ?thesis by (simp add: tombstone_room_def)
  next
    case (Some k)
    from length_kt_remove_less [OF oldest_tombstone_in [OF Some]] le Some
    show ?thesis by (simp add: tombstone_room_def)
  qed
qed

definition live_tombstones :: "u64 \<Rightarrow> tombstones \<Rightarrow> tombstones" where
  "live_tombstones now m = kt_retain (\<lambda>t. now < dt_expires_at_ms t) m"

definition bury :: "nat \<Rightarrow> u64 \<Rightarrow> receive_key \<Rightarrow> u64 \<Rightarrow> u64 \<Rightarrow> tombstones \<Rightarrow> tombstones" where
  "bury n ttl k w now m =
     hm_insert k \<lparr>dt_watermark = w, dt_expires_at_ms = sat_add now ttl\<rparr>
       (tombstone_room n (live_tombstones now m))"

lemma live_tombstones_ok: "hm_ok m \<Longrightarrow> hm_ok (live_tombstones now m)"
  by (simp add: live_tombstones_def hm.ok_retain)

lemma length_live_tombstones: "length (live_tombstones now m) \<le> length m"
  by (simp add: live_tombstones_def length_kt_retain_le)

lemma bury_facts:
  assumes ok: "hm_ok m"
  shows "hm_ok (bury n ttl k w now m)"
    and "map_of (bury n ttl k w now m) k =
      Some \<lparr>dt_watermark = w, dt_expires_at_ms = sat_add now ttl\<rparr>"
    and "keys (bury n ttl k w now m) \<subseteq> insert k (keys m)"
    and "length m \<le> n \<Longrightarrow> 0 < n \<Longrightarrow> length (bury n ttl k w now m) \<le> n"
    and "length (bury n ttl k w now m) \<le> Suc (length m)"
proof -
  let ?m = "live_tombstones now m"
  let ?r = "tombstone_room n ?m"
  have m: "hm_ok ?m" using ok by (rule live_tombstones_ok)
  note r = tombstone_room_facts [OF m, of n]
  show "hm_ok (bury n ttl k w now m)" "map_of (bury n ttl k w now m) k =
      Some \<lparr>dt_watermark = w, dt_expires_at_ms = sat_add now ttl\<rparr>"
    by (simp_all add: bury_def hm.ok_ins hm.get_ins r(1))
  have "set ?m \<subseteq> set m" by (auto simp: live_tombstones_def set_kt_retain)
  with r(2) show "keys (bury n ttl k w now m) \<subseteq> insert k (keys m)"
    by (simp add: bury_def hm.keys_ins [OF r(1)]) blast
  have "length ?r \<le> length ?m"
    using length_kt_remove_le by (auto simp: tombstone_room_def split: option.splits)
  with hm.length_ins_le [OF r(1), of k] length_live_tombstones
  show "length (bury n ttl k w now m) \<le> Suc (length m)"
    unfolding bury_def by (meson Suc_le_mono order_trans)
  assume "length m \<le> n" and "0 < n"
  with r(3) length_live_tombstones [of now m] have "length ?r < n" by simp
  with hm.length_ins_le [OF r(1), of k] show "length (bury n ttl k w now m) \<le> n"
    unfolding bury_def by (meson Suc_leI order_trans)
qed

lemma bury_keeps:
  assumes "hm_ok m" and "length m < n" and "k \<noteq> v" and "now < dt_expires_at_ms t"
    and "map_of m k = Some t"
  shows "map_of (bury n ttl v w now m) k = Some t"
proof -
  have "tombstone_room n (live_tombstones now m) = live_tombstones now m"
    using assms(2) length_live_tombstones [of now m] by (simp add: tombstone_room_def)
  moreover have "map_of (live_tombstones now m) k = Some t"
    using assms by (simp add: live_tombstones_def map_of_retain hm.ok_distinct)
  ultimately show ?thesis
    using assms(1,3) by (simp add: bury_def hm.get_ins live_tombstones_ok)
qed

text \<open>The table after an insertion does not depend on the iteration order of the map.\<close>

lemma oldest_tombstone_order:
  assumes "hm_ok m" and "set m = set m'"
  shows "oldest_tombstone m = oldest_tombstone m'"
proof -
  have "inj_on (\<lambda>(k, t). ((dt_expires_at_ms t, dt_watermark t), k)) (set m)"
    using assms(1) by (auto simp: inj_on_def hm_ok_def dest: eq_key_imp_eq_value)
  from first_min_unique [OF assms(2) this] show ?thesis by (simp add: oldest_tombstone_def)
qed

lemma bury_order:
  assumes "hm_ok m" and "hm_ok m'" and "set m = set m'"
  shows "set (bury n ttl k w now m) = set (bury n ttl k w now m')"
proof -
  let ?l = "live_tombstones now m" and ?l' = "live_tombstones now m'"
  have ok: "hm_ok ?l" "hm_ok ?l'" and set: "set ?l = set ?l'"
    using assms by (simp_all add: live_tombstones_ok) (auto simp: live_tombstones_def set_kt_retain)
  then have "length ?l = length ?l'" by (simp add: hm.length_eq_card)
  with set oldest_tombstone_order [OF ok(1) set]
  have "set (tombstone_room n ?l) = set (tombstone_room n ?l')"
    by (auto simp: tombstone_room_def set_kt_remove split: option.splits)
  then show ?thesis
    by (simp add: bury_def hm.set_ins tombstone_room_facts(1) ok)
qed

text \<open>Burying several keys at once keeps a guard for each, as long as there is room.\<close>

definition bury_all :: "nat \<Rightarrow> u64 \<Rightarrow> u64 \<Rightarrow> (receive_key \<times> u64) list \<Rightarrow> tombstones \<Rightarrow> tombstones" where
  "bury_all n ttl now idle m = fold (\<lambda>(k, w). bury n ttl k w now) idle m"

lemma bury_all_Cons:
  "bury_all n ttl now ((v, u) # idle) m = bury_all n ttl now idle (bury n ttl v u now m)"
  by (simp add: bury_all_def)

lemma bury_all_keeps:
  "hm_ok m \<Longrightarrow> length m + length idle \<le> n \<Longrightarrow> k \<notin> keys idle \<Longrightarrow> now < dt_expires_at_ms t \<Longrightarrow>
    map_of m k = Some t \<Longrightarrow> map_of (bury_all n ttl now idle m) k = Some t"
proof (induction idle arbitrary: m)
  case Nil
  then show ?case by (simp add: bury_all_def)
next
  case (Cons e idle)
  obtain v u where e: "e = (v, u)" by fastforce
  let ?m = "bury n ttl v u now m"
  have "length ?m \<le> Suc (length m)" by (rule bury_facts(5) [OF Cons.prems(1)])
  moreover have "map_of ?m k = Some t"
    using Cons.prems e by (intro bury_keeps) auto
  ultimately show ?case
    using Cons.IH [of ?m] Cons.prems bury_facts(1) [OF Cons.prems(1)] by (simp add: e bury_all_Cons)
qed

lemma bury_all_guard:
  "hm_ok m \<Longrightarrow> length m + length idle \<le> n \<Longrightarrow> distinct (map fst idle) \<Longrightarrow> (k, w) \<in> set idle \<Longrightarrow>
    now < sat_add now ttl \<Longrightarrow>
    map_of (bury_all n ttl now idle m) k = Some \<lparr>dt_watermark = w, dt_expires_at_ms = sat_add now ttl\<rparr>"
proof (induction idle arbitrary: m)
  case Nil
  then show ?case by simp
next
  case (Cons e idle)
  obtain v u where e: "e = (v, u)" by fastforce
  let ?m = "bury n ttl v u now m"
  have len: "length ?m + length idle \<le> n"
    using bury_facts(5) [OF Cons.prems(1), of n ttl v u now] Cons.prems(2) by simp
  have ok: "hm_ok ?m" by (rule bury_facts(1) [OF Cons.prems(1)])
  show ?case
  proof (cases "(k, w) = (v, u)")
    case True
    then show ?thesis
      using bury_all_keeps [OF ok len, of k now] bury_facts(2) [OF Cons.prems(1)] Cons.prems e
      by (simp add: bury_all_Cons)
  next
    case False
    then show ?thesis using Cons.IH [OF ok len] Cons.prems e by (auto simp: bury_all_Cons)
  qed
qed

end
