(* ===== verification/Dedup.thy ===== *)
theory Dedup
  imports Tombstones
begin

text \<open>
  The duplicate suppressor of \<open>crates/sg-multipath/src/v2/dedup.rs\<close>: a table of flows with
  the packet identifiers each has accepted, and a table of tombstones holding the highest
  identifier of every flow that was removed. Both are \<open>HashMap\<close>s, so a step of the
  component may also permute them: what an operation does must not be read off the order of
  the lists. A \<open>BTreeSet\<close> of identifiers is a strictly increasing list.
\<close>

section \<open>Data\<close>

record dedup_limits =
  dl_max_flows :: nat
  dl_max_packets_per_flow :: nat
  dl_flow_idle_ttl_ms :: u64
  dl_max_tombstones :: nat
  dl_tombstone_ttl_ms :: u64

definition dedup_default_limits :: dedup_limits where
  "dedup_default_limits = \<lparr>dl_max_flows = 256, dl_max_packets_per_flow = 512,
     dl_flow_idle_ttl_ms = 30000, dl_max_tombstones = 256, dl_tombstone_ttl_ms = 60000\<rparr>"

datatype dedup_error = DedupInvalidLimits

definition dedup_validate :: "dedup_limits \<Rightarrow> dedup_error + unit" where
  "dedup_validate l =
     (if dl_max_flows l = 0 \<or> dl_max_packets_per_flow l = 0 \<or> dl_flow_idle_ttl_ms l = 0
         \<or> dl_max_tombstones l = 0 \<or> dl_tombstone_ttl_ms l = 0
      then Inl DedupInvalidLimits else Inr ())"

datatype dedup_outcome = New | Duplicate

fun is_duplicate :: "dedup_outcome \<Rightarrow> bool" where
  "is_duplicate Duplicate = True"
| "is_duplicate New = False"

record dedup_metrics =
  dm_flows :: nat
  dm_tombstones :: nat
  dm_packets_seen :: u64
  dm_duplicates_dropped :: u64
  dm_tombstone_hits :: u64
  dm_packets_evicted_capacity :: u64
  dm_flows_evicted_capacity :: u64
  dm_flows_expired_idle :: u64
  dm_tombstones_evicted_capacity :: u64
  dm_tombstones_expired :: u64

record flow_dedup =
  fd_seen :: "u64 list"
  fd_last_activity_ms :: u64

record session_dedup =
  sd_limits :: dedup_limits
  sd_flows :: "(receive_key \<times> flow_dedup) list"
  sd_tombstones :: tombstones
  sd_metrics :: dedup_metrics

section \<open>Operations\<close>

definition dedup_metrics_zero :: dedup_metrics where
  "dedup_metrics_zero = \<lparr>dm_flows = 0, dm_tombstones = 0, dm_packets_seen = 0,
     dm_duplicates_dropped = 0, dm_tombstone_hits = 0, dm_packets_evicted_capacity = 0,
     dm_flows_evicted_capacity = 0, dm_flows_expired_idle = 0,
     dm_tombstones_evicted_capacity = 0, dm_tombstones_expired = 0\<rparr>"

definition dedup_new :: "dedup_limits \<Rightarrow> dedup_error + session_dedup" where
  "dedup_new l = rbind (dedup_validate l) (\<lambda>_.
     Inr \<lparr>sd_limits = l, sd_flows = [], sd_tombstones = [], sd_metrics = dedup_metrics_zero\<rparr>)"

abbreviation on_metrics :: "(dedup_metrics \<Rightarrow> dedup_metrics) \<Rightarrow> session_dedup \<Rightarrow> session_dedup" where
  "on_metrics \<equiv> sd_metrics_update"

definition refresh_counts :: "session_dedup \<Rightarrow> session_dedup" where
  "refresh_counts s = on_metrics (\<lambda>m. m\<lparr>dm_flows := length (sd_flows s),
     dm_tombstones := length (sd_tombstones s)\<rparr>) s"

definition purge_expired_tombstones :: "u64 \<Rightarrow> session_dedup \<Rightarrow> session_dedup" where
  "purge_expired_tombstones now s =
     (let before = length (sd_tombstones s);
          kept = kt_retain (\<lambda>t. now < dt_expires_at_ms t) (sd_tombstones s);
          reaped = before - length kept
      in refresh_counts (on_metrics
           (dm_tombstones_expired_update (\<lambda>n. sat_add n (word_of_nat reaped)))
           (s\<lparr>sd_tombstones := kept\<rparr>)))"

definition insert_tombstone :: "receive_key \<Rightarrow> u64 \<Rightarrow> u64 \<Rightarrow> session_dedup \<Rightarrow> session_dedup" where
  "insert_tombstone key watermark now s =
     (let s = purge_expired_tombstones now s;
          s = (if dl_max_tombstones (sd_limits s) \<le> length (sd_tombstones s) then
                 (case oldest_tombstone (sd_tombstones s) of
                   Some oldest \<Rightarrow> on_metrics (dm_tombstones_evicted_capacity_update sat_inc)
                     (s\<lparr>sd_tombstones := kt_remove oldest (sd_tombstones s)\<rparr>)
                 | None \<Rightarrow> s)
               else s)
      in refresh_counts (s\<lparr>sd_tombstones := hm_insert key
           \<lparr>dt_watermark = watermark,
            dt_expires_at_ms = sat_add now (dl_tombstone_ttl_ms (sd_limits s))\<rparr>
           (sd_tombstones s)\<rparr>))"

text \<open>\<open>seen.iter().next_back().copied().unwrap_or(0)\<close>.\<close>

definition flow_watermark :: "flow_dedup \<Rightarrow> u64" where
  "flow_watermark f = (case fd_seen f of [] \<Rightarrow> 0 | _ \<Rightarrow> last (fd_seen f))"

definition evict_oldest_flow :: "u64 \<Rightarrow> session_dedup \<Rightarrow> session_dedup" where
  "evict_oldest_flow now s =
     refresh_counts
      (case first_min (\<lambda>(k, f). fd_last_activity_ms f) (sd_flows s) of
         Some (key, f) \<Rightarrow>
           insert_tombstone key (flow_watermark f) now
             (on_metrics (dm_flows_evicted_capacity_update sat_inc)
               (s\<lparr>sd_flows := kt_remove key (sd_flows s)\<rparr>))
       | None \<Rightarrow> s)"

definition observe_known ::
  "session_dedup \<Rightarrow> receive_key \<Rightarrow> flow_dedup \<Rightarrow> u64 \<Rightarrow> u64 \<Rightarrow> session_dedup \<times> dedup_outcome" where
  "observe_known s key flow pid now =
     (let put = (\<lambda>seen. s\<lparr>sd_flows := hm_insert key
            \<lparr>fd_seen = seen, fd_last_activity_ms = now\<rparr> (sd_flows s)\<rparr>)
      in if pid \<in> set (fd_seen flow)
         then (on_metrics (dm_duplicates_dropped_update sat_inc) (put (fd_seen flow)), Duplicate)
         else
           let (kept, evict) =
             (if dl_max_packets_per_flow (sd_limits s) \<le> length (fd_seen flow)
              then (case fd_seen flow of
                      smallest # rest \<Rightarrow> (rest, dm_packets_evicted_capacity_update sat_inc)
                    | [] \<Rightarrow> ([], id))
              else (fd_seen flow, id))
           in (on_metrics (dm_packets_seen_update sat_inc \<circ> evict) (put (insort_insert pid kept)), New))"

definition observe_new :: "session_dedup \<Rightarrow> receive_key \<Rightarrow> u64 \<Rightarrow> u64 \<Rightarrow> session_dedup \<times> dedup_outcome" where
  "observe_new s key pid now =
     (let s = (if dl_max_flows (sd_limits s) \<le> length (sd_flows s)
               then evict_oldest_flow now s else s)
      in (refresh_counts (on_metrics (dm_packets_seen_update sat_inc)
            (s\<lparr>sd_flows := hm_insert key \<lparr>fd_seen = [pid], fd_last_activity_ms = now\<rparr>
                 (sd_flows s)\<rparr>)), New))"

definition observe ::
  "session_dedup \<Rightarrow> receive_key \<Rightarrow> packet_id \<Rightarrow> u64 \<Rightarrow> session_dedup \<times> dedup_outcome" where
  "observe s key pid now =
     (case map_of (sd_flows s) key of
        Some flow \<Rightarrow> observe_known s key flow pid now
      | None \<Rightarrow>
          (case map_of (sd_tombstones s) key of
             None \<Rightarrow> observe_new s key pid now
           | Some t \<Rightarrow>
               if dt_expires_at_ms t \<le> now
               then observe_new (on_metrics (dm_tombstones_expired_update sat_inc)
                      (s\<lparr>sd_tombstones := kt_remove key (sd_tombstones s)\<rparr>)) key pid now
               else if pid \<le> dt_watermark t
               then (on_metrics (dm_tombstone_hits_update sat_inc \<circ> dm_duplicates_dropped_update sat_inc) s,
                     Duplicate)
               else observe_new (s\<lparr>sd_tombstones := kt_remove key (sd_tombstones s)\<rparr>) key pid now))"

definition expire_flow :: "u64 \<Rightarrow> receive_key \<times> u64 \<Rightarrow> session_dedup \<Rightarrow> session_dedup" where
  "expire_flow now = (\<lambda>(key, watermark) s.
     insert_tombstone key watermark now (s\<lparr>sd_flows := kt_remove key (sd_flows s)\<rparr>))"

definition idle_flows :: "u64 \<Rightarrow> session_dedup \<Rightarrow> (receive_key \<times> u64) list" where
  "idle_flows now s =
     map (\<lambda>(k, f). (k, flow_watermark f))
       (filter (\<lambda>(k, f). dl_flow_idle_ttl_ms (sd_limits s) \<le> sat_sub now (fd_last_activity_ms f))
         (sd_flows s))"

definition dedup_expire :: "session_dedup \<Rightarrow> u64 \<Rightarrow> session_dedup \<times> nat" where
  "dedup_expire s now =
     (let s = purge_expired_tombstones now s;
          idle = idle_flows now s;
          expired = length idle;
          s = fold (expire_flow now) idle s
      in (refresh_counts (on_metrics
            (dm_flows_expired_idle_update (\<lambda>n. sat_add n (word_of_nat expired))) s), expired))"

definition dedup_metrics_of :: "session_dedup \<Rightarrow> dedup_metrics" where
  "dedup_metrics_of s = (sd_metrics s)\<lparr>dm_flows := length (sd_flows s),
     dm_tombstones := length (sd_tombstones s)\<rparr>"

text \<open>The tables in another iteration order.\<close>

definition same_tables :: "session_dedup \<Rightarrow> session_dedup \<Rightarrow> bool" where
  "same_tables s s' \<longleftrightarrow>
     (\<exists>fs ts. s' = s\<lparr>sd_flows := fs, sd_tombstones := ts\<rparr> \<and>
        mset fs = mset (sd_flows s) \<and> mset ts = mset (sd_tombstones s))"

section \<open>What each operation does to the tables\<close>

text \<open>Bookkeeping touches only the counters.\<close>

lemma refresh_counts_fields [simp]:
  "sd_limits (refresh_counts s) = sd_limits s" "sd_flows (refresh_counts s) = sd_flows s"
  "sd_tombstones (refresh_counts s) = sd_tombstones s"
  by (simp_all add: refresh_counts_def)

lemma purge_fields [simp]:
  "sd_limits (purge_expired_tombstones now s) = sd_limits s"
  "sd_flows (purge_expired_tombstones now s) = sd_flows s"
  "sd_tombstones (purge_expired_tombstones now s) =
     kt_retain (\<lambda>t. now < dt_expires_at_ms t) (sd_tombstones s)"
  by (simp_all add: purge_expired_tombstones_def Let_def)

lemma insert_tombstone_other [simp]:
  "sd_limits (insert_tombstone k w now s) = sd_limits s"
  "sd_flows (insert_tombstone k w now s) = sd_flows s"
  by (simp_all add: insert_tombstone_def Let_def split: option.splits)

lemma insert_tombstone_table:
  "sd_tombstones (insert_tombstone k w now s) =
     bury (dl_max_tombstones (sd_limits s)) (dl_tombstone_ttl_ms (sd_limits s)) k w now (sd_tombstones s)"
  by (simp add: insert_tombstone_def bury_def live_tombstones_def tombstone_room_def Let_def
      split: option.splits)

lemma insert_tombstone_facts:
  assumes "hm_ok (sd_tombstones s)" and "s' = insert_tombstone k w now s"
  shows "hm_ok (sd_tombstones s')"
    and "map_of (sd_tombstones s') k = Some \<lparr>dt_watermark = w,
      dt_expires_at_ms = sat_add now (dl_tombstone_ttl_ms (sd_limits s))\<rparr>"
    and "keys (sd_tombstones s') \<subseteq> insert k (keys (sd_tombstones s))"
    and "length (sd_tombstones s) \<le> dl_max_tombstones (sd_limits s) \<Longrightarrow>
      0 < dl_max_tombstones (sd_limits s) \<Longrightarrow>
      length (sd_tombstones s') \<le> dl_max_tombstones (sd_limits s)"
  using bury_facts [OF assms(1)] by (simp_all add: assms(2) insert_tombstone_table)

section \<open>The invariant\<close>

definition flow_ok :: "nat \<Rightarrow> flow_dedup \<Rightarrow> bool" where
  "flow_ok n f \<longleftrightarrow> sorted (fd_seen f) \<and> distinct (fd_seen f) \<and> fd_seen f \<noteq> [] \<and>
     length (fd_seen f) \<le> n"

definition dedup_ok :: "session_dedup \<Rightarrow> bool" where
  "dedup_ok s \<longleftrightarrow>
     dedup_validate (sd_limits s) = Inr () \<and> hm_ok (sd_flows s) \<and> hm_ok (sd_tombstones s) \<and>
     length (sd_flows s) \<le> dl_max_flows (sd_limits s) \<and>
     length (sd_tombstones s) \<le> dl_max_tombstones (sd_limits s) \<and>
     (\<forall>(k, f) \<in> set (sd_flows s). flow_ok (dl_max_packets_per_flow (sd_limits s)) f) \<and>
     keys (sd_flows s) \<inter> keys (sd_tombstones s) = {}"

lemma validate_pos:
  "dedup_validate l = Inr () \<Longrightarrow> 0 < dl_max_flows l \<and> 0 < dl_max_packets_per_flow l \<and>
     0 < dl_max_tombstones l"
  by (simp add: dedup_validate_def split: if_splits)

lemma dedup_ok_metrics [simp]:
  "dedup_ok (on_metrics g s) = dedup_ok s" "dedup_ok (refresh_counts s) = dedup_ok s"
  by (simp_all add: dedup_ok_def)

text \<open>Dropping tombstones, and turning a flow into a tombstone.\<close>

lemma dedup_ok_drop_tombstones:
  "dedup_ok s \<Longrightarrow> dedup_ok (s\<lparr>sd_tombstones := filter P (sd_tombstones s)\<rparr>)"
  by (auto simp: dedup_ok_def hm.ok_filter intro: order_trans [OF length_filter_le])

lemma dedup_ok_purge: "dedup_ok s \<Longrightarrow> dedup_ok (purge_expired_tombstones now s)"
  unfolding purge_expired_tombstones_def Let_def
  by (simp add: kt_retain_def dedup_ok_drop_tombstones)

lemma dedup_ok_retire:
  assumes "dedup_ok s"
  shows "dedup_ok (insert_tombstone k w now (s\<lparr>sd_flows := kt_remove k (sd_flows s)\<rparr>))"
proof -
  let ?s = "s\<lparr>sd_flows := kt_remove k (sd_flows s)\<rparr>"
  have "hm_ok (sd_tombstones ?s)" using assms by (simp add: dedup_ok_def)
  note t = insert_tombstone_facts [OF this refl, of k w now]
  have "0 < dl_max_tombstones (sd_limits s)"
    using assms validate_pos by (auto simp: dedup_ok_def)
  with assms t show ?thesis
    by (auto simp: dedup_ok_def hm.ok_remove set_kt_remove
        intro: order_trans [OF length_kt_remove_le])
qed

text \<open>Eviction retires the least recently active flow and leaves room for one more.\<close>

lemma evict_oldest_flow_eq:
  assumes "sd_flows s \<noteq> []"
  obtains k f where "(k, f) \<in> set (sd_flows s)"
    and "\<forall>(k', f') \<in> set (sd_flows s). fd_last_activity_ms f \<le> fd_last_activity_ms f'"
    and "sd_limits (evict_oldest_flow now s) = sd_limits s"
    and "sd_flows (evict_oldest_flow now s) = kt_remove k (sd_flows s)"
    and "sd_tombstones (evict_oldest_flow now s) =
      sd_tombstones (insert_tombstone k (flow_watermark f) now
        (s\<lparr>sd_flows := kt_remove k (sd_flows s)\<rparr>))"
proof -
  obtain k f where m: "first_min (\<lambda>(k, f). fd_last_activity_ms f) (sd_flows s) = Some (k, f)"
    using assms first_min_None [of _ "sd_flows s"] by (metis not_None_eq surj_pair)
  show ?thesis
  proof (rule that [of k f])
    show "\<forall>(k', f') \<in> set (sd_flows s). fd_last_activity_ms f \<le> fd_last_activity_ms f'"
      using first_min_Some [OF m] by fastforce
  qed (use first_min_Some [OF m] m in
    \<open>simp_all add: evict_oldest_flow_def insert_tombstone_table\<close>)
qed

lemma dedup_ok_tables:
  "dedup_ok s \<Longrightarrow> sd_limits s' = sd_limits s \<Longrightarrow> sd_flows s' = sd_flows s \<Longrightarrow>
    sd_tombstones s' = sd_tombstones s \<Longrightarrow> dedup_ok s'"
  by (simp add: dedup_ok_def)

lemma dedup_ok_evict:
  assumes s: "dedup_ok s"
  shows "dedup_ok (evict_oldest_flow now s)"
proof (cases "sd_flows s = []")
  case True
  with s show ?thesis by (simp add: evict_oldest_flow_def)
next
  case False
  then obtain k f where "sd_limits (evict_oldest_flow now s) = sd_limits s"
    "sd_flows (evict_oldest_flow now s) = kt_remove k (sd_flows s)"
    "sd_tombstones (evict_oldest_flow now s) =
      sd_tombstones (insert_tombstone k (flow_watermark f) now
        (s\<lparr>sd_flows := kt_remove k (sd_flows s)\<rparr>))"
    by (rule evict_oldest_flow_eq)
  with dedup_ok_retire [OF s, of k "flow_watermark f" now] show ?thesis
    by (auto intro: dedup_ok_tables)
qed

lemma length_evict:
  "dedup_ok s \<Longrightarrow> dl_max_flows (sd_limits s) \<le> length (sd_flows s) \<Longrightarrow>
    length (sd_flows (evict_oldest_flow now s)) < dl_max_flows (sd_limits s)"
proof -
  assume s: "dedup_ok s" and full: "dl_max_flows (sd_limits s) \<le> length (sd_flows s)"
  then have "sd_flows s \<noteq> []" using validate_pos by (fastforce simp: dedup_ok_def)
  then obtain k f where "(k, f) \<in> set (sd_flows s)"
    and "sd_flows (evict_oldest_flow now s) = kt_remove k (sd_flows s)"
    by (rule evict_oldest_flow_eq)
  moreover from this have "k \<in> keys (sd_flows s)" by force
  ultimately have "length (sd_flows (evict_oldest_flow now s)) < length (sd_flows s)"
    by (metis length_kt_remove_less)
  with s show ?thesis by (simp add: dedup_ok_def)
qed

lemma evict_tables_subset:
  assumes "dedup_ok s"
  shows "keys (sd_flows (evict_oldest_flow now s)) \<subseteq> keys (sd_flows s)"
    and "keys (sd_tombstones (evict_oldest_flow now s)) \<subseteq>
      keys (sd_flows s) \<union> keys (sd_tombstones s)"
proof -
  have "keys (sd_flows (evict_oldest_flow now s)) \<subseteq> keys (sd_flows s) \<and>
    keys (sd_tombstones (evict_oldest_flow now s)) \<subseteq> keys (sd_flows s) \<union> keys (sd_tombstones s)"
  proof (cases "sd_flows s = []")
    case False
    then obtain k f where k: "(k, f) \<in> set (sd_flows s)"
      and e: "sd_flows (evict_oldest_flow now s) = kt_remove k (sd_flows s)"
        "sd_tombstones (evict_oldest_flow now s) =
          sd_tombstones (insert_tombstone k (flow_watermark f) now
            (s\<lparr>sd_flows := kt_remove k (sd_flows s)\<rparr>))"
      by (rule evict_oldest_flow_eq)
    have "hm_ok (sd_tombstones (s\<lparr>sd_flows := kt_remove k (sd_flows s)\<rparr>))"
      using assms by (simp add: dedup_ok_def)
    from insert_tombstone_facts(3) [OF this refl, of k "flow_watermark f" now] k e
    show ?thesis by (force simp: set_kt_remove)
  qed (simp add: evict_oldest_flow_def)
  then show "keys (sd_flows (evict_oldest_flow now s)) \<subseteq> keys (sd_flows s)"
    and "keys (sd_tombstones (evict_oldest_flow now s)) \<subseteq>
      keys (sd_flows s) \<union> keys (sd_tombstones s)" by auto
qed

text \<open>An accepted identifier.\<close>

definition flow_accept :: "nat \<Rightarrow> u64 \<Rightarrow> u64 list \<Rightarrow> u64 list" where
  "flow_accept n pid seen = insort_insert pid (if n \<le> length seen then tl seen else seen)"

lemma observe_known_eq:
  "observe_known s k f pid now =
     (if pid \<in> set (fd_seen f)
      then (on_metrics (dm_duplicates_dropped_update sat_inc)
              (s\<lparr>sd_flows := hm_insert k (f\<lparr>fd_last_activity_ms := now\<rparr>) (sd_flows s)\<rparr>), Duplicate)
      else (fst (observe_known s k f pid now), New))"
  "pid \<notin> set (fd_seen f) \<Longrightarrow> sd_flows (fst (observe_known s k f pid now)) =
     hm_insert k \<lparr>fd_seen = flow_accept (dl_max_packets_per_flow (sd_limits s)) pid (fd_seen f),
       fd_last_activity_ms = now\<rparr> (sd_flows s)"
  "sd_limits (fst (observe_known s k f pid now)) = sd_limits s"
  "sd_tombstones (fst (observe_known s k f pid now)) = sd_tombstones s"
  by (cases f; auto simp: observe_known_def flow_accept_def Let_def split: list.splits prod.splits)+

lemma keys_observe_known:
  "hm_ok (sd_flows s) \<Longrightarrow>
    keys (sd_flows (fst (observe_known s k f pid now))) = insert k (keys (sd_flows s))"
  by (cases "pid \<in> set (fd_seen f)")
    (simp add: observe_known_eq(1) hm.keys_ins, simp add: observe_known_eq(2) hm.keys_ins)

lemma flow_accept_ok:
  assumes "sorted seen" "distinct seen" "length seen \<le> n" "0 < n"
  shows "sorted (flow_accept n pid seen)" and "distinct (flow_accept n pid seen)"
    and "flow_accept n pid seen \<noteq> []" and "length (flow_accept n pid seen) \<le> n"
    and "set (flow_accept n pid seen) = insert pid (set (if n \<le> length seen then tl seen else seen))"
proof -
  let ?k = "if n \<le> length seen then tl seen else seen"
  have k: "sorted ?k" "distinct ?k" "length ?k < n"
    using assms by (auto intro: sorted_tl distinct_tl)
  then show "sorted (flow_accept n pid seen)" "distinct (flow_accept n pid seen)"
    "set (flow_accept n pid seen) = insert pid (set ?k)"
    by (simp_all add: flow_accept_def sorted_insort_insert distinct_insort_insert set_insort_insert)
  then show "flow_accept n pid seen \<noteq> []" by auto
  show "length (flow_accept n pid seen) \<le> n"
    using k by (simp add: flow_accept_def insort_insert_key_def)
qed

lemma dedup_ok_put:
  assumes s: "dedup_ok s" and f: "flow_ok (dl_max_packets_per_flow (sd_limits s)) f"
    and k: "k \<in> keys (sd_flows s) \<or> k \<notin> keys (sd_tombstones s) \<and>
      length (sd_flows s) < dl_max_flows (sd_limits s)"
  shows "dedup_ok (s\<lparr>sd_flows := hm_insert k f (sd_flows s)\<rparr>)"
proof -
  have ok: "hm_ok (sd_flows s)" using s by (simp add: dedup_ok_def)
  have "length (hm_insert k f (sd_flows s)) \<le> dl_max_flows (sd_limits s)"
    using s k by (auto simp: hm.length_ins [OF ok] dedup_ok_def)
  with s f k ok show ?thesis
    by (auto simp: dedup_ok_def hm.ok_ins hm.set_ins [OF ok] hm.keys_ins [OF ok])
qed

lemma flow_ok_singleton: "0 < n \<Longrightarrow> flow_ok n \<lparr>fd_seen = [pid], fd_last_activity_ms = now\<rparr>"
  by (simp add: flow_ok_def)

lemma observe_new_tables:
  "sd_limits (fst (observe_new s k pid now)) = sd_limits (if dl_max_flows (sd_limits s) \<le> length (sd_flows s)
     then evict_oldest_flow now s else s)"
  "sd_flows (fst (observe_new s k pid now)) = hm_insert k \<lparr>fd_seen = [pid], fd_last_activity_ms = now\<rparr>
     (sd_flows (if dl_max_flows (sd_limits s) \<le> length (sd_flows s)
        then evict_oldest_flow now s else s))"
  "sd_tombstones (fst (observe_new s k pid now)) = sd_tombstones
     (if dl_max_flows (sd_limits s) \<le> length (sd_flows s) then evict_oldest_flow now s else s)"
  "snd (observe_new s k pid now) = New"
  by (simp_all add: observe_new_def Let_def)

lemma dedup_ok_observe_new:
  assumes s: "dedup_ok s" and k: "k \<notin> keys (sd_flows s)" "k \<notin> keys (sd_tombstones s)"
  shows "dedup_ok (fst (observe_new s k pid now))"
proof -
  let ?s = "if dl_max_flows (sd_limits s) \<le> length (sd_flows s) then evict_oldest_flow now s else s"
  have ok: "dedup_ok ?s" using s by (simp add: dedup_ok_evict)
  have "length (sd_flows ?s) < dl_max_flows (sd_limits ?s)"
  proof (cases "dl_max_flows (sd_limits s) \<le> length (sd_flows s)")
    case True
    then have "sd_flows s \<noteq> []" using validate_pos s by (fastforce simp: dedup_ok_def)
    then have "sd_limits (evict_oldest_flow now s) = sd_limits s" by (rule evict_oldest_flow_eq)
    with True length_evict [OF s True] show ?thesis by simp
  qed simp
  moreover have "k \<notin> keys (sd_tombstones ?s)"
    using k evict_tables_subset(2) [OF s, of now] by auto
  moreover have "0 < dl_max_packets_per_flow (sd_limits ?s)"
    using ok validate_pos by (auto simp: dedup_ok_def)
  ultimately have "dedup_ok (?s\<lparr>sd_flows := hm_insert k
      \<lparr>fd_seen = [pid], fd_last_activity_ms = now\<rparr> (sd_flows ?s)\<rparr>)"
    by (intro dedup_ok_put [OF ok flow_ok_singleton]) auto
  then show ?thesis
    by (rule dedup_ok_tables) (simp_all add: observe_new_tables)
qed

lemma dedup_ok_observe_known:
  assumes s: "dedup_ok s" and f: "map_of (sd_flows s) k = Some f"
  shows "dedup_ok (fst (observe_known s k f pid now))"
proof -
  have kf: "(k, f) \<in> set (sd_flows s)" using f by (rule map_of_SomeD)
  then have k: "k \<in> keys (sd_flows s)" by force
  have fo: "flow_ok (dl_max_packets_per_flow (sd_limits s)) f" using s kf by (auto simp: dedup_ok_def)
  have pos: "0 < dl_max_packets_per_flow (sd_limits s)"
    using s validate_pos by (auto simp: dedup_ok_def)
  show ?thesis
  proof (cases "pid \<in> set (fd_seen f)")
    case True
    from fo have "flow_ok (dl_max_packets_per_flow (sd_limits s)) (f\<lparr>fd_last_activity_ms := now\<rparr>)"
      by (simp add: flow_ok_def)
    from dedup_ok_put [OF s this] k True show ?thesis by (simp add: observe_known_eq(1))
  next
    case False
    have "flow_ok (dl_max_packets_per_flow (sd_limits s))
        \<lparr>fd_seen = flow_accept (dl_max_packets_per_flow (sd_limits s)) pid (fd_seen f),
         fd_last_activity_ms = now\<rparr>"
      using flow_accept_ok [of "fd_seen f", OF _ _ _ pos] fo by (simp add: flow_ok_def)
    from dedup_ok_put [OF s this disjI1 [OF k]] show ?thesis
      by (rule dedup_ok_tables) (simp_all add: observe_known_eq(2-) False)
  qed
qed

lemma dedup_ok_observe:
  assumes s: "dedup_ok s"
  shows "dedup_ok (fst (observe s k pid now))"
proof (cases "map_of (sd_flows s) k")
  case (Some f)
  with dedup_ok_observe_known [OF s Some] show ?thesis by (simp add: observe_def)
next
  case None
  then have k: "k \<notin> keys (sd_flows s)" by (simp add: map_of_eq_None_iff)
  have drop: "dedup_ok (s\<lparr>sd_tombstones := kt_remove k (sd_tombstones s)\<rparr>)"
    unfolding kt_remove_def by (rule dedup_ok_drop_tombstones [OF s])
  have "dedup_ok (fst (observe_new (s\<lparr>sd_tombstones := kt_remove k (sd_tombstones s)\<rparr>) k pid now))"
    and "dedup_ok (fst (observe_new (on_metrics g
      (s\<lparr>sd_tombstones := kt_remove k (sd_tombstones s)\<rparr>)) k pid now))" for g
    using drop k by (auto intro!: dedup_ok_observe_new simp: set_kt_remove)
  moreover have "dedup_ok (fst (observe_new s k pid now))" if "map_of (sd_tombstones s) k = None"
    using that k by (intro dedup_ok_observe_new [OF s]) (simp_all add: map_of_eq_None_iff)
  ultimately show ?thesis
    using None s by (simp add: observe_def split: option.splits)
qed

lemma dedup_ok_expire_flows:
  "dedup_ok s \<Longrightarrow> dedup_ok (fold (expire_flow now) idle s)"
  by (induction idle arbitrary: s) (auto simp: expire_flow_def intro: dedup_ok_retire)

lemma dedup_ok_expire: "dedup_ok s \<Longrightarrow> dedup_ok (fst (dedup_expire s now))"
  by (simp add: dedup_expire_def Let_def dedup_ok_expire_flows dedup_ok_purge)

lemma dedup_ok_same_tables:
  assumes "dedup_ok s" and "same_tables s s'"
  shows "dedup_ok s'"
proof -
  obtain fs ts where s': "s' = s\<lparr>sd_flows := fs, sd_tombstones := ts\<rparr>"
    and m: "mset fs = mset (sd_flows s)" "mset ts = mset (sd_tombstones s)"
    using assms(2) by (auto simp: same_tables_def)
  have "hm_ok fs \<longleftrightarrow> hm_ok (sd_flows s)" "hm_ok ts \<longleftrightarrow> hm_ok (sd_tombstones s)"
    unfolding hm_ok_def by (intro mset_eq_imp_distinct_iff; simp add: m)+
  with assms(1) m [THEN mset_eq_setD] m [THEN mset_eq_length] show ?thesis
    by (simp add: s' dedup_ok_def)
qed

lemma dedup_ok_new: "dedup_new l = Inr s \<Longrightarrow> dedup_ok s"
  by (auto simp: dedup_new_def rbind_Inr dedup_ok_def hm.ok_Nil)

inductive dedup_step :: "session_dedup \<Rightarrow> session_dedup \<Rightarrow> bool" where
  "observe s k pid now = (s', r) \<Longrightarrow> dedup_step s s'"
| "dedup_expire s now = (s', n) \<Longrightarrow> dedup_step s s'"
| "same_tables s s' \<Longrightarrow> dedup_step s s'"

inductive dedup_reachable :: "session_dedup \<Rightarrow> bool" where
  "dedup_new l = Inr s \<Longrightarrow> dedup_reachable s"
| "dedup_reachable s \<Longrightarrow> dedup_step s s' \<Longrightarrow> dedup_reachable s'"

inductive_cases dedup_stepE: "dedup_step s s'"

lemma dedup_ok_step: "dedup_step s s' \<Longrightarrow> dedup_ok s \<Longrightarrow> dedup_ok s'"
  by (erule dedup_stepE)
    (metis dedup_ok_observe fst_conv, metis dedup_ok_expire fst_conv, metis dedup_ok_same_tables)

lemma dedup_reachable_ok: "dedup_reachable s \<Longrightarrow> dedup_ok s"
  by (induction rule: dedup_reachable.induct) (auto intro: dedup_ok_new dedup_ok_step)

end
