(* ===== verification/DedupProps.thy ===== *)
theory DedupProps
  imports Dedup
begin

text \<open>
  What the duplicate suppressor promises: its bounds in every reachable state, that a
  retired flow is guarded by a tombstone answering replays, that within its capacities it
  answers like a filter that never forgets, and two limits of these promises.
\<close>

section \<open>Replays of retired flows\<close>

lemma flow_watermark_last: "fd_seen f \<noteq> [] \<Longrightarrow> flow_watermark f = last (fd_seen f)"
  by (simp add: flow_watermark_def split: list.splits)

lemma sorted_le_last: "sorted xs \<Longrightarrow> x \<in> set xs \<Longrightarrow> x \<le> last xs"
  by (cases xs rule: rev_cases) (auto simp: sorted_append)

lemma flow_watermark_max:
  "sorted (fd_seen f) \<Longrightarrow> pid \<in> set (fd_seen f) \<Longrightarrow> pid \<le> flow_watermark f"
  using flow_watermark_last [of f] sorted_le_last [of "fd_seen f" pid] by force

text \<open>A live tombstone answers every identifier up to its watermark.\<close>

definition guards :: "session_dedup \<Rightarrow> receive_key \<Rightarrow> u64 \<Rightarrow> u64 \<Rightarrow> bool" where
  "guards s k w until \<longleftrightarrow> k \<notin> keys (sd_flows s) \<and>
     map_of (sd_tombstones s) k = Some \<lparr>dt_watermark = w, dt_expires_at_ms = until\<rparr>"

lemma guards_observe:
  "guards s k w until \<Longrightarrow> pid \<le> w \<Longrightarrow> later < until \<Longrightarrow>
    snd (observe s k pid later) = Duplicate \<and>
    sd_flows (fst (observe s k pid later)) = sd_flows s \<and>
    sd_tombstones (fst (observe s k pid later)) = sd_tombstones s"
  by (auto simp: guards_def observe_def map_of_eq_None_iff [symmetric] not_le)

lemma evict_guards:
  assumes s: "dedup_ok s" and k: "(k, f) \<in> set (sd_flows s)"
    and gone: "k \<notin> keys (sd_flows (evict_oldest_flow now s))"
  shows "guards (evict_oldest_flow now s) k (flow_watermark f)
    (sat_add now (dl_tombstone_ttl_ms (sd_limits s)))"
proof -
  from k have "sd_flows s \<noteq> []" by auto
  then obtain v g where v: "(v, g) \<in> set (sd_flows s)"
    and e: "sd_flows (evict_oldest_flow now s) = kt_remove v (sd_flows s)"
      "sd_tombstones (evict_oldest_flow now s) =
        sd_tombstones (insert_tombstone v (flow_watermark g) now
          (s\<lparr>sd_flows := kt_remove v (sd_flows s)\<rparr>))"
    by (rule evict_oldest_flow_eq)
  from gone k e(1) have "v = k" by (force simp: set_kt_remove)
  with v k s have "g = f"
    by (metis dedup_ok_def hm_ok_def map_of_is_SomeI option.inject)
  have "hm_ok (sd_tombstones (s\<lparr>sd_flows := kt_remove v (sd_flows s)\<rparr>))"
    using s by (simp add: dedup_ok_def)
  from insert_tombstone_facts(2) [OF this refl, of v "flow_watermark g" now] e gone
  show ?thesis by (simp add: guards_def \<open>v = k\<close> \<open>g = f\<close>)
qed

lemma observe_absent:
  assumes s: "dedup_ok s" and k: "map_of (sd_flows s) k = None"
  shows "sd_flows (fst (observe s k pid now)) = sd_flows s \<or>
    (\<exists>u. dedup_ok u \<and> sd_flows u = sd_flows s \<and> sd_limits u = sd_limits s \<and>
       observe s k pid now = observe_new u k pid now)"
proof (cases "map_of (sd_tombstones s) k")
  case None
  with s k show ?thesis by (auto simp: observe_def)
next
  case (Some t)
  let ?u = "s\<lparr>sd_tombstones := kt_remove k (sd_tombstones s)\<rparr>"
  have u: "dedup_ok ?u"
    unfolding kt_remove_def by (rule dedup_ok_drop_tombstones [OF s])
  show ?thesis
  proof (cases "dt_expires_at_ms t \<le> now")
    case True
    with u k Some show ?thesis
      by (intro disjI2 exI [of _ "on_metrics (dm_tombstones_expired_update sat_inc) ?u"])
        (simp add: observe_def)
  next
    case False
    with u k Some show ?thesis
      by (cases "pid \<le> dt_watermark t") (auto simp: observe_def intro!: exI [of _ ?u])
  qed
qed

lemma observe_guards:
  assumes s: "dedup_ok s" and k: "(k, f) \<in> set (sd_flows s)"
    and obs: "observe s k' pid now = (s', r)" and gone: "k \<notin> keys (sd_flows s')"
  shows "guards s' k (flow_watermark f) (sat_add now (dl_tombstone_ttl_ms (sd_limits s)))"
proof (cases "map_of (sd_flows s) k'")
  case (Some g)
  then have "k' \<in> keys (sd_flows s)" by (force dest: map_of_SomeD)
  have "hm_ok (sd_flows s)" using s by (simp add: dedup_ok_def)
  then have "keys (sd_flows s') = insert k' (keys (sd_flows s))"
    using keys_observe_known [of s k' g pid now] obs Some by (simp add: observe_def)
  with k gone show ?thesis by force
next
  case None
  have new: "guards (fst (observe_new u k' pid now)) k (flow_watermark f)
      (sat_add now (dl_tombstone_ttl_ms (sd_limits s)))"
    if u: "dedup_ok u" "sd_flows u = sd_flows s" "sd_limits u = sd_limits s"
      and g: "k \<notin> keys (sd_flows (fst (observe_new u k' pid now)))" for u
  proof -
    let ?u = "if dl_max_flows (sd_limits u) \<le> length (sd_flows u) then evict_oldest_flow now u else u"
    have "dedup_ok ?u" using u(1) by (simp add: dedup_ok_evict)
    then have "hm_ok (sd_flows ?u)" by (simp only: dedup_ok_def)
    then have g: "k \<noteq> k'" "k \<notin> keys (sd_flows ?u)" using g
      by (auto simp: observe_new_tables hm.keys_ins)
    with k u have full: "?u = evict_oldest_flow now u" by force
    have "guards (evict_oldest_flow now u) k (flow_watermark f)
        (sat_add now (dl_tombstone_ttl_ms (sd_limits u)))"
      using evict_guards [OF u(1)] k u(2) g(2) full by simp
    with g full u(3) \<open>hm_ok (sd_flows ?u)\<close> show ?thesis
      by (simp add: guards_def observe_new_tables hm.keys_ins)
  qed
  from observe_absent [OF s None, of pid now] show ?thesis
  proof
    assume "sd_flows (fst (observe s k' pid now)) = sd_flows s"
    with obs k gone show ?thesis by force
  next
    assume "\<exists>u. dedup_ok u \<and> sd_flows u = sd_flows s \<and> sd_limits u = sd_limits s \<and>
      observe s k' pid now = observe_new u k' pid now"
    with new obs gone show ?thesis by (metis fst_conv)
  qed
qed

text \<open>Expiry keeps a guard for every flow it retires, as long as the tombstones have room.\<close>

lemma insert_tombstone_keeps:
  assumes "hm_ok (sd_tombstones s)" and "length (sd_tombstones s) < dl_max_tombstones (sd_limits s)"
    and "k \<noteq> v" and "now < dt_expires_at_ms t" and "map_of (sd_tombstones s) k = Some t"
  shows "map_of (sd_tombstones (insert_tombstone v w now s)) k = Some t"
  unfolding insert_tombstone_table by (rule bury_keeps [OF assms])

lemma length_insert_tombstone:
  "hm_ok (sd_tombstones s) \<Longrightarrow>
    length (sd_tombstones (insert_tombstone k w now s)) \<le> Suc (length (sd_tombstones s))"
  unfolding insert_tombstone_table by (rule bury_facts(5))

lemma expire_flows_keep:
  assumes "dedup_ok s" and "length (sd_tombstones s) + length idle \<le> dl_max_tombstones (sd_limits s)"
    and "k \<notin> keys idle" and "now < until" and "guards s k w until"
  shows "guards (fold (expire_flow now) idle s) k w until"
  using assms
proof (induction idle arbitrary: s)
  case Nil
  then show ?case by simp
next
  case (Cons e idle)
  obtain v u where e: "e = (v, u)" by fastforce
  let ?r = "s\<lparr>sd_flows := kt_remove v (sd_flows s)\<rparr>"
  let ?s = "insert_tombstone v u now ?r"
  have ok: "hm_ok (sd_tombstones ?r)" using Cons.prems(1) by (simp add: dedup_ok_def)
  have "length (sd_tombstones ?s) + length idle \<le> dl_max_tombstones (sd_limits ?s)"
    using length_insert_tombstone [OF ok, of v u now] Cons.prems(2) by simp
  moreover have "guards ?s k w until"
    using Cons.prems e insert_tombstone_keeps [OF ok, of k v now _ u]
    by (auto simp: guards_def set_kt_remove)
  ultimately show ?case
    using Cons.IH [of ?s] Cons.prems e dedup_ok_retire [OF Cons.prems(1), of v u now]
    by (simp add: expire_flow_def)
qed

lemma expire_flows_guard:
  assumes "dedup_ok s" and "length (sd_tombstones s) + length idle \<le> dl_max_tombstones (sd_limits s)"
    and "distinct (map fst idle)" and "(k, w) \<in> set idle"
    and "now < sat_add now (dl_tombstone_ttl_ms (sd_limits s))"
  shows "guards (fold (expire_flow now) idle s) k w
    (sat_add now (dl_tombstone_ttl_ms (sd_limits s)))"
  using assms
proof (induction idle arbitrary: s)
  case Nil
  then show ?case by simp
next
  case (Cons e idle)
  obtain v u where e: "e = (v, u)" by fastforce
  let ?r = "s\<lparr>sd_flows := kt_remove v (sd_flows s)\<rparr>"
  let ?s = "insert_tombstone v u now ?r"
  have ok: "hm_ok (sd_tombstones ?r)" using Cons.prems(1) by (simp add: dedup_ok_def)
  have s: "dedup_ok ?s" by (rule dedup_ok_retire [OF Cons.prems(1)])
  have len: "length (sd_tombstones ?s) + length idle \<le> dl_max_tombstones (sd_limits ?s)"
    using length_insert_tombstone [OF ok, of v u now] Cons.prems(2) by simp
  show ?case
  proof (cases "(k, w) = e")
    case True
    have "guards ?s v u (sat_add now (dl_tombstone_ttl_ms (sd_limits s)))"
      using insert_tombstone_facts(2) [OF ok refl, of v u now]
      by (auto simp: guards_def set_kt_remove)
    with expire_flows_keep [OF s len] Cons.prems e True show ?thesis
      by (simp add: expire_flow_def)
  next
    case False
    with Cons.IH [OF s len] Cons.prems e show ?thesis by (auto simp: expire_flow_def)
  qed
qed

lemma idle_flows_facts:
  assumes "hm_ok (sd_flows s)"
  shows "distinct (map fst (idle_flows now s))" and "length (idle_flows now s) \<le> length (sd_flows s)"
    and "(k, w) \<in> set (idle_flows now s) \<longleftrightarrow> (\<exists>f. (k, f) \<in> set (sd_flows s) \<and> w = flow_watermark f \<and>
      dl_flow_idle_ttl_ms (sd_limits s) \<le> sat_sub now (fd_last_activity_ms f))"
proof -
  have "map fst (idle_flows now s) = map fst (filter (\<lambda>(k, f). dl_flow_idle_ttl_ms (sd_limits s)
      \<le> sat_sub now (fd_last_activity_ms f)) (sd_flows s))"
    by (simp add: idle_flows_def case_prod_beta comp_def)
  with assms show "distinct (map fst (idle_flows now s))"
    by (simp add: hm_ok_def distinct_map_filter)
qed (auto simp: idle_flows_def)

lemma expire_flows_flows:
  "sd_flows (fold (expire_flow now) idle s) =
     filter (\<lambda>e. fst e \<notin> keys idle) (sd_flows s)"
proof (induction idle arbitrary: s)
  case Nil
  then show ?case by simp
next
  case (Cons e idle)
  obtain v u where "e = (v, u)" by fastforce
  with Cons show ?case
    by (auto simp: expire_flow_def kt_remove_def intro!: filter_cong)
qed

lemma expire_guards:
  assumes s: "dedup_ok s" and k: "(k, f) \<in> set (sd_flows s)"
    and ex: "dedup_expire s now = (s', n)" and gone: "k \<notin> keys (sd_flows s')"
    and room: "length (sd_tombstones s) + length (sd_flows s) \<le> dl_max_tombstones (sd_limits s)"
    and now: "now < sat_add now (dl_tombstone_ttl_ms (sd_limits s))"
  shows "guards s' k (flow_watermark f) (sat_add now (dl_tombstone_ttl_ms (sd_limits s)))"
proof -
  let ?p = "purge_expired_tombstones now s"
  let ?idle = "idle_flows now ?p"
  have p: "dedup_ok ?p" by (rule dedup_ok_purge [OF s])
  then have hm: "hm_ok (sd_flows ?p)" by (simp add: dedup_ok_def)
  note i = idle_flows_facts [OF hm]
  have flows: "sd_flows s' = filter (\<lambda>e. fst e \<notin> keys ?idle) (sd_flows s)"
    using ex by (auto simp: dedup_expire_def Let_def expire_flows_flows)
  have "k \<in> keys ?idle" using gone k flows by force
  then obtain w where w: "(k, w) \<in> set ?idle" by force
  with i(3) [of k w] obtain g where "(k, g) \<in> set (sd_flows s)" "w = flow_watermark g" by auto
  with k s have "w = flow_watermark f"
    by (metis dedup_ok_def hm_ok_def map_of_is_SomeI option.inject)
  moreover have "length (sd_tombstones ?p) + length ?idle \<le> dl_max_tombstones (sd_limits ?p)"
    using i(2) [of now] room length_kt_retain_le [of "\<lambda>t. now < dt_expires_at_ms t" "sd_tombstones s"] by simp
  from expire_flows_guard [OF p this i(1) w] now
  have "guards (fold (expire_flow now) ?idle ?p) k w
    (sat_add now (dl_tombstone_ttl_ms (sd_limits s)))" by simp
  ultimately show ?thesis
    using ex by (auto simp: dedup_expire_def Let_def guards_def)
qed

section \<open>Against the ideal duplicate filter\<close>

text \<open>The outcomes of a sequence of arrivals, and the outcomes of a filter that never forgets.\<close>

type_synonym arrival = "receive_key \<times> packet_id \<times> u64"

fun observe_all :: "session_dedup \<Rightarrow> arrival list \<Rightarrow> dedup_outcome list" where
  "observe_all s [] = []"
| "observe_all s ((k, pid, now) # xs) =
     (let (s', r) = observe s k pid now in r # observe_all s' xs)"

fun first_arrivals :: "(receive_key \<times> packet_id) set \<Rightarrow> arrival list \<Rightarrow> dedup_outcome list" where
  "first_arrivals H [] = []"
| "first_arrivals H ((k, pid, now) # xs) =
     (if (k, pid) \<in> H then Duplicate else New) # first_arrivals (insert (k, pid) H) xs"

definition tracks :: "session_dedup \<Rightarrow> (receive_key \<times> packet_id) set \<Rightarrow> bool" where
  "tracks s H \<longleftrightarrow> dedup_ok s \<and> sd_tombstones s = [] \<and> keys (sd_flows s) = fst ` H \<and>
     (\<forall>k f. map_of (sd_flows s) k = Some f \<longrightarrow> set (fd_seen f) = {p. (k, p) \<in> H})"

definition within :: "dedup_limits \<Rightarrow> (receive_key \<times> packet_id) set \<Rightarrow> bool" where
  "within l T \<longleftrightarrow> finite T \<and> card (fst ` T) \<le> dl_max_flows l \<and>
     (\<forall>k. card {p. (k, p) \<in> T} \<le> dl_max_packets_per_flow l)"

lemma finite_ids: "finite T \<Longrightarrow> finite {p. (k, p) \<in> T}"
  by (rule finite_subset [of _ "snd ` T"]) force+

lemma tracks_put:
  assumes "tracks s H" and "dedup_ok s'" and "sd_tombstones s' = []"
    and "sd_flows s' = hm_insert k g (sd_flows s)"
    and "set (fd_seen g) = {p. (k, p) \<in> insert (k, pid) H}"
  shows "tracks s' (insert (k, pid) H)"
proof -
  have ok: "hm_ok (sd_flows s)" using assms(1) by (simp add: tracks_def dedup_ok_def)
  have "set (fd_seen f) = {p. (j, p) \<in> insert (k, pid) H}"
    if f: "map_of (sd_flows s') j = Some f" for j f
  proof (cases "j = k")
    case True
    with f assms(4,5) show ?thesis by (simp add: hm.get_ins [OF ok])
  next
    case False
    with f assms(4) have "map_of (sd_flows s) j = Some f" by (simp add: hm.get_ins [OF ok])
    with assms(1) False show ?thesis by (auto simp: tracks_def)
  qed
  with assms(1-4) show ?thesis by (simp add: tracks_def hm.keys_ins [OF ok])
qed

lemma tracks_known:
  assumes tr: "tracks s H" and f: "map_of (sd_flows s) k = Some f"
    and T: "within (sd_limits s) T" "insert (k, pid) H \<subseteq> T"
  shows "snd (observe s k pid now) = (if (k, pid) \<in> H then Duplicate else New) \<and>
    sd_limits (fst (observe s k pid now)) = sd_limits s \<and>
    tracks (fst (observe s k pid now)) (insert (k, pid) H)"
proof -
  have ok: "dedup_ok s" and set: "set (fd_seen f) = {p. (k, p) \<in> H}" and ts: "sd_tombstones s = []"
    using tr f by (auto simp: tracks_def)
  have fo: "distinct (fd_seen f)"
    using ok map_of_SomeD [OF f] by (auto simp: dedup_ok_def flow_ok_def)
  have obs: "observe s k pid now = observe_known s k f pid now" using f by (simp add: observe_def)
  have ok': "dedup_ok (fst (observe_known s k f pid now))"
    using dedup_ok_observe [OF ok, of k pid now] obs by simp
  note put = tracks_put [OF tr ok']
  show ?thesis
  proof (cases "(k, pid) \<in> H")
    case True
    then have p: "pid \<in> set (fd_seen f)" by (simp add: set)
    then have "sd_flows (fst (observe_known s k f pid now)) =
        hm_insert k (f\<lparr>fd_last_activity_ms := now\<rparr>) (sd_flows s)"
      and "snd (observe_known s k f pid now) = Duplicate" by (simp_all add: observe_known_eq(1))
    moreover have "set (fd_seen (f\<lparr>fd_last_activity_ms := now\<rparr>)) = {p. (k, p) \<in> insert (k, pid) H}"
      using set True by auto
    ultimately show ?thesis using put True ts unfolding obs by (simp add: observe_known_eq(3,4))
  next
    case False
    then have new: "pid \<notin> set (fd_seen f)" by (simp add: set)
    have "length (fd_seen f) = card {p. (k, p) \<in> H}" using fo by (simp add: set [symmetric] distinct_card)
    also have "\<dots> < card {p. (k, p) \<in> T}"
    proof (rule psubset_card_mono)
      show "finite {p. (k, p) \<in> T}" using T(1) by (simp add: within_def finite_ids)
      have "pid \<in> {p. (k, p) \<in> T}" "{p. (k, p) \<in> H} \<subseteq> {p. (k, p) \<in> T}" using T(2) by blast+
      with False show "{p. (k, p) \<in> H} \<subset> {p. (k, p) \<in> T}" by blast
    qed
    also have "\<dots> \<le> dl_max_packets_per_flow (sd_limits s)" using T by (simp add: within_def)
    finally have a: "flow_accept (dl_max_packets_per_flow (sd_limits s)) pid (fd_seen f) =
        insort_insert pid (fd_seen f)" by (simp add: flow_accept_def)
    have "set (insort_insert pid (fd_seen f)) = {p. (k, p) \<in> insert (k, pid) H}"
      using set by (auto simp: set_insort_insert)
    then have "tracks (fst (observe_known s k f pid now)) (insert (k, pid) H)"
      using ts by (intro put [OF _ observe_known_eq(2) [OF new]])
        (simp_all add: observe_known_eq(4) a)
    moreover have "snd (observe_known s k f pid now) = New"
      by (subst observe_known_eq(1)) (simp add: new)
    ultimately show ?thesis using False unfolding obs by (simp add: observe_known_eq(3))
  qed
qed

lemma tracks_new:
  assumes tr: "tracks s H" and f: "map_of (sd_flows s) k = None"
    and T: "within (sd_limits s) T" "insert (k, pid) H \<subseteq> T"
  shows "snd (observe s k pid now) = New \<and> (k, pid) \<notin> H \<and>
    sd_limits (fst (observe s k pid now)) = sd_limits s \<and>
    tracks (fst (observe s k pid now)) (insert (k, pid) H)"
proof -
  have ok: "dedup_ok s" "hm_ok (sd_flows s)" and ts: "sd_tombstones s = []"
    and keys: "keys (sd_flows s) = fst ` H"
    using tr by (auto simp: tracks_def dedup_ok_def)
  have k: "k \<notin> fst ` H" using f keys by (metis map_of_eq_None_iff)
  have "length (sd_flows s) = card (fst ` H)" by (simp add: hm.length_eq_card [OF ok(2)] keys)
  also have "\<dots> < card (fst ` T)"
  proof (rule psubset_card_mono)
    show "finite (fst ` T)" using T(1) by (simp add: within_def)
    have "k \<in> fst ` T" "fst ` H \<subseteq> fst ` T" using T(2) by force+
    with k show "fst ` H \<subset> fst ` T" by blast
  qed
  also have "\<dots> \<le> dl_max_flows (sd_limits s)" using T by (simp add: within_def)
  finally have room: "\<not> dl_max_flows (sd_limits s) \<le> length (sd_flows s)" by simp
  have obs: "observe s k pid now = observe_new s k pid now" using f ts by (simp add: observe_def)
  have "dedup_ok (fst (observe_new s k pid now))"
    using dedup_ok_observe [OF ok(1), of k pid now] obs by simp
  moreover have "{p. (k, p) \<in> insert (k, pid) H} = {pid}" using k by force
  ultimately have "tracks (fst (observe_new s k pid now)) (insert (k, pid) H)"
    using tracks_put [OF tr] room ts by (simp add: observe_new_tables)
  moreover have "(k, pid) \<notin> H" using k by force
  ultimately show ?thesis using room unfolding obs by (simp add: observe_new_tables)
qed

lemma observe_all_exact:
  "tracks s H \<Longrightarrow> within (sd_limits s) T \<Longrightarrow> H \<union> set (map (\<lambda>(k, p, t). (k, p)) xs) \<subseteq> T \<Longrightarrow>
    observe_all s xs = first_arrivals H xs"
proof (induction xs arbitrary: s H)
  case Nil
  then show ?case by simp
next
  case (Cons x xs)
  obtain k p t where x: "x = (k, p, t)" by (cases x)
  let ?s = "fst (observe s k p t)"
  have T: "insert (k, p) H \<subseteq> T" using Cons.prems(3) x by auto
  have step: "snd (observe s k p t) = (if (k, p) \<in> H then Duplicate else New) \<and>
    sd_limits ?s = sd_limits s \<and> tracks ?s (insert (k, p) H)"
  proof (cases "map_of (sd_flows s) k")
    case None
    from tracks_new [OF Cons.prems(1) None Cons.prems(2) T] show ?thesis by simp
  next
    case (Some f)
    from tracks_known [OF Cons.prems(1) Some Cons.prems(2) T] show ?thesis by simp
  qed
  moreover have "insert (k, p) H \<union> set (map (\<lambda>(k, p, t). (k, p)) xs) \<subseteq> T"
    using Cons.prems(3) x by auto
  ultimately show ?case
    using Cons.IH [of ?s "insert (k, p) H"] Cons.prems(2) x
    by (simp add: case_prod_beta Let_def)
qed

section \<open>The watermark of a flow\<close>

lemma flow_accept_last:
  assumes "sorted seen" "distinct seen" "seen \<noteq> []" "length seen \<le> n" "2 \<le> n"
  shows "last (flow_accept n pid seen) = max pid (last seen)"
proof -
  let ?k = "if n \<le> length seen then tl seen else seen"
  have "0 < n" using assms(5) by simp
  note ok = flow_accept_ok [OF assms(1,2,4) this, of pid]
  have "?k \<noteq> []" "last ?k = last seen"
    using assms(3,5) by (cases seen; auto)+
  then have "last seen \<in> set ?k" by (metis last_in_set)
  then have mem: "max pid (last seen) \<in> set (flow_accept n pid seen)"
    by (auto simp: ok(5) max_def)
  have "set ?k \<subseteq> set seen" by (auto dest: list.set_sel(2) [OF assms(3)])
  then have "x \<le> max pid (last seen)" if "x \<in> set (flow_accept n pid seen)" for x
    using that sorted_le_last [OF assms(1)] by (auto simp: ok(5) le_max_iff_disj)
  from this [OF last_in_set [OF ok(3)]] sorted_le_last [OF ok(1) mem] show ?thesis
    by (rule antisym)
qed

section \<open>Properties\<close>

text \<open>In every state the suppressor can reach, whatever the iteration order of its maps, it
  holds at most the configured number of flows and tombstones, at most the configured number
  of identifiers per flow, in strictly increasing order, and no key is both a flow and a
  tombstone.\<close>

theorem dedup_bounds:
  assumes "dedup_reachable s"
  shows "length (sd_flows s) \<le> dl_max_flows (sd_limits s) \<and>
    length (sd_tombstones s) \<le> dl_max_tombstones (sd_limits s) \<and>
    distinct (map fst (sd_flows s)) \<and> keys (sd_flows s) \<inter> keys (sd_tombstones s) = {} \<and>
    (\<forall>(k, f) \<in> set (sd_flows s). sorted (fd_seen f) \<and> distinct (fd_seen f) \<and>
      length (fd_seen f) \<le> dl_max_packets_per_flow (sd_limits s))"
proof -
  have "dedup_ok s" by (rule dedup_reachable_ok [OF assms])
  then show ?thesis unfolding dedup_ok_def hm_ok_def flow_ok_def by auto
qed

text \<open>A flow that leaves the table stays protected: when a flow disappears because another
  key's packet evicted it, or because it expired while the tombstones had room, then every
  identifier it remembered is answered as a duplicate until the tombstone's lifetime is over,
  and the replay does not bring the flow back.\<close>

theorem retired_flow_replay_dropped:
  assumes reach: "dedup_reachable s" and k: "(k, f) \<in> set (sd_flows s)"
    and gone: "k \<notin> keys (sd_flows s')"
    and how: "observe s k' pid' now = (s', r) \<or>
      dedup_expire s now = (s', n) \<and>
        length (sd_tombstones s) + length (sd_flows s) \<le> dl_max_tombstones (sd_limits s)"
    and pid: "pid \<in> set (fd_seen f)"
    and time: "now \<le> later" "later < sat_add now (dl_tombstone_ttl_ms (sd_limits s))"
  shows "snd (observe s' k pid later) = Duplicate \<and>
    k \<notin> keys (sd_flows (fst (observe s' k pid later)))"
proof -
  have s: "dedup_ok s" by (rule dedup_reachable_ok [OF reach])
  have "now < sat_add now (dl_tombstone_ttl_ms (sd_limits s))" using time by simp
  with how have g: "guards s' k (flow_watermark f) (sat_add now (dl_tombstone_ttl_ms (sd_limits s)))"
    using observe_guards [OF s k _ gone] expire_guards [OF s k _ gone] by blast
  have "sorted (fd_seen f)" using s k by (auto simp: dedup_ok_def flow_ok_def)
  from guards_observe [OF g flow_watermark_max [OF this pid] time(2)] g show ?thesis
    by (simp add: guards_def)
qed

text \<open>C10. Within its capacities the suppressor is exact: on a fresh table, a sequence of arrivals
  with at most the configured number of distinct keys, and of distinct identifiers per key, is
  answered as by a filter that never forgets: new on the first arrival of a key and identifier,
  duplicate on every later one, at whatever times they arrive.\<close>

theorem dedup_exact:
  assumes "dedup_new l = Inr s" and "within l (set (map (\<lambda>(k, p, t). (k, p)) xs))"
  shows "observe_all s xs = first_arrivals {} xs"
proof (rule observe_all_exact)
  have "sd_limits s = l" "sd_flows s = []" "sd_tombstones s = []"
    using assms(1) by (auto simp: dedup_new_def rbind_Inr)
  with dedup_ok_new [OF assms(1)] assms(2)
  show "tracks s {}" "within (sd_limits s) (set (map (\<lambda>(k, p, t). (k, p)) xs))"
    by (simp_all add: tracks_def)
qed simp

text \<open>With room for two identifiers per flow, the watermark of a live flow is the largest
  identifier it was ever offered: each observation moves it to the maximum of the old watermark
  and the offered identifier, also when the table of identifiers is full.\<close>

theorem watermark_is_maximum:
  assumes reach: "dedup_reachable s" and two: "2 \<le> dl_max_packets_per_flow (sd_limits s)"
    and k: "map_of (sd_flows s) k = Some f"
  shows "\<exists>f'. map_of (sd_flows (fst (observe s k pid now))) k = Some f' \<and>
    flow_watermark f' = max pid (flow_watermark f)"
proof -
  have s: "dedup_ok s" "hm_ok (sd_flows s)"
    using dedup_reachable_ok [OF reach] by (auto simp: dedup_ok_def)
  have f: "sorted (fd_seen f)" "distinct (fd_seen f)" "fd_seen f \<noteq> []"
    "length (fd_seen f) \<le> dl_max_packets_per_flow (sd_limits s)"
    using s(1) map_of_SomeD [OF k] by (auto simp: dedup_ok_def flow_ok_def)
  have obs: "observe s k pid now = observe_known s k f pid now" using k by (simp add: observe_def)
  show ?thesis
  proof (cases "pid \<in> set (fd_seen f)")
    case True
    then have "max pid (flow_watermark f) = flow_watermark f"
      using flow_watermark_max [OF f(1)] by (simp add: max_def)
    with True show ?thesis
      using f(3) by (simp add: obs observe_known_eq(1) hm.get_ins [OF s(2)] flow_watermark_last)
  next
    case False
    have "flow_accept (dl_max_packets_per_flow (sd_limits s)) pid (fd_seen f) \<noteq> []"
      using flow_accept_ok(3) [OF f(1,2,4)] two by simp
    with flow_accept_last [OF f two, of pid] f(3) show ?thesis
      by (simp add: obs observe_known_eq(2) [OF False] hm.get_ins [OF s(2)] flow_watermark_last)
  qed
qed

section \<open>Concrete tables\<close>

definition small_limits :: "nat \<Rightarrow> dedup_limits" where
  "small_limits n = \<lparr>dl_max_flows = 2, dl_max_packets_per_flow = n, dl_flow_idle_ttl_ms = 100,
     dl_max_tombstones = n, dl_tombstone_ttl_ms = 1000\<rparr>"

definition small_table :: "nat \<Rightarrow> session_dedup" where
  "small_table n = \<lparr>sd_limits = small_limits n, sd_flows = [], sd_tombstones = [],
     sd_metrics = dedup_metrics_zero\<rparr>"

definition key_of :: "flow_id \<Rightarrow> receive_key" where
  "key_of n = Receive_Key 1 ClientToGateway 0 n"

lemma dedup_new_small: "0 < n \<Longrightarrow> dedup_new (small_limits n) = Inr (small_table n)"
  by (simp add: dedup_new_def dedup_validate_def small_limits_def small_table_def)

lemma dedup_reachable_observe: "dedup_reachable s \<Longrightarrow> dedup_reachable (fst (observe s k pid now))"
  by (metis dedup_reachable.intros(2) dedup_step.intros(1) prod.collapse)

lemma dedup_reachable_expire: "dedup_reachable s \<Longrightarrow> dedup_reachable (fst (dedup_expire s now))"
  by (metis dedup_reachable.intros(2) dedup_step.intros(2) prod.collapse)

lemma dedup_reachable_small: "0 < n \<Longrightarrow> dedup_reachable (small_table n)"
  by (rule dedup_reachable.intros(1) [OF dedup_new_small])

lemma key_of_eq [simp]: "key_of a = key_of b \<longleftrightarrow> a = b"
  by (simp add: key_of_def)

definition "two_flows n = fst (observe (fst (observe (small_table n) (key_of 1) 10 0)) (key_of 2) 20 0)"

lemmas dedup_eval = observe_def observe_known_def observe_new_def dedup_expire_def
  purge_expired_tombstones_def insert_tombstone_def oldest_tombstone_def expire_flow_def
  idle_flows_def flow_watermark_def evict_oldest_flow_def refresh_counts_def
  small_table_def small_limits_def kt_remove_def kt_retain_def hm_insert_def Let_def
  sat_add_def sat_sub_def insort_insert_key_def

lemma two_flows_value:
  "sd_flows (two_flows n) = [(key_of 1, \<lparr>fd_seen = [10], fd_last_activity_ms = 0\<rparr>),
     (key_of 2, \<lparr>fd_seen = [20], fd_last_activity_ms = 0\<rparr>)]"
  "sd_tombstones (two_flows n) = []" "sd_limits (two_flows n) = small_limits n"
  unfolding two_flows_def by (simp_all add: dedup_eval)

lemma two_flows_reachable: "0 < n \<Longrightarrow> dedup_reachable (two_flows n)"
  unfolding two_flows_def by (intro dedup_reachable_observe dedup_reachable_small)

lemma dedup_expire_tombstones:
  "sd_tombstones (fst (dedup_expire s now)) =
     sd_tombstones (fold (expire_flow now) (idle_flows now (purge_expired_tombstones now s))
       (purge_expired_tombstones now s))"
  by (simp add: dedup_expire_def Let_def)

lemma two_flows_expired:
  "sd_flows (fst (dedup_expire (two_flows 2) 200)) = []"
  by (simp add: dedup_expire_def Let_def expire_flows_flows)
    (simp add: two_flows_value idle_flows_def small_limits_def sat_sub_def)

lemma dedup_bounds_witness: "length (sd_flows (two_flows 2)) = 2 \<and>
    length (sd_flows (two_flows 2)) \<le> dl_max_flows (sd_limits (two_flows 2))"
  using dedup_bounds [OF two_flows_reachable [of 2]] by (simp add: two_flows_value)

lemma retired_flow_replay_dropped_witness:
  "snd (observe (fst (dedup_expire (two_flows 2) 200)) (key_of 1) 10 500) = Duplicate"
proof -
  have "(key_of 1, \<lparr>fd_seen = [10], fd_last_activity_ms = 0\<rparr>) \<in> set (sd_flows (two_flows 2))"
    by (simp add: two_flows_value)
  from retired_flow_replay_dropped [OF two_flows_reachable this,
      of "fst (dedup_expire (two_flows 2) 200)" undefined undefined 200 undefined
        "snd (dedup_expire (two_flows 2) 200)" 10 500]
  show ?thesis
    by (simp add: two_flows_expired) (simp add: two_flows_value small_limits_def sat_add_def)
qed

lemma dedup_exact_witness:
  "observe_all (small_table 2) [(key_of 1, 7, 0), (key_of 2, 7, 1), (key_of 1, 7, 90000)] =
    [New, New, Duplicate]"
proof -
  have "within (small_limits 2) (set (map (\<lambda>(k, p, t). (k, p))
      [(key_of 1, 7, 0::u64), (key_of 2, 7, 1), (key_of 1, 7, 90000)]))"
  proof -
    have "card {p. (k, p) \<in> {(key_of 1, 7::u64), (key_of 2, 7)}} \<le> 2" for k
    proof -
      have "card {p. (k, p) \<in> {(key_of 1, 7::u64), (key_of 2, 7)}} \<le> card {7::u64}"
        by (rule card_mono) auto
      then show ?thesis by simp
    qed
    then show ?thesis by (simp add: within_def small_limits_def insert_commute)
  qed
  from dedup_exact [OF dedup_new_small this] show ?thesis by simp
qed

lemma watermark_is_maximum_witness:
  "\<exists>f. map_of (sd_flows (fst (observe (two_flows 2) (key_of 1) 3 50))) (key_of 1) = Some f \<and>
    flow_watermark f = 10"
  using watermark_is_maximum [OF two_flows_reachable [of 2], of "key_of 1" _ 3 50]
  by (simp add: two_flows_value small_limits_def flow_watermark_def)

text \<open>Tombstones come from somewhere: after an expiry a key's tombstone is that of its expired flow,
  or was there before.\<close>

lemma bury_marks:
  assumes ok: "hm_ok m" and t: "map_of (bury n ttl v w now m) k = Some t"
  shows "k = v \<and> dt_watermark t = w \<or> map_of m k = Some t"
proof -
  let ?l = "live_tombstones now m"
  have "hm_ok (tombstone_room n ?l)" using tombstone_room_facts(1) live_tombstones_ok [OF ok] .
  then have "(k, t) = (v, \<lparr>dt_watermark = w, dt_expires_at_ms = sat_add now ttl\<rparr>) \<or> (k, t) \<in> set (tombstone_room n ?l)"
    using map_of_SomeD [OF t] by (auto simp: bury_def hm.set_ins)
  moreover have "set (tombstone_room n ?l) \<subseteq> set m"
    using tombstone_room_facts(2) [OF live_tombstones_ok [OF ok]] by (auto simp: live_tombstones_def set_kt_retain)
  ultimately show ?thesis using ok by (auto simp: map_of_in_set hm_ok_def)
qed

lemma expire_flows_marks:
  "dedup_ok s \<Longrightarrow> map_of (sd_tombstones (fold (expire_flow now) idle s)) k = Some t \<Longrightarrow>
    (k, dt_watermark t) \<in> set idle \<or> map_of (sd_tombstones s) k = Some t"
proof (induction idle arbitrary: s)
  case (Cons e idle)
  obtain v w where e: "e = (v, w)" by fastforce
  let ?s = "insert_tombstone v w now (s\<lparr>sd_flows := kt_remove v (sd_flows s)\<rparr>)"
  have "map_of (sd_tombstones (fold (expire_flow now) idle ?s)) k = Some t" using Cons.prems(2) by (simp add: e expire_flow_def)
  from Cons.IH [OF dedup_ok_retire [OF Cons.prems(1)] this]
  have "(k, dt_watermark t) \<in> set idle \<or> map_of (sd_tombstones ?s) k = Some t" .
  moreover have "hm_ok (sd_tombstones s)" using Cons.prems(1) by (simp add: dedup_ok_def)
  ultimately show ?case using bury_marks by (fastforce simp: e insert_tombstone_table)
qed simp

text \<open>C25. With room for a single identifier per flow the replay protection fails, in every reachable
  state: an older identifier is accepted and replaces the newest one, and once the flow has gone
  idle and expired its tombstone, if it has one, guards the older identifier only, so a replay of
  the newest is accepted as new at any time, also within the tombstone's lifetime.\<close>

theorem single_slot_replay_accepted:
  assumes "dedup_reachable s" and "dl_max_packets_per_flow (sd_limits s) = 1"
    and k: "map_of (sd_flows s) k = Some f" and newest: "newest \<in> set (fd_seen f)" and "older < newest"
    and o: "observe s k older now = (s1, r)" and e: "dedup_expire s1 later = (s2, n)"
    and idle: "dl_flow_idle_ttl_ms (sd_limits s) \<le> sat_sub later now"
  shows "r = New \<and> (\<forall>t. map_of (sd_tombstones s2) k = Some t \<longrightarrow> dt_watermark t = older)
    \<and> (\<forall>replayed. snd (observe s2 k newest replayed) = New)"
proof -
  have ok: "dedup_ok s" by (rule dedup_reachable_ok [OF assms(1)])
  have "flow_ok 1 f" using ok map_of_SomeD [OF k] assms(2) by (auto simp: dedup_ok_def)
  then have "length (fd_seen f) \<le> 1" "fd_seen f \<noteq> []" by (simp_all add: flow_ok_def)
  then have seen: "fd_seen f = [newest]" using newest by (cases "fd_seen f") auto
  then have fresh: "older \<notin> set (fd_seen f)" using assms(5) by simp
  have known: "observe s k older now = (fst (observe_known s k f older now), New)"
    using k fresh observe_known_eq(1) [of s k f older now] by (simp add: observe_def)
  then have r: "r = New" and s1: "s1 = fst (observe_known s k f older now)" using o by simp_all
  have ok1: "dedup_ok s1" using dedup_ok_observe [OF ok, of k older now] o by simp
  have flows: "sd_flows s1 = hm_insert k \<lparr>fd_seen = [older], fd_last_activity_ms = now\<rparr> (sd_flows s)"
    using observe_known_eq(2) [OF fresh] by (simp add: s1 seen assms(2) flow_accept_def insort_insert_key_def)
  have lim: "sd_limits s1 = sd_limits s" by (simp add: s1 observe_known_eq(3))
  have at: "map_of (sd_flows s1) k = Some \<lparr>fd_seen = [older], fd_last_activity_ms = now\<rparr>"
    by (simp add: flows map_of_hm_insert)
  let ?p = "purge_expired_tombstones later s1"
  let ?idle = "idle_flows later ?p"
  have hm: "hm_ok (sd_flows s1)" using ok1 by (simp add: dedup_ok_def)
  then have entries: "(k, w) \<in> set ?idle \<longleftrightarrow> (\<exists>g. map_of (sd_flows s1) k = Some g \<and> w = flow_watermark g
      \<and> dl_flow_idle_ttl_ms (sd_limits s) \<le> sat_sub later (fd_last_activity_ms g))" for w
    using idle_flows_facts(3) [of ?p k w later] by (simp add: lim map_of_in_set hm_ok_def)
  then have only: "w = older" if "(k, w) \<in> set ?idle" for w using that at by (auto simp: flow_watermark_def)
  have "(k, older) \<in> set ?idle" using entries at idle by (simp add: flow_watermark_def)
  then have gone: "map_of (sd_flows s2) k = None"
    using e by (force simp: dedup_expire_def Let_def expire_flows_flows map_of_filter_outside)
  have none: "map_of (sd_tombstones s1) k = None"
    using ok1 map_of_SomeD [OF at] by (force simp: dedup_ok_def map_of_eq_None_iff)
  have mark: "dt_watermark t = older" if "map_of (sd_tombstones s2) k = Some t" for t
  proof -
    have "map_of (sd_tombstones (fold (expire_flow later) ?idle ?p)) k = Some t"
      using that dedup_expire_tombstones [of s1 later] e by simp
    from expire_flows_marks [OF dedup_ok_purge [OF ok1] this] show ?thesis
    proof
      assume "map_of (sd_tombstones ?p) k = Some t"
      then have "k \<in> keys (sd_tombstones s1)" by (force simp: set_kt_retain dest: map_of_SomeD)
      then show ?thesis using none by (simp add: map_of_eq_None_iff)
    qed (rule only)
  qed
  have "snd (observe s2 k newest replayed) = New" for replayed
  proof (cases "map_of (sd_tombstones s2) k")
    case None
    then show ?thesis by (simp add: observe_def gone observe_new_tables(4))
  next
    case (Some t)
    then show ?thesis using mark [OF Some] assms(5)
      by (simp add: observe_def gone observe_new_tables(4) not_le [symmetric])
  qed
  with r mark show ?thesis by blast
qed

lemma single_slot_replay_accepted_witness:
  "\<exists>s s1 s2. dedup_reachable s \<and> observe s (key_of 1) 5 0 = (s1, New) \<and> dedup_expire s1 200 = (s2, 1)
    \<and> sd_tombstones s2 = [(key_of 1, \<lparr>dt_watermark = 5, dt_expires_at_ms = 1200\<rparr>)]
    \<and> snd (observe s2 (key_of 1) 10 201) = New"
proof -
  define s where "s = fst (observe (small_table 1) (key_of 1) 10 0)"
  define s1 where "s1 = fst (observe s (key_of 1) 5 0)"
  define s2 where "s2 = fst (dedup_expire s1 200)"
  have reach: "dedup_reachable s" unfolding s_def by (intro dedup_reachable_observe dedup_reachable_small) simp
  have s: "sd_flows s = [(key_of 1, \<lparr>fd_seen = [10], fd_last_activity_ms = 0\<rparr>)]" "sd_limits s = small_limits 1"
    "sd_tombstones s = []"
    by (simp_all add: s_def dedup_eval)
  have s1: "sd_flows s1 = [(key_of 1, \<lparr>fd_seen = [5], fd_last_activity_ms = 0\<rparr>)]" "sd_limits s1 = small_limits 1"
    "sd_tombstones s1 = []" and o: "observe s (key_of 1) 5 0 = (s1, New)"
    by (simp_all add: s1_def s dedup_eval)
  have e: "dedup_expire s1 200 = (s2, 1)" and s2: "sd_tombstones s2 = [(key_of 1, \<lparr>dt_watermark = 5, dt_expires_at_ms = 1200\<rparr>)]"
    by (simp_all add: s2_def s1 dedup_eval)
  have "snd (observe s2 (key_of 1) 10 201) = New"
    using single_slot_replay_accepted [OF reach _ _ _ _ o e, of _ 10] s by (simp add: small_limits_def sat_sub_def)
  with reach o e s2 show ?thesis by blast
qed

text \<open>Which replay guards survive an expiry depends on the iteration order of the flow
  table: from two reachable states that differ only in that order, the same expiry keeps the
  guard of one flow or of the other.\<close>

theorem expiry_depends_on_map_order:
  "\<exists>s s'. dedup_reachable s \<and> same_tables s s' \<and> dedup_reachable s' \<and>
    keys (sd_tombstones (fst (dedup_expire s 200))) \<noteq> keys (sd_tombstones (fst (dedup_expire s' 200)))"
proof (intro exI conjI)
  let ?s = "two_flows 1"
  let ?s' = "?s\<lparr>sd_flows := rev (sd_flows ?s), sd_tombstones := sd_tombstones ?s\<rparr>"
  show s: "dedup_reachable ?s" by (rule two_flows_reachable) simp
  show p: "same_tables ?s ?s'"
    unfolding same_tables_def by (intro exI conjI) (rule refl, simp_all)
  show "dedup_reachable ?s'" by (rule dedup_reachable.intros(2) [OF s dedup_step.intros(3) [OF p]])
  show "keys (sd_tombstones (fst (dedup_expire ?s 200))) \<noteq> keys (sd_tombstones (fst (dedup_expire ?s' 200)))"
    by (simp add: dedup_expire_tombstones idle_flows_def expire_flow_def insert_tombstone_table
        two_flows_value small_limits_def flow_watermark_def sat_add_def sat_sub_def kt_retain_def)
      (simp add: bury_def live_tombstones_def tombstone_room_def oldest_tombstone_def kt_remove_def
        kt_retain_def hm_insert_def)
qed

end
