(* ===== verification/Reorder.thy ===== *)
theory Reorder
  imports Tombstones
begin

text \<open>
  The per-flow deadline reorder buffer of \<open>crates/sg-multipath/src/v2/reorder.rs\<close>: every
  receive key has its own queue of packets held behind a gap, released in order when the gap
  fills or when the deadline of the traffic class passes. The two loops of the code are
  recursive functions with termination proofs: \<open>drain\<close> removes one held packet per turn, and
  the skipping loop of \<open>reorder_expire\<close> releases at least one held packet per turn.
\<close>

section \<open>Data\<close>

record reorder_limits =
  rl_max_flows :: nat
  rl_max_packets_per_flow :: nat
  rl_max_bytes_per_flow :: nat
  rl_max_bytes_per_session :: nat
  rl_flow_idle_ttl_ms :: u64
  rl_realtime_deadline_ms :: u64
  rl_interactive_deadline_ms :: u64
  rl_bulk_deadline_ms :: u64
  rl_max_tombstones :: nat
  rl_tombstone_ttl_ms :: u64
  rl_max_future_gap :: u64

definition reorder_default_limits :: reorder_limits where
  "reorder_default_limits = \<lparr>rl_max_flows = 256, rl_max_packets_per_flow = 64,
     rl_max_bytes_per_flow = 256 * 1024, rl_max_bytes_per_session = 4 * 1024 * 1024,
     rl_flow_idle_ttl_ms = 30000, rl_realtime_deadline_ms = 20,
     rl_interactive_deadline_ms = 100, rl_bulk_deadline_ms = 500, rl_max_tombstones = 256,
     rl_tombstone_ttl_ms = 60000, rl_max_future_gap = 1024\<rparr>"

datatype reorder_error = ReorderInvalidLimits

definition reorder_validate :: "reorder_limits \<Rightarrow> reorder_error + unit" where
  "reorder_validate l =
     (if rl_max_flows l = 0 \<or> rl_max_packets_per_flow l = 0 \<or> rl_max_bytes_per_flow l = 0
         \<or> rl_max_bytes_per_session l = 0 \<or> rl_flow_idle_ttl_ms l = 0
         \<or> rl_realtime_deadline_ms l = 0 \<or> rl_interactive_deadline_ms l = 0
         \<or> rl_bulk_deadline_ms l = 0 \<or> rl_max_tombstones l = 0 \<or> rl_tombstone_ttl_ms l = 0
         \<or> rl_max_future_gap l = 0
      then Inl ReorderInvalidLimits else Inr ())"

fun deadline_for :: "reorder_limits \<Rightarrow> traffic_class \<Rightarrow> u64" where
  "deadline_for l Realtime = rl_realtime_deadline_ms l"
| "deadline_for l Control = rl_realtime_deadline_ms l"
| "deadline_for l Interactive = rl_interactive_deadline_ms l"
| "deadline_for l Bulk = rl_bulk_deadline_ms l"

datatype drop_reason = DropDuplicate | ClassMismatch | FlowPacketCapacity | FlowByteCapacity
  | SessionByteCapacity | FarAhead | Exhausted

type_synonym payload = "byte list"

record reorder_outcome =
  ro_delivered :: "(packet_id \<times> payload) list"
  ro_buffered :: bool
  ro_dropped :: "drop_reason option"

definition outcome_delivered :: "(packet_id \<times> payload) list \<Rightarrow> reorder_outcome" where
  "outcome_delivered d = \<lparr>ro_delivered = d, ro_buffered = False, ro_dropped = None\<rparr>"

definition outcome_buffered :: reorder_outcome where
  "outcome_buffered = \<lparr>ro_delivered = [], ro_buffered = True, ro_dropped = None\<rparr>"

definition outcome_dropped :: "drop_reason \<Rightarrow> reorder_outcome" where
  "outcome_dropped r = \<lparr>ro_delivered = [], ro_buffered = False, ro_dropped = Some r\<rparr>"

record reorder_metrics =
  rm_flows :: nat
  rm_tombstones :: nat
  rm_buffered_packets :: nat
  rm_buffered_bytes :: nat
  rm_delivered :: u64
  rm_duplicates_dropped :: u64
  rm_tombstone_hits :: u64
  rm_class_mismatch_dropped :: u64
  rm_flow_packet_capacity_dropped :: u64
  rm_flow_byte_capacity_dropped :: u64
  rm_session_byte_capacity_dropped :: u64
  rm_far_ahead_dropped :: u64
  rm_exhausted_dropped :: u64
  rm_gaps_skipped :: u64
  rm_packets_skipped :: u64
  rm_flows_evicted_capacity :: u64
  rm_flows_expired_idle :: u64
  rm_tombstones_evicted_capacity :: u64
  rm_tombstones_expired :: u64

record expire_report =
  er_delivered :: "(receive_key \<times> packet_id \<times> payload) list"
  er_gaps_skipped :: u64
  er_packets_skipped :: u64
  er_flows_expired :: nat

record buffered_packet =
  bp_payload :: payload
  bp_arrived_at_ms :: u64

record flow_state =
  fs_traffic_class :: traffic_class
  fs_next_expected :: u64
  fs_exhausted :: bool
  fs_buffer :: "(u64 \<times> buffered_packet) list"
  fs_buffered_bytes :: nat
  fs_last_activity_ms :: u64

record session_reorder =
  sr_limits :: reorder_limits
  sr_flows :: "(receive_key \<times> flow_state) list"
  sr_tombstones :: tombstones
  sr_buffered_bytes_session :: nat
  sr_metrics :: reorder_metrics

section \<open>Bookkeeping\<close>

definition reorder_metrics_zero :: reorder_metrics where
  "reorder_metrics_zero = \<lparr>rm_flows = 0, rm_tombstones = 0, rm_buffered_packets = 0,
     rm_buffered_bytes = 0, rm_delivered = 0, rm_duplicates_dropped = 0, rm_tombstone_hits = 0,
     rm_class_mismatch_dropped = 0, rm_flow_packet_capacity_dropped = 0,
     rm_flow_byte_capacity_dropped = 0, rm_session_byte_capacity_dropped = 0,
     rm_far_ahead_dropped = 0, rm_exhausted_dropped = 0, rm_gaps_skipped = 0,
     rm_packets_skipped = 0, rm_flows_evicted_capacity = 0, rm_flows_expired_idle = 0,
     rm_tombstones_evicted_capacity = 0, rm_tombstones_expired = 0\<rparr>"

definition reorder_new :: "reorder_limits \<Rightarrow> reorder_error + session_reorder" where
  "reorder_new l = rbind (reorder_validate l) (\<lambda>_.
     Inr \<lparr>sr_limits = l, sr_flows = [], sr_tombstones = [], sr_buffered_bytes_session = 0,
          sr_metrics = reorder_metrics_zero\<rparr>)"

abbreviation count :: "(reorder_metrics \<Rightarrow> reorder_metrics) \<Rightarrow> session_reorder \<Rightarrow> session_reorder" where
  "count \<equiv> sr_metrics_update"

definition reorder_refresh_counts :: "session_reorder \<Rightarrow> session_reorder" where
  "reorder_refresh_counts s = count (\<lambda>m. m\<lparr>rm_flows := length (sr_flows s),
     rm_tombstones := length (sr_tombstones s)\<rparr>) s"

definition reorder_purge_expired_tombstones :: "u64 \<Rightarrow> session_reorder \<Rightarrow> session_reorder" where
  "reorder_purge_expired_tombstones now s =
     (let before = length (sr_tombstones s);
          kept = live_tombstones now (sr_tombstones s);
          reaped = before - length kept
      in reorder_refresh_counts (count
           (rm_tombstones_expired_update (\<lambda>n. sat_add n (word_of_nat reaped)))
           (s\<lparr>sr_tombstones := kept\<rparr>)))"

definition reorder_insert_tombstone ::
  "receive_key \<Rightarrow> u64 \<Rightarrow> u64 \<Rightarrow> session_reorder \<Rightarrow> session_reorder" where
  "reorder_insert_tombstone key watermark now s =
     (let s = reorder_purge_expired_tombstones now s;
          s = (if rl_max_tombstones (sr_limits s) \<le> length (sr_tombstones s) then
                 (case oldest_tombstone (sr_tombstones s) of
                   Some oldest \<Rightarrow> count (rm_tombstones_evicted_capacity_update sat_inc)
                     (s\<lparr>sr_tombstones := kt_remove oldest (sr_tombstones s)\<rparr>)
                 | None \<Rightarrow> s)
               else s)
      in reorder_refresh_counts (s\<lparr>sr_tombstones := hm_insert key
           \<lparr>dt_watermark = watermark,
            dt_expires_at_ms = sat_add now (rl_tombstone_ttl_ms (sr_limits s))\<rparr>
           (sr_tombstones s)\<rparr>))"

definition max_observed_for_flow :: "flow_state \<Rightarrow> u64" where
  "max_observed_for_flow f =
     (if fs_exhausted f then - 1
      else let max_delivered = sat_sub (fs_next_expected f) 1
           in case fs_buffer f of
                [] \<Rightarrow> max_delivered
              | _ \<Rightarrow> max max_delivered (fst (last (fs_buffer f))))"

text \<open>\<open>self.flows.remove(&key)\<close> with the byte count of the removed flow.\<close>

definition forget_flow :: "receive_key \<Rightarrow> session_reorder \<Rightarrow> session_reorder" where
  "forget_flow key s =
     (case map_of (sr_flows s) key of
        None \<Rightarrow> s
      | Some f \<Rightarrow> s\<lparr>sr_flows := kt_remove key (sr_flows s),
          sr_buffered_bytes_session := sr_buffered_bytes_session s - fs_buffered_bytes f\<rparr>)"

definition reorder_evict_oldest_flow :: "u64 \<Rightarrow> session_reorder \<Rightarrow> session_reorder" where
  "reorder_evict_oldest_flow now s =
     reorder_refresh_counts
      (case first_min (\<lambda>(k, f). fs_last_activity_ms f) (sr_flows s) of
         Some (key, f) \<Rightarrow>
           reorder_insert_tombstone key (max_observed_for_flow f) now
             (count (rm_flows_evicted_capacity_update sat_inc) (forget_flow key s))
       | None \<Rightarrow> s)"

section \<open>Releasing held packets\<close>

text \<open>
  The loop that hands over the contiguous chain at the head: the flow, the session's byte
  count and the payloads delivered so far.
\<close>

function drain ::
  "flow_state \<Rightarrow> nat \<Rightarrow> (packet_id \<times> payload) list
   \<Rightarrow> flow_state \<times> nat \<times> (packet_id \<times> payload) list" where
  "drain f session out =
     (if fs_exhausted f then (f, session, out)
      else let current = fs_next_expected f
           in case map_of (fs_buffer f) current of
                None \<Rightarrow> (f, session, out)
              | Some held \<Rightarrow>
                  let len = length (bp_payload held);
                      f' = f\<lparr>fs_buffer := kt_remove current (fs_buffer f),
                             fs_buffered_bytes := fs_buffered_bytes f - len\<rparr>;
                      out' = out @ [(current, bp_payload held)]
                  in if current = - 1 then (f'\<lparr>fs_exhausted := True\<rparr>, session - len, out')
                     else drain (f'\<lparr>fs_next_expected := sat_inc current\<rparr>) (session - len) out')"
  by pat_completeness auto
termination
  by (relation "measure (\<lambda>(f, _). length (fs_buffer f))") (auto intro: length_kt_remove_Some)

declare drain.simps [simp del]

text \<open>\<open>skip_head_gap_if_expired\<close>: the state after it, and the payloads a due skip releases.\<close>

definition skip_head_gap_if_expired ::
  "session_reorder \<Rightarrow> receive_key \<Rightarrow> u64
   \<Rightarrow> session_reorder \<times> (packet_id \<times> payload) list option" where
  "skip_head_gap_if_expired s key now =
     (case map_of (sr_flows s) key of
        None \<Rightarrow> (s, None)
      | Some flow \<Rightarrow>
          if fs_exhausted flow then (s, None)
          else let deadline = deadline_for (sr_limits s) (fs_traffic_class flow)
          in (case fs_buffer flow of
                [] \<Rightarrow> (s, None)
              | (smallest_id, held) # _ \<Rightarrow>
                  if smallest_id \<le> fs_next_expected flow then (s, None)
                  else if sat_sub now (bp_arrived_at_ms held) < deadline then (s, None)
                  else
                    let skipped = sat_sub smallest_id (fs_next_expected flow);
                        s = count (rm_packets_skipped_update (\<lambda>n. sat_add n skipped)
                               \<circ> rm_gaps_skipped_update sat_inc) s;
                        (flow', session, delivered) =
                          drain (flow\<lparr>fs_next_expected := smallest_id\<rparr>)
                            (sr_buffered_bytes_session s) [];
                        put = (\<lambda>f. s\<lparr>sr_flows := hm_insert key f (sr_flows s),
                                  sr_buffered_bytes_session := session\<rparr>)
                    in if delivered = [] then (put flow', None)
                       else (count (rm_delivered_update
                                (\<lambda>n. sat_add n (word_of_nat (length delivered))))
                              (put (flow'\<lparr>fs_last_activity_ms := now\<rparr>)),
                             Some delivered)))"

section \<open>Arrivals\<close>

definition receive_first ::
  "session_reorder \<Rightarrow> receive_key \<Rightarrow> traffic_class \<Rightarrow> u64 \<Rightarrow> payload \<Rightarrow> u64
   \<Rightarrow> session_reorder \<times> reorder_outcome" where
  "receive_first s key cls pid payload now =
     (let s = (if rl_max_flows (sr_limits s) \<le> length (sr_flows s)
               then reorder_evict_oldest_flow now s else s);
          (next, exhausted) = (if pid = - 1 then (- 1, True) else (sat_inc pid, False))
      in (reorder_refresh_counts (count (rm_delivered_update sat_inc)
            (s\<lparr>sr_flows := hm_insert key
                 \<lparr>fs_traffic_class = cls, fs_next_expected = next, fs_exhausted = exhausted,
                  fs_buffer = [], fs_buffered_bytes = 0, fs_last_activity_ms = now\<rparr>
                 (sr_flows s)\<rparr>)),
          outcome_delivered [(pid, payload)]))"

text \<open>An arrival ahead of the head: the bounds, the insertion, and a skip that is already due.\<close>

definition receive_gap ::
  "session_reorder \<Rightarrow> receive_key \<Rightarrow> flow_state \<Rightarrow> u64 \<Rightarrow> payload \<Rightarrow> u64
   \<Rightarrow> session_reorder \<times> reorder_outcome" where
  "receive_gap s key flow pid payload now =
     (let put = (\<lambda>f. s\<lparr>sr_flows := hm_insert key (f\<lparr>fs_last_activity_ms := now\<rparr>) (sr_flows s)\<rparr>);
          drop = (\<lambda>counter reason. (count (counter sat_inc) (put flow), outcome_dropped reason));
          len = length payload
      in if rl_max_future_gap (sr_limits s) < sat_sub pid (fs_next_expected flow)
         then drop rm_far_ahead_dropped_update FarAhead
         else if rl_max_packets_per_flow (sr_limits s) \<le> length (fs_buffer flow)
         then drop rm_flow_packet_capacity_dropped_update FlowPacketCapacity
         else if rl_max_bytes_per_flow (sr_limits s) < usize_add (fs_buffered_bytes flow) len
         then drop rm_flow_byte_capacity_dropped_update FlowByteCapacity
         else if rl_max_bytes_per_session (sr_limits s)
                   < usize_add (sr_buffered_bytes_session s) len
         then drop rm_session_byte_capacity_dropped_update SessionByteCapacity
         else
           let s = (put (flow\<lparr>fs_buffer := bt_insert pid
                       \<lparr>bp_payload = payload, bp_arrived_at_ms = now\<rparr> (fs_buffer flow),
                     fs_buffered_bytes := usize_add (fs_buffered_bytes flow) len\<rparr>))
                   \<lparr>sr_buffered_bytes_session := usize_add (sr_buffered_bytes_session s) len\<rparr>
           in (case skip_head_gap_if_expired s key now of
                 (s, Some delivered) \<Rightarrow> (s, outcome_delivered delivered)
               | (s, None) \<Rightarrow> (s, outcome_buffered)))"

definition receive_known ::
  "session_reorder \<Rightarrow> receive_key \<Rightarrow> flow_state \<Rightarrow> traffic_class \<Rightarrow> u64 \<Rightarrow> payload \<Rightarrow> u64
   \<Rightarrow> session_reorder \<times> reorder_outcome" where
  "receive_known s key flow cls pid payload now =
     (let put = (\<lambda>f. s\<lparr>sr_flows := hm_insert key (f\<lparr>fs_last_activity_ms := now\<rparr>) (sr_flows s)\<rparr>);
          next = fs_next_expected flow
      in if fs_exhausted flow
         then (count (rm_exhausted_dropped_update sat_inc) (put flow), outcome_dropped Exhausted)
         else if fs_traffic_class flow \<noteq> cls
         then (count (rm_class_mismatch_dropped_update sat_inc) s, outcome_dropped ClassMismatch)
         else if pid < next
         then (count (rm_duplicates_dropped_update sat_inc) (put flow), outcome_dropped DropDuplicate)
         else if pid \<in> keys (fs_buffer flow)
         then (count (rm_duplicates_dropped_update sat_inc) (put flow), outcome_dropped DropDuplicate)
         else if pid = next then
           (if next = - 1
            then (count (rm_delivered_update sat_inc) (put (flow\<lparr>fs_exhausted := True\<rparr>)),
                  outcome_delivered [(pid, payload)])
            else
              let (flow', session, delivered) =
                    drain (flow\<lparr>fs_next_expected := sat_inc next\<rparr>) (sr_buffered_bytes_session s)
                      [(pid, payload)]
              in (count (rm_delivered_update (\<lambda>n. sat_add n (word_of_nat (length delivered))))
                    ((put flow')\<lparr>sr_buffered_bytes_session := session\<rparr>),
                  outcome_delivered delivered))
         else receive_gap s key flow pid payload now)"

definition receive ::
  "session_reorder \<Rightarrow> receive_key \<Rightarrow> traffic_class \<Rightarrow> packet_id \<Rightarrow> payload \<Rightarrow> u64
   \<Rightarrow> session_reorder \<times> reorder_outcome" where
  "receive s key cls pid payload now =
     (if cls = Control
      then (count (rm_class_mismatch_dropped_update sat_inc) s, outcome_dropped ClassMismatch)
      else case map_of (sr_flows s) key of
        Some flow \<Rightarrow> receive_known s key flow cls pid payload now
      | None \<Rightarrow>
          (case map_of (sr_tombstones s) key of
             None \<Rightarrow> receive_first s key cls pid payload now
           | Some t \<Rightarrow>
               if dt_expires_at_ms t \<le> now
               then receive_first (count (rm_tombstones_expired_update sat_inc)
                      (s\<lparr>sr_tombstones := kt_remove key (sr_tombstones s)\<rparr>)) key cls pid payload now
               else if pid \<le> dt_watermark t
               then (count (rm_tombstone_hits_update sat_inc \<circ> rm_duplicates_dropped_update sat_inc) s,
                     outcome_dropped DropDuplicate)
               else receive_first (s\<lparr>sr_tombstones := kt_remove key (sr_tombstones s)\<rparr>)
                      key cls pid payload now))"

section \<open>Time\<close>

text \<open>Every released packet was held: the buffer shrinks by what \<open>drain\<close> hands over.\<close>

lemma drain_stop:
  "fs_exhausted f \<or> map_of (fs_buffer f) (fs_next_expected f) = None \<Longrightarrow> drain f b out = (f, b, out)"
  by (subst drain.simps) (auto simp: Let_def)

lemma drain_last:
  "\<not> fs_exhausted f \<Longrightarrow> fs_next_expected f = - 1 \<Longrightarrow> map_of (fs_buffer f) (- 1) = Some held \<Longrightarrow>
    drain f b out = (f\<lparr>fs_buffer := kt_remove (- 1) (fs_buffer f),
      fs_buffered_bytes := fs_buffered_bytes f - length (bp_payload held), fs_exhausted := True\<rparr>,
      b - length (bp_payload held), out @ [(- 1, bp_payload held)])"
  by (subst drain.simps) (simp add: Let_def)

lemma drain_next:
  "\<not> fs_exhausted f \<Longrightarrow> fs_next_expected f \<noteq> - 1 \<Longrightarrow>
    map_of (fs_buffer f) (fs_next_expected f) = Some held \<Longrightarrow>
    drain f b out = drain (f\<lparr>fs_buffer := kt_remove (fs_next_expected f) (fs_buffer f),
      fs_buffered_bytes := fs_buffered_bytes f - length (bp_payload held),
      fs_next_expected := fs_next_expected f + 1\<rparr>)
      (b - length (bp_payload held)) (out @ [(fs_next_expected f, bp_payload held)])"
  by (subst drain.simps) (simp add: Let_def sat_inc_eq)

text \<open>Induction along the loop, one case per way a turn can go.\<close>

lemma drain_induct [case_names stop last step]:
  assumes stop: "\<And>f b out. fs_exhausted f \<or> map_of (fs_buffer f) (fs_next_expected f) = None \<Longrightarrow>
      P f b out (f, b, out)"
    and last: "\<And>f b out held. \<not> fs_exhausted f \<Longrightarrow> fs_next_expected f = - 1 \<Longrightarrow>
      map_of (fs_buffer f) (- 1) = Some held \<Longrightarrow>
      P f b out (f\<lparr>fs_buffer := kt_remove (- 1) (fs_buffer f),
        fs_buffered_bytes := fs_buffered_bytes f - length (bp_payload held), fs_exhausted := True\<rparr>,
        b - length (bp_payload held), out @ [(- 1, bp_payload held)])"
    and step: "\<And>f b out held r. \<not> fs_exhausted f \<Longrightarrow> fs_next_expected f \<noteq> - 1 \<Longrightarrow>
      map_of (fs_buffer f) (fs_next_expected f) = Some held \<Longrightarrow>
      P (f\<lparr>fs_buffer := kt_remove (fs_next_expected f) (fs_buffer f),
          fs_buffered_bytes := fs_buffered_bytes f - length (bp_payload held),
          fs_next_expected := fs_next_expected f + 1\<rparr>)
        (b - length (bp_payload held)) (out @ [(fs_next_expected f, bp_payload held)]) r \<Longrightarrow>
      P f b out r"
  shows "P f b out (drain f b out)"
proof (induction f b out rule: drain.induct)
  case (1 f b out)
  consider "fs_exhausted f \<or> map_of (fs_buffer f) (fs_next_expected f) = None"
    | held where "\<not> fs_exhausted f" "map_of (fs_buffer f) (fs_next_expected f) = Some held"
    by auto
  then show ?case
  proof cases
    case 1
    then show ?thesis using stop by (simp add: drain_stop)
  next
    case (2 held)
    show ?thesis
    proof (cases "fs_next_expected f = - 1")
      case True
      with 2 last show ?thesis by (simp add: drain_last)
    next
      case False
      from step [OF 2(1) False 2(2)] "1.IH" [OF 2(1) refl 2(2) refl refl refl False]
      show ?thesis unfolding drain_next [OF 2(1) False 2(2)] by (simp add: sat_inc_eq [OF False])
    qed
  qed
qed

lemma drain_shrinks:
  "length (fs_buffer (fst (drain f b out))) + length (snd (snd (drain f b out)))
     \<le> length (fs_buffer f) + length out"
  by (induction f b out rule: drain_induct) (auto dest!: length_kt_remove_Some)

lemma drain_extends: "\<exists>d. snd (snd (drain f b out)) = out @ d"
  by (induction f b out rule: drain_induct) auto

definition held_count :: "session_reorder \<Rightarrow> receive_key \<Rightarrow> nat" where
  "held_count s key =
     (case map_of (sr_flows s) key of None \<Rightarrow> 0 | Some f \<Rightarrow> length (fs_buffer f))"

text \<open>Either nothing is due and nothing changes, or the head gap is skipped and something is
  released.\<close>

definition skips :: "session_reorder \<Rightarrow> receive_key \<Rightarrow> u64 \<Rightarrow> flow_state \<Rightarrow> session_reorder
    \<Rightarrow> (packet_id \<times> payload) list \<Rightarrow> bool" where
  "skips s key now flow s' d \<longleftrightarrow>
     (\<exists>i held rest. map_of (sr_flows s) key = Some flow \<and> \<not> fs_exhausted flow \<and>
        fs_buffer flow = (i, held) # rest \<and> fs_next_expected flow < i \<and>
        deadline_for (sr_limits s) (fs_traffic_class flow) \<le> sat_sub now (bp_arrived_at_ms held) \<and>
        (\<exists>flow'. drain (flow\<lparr>fs_next_expected := i\<rparr>) (sr_buffered_bytes_session s) [] =
             (flow', sr_buffered_bytes_session s', d) \<and>
           sr_flows s' = hm_insert key (flow'\<lparr>fs_last_activity_ms := now\<rparr>) (sr_flows s)) \<and>
        sr_limits s' = sr_limits s \<and> sr_tombstones s' = sr_tombstones s \<and>
        rm_packets_skipped (sr_metrics s') =
          sat_add (rm_packets_skipped (sr_metrics s)) (i - fs_next_expected flow))"

lemma drain_delivers_head:
  assumes "\<not> fs_exhausted f" and "fs_buffer f = (i, held) # rest" and "fs_next_expected f = i"
  shows "snd (snd (drain f b [])) \<noteq> []"
proof (cases "i = - 1")
  case True
  with assms show ?thesis by (simp add: drain_last)
next
  case False
  have "snd (snd (drain g c [(i, bp_payload held)])) \<noteq> []" for g c
    using drain_extends [of g c "[(i, bp_payload held)]"] by auto
  with False assms show ?thesis by (simp add: drain_next)
qed

lemma skip_cases:
  assumes "skip_head_gap_if_expired s key now = (s', r)"
  shows "(s' = s \<and> r = None) \<or> (\<exists>flow d. r = Some d \<and> d \<noteq> [] \<and> skips s key now flow s' d)"
proof (cases "\<exists>flow i held rest. map_of (sr_flows s) key = Some flow \<and> \<not> fs_exhausted flow \<and>
    fs_buffer flow = (i, held) # rest \<and> fs_next_expected flow < i \<and>
    deadline_for (sr_limits s) (fs_traffic_class flow) \<le> sat_sub now (bp_arrived_at_ms held)")
  case True
  then obtain flow i held rest where f: "map_of (sr_flows s) key = Some flow" "\<not> fs_exhausted flow"
    "fs_buffer flow = (i, held) # rest" "\<not> i \<le> fs_next_expected flow" "fs_next_expected flow < i"
    "\<not> sat_sub now (bp_arrived_at_ms held) < deadline_for (sr_limits s) (fs_traffic_class flow)"
    by (auto simp: not_less)
  obtain flow' session d where d:
    "drain (flow\<lparr>fs_next_expected := i\<rparr>) (sr_buffered_bytes_session s) [] = (flow', session, d)"
    by (cases "drain (flow\<lparr>fs_next_expected := i\<rparr>) (sr_buffered_bytes_session s) []")
  have "d \<noteq> []"
    using drain_delivers_head [of "flow\<lparr>fs_next_expected := i\<rparr>" i held rest
        "sr_buffered_bytes_session s"] f d by simp
  moreover have "sat_sub i (fs_next_expected flow) = i - fs_next_expected flow"
    using f(5) by (auto simp: sat_sub_def not_le)
  ultimately have "\<exists>d. r = Some d \<and> d \<noteq> [] \<and> skips s key now flow s' d"
    using assms f d unfolding skip_head_gap_if_expired_def skips_def
    by (auto simp: Let_def not_less)
  then show ?thesis by blast
next
  case False
  with assms show ?thesis
    by (auto simp: skip_head_gap_if_expired_def Let_def not_le not_less
        split: option.splits if_splits list.splits)
qed

lemma skip_progress:
  assumes "skip_head_gap_if_expired s key now = (s', Some d)"
  shows "held_count s' key < held_count s key"
proof -
  from skip_cases [OF assms] obtain flow where k: "skips s key now flow s' d" "d \<noteq> []" by auto
  then obtain i flow' where f: "map_of (sr_flows s) key = Some flow"
    and d: "drain (flow\<lparr>fs_next_expected := i\<rparr>) (sr_buffered_bytes_session s) [] =
      (flow', sr_buffered_bytes_session s', d)"
    and s': "sr_flows s' = hm_insert key (flow'\<lparr>fs_last_activity_ms := now\<rparr>) (sr_flows s)"
    unfolding skips_def by blast
  have "length (fs_buffer flow') + length d \<le> length (fs_buffer flow)"
    using drain_shrinks [of "flow\<lparr>fs_next_expected := i\<rparr>" "sr_buffered_bytes_session s" "[]"] d by simp
  moreover have "0 < length d" using k(2) by simp
  ultimately have "length (fs_buffer flow') < length (fs_buffer flow)" by linarith
  then show ?thesis by (simp add: held_count_def f s' map_of_hm_insert)
qed

function skip_loop ::
  "session_reorder \<Rightarrow> receive_key \<Rightarrow> u64 \<Rightarrow> (receive_key \<times> packet_id \<times> payload) list
   \<Rightarrow> session_reorder \<times> (receive_key \<times> packet_id \<times> payload) list" where
  "skip_loop s key now out =
     (case skip_head_gap_if_expired s key now of
        (s', Some delivered) \<Rightarrow> skip_loop s' key now (out @ map (Pair key) delivered)
      | (s', None) \<Rightarrow> (s', out))"
  by pat_completeness auto
termination
  by (relation "measure (\<lambda>(s, key, _). held_count s key)") (auto intro: skip_progress [OF sym])

declare skip_loop.simps [simp del]

definition reorder_idle_flows :: "u64 \<Rightarrow> session_reorder \<Rightarrow> (receive_key \<times> u64) list" where
  "reorder_idle_flows now s =
     map (\<lambda>(k, f). (k, max_observed_for_flow f))
       (filter (\<lambda>(k, f). rl_flow_idle_ttl_ms (sr_limits s) \<le> sat_sub now (fs_last_activity_ms f))
         (sr_flows s))"

definition reorder_expire_flow :: "u64 \<Rightarrow> receive_key \<times> u64 \<Rightarrow> session_reorder \<Rightarrow> session_reorder" where
  "reorder_expire_flow now = (\<lambda>(key, watermark) s.
     reorder_insert_tombstone key watermark now (forget_flow key s))"

definition skip_order :: "receive_key \<Rightarrow> flow_id \<times> u32 \<times> byte" where
  "skip_order k = (rk_flow k, rk_key_epoch k, dir_to_wire (rk_direction k))"

definition reorder_expire :: "session_reorder \<Rightarrow> u64 \<Rightarrow> session_reorder \<times> expire_report" where
  "reorder_expire s now =
     (let gaps_before = rm_gaps_skipped (sr_metrics s);
          skipped_before = rm_packets_skipped (sr_metrics s);
          s = reorder_purge_expired_tombstones now s;
          idle = reorder_idle_flows now s;
          s = fold (reorder_expire_flow now) idle s;
          flows_expired = length idle;
          s = count (rm_flows_expired_idle_update
                (\<lambda>n. sat_add n (word_of_nat flows_expired))) s;
          order = sort_key skip_order (map fst (sr_flows s));
          (s, delivered) = fold (\<lambda>key (s, out). skip_loop s key now out) order (s, []);
          report = \<lparr>er_delivered = delivered,
            er_gaps_skipped = sat_sub (rm_gaps_skipped (sr_metrics s)) gaps_before,
            er_packets_skipped = sat_sub (rm_packets_skipped (sr_metrics s)) skipped_before,
            er_flows_expired = flows_expired\<rparr>
      in (reorder_refresh_counts s, report))"

definition reorder_metrics_of :: "session_reorder \<Rightarrow> reorder_metrics" where
  "reorder_metrics_of s = (sr_metrics s)\<lparr>rm_flows := length (sr_flows s),
     rm_tombstones := length (sr_tombstones s),
     rm_buffered_packets := sum_list (map (\<lambda>(k, f). length (fs_buffer f)) (sr_flows s)),
     rm_buffered_bytes := sr_buffered_bytes_session s\<rparr>"

end
