(* ===== verification/ReorderProps.thy ===== *)
theory ReorderProps
  imports Reorder
begin

text \<open>
  What the reorder buffer promises, for every sequence of arrivals and clock advances and
  every iteration order of its maps: bounded and exactly accounted state, deliveries of a
  flow in strictly increasing order, held packets that are never replaced, independence of
  the flows, deadlines on held packets, and protection of retired flows against replays.
\<close>

section \<open>The draining loop\<close>

definition held_bytes :: "(u64 \<times> buffered_packet) list \<Rightarrow> nat" where
  "held_bytes m = sum_list (map (\<lambda>e. length (bp_payload (snd e))) m)"

text \<open>Between two turns the head may be held; when the loop ends it is not.\<close>

definition drainable :: "flow_state \<Rightarrow> bool" where
  "drainable f \<longleftrightarrow> bt_ok (fs_buffer f) \<and> (\<forall>i \<in> keys (fs_buffer f). fs_next_expected f \<le> i) \<and>
     fs_buffered_bytes f = held_bytes (fs_buffer f) \<and> (fs_exhausted f \<longrightarrow> fs_buffer f = [])"

definition settled :: "flow_state \<Rightarrow> bool" where
  "settled f \<longleftrightarrow> drainable f \<and> (\<forall>i \<in> keys (fs_buffer f). fs_next_expected f < i)"

text \<open>The packets a drain hands over: in order, held before, from the old head to the new one.\<close>

definition released :: "flow_state \<Rightarrow> flow_state \<Rightarrow> (packet_id \<times> payload) list \<Rightarrow> bool" where
  "released f f' d \<longleftrightarrow> sorted_wrt (<) (map fst d) \<and>
     (\<forall>(i, p) \<in> set d. fs_next_expected f \<le> i \<and> (fs_exhausted f' \<or> i < fs_next_expected f') \<and>
        (\<exists>h. map_of (fs_buffer f) i = Some h \<and> bp_payload h = p))"

lemma held_bytes_remove:
  "bt_ok m \<Longrightarrow> map_of m i = Some h \<Longrightarrow>
    held_bytes m = length (bp_payload h) + held_bytes (kt_remove i m)"
  unfolding held_bytes_def using sum_list_remove [OF bt_ok_distinct] by fastforce

lemma drainable_turn:
  assumes f: "drainable f" and "map_of (fs_buffer f) (fs_next_expected f) = Some held"
    and "fs_next_expected f \<noteq> - 1" and "\<not> fs_exhausted f"
  shows "drainable (f\<lparr>fs_buffer := kt_remove (fs_next_expected f) (fs_buffer f),
    fs_buffered_bytes := fs_buffered_bytes f - length (bp_payload held),
    fs_next_expected := fs_next_expected f + 1\<rparr>)"
proof -
  have "fs_next_expected f + 1 \<le> i" if "i \<in> keys (kt_remove (fs_next_expected f) (fs_buffer f))" for i
  proof -
    from that have "i \<in> keys (fs_buffer f)" "i \<noteq> fs_next_expected f" by (auto simp: set_kt_remove)
    with f have "fs_next_expected f < i" unfolding drainable_def by force
    then show ?thesis by (rule inc_le)
  qed
  with assms held_bytes_remove [of "fs_buffer f"] show ?thesis
    by (simp add: drainable_def bt.ok_remove)
qed

lemma exhausted_empty:
  assumes "drainable f" and "fs_next_expected f = - 1"
  shows "kt_remove (- 1) (fs_buffer f) = []"
proof -
  have "i = - 1" if "i \<in> keys (fs_buffer f)" for i
    using assms that by (auto simp: drainable_def word_order.extremum_unique)
  then show ?thesis by (auto simp: kt_remove_def filter_empty_conv)
qed

lemma drain_settles:
  "drainable f \<Longrightarrow> (case drain f b out of (f', b', out') \<Rightarrow>
     settled f' \<and> set (fs_buffer f') \<subseteq> set (fs_buffer f) \<and>
     length (fs_buffer f') \<le> length (fs_buffer f) \<and>
     fs_traffic_class f' = fs_traffic_class f \<and> fs_next_expected f \<le> fs_next_expected f' \<and>
     fs_buffered_bytes f' \<le> fs_buffered_bytes f \<and>
     (fs_buffered_bytes f \<le> b \<longrightarrow> b' + fs_buffered_bytes f = b + fs_buffered_bytes f'))"
proof (induction f b out rule: drain_induct)
  case (stop f b out)
  have "fs_next_expected f \<notin> keys (fs_buffer f)"
    using stop by (auto simp: drainable_def map_of_eq_None_iff)
  with stop(2) show ?case by (force simp: settled_def drainable_def)
next
  case (last f b out held)
  from last.prems last.hyps have e: "kt_remove (- 1) (fs_buffer f) = []" by (rule_tac exhausted_empty)
  with last have "fs_buffered_bytes f = length (bp_payload held)"
    using held_bytes_remove [of "fs_buffer f" "- 1" held] by (simp add: drainable_def held_bytes_def)
  with last e show ?case
    by (auto simp: settled_def drainable_def bt.ok_Nil held_bytes_def)
next
  case (step f b out held r)
  let ?f = "f\<lparr>fs_buffer := kt_remove (fs_next_expected f) (fs_buffer f),
    fs_buffered_bytes := fs_buffered_bytes f - length (bp_payload held),
    fs_next_expected := fs_next_expected f + 1\<rparr>"
  have turn: "drainable ?f" by (rule drainable_turn [OF step.prems step.hyps(3,2,1)])
  have bytes: "length (bp_payload held) \<le> fs_buffered_bytes f"
    using held_bytes_remove [OF _ step.hyps(3)] step.prems by (simp add: drainable_def)
  have "fs_next_expected f \<le> fs_next_expected f + 1"
    using step.hyps(2) by (simp add: word_le_nat_alt unat_inc)
  with step.IH [OF turn] bytes show ?case
    using length_kt_remove_Some [OF step.hyps(3)]
    by (auto simp: set_kt_remove split: prod.splits)
qed

lemma released_Cons:
  assumes f: "drainable f" "\<not> fs_exhausted f" "fs_next_expected f \<noteq> - 1"
    and h: "map_of (fs_buffer f) (fs_next_expected f) = Some held"
    and d: "released (f\<lparr>fs_buffer := kt_remove (fs_next_expected f) (fs_buffer f),
      fs_buffered_bytes := b, fs_next_expected := fs_next_expected f + 1\<rparr>) f' d"
    and le: "fs_next_expected f + 1 \<le> fs_next_expected f'"
  shows "released f f' ((fs_next_expected f, bp_payload held) # d)"
proof -
  let ?n = "fs_next_expected f"
  have lt: "?n < ?n + 1" using f(3) by (simp add: word_less_nat_alt unat_inc)
  have "?n \<le> i \<and> ?n < i \<and> (fs_exhausted f' \<or> i < fs_next_expected f') \<and>
      (\<exists>h. map_of (fs_buffer f) i = Some h \<and> bp_payload h = p)" if "(i, p) \<in> set d" for i p
  proof -
    from that d have i: "?n + 1 \<le> i" "fs_exhausted f' \<or> i < fs_next_expected f'"
      and h: "\<exists>h. map_of (kt_remove ?n (fs_buffer f)) i = Some h \<and> bp_payload h = p"
      unfolding released_def by auto
    with lt have "?n < i" by simp
    with i h show ?thesis by (auto simp: map_of_remove split: if_splits)
  qed
  moreover have "?n < fs_next_expected f'" using lt le by simp
  ultimately show ?thesis
    using d h by (fastforce simp: released_def)
qed

lemma drain_released:
  "drainable f \<Longrightarrow> (case drain f b out of (f', b', out') \<Rightarrow>
     fs_next_expected f \<le> fs_next_expected f' \<and> (\<exists>d. out' = out @ d \<and> released f f' d))"
proof (induction f b out rule: drain_induct)
  case (stop f b out)
  then show ?case by (simp add: released_def)
next
  case (last f b out held)
  then show ?case by (simp add: released_def)
next
  case (step f b out held r)
  let ?f = "f\<lparr>fs_buffer := kt_remove (fs_next_expected f) (fs_buffer f),
    fs_buffered_bytes := fs_buffered_bytes f - length (bp_payload held),
    fs_next_expected := fs_next_expected f + 1\<rparr>"
  have turn: "drainable ?f" by (rule drainable_turn [OF step.prems step.hyps(3,2,1)])
  obtain f' b' out' where r: "r = (f', b', out')" by (cases r)
  with step.IH [OF turn] obtain d where d: "out' = (out @ [(fs_next_expected f, bp_payload held)]) @ d"
    "released ?f f' d" by auto
  have le: "fs_next_expected f + 1 \<le> fs_next_expected f'"
    using step.IH [OF turn] r by simp
  moreover have "fs_next_expected f \<le> fs_next_expected f + 1"
    using step.hyps(2) by (simp add: word_le_nat_alt unat_inc)
  ultimately have "fs_next_expected f \<le> fs_next_expected f'" by (rule order_trans [rotated])
  with released_Cons [OF step.prems step.hyps(1,2,3) d(2) le] d(1) r show ?case by auto
qed

section \<open>The invariant\<close>

definition flow_inv :: "reorder_limits \<Rightarrow> flow_state \<Rightarrow> bool" where
  "flow_inv l f \<longleftrightarrow> settled f \<and> length (fs_buffer f) \<le> rl_max_packets_per_flow l \<and>
     fs_buffered_bytes f \<le> rl_max_bytes_per_flow l \<and>
     (\<forall>i \<in> keys (fs_buffer f). i - fs_next_expected f \<le> rl_max_future_gap l)"

definition flow_bytes :: "(receive_key \<times> flow_state) list \<Rightarrow> nat" where
  "flow_bytes m = sum_list (map (\<lambda>e. fs_buffered_bytes (snd e)) m)"

text \<open>The byte limits of a real configuration are below the largest \<open>usize\<close>.\<close>

definition sane_limits :: "reorder_limits \<Rightarrow> bool" where
  "sane_limits l \<longleftrightarrow> reorder_validate l = Inr () \<and> rl_max_bytes_per_flow l < usize_max \<and>
     rl_max_bytes_per_session l < usize_max"

definition reorder_ok :: "session_reorder \<Rightarrow> bool" where
  "reorder_ok s \<longleftrightarrow> sane_limits (sr_limits s) \<and> hm_ok (sr_flows s) \<and> hm_ok (sr_tombstones s) \<and>
     length (sr_flows s) \<le> rl_max_flows (sr_limits s) \<and>
     length (sr_tombstones s) \<le> rl_max_tombstones (sr_limits s) \<and>
     (\<forall>e \<in> set (sr_flows s). flow_inv (sr_limits s) (snd e)) \<and>
     keys (sr_flows s) \<inter> keys (sr_tombstones s) = {} \<and>
     sr_buffered_bytes_session s = flow_bytes (sr_flows s) \<and>
     sr_buffered_bytes_session s \<le> rl_max_bytes_per_session (sr_limits s)"

lemma sane_pos: "sane_limits l \<Longrightarrow> 0 < rl_max_flows l \<and> 0 < rl_max_tombstones l"
  by (simp add: sane_limits_def reorder_validate_def split: if_splits)

lemma reorder_fields [simp]:
  "sr_limits (reorder_refresh_counts s) = sr_limits s" "sr_flows (reorder_refresh_counts s) = sr_flows s"
  "sr_tombstones (reorder_refresh_counts s) = sr_tombstones s"
  "sr_buffered_bytes_session (reorder_refresh_counts s) = sr_buffered_bytes_session s"
  "sr_limits (reorder_purge_expired_tombstones now s) = sr_limits s"
  "sr_flows (reorder_purge_expired_tombstones now s) = sr_flows s"
  "sr_tombstones (reorder_purge_expired_tombstones now s) = live_tombstones now (sr_tombstones s)"
  "sr_buffered_bytes_session (reorder_purge_expired_tombstones now s) = sr_buffered_bytes_session s"
  "sr_limits (reorder_insert_tombstone k w now s) = sr_limits s"
  "sr_flows (reorder_insert_tombstone k w now s) = sr_flows s"
  "sr_buffered_bytes_session (reorder_insert_tombstone k w now s) = sr_buffered_bytes_session s"
  "sr_limits (forget_flow k s) = sr_limits s"
  "sr_tombstones (forget_flow k s) = sr_tombstones s"
  by (simp_all add: reorder_refresh_counts_def reorder_purge_expired_tombstones_def
      reorder_insert_tombstone_def forget_flow_def Let_def split: option.splits)

lemma reorder_insert_tombstone_table:
  "sr_tombstones (reorder_insert_tombstone k w now s) =
     bury (rl_max_tombstones (sr_limits s)) (rl_tombstone_ttl_ms (sr_limits s)) k w now (sr_tombstones s)"
  by (simp add: reorder_insert_tombstone_def bury_def tombstone_room_def Let_def split: option.splits)

lemma forget_flow_flows: "sr_flows (forget_flow k s) = kt_remove k (sr_flows s)"
  by (auto simp: forget_flow_def map_of_eq_None_iff sum_list_remove_absent split: option.splits)

lemma reorder_ok_tables:
  "reorder_ok s \<Longrightarrow> sr_limits s' = sr_limits s \<Longrightarrow> sr_flows s' = sr_flows s \<Longrightarrow>
    sr_tombstones s' = sr_tombstones s \<Longrightarrow>
    sr_buffered_bytes_session s' = sr_buffered_bytes_session s \<Longrightarrow> reorder_ok s'"
  by (simp add: reorder_ok_def)

lemma reorder_ok_count [simp]:
  "reorder_ok (count g s) = reorder_ok s" "reorder_ok (reorder_refresh_counts s) = reorder_ok s"
  by (simp_all add: reorder_ok_def)

lemma reorder_ok_drop_tombstones:
  "reorder_ok s \<Longrightarrow> reorder_ok (s\<lparr>sr_tombstones := filter P (sr_tombstones s)\<rparr>)"
  by (auto simp: reorder_ok_def hm.ok_filter intro: order_trans [OF length_filter_le])

lemma reorder_ok_purge: "reorder_ok s \<Longrightarrow> reorder_ok (reorder_purge_expired_tombstones now s)"
  unfolding reorder_purge_expired_tombstones_def Let_def
  by (simp add: live_tombstones_def kt_retain_def reorder_ok_drop_tombstones)

lemma forget_flow_bytes:
  assumes "hm_ok (sr_flows s)" and "sr_buffered_bytes_session s = flow_bytes (sr_flows s)"
  shows "sr_buffered_bytes_session (forget_flow k s) = flow_bytes (kt_remove k (sr_flows s))"
proof (cases "map_of (sr_flows s) k")
  case None
  then have "kt_remove k (sr_flows s) = sr_flows s"
    by (simp add: map_of_eq_None_iff sum_list_remove_absent)
  with None assms show ?thesis by (simp add: forget_flow_def)
next
  case (Some f)
  from sum_list_remove [OF hm.ok_distinct [OF assms(1)] Some, of "\<lambda>e. fs_buffered_bytes (snd e)"]
  have "flow_bytes (sr_flows s) = fs_buffered_bytes f + flow_bytes (kt_remove k (sr_flows s))"
    by (simp add: flow_bytes_def)
  with Some assms show ?thesis by (simp add: forget_flow_def)
qed

text \<open>A flow retires: it is forgotten and a tombstone takes its place.\<close>

lemma reorder_ok_retire:
  assumes s: "reorder_ok s"
  shows "reorder_ok (reorder_insert_tombstone k w now (forget_flow k s))"
proof -
  have ok: "hm_ok (sr_flows s)" "hm_ok (sr_tombstones s)"
    "sr_buffered_bytes_session s = flow_bytes (sr_flows s)"
    using s by (simp_all add: reorder_ok_def)
  note t = bury_facts [OF ok(2), of "rl_max_tombstones (sr_limits s)" "rl_tombstone_ttl_ms (sr_limits s)" k w now]
  have "0 < rl_max_tombstones (sr_limits s)" using s sane_pos by (auto simp: reorder_ok_def)
  moreover have "flow_bytes (kt_remove k (sr_flows s)) \<le> flow_bytes (sr_flows s)"
    using forget_flow_bytes [OF ok(1,3), of k] ok(3) by (auto simp: forget_flow_def split: option.splits)
  ultimately show ?thesis
    using s t forget_flow_bytes [OF ok(1,3), of k]
    by (auto simp: reorder_ok_def reorder_insert_tombstone_table forget_flow_flows hm.ok_remove
        set_kt_remove intro: order_trans [OF length_kt_remove_le])
qed

text \<open>A flow is replaced: the session's byte count moves with the flow's.\<close>

lemma reorder_ok_put:
  assumes s: "reorder_ok s" and k: "map_of (sr_flows s) k = Some f"
    and f': "flow_inv (sr_limits s) f'"
    and b: "b + fs_buffered_bytes f = sr_buffered_bytes_session s + fs_buffered_bytes f'"
    and le: "b \<le> rl_max_bytes_per_session (sr_limits s)"
  shows "reorder_ok (s\<lparr>sr_flows := hm_insert k f' (sr_flows s), sr_buffered_bytes_session := b\<rparr>)"
proof -
  have ok: "hm_ok (sr_flows s)" using s by (simp add: reorder_ok_def)
  have kk: "k \<in> keys (sr_flows s)" using map_of_SomeD [OF k] by force
  have "flow_bytes (hm_insert k f' (sr_flows s)) + fs_buffered_bytes f =
      flow_bytes (sr_flows s) + fs_buffered_bytes f'"
    using sum_hm_insert [OF ok k, of "\<lambda>e. fs_buffered_bytes (snd e)" f'] by (simp add: flow_bytes_def)
  with b s have "b = flow_bytes (hm_insert k f' (sr_flows s))" by (simp add: reorder_ok_def)
  with s f' le kk show ?thesis
    by (auto simp: reorder_ok_def hm.ok_ins hm.length_ins [OF ok] hm.set_ins [OF ok]
        hm.keys_ins [OF ok])
qed

lemma word_gap_mono:
  "(n::u64) \<le> n' \<Longrightarrow> n' \<le> i \<Longrightarrow> i - n' \<le> i - n"
  by (simp add: word_le_nat_alt unat_sub)

lemma settled_drainable: "settled f \<Longrightarrow> drainable f"
  by (simp add: settled_def)

lemma settled_time [simp]: "settled (f\<lparr>fs_last_activity_ms := t\<rparr>) = settled f"
  by (simp add: settled_def drainable_def)

lemma flow_inv_time [simp]: "flow_inv l (f\<lparr>fs_last_activity_ms := t\<rparr>) = flow_inv l f"
  by (simp add: flow_inv_def)

text \<open>Draining from a head at or above the old one keeps the invariant of a flow.\<close>

lemma flow_inv_drain:
  assumes f: "flow_inv l f" and n: "fs_next_expected f \<le> n" "\<forall>i \<in> keys (fs_buffer f). n \<le> i"
    and d: "drain (f\<lparr>fs_next_expected := n\<rparr>) b out = (f', b', out')"
    and b: "fs_buffered_bytes f \<le> b"
  shows "flow_inv l f'" and "b' + fs_buffered_bytes f = b + fs_buffered_bytes f'"
    and "fs_traffic_class f' = fs_traffic_class f" and "n \<le> fs_next_expected f'"
    and "b' \<le> b" and "map_of (fs_buffer f') \<subseteq>\<^sub>m map_of (fs_buffer f)"
proof -
  have "drainable (f\<lparr>fs_next_expected := n\<rparr>)"
    using f n(2) by (simp add: flow_inv_def settled_def drainable_def)
  from drain_settles [OF this, of b out] d b
  have r: "settled f'" "set (fs_buffer f') \<subseteq> set (fs_buffer f)"
      "length (fs_buffer f') \<le> length (fs_buffer f)" "n \<le> fs_next_expected f'"
      "fs_buffered_bytes f' \<le> fs_buffered_bytes f"
    and "fs_traffic_class f' = fs_traffic_class f"
      "b' + fs_buffered_bytes f = b + fs_buffered_bytes f'" by auto
  moreover have "i - fs_next_expected f' \<le> rl_max_future_gap l" if "i \<in> keys (fs_buffer f')" for i
  proof -
    have "fs_next_expected f' \<le> i" using r(1) that by (auto simp: settled_def drainable_def)
    moreover have "fs_next_expected f \<le> fs_next_expected f'" using n(1) r(4) by simp
    ultimately have "i - fs_next_expected f' \<le> i - fs_next_expected f" by (rule word_gap_mono [rotated])
    also have "\<dots> \<le> rl_max_future_gap l" using f that r(2) by (auto simp: flow_inv_def)
    finally show ?thesis .
  qed
  ultimately show "flow_inv l f'" "b' + fs_buffered_bytes f = b + fs_buffered_bytes f'"
    "fs_traffic_class f' = fs_traffic_class f" "n \<le> fs_next_expected f'" "b' \<le> b"
    using f by (auto simp: flow_inv_def)
  have "distinct (map fst (fs_buffer f))" "distinct (map fst (fs_buffer f'))"
    using f r(1) by (auto simp: flow_inv_def settled_def drainable_def dest: bt_ok_distinct)
  with r(2) show "map_of (fs_buffer f') \<subseteq>\<^sub>m map_of (fs_buffer f)"
    by (auto simp: map_le_def dom_def map_of_in_set)
qed

lemma flow_bytes_le:
  assumes "reorder_ok s" and "map_of (sr_flows s) k = Some f"
  shows "fs_buffered_bytes f \<le> sr_buffered_bytes_session s" and "flow_inv (sr_limits s) f"
proof -
  have "hm_ok (sr_flows s)" using assms(1) by (simp add: reorder_ok_def)
  from sum_list_remove [OF hm.ok_distinct [OF this] assms(2), of "\<lambda>e. fs_buffered_bytes (snd e)"] assms(1)
  show "fs_buffered_bytes f \<le> sr_buffered_bytes_session s"
    by (simp add: reorder_ok_def flow_bytes_def)
  show "flow_inv (sr_limits s) f"
    using assms map_of_SomeD [OF assms(2)] by (force simp: reorder_ok_def)
qed

lemma head_least: "bt_ok m \<Longrightarrow> m = (i, h) # rest \<Longrightarrow> j \<in> keys m \<Longrightarrow> i \<le> j"
  using bt_first_least [of "(i, h)" rest] by force

lemma skips_flow:
  assumes s: "reorder_ok s" and k: "skips s key now flow s' d"
  obtains f' i where "map_of (sr_flows s) key = Some flow"
    and "map_of (sr_flows s') key = Some f'" and "flow_inv (sr_limits s) f'"
    and "sr_flows s' = hm_insert key f' (sr_flows s)"
    and "fs_next_expected flow < i" and "i \<le> fs_next_expected f'" and "i \<in> keys (fs_buffer flow)"
    and "fs_traffic_class f' = fs_traffic_class flow"
    and "released (flow\<lparr>fs_next_expected := i\<rparr>) f' d" and "reorder_ok s'"
    and "map_of (fs_buffer f') \<subseteq>\<^sub>m map_of (fs_buffer flow)"
proof -
  from k obtain i held rest g where f: "map_of (sr_flows s) key = Some flow"
    "fs_buffer flow = (i, held) # rest" "fs_next_expected flow < i"
    and d: "drain (flow\<lparr>fs_next_expected := i\<rparr>) (sr_buffered_bytes_session s) [] =
      (g, sr_buffered_bytes_session s', d)"
    and s': "sr_flows s' = hm_insert key (g\<lparr>fs_last_activity_ms := now\<rparr>) (sr_flows s)"
      "sr_limits s' = sr_limits s" "sr_tombstones s' = sr_tombstones s"
    unfolding skips_def by blast
  let ?f = "g\<lparr>fs_last_activity_ms := now\<rparr>"
  note fi = flow_bytes_le [OF s f(1)]
  then have bt: "bt_ok (fs_buffer flow)" by (simp add: flow_inv_def settled_def drainable_def)
  have le: "\<forall>j \<in> keys (fs_buffer flow). i \<le> j" using head_least [OF bt f(2)] by blast
  note inv = flow_inv_drain [OF fi(2) less_imp_le [OF f(3)] le d fi(1)]
  have "drainable (flow\<lparr>fs_next_expected := i\<rparr>)"
    using fi(2) le by (simp add: flow_inv_def settled_def drainable_def)
  from drain_released [OF this, where b = "sr_buffered_bytes_session s" and out = "[]"] d
  have "released (flow\<lparr>fs_next_expected := i\<rparr>) ?f d" by (simp add: released_def)
  moreover have "reorder_ok s'"
  proof (rule reorder_ok_tables [OF reorder_ok_put [OF s f(1)]])
    show "flow_inv (sr_limits s) ?f" using inv(1) by simp
    show "sr_buffered_bytes_session s' + fs_buffered_bytes flow =
        sr_buffered_bytes_session s + fs_buffered_bytes ?f" using inv(2) by simp
    show "sr_buffered_bytes_session s' \<le> rl_max_bytes_per_session (sr_limits s)"
      using inv(5) s by (simp add: reorder_ok_def)
  qed (simp_all add: s')
  moreover have "i \<in> keys (fs_buffer flow)" by (simp add: f(2))
  ultimately show ?thesis
    using that [of ?f i] f s' inv by (simp add: map_of_hm_insert)
qed

section \<open>What an arrival does to its flow\<close>

text \<open>
  Delivered packets are in order, between the old head and the new one, and are the arrival
  itself or packets held before; an exhausted flow delivers nothing more.
\<close>

definition delivers :: "flow_state \<Rightarrow> flow_state \<Rightarrow> packet_id \<Rightarrow> payload
    \<Rightarrow> (packet_id \<times> payload) list \<Rightarrow> bool" where
  "delivers f f' pid payload d \<longleftrightarrow>
     sorted_wrt (<) (map fst d) \<and> fs_next_expected f \<le> fs_next_expected f' \<and>
     (fs_exhausted f \<longrightarrow> fs_exhausted f' \<and> d = []) \<and>
     (\<forall>(i, p) \<in> set d. fs_next_expected f \<le> i \<and> (fs_exhausted f' \<or> i < fs_next_expected f') \<and>
        (i = pid \<and> p = payload \<or> (\<exists>h. map_of (fs_buffer f) i = Some h \<and> bp_payload h = p))) \<and>
     (\<forall>i h. map_of (fs_buffer f') i = Some h \<longrightarrow> map_of (fs_buffer f) i = Some h \<or>
        map_of (fs_buffer f) i = None \<and> i = pid \<and> bp_payload h = payload)"

definition moves :: "session_reorder \<Rightarrow> receive_key \<Rightarrow> flow_state \<Rightarrow> session_reorder \<Rightarrow> packet_id
    \<Rightarrow> payload \<Rightarrow> (packet_id \<times> payload) list \<Rightarrow> bool" where
  "moves s k f s' pid payload d \<longleftrightarrow> reorder_ok s' \<and> sr_limits s' = sr_limits s \<and>
     sr_tombstones s' = sr_tombstones s \<and>
     (\<exists>f'. map_of (sr_flows s') = (map_of (sr_flows s))(k \<mapsto> f') \<and>
        fs_traffic_class f' = fs_traffic_class f \<and> delivers f f' pid payload d)"

lemma deliversD:
  assumes "delivers f f' pid payload d"
  shows "sorted_wrt (<) (map fst d)" and "fs_next_expected f \<le> fs_next_expected f'"
    and "fs_exhausted f \<Longrightarrow> fs_exhausted f' \<and> d = []"
    and "(i, p) \<in> set d \<Longrightarrow> fs_next_expected f \<le> i \<and> (fs_exhausted f' \<or> i < fs_next_expected f')"
    and "(i, p) \<in> set d \<Longrightarrow> i = pid \<and> p = payload \<or> (\<exists>h. map_of (fs_buffer f) i = Some h \<and> bp_payload h = p)"
    and "map_of (fs_buffer f') i = Some h \<Longrightarrow> map_of (fs_buffer f) i = Some h \<or>
        map_of (fs_buffer f) i = None \<and> i = pid \<and> bp_payload h = payload"
  using assms by (simp_all add: delivers_def case_prod_beta) fastforce+

lemma delivers_same: "fs_exhausted f' = fs_exhausted f \<Longrightarrow> fs_next_expected f' = fs_next_expected f \<Longrightarrow>
    fs_buffer f' = fs_buffer f \<Longrightarrow> delivers f f' pid payload []"
  by (simp add: delivers_def)

lemma delivers_subset:
  "map_of (fs_buffer f') \<subseteq>\<^sub>m map_of (fs_buffer f) \<Longrightarrow> map_of (fs_buffer f') i = Some h \<Longrightarrow>
    map_of (fs_buffer f) i = Some h"
  by (auto simp: map_le_def dom_def)

lemma put_time:
  assumes "reorder_ok s" and "map_of (sr_flows s) k = Some f"
  shows "reorder_ok (s\<lparr>sr_flows := hm_insert k (f\<lparr>fs_last_activity_ms := now\<rparr>) (sr_flows s)\<rparr>)"
  using reorder_ok_put [OF assms, of "f\<lparr>fs_last_activity_ms := now\<rparr>" "sr_buffered_bytes_session s"]
    flow_bytes_le(2) [OF assms] assms(1)
  by (auto simp: reorder_ok_def intro: reorder_ok_tables)

lemma moves_touch:
  "reorder_ok s \<Longrightarrow> map_of (sr_flows s) k = Some f \<Longrightarrow>
    moves s k f (count g (s\<lparr>sr_flows := hm_insert k (f\<lparr>fs_last_activity_ms := now\<rparr>) (sr_flows s)\<rparr>))
      pid payload []"
  by (auto simp: moves_def map_of_hm_insert put_time intro!: exI [of _ "f\<lparr>fs_last_activity_ms := now\<rparr>"]
      delivers_same)

lemma moves_none:
  "reorder_ok s \<Longrightarrow> map_of (sr_flows s) k = Some f \<Longrightarrow> moves s k f (count g s) pid payload []"
  by (auto simp: moves_def fun_upd_idem intro!: exI [of _ f] delivers_same)

lemma moves_skip:
  assumes s: "reorder_ok s" and k: "skips s key now f s' d"
  shows "moves s key f s' pid payload d"
proof -
  from skips_flow [OF s k] obtain f' i where f: "map_of (sr_flows s) key = Some f"
    and f': "sr_flows s' = hm_insert key f' (sr_flows s)" "fs_next_expected f < i"
      "i \<le> fs_next_expected f'" "fs_traffic_class f' = fs_traffic_class f"
    and d: "released (f\<lparr>fs_next_expected := i\<rparr>) f' d" and ok: "reorder_ok s'"
    and sub: "map_of (fs_buffer f') \<subseteq>\<^sub>m map_of (fs_buffer f)" by metis
  have "\<not> fs_exhausted f" using k by (auto simp: skips_def)
  with f' d have "delivers f f' pid payload d"
    unfolding delivers_def released_def
    by (intro conjI) (force dest: delivers_subset [OF sub])+
  with k ok f' show ?thesis by (auto simp: moves_def skips_def map_of_hm_insert)
qed

text \<open>The contiguous head: the arrival, then the chain it frees.\<close>

lemma moves_head:
  assumes s: "reorder_ok s" and k: "map_of (sr_flows s) key = Some f" and ex: "\<not> fs_exhausted f"
    and n: "fs_next_expected f \<noteq> - 1"
    and d: "drain (f\<lparr>fs_next_expected := fs_next_expected f + 1\<rparr>) (sr_buffered_bytes_session s)
      [(fs_next_expected f, payload)] = (g, b, d)"
  shows "moves s key f (count c (s\<lparr>sr_flows := hm_insert key (g\<lparr>fs_last_activity_ms := now\<rparr>) (sr_flows s),
    sr_buffered_bytes_session := b\<rparr>)) (fs_next_expected f) payload d"
proof -
  let ?n = "fs_next_expected f"
  let ?g = "g\<lparr>fs_last_activity_ms := now\<rparr>"
  note fi = flow_bytes_le [OF s k]
  have lt: "?n < ?n + 1" using n by (simp add: word_less_nat_alt unat_inc)
  have le: "\<forall>i \<in> keys (fs_buffer f). ?n + 1 \<le> i"
    using fi(2) by (auto simp: flow_inv_def settled_def intro: inc_le)
  note inv = flow_inv_drain [OF fi(2) less_imp_le [OF lt] le d fi(1)]
  have "drainable (f\<lparr>fs_next_expected := ?n + 1\<rparr>)"
    using fi(2) le by (simp add: flow_inv_def settled_def drainable_def)
  from drain_released [OF this, where b = "sr_buffered_bytes_session s" and out = "[(?n, payload)]"] d
  obtain e where e: "d = (?n, payload) # e" "released (f\<lparr>fs_next_expected := ?n + 1\<rparr>) g e" by auto
  have "?n < i \<and> (fs_exhausted g \<or> i < fs_next_expected g)" if "(i, p) \<in> set e" for i p
    using e(2) that lt by (auto simp: released_def)
  moreover have "?n < fs_next_expected g" using inv(4) lt by simp
  ultimately have "delivers f ?g ?n payload d"
    using e ex unfolding delivers_def released_def
    by (intro conjI) (force dest: delivers_subset [OF inv(6)])+
  moreover have "reorder_ok (s\<lparr>sr_flows := hm_insert key ?g (sr_flows s), sr_buffered_bytes_session := b\<rparr>)"
  proof (rule reorder_ok_put [OF s k])
    show "flow_inv (sr_limits s) ?g" using inv(1) by simp
    show "b \<le> rl_max_bytes_per_session (sr_limits s)" using inv(5) s by (simp add: reorder_ok_def)
    show "b + fs_buffered_bytes f = sr_buffered_bytes_session s + fs_buffered_bytes ?g"
      using inv(2) by simp
  qed
  ultimately show ?thesis using inv(3) by (auto simp: moves_def map_of_hm_insert)
qed

text \<open>The last identifier of all.\<close>

lemma moves_exhaust:
  assumes s: "reorder_ok s" and k: "map_of (sr_flows s) key = Some f" and ex: "\<not> fs_exhausted f"
    and n: "fs_next_expected f = - 1"
  shows "moves s key f (count c (s\<lparr>sr_flows := hm_insert key
      (f\<lparr>fs_exhausted := True, fs_last_activity_ms := now\<rparr>) (sr_flows s)\<rparr>)) (- 1) payload [(- 1, payload)]"
proof -
  let ?g = "f\<lparr>fs_exhausted := True, fs_last_activity_ms := now\<rparr>"
  note fi = flow_bytes_le [OF s k]
  have "keys (fs_buffer f) = {}"
  proof (rule equals0I)
    fix i assume "i \<in> keys (fs_buffer f)"
    with fi(2) n have "- 1 < i" unfolding flow_inv_def settled_def by simp
    then show False using word_n1_ge [of i] by simp
  qed
  then have "fs_buffer f = []" by simp
  with fi(2) have "flow_inv (sr_limits s) ?g"
    by (simp add: flow_inv_def settled_def drainable_def)
  from reorder_ok_put [OF s k this, of "sr_buffered_bytes_session s"] s
  have "reorder_ok (s\<lparr>sr_flows := hm_insert key ?g (sr_flows s)\<rparr>)"
    by (auto simp: reorder_ok_def intro: reorder_ok_tables)
  moreover have "delivers f ?g (- 1) payload [(- 1, payload)]"
    using ex n by (simp add: delivers_def)
  ultimately show ?thesis by (auto simp: moves_def map_of_hm_insert)
qed

text \<open>An arrival behind a gap is held, and may make a skip due at once.\<close>

lemma held_bytes_insert:
  "bt_ok m \<Longrightarrow> i \<notin> keys m \<Longrightarrow> held_bytes (bt_insert i h m) = length (bp_payload h) + held_bytes m"
  unfolding held_bytes_def by (subst bt.sum_ins_new) auto

lemma usize_add_bounded: "usize_add a b \<le> c \<Longrightarrow> c < usize_max \<Longrightarrow> usize_add a b = a + b"
  by (simp add: usize_add_def min_def split: if_splits)

lemma hold_ok:
  assumes s: "reorder_ok s" and k: "map_of (sr_flows s) key = Some f" and ex: "\<not> fs_exhausted f"
    and pid: "fs_next_expected f < pid" "pid \<notin> keys (fs_buffer f)"
    and gap: "sat_sub pid (fs_next_expected f) \<le> rl_max_future_gap (sr_limits s)"
    and room: "length (fs_buffer f) < rl_max_packets_per_flow (sr_limits s)"
      "usize_add (fs_buffered_bytes f) (length payload) \<le> rl_max_bytes_per_flow (sr_limits s)"
      "usize_add (sr_buffered_bytes_session s) (length payload) \<le> rl_max_bytes_per_session (sr_limits s)"
    and g: "g = f\<lparr>fs_buffer := bt_insert pid \<lparr>bp_payload = payload, bp_arrived_at_ms = now\<rparr> (fs_buffer f),
      fs_buffered_bytes := usize_add (fs_buffered_bytes f) (length payload), fs_last_activity_ms := now\<rparr>"
    and s': "s' = s\<lparr>sr_flows := hm_insert key g (sr_flows s),
      sr_buffered_bytes_session := usize_add (sr_buffered_bytes_session s) (length payload)\<rparr>"
  shows "reorder_ok s'"
proof -
  note fi = flow_bytes_le [OF s k]
  have bt: "bt_ok (fs_buffer f)" using fi(2) by (simp add: flow_inv_def settled_def drainable_def)
  have sane: "rl_max_bytes_per_flow (sr_limits s) < usize_max"
    "rl_max_bytes_per_session (sr_limits s) < usize_max"
    using s by (simp_all add: reorder_ok_def sane_limits_def)
  have bytes: "usize_add (fs_buffered_bytes f) (length payload) = fs_buffered_bytes f + length payload"
    "usize_add (sr_buffered_bytes_session s) (length payload) = sr_buffered_bytes_session s + length payload"
    using usize_add_bounded [OF room(2) sane(1)] usize_add_bounded [OF room(3) sane(2)] .
  have "settled g" using fi(2) pid ex bytes(1)
    by (simp add: g flow_inv_def settled_def drainable_def bt.ok_ins bt.keys_ins [OF bt]
        held_bytes_insert bt_ok_insert less_imp_le)
  moreover have "pid - fs_next_expected f \<le> rl_max_future_gap (sr_limits s)"
    using gap pid(1) by (auto simp: sat_sub_def not_le split: if_splits)
  ultimately have "flow_inv (sr_limits s) g"
    using fi(2) room bt pid(2) by (simp add: flow_inv_def g bt.keys_ins bt.length_ins)
  from reorder_ok_put [OF s k this] room(3) bytes show ?thesis by (simp add: s' g)
qed

lemma delivers_held:
  assumes g: "fs_next_expected g = fs_next_expected f" "\<not> fs_exhausted f"
      "map_of (fs_buffer g) = (map_of (fs_buffer f))(pid \<mapsto> h)" "bp_payload h = payload"
    and new: "map_of (fs_buffer f) pid = None" and d: "delivers g f' pid payload d"
  shows "delivers f f' pid payload d"
  unfolding delivers_def
proof (intro conjI allI impI ballI)
  show "sorted_wrt (<) (map fst d)" "fs_next_expected f \<le> fs_next_expected f'"
    using deliversD(1,2) [OF d] g(1) by simp_all
  show "fs_exhausted f'" "d = []" if "fs_exhausted f" using that g(2) by simp_all
  fix i h' assume "map_of (fs_buffer f') i = Some h'"
  from deliversD(6) [OF d this] g(3,4) new
  show "map_of (fs_buffer f) i = Some h' \<or> map_of (fs_buffer f) i = None \<and> i = pid \<and> bp_payload h' = payload"
    by (cases "i = pid") auto
next
  fix e assume "e \<in> set d"
  then obtain i p where e: "e = (i, p)" "(i, p) \<in> set d" by (metis surj_pair)
  show "case e of (i, p) \<Rightarrow> fs_next_expected f \<le> i \<and> (fs_exhausted f' \<or> i < fs_next_expected f') \<and>
      (i = pid \<and> p = payload \<or> (\<exists>h. map_of (fs_buffer f) i = Some h \<and> bp_payload h = p))"
    using deliversD(4,5) [OF d e(2)] e(1) g(1,3,4) by (cases "i = pid") auto
qed

lemma moves_gap:
  assumes s: "reorder_ok s" and k: "map_of (sr_flows s) key = Some f" and ex: "\<not> fs_exhausted f"
    and pid: "fs_next_expected f < pid" "pid \<notin> keys (fs_buffer f)"
    and r: "receive_gap s key f pid payload now = (s', r)"
  shows "moves s key f s' pid payload (ro_delivered r)"
proof (cases "rl_max_future_gap (sr_limits s) < sat_sub pid (fs_next_expected f) \<or>
    rl_max_packets_per_flow (sr_limits s) \<le> length (fs_buffer f) \<or>
    rl_max_bytes_per_flow (sr_limits s) < usize_add (fs_buffered_bytes f) (length payload) \<or>
    rl_max_bytes_per_session (sr_limits s) < usize_add (sr_buffered_bytes_session s) (length payload)")
  case True
  then obtain g reason where "s' = count g (s\<lparr>sr_flows := hm_insert key
      (f\<lparr>fs_last_activity_ms := now\<rparr>) (sr_flows s)\<rparr>)" and "r = outcome_dropped reason"
    using r by (auto simp: receive_gap_def Let_def split: if_splits)
  then show ?thesis using moves_touch [OF s k] by (simp add: outcome_dropped_def)
next
  case False
  let ?g = "f\<lparr>fs_buffer := bt_insert pid \<lparr>bp_payload = payload, bp_arrived_at_ms = now\<rparr> (fs_buffer f),
    fs_buffered_bytes := usize_add (fs_buffered_bytes f) (length payload), fs_last_activity_ms := now\<rparr>"
  let ?s = "s\<lparr>sr_flows := hm_insert key ?g (sr_flows s),
    sr_buffered_bytes_session := usize_add (sr_buffered_bytes_session s) (length payload)\<rparr>"
  have ok: "reorder_ok ?s"
    using False by (intro hold_ok [OF s k ex pid _ _ _ _ refl refl]) (auto simp: not_less not_le)
  have bt: "bt_ok (fs_buffer f)"
    using flow_bytes_le(2) [OF s k] by (simp add: flow_inv_def settled_def drainable_def)
  obtain o1 where o1: "skip_head_gap_if_expired ?s key now = (s', o1)"
    and r': "r = (case o1 of Some d \<Rightarrow> outcome_delivered d | None \<Rightarrow> outcome_buffered)"
    using r False by (auto simp: receive_gap_def Let_def split: prod.splits option.splits)
  from skip_cases [OF o1] show ?thesis
  proof
    assume "s' = ?s \<and> o1 = None"
    moreover have "delivers f ?g pid payload []"
      using ex pid(2) by (auto simp: delivers_def bt.get_ins [OF bt] map_of_eq_None_iff)
    ultimately show ?thesis using ok r'
      by (auto simp: moves_def map_of_hm_insert outcome_buffered_def intro!: exI [of _ ?g])
  next
    assume "\<exists>flow d. o1 = Some d \<and> d \<noteq> [] \<and> skips ?s key now flow s' d"
    then obtain flow d where d: "o1 = Some d" "skips ?s key now flow s' d" by blast
    then have flow: "flow = ?g" by (auto simp: skips_def map_of_hm_insert)
    from moves_skip [OF ok d(2), of pid payload] flow obtain f' where
      m: "reorder_ok s'" "sr_limits s' = sr_limits s" "sr_tombstones s' = sr_tombstones s"
        "map_of (sr_flows s') = (map_of (sr_flows s))(key \<mapsto> f')"
        "fs_traffic_class f' = fs_traffic_class f" "delivers ?g f' pid payload d"
      by (auto simp: moves_def map_of_hm_insert)
    have new: "map_of (fs_buffer f) pid = None" using pid(2) by (simp add: map_of_eq_None_iff)
    have "delivers f f' pid payload d"
      by (rule delivers_held [where h = "\<lparr>bp_payload = payload, bp_arrived_at_ms = now\<rparr>",
            OF _ ex _ _ new m(6)]) (simp_all add: bt.get_ins [OF bt])
    with m d r' show ?thesis by (auto simp: moves_def outcome_delivered_def)
  qed
qed

lemma moves_receive:
  assumes s: "reorder_ok s" and k: "map_of (sr_flows s) key = Some f"
    and r: "receive s key cls pid payload now = (s', r)"
  shows "moves s key f s' pid payload (ro_delivered r)"
proof -
  note touch = moves_touch [OF s k] moves_none [OF s k]
  show ?thesis
  proof (cases "cls = Control \<or> fs_exhausted f \<or> fs_traffic_class f \<noteq> cls \<or>
      pid < fs_next_expected f \<or> pid \<in> keys (fs_buffer f)")
    case True
    with r k show ?thesis
      by (auto simp: receive_def receive_known_def Let_def outcome_dropped_def intro: touch
          split: if_splits)
  next
    case False
    then have ex: "\<not> fs_exhausted f" and "\<not> pid < fs_next_expected f"
      and new: "pid \<notin> keys (fs_buffer f)" by auto
    then consider "pid = fs_next_expected f" "fs_next_expected f = - 1"
      | "pid = fs_next_expected f" "fs_next_expected f \<noteq> - 1" | "fs_next_expected f < pid"
      by fastforce
    then show ?thesis
    proof cases
      case 1
      with False r k moves_exhaust [OF s k ex 1(2)] show ?thesis
        by (auto simp: receive_def receive_known_def Let_def outcome_delivered_def)
    next
      case 2
      obtain g b d where d: "drain (f\<lparr>fs_next_expected := fs_next_expected f + 1\<rparr>)
          (sr_buffered_bytes_session s) [(fs_next_expected f, payload)] = (g, b, d)"
        using prod_cases3 by blast
      with 2 False r k moves_head [OF s k ex 2(2) d] show ?thesis
        by (auto simp: receive_def receive_known_def Let_def outcome_delivered_def sat_inc_eq)
    next
      case 3
      then have "pid \<noteq> fs_next_expected f" by simp
      with False r k moves_gap [OF s k ex 3 new] show ?thesis
        by (auto simp: receive_def receive_known_def Let_def)
    qed
  qed
qed

section \<open>First arrivals and evictions\<close>

lemma reorder_evict_eq:
  assumes "sr_flows s \<noteq> []"
  obtains k f where "(k, f) \<in> set (sr_flows s)"
    and "sr_limits (reorder_evict_oldest_flow now s) = sr_limits s"
    and "sr_flows (reorder_evict_oldest_flow now s) = kt_remove k (sr_flows s)"
    and "sr_tombstones (reorder_evict_oldest_flow now s) =
      sr_tombstones (reorder_insert_tombstone k (max_observed_for_flow f) now (forget_flow k s))"
    and "sr_buffered_bytes_session (reorder_evict_oldest_flow now s) =
      sr_buffered_bytes_session (forget_flow k s)"
proof -
  obtain k f where m: "first_min (\<lambda>(k, f). fs_last_activity_ms f) (sr_flows s) = Some (k, f)"
    using assms first_min_None [of _ "sr_flows s"] by (metis not_None_eq surj_pair)
  show ?thesis
  proof (rule that [of k f])
    show "(k, f) \<in> set (sr_flows s)" using first_min_Some [OF m] by blast
  qed (simp_all add: reorder_evict_oldest_flow_def m reorder_insert_tombstone_table forget_flow_flows)
qed

lemma reorder_ok_evict:
  assumes s: "reorder_ok s"
  shows "reorder_ok (reorder_evict_oldest_flow now s)"
proof (cases "sr_flows s = []")
  case True
  with s show ?thesis by (simp add: reorder_evict_oldest_flow_def)
next
  case False
  then obtain k f where "sr_limits (reorder_evict_oldest_flow now s) = sr_limits s"
    "sr_flows (reorder_evict_oldest_flow now s) = kt_remove k (sr_flows s)"
    "sr_tombstones (reorder_evict_oldest_flow now s) =
      sr_tombstones (reorder_insert_tombstone k (max_observed_for_flow f) now (forget_flow k s))"
    "sr_buffered_bytes_session (reorder_evict_oldest_flow now s) =
      sr_buffered_bytes_session (forget_flow k s)"
    by (rule reorder_evict_eq)
  with reorder_ok_retire [OF s, of k "max_observed_for_flow f" now] show ?thesis
    by (intro reorder_ok_tables [OF reorder_ok_retire [OF s]]) (simp_all add: forget_flow_flows)
qed

text \<open>Making room: the table before a first arrival is inserted.\<close>

definition make_room :: "u64 \<Rightarrow> session_reorder \<Rightarrow> session_reorder" where
  "make_room now s = (if rl_max_flows (sr_limits s) \<le> length (sr_flows s)
     then reorder_evict_oldest_flow now s else s)"

lemma make_room_facts:
  assumes s: "reorder_ok s"
  shows "reorder_ok (make_room now s)" and "sr_limits (make_room now s) = sr_limits s"
    and "length (sr_flows (make_room now s)) < rl_max_flows (sr_limits s)"
    and "keys (sr_flows (make_room now s)) \<subseteq> keys (sr_flows s)"
    and "keys (sr_tombstones (make_room now s)) \<subseteq> keys (sr_flows s) \<union> keys (sr_tombstones s)"
    and "k \<in> keys (sr_flows (make_room now s)) \<Longrightarrow>
      map_of (sr_flows (make_room now s)) k = map_of (sr_flows s) k"
proof -
  show ok: "reorder_ok (make_room now s)" using s by (simp add: make_room_def reorder_ok_evict)
  have "sr_limits (make_room now s) = sr_limits s \<and>
    length (sr_flows (make_room now s)) < rl_max_flows (sr_limits s) \<and>
    keys (sr_flows (make_room now s)) \<subseteq> keys (sr_flows s) \<and>
    keys (sr_tombstones (make_room now s)) \<subseteq> keys (sr_flows s) \<union> keys (sr_tombstones s) \<and>
    (k \<in> keys (sr_flows (make_room now s)) \<longrightarrow>
      map_of (sr_flows (make_room now s)) k = map_of (sr_flows s) k)" for k
  proof (cases "rl_max_flows (sr_limits s) \<le> length (sr_flows s)")
    case False
    then show ?thesis by (auto simp: make_room_def)
  next
    case True
    then have "sr_flows s \<noteq> []" using sane_pos s by (fastforce simp: reorder_ok_def)
    then obtain v f where v: "(v, f) \<in> set (sr_flows s)"
      and e: "sr_limits (reorder_evict_oldest_flow now s) = sr_limits s"
        "sr_flows (reorder_evict_oldest_flow now s) = kt_remove v (sr_flows s)"
        "sr_tombstones (reorder_evict_oldest_flow now s) =
          sr_tombstones (reorder_insert_tombstone v (max_observed_for_flow f) now (forget_flow v s))"
      by (rule reorder_evict_eq)
    from v have vk: "v \<in> keys (sr_flows s)" by force
    have "length (kt_remove v (sr_flows s)) < length (sr_flows s)" by (rule length_kt_remove_less [OF vk])
    moreover have "length (sr_flows s) \<le> rl_max_flows (sr_limits s)" using s by (simp add: reorder_ok_def)
    moreover have "keys (sr_tombstones (reorder_evict_oldest_flow now s)) \<subseteq>
        insert v (keys (sr_tombstones s))"
      unfolding e reorder_insert_tombstone_table
      using bury_facts(3) [of "sr_tombstones s"] s by (simp add: reorder_ok_def)
    ultimately show ?thesis
      using e vk True by (auto simp: make_room_def set_kt_remove map_of_remove)
  qed
  then show "sr_limits (make_room now s) = sr_limits s"
    "length (sr_flows (make_room now s)) < rl_max_flows (sr_limits s)"
    "keys (sr_flows (make_room now s)) \<subseteq> keys (sr_flows s)"
    "keys (sr_tombstones (make_room now s)) \<subseteq> keys (sr_flows s) \<union> keys (sr_tombstones s)"
    "k \<in> keys (sr_flows (make_room now s)) \<Longrightarrow>
      map_of (sr_flows (make_room now s)) k = map_of (sr_flows s) k" by blast+
qed

definition fresh_flow :: "traffic_class \<Rightarrow> u64 \<Rightarrow> u64 \<Rightarrow> flow_state" where
  "fresh_flow cls pid now = \<lparr>fs_traffic_class = cls,
     fs_next_expected = (if pid = - 1 then - 1 else sat_inc pid), fs_exhausted = (pid = - 1),
     fs_buffer = [], fs_buffered_bytes = 0, fs_last_activity_ms = now\<rparr>"

lemma receive_first_eq:
  "snd (receive_first s k cls pid payload now) = outcome_delivered [(pid, payload)]"
  "sr_flows (fst (receive_first s k cls pid payload now)) =
     hm_insert k (fresh_flow cls pid now) (sr_flows (make_room now s))"
  "sr_limits (fst (receive_first s k cls pid payload now)) = sr_limits (make_room now s)"
  "sr_tombstones (fst (receive_first s k cls pid payload now)) = sr_tombstones (make_room now s)"
  "sr_buffered_bytes_session (fst (receive_first s k cls pid payload now)) =
     sr_buffered_bytes_session (make_room now s)"
  by (simp_all add: receive_first_def make_room_def fresh_flow_def Let_def)

lemma fresh_flow_inv: "flow_inv l (fresh_flow cls pid now)"
  by (simp add: flow_inv_def settled_def drainable_def fresh_flow_def bt.ok_Nil held_bytes_def)

lemma flow_bytes_new:
  "hm_ok m \<Longrightarrow> k \<notin> keys m \<Longrightarrow> flow_bytes (hm_insert k f m) = fs_buffered_bytes f + flow_bytes m"
  unfolding flow_bytes_def by (subst hm.sum_ins_new) auto

lemma reorder_ok_add:
  assumes u: "reorder_ok u" and k: "k \<notin> keys (sr_flows u)" "k \<notin> keys (sr_tombstones u)"
    and room: "length (sr_flows u) < rl_max_flows (sr_limits u)"
    and f: "flow_inv (sr_limits u) f" "fs_buffered_bytes f = 0"
  shows "reorder_ok (u\<lparr>sr_flows := hm_insert k f (sr_flows u)\<rparr>)"
proof -
  have ok: "hm_ok (sr_flows u)" using u by (simp add: reorder_ok_def)
  have "\<forall>e \<in> set (hm_insert k f (sr_flows u)). flow_inv (sr_limits u) (snd e)"
    using u f(1) by (auto simp: reorder_ok_def hm.set_ins [OF ok])
  moreover have "keys (hm_insert k f (sr_flows u)) \<inter> keys (sr_tombstones u) = {}"
    using u k(2) by (simp add: reorder_ok_def hm.keys_ins [OF ok])
  moreover have "flow_bytes (hm_insert k f (sr_flows u)) = flow_bytes (sr_flows u)"
    by (simp add: flow_bytes_new [OF ok k(1)] f(2))
  moreover have "length (hm_insert k f (sr_flows u)) \<le> rl_max_flows (sr_limits u)"
    using room k(1) by (simp add: hm.length_ins [OF ok])
  ultimately show ?thesis
    using u by (simp add: reorder_ok_def hm.ok_ins)
qed

lemma reorder_ok_receive_first:
  assumes s: "reorder_ok s" and k: "k \<notin> keys (sr_flows s)" "k \<notin> keys (sr_tombstones s)"
  shows "reorder_ok (fst (receive_first s k cls pid payload now))"
proof -
  note r = make_room_facts [OF s]
  have "k \<notin> keys (sr_flows (make_room now s))" "k \<notin> keys (sr_tombstones (make_room now s))"
    using k r(4,5) by blast+
  moreover have "fs_buffered_bytes (fresh_flow cls pid now) = 0" by (simp add: fresh_flow_def)
  ultimately show ?thesis
    using r(2,3) [of now]
    by (intro reorder_ok_tables [OF reorder_ok_add [OF r(1), of k now "fresh_flow cls pid now"]])
      (simp_all add: receive_first_eq fresh_flow_inv)
qed

text \<open>An arrival for a key without a flow: dropped, or the first of a new flow.\<close>

lemma receive_absent_opens:
  assumes s: "reorder_ok s" and k: "map_of (sr_flows s) k = None"
  shows "(\<exists>g reason. receive s k cls pid payload now = (count g s, outcome_dropped reason)) \<or>
    (\<exists>u. reorder_ok u \<and> sr_flows u = sr_flows s \<and> sr_limits u = sr_limits s \<and>
       sr_tombstones u = kt_remove k (sr_tombstones s) \<and>
       receive s k cls pid payload now = receive_first u k cls pid payload now)"
proof (cases "cls = Control")
  case True
  then show ?thesis by (auto simp: receive_def)
next
  case False
  show ?thesis
  proof (cases "map_of (sr_tombstones s) k")
    case None
    then have "k \<notin> keys (sr_tombstones s)" by (simp add: map_of_eq_None_iff)
    then have "kt_remove k (sr_tombstones s) = sr_tombstones s" by (force simp: kt_remove_def intro: filter_True)
    with s k None False show ?thesis
      by (intro disjI2 exI [of _ s]) (simp add: receive_def)
  next
    case (Some t)
    let ?u = "s\<lparr>sr_tombstones := kt_remove k (sr_tombstones s)\<rparr>"
    have u: "reorder_ok ?u" "k \<notin> keys (kt_remove k (sr_tombstones s))"
      unfolding kt_remove_def by (rule reorder_ok_drop_tombstones [OF s]) auto
    consider "dt_expires_at_ms t \<le> now"
      | "\<not> dt_expires_at_ms t \<le> now" "pid \<le> dt_watermark t"
      | "\<not> dt_expires_at_ms t \<le> now" "\<not> pid \<le> dt_watermark t" by blast
    then show ?thesis
    proof cases
      case 1
      with u k Some False show ?thesis
        by (intro disjI2 exI [of _ "count (rm_tombstones_expired_update sat_inc) ?u"])
          (simp add: receive_def)
    next
      case 2
      with k Some False show ?thesis by (auto simp: receive_def)
    next
      case 3
      with u k Some False show ?thesis
        by (intro disjI2 exI [of _ ?u]) (simp add: receive_def)
    qed
  qed
qed

lemma receive_absent:
  assumes "reorder_ok s" and "map_of (sr_flows s) k = None"
  shows "(\<exists>g reason. receive s k cls pid payload now = (count g s, outcome_dropped reason)) \<or>
    (\<exists>u. reorder_ok u \<and> sr_flows u = sr_flows s \<and> sr_limits u = sr_limits s \<and>
       k \<notin> keys (sr_tombstones u) \<and>
       receive s k cls pid payload now = receive_first u k cls pid payload now)"
proof -
  have "k \<notin> keys (kt_remove k (sr_tombstones s))" by (auto simp: set_kt_remove)
  then show ?thesis using receive_absent_opens [OF assms, of cls pid payload now] by metis
qed

lemma reorder_ok_receive:
  assumes s: "reorder_ok s"
  shows "reorder_ok (fst (receive s k cls pid payload now))"
    and "sr_limits (fst (receive s k cls pid payload now)) = sr_limits s"
proof -
  have "reorder_ok (fst (receive s k cls pid payload now)) \<and>
    sr_limits (fst (receive s k cls pid payload now)) = sr_limits s"
  proof (cases "map_of (sr_flows s) k")
    case (Some f)
    from moves_receive [OF s Some prod.collapse [symmetric]] show ?thesis
      unfolding moves_def by blast
  next
    case None
    then have nk: "k \<notin> keys (sr_flows s)" by (simp add: map_of_eq_None_iff)
    from receive_absent [OF s None, of cls pid payload now] show ?thesis
    proof (elim disjE exE conjE)
      fix u
      assume u: "reorder_ok u" "sr_flows u = sr_flows s" "sr_limits u = sr_limits s"
        "k \<notin> keys (sr_tombstones u)"
        "receive s k cls pid payload now = receive_first u k cls pid payload now"
      with nk reorder_ok_receive_first [OF u(1)] make_room_facts(2) [OF u(1)] show ?thesis
        by (simp add: receive_first_eq)
    qed (simp add: s)
  qed
  then show "reorder_ok (fst (receive s k cls pid payload now))"
    "sr_limits (fst (receive s k cls pid payload now)) = sr_limits s" by simp_all
qed

section \<open>What the clock does\<close>

text \<open>Releasing held packets without an arrival.\<close>

definition unblocks :: "flow_state \<Rightarrow> flow_state \<Rightarrow> (packet_id \<times> payload) list \<Rightarrow> bool" where
  "unblocks f f' d \<longleftrightarrow> (\<forall>pid payload. delivers f f' pid payload d)"

lemma unblocks_refl: "unblocks f f []"
  by (simp add: unblocks_def delivers_same)

lemma word_other: "\<exists>j::u64. j \<noteq> i"
  by (rule exI [of _ "i + 1"]) simp

lemma unblocks_held:
  assumes "unblocks f f' d"
  shows "map_of (fs_buffer f') i = Some h \<Longrightarrow> map_of (fs_buffer f) i = Some h"
    and "(i, p) \<in> set d \<Longrightarrow> \<exists>h. map_of (fs_buffer f) i = Some h \<and> bp_payload h = p"
proof -
  obtain j where j: "j \<noteq> i" using word_other by blast
  have d: "delivers f f' j undefined d" using assms by (simp add: unblocks_def)
  show "map_of (fs_buffer f') i = Some h \<Longrightarrow> map_of (fs_buffer f) i = Some h"
    using deliversD(6) [OF d] j by metis
  show "(i, p) \<in> set d \<Longrightarrow> \<exists>h. map_of (fs_buffer f) i = Some h \<and> bp_payload h = p"
    using deliversD(5) [OF d] j by metis
qed

lemma unblocks_trans:
  assumes fg: "unblocks f g d" and gh: "unblocks g h e"
  shows "unblocks f h (d @ e)"
  unfolding unblocks_def
proof (intro allI)
  fix pid payload
  have d: "delivers f g pid payload d" and e: "delivers g h pid payload e"
    using fg gh by (simp_all add: unblocks_def)
  have lt: "i < j" if "(i, p) \<in> set d" "(j, q) \<in> set e" for i j p q
    using deliversD(4) [OF d that(1)] deliversD(4) [OF e that(2)] deliversD(3) [OF e] that(2) by force
  have "\<forall>x \<in> set (map fst d). \<forall>y \<in> set (map fst e). x < y" using lt by fastforce
  then have "sorted_wrt (<) (map fst (d @ e))"
    using deliversD(1) [OF d] deliversD(1) [OF e] by (simp add: sorted_wrt_append)
  moreover have le: "fs_next_expected f \<le> fs_next_expected h"
    using deliversD(2) [OF d] deliversD(2) [OF e] by simp
  moreover have "fs_exhausted f \<longrightarrow> fs_exhausted h \<and> d @ e = []"
    using deliversD(3) [OF d] deliversD(3) [OF e] by simp
  moreover have "fs_next_expected f \<le> i \<and> (fs_exhausted h \<or> i < fs_next_expected h) \<and>
      (i = pid \<and> p = payload \<or> (\<exists>h. map_of (fs_buffer f) i = Some h \<and> bp_payload h = p))"
    if "(i, p) \<in> set (d @ e)" for i p
  proof (cases "(i, p) \<in> set d")
    case True
    then show ?thesis
      using deliversD(4) [OF d True] deliversD(2,3) [OF e] unblocks_held(2) [OF fg True] by auto
  next
    case False
    with that have "(i, p) \<in> set e" by simp
    with deliversD(4) [OF e this] deliversD(2) [OF d] unblocks_held(2) [OF gh this]
    show ?thesis using unblocks_held(1) [OF fg] by fastforce
  qed
  moreover have "map_of (fs_buffer f) i = Some k" if "map_of (fs_buffer h) i = Some k" for i k
    using unblocks_held(1) [OF fg unblocks_held(1) [OF gh that]] .
  ultimately show "delivers f h pid payload (d @ e)" unfolding delivers_def by auto
qed

lemma skips_unblocks:
  assumes s: "reorder_ok s" and k: "skips s key now f s' d"
  shows "reorder_ok s' \<and> sr_limits s' = sr_limits s \<and> sr_tombstones s' = sr_tombstones s \<and>
    (\<exists>f'. map_of (sr_flows s') = (map_of (sr_flows s))(key \<mapsto> f') \<and> unblocks f f' d)"
proof -
  have m: "moves s key f s' pid payload d" for pid payload by (rule moves_skip [OF s k])
  then obtain f' where f': "map_of (sr_flows s') = (map_of (sr_flows s))(key \<mapsto> f')"
    unfolding moves_def by blast
  have "delivers f f' pid payload d" for pid payload
    using m [of pid payload] f' unfolding moves_def by (metis fun_upd_same option.inject)
  with m f' show ?thesis unfolding moves_def unblocks_def by blast
qed

lemma skip_loop_effect:
  "skip_loop s key now out = (s', out') \<Longrightarrow> reorder_ok s \<Longrightarrow> map_of (sr_flows s) key = Some f \<Longrightarrow>
    reorder_ok s' \<and> sr_limits s' = sr_limits s \<and> sr_tombstones s' = sr_tombstones s \<and>
    skip_head_gap_if_expired s' key now = (s', None) \<and>
    (\<exists>f' d. map_of (sr_flows s') = (map_of (sr_flows s))(key \<mapsto> f') \<and> unblocks f f' d \<and>
      out' = out @ map (Pair key) d)"
proof (induction s key now out arbitrary: f rule: skip_loop.induct)
  case (1 s key now out)
  obtain t o1 where o1: "skip_head_gap_if_expired s key now = (t, o1)" by fastforce
  from skip_cases [OF o1] show ?case
  proof
    assume n: "t = s \<and> o1 = None"
    have "s' = s \<and> out' = out"
      using "1.prems"(1) o1 n by (subst (asm) skip_loop.simps) simp
    with n o1 "1.prems"(2,3) show ?case
      by (auto simp: fun_upd_idem intro!: exI [of _ f] unblocks_refl)
  next
    assume "\<exists>flow d. o1 = Some d \<and> d \<noteq> [] \<and> skips s key now flow t d"
    then obtain g d where d: "o1 = Some d" "skips s key now g t d" by blast
    have "g = f" using d(2) "1.prems"(3) by (auto simp: skips_def)
    with skips_unblocks [OF "1.prems"(2) d(2)] obtain f1 where
      t: "reorder_ok t" "sr_limits t = sr_limits s" "sr_tombstones t = sr_tombstones s"
        "map_of (sr_flows t) = (map_of (sr_flows s))(key \<mapsto> f1)" "unblocks f f1 d" by auto
    have "skip_loop t key now (out @ map (Pair key) d) = (s', out')"
      using "1.prems"(1) o1 d(1) by (subst (asm) skip_loop.simps) simp
    moreover have "map_of (sr_flows t) key = Some f1" using t(4) by simp
    ultimately have "reorder_ok s' \<and> sr_limits s' = sr_limits t \<and>
        sr_tombstones s' = sr_tombstones t \<and> skip_head_gap_if_expired s' key now = (s', None) \<and>
        (\<exists>f' e. map_of (sr_flows s') = (map_of (sr_flows t))(key \<mapsto> f') \<and> unblocks f1 f' e \<and>
          out' = (out @ map (Pair key) d) @ map (Pair key) e)"
      by (rule "1.IH" [OF o1 [symmetric] d(1) _ t(1)])
    then obtain f' e where
      r: "reorder_ok s'" "sr_limits s' = sr_limits t" "sr_tombstones s' = sr_tombstones t"
        "skip_head_gap_if_expired s' key now = (s', None)"
        "map_of (sr_flows s') = (map_of (sr_flows t))(key \<mapsto> f')" "unblocks f1 f' e"
        "out' = (out @ map (Pair key) d) @ map (Pair key) e" by blast
    have "unblocks f f' (d @ e)" by (rule unblocks_trans [OF t(5) r(6)])
    with r t show ?case by (auto intro!: exI [of _ f'] exI [of _ "d @ e"])
  qed
qed

lemma skip_loop_absent:
  "map_of (sr_flows s) key = None \<Longrightarrow> skip_loop s key now out = (s, out)"
  by (subst skip_loop.simps) (simp add: skip_head_gap_if_expired_def)

text \<open>The deliveries of one key.\<close>

definition of_key :: "receive_key \<Rightarrow> (receive_key \<times> packet_id \<times> payload) list
    \<Rightarrow> (packet_id \<times> payload) list" where
  "of_key k out = map snd (filter (\<lambda>e. fst e = k) out)"

lemma of_key_append [simp]: "of_key k (xs @ ys) = of_key k xs @ of_key k ys"
  by (simp add: of_key_def)

lemma of_key_Nil [simp]: "of_key k [] = []"
  by (simp add: of_key_def)

lemma of_key_Pair [simp]: "of_key k (map (Pair j) d) = (if j = k then d else [])"
  by (auto simp: of_key_def filter_map comp_def filter_empty_conv)

text \<open>One pass over all keys: every flow is unblocked on its own, and no skip is due after it.\<close>

definition due :: "session_reorder \<Rightarrow> receive_key \<Rightarrow> u64 \<Rightarrow> bool" where
  "due s key now \<longleftrightarrow> snd (skip_head_gap_if_expired s key now) \<noteq> None"

lemma due_flow:
  "map_of (sr_flows s) key = map_of (sr_flows t) key \<Longrightarrow> sr_limits s = sr_limits t \<Longrightarrow> due s key now \<longleftrightarrow>
     (case map_of (sr_flows t) key of None \<Rightarrow> False
      | Some f \<Rightarrow> \<not> fs_exhausted f \<and> (case fs_buffer f of [] \<Rightarrow> False | (i, h) # _ \<Rightarrow>
          fs_next_expected f < i \<and>
          deadline_for (sr_limits t) (fs_traffic_class f) \<le> sat_sub now (bp_arrived_at_ms h)))"
proof -
  assume a: "map_of (sr_flows s) key = map_of (sr_flows t) key" "sr_limits s = sr_limits t"
  obtain s' o1 where o1: "skip_head_gap_if_expired s key now = (s', o1)" by fastforce
  show ?thesis
  proof (cases "o1 = None")
    case False
    with skip_cases [OF o1] obtain f d where "skips s key now f s' d" by blast
    with o1 False a show ?thesis by (auto simp: due_def skips_def)
  next
    case True
    show ?thesis
    proof (rule ccontr)
      assume n: "\<not> ?thesis"
      with o1 True a obtain f i h rest where f: "map_of (sr_flows s) key = Some f" "\<not> fs_exhausted f"
        "fs_buffer f = (i, h) # rest" "fs_next_expected f < i"
        "deadline_for (sr_limits s) (fs_traffic_class f) \<le> sat_sub now (bp_arrived_at_ms h)"
        by (auto simp: due_def split: option.splits list.splits)
      have "snd (snd (drain (f\<lparr>fs_next_expected := i\<rparr>) (sr_buffered_bytes_session s) [])) \<noteq> []"
        using drain_delivers_head [of "f\<lparr>fs_next_expected := i\<rparr>" i h rest] f by simp
      with f o1 True show False
        by (auto simp: skip_head_gap_if_expired_def Let_def not_le not_less split: prod.splits if_splits)
    qed
  qed
qed

lemma due_cong:
  "map_of (sr_flows s) key = map_of (sr_flows t) key \<Longrightarrow> sr_limits s = sr_limits t \<Longrightarrow>
    due s key now = due t key now"
  using due_flow [of s key t now] due_flow [of t key t now] by simp

lemma skip_loop_key:
  assumes s: "reorder_ok s" and r: "skip_loop s j now out = (s', out')"
  shows "reorder_ok s'" and "sr_limits s' = sr_limits s" and "sr_tombstones s' = sr_tombstones s"
    and "\<not> due s' j now"
    and "map_of (sr_flows s) k = None \<Longrightarrow> map_of (sr_flows s') k = None \<and> of_key k out' = of_key k out"
    and "map_of (sr_flows s) k = Some f \<Longrightarrow>
      \<exists>f' d. map_of (sr_flows s') k = Some f' \<and> unblocks f f' d \<and> of_key k out' = of_key k out @ d \<and>
        (k \<noteq> j \<longrightarrow> f' = f)"
proof -
  have "reorder_ok s' \<and> sr_limits s' = sr_limits s \<and> sr_tombstones s' = sr_tombstones s \<and> \<not> due s' j now \<and>
    (map_of (sr_flows s) k = None \<longrightarrow> map_of (sr_flows s') k = None \<and> of_key k out' = of_key k out) \<and>
    (map_of (sr_flows s) k = Some f \<longrightarrow> (\<exists>f' d. map_of (sr_flows s') k = Some f' \<and> unblocks f f' d \<and>
      of_key k out' = of_key k out @ d \<and> (k \<noteq> j \<longrightarrow> f' = f)))" for k f
  proof (cases "map_of (sr_flows s) j")
    case None
    with r have "s' = s \<and> out' = out" by (simp add: skip_loop_absent)
    moreover have "\<not> due s j now" using None by (simp add: due_def skip_head_gap_if_expired_def)
    ultimately show ?thesis using s by (auto intro!: exI [of _ f] exI [of _ "[]"] unblocks_refl)
  next
    case (Some g)
    from skip_loop_effect [OF r s Some] obtain g' d where e: "reorder_ok s'" "sr_limits s' = sr_limits s"
      "sr_tombstones s' = sr_tombstones s" "skip_head_gap_if_expired s' j now = (s', None)"
      "map_of (sr_flows s') = (map_of (sr_flows s))(j \<mapsto> g')" "unblocks g g' d"
      "out' = out @ map (Pair j) d" by blast
    show ?thesis
    proof (cases "k = j")
      case True
      with e Some show ?thesis by (auto simp: due_def)
    next
      case False
      with e Some show ?thesis
        by (auto simp: due_def intro!: exI [of _ "[]"] unblocks_refl)
    qed
  qed
  then show "reorder_ok s'" "sr_limits s' = sr_limits s" "sr_tombstones s' = sr_tombstones s"
    "\<not> due s' j now" "map_of (sr_flows s) k = None \<Longrightarrow> map_of (sr_flows s') k = None \<and> of_key k out' = of_key k out"
    "map_of (sr_flows s) k = Some f \<Longrightarrow>
      \<exists>f' d. map_of (sr_flows s') k = Some f' \<and> unblocks f f' d \<and> of_key k out' = of_key k out @ d \<and>
        (k \<noteq> j \<longrightarrow> f' = f)" by blast+
qed

definition skip_pass :: "u64 \<Rightarrow> receive_key list
    \<Rightarrow> session_reorder \<times> (receive_key \<times> packet_id \<times> payload) list
    \<Rightarrow> session_reorder \<times> (receive_key \<times> packet_id \<times> payload) list" where
  "skip_pass now order = fold (\<lambda>key (s, out). skip_loop s key now out) order"

lemma skip_pass_Cons: "skip_pass now (j # js) (s, out) = skip_pass now js (skip_loop s j now out)"
  by (simp add: skip_pass_def)

lemma skip_pass_effect:
  assumes "skip_pass now order (s, out) = (s', out')" and "reorder_ok s" and "distinct order"
  shows "reorder_ok s' \<and> sr_limits s' = sr_limits s \<and> sr_tombstones s' = sr_tombstones s \<and>
    (map_of (sr_flows s) k = None \<longrightarrow> map_of (sr_flows s') k = None \<and> of_key k out' = of_key k out) \<and>
    (\<forall>f. map_of (sr_flows s) k = Some f \<longrightarrow> (\<exists>f' d. map_of (sr_flows s') k = Some f' \<and>
      unblocks f f' d \<and> of_key k out' = of_key k out @ d \<and> (k \<notin> set order \<longrightarrow> f' = f))) \<and>
    (k \<in> set order \<longrightarrow> \<not> due s' k now)"
  using assms
proof (induction order arbitrary: s out)
  case Nil
  then show ?case by (auto simp: skip_pass_def intro!: exI [of _ "[]"] unblocks_refl)
next
  case (Cons j js)
  obtain t o1 where t: "skip_loop s j now out = (t, o1)" by fastforce
  note l = skip_loop_key [OF Cons.prems(2) t]
  have run: "skip_pass now js (t, o1) = (s', out')"
    using Cons.prems(1) by (simp add: skip_pass_Cons t)
  have ih: "reorder_ok s' \<and> sr_limits s' = sr_limits t \<and> sr_tombstones s' = sr_tombstones t \<and>
    (map_of (sr_flows t) k = None \<longrightarrow> map_of (sr_flows s') k = None \<and> of_key k out' = of_key k o1) \<and>
    (\<forall>f. map_of (sr_flows t) k = Some f \<longrightarrow> (\<exists>f' d. map_of (sr_flows s') k = Some f' \<and>
      unblocks f f' d \<and> of_key k out' = of_key k o1 @ d \<and> (k \<notin> set js \<longrightarrow> f' = f))) \<and>
    (k \<in> set js \<longrightarrow> \<not> due s' k now)"
    using Cons.IH [OF run l(1)] Cons.prems(3) by simp
  have flow: "\<exists>f' d. map_of (sr_flows s') k = Some f' \<and> unblocks f f' d \<and>
      of_key k out' = of_key k out @ d \<and> (k \<notin> set (j # js) \<longrightarrow> f' = f)"
    if "map_of (sr_flows s) k = Some f" for f
  proof -
    from l(6) [OF that] obtain g d where g: "map_of (sr_flows t) k = Some g" "unblocks f g d"
      "of_key k o1 = of_key k out @ d" "k \<noteq> j \<longrightarrow> g = f" by blast
    with ih obtain f' e where "map_of (sr_flows s') k = Some f'" "unblocks g f' e"
      "of_key k out' = of_key k o1 @ e" "k \<notin> set js \<longrightarrow> f' = g" by blast
    with g unblocks_trans [OF g(2)] show ?thesis by auto
  qed
  moreover have "\<not> due s' k now" if "k \<in> set (j # js)"
  proof (cases "k \<in> set js")
    case True
    with ih show ?thesis by blast
  next
    case False
    with that have k: "k = j" by simp
    have "map_of (sr_flows s') k = map_of (sr_flows t) k"
      using ih False by (cases "map_of (sr_flows t) k") auto
    with l(4) k ih show ?thesis using due_cong by metis
  qed
  ultimately show ?case using ih l(2,3,5) by auto
qed

lemma expire_flows_effect:
  "reorder_ok s \<Longrightarrow> reorder_ok (fold (reorder_expire_flow now) idle s) \<and>
     sr_limits (fold (reorder_expire_flow now) idle s) = sr_limits s \<and>
     sr_flows (fold (reorder_expire_flow now) idle s) =
       filter (\<lambda>e. fst e \<notin> keys idle) (sr_flows s)"
proof (induction idle arbitrary: s)
  case Nil
  then show ?case by simp
next
  case (Cons e idle)
  obtain v u where e: "e = (v, u)" by fastforce
  from Cons.IH [OF reorder_ok_retire [OF Cons.prems, of v u now]] show ?case
    by (auto simp: e reorder_expire_flow_def forget_flow_flows kt_remove_def intro!: filter_cong)
qed

definition is_idle :: "session_reorder \<Rightarrow> receive_key \<Rightarrow> u64 \<Rightarrow> bool" where
  "is_idle s k now \<longleftrightarrow> k \<in> keys (reorder_idle_flows now s)"

lemma reorder_expire_effect:
  assumes s: "reorder_ok s" and r: "reorder_expire s now = (s', rep)"
  shows "reorder_ok s' \<and> sr_limits s' = sr_limits s \<and>
    (map_of (sr_flows s) k = None \<or> is_idle s k now \<longrightarrow>
      map_of (sr_flows s') k = None \<and> of_key k (er_delivered rep) = []) \<and>
    (\<forall>f. map_of (sr_flows s) k = Some f \<and> \<not> is_idle s k now \<longrightarrow>
      (\<exists>f'. map_of (sr_flows s') k = Some f' \<and> unblocks f f' (of_key k (er_delivered rep)))) \<and>
    \<not> due s' k now"
proof -
  let ?p = "reorder_purge_expired_tombstones now s"
  let ?idle = "reorder_idle_flows now ?p"
  let ?e = "fold (reorder_expire_flow now) ?idle ?p"
  define u where "u = count (rm_flows_expired_idle_update
    (\<lambda>n. sat_add n (word_of_nat (length ?idle)))) ?e"
  let ?order = "sort_key skip_order (map fst (sr_flows u))"
  obtain t out where t: "skip_pass now ?order (u, []) = (t, out)" by fastforce
  have res: "s' = reorder_refresh_counts t" "er_delivered rep = out"
    using r t by (auto simp: reorder_expire_def Let_def u_def skip_pass_def)
  have idle: "?idle = reorder_idle_flows now s" by (simp add: reorder_idle_flows_def)
  have e: "reorder_ok ?e" "sr_limits ?e = sr_limits s"
    "sr_flows ?e = filter (\<lambda>e. fst e \<notin> keys ?idle) (sr_flows s)"
    using expire_flows_effect [OF reorder_ok_purge [OF s, of now], of now ?idle] by simp_all
  have u: "reorder_ok u" "sr_limits u = sr_limits s" "sr_flows u = sr_flows ?e"
    using e by (simp_all add: u_def)
  have dist: "distinct ?order" using u(1) by (simp add: reorder_ok_def hm_ok_def)
  have flow: "map_of (sr_flows u) k = (if is_idle s k now then None else map_of (sr_flows s) k)"
    using map_of_filter_key [of "\<lambda>x. x \<notin> keys ?idle" "sr_flows s" k]
    by (simp add: u(3) e(3) is_idle_def) (simp add: idle)
  note pass = skip_pass_effect [OF t u(1) dist, of k]
  have "\<not> due t k now"
  proof (cases "map_of (sr_flows u) k")
    case None
    with pass have "map_of (sr_flows t) k = None" by blast
    then show ?thesis by (simp add: due_def skip_head_gap_if_expired_def)
  next
    case (Some f)
    then have "k \<in> set ?order" by (force dest: map_of_SomeD)
    with pass show ?thesis by blast
  qed
  moreover have "due s' k now = due t k now" by (rule due_cong) (simp_all add: res)
  ultimately show ?thesis
    using pass flow u(2) res by (auto split: if_splits)
qed

end
