(* ===== verification/ReorderTrace.thy ===== *)
theory ReorderTrace
  imports ReorderProps
begin

text \<open>
  Runs of the reorder buffer: arrivals, clock advances and changes of the maps' iteration
  order in any sequence, with what they deliver. The properties of the component are stated
  over these runs.
\<close>

section \<open>Runs\<close>

type_synonym deliveries = "(receive_key \<times> packet_id \<times> payload) list"

datatype reorder_event =
    Arrival receive_key traffic_class packet_id payload u64
  | Clock u64
  | Rehash

definition same_maps :: "session_reorder \<Rightarrow> session_reorder \<Rightarrow> bool" where
  "same_maps s s' \<longleftrightarrow>
     (\<exists>fs ts. s' = s\<lparr>sr_flows := fs, sr_tombstones := ts\<rparr> \<and>
        mset fs = mset (sr_flows s) \<and> mset ts = mset (sr_tombstones s))"

inductive reorder_step ::
  "session_reorder \<Rightarrow> reorder_event \<Rightarrow> deliveries \<Rightarrow> session_reorder \<Rightarrow> bool" where
  arrival: "receive s k cls pid payload now = (s', r) \<Longrightarrow>
    reorder_step s (Arrival k cls pid payload now) (map (Pair k) (ro_delivered r)) s'"
| clock: "reorder_expire s now = (s', rep) \<Longrightarrow> reorder_step s (Clock now) (er_delivered rep) s'"
| rehash: "same_maps s s' \<Longrightarrow> reorder_step s Rehash [] s'"

text \<open>A run all of whose states satisfy a predicate.\<close>

inductive reorder_run :: "(session_reorder \<Rightarrow> bool) \<Rightarrow> session_reorder \<Rightarrow> reorder_event list
    \<Rightarrow> deliveries \<Rightarrow> session_reorder \<Rightarrow> bool" for P where
  stay: "P s \<Longrightarrow> reorder_run P s [] [] s"
| move: "P s \<Longrightarrow> reorder_step s e out t \<Longrightarrow> reorder_run P t es outs u \<Longrightarrow>
    reorder_run P s (e # es) (out @ outs) u"

inductive_cases reorder_stepE: "reorder_step s e out s'"

definition reorder_reachable :: "session_reorder \<Rightarrow> bool" where
  "reorder_reachable s \<longleftrightarrow> (\<exists>l s0 es out. sane_limits l \<and> reorder_new l = Inr s0 \<and>
     reorder_run (\<lambda>_. True) s0 es out s)"

fun offers :: "reorder_event \<Rightarrow> deliveries" where
  "offers (Arrival k cls pid payload now) = [(k, pid, payload)]"
| "offers (Clock now) = []"
| "offers Rehash = []"

lemma reorder_ok_new: "sane_limits l \<Longrightarrow> reorder_new l = Inr s \<Longrightarrow> reorder_ok s"
  by (auto simp: reorder_new_def rbind_Inr reorder_ok_def flow_bytes_def hm.ok_Nil)

lemma same_maps_facts:
  assumes "reorder_ok s" and "same_maps s s'"
  shows "reorder_ok s'" and "map_of (sr_flows s') = map_of (sr_flows s)"
    and "sr_limits s' = sr_limits s"
proof -
  obtain fs ts where s': "s' = s\<lparr>sr_flows := fs, sr_tombstones := ts\<rparr>"
    and m: "mset fs = mset (sr_flows s)" "mset ts = mset (sr_tombstones s)"
    using assms(2) by (auto simp: same_maps_def)
  have "hm_ok fs \<longleftrightarrow> hm_ok (sr_flows s)" "hm_ok ts \<longleftrightarrow> hm_ok (sr_tombstones s)"
    unfolding hm_ok_def by (intro mset_eq_imp_distinct_iff; simp add: m)+
  moreover have "flow_bytes fs = flow_bytes (sr_flows s)"
    unfolding flow_bytes_def sum_mset_sum_list [symmetric] by (simp add: m)
  ultimately show "reorder_ok s'"
    using assms(1) m [THEN mset_eq_setD] m [THEN mset_eq_length] by (simp add: s' reorder_ok_def)
  have "distinct (map fst (sr_flows s))" "distinct (map fst fs)"
    using \<open>hm_ok fs \<longleftrightarrow> _\<close> assms(1) by (auto simp: hm_ok_def reorder_ok_def)
  then show "map_of (sr_flows s') = map_of (sr_flows s)"
    using m(1) [THEN mset_eq_setD] by (simp add: s' map_of_inject_set)
  show "sr_limits s' = sr_limits s" by (simp add: s')
qed

lemma reorder_ok_step: "reorder_step s e out s' \<Longrightarrow> reorder_ok s \<Longrightarrow>
    reorder_ok s' \<and> sr_limits s' = sr_limits s"
  by (erule reorder_stepE)
    (metis reorder_ok_receive fst_conv, metis reorder_expire_effect, metis same_maps_facts(1,3))

lemma reorder_ok_run: "reorder_run P s es out s' \<Longrightarrow> reorder_ok s \<Longrightarrow>
    reorder_ok s' \<and> sr_limits s' = sr_limits s"
  by (induction rule: reorder_run.induct) (auto dest: reorder_ok_step)

lemma reorder_reachable_ok: "reorder_reachable s \<Longrightarrow> reorder_ok s"
  unfolding reorder_reachable_def using reorder_ok_new reorder_ok_run by blast

section \<open>One step, one flow\<close>

text \<open>An arrival of another key leaves a flow as it is, unless the flow is evicted for it.\<close>

lemma receive_other:
  assumes s: "reorder_ok s" and r: "receive s j cls pid payload now = (s', r)" and kj: "k \<noteq> j"
  shows "map_of (sr_flows s') k = map_of (sr_flows s) k \<or>
    map_of (sr_flows s') k = None \<and> j \<notin> keys (sr_flows s) \<and>
      rl_max_flows (sr_limits s) \<le> length (sr_flows s)"
proof (cases "map_of (sr_flows s) j")
  case (Some g)
  from moves_receive [OF s Some r] kj show ?thesis by (auto simp: moves_def)
next
  case None
  then have nj: "j \<notin> keys (sr_flows s)" by (simp add: map_of_eq_None_iff)
  from receive_absent [OF s None, of cls pid payload now] show ?thesis
  proof (elim disjE exE conjE)
    fix u
    assume u: "reorder_ok u" "sr_flows u = sr_flows s" "sr_limits u = sr_limits s"
      "receive s j cls pid payload now = receive_first u j cls pid payload now"
    have "s' = fst (receive_first u j cls pid payload now)" using u(4) r by (metis fst_conv)
    then have s': "map_of (sr_flows s') k = map_of (sr_flows (make_room now u)) k"
      using kj by (simp add: receive_first_eq map_of_hm_insert)
    show ?thesis
    proof (cases "k \<in> keys (sr_flows (make_room now u))")
      case True
      with make_room_facts(6) [OF u(1) True] s' u(2) show ?thesis by simp
    next
      case False
      then have "map_of (sr_flows s') k = None" using s' by (simp add: map_of_eq_None_iff)
      moreover have "rl_max_flows (sr_limits s) \<le> length (sr_flows s)"
        if "map_of (sr_flows s) k \<noteq> None"
      proof (rule ccontr)
        assume "\<not> ?thesis"
        then have "make_room now u = u" using u by (simp add: make_room_def)
        with False that u(2) show False by (simp add: map_of_eq_None_iff)
      qed
      ultimately show ?thesis using nj by (cases "map_of (sr_flows s) k") auto
    qed
  qed (use r in auto)
qed

lemma step_flow:
  assumes s: "reorder_ok s" and e: "reorder_step s e out s'"
    and f: "map_of (sr_flows s) k = Some f" and f': "map_of (sr_flows s') k = Some f'"
  shows "\<exists>pid payload. delivers f f' pid payload (of_key k out) \<and>
    ((k, pid, payload) \<in> set (offers e) \<or> unblocks f f' (of_key k out))"
  using e
proof (cases rule: reorder_step.cases)
  case (arrival j cls pid payload now r)
  show ?thesis
  proof (cases "j = k")
    case True
    then have r: "receive s k cls pid payload now = (s', r)" using arrival(3) by simp
    have "delivers f f' pid payload (ro_delivered r)"
      using moves_receive [OF s f r] f' by (auto simp: moves_def)
    with True arrival(1,2) show ?thesis by auto
  next
    case False
    with receive_other [OF s arrival(3), of k] f f' have "f' = f" by auto
    with False arrival show ?thesis using unblocks_refl [of f] by (auto simp: unblocks_def)
  qed
next
  case (clock now rep)
  from reorder_expire_effect [OF s clock(3), of k] f f' clock(2) show ?thesis
    by (auto simp: unblocks_def)
next
  case rehash
  with same_maps_facts(2) [OF s] f f' have "f' = f" by simp
  with rehash show ?thesis using unblocks_refl [of f] by (auto simp: unblocks_def)
qed

lemma step_absent:
  assumes s: "reorder_ok s" and e: "reorder_step s e out s'" and f: "map_of (sr_flows s) k = None"
  shows "set (of_key k out) \<subseteq> {(i, p). (k, i, p) \<in> set (offers e)} \<and>
    (\<forall>f'. map_of (sr_flows s') k = Some f' \<longrightarrow> fs_buffer f' = [])"
  using e
proof (cases rule: reorder_step.cases)
  case (arrival j cls pid payload now r)
  show ?thesis
  proof (cases "j = k")
    case False
    with receive_other [OF s arrival(3), of k] f arrival show ?thesis by auto
  next
    case True
    from receive_absent [OF s f, of cls pid payload now] show ?thesis
    proof (elim disjE exE conjE)
      fix u assume "receive s k cls pid payload now = receive_first u k cls pid payload now"
      then have s': "s' = fst (receive_first u k cls pid payload now)"
        and "r = snd (receive_first u k cls pid payload now)"
        using arrival(3) True by (metis fst_conv, metis snd_conv)
      then have "of_key k out = [(pid, payload)]"
        using arrival(2) True by (simp add: receive_first_eq outcome_delivered_def of_key_def)
      with s' arrival(1) True show ?thesis
        by (auto simp: receive_first_eq map_of_hm_insert fresh_flow_def)
    qed (use arrival True f in \<open>auto simp: outcome_dropped_def\<close>)
  qed
next
  case (clock now rep)
  from reorder_expire_effect [OF s clock(3), of k] f clock(2) show ?thesis by auto
next
  case rehash
  with same_maps_facts(2) [OF s] f show ?thesis by auto
qed

section \<open>Whole runs\<close>

abbreviation has_flow :: "receive_key \<Rightarrow> session_reorder \<Rightarrow> bool" where
  "has_flow k \<equiv> \<lambda>s. k \<in> keys (sr_flows s)"

lemma run_start: "reorder_run P s es out s' \<Longrightarrow> P s"
  by (induction rule: reorder_run.induct) auto

lemma run_ordered:
  "reorder_run (has_flow k) s es out s' \<Longrightarrow> reorder_ok s \<Longrightarrow> map_of (sr_flows s) k = Some f \<Longrightarrow>
    \<exists>f'. map_of (sr_flows s') k = Some f' \<and> fs_next_expected f \<le> fs_next_expected f' \<and>
      (fs_exhausted f \<longrightarrow> fs_exhausted f' \<and> of_key k out = []) \<and>
      sorted_wrt (<) (map fst (of_key k out)) \<and>
      (\<forall>i \<in> set (map fst (of_key k out)). fs_next_expected f \<le> i \<and>
         (fs_exhausted f' \<or> i < fs_next_expected f'))"
proof (induction arbitrary: f rule: reorder_run.induct)
  case (stay s)
  then show ?case by simp
next
  case (move s e out t es outs u)
  have ok: "reorder_ok t" using reorder_ok_step [OF move.hyps(2) move.prems(1)] by simp
  have "k \<in> keys (sr_flows t)" using run_start [OF move.hyps(3)] .
  then obtain g where g: "map_of (sr_flows t) k = Some g"
    by (metis map_of_eq_None_iff not_None_eq)
  obtain pid payload where d: "delivers f g pid payload (of_key k out)"
    using step_flow [OF move.prems(1) move.hyps(2) move.prems(2) g] by blast
  from move.IH [OF ok g] obtain f' where f': "map_of (sr_flows u) k = Some f'"
    "fs_next_expected g \<le> fs_next_expected f'"
    "fs_exhausted g \<longrightarrow> fs_exhausted f' \<and> of_key k outs = []"
    "sorted_wrt (<) (map fst (of_key k outs))"
    and b: "\<And>i. i \<in> set (map fst (of_key k outs)) \<Longrightarrow> fs_next_expected g \<le> i \<and>
      (fs_exhausted f' \<or> i < fs_next_expected f')" by blast
  have a: "fs_next_expected f \<le> i \<and> (fs_exhausted g \<or> i < fs_next_expected g)"
    if "i \<in> set (map fst (of_key k out))" for i
    using that deliversD(4) [OF d] by force
  have lt: "i < j" if "i \<in> set (map fst (of_key k out))" "j \<in> set (map fst (of_key k outs))" for i j
    using a [OF that(1)] b [OF that(2)] f'(3) that(2) by auto
  show ?case
  proof (intro exI [of _ f'] conjI impI ballI)
    show "map_of (sr_flows u) k = Some f'" by (rule f'(1))
    show "fs_next_expected f \<le> fs_next_expected f'" using deliversD(2) [OF d] f'(2) by simp
    show "fs_exhausted f'" "of_key k (out @ outs) = []" if "fs_exhausted f"
      using deliversD(3) [OF d that] f'(3) by simp_all
    show "sorted_wrt (<) (map fst (of_key k (out @ outs)))"
      using deliversD(1) [OF d] f'(4) lt by (simp add: sorted_wrt_append)
    fix i assume "i \<in> set (map fst (of_key k (out @ outs)))"
    then consider "i \<in> set (map fst (of_key k out))" | "i \<in> set (map fst (of_key k outs))" by auto
    then show "fs_next_expected f \<le> i" "fs_exhausted f' \<or> i < fs_next_expected f'"
    proof (atomize (full), cases)
      case 1
      with a [OF 1] f'(2,3) show "fs_next_expected f \<le> i \<and> (fs_exhausted f' \<or> i < fs_next_expected f')"
        by auto
    next
      case 2
      with b [OF 2] deliversD(2) [OF d]
      show "fs_next_expected f \<le> i \<and> (fs_exhausted f' \<or> i < fs_next_expected f')" by auto
    qed
  qed
qed

text \<open>Everything held has been offered.\<close>

definition holds_only :: "deliveries \<Rightarrow> session_reorder \<Rightarrow> bool" where
  "holds_only xs s \<longleftrightarrow> (\<forall>k f i h. map_of (sr_flows s) k = Some f \<longrightarrow>
     map_of (fs_buffer f) i = Some h \<longrightarrow> (k, i, bp_payload h) \<in> set xs)"

lemma set_of_key: "(i, p) \<in> set (of_key k out) \<longleftrightarrow> (k, i, p) \<in> set out"
  by (force simp: of_key_def)

lemma step_holds_only:
  assumes s: "reorder_ok s" and e: "reorder_step s e out s'" and h: "holds_only xs s"
  shows "holds_only (xs @ offers e) s' \<and> set out \<subseteq> set (xs @ offers e)"
proof
  have held: "(k, i, bp_payload h') \<in> set xs"
    if "map_of (sr_flows s) k = Some f" "map_of (fs_buffer f) i = Some h'" for k f i h'
    using h that by (simp add: holds_only_def)
  show "holds_only (xs @ offers e) s'"
    unfolding holds_only_def
  proof (intro allI impI)
    fix k f' i h'
    assume f': "map_of (sr_flows s') k = Some f'" and h': "map_of (fs_buffer f') i = Some h'"
    show "(k, i, bp_payload h') \<in> set (xs @ offers e)"
    proof (cases "map_of (sr_flows s) k")
      case None
      with step_absent [OF s e None] f' h' show ?thesis by simp
    next
      case (Some f)
      from step_flow [OF s e Some f'] obtain pid payload where
        d: "delivers f f' pid payload (of_key k out)"
          "(k, pid, payload) \<in> set (offers e) \<or> unblocks f f' (of_key k out)" by blast
      from d(2) show ?thesis
      proof
        assume "(k, pid, payload) \<in> set (offers e)"
        with deliversD(6) [OF d(1) h'] held [OF Some] show ?thesis by auto
      next
        assume "unblocks f f' (of_key k out)"
        from held [OF Some unblocks_held(1) [OF this h']] show ?thesis by simp
      qed
    qed
  qed
  show "set out \<subseteq> set (xs @ offers e)"
  proof
    fix x assume "x \<in> set out"
    then obtain k i p where x: "x = (k, i, p)" and m: "(i, p) \<in> set (of_key k out)"
      by (metis prod_cases3 set_of_key)
    show "x \<in> set (xs @ offers e)"
    proof (cases "map_of (sr_flows s) k")
      case None
      with step_absent [OF s e None] m x show ?thesis by auto
    next
      case (Some f)
      show ?thesis
      proof (cases "map_of (sr_flows s') k")
        case None
        have "of_key k out = []"
          using e
        proof (cases rule: reorder_step.cases)
          case (arrival j cls pid payload now r)
          show ?thesis
          proof (cases "j = k")
            case True
            then have "receive s k cls pid payload now = (s', r)" using arrival(3) by simp
            from moves_receive [OF s Some this] None show ?thesis by (auto simp: moves_def)
          qed (simp add: arrival(2))
        next
          case (clock now rep)
          from reorder_expire_effect [OF s clock(3), of k] Some None clock(2) show ?thesis by auto
        qed simp
        with m show ?thesis by simp
      next
        case (Some f')
        from step_flow [OF s e \<open>map_of (sr_flows s) k = Some f\<close> Some] obtain pid payload where
          d: "delivers f f' pid payload (of_key k out)"
            "(k, pid, payload) \<in> set (offers e) \<or> unblocks f f' (of_key k out)" by blast
        from d(2) show ?thesis
        proof
          assume "(k, pid, payload) \<in> set (offers e)"
          with deliversD(5) [OF d(1) m] held [OF \<open>map_of (sr_flows s) k = Some f\<close>] x show ?thesis by auto
        next
          assume "unblocks f f' (of_key k out)"
          from unblocks_held(2) [OF this m] held [OF \<open>map_of (sr_flows s) k = Some f\<close>] x
          show ?thesis by auto
        qed
      qed
    qed
  qed
qed

lemma run_offered:
  "reorder_run P s es out s' \<Longrightarrow> reorder_ok s \<Longrightarrow> holds_only xs s \<Longrightarrow>
    set out \<subseteq> set (xs @ concat (map offers es))"
proof (induction arbitrary: xs rule: reorder_run.induct)
  case (stay s)
  then show ?case by simp
next
  case (move s e out t es outs u)
  note h = step_holds_only [OF move.prems(1) move.hyps(2) move.prems(2)]
  have "reorder_ok t" using reorder_ok_step [OF move.hyps(2) move.prems(1)] by simp
  from move.IH [OF this conjunct1 [OF h]] conjunct2 [OF h] show ?case by auto
qed

section \<open>Retired flows\<close>

text \<open>The watermark covers everything delivered, skipped or held.\<close>

definition observed :: "flow_state \<Rightarrow> u64 \<Rightarrow> bool" where
  "observed f i \<longleftrightarrow> fs_exhausted f \<or> i < fs_next_expected f \<or> i \<in> keys (fs_buffer f)"

lemma observed_watermark:
  assumes "settled f" and "observed f i"
  shows "i \<le> max_observed_for_flow f"
proof (cases "fs_exhausted f")
  case True
  then show ?thesis by (simp add: max_observed_for_flow_def word_n1_ge)
next
  case False
  have below: "i \<le> sat_sub (fs_next_expected f) 1" if "i < fs_next_expected f"
    using that by (simp add: word_le_nat_alt word_less_nat_alt unat_sat_sub)
  show ?thesis
  proof (cases "fs_buffer f = []")
    case True
    with False assms(2) below show ?thesis by (simp add: observed_def max_observed_for_flow_def Let_def)
  next
    case nonempty: False
    then have m: "max_observed_for_flow f = max (sat_sub (fs_next_expected f) 1) (fst (last (fs_buffer f)))"
      using False by (simp add: max_observed_for_flow_def Let_def split: list.splits)
    have "i \<le> fst (last (fs_buffer f))" if "i \<in> keys (fs_buffer f)"
      using that assms(1) bt_last_greatest [of "fs_buffer f"] by (auto simp: settled_def drainable_def)
    with False assms(2) below show ?thesis by (auto simp: observed_def m le_max_iff_disj)
  qed
qed

definition buried :: "session_reorder \<Rightarrow> receive_key \<Rightarrow> u64 \<Rightarrow> u64 \<Rightarrow> bool" where
  "buried s k w until \<longleftrightarrow> map_of (sr_flows s) k = None \<and>
     map_of (sr_tombstones s) k = Some \<lparr>dt_watermark = w, dt_expires_at_ms = until\<rparr>"

lemma make_room_buries:
  assumes s: "reorder_ok s" and k: "map_of (sr_flows s) k = Some f"
    and gone: "map_of (sr_flows (make_room now s)) k = None"
  shows "buried (make_room now s) k (max_observed_for_flow f)
    (sat_add now (rl_tombstone_ttl_ms (sr_limits s)))"
proof -
  from k gone have full: "make_room now s = reorder_evict_oldest_flow now s" and "sr_flows s \<noteq> []"
    by (auto simp: make_room_def split: if_splits)
  then obtain v g where v: "(v, g) \<in> set (sr_flows s)"
    and e: "sr_flows (make_room now s) = kt_remove v (sr_flows s)"
      "sr_tombstones (make_room now s) =
        sr_tombstones (reorder_insert_tombstone v (max_observed_for_flow g) now (forget_flow v s))"
    unfolding full by (metis reorder_evict_eq)
  have ok: "hm_ok (sr_flows s)" "hm_ok (sr_tombstones s)" using s by (simp_all add: reorder_ok_def)
  have "v = k" using gone k by (auto simp: e map_of_remove split: if_splits)
  moreover from this have "g = f"
    using v k hm.ok_distinct [OF ok(1)] by (simp add: map_of_in_set)
  ultimately show ?thesis
    using gone e(2) bury_facts(2) [OF ok(2)]
    by (simp add: buried_def reorder_insert_tombstone_table)
qed

lemma receive_buries:
  assumes s: "reorder_ok s" and k: "map_of (sr_flows s) k = Some f"
    and r: "receive s j cls pid payload now = (s', r)" and gone: "map_of (sr_flows s') k = None"
  shows "buried s' k (max_observed_for_flow f) (sat_add now (rl_tombstone_ttl_ms (sr_limits s)))"
proof (cases "map_of (sr_flows s) j")
  case (Some g)
  from moves_receive [OF s Some r] k gone show ?thesis by (auto simp: moves_def split: if_splits)
next
  case None
  from receive_absent [OF s None, of cls pid payload now] show ?thesis
  proof (elim disjE exE conjE)
    fix u
    assume u: "reorder_ok u" "sr_flows u = sr_flows s" "sr_limits u = sr_limits s"
      "receive s j cls pid payload now = receive_first u j cls pid payload now"
    have s': "s' = fst (receive_first u j cls pid payload now)" using u(4) r by (metis fst_conv)
    have kj: "k \<noteq> j" using k None by auto
    with gone s' have "map_of (sr_flows (make_room now u)) k = None"
      by (simp add: receive_first_eq map_of_hm_insert)
    from make_room_buries [OF u(1) _ this] k u(2,3) kj gone s' show ?thesis
      by (simp add: buried_def receive_first_eq)
  qed (use r k gone in auto)
qed

lemma expire_flows_tombstones:
  "sr_tombstones (fold (reorder_expire_flow now) idle s) =
     bury_all (rl_max_tombstones (sr_limits s)) (rl_tombstone_ttl_ms (sr_limits s)) now idle (sr_tombstones s)"
proof (induction idle arbitrary: s)
  case Nil
  then show ?case by (simp add: bury_all_def)
next
  case (Cons e idle)
  obtain v u where "e = (v, u)" by fastforce
  with Cons show ?case
    by (simp add: reorder_expire_flow_def reorder_insert_tombstone_table bury_all_Cons)
qed

lemma reorder_expire_tombstones:
  assumes s: "reorder_ok s" and r: "reorder_expire s now = (s', rep)"
  shows "sr_tombstones s' = bury_all (rl_max_tombstones (sr_limits s)) (rl_tombstone_ttl_ms (sr_limits s))
    now (reorder_idle_flows now s) (live_tombstones now (sr_tombstones s))"
proof -
  let ?p = "reorder_purge_expired_tombstones now s"
  let ?idle = "reorder_idle_flows now ?p"
  let ?e = "fold (reorder_expire_flow now) ?idle ?p"
  define u where "u = count (rm_flows_expired_idle_update
    (\<lambda>n. sat_add n (word_of_nat (length ?idle)))) ?e"
  obtain t out where t: "skip_pass now (sort_key skip_order (map fst (sr_flows u))) (u, []) = (t, out)"
    by fastforce
  have u: "reorder_ok u"
    using expire_flows_effect [OF reorder_ok_purge [OF s, of now], of now ?idle] by (simp add: u_def)
  have "distinct (sort_key skip_order (map fst (sr_flows u)))"
    using u by (simp add: reorder_ok_def hm_ok_def)
  from skip_pass_effect [OF t u this] have "sr_tombstones t = sr_tombstones ?e" by (simp add: u_def)
  moreover have "s' = reorder_refresh_counts t"
    using r t by (auto simp: reorder_expire_def Let_def u_def skip_pass_def)
  moreover have "?idle = reorder_idle_flows now s" by (simp add: reorder_idle_flows_def)
  ultimately show ?thesis by (simp add: expire_flows_tombstones)
qed

lemma expire_buries:
  assumes s: "reorder_ok s" and k: "map_of (sr_flows s) k = Some f"
    and r: "reorder_expire s now = (s', rep)" and gone: "map_of (sr_flows s') k = None"
    and room: "length (sr_tombstones s) + length (sr_flows s) \<le> rl_max_tombstones (sr_limits s)"
    and now: "now < sat_add now (rl_tombstone_ttl_ms (sr_limits s))"
  shows "buried s' k (max_observed_for_flow f) (sat_add now (rl_tombstone_ttl_ms (sr_limits s)))"
proof -
  have ok: "hm_ok (sr_flows s)" "hm_ok (sr_tombstones s)" using s by (simp_all add: reorder_ok_def)
  let ?idle = "reorder_idle_flows now s"
  have "is_idle s k now" using reorder_expire_effect [OF s r, of k] k gone by auto
  then obtain g where g: "(k, g) \<in> set (sr_flows s)" "(k, max_observed_for_flow g) \<in> set ?idle"
    by (fastforce simp: is_idle_def reorder_idle_flows_def)
  have "g = f" using g(1) k hm.ok_distinct [OF ok(1)] by (simp add: map_of_in_set)
  have "map fst ?idle = map fst (filter (\<lambda>(k, f). rl_flow_idle_ttl_ms (sr_limits s)
      \<le> sat_sub now (fs_last_activity_ms f)) (sr_flows s))"
    by (simp add: reorder_idle_flows_def case_prod_beta comp_def)
  then have dist: "distinct (map fst ?idle)" using ok(1) by (simp add: hm_ok_def distinct_map_filter)
  have "length ?idle \<le> length (sr_flows s)" by (simp add: reorder_idle_flows_def)
  with room length_live_tombstones [of now "sr_tombstones s"]
  have len: "length (live_tombstones now (sr_tombstones s)) + length ?idle \<le> rl_max_tombstones (sr_limits s)"
    by simp
  from bury_all_guard [OF live_tombstones_ok [OF ok(2)] len dist g(2) now] gone \<open>g = f\<close>
  show ?thesis by (simp add: buried_def reorder_expire_tombstones [OF s r])
qed

text \<open>
  A key is shut up to an identifier: it has no flow and a tombstone that covers the identifier
  until the given time, or it has a flow that is past the identifier.
\<close>

definition shut :: "session_reorder \<Rightarrow> receive_key \<Rightarrow> u64 \<Rightarrow> u64 \<Rightarrow> bool" where
  "shut s k w until \<longleftrightarrow> (case map_of (sr_flows s) k of
     None \<Rightarrow> (\<exists>t. map_of (sr_tombstones s) k = Some t \<and> w \<le> dt_watermark t \<and> until \<le> dt_expires_at_ms t)
   | Some f \<Rightarrow> fs_exhausted f \<or> w < fs_next_expected f)"

text \<open>The tombstones have room for every flow there is.\<close>

definition roomy :: "session_reorder \<Rightarrow> bool" where
  "roomy s \<longleftrightarrow> length (sr_tombstones s) + length (sr_flows s) \<le> rl_max_tombstones (sr_limits s)"

fun occurs_within :: "u64 \<Rightarrow> u64 \<Rightarrow> reorder_event \<Rightarrow> bool" where
  "occurs_within start until (Arrival k cls pid payload now) = (start \<le> now \<and> now < until)"
| "occurs_within start until (Clock now) = (start \<le> now \<and> now < until)"
| "occurs_within start until Rehash = True"

lemma sat_add_later: "a \<le> b \<Longrightarrow> sat_add a c \<le> sat_add b c"
  by (simp add: word_le_nat_alt unat_sat_add min_le_iff_disj)

lemma fresh_flow_past: "w < pid \<Longrightarrow> fs_exhausted (fresh_flow cls pid now) \<or> w < fs_next_expected (fresh_flow cls pid now)"
  using word_inc_less [of pid pid] by (auto simp: fresh_flow_def sat_inc_eq intro: less_trans)

lemma make_room_keeps_tombstone:
  assumes u: "reorder_ok u" and t: "map_of (sr_tombstones u) k = Some t" and live: "now < dt_expires_at_ms t"
    and room: "length (sr_tombstones u) + length (sr_flows u) \<le> rl_max_tombstones (sr_limits u)"
  shows "map_of (sr_tombstones (make_room now u)) k = Some t"
proof (cases "rl_max_flows (sr_limits u) \<le> length (sr_flows u)")
  case True
  then have full: "make_room now u = reorder_evict_oldest_flow now u" by (simp add: make_room_def)
  from True have "sr_flows u \<noteq> []" using sane_pos u by (fastforce simp: reorder_ok_def)
  then obtain v f where v: "(v, f) \<in> set (sr_flows u)"
    and e: "sr_tombstones (make_room now u) =
      sr_tombstones (reorder_insert_tombstone v (max_observed_for_flow f) now (forget_flow v u))"
    unfolding full by (metis reorder_evict_eq)
  have "k \<in> keys (sr_tombstones u)" "v \<in> keys (sr_flows u)" using map_of_SomeD [OF t] v by force+
  then have "k \<noteq> v" using u by (auto simp: reorder_ok_def)
  moreover have "length (sr_tombstones u) < rl_max_tombstones (sr_limits u)"
    using room \<open>sr_flows u \<noteq> []\<close> by (cases "sr_flows u") simp_all
  ultimately show ?thesis
    using bury_keeps [OF _ _ _ live t] u by (simp add: e reorder_insert_tombstone_table reorder_ok_def)
qed (simp add: make_room_def t)

lemma shut_observed: "settled f \<Longrightarrow> fs_exhausted f \<or> w < fs_next_expected f \<Longrightarrow> w \<le> max_observed_for_flow f"
  by (rule observed_watermark) (auto simp: observed_def)

text \<open>An arrival of another key.\<close>

lemma shut_other:
  assumes s: "reorder_ok s" and room: "roomy s" and sh: "shut s k w until"
    and r: "receive s j cls pid payload now = (s', r)" and kj: "k \<noteq> j"
    and time: "now < until" "until \<le> sat_add now (rl_tombstone_ttl_ms (sr_limits s))"
  shows "shut s' k w until"
proof (cases "map_of (sr_flows s) k")
  case (Some f)
  then have past: "fs_exhausted f \<or> w < fs_next_expected f" using sh by (simp add: shut_def)
  from receive_other [OF s r kj] show ?thesis
  proof
    assume "map_of (sr_flows s') k = map_of (sr_flows s) k"
    then show ?thesis using Some past by (simp add: shut_def)
  next
    assume gone: "map_of (sr_flows s') k = None \<and> j \<notin> keys (sr_flows s) \<and> rl_max_flows (sr_limits s) \<le> length (sr_flows s)"
    have "settled f" using flow_bytes_le(2) [OF s Some] by (simp add: flow_inv_def)
    from shut_observed [OF this past] receive_buries [OF s Some r conjunct1 [OF gone]] time(2)
    show ?thesis by (simp add: shut_def buried_def)
  qed
next
  case None
  then obtain t where t: "map_of (sr_tombstones s) k = Some t" "w \<le> dt_watermark t" "until \<le> dt_expires_at_ms t"
    using sh by (auto simp: shut_def)
  have live: "now < dt_expires_at_ms t" using time(1) t(3) by simp
  have none: "map_of (sr_flows s') k = None" using receive_other [OF s r kj] None by auto
  have "map_of (sr_tombstones s') k = Some t"
  proof (cases "map_of (sr_flows s) j")
    case (Some g)
    from moves_receive [OF s Some r] t(1) show ?thesis by (auto simp: moves_def)
  next
    case absent: None
    from receive_absent_opens [OF s absent, of cls pid payload now] show ?thesis
    proof (elim disjE exE conjE)
      fix u
      assume u: "reorder_ok u" "sr_flows u = sr_flows s" "sr_limits u = sr_limits s"
        "sr_tombstones u = kt_remove j (sr_tombstones s)"
        "receive s j cls pid payload now = receive_first u j cls pid payload now"
      have "map_of (sr_tombstones u) k = Some t" using t(1) kj by (simp add: u(4) map_of_remove)
      moreover have "length (sr_tombstones u) + length (sr_flows u) \<le> rl_max_tombstones (sr_limits u)"
        using room length_kt_remove_le [of j "sr_tombstones s"] by (simp add: u roomy_def)
      moreover have "s' = fst (receive_first u j cls pid payload now)" using u(5) r by (metis fst_conv)
      ultimately show ?thesis using make_room_keeps_tombstone [OF u(1) _ live] by (simp add: receive_first_eq)
    qed (use r t(1) in auto)
  qed
  with none t show ?thesis by (simp add: shut_def)
qed

text \<open>An arrival of the key itself.\<close>

lemma shut_own:
  assumes s: "reorder_ok s" and sh: "shut s k w until" and r: "receive s k cls pid payload now = (s', r)"
    and time: "now < until"
  shows "shut s' k w until \<and> (\<forall>(i, p) \<in> set (ro_delivered r). w < i)
    \<and> (pid \<le> w \<longrightarrow> ro_delivered r = [] \<and> ro_dropped r \<noteq> None \<and> (map_of (sr_flows s) k = None \<longrightarrow> map_of (sr_flows s') k = None))"
proof (cases "map_of (sr_flows s) k")
  case (Some f)
  then have past: "fs_exhausted f \<or> w < fs_next_expected f" using sh by (simp add: shut_def)
  obtain f' where f': "map_of (sr_flows s') k = Some f'" and d: "delivers f f' pid payload (ro_delivered r)"
    using moves_receive [OF s Some r] by (auto simp: moves_def)
  have "fs_exhausted f' \<or> w < fs_next_expected f'"
    using past deliversD(2) [OF d] deliversD(3) [OF d] by auto
  moreover have "w < i" if "(i, p) \<in> set (ro_delivered r)" for i p
    using past that deliversD(4) [OF d that] deliversD(3) [OF d] by fastforce
  moreover have "ro_delivered r = [] \<and> ro_dropped r \<noteq> None" if "pid \<le> w"
  proof -
    have "fs_exhausted f \<or> pid < fs_next_expected f" using past that by auto
    then have "ro_delivered (snd (receive s k cls pid payload now)) = [] \<and> ro_dropped (snd (receive s k cls pid payload now)) \<noteq> None"
      using Some by (auto simp: receive_def receive_known_def Let_def outcome_dropped_def)
    then show ?thesis using r by simp
  qed
  ultimately show ?thesis using f' Some by (auto simp: shut_def)
next
  case None
  then obtain t where t: "map_of (sr_tombstones s) k = Some t" "w \<le> dt_watermark t" "until \<le> dt_expires_at_ms t"
    using sh by (auto simp: shut_def)
  then have live: "\<not> dt_expires_at_ms t \<le> now" using time by (simp add: not_le)
  show ?thesis
  proof (cases "cls = Control \<or> pid \<le> dt_watermark t")
    case True
    then have "\<exists>g reason. receive s k cls pid payload now = (count g s, outcome_dropped reason)"
      using None t(1) live by (cases "cls = Control") (auto simp: receive_def)
    then show ?thesis using r sh None by (auto simp: shut_def outcome_dropped_def)
  next
    case False
    let ?u = "s\<lparr>sr_tombstones := kt_remove k (sr_tombstones s)\<rparr>"
    have "receive s k cls pid payload now = receive_first ?u k cls pid payload now"
      using False None t(1) live by (simp add: receive_def)
    then have "s' = fst (receive_first ?u k cls pid payload now)" "r = snd (receive_first ?u k cls pid payload now)"
      using r by (metis fst_conv, metis snd_conv)
    moreover have "w < pid" using False t(2) by auto
    ultimately show ?thesis
      using fresh_flow_past [of w pid cls now] by (simp add: shut_def receive_first_eq map_of_hm_insert outcome_delivered_def not_le)
  qed
qed

text \<open>The clock.\<close>

lemma shut_clock:
  assumes s: "reorder_ok s" and room: "roomy s" and sh: "shut s k w until" and r: "reorder_expire s now = (s', rep)"
    and time: "now < until" "until \<le> sat_add now (rl_tombstone_ttl_ms (sr_limits s))"
  shows "shut s' k w until \<and> (\<forall>(i, p) \<in> set (of_key k (er_delivered rep)). w < i)"
proof (cases "map_of (sr_flows s) k")
  case (Some f)
  then have past: "fs_exhausted f \<or> w < fs_next_expected f" using sh by (simp add: shut_def)
  show ?thesis
  proof (cases "is_idle s k now")
    case True
    then have gone: "map_of (sr_flows s') k = None" "of_key k (er_delivered rep) = []"
      using reorder_expire_effect [OF s r, of k] by blast+
    have "settled f" using flow_bytes_le(2) [OF s Some] by (simp add: flow_inv_def)
    from shut_observed [OF this past] expire_buries [OF s Some r gone(1)] room time gone(2) show ?thesis
      by (simp add: shut_def buried_def roomy_def)
  next
    case False
    then obtain f' pid payload where f': "map_of (sr_flows s') k = Some f'"
      and d: "delivers f f' pid payload (of_key k (er_delivered rep))"
      using reorder_expire_effect [OF s r, of k] Some by (auto simp: unblocks_def)
    have "fs_exhausted f' \<or> w < fs_next_expected f'"
      using past deliversD(2) [OF d] deliversD(3) [OF d] by auto
    moreover have "w < i" if "(i, p) \<in> set (of_key k (er_delivered rep))" for i p
      using past that deliversD(4) [OF d that] deliversD(3) [OF d] by fastforce
    ultimately show ?thesis using f' by (auto simp: shut_def)
  qed
next
  case None
  then obtain t where t: "map_of (sr_tombstones s) k = Some t" "w \<le> dt_watermark t" "until \<le> dt_expires_at_ms t"
    using sh by (auto simp: shut_def)
  have live: "now < dt_expires_at_ms t" using time(1) t(3) by simp
  have ok: "hm_ok (sr_tombstones s)" using s by (simp add: reorder_ok_def)
  let ?idle = "reorder_idle_flows now s"
  have gone: "map_of (sr_flows s') k = None" "of_key k (er_delivered rep) = []"
    using reorder_expire_effect [OF s r, of k] None by blast+
  have "keys ?idle \<subseteq> keys (sr_flows s)" by (force simp: reorder_idle_flows_def)
  then have out: "k \<notin> keys ?idle" using None by (auto simp: map_of_eq_None_iff)
  have "length ?idle \<le> length (sr_flows s)" by (simp add: reorder_idle_flows_def)
  then have len: "length (live_tombstones now (sr_tombstones s)) + length ?idle \<le> rl_max_tombstones (sr_limits s)"
    using room length_live_tombstones [of now "sr_tombstones s"] by (simp add: roomy_def)
  have "map_of (live_tombstones now (sr_tombstones s)) k = Some t"
    using t(1) live ok by (simp add: live_tombstones_def map_of_retain hm.ok_distinct)
  from bury_all_keeps [OF live_tombstones_ok [OF ok] len out live this] gone t show ?thesis
    by (simp add: shut_def reorder_expire_tombstones [OF s r])
qed

lemma shut_step:
  assumes s: "reorder_ok s" and room: "roomy s" and sh: "shut s k w until" and e: "reorder_step s e out s'"
    and time: "occurs_within start until e" "until \<le> sat_add start (rl_tombstone_ttl_ms (sr_limits s))"
  shows "shut s' k w until \<and> (\<forall>i p. (k, i, p) \<in> set out \<longrightarrow> w < i)"
  using e
proof (cases rule: reorder_step.cases)
  case (arrival j cls pid payload now r)
  have at: "now < until" "until \<le> sat_add now (rl_tombstone_ttl_ms (sr_limits s))"
    using time sat_add_later [of start now "rl_tombstone_ttl_ms (sr_limits s)"] arrival(1) by auto
  show ?thesis
  proof (cases "j = k")
    case True
    then have "receive s k cls pid payload now = (s', r)" using arrival(3) by simp
    from shut_own [OF s sh this at(1)] arrival(2) show ?thesis by auto
  next
    case False
    from shut_other [OF s room sh arrival(3) not_sym [OF False] at] False arrival(2) show ?thesis by auto
  qed
next
  case (clock now rep)
  have at: "now < until" "until \<le> sat_add now (rl_tombstone_ttl_ms (sr_limits s))"
    using time sat_add_later [of start now "rl_tombstone_ttl_ms (sr_limits s)"] clock(1) by auto
  from shut_clock [OF s room sh clock(3) at] clock(2) show ?thesis by (auto simp: set_of_key)
next
  case rehash
  obtain fs ts where s': "s' = s\<lparr>sr_flows := fs, sr_tombstones := ts\<rparr>" and ts: "mset ts = mset (sr_tombstones s)"
    using rehash(3) by (auto simp: same_maps_def)
  have "hm_ok (sr_tombstones s)" "hm_ok ts"
    using s same_maps_facts(1) [OF s rehash(3)] by (auto simp: reorder_ok_def s')
  then have "map_of ts = map_of (sr_tombstones s)"
    using ts [THEN mset_eq_setD] by (simp add: map_of_inject_set hm_ok_def)
  then have "map_of (sr_tombstones s') = map_of (sr_tombstones s)" by (simp add: s')
  with same_maps_facts(2) [OF s rehash(3)] sh rehash(2) show ?thesis by (simp add: shut_def split: option.splits)
qed

lemma shut_run:
  "reorder_run roomy s es out u \<Longrightarrow> reorder_ok s \<Longrightarrow> shut s k w until \<Longrightarrow>
    \<forall>e \<in> set es. occurs_within start until e \<Longrightarrow> until \<le> sat_add start (rl_tombstone_ttl_ms (sr_limits s)) \<Longrightarrow>
    shut u k w until \<and> (\<forall>i p. (k, i, p) \<in> set out \<longrightarrow> w < i)"
proof (induction rule: reorder_run.induct)
  case (move s e out t es outs u)
  have "shut t k w until \<and> (\<forall>i p. (k, i, p) \<in> set out \<longrightarrow> w < i)"
    by (rule shut_step [OF move.prems(1) move.hyps(1) move.prems(2) move.hyps(2)]) (use move.prems in auto)
  moreover have "reorder_ok t \<and> sr_limits t = sr_limits s" by (rule reorder_ok_step [OF move.hyps(2) move.prems(1)])
  ultimately show ?case using move.IH move.prems by auto
qed simp

section \<open>Properties\<close>

text \<open>C11. Packets of a flow are delivered in order and at most once: along any run in which
  the flow stays in the table, whatever arrivals, duplicates, reorderings, clock advances and
  arrivals of other flows happen, the identifiers delivered for its key are strictly
  increasing and none is below the head the flow had at the start.\<close>

theorem deliveries_in_order:
  assumes "reorder_reachable s" and "map_of (sr_flows s) k = Some f"
    and "reorder_run (has_flow k) s es out s'"
  shows "sorted_wrt (<) (map fst (of_key k out)) \<and>
    (\<forall>i \<in> set (map fst (of_key k out)). fs_next_expected f \<le> i)"
  using run_ordered [OF assms(3) reorder_reachable_ok [OF assms(1)] assms(2)] by blast

text \<open>C19. Nothing is made up: along any run from a fresh buffer, every delivered packet was
  offered in an arrival of the run, under the same key, the same identifier and with the same
  payload.\<close>

theorem deliveries_were_offered:
  assumes "sane_limits l" and "reorder_new l = Inr s"
    and "reorder_run (\<lambda>_. True) s es out s'"
  shows "set out \<subseteq> set (concat (map offers es))"
proof -
  have "holds_only [] s"
    using assms(2) by (auto simp: reorder_new_def rbind_Inr holds_only_def)
  from run_offered [OF assms(3) reorder_ok_new [OF assms(1,2)] this] show ?thesis by simp
qed

text \<open>The first copy wins: an arrival whose identifier is already held is dropped, whatever
  its payload and class, and what the flow holds does not change.\<close>

theorem held_packet_never_replaced:
  assumes "reorder_reachable s" and f: "map_of (sr_flows s) k = Some f"
    and h: "map_of (fs_buffer f) pid = Some h"
  shows "ro_dropped (snd (receive s k cls pid payload now)) \<noteq> None \<and>
    ro_delivered (snd (receive s k cls pid payload now)) = [] \<and>
    (\<exists>f'. map_of (sr_flows (fst (receive s k cls pid payload now))) k = Some f' \<and>
       fs_buffer f' = fs_buffer f)"
proof -
  have "settled f"
    using flow_bytes_le(2) [OF reorder_reachable_ok [OF assms(1)] f] by (simp add: flow_inv_def)
  moreover have pid: "pid \<in> keys (fs_buffer f)" using map_of_SomeD [OF h] by force
  ultimately have "\<not> fs_exhausted f" "\<not> pid < fs_next_expected f"
    by (auto simp: settled_def drainable_def)
  with f pid show ?thesis
    by (auto simp: receive_def receive_known_def Let_def outcome_dropped_def map_of_hm_insert)
qed

text \<open>No head-of-line blocking between flows: an arrival leaves every other flow exactly as
  it was, except that the first arrival of a new key may evict one when the table is full.\<close>

theorem flows_are_independent:
  assumes "reorder_reachable s" and "receive s j cls pid payload now = (s', r)" and "k \<noteq> j"
  shows "map_of (sr_flows s') k = map_of (sr_flows s) k \<or>
    map_of (sr_flows s') k = None \<and> j \<notin> keys (sr_flows s) \<and>
      length (sr_flows s) = rl_max_flows (sr_limits s)"
  using receive_other [OF reorder_reachable_ok [OF assms(1)] assms(2,3)]
    reorder_reachable_ok [OF assms(1)] by (auto simp: reorder_ok_def)

text \<open>C20. A retired flow does not come back through a replay: once a flow has disappeared, evicted for
  another key or expired by the clock, no identifier it had delivered, skipped or held is delivered
  for its key again while the tombstone's lifetime lasts, whatever arrivals of this and of other
  keys, clock advances, evictions and expiries happen in between, as long as the tombstones have
  room for the flows there are. An arrival with such an identifier is dropped, and it does not
  reopen the flow.\<close>

theorem retired_flow_stays_closed:
  assumes reach: "reorder_reachable s" and k: "map_of (sr_flows s) k = Some f"
    and gone: "map_of (sr_flows s') k = None"
    and how: "receive s j cls' pid' payload' now = (s', r) \<or> reorder_expire s now = (s', rep) \<and> roomy s"
    and run: "reorder_run roomy s' es out u"
    and time: "\<forall>e \<in> set es. occurs_within now (sat_add now (rl_tombstone_ttl_ms (sr_limits s))) e"
      "later < sat_add now (rl_tombstone_ttl_ms (sr_limits s))" "now \<le> later"
  shows "(\<forall>i p. observed f i \<longrightarrow> (k, i, p) \<notin> set out)
    \<and> (\<forall>cls pid payload. observed f pid \<longrightarrow> ro_delivered (snd (receive u k cls pid payload later)) = []
      \<and> ro_dropped (snd (receive u k cls pid payload later)) \<noteq> None
      \<and> (map_of (sr_flows u) k = None \<longrightarrow> map_of (sr_flows (fst (receive u k cls pid payload later))) k = None))"
proof -
  have s: "reorder_ok s" by (rule reorder_reachable_ok [OF reach])
  let ?until = "sat_add now (rl_tombstone_ttl_ms (sr_limits s))" and ?w = "max_observed_for_flow f"
  have "now < ?until" using time(2,3) by simp
  with how have b: "buried s' k ?w ?until"
    using receive_buries [OF s k _ gone] expire_buries [OF s k _ gone] by (auto simp: roomy_def)
  have "settled f" using flow_bytes_le(2) [OF s k] by (simp add: flow_inv_def)
  then have w: "observed f i \<Longrightarrow> i \<le> ?w" for i by (rule observed_watermark)
  have s': "reorder_ok s'" "sr_limits s' = sr_limits s"
    using how reorder_ok_step [OF _ s] reorder_step.arrival reorder_step.clock by blast+
  have "shut s' k ?w ?until" using b by (simp add: shut_def buried_def)
  from shut_run [OF run s'(1) this time(1)] s'(2)
  have shut: "shut u k ?w ?until" and out: "\<And>i p. (k, i, p) \<in> set out \<Longrightarrow> ?w < i" by auto
  have u: "reorder_ok u" using reorder_ok_run [OF run s'(1)] by blast
  have later: "ro_delivered (snd (receive u k cls pid payload later)) = []
      \<and> ro_dropped (snd (receive u k cls pid payload later)) \<noteq> None
      \<and> (map_of (sr_flows u) k = None \<longrightarrow> map_of (sr_flows (fst (receive u k cls pid payload later))) k = None)"
    if "observed f pid" for cls pid payload
  proof -
    from shut_own [OF u shut prod.collapse [symmetric] time(2), of cls pid payload] w [OF that] show ?thesis by blast
  qed
  have "\<forall>i p. observed f i \<longrightarrow> (k, i, p) \<notin> set out" using w out by (metis leD)
  with later show ?thesis by blast
qed

text \<open>C21. The state is bounded and accounted exactly: in every reachable state the numbers of
  flows, tombstones and held packets per flow are within the limits, the byte counters equal
  the bytes actually held and are within the limits, every held identifier lies above the
  head of its flow and within the future window, and an exhausted flow holds nothing.\<close>

theorem reorder_bounds:
  assumes "reorder_reachable s"
  shows "length (sr_flows s) \<le> rl_max_flows (sr_limits s) \<and>
    length (sr_tombstones s) \<le> rl_max_tombstones (sr_limits s) \<and>
    sr_buffered_bytes_session s = flow_bytes (sr_flows s) \<and>
    sr_buffered_bytes_session s \<le> rl_max_bytes_per_session (sr_limits s) \<and>
    (\<forall>(k, f) \<in> set (sr_flows s).
      length (fs_buffer f) \<le> rl_max_packets_per_flow (sr_limits s) \<and>
      fs_buffered_bytes f = held_bytes (fs_buffer f) \<and>
      fs_buffered_bytes f \<le> rl_max_bytes_per_flow (sr_limits s) \<and>
      (fs_exhausted f \<longrightarrow> fs_buffer f = []) \<and>
      (\<forall>i \<in> keys (fs_buffer f). fs_next_expected f < i \<and>
         i - fs_next_expected f \<le> rl_max_future_gap (sr_limits s)))"
proof -
  have ok: "reorder_ok s" by (rule reorder_reachable_ok [OF assms])
  have "length (fs_buffer f) \<le> rl_max_packets_per_flow (sr_limits s) \<and>
      fs_buffered_bytes f = held_bytes (fs_buffer f) \<and>
      fs_buffered_bytes f \<le> rl_max_bytes_per_flow (sr_limits s) \<and>
      (fs_exhausted f \<longrightarrow> fs_buffer f = []) \<and>
      (\<forall>i \<in> keys (fs_buffer f). fs_next_expected f < i \<and>
         i - fs_next_expected f \<le> rl_max_future_gap (sr_limits s))"
    if "(k, f) \<in> set (sr_flows s)" for k f
  proof -
    have "flow_inv (sr_limits s) f" using ok that by (auto simp: reorder_ok_def)
    then show ?thesis by (simp add: flow_inv_def settled_def drainable_def)
  qed
  with ok show ?thesis by (auto simp: reorder_ok_def)
qed

text \<open>A gap is not waited for beyond its deadline: right after a clock advance, the packet
  at the head of every flow's queue has been held for less than the deadline of the flow's
  class.\<close>

theorem head_within_deadline:
  assumes "reorder_reachable s" and r: "reorder_expire s now = (s', rep)"
    and f: "map_of (sr_flows s') k = Some f" and h: "fs_buffer f = (i, h) # rest"
  shows "sat_sub now (bp_arrived_at_ms h) < deadline_for (sr_limits s') (fs_traffic_class f)"
proof -
  note e = reorder_expire_effect [OF reorder_reachable_ok [OF assms(1)] r, of k]
  then have "flow_inv (sr_limits s') f" using flow_bytes_le(2) [OF _ f] by simp
  then have "\<not> fs_exhausted f" "fs_next_expected f < i"
    using h by (auto simp: flow_inv_def settled_def drainable_def)
  moreover have "\<not> due s' k now" using e by blast
  ultimately show ?thesis using due_flow [of s' k s' now] f h by (simp add: not_le)
qed

section \<open>Concrete runs\<close>

definition rb_limits :: reorder_limits where
  "rb_limits = \<lparr>rl_max_flows = 2, rl_max_packets_per_flow = 4, rl_max_bytes_per_flow = 100,
     rl_max_bytes_per_session = 200, rl_flow_idle_ttl_ms = 1000, rl_realtime_deadline_ms = 20,
     rl_interactive_deadline_ms = 100, rl_bulk_deadline_ms = 500, rl_max_tombstones = 2,
     rl_tombstone_ttl_ms = 5000, rl_max_future_gap = 16\<rparr>"

definition rb_new :: session_reorder where
  "rb_new = \<lparr>sr_limits = rb_limits, sr_flows = [], sr_tombstones = [],
     sr_buffered_bytes_session = 0, sr_metrics = reorder_metrics_zero\<rparr>"

definition rb_key :: receive_key where
  "rb_key = Receive_Key 1 GatewayToClient 0 9"

definition "rb_1 = fst (receive rb_new rb_key Interactive 0 [1] 0)"
definition "rb_2 = fst (receive rb_1 rb_key Interactive 5 [5, 5] 10)"
definition "rb_3 = fst (receive rb_2 rb_key Interactive 3 [3] 90)"

lemma rb_sane: "sane_limits rb_limits" "reorder_new rb_limits = Inr rb_new"
  by (simp_all add: sane_limits_def reorder_validate_def reorder_new_def rb_limits_def rb_new_def
      usize_max_def)

lemma reorder_reachable_new: "reorder_reachable rb_new"
proof -
  have "reorder_run (\<lambda>_. True) rb_new [] [] rb_new" by (rule reorder_run.stay) simp
  with rb_sane show ?thesis unfolding reorder_reachable_def by blast
qed

lemma reorder_run_snoc:
  "reorder_run P s es out t \<Longrightarrow> reorder_step t e out' u \<Longrightarrow> P u \<Longrightarrow>
    reorder_run P s (es @ [e]) (out @ out') u"
proof (induction rule: reorder_run.induct)
  case (stay s)
  have "reorder_run P u [] [] u" by (rule reorder_run.stay) (rule stay.prems(2))
  with stay have "reorder_run P s [e] (out' @ []) u" by (intro reorder_run.move)
  then show ?case by simp
next
  case (move s e1 out1 t1 es outs v)
  have "reorder_run P s (e1 # es @ [e]) (out1 @ outs @ out') u"
    by (rule reorder_run.move [OF move.hyps(1,2) move.IH [OF move.prems]])
  then show ?case by simp
qed

lemma reorder_reachable_receive:
  assumes "reorder_reachable s"
  shows "reorder_reachable (fst (receive s k cls pid payload now))"
proof -
  have "reorder_step s (Arrival k cls pid payload now)
      (map (Pair k) (ro_delivered (snd (receive s k cls pid payload now))))
      (fst (receive s k cls pid payload now))" by (rule reorder_step.arrival) simp
  with assms show ?thesis
    unfolding reorder_reachable_def by (blast intro: reorder_run_snoc)
qed

lemma reorder_reachable_expire:
  assumes "reorder_reachable s"
  shows "reorder_reachable (fst (reorder_expire s now))"
proof -
  have "reorder_step s (Clock now) (er_delivered (snd (reorder_expire s now)))
      (fst (reorder_expire s now))" by (rule reorder_step.clock) simp
  with assms show ?thesis
    unfolding reorder_reachable_def by (blast intro: reorder_run_snoc)
qed

lemma rb_reachable: "reorder_reachable rb_1" "reorder_reachable rb_2" "reorder_reachable rb_3"
  unfolding rb_1_def rb_2_def rb_3_def
  by (intro reorder_reachable_receive reorder_reachable_new)+

lemmas receive_eval = receive_def receive_known_def receive_first_def receive_gap_def
  skip_head_gap_if_expired_def reorder_refresh_counts_def hm_insert_def sat_add_def sat_sub_def
  outcome_delivered_def outcome_buffered_def outcome_dropped_def usize_add_def usize_max_def Let_def

lemma rb_1_value:
  "sr_flows rb_1 = [(rb_key, \<lparr>fs_traffic_class = Interactive, fs_next_expected = 1,
     fs_exhausted = False, fs_buffer = [], fs_buffered_bytes = 0, fs_last_activity_ms = 0\<rparr>)]"
  "sr_limits rb_1 = rb_limits" "sr_tombstones rb_1 = []" "sr_buffered_bytes_session rb_1 = 0"
  unfolding rb_1_def by (simp_all add: receive_eval rb_new_def rb_limits_def)

lemma rb_2_value:
  "sr_flows rb_2 = [(rb_key, \<lparr>fs_traffic_class = Interactive, fs_next_expected = 1,
     fs_exhausted = False, fs_buffer = [(5, \<lparr>bp_payload = [5, 5], bp_arrived_at_ms = 10\<rparr>)],
     fs_buffered_bytes = 2, fs_last_activity_ms = 10\<rparr>)]"
  "sr_limits rb_2 = rb_limits" "sr_tombstones rb_2 = []" "sr_buffered_bytes_session rb_2 = 2"
  unfolding rb_2_def by (simp_all add: receive_eval rb_1_value) (simp_all add: rb_limits_def rb_1_value)

lemma rb_3_value:
  "sr_flows rb_3 = [(rb_key, \<lparr>fs_traffic_class = Interactive, fs_next_expected = 1,
     fs_exhausted = False, fs_buffer = [(3, \<lparr>bp_payload = [3], bp_arrived_at_ms = 90\<rparr>),
       (5, \<lparr>bp_payload = [5, 5], bp_arrived_at_ms = 10\<rparr>)],
     fs_buffered_bytes = 3, fs_last_activity_ms = 90\<rparr>)]"
  "sr_limits rb_3 = rb_limits" "sr_tombstones rb_3 = []" "sr_buffered_bytes_session rb_3 = 3"
  unfolding rb_3_def by (simp_all add: receive_eval rb_2_value) (simp_all add: rb_limits_def rb_2_value)

definition "rb_events = [Arrival rb_key Interactive 1 [1] 95, Arrival rb_key Interactive 2 [2] 96]"
definition "rb_4 = fst (receive rb_3 rb_key Interactive 1 [1] 95)"
definition "rb_5 = fst (receive rb_4 rb_key Interactive 2 [2] 96)"

lemma rb_4_value:
  "receive rb_3 rb_key Interactive 1 [1] 95 = (rb_4, outcome_delivered [(1, [1])])"
  "sr_flows rb_4 = [(rb_key, \<lparr>fs_traffic_class = Interactive, fs_next_expected = 2,
     fs_exhausted = False, fs_buffer = [(3, \<lparr>bp_payload = [3], bp_arrived_at_ms = 90\<rparr>),
       (5, \<lparr>bp_payload = [5, 5], bp_arrived_at_ms = 10\<rparr>)],
     fs_buffered_bytes = 3, fs_last_activity_ms = 95\<rparr>)]"
  "sr_buffered_bytes_session rb_4 = 3" "sr_limits rb_4 = rb_limits"
  unfolding rb_4_def by (simp_all add: receive_def receive_known_def rb_3_value Let_def
      drain_stop sat_add_def hm_insert_def)

lemma rb_5_value:
  "receive rb_4 rb_key Interactive 2 [2] 96 = (rb_5, outcome_delivered [(2, [2]), (3, [3])])"
  "sr_flows rb_5 = [(rb_key, \<lparr>fs_traffic_class = Interactive, fs_next_expected = 4,
     fs_exhausted = False, fs_buffer = [(5, \<lparr>bp_payload = [5, 5], bp_arrived_at_ms = 10\<rparr>)],
     fs_buffered_bytes = 2, fs_last_activity_ms = 96\<rparr>)]"
  unfolding rb_5_def by (simp_all add: receive_def receive_known_def rb_4_value Let_def
      drain_stop drain_next sat_add_def hm_insert_def kt_remove_def)

lemma rb_run: "reorder_run (has_flow rb_key) rb_3 rb_events
    [(rb_key, 1, [1]), (rb_key, 2, [2]), (rb_key, 3, [3])] rb_5"
proof -
  have "reorder_step rb_3 (Arrival rb_key Interactive 1 [1] 95) [(rb_key, 1, [1])] rb_4"
    "reorder_step rb_4 (Arrival rb_key Interactive 2 [2] 96) [(rb_key, 2, [2]), (rb_key, 3, [3])] rb_5"
    using reorder_step.arrival [OF rb_4_value(1)] reorder_step.arrival [OF rb_5_value(1)]
    by (simp_all add: outcome_delivered_def)
  moreover have "reorder_run (has_flow rb_key) rb_5 [] [] rb_5"
    by (rule reorder_run.stay) (simp add: rb_5_value)
  ultimately have "reorder_run (has_flow rb_key) rb_3 rb_events
    ([(rb_key, 1, [1])] @ [(rb_key, 2, [2]), (rb_key, 3, [3])] @ []) rb_5"
    unfolding rb_events_def by (intro reorder_run.move) (simp_all add: rb_3_value rb_4_value)
  then show ?thesis by simp
qed

lemma deliveries_in_order_witness:
  "\<exists>out. reorder_run (has_flow rb_key) rb_3 rb_events out rb_5 \<and>
     sorted_wrt (<) (map fst (of_key rb_key out)) \<and> out \<noteq> []"
  using deliveries_in_order [OF rb_reachable(3) _ rb_run] rb_run
  by (intro exI [of _ "[(rb_key, 1, [1]), (rb_key, 2, [2]), (rb_key, 3, [3])]"])
    (simp add: rb_3_value)

lemma deliveries_were_offered_witness:
  "[(rb_key, 0, [1])] = map (Pair rb_key) (ro_delivered (snd (receive rb_new rb_key Interactive 0 [1] 0))) \<and>
   set [(rb_key, 0, [1])] \<subseteq> set (concat (map offers [Arrival rb_key Interactive 0 [1] 0]))"
proof -
  have r: "receive rb_new rb_key Interactive 0 [1] 0 = (rb_1, outcome_delivered [(0, [1])])"
    unfolding rb_1_def by (simp add: receive_def receive_first_def rb_new_def rb_limits_def Let_def)
  have "reorder_run (\<lambda>_. True) rb_1 [] [] rb_1" by (rule reorder_run.stay) simp
  then have "reorder_run (\<lambda>_. True) rb_new [Arrival rb_key Interactive 0 [1] 0] ([(rb_key, 0, [1])] @ []) rb_1"
    using reorder_step.arrival [OF r]
    by (intro reorder_run.move) (simp_all add: outcome_delivered_def)
  from deliveries_were_offered [OF rb_sane this] r show ?thesis by (simp add: outcome_delivered_def)
qed

lemma held_packet_never_replaced_witness:
  "ro_delivered (snd (receive rb_3 rb_key Interactive 5 [6, 6, 6] 95)) = []"
  using held_packet_never_replaced [OF rb_reachable(3), of rb_key _ 5] by (simp add: rb_3_value)

lemma flows_are_independent_witness:
  "map_of (sr_flows (fst (receive rb_3 (Receive_Key 1 GatewayToClient 0 8) Bulk 77 [7] 99))) rb_key =
     map_of (sr_flows rb_3) rb_key"
  using flows_are_independent [OF rb_reachable(3) prod.collapse [symmetric],
      of rb_key "Receive_Key 1 GatewayToClient 0 8" Bulk 77 "[7]" 99]
  by (simp add: rb_3_value rb_limits_def) (simp add: rb_key_def)

text \<open>The flow goes idle at 2000; another flow opens, and then the old packet comes back.\<close>

definition "rb_idle = fst (reorder_expire rb_1 2000)"
definition "rb_other = Receive_Key 1 GatewayToClient 0 8"

lemma rb_idle_value: "sr_flows rb_idle = []" "sr_limits rb_idle = rb_limits"
  "sr_tombstones rb_idle = [(rb_key, \<lparr>dt_watermark = 0, dt_expires_at_ms = 7000\<rparr>)]"
proof -
  have idle: "reorder_idle_flows 2000 rb_1 = [(rb_key, 0)]"
    by (simp add: reorder_idle_flows_def rb_1_value max_observed_for_flow_def sat_sub_def) (simp add: rb_limits_def)
  note e = reorder_expire_effect [OF reorder_reachable_ok [OF rb_reachable(1)] prod.collapse [symmetric],
      where now = 2000, folded rb_idle_def]
  have "map_of (sr_flows rb_idle) k = None" for k
    using e [of k] by (cases "k = rb_key") (auto simp: is_idle_def idle rb_1_value)
  then have "keys (sr_flows rb_idle) = {}" by (metis all_not_in_conv map_of_eq_None_iff)
  then show "sr_flows rb_idle = []" by simp
  show "sr_limits rb_idle = rb_limits" using e rb_1_value by simp
  show "sr_tombstones rb_idle = [(rb_key, \<lparr>dt_watermark = 0, dt_expires_at_ms = 7000\<rparr>)]"
    using reorder_expire_tombstones [OF reorder_reachable_ok [OF rb_reachable(1)] prod.collapse [symmetric],
        where now = 2000, folded rb_idle_def]
    by (simp add: idle rb_1_value bury_all_def bury_def live_tombstones_def tombstone_room_def kt_retain_def hm_insert_def)
      (simp add: rb_limits_def sat_add_def)
qed

definition "rb_open = fst (receive rb_idle rb_other Bulk 4 [7] 2100)"
definition "rb_replay = fst (receive rb_open rb_key Interactive 0 [9] 2200)"

lemma rb_open_value: "receive rb_idle rb_other Bulk 4 [7] 2100 = (rb_open, outcome_delivered [(4, [7])])"
  "length (sr_flows rb_open) = 1" "sr_limits rb_open = rb_limits"
  "sr_tombstones rb_open = [(rb_key, \<lparr>dt_watermark = 0, dt_expires_at_ms = 7000\<rparr>)]" "rb_key \<noteq> rb_other"
  "map_of (sr_flows rb_open) rb_key = None"
  by (simp_all add: rb_open_def receive_def receive_first_def Let_def rb_idle_value)
    (simp_all add: rb_limits_def rb_other_def rb_key_def hm_insert_def)

lemma rb_replay_value: "receive rb_open rb_key Interactive 0 [9] 2200 = (rb_replay, outcome_dropped DropDuplicate)"
  "length (sr_flows rb_replay) = 1" "sr_limits rb_replay = rb_limits"
  "sr_tombstones rb_replay = [(rb_key, \<lparr>dt_watermark = 0, dt_expires_at_ms = 7000\<rparr>)]"
  by (simp_all add: rb_replay_def receive_def rb_open_value)

lemma retired_flow_stays_closed_witness:
  "\<exists>out u. reorder_run roomy rb_idle [Arrival rb_other Bulk 4 [7] 2100, Arrival rb_key Interactive 0 [9] 2200] out u
    \<and> (\<forall>p. (rb_key, 0, p) \<notin> set out) \<and> ro_delivered (snd (receive u rb_key Interactive 0 [9] 2500)) = []"
proof -
  have roomy: "roomy rb_1" "roomy rb_idle" "roomy rb_open" "roomy rb_replay"
    by (simp_all add: roomy_def rb_1_value rb_idle_value rb_open_value rb_replay_value) (simp_all add: rb_limits_def)
  have "reorder_run roomy rb_idle [Arrival rb_other Bulk 4 [7] 2100, Arrival rb_key Interactive 0 [9] 2200]
      (map (Pair rb_other) [(4, [7])] @ map (Pair rb_key) [] @ []) rb_replay"
    using reorder_step.arrival [OF rb_open_value(1)] reorder_step.arrival [OF rb_replay_value(1)] roomy
      reorder_run.stay [of roomy, OF roomy(4)]
    by (intro reorder_run.move) (simp_all add: outcome_delivered_def outcome_dropped_def)
  then have run: "reorder_run roomy rb_idle [Arrival rb_other Bulk 4 [7] 2100, Arrival rb_key Interactive 0 [9] 2200]
      [(rb_other, 4, [7])] rb_replay" by simp
  have k: "map_of (sr_flows rb_1) rb_key = Some (snd (hd (sr_flows rb_1)))" by (simp add: rb_1_value)
  have gone: "map_of (sr_flows rb_idle) rb_key = None" by (simp add: rb_idle_value)
  have how: "reorder_expire rb_1 2000 = (rb_idle, snd (reorder_expire rb_1 2000)) \<and> roomy rb_1"
    using roomy by (simp add: rb_idle_def)
  have ttl: "sat_add 2000 (rl_tombstone_ttl_ms (sr_limits rb_1)) = 7000"
    by (simp add: rb_1_value) (simp add: rb_limits_def sat_add_def)
  have seen: "observed (snd (hd (sr_flows rb_1))) 0" by (simp add: observed_def rb_1_value)
  have "(\<forall>i p. observed (snd (hd (sr_flows rb_1))) i \<longrightarrow> (rb_key, i, p) \<notin> set [(rb_other, 4, [7])])
      \<and> ro_delivered (snd (receive rb_replay rb_key Interactive 0 [9] 2500)) = []"
    using retired_flow_stays_closed [OF rb_reachable(1) k gone disjI2 [OF how] run, of 2500] seen by (simp add: ttl)
  with seen run show ?thesis by blast
qed

lemma reorder_bounds_witness:
  "sr_buffered_bytes_session rb_3 = 3 \<and> flow_bytes (sr_flows rb_3) = 3"
  using reorder_bounds [OF rb_reachable(3)] by (simp add: rb_3_value)

lemma skip_loop_stop: "\<not> due s k now \<Longrightarrow> skip_loop s k now out = (s, out)"
  using skip_cases [of s k now "fst (skip_head_gap_if_expired s k now)" "snd (skip_head_gap_if_expired s k now)"]
  by (subst skip_loop.simps) (auto simp: due_def split: prod.splits option.splits)

lemma rb_3_expired:
  "sr_flows (fst (reorder_expire rb_3 120)) = sr_flows rb_3"
  "sr_limits (fst (reorder_expire rb_3 120)) = rb_limits"
proof -
  have n: "\<not> due (count g (reorder_purge_expired_tombstones 120 rb_3)) rb_key 120" for g
    using due_flow [of "count g (reorder_purge_expired_tombstones 120 rb_3)" rb_key rb_3 120]
    by (simp add: rb_3_value) (simp add: rb_limits_def sat_sub_def)
  have "reorder_idle_flows 120 (reorder_purge_expired_tombstones 120 rb_3) = []"
    by (simp add: reorder_idle_flows_def rb_3_value) (simp add: rb_limits_def sat_sub_def)
  then show "sr_flows (fst (reorder_expire rb_3 120)) = sr_flows rb_3"
    "sr_limits (fst (reorder_expire rb_3 120)) = rb_limits"
    by (simp_all add: reorder_expire_def Let_def rb_3_value skip_loop_stop [OF n])
qed

lemma head_within_deadline_witness:
  "sat_sub 120 (90::u64) < deadline_for (sr_limits (fst (reorder_expire rb_3 120))) Interactive"
proof -
  have "map_of (sr_flows (fst (reorder_expire rb_3 120))) rb_key = Some (snd (hd (sr_flows rb_3)))"
    by (simp add: rb_3_expired(1)) (simp add: rb_3_value)
  from head_within_deadline [OF rb_reachable(3) prod.collapse [symmetric] this]
  show ?thesis by (simp add: rb_3_value)
qed

text \<open>The deadline holds for the head of the queue only: a packet behind it can stay held
  past the deadline of its class, because a skip looks at the arrival time of the smallest
  held identifier and not at the oldest held packet. Here packet 5 has waited 110 ms of its
  100 ms after a clock advance that releases nothing.\<close>

theorem held_beyond_deadline:
  "\<exists>s now k f i h. reorder_reachable s \<and>
    map_of (sr_flows (fst (reorder_expire s now))) k = Some f \<and>
    map_of (fs_buffer f) i = Some h \<and>
    deadline_for (sr_limits s) (fs_traffic_class f) \<le> sat_sub now (bp_arrived_at_ms h)"
proof -
  let ?f = "snd (hd (sr_flows rb_3))"
  have "map_of (sr_flows (fst (reorder_expire rb_3 120))) rb_key = Some ?f"
    by (simp add: rb_3_expired(1)) (simp add: rb_3_value)
  moreover have "map_of (fs_buffer ?f) 5 = Some \<lparr>bp_payload = [5, 5], bp_arrived_at_ms = 10\<rparr>"
    and "deadline_for (sr_limits rb_3) (fs_traffic_class ?f) \<le> sat_sub 120 10"
    by (simp_all add: rb_3_value) (simp add: rb_limits_def sat_sub_def)
  ultimately show ?thesis
    using rb_reachable(3) by (intro exI conjI) (assumption+, simp)
qed

end
