(* ===== verification/Spec2Isabelle.thy ===== *)
theory Spec2Isabelle
  imports PoolRetry PoolSweep JournalProps SessionsProps MtuProps ClassifierProps Engine ListenerProps TicketProps ReplayProps LifecycleTrace ControlProps Envelope DedupProps ReorderTrace
begin

text \<open>
  StreamGuard carries the packets of a device to a gateway over several network paths at once. This
  library models the second version of its protocol, V2: the wire formats, the receive side of the
  multipath layer, the sessions and their paths, the checked send pipeline, and the gateway from the
  admission of a device to the forwarding of its packets. The names are those of the code, prefixed
  where two parts share one; paths below are relative to \<open>src/\<close>.

  \<^bold>\<open>How the parts interact.\<close> A device opens a connection and sends a client hello with a ticket of
  the controller. The listener takes a permit of the handshake limiter, sweeps expired sessions and
  leases, and hands the hello to the admission handler, which verifies the ticket, redeems it in the
  replay cache and its journal, and reserves the session. The listener then reserves addresses of the
  pool, commits the session and the lease, and answers with a \<open>SessionAdmit\<close>; if a step fails it
  unwinds the earlier ones. Later control frames attach and detach paths, each renewing the
  lease. A datagram of the device reaches the engine, which has the session manager check its
  connection, path and epochs, has the forwarder check its source address against the lease, renews
  the lease and forwards the packet. In the other direction packets go through the MTU gate and the
  packet-ID sequencer of the send pipeline; the receiver drops duplicates and restores the order.

  \<^bold>\<open>The theories.\<close> Each component has a theory of definitions, in the order of its source, and one or
  more theories of lemmas that end in its properties, most of them with a run they are applied to.

  \<^item> \<open>Prelude\<close>, \<open>Containers\<close>, \<open>Machine\<close>: saturating and \<open>usize\<close> arithmetic, byte orders, results as
    sums, maps as association lists with the iteration the code relies on, and components as
    machines with their traces. The locales of \<open>Machine\<close> say what an operation has to keep for an
    invariant, or a preorder, to hold along every trace; the components interpret them.
  \<^item> \<open>CoreTypes\<close>, \<open>Envelope\<close>: the identifiers (\<open>crates/sg-core/src/v2.rs\<close>) and the datagram envelope
    (\<open>crates/sg-protocol/src/v2.rs\<close>); a datagram decodes exactly when it is an encoding.
  \<^item> \<open>ControlCodec\<close>: all control frames with their validation (\<open>crates/sg-protocol/src/v2/control.rs\<close>).
  \<^item> \<open>ControlState\<close>, \<open>ControlProps\<close>: the control sequencer of client and gateway
    (\<open>v2/control/state.rs\<close>). A refinement: an exchanged attach leaves both ends in agreement; path
    identifiers are issued once.
  \<^item> \<open>Classifier\<close>, \<open>ClassifierProps\<close>: the packet classifier (\<open>crates/sg-multipath/src/v2/classifier.rs\<close>).
  \<^item> \<open>ReceiveKey\<close>, \<open>Tombstones\<close>, \<open>Dedup\<close>, \<open>DedupProps\<close>: duplicate suppression (\<open>v2/dedup.rs\<close>), equivalent,
    within its capacities, to a filter that remembers everything, and unsafe with room for one
    identifier per flow.
  \<^item> \<open>Reorder\<close>, \<open>ReorderProps\<close>, \<open>ReorderTrace\<close>: the reorder buffer (\<open>v2/reorder.rs\<close>): order and integrity of
    deliveries along traces, retired flows that stay closed, its bounds and byte counters.
  \<^item> \<open>Lifecycle\<close>, \<open>LifecycleProps\<close>, \<open>LifecycleTrace\<close>: one session and its paths
    (\<open>crates/sg-session/src/v2.rs\<close>), with path identifiers reused only under advanced epochs.
  \<^item> \<open>Mtu\<close>, \<open>MtuProps\<close>: path MTU, admission gate, sequencer and send pipeline
    (\<open>crates/sg-transport/src/mtu.rs\<close>).
  \<^item> \<open>Sessions\<close>, \<open>SessionsInv\<close>, \<open>SessionsOps\<close>, \<open>SessionsPaths\<close>, \<open>SessionsProps\<close>: the session manager
    (\<open>apps/streamguard-gateway/src/v2/session_manager.rs\<close>): its invariant over all operations, the
    exactness of the ingress check, removals and capabilities, the limits every session keeps, and
    the path a stale commit strands until its session is removed.
  \<^item> \<open>PoolAddr\<close>, \<open>Pool\<close>, \<open>PoolAlloc\<close>, \<open>PoolInv\<close>, \<open>PoolRecover\<close>, \<open>PoolProps\<close>, \<open>PoolSweep\<close>, \<open>PoolRetry\<close>: the address pool
    (\<open>v2/address_pool.rs\<close>) with every operation split where the code drops its lock, so that
    operations overlap: uniqueness of leases, quarantine, allocation, and, for every answer of the
    store, where a sweep leaves each lease and that a quarantined one stays until its delete.
  \<^item> \<open>Journal\<close>, \<open>JournalProps\<close>: the lease journal, a refinement of an abstract ledger.
  \<^item> \<open>Forwarding\<close>: the source check of uplink packets (\<open>v2/forwarding.rs\<close>).
  \<^item> \<open>Ticket\<close>, \<open>TicketProps\<close>: the verification of tickets (\<open>crates/sg-auth/src/ticket.rs\<close>).
  \<^item> \<open>Replay\<close>, \<open>ReplayProps\<close>: the redemption journal (\<open>v2/replay.rs\<close>) and the replay cache, across
    restarts and failed writes: one redemption per ticket, and starts that fail after the nil ticket.
  \<^item> \<open>Admission\<close>, \<open>AdmissionProps\<close>: the handshake limiter and the admission handler (\<open>v2/admission.rs\<close>).
  \<^item> \<open>Listener\<close>, \<open>ListenerParts\<close>, \<open>ListenerRuns\<close>, \<open>ListenerProps\<close>: the listener (\<open>v2/listener.rs\<close>), which ties
    limiter, tickets, redemption, session manager and pool together; its state, the record
    \<open>gateway\<close>, is the handler, with the session manager in it, and the pool.
  \<^item> \<open>Engine\<close>: the engine (\<open>v2/engine.rs\<close>), whose uplink ingress composes the session manager, the
    forwarder, the pool and the sink.

  \<^bold>\<open>How the state corresponds.\<close> A structure is a record with its fields, an enumeration a datatype. A
  mutex-guarded inner structure is merged into its owner, since each operation holds the lock
  throughout; where the code drops the lock for a store call, the operation is two steps with its plan
  as the value between them. A \<open>BTreeMap\<close> is an association list in key order, a \<open>HashMap\<close> one in the
  order of insertion; properties that depend on neither are stated with \<open>map_of\<close>. Integers are
  machine words, \<open>+\<close> wraps and \<open>sat_add\<close> saturates as in the code, \<open>usize\<close> is a natural number where
  it is the size of something in memory. Errors are values of the code's error enumerations on
  the left of a sum.

  \<^bold>\<open>Parameters.\<close> The transport behind \<open>DatagramSender\<close>; the JSON web token library (\<open>jwt_library\<close>); the
  ends of an atomic file write, with the contents it leaves, and the answers of metadata calls; the
  answers of the store and of the owner queue that runs its calls; the time, which is an argument
  of every operation; how the waits of a connection end. Nothing is assumed of them beyond what a
  property states.

  \<^bold>\<open>Bounds.\<close> The search for a path identifier takes at most 65535 turns, one for each identifier, so
  no eligible one is missed. The IPv4 search visits at most 1048576 hosts before its fallback and the
  IPv6 search at most 65536 subnets; the properties show that the lease limit keeps both from
  failing below it. The invariant of the session manager holds for the first \<open>2 ^ 64 - 2\<close>
  operations, which its reachability predicate counts. All other loops recurse on the
  lists they visit.

  \<^bold>\<open>Not modelled.\<close> The first version of the protocol, its schedulers and health scores, which compute in
  floating point; the client service; QUIC, TLS and the TUN device, which are calls into libraries and
  the operating system; the reading of configuration, the construction of the parts at start and the
  supervision of tasks; poisoned mutexes, which need a panic elsewhere; log messages and the
  redacting \<open>Debug\<close> implementations. The steps of the listener and of the engine run to their end
  with the answers of the environment given: the pool itself, the replay cache and the admission
  handler are also treated with their operations interleaved.
\<close>

end
